(* ===== verification/Prelude.thy ===== *)
theory Prelude
  imports Complex_Main "HOL-Library.Word" "HOL-Library.Char_ord" "HOL-Library.List_Lexorder" "HOL-Library.Multiset"
begin

text \<open>
  What the components share: the machine integer types of the C++ sources, stable
  sorting by a C++ comparator (\<^verbatim>\<open>std::stable_sort\<close>), ordered maps (\<^verbatim>\<open>std::map\<close>) and
  multimaps (\<^verbatim>\<open>std::multimap\<close>) as association lists in key order, and the locales that
  state the contracts the components rely on:
  \<^item> \<open>strict_weak_order\<close>, the C++ \<^emph>\<open>Compare\<close> requirement, which every comparator of
    the sources has to meet for sorting and for priority queues;
  \<^item> \<open>key_map\<close>, lookup after update and after erase;
  \<^item> \<open>op_machine\<close>, an operation machine with an invariant that every operation keeps;
    its lemma lifts the invariant to every run.
  Floating point values of the sources are rational numbers here (exact arithmetic, no
  rounding, no NaN); string comparison is that of \<^verbatim>\<open>std::string\<close> (unsigned bytes,
  lexicographic).
\<close>

unbundle bit_operations_syntax

section \<open>Types and rule collections\<close>

type_synonym u8 = "8 word"
type_synonym u16 = "16 word"
type_synonym u32 = "32 word"
type_synonym u64 = "64 word"
type_synonym i32 = "32 word" \<comment> \<open>two's complement, read by \<open>sint\<close>\<close>
type_synonym guid = u64 \<comment> \<open>the raw value of an \<^verbatim>\<open>ObjectGuid\<close>, which orders them\<close>
type_synonym float32 = rat

named_theorems state_defs \<open>definitions of state updating operations\<close>
named_theorems omap_simps \<open>lookup laws of ordered maps\<close>

abbreviation u32_max :: u32 where
  "u32_max \<equiv> 0xFFFFFFFF"

section \<open>Operation machines\<close>

locale op_machine =
  fixes init :: 's
    and step :: "'s \<Rightarrow> 'op \<Rightarrow> 's"
    and Inv :: "'s \<Rightarrow> bool"
  assumes init_inv: "Inv init"
    and step_inv: "Inv s \<Longrightarrow> Inv (step s a)"
begin

lemma run_from: "Inv s \<Longrightarrow> Inv (foldl step s ops)"
  by (induction ops arbitrary: s) (auto intro: step_inv)

lemma run_inv: "Inv (foldl step init ops)"
  by (rule run_from) (rule init_inv)

end

text \<open>The same where only some operations keep the invariant.\<close>

locale guarded_machine =
  fixes init :: 's
    and step :: "'s \<Rightarrow> 'op \<Rightarrow> 's"
    and Inv :: "'s \<Rightarrow> bool"
    and ok :: "'op \<Rightarrow> bool"
  assumes guarded_init: "Inv init"
    and guarded_step: "ok a \<Longrightarrow> Inv s \<Longrightarrow> Inv (step s a)"
begin

lemma guarded_from: "Inv s \<Longrightarrow> \<forall>a \<in> set ops. ok a \<Longrightarrow> Inv (foldl step s ops)"
  by (induction ops arbitrary: s) (auto intro: guarded_step)

lemma guarded_run: "\<forall>a \<in> set ops. ok a \<Longrightarrow> Inv (foldl step init ops)"
  by (rule guarded_from [OF guarded_init])

end

sublocale op_machine \<subseteq> unguarded: guarded_machine init step Inv "\<lambda>_. True"
  by unfold_locales (rule init_inv, rule step_inv)

section \<open>Comparators and stable sorting\<close>

locale strict_weak_order =
  fixes lt :: "'a \<Rightarrow> 'a \<Rightarrow> bool"
  assumes lt_irrefl: "\<not> lt a a"
    and lt_trans: "lt a b \<Longrightarrow> lt b c \<Longrightarrow> lt a c"
    and lt_negtrans: "\<not> lt a b \<Longrightarrow> \<not> lt b c \<Longrightarrow> \<not> lt a c"
begin

lemma lt_asym: "lt a b \<Longrightarrow> \<not> lt b a"
  using lt_irrefl lt_trans by blast

end

fun insert_before :: "('a \<Rightarrow> 'a \<Rightarrow> bool) \<Rightarrow> 'a \<Rightarrow> 'a list \<Rightarrow> 'a list" where
  "insert_before lt x [] = [x]"
| "insert_before lt x (y # ys) =
     (if lt y x then y # insert_before lt x ys else x # y # ys)"

definition stable_sort :: "('a \<Rightarrow> 'a \<Rightarrow> bool) \<Rightarrow> 'a list \<Rightarrow> 'a list" where
  "stable_sort lt xs = foldr (insert_before lt) xs []"

definition in_order :: "('a \<Rightarrow> 'a \<Rightarrow> bool) \<Rightarrow> 'a list \<Rightarrow> bool" where
  "in_order lt xs = sorted_wrt (\<lambda>a b. \<not> lt b a) xs"

lemma in_order_Nil [simp]: "in_order lt []"
  by (simp add: in_order_def)

lemma mset_insert_before [simp]: "mset (insert_before lt x ys) = add_mset x (mset ys)"
  by (induction ys) auto

lemma set_insert_before [simp]: "set (insert_before lt x ys) = insert x (set ys)"
  by (induction ys) auto

lemma length_insert_before [simp]: "length (insert_before lt x ys) = Suc (length ys)"
  by (induction ys) auto

lemma insert_before_not_Nil [simp]: "insert_before lt x ys \<noteq> []"
  by (cases ys) auto

lemma mset_stable_sort [simp]: "mset (stable_sort lt xs) = mset xs"
  by (induction xs) (auto simp: stable_sort_def)

lemma set_stable_sort [simp]: "set (stable_sort lt xs) = set xs"
  by (metis mset_stable_sort set_mset_mset)

lemma length_stable_sort [simp]: "length (stable_sort lt xs) = length xs"
  by (metis mset_stable_sort size_mset)

lemma distinct_map_insert_before [simp]:
  "distinct (map f (insert_before lt x ys)) \<longleftrightarrow> f x \<notin> f ` set ys \<and> distinct (map f ys)"
  by (induction ys) auto

lemma distinct_map_stable_sort [simp]:
  "distinct (map f (stable_sort lt xs)) = distinct (map f xs)"
  by (metis mset_map mset_stable_sort mset_eq_imp_distinct_iff)

lemma filter_insert_before_pos:
  assumes "\<forall>y. P y \<longrightarrow> \<not> lt y x" and "P x"
  shows "filter P (insert_before lt x ys) = x # filter P ys"
  using assms by (induction ys) auto

lemma filter_insert_before_neg:
  "\<not> P x \<Longrightarrow> filter P (insert_before lt x ys) = filter P ys"
  by (induction ys) auto

context strict_weak_order
begin

lemma in_order_insert_before:
  "in_order lt ys \<Longrightarrow> in_order lt (insert_before lt x ys)"
proof (induction ys)
  case Nil
  then show ?case by (simp add: in_order_def)
next
  case (Cons y ys)
  show ?case
  proof (cases "lt y x")
    case True
    with Cons show ?thesis by (auto simp: in_order_def dest: lt_asym)
  next
    case False
    with Cons.prems have "\<not> lt z x" if "z \<in> set ys" for z
      using that lt_negtrans by (auto simp: in_order_def)
    with False Cons.prems show ?thesis by (auto simp: in_order_def)
  qed
qed

lemma in_order_stable_sort: "in_order lt (stable_sort lt xs)"
  by (induction xs) (auto simp: stable_sort_def in_order_def
      intro: in_order_insert_before [unfolded in_order_def])

text \<open>Stability: elements equivalent to \<open>x\<close> keep their order of submission.\<close>

lemma stable_sort_stable:
  "filter (\<lambda>y. \<not> lt x y \<and> \<not> lt y x) (stable_sort lt xs)
     = filter (\<lambda>y. \<not> lt x y \<and> \<not> lt y x) xs"
proof (induction xs)
  case Nil
  then show ?case by (simp add: stable_sort_def)
next
  case (Cons a xs)
  let ?P = "\<lambda>y. \<not> lt x y \<and> \<not> lt y x"
  show ?case
  proof (cases "?P a")
    case True
    then have "\<forall>y. ?P y \<longrightarrow> \<not> lt y a" using lt_negtrans by blast
    with True Cons show ?thesis
      by (simp add: stable_sort_def filter_insert_before_pos)
  next
    case False
    with Cons show ?thesis
      by (simp add: stable_sort_def filter_insert_before_neg)
  qed
qed

end

section \<open>Ordered maps\<close>

locale key_map =
  fixes empty :: 'm
    and put :: "'k \<Rightarrow> 'v \<Rightarrow> 'm \<Rightarrow> 'm"
    and erase :: "'k \<Rightarrow> 'm \<Rightarrow> 'm"
    and get :: "'m \<Rightarrow> 'k \<Rightarrow> 'v option"
    and invar :: "'m \<Rightarrow> bool"
  assumes get_empty: "get empty k = None"
    and get_put: "get (put k v m) k' = (if k' = k then Some v else get m k')"
    and get_erase: "invar m \<Longrightarrow> get (erase k m) k' = (if k' = k then None else get m k')"
    and invar_empty: "invar empty"
    and invar_put: "invar m \<Longrightarrow> invar (put k v m)"
    and invar_erase: "invar m \<Longrightarrow> invar (erase k m)"
begin

lemma get_put_same: "get (put k v m) k = Some v"
  by (simp add: get_put)

lemma get_erase_put: "invar m \<Longrightarrow> k' \<noteq> k \<Longrightarrow> get (erase k (put k v m)) k' = get m k'"
  by (simp add: get_erase get_put invar_put)

lemma get_erase_None: "invar m \<Longrightarrow> get (erase k m) k = None"
  by (simp add: get_erase)

end

type_synonym ('k, 'v) omap = "('k \<times> 'v) list"

fun om_put :: "'k::linorder \<Rightarrow> 'v \<Rightarrow> ('k, 'v) omap \<Rightarrow> ('k, 'v) omap" where
  "om_put k v [] = [(k, v)]"
| "om_put k v ((a, b) # m) =
     (if k < a then (k, v) # (a, b) # m
      else if k = a then (k, v) # m
      else (a, b) # om_put k v m)"

definition om_erase :: "'k \<Rightarrow> ('k, 'v) omap \<Rightarrow> ('k, 'v) omap" where
  "om_erase k m = filter (\<lambda>(a, b). a \<noteq> k) m"

definition om_get :: "('k, 'v) omap \<Rightarrow> 'k \<Rightarrow> 'v option" where
  "om_get m k = map_of m k"

definition om_ok :: "('k::linorder, 'v) omap \<Rightarrow> bool" where
  "om_ok m = sorted_wrt (<) (map fst m)"

lemma set_fst_om_put: "fst ` set (om_put k v m) = insert k (fst ` set m)"
  by (induction k v m rule: om_put.induct) auto

lemma om_ok_Nil [simp]: "om_ok []"
  by (simp add: om_ok_def)

lemma om_ok_Cons: "om_ok ((a, b) # m) \<longleftrightarrow> (\<forall>k \<in> fst ` set m. a < k) \<and> om_ok m"
  by (auto simp: om_ok_def)

lemma om_ok_put [simp]: "om_ok m \<Longrightarrow> om_ok (om_put k v m)"
proof (induction k v m rule: om_put.induct)
  case (1 k v)
  then show ?case by (simp add: om_ok_def)
next
  case (2 k v a b m)
  then show ?case by (auto simp: om_ok_Cons set_fst_om_put)
qed

lemma om_ok_erase [simp]: "om_ok m \<Longrightarrow> om_ok (om_erase k m)"
  by (induction m) (auto simp: om_erase_def om_ok_Cons)

lemma om_get_put [omap_simps, simp]:
  "om_get (om_put k v m) k' = (if k' = k then Some v else om_get m k')"
  by (induction k v m rule: om_put.induct) (auto simp: om_get_def)

lemma om_get_erase [omap_simps, simp]:
  "om_get (om_erase k m) k' = (if k' = k then None else om_get m k')"
  by (induction m) (auto simp: om_get_def om_erase_def)

lemma om_get_Nil [omap_simps, simp]: "om_get [] k = None"
  by (simp add: om_get_def)

lemma om_get_Cons: "om_get ((a, v) # xs) k = (if k = a then Some v else om_get xs k)"
  by (auto simp: om_get_def)

lemma om_get_eq_SomeD: "om_get m k = Some v \<Longrightarrow> (k, v) \<in> set m"
  by (auto simp: om_get_def dest: map_of_SomeD)

lemma om_ok_distinct: "om_ok m \<Longrightarrow> distinct (map fst m)"
  by (simp add: om_ok_def strict_sorted_iff)

lemma om_ok_get_iff: "om_ok m \<Longrightarrow> om_get m k = Some v \<longleftrightarrow> (k, v) \<in> set m"
  by (simp add: om_get_def om_ok_distinct)

lemma om_get_None_iff: "om_get m k = None \<longleftrightarrow> k \<notin> fst ` set m"
  by (simp add: om_get_def map_of_eq_None_iff)

text \<open>A key that is present is replaced in place, so the size does not change.\<close>

lemma length_om_put:
  "om_ok m \<Longrightarrow> length (om_put k v m) = (if om_get m k = None then Suc (length m) else length m)"
proof (induction k v m rule: om_put.induct)
  case (1 k v)
  then show ?case by (simp add: om_get_def)
next
  case (2 k v a b m)
  then show ?case by (auto simp: om_get_def om_ok_Cons map_of_eq_None_iff dest: order.strict_trans)
qed

lemma length_om_erase:
  "om_ok m \<Longrightarrow> length m = length (om_erase k m) + (if om_get m k = None then 0 else 1)"
proof (induction m)
  case Nil
  then show ?case by (simp add: om_erase_def)
next
  case (Cons x m)
  obtain a b where x: "x = (a, b)" by fastforce
  show ?case
  proof (cases "a = k")
    case True
    with Cons x have "om_get m k = None" by (auto simp: om_ok_Cons om_get_None_iff)
    with Cons x True show ?thesis by (auto simp: om_ok_Cons om_erase_def om_get_def)
  next
    case False
    with Cons x show ?thesis by (auto simp: om_ok_Cons om_erase_def om_get_def)
  qed
qed

interpretation omap: key_map "[]" om_put om_erase om_get om_ok
  by unfold_locales auto

section \<open>Ordered multimaps\<close>

text \<open>\<^verbatim>\<open>std::multimap::insert\<close> places a new pair after the pairs with an equal key.\<close>

fun mm_insert :: "'k::linorder \<Rightarrow> 'v \<Rightarrow> ('k \<times> 'v) list \<Rightarrow> ('k \<times> 'v) list" where
  "mm_insert k v [] = [(k, v)]"
| "mm_insert k v ((a, b) # m) =
     (if k < a then (k, v) # (a, b) # m else (a, b) # mm_insert k v m)"

definition mm_ok :: "('k::linorder \<times> 'v) list \<Rightarrow> bool" where
  "mm_ok m = sorted (map fst m)"

lemma mset_mm_insert [simp]: "mset (mm_insert k v m) = add_mset (k, v) (mset m)"
  by (induction k v m rule: mm_insert.induct) auto

lemma set_mm_insert [simp]: "set (mm_insert k v m) = insert (k, v) (set m)"
  by (induction k v m rule: mm_insert.induct) auto

lemma mm_ok_Nil [simp]: "mm_ok []"
  by (simp add: mm_ok_def)

lemma mm_ok_Cons: "mm_ok ((a, b) # m) \<longleftrightarrow> (\<forall>k \<in> fst ` set m. a \<le> k) \<and> mm_ok m"
  by (auto simp: mm_ok_def)

lemma mm_ok_insert [simp]: "mm_ok m \<Longrightarrow> mm_ok (mm_insert k v m)"
proof (induction k v m rule: mm_insert.induct)
  case (1 k v)
  then show ?case by (simp add: mm_ok_def)
next
  case (2 k v a b m)
  then show ?case by (force simp: mm_ok_Cons)
qed

lemma mm_ok_filter [simp]: "mm_ok m \<Longrightarrow> mm_ok (filter P m)"
  by (induction m) (auto simp: mm_ok_Cons)

lemma mm_insert_first: "\<forall>x \<in> fst ` set m. k < x \<Longrightarrow> mm_insert k v m = (k, v) # m"
  by (cases m) auto

section \<open>Decimal digits\<close>

definition digit :: "nat \<Rightarrow> char" where
  "digit n = char_of (48 + n)"

fun raw_string :: "nat \<Rightarrow> string" where
  "raw_string n = (if n < 10 then [digit n] else raw_string (n div 10) @ [digit (n mod 10)])"

declare raw_string.simps [simp del]

lemma digit_inj: "m < 10 \<Longrightarrow> n < 10 \<Longrightarrow> digit m = digit n \<longleftrightarrow> m = n"
  by (auto simp: digit_def dest!: arg_cong [of _ _ "of_char :: char \<Rightarrow> nat"])

lemma raw_string_digits: "c \<in> set (raw_string n) \<Longrightarrow> \<exists>k < 10. c = digit k"
proof (induction n rule: raw_string.induct)
  case (1 n)
  show ?case
  proof (cases "n < 10")
    case True
    with 1(2) show ?thesis by (auto simp: raw_string.simps [of n])
  next
    case False
    with 1(2) consider "c \<in> set (raw_string (n div 10))" | "c = digit (n mod 10)"
      by (auto simp: raw_string.simps [of n])
    then show ?thesis
    proof cases
      case 1
      with False "1.IH" show ?thesis by blast
    next
      case 2
      then show ?thesis by (intro exI [of _ "n mod 10"]) simp
    qed
  qed
qed

lemma raw_string_ne [simp]: "raw_string n \<noteq> []"
  by (simp add: raw_string.simps [of n])

lemma raw_string_inj: "raw_string m = raw_string n \<Longrightarrow> m = n"
proof (induction m arbitrary: n rule: raw_string.induct)
  case (1 m)
  have two: "k < 10 \<Longrightarrow> [digit k] \<noteq> raw_string (n div 10) @ [digit (n mod 10)]" for k n
    using raw_string_ne [of "n div 10"] by (cases "raw_string (n div 10)") auto
  show ?case
  proof (cases "m < 10")
    case True
    with 1(2) two [of m n] have "n < 10 \<and> digit m = digit n"
      by (auto simp: raw_string.simps [of m] raw_string.simps [of n] split: if_splits)
    with True digit_inj [of m n] show ?thesis by blast
  next
    case False
    then have n: "\<not> n < 10" and eq: "raw_string (m div 10) = raw_string (n div 10)"
      "digit (m mod 10) = digit (n mod 10)"
      using 1(2) by (auto simp: raw_string.simps [of m] raw_string.simps [of n] split: if_splits)
    from "1.IH" [OF False eq(1)] eq(2) have "m div 10 = n div 10" "m mod 10 = n mod 10"
      by (simp_all add: digit_inj)
    then show ?thesis by (metis div_mult_mod_eq)
  qed
qed

section \<open>Small facts\<close>

lemma less_plus_one:
  fixes x :: "'a::len word"
  assumes "x \<noteq> - 1"
  shows "x < x + 1"
proof -
  have "1 + x \<noteq> 0" using assms by (simp add: add_eq_0_iff)
  then have "unat (1 + x) = Suc (unat x)" by (rule unatSuc)
  then have "unat (x + 1) = Suc (unat x)" by (simp only: add.commute [of 1 x])
  then show ?thesis by (simp add: word_less_nat_alt)
qed

lemma unat_u32_less [simp]: "unat (x :: u32) < 4294967296"
proof -
  have "(unsigned x :: nat) < 2 ^ LENGTH(32)" by (rule unsigned_less)
  then show ?thesis by simp
qed

lemma unat_ucast_64_32: "unat (x :: u64) < 2 ^ 32 \<Longrightarrow> unat (ucast x :: u32) = unat x"
  by (simp add: unsigned_ucast_eq take_bit_nat_eq_self)

lemma unat_ucast_32_64 [simp]: "unat (ucast (x :: u32) :: u64) = unat x"
proof -
  have "unat x < 2 ^ 64" by (rule order.strict_trans [OF unat_u32_less]) simp
  then show ?thesis by (simp add: unsigned_ucast_eq take_bit_nat_eq_self)
qed

lemma filter_mset_none: "(\<forall>x \<in> set xs. \<not> P x) \<Longrightarrow> filter P xs = []"
  by (simp add: filter_empty_conv)

lemma and_or_zero_iff:
  "(m :: 'a::len word) AND (a OR b) = 0 \<longleftrightarrow> m AND a = 0 \<and> m AND b = 0"
  by (simp add: bit_eq_iff bit_simps) blast

end
