(* ===== verification/Event_Map.thy ===== *)
theory Event_Map
  imports Prelude
begin

text \<open>
  \<^verbatim>\<open>EventMap\<close> (src/common/Utilities/EventMap.h and .cpp): the timer table of the creature
  scripts. The multimap from due time to event data is a list of pairs in key order; an
  event's data has its id in bits 0--15, its group in bits 16--23 and its phase in bits
  24--31. All times are 32 bit and wrap. The value that \<^verbatim>\<open>urand\<close> draws is an argument of
  the operations that use it.
\<close>

section \<open>State and operations\<close>

record event_map =
  em_time :: u32
  em_phase :: u8
  em_store :: "(u32 \<times> u32) list"
  em_last :: u32

definition EventMap_init :: event_map where
  "EventMap_init = \<lparr>em_time = 0, em_phase = 0, em_store = [], em_last = 0\<rparr>"

definition EventMap_Reset :: "event_map \<Rightarrow> event_map" where
  "EventMap_Reset em = em\<lparr>em_store := [], em_time := 0, em_phase := 0\<rparr>"

definition EventMap_Update :: "u32 \<Rightarrow> event_map \<Rightarrow> event_map" where
  "EventMap_Update t em = em\<lparr>em_time := em_time em + t\<rparr>"

definition EventMap_Empty :: "event_map \<Rightarrow> bool" where
  "EventMap_Empty em = (em_store em = [])"

definition phase_bit :: "u8 \<Rightarrow> u8" where
  "phase_bit p = push_bit (unat p - 1) 1"

definition EventMap_SetPhase :: "u8 \<Rightarrow> event_map \<Rightarrow> event_map" where
  "EventMap_SetPhase p em =
     (if p = 0 then em\<lparr>em_phase := 0\<rparr>
      else if p \<le> 8 then em\<lparr>em_phase := phase_bit p\<rparr>
      else em)"

definition EventMap_AddPhase :: "u8 \<Rightarrow> event_map \<Rightarrow> event_map" where
  "EventMap_AddPhase p em =
     (if p \<noteq> 0 \<and> p \<le> 8 then em\<lparr>em_phase := em_phase em OR phase_bit p\<rparr> else em)"

definition EventMap_RemovePhase :: "u8 \<Rightarrow> event_map \<Rightarrow> event_map" where
  "EventMap_RemovePhase p em =
     (if p \<noteq> 0 \<and> p \<le> 8 then em\<lparr>em_phase := em_phase em AND NOT (phase_bit p)\<rparr> else em)"

definition EventMap_IsInPhase :: "u8 \<Rightarrow> event_map \<Rightarrow> bool" where
  "EventMap_IsInPhase p em = (p \<le> 8 \<and> (p = 0 \<or> em_phase em AND phase_bit p \<noteq> 0))"

definition group_bit :: "u32 \<Rightarrow> u32" where
  "group_bit g = push_bit (unat g + 15) 1"

definition event_data :: "u32 \<Rightarrow> u32 \<Rightarrow> u8 \<Rightarrow> u32" where
  "event_data eventId g p =
     (let e1 = (if g \<noteq> 0 \<and> g \<le> 8 then eventId OR group_bit g else eventId)
      in if p \<noteq> 0 \<and> p \<le> 8 then e1 OR push_bit (unat p + 23) 1 else e1)"

definition EventMap_ScheduleEvent :: "u32 \<Rightarrow> u32 \<Rightarrow> u32 \<Rightarrow> u8 \<Rightarrow> event_map \<Rightarrow> event_map" where
  "EventMap_ScheduleEvent eventId t g p em =
     em\<lparr>em_store := mm_insert (em_time em + t) (event_data eventId g p) (em_store em)\<rparr>"

text \<open>The overloads that take \<^verbatim>\<open>Milliseconds\<close> narrow the 64 bit count to 32 bits; the ones
  with two bounds draw \<open>r\<close> between them, and narrow the phase to 8 bits.\<close>

definition EventMap_ScheduleEvent_ms :: "u32 \<Rightarrow> u64 \<Rightarrow> u32 \<Rightarrow> u8 \<Rightarrow> event_map \<Rightarrow> event_map" where
  "EventMap_ScheduleEvent_ms eventId t g p em = EventMap_ScheduleEvent eventId (ucast t) g p em"

definition EventMap_ScheduleEvent_range ::
  "(u32 \<Rightarrow> u32 \<Rightarrow> u32) \<Rightarrow> u32 \<Rightarrow> u64 \<Rightarrow> u64 \<Rightarrow> u32 \<Rightarrow> u32 \<Rightarrow> event_map \<Rightarrow> event_map" where
  "EventMap_ScheduleEvent_range urand eventId mn mx g p em =
     EventMap_ScheduleEvent eventId (urand (ucast mn) (ucast mx)) g (ucast p) em"

fun cancel_scan :: "(u32 \<Rightarrow> bool) \<Rightarrow> (u32 \<times> u32) list \<Rightarrow> (u32 \<times> u32) list" where
  "cancel_scan hit [] = []"
| "cancel_scan hit ((t, v) # es) =
     (if hit v then cancel_scan hit es else (t, v) # cancel_scan hit es)"

definition EventMap_CancelEvent :: "u32 \<Rightarrow> event_map \<Rightarrow> event_map" where
  "EventMap_CancelEvent eventId em =
     (if EventMap_Empty em then em
      else em\<lparr>em_store := cancel_scan (\<lambda>v. eventId = v AND 0x0000FFFF) (em_store em)\<rparr>)"

definition EventMap_CancelEventGroup :: "u32 \<Rightarrow> event_map \<Rightarrow> event_map" where
  "EventMap_CancelEventGroup g em =
     (if g = 0 \<or> 8 < g \<or> EventMap_Empty em then em
      else em\<lparr>em_store := cancel_scan (\<lambda>v. v AND group_bit g \<noteq> 0) (em_store em)\<rparr>)"

definition EventMap_RescheduleEvent :: "u32 \<Rightarrow> u32 \<Rightarrow> u32 \<Rightarrow> u8 \<Rightarrow> event_map \<Rightarrow> event_map" where
  "EventMap_RescheduleEvent eventId t g p em =
     EventMap_ScheduleEvent eventId t g p (EventMap_CancelEvent eventId em)"

definition EventMap_Repeat :: "u32 \<Rightarrow> event_map \<Rightarrow> event_map" where
  "EventMap_Repeat t em = em\<lparr>em_store := mm_insert (em_time em + t) (em_last em) (em_store em)\<rparr>"

definition EventMap_Repeat_range :: "(u32 \<Rightarrow> u32 \<Rightarrow> u32) \<Rightarrow> u32 \<Rightarrow> u32 \<Rightarrow> event_map \<Rightarrow> event_map" where
  "EventMap_Repeat_range urand mn mx em = EventMap_Repeat (urand mn mx) em"

text \<open>The head of the store is dropped while it is due but belongs to another phase.\<close>

definition phase_blocked :: "u8 \<Rightarrow> u32 \<Rightarrow> bool" where
  "phase_blocked ph v =
     (ph \<noteq> 0 \<and> v AND 0xFF000000 \<noteq> 0 \<and> drop_bit 24 v AND ucast ph = 0)"

fun execute_scan :: "u32 \<Rightarrow> u8 \<Rightarrow> (u32 \<times> u32) list \<Rightarrow> u32 option \<times> (u32 \<times> u32) list" where
  "execute_scan now ph [] = (None, [])"
| "execute_scan now ph ((t, v) # es) =
     (if now < t then (None, (t, v) # es)
      else if phase_blocked ph v then execute_scan now ph es
      else (Some v, es))"

definition EventMap_ExecuteEvent :: "event_map \<Rightarrow> u32 \<times> event_map" where
  "EventMap_ExecuteEvent em =
     (case execute_scan (em_time em) (em_phase em) (em_store em) of
        (None, es) \<Rightarrow> (0, em\<lparr>em_store := es\<rparr>)
      | (Some v, es) \<Rightarrow> (v AND 0x0000FFFF, em\<lparr>em_last := v, em_store := es\<rparr>))"

definition EventMap_DelayEvents :: "u32 \<Rightarrow> event_map \<Rightarrow> event_map" where
  "EventMap_DelayEvents d em =
     em\<lparr>em_time := (if d < em_time em then em_time em - d else 0)\<rparr>"

text \<open>Moves the events of the group into \<open>delayed\<close> (in key order) and inserts them again.\<close>

fun delay_scan :: "u32 \<Rightarrow> u32 \<Rightarrow> (u32 \<times> u32) list \<Rightarrow> (u32 \<times> u32) list \<Rightarrow>
    (u32 \<times> u32) list \<times> (u32 \<times> u32) list" where
  "delay_scan d g [] delayed = ([], delayed)"
| "delay_scan d g ((t, v) # es) delayed =
     (if v AND group_bit g \<noteq> 0 then delay_scan d g es (mm_insert (t + d) v delayed)
      else (case delay_scan d g es delayed of (kept, dl) \<Rightarrow> ((t, v) # kept, dl)))"

fun mm_insert_all :: "(u32 \<times> u32) list \<Rightarrow> (u32 \<times> u32) list \<Rightarrow> (u32 \<times> u32) list" where
  "mm_insert_all [] m = m"
| "mm_insert_all ((t, v) # es) m = mm_insert_all es (mm_insert t v m)"

definition EventMap_DelayEvents_group :: "u32 \<Rightarrow> u32 \<Rightarrow> event_map \<Rightarrow> event_map" where
  "EventMap_DelayEvents_group d g em =
     (if g = 0 \<or> 8 < g \<or> EventMap_Empty em then em
      else (case delay_scan d g (em_store em) [] of
              (kept, delayed) \<Rightarrow> em\<lparr>em_store := mm_insert_all delayed kept\<rparr>))"

fun find_event :: "u32 \<Rightarrow> (u32 \<times> u32) list \<Rightarrow> u32 option" where
  "find_event eventId [] = None"
| "find_event eventId ((t, v) # es) =
     (if eventId = v AND 0x0000FFFF then Some t else find_event eventId es)"

definition EventMap_GetNextEventTime :: "u32 \<Rightarrow> event_map \<Rightarrow> u32" where
  "EventMap_GetNextEventTime eventId em =
     (if EventMap_Empty em then 0
      else case find_event eventId (em_store em) of None \<Rightarrow> 0 | Some t \<Rightarrow> t)"

definition EventMap_GetNextEventTime_any :: "event_map \<Rightarrow> u32" where
  "EventMap_GetNextEventTime_any em = (case em_store em of [] \<Rightarrow> 0 | (t, v) # es \<Rightarrow> t)"

definition EventMap_GetTimeUntilEvent :: "u32 \<Rightarrow> event_map \<Rightarrow> u32" where
  "EventMap_GetTimeUntilEvent eventId em =
     (case find_event eventId (em_store em) of None \<Rightarrow> u32_max | Some t \<Rightarrow> t - em_time em)"

lemmas EventMap_defs =
  EventMap_Reset_def EventMap_Update_def EventMap_Empty_def EventMap_SetPhase_def
  EventMap_AddPhase_def EventMap_RemovePhase_def EventMap_ScheduleEvent_def
  EventMap_CancelEvent_def EventMap_CancelEventGroup_def EventMap_RescheduleEvent_def
  EventMap_Repeat_def EventMap_ExecuteEvent_def EventMap_DelayEvents_def
  EventMap_DelayEvents_group_def

declare EventMap_defs [state_defs]

section \<open>Lemmas on the loops\<close>

lemma cancel_scan_filter: "cancel_scan hit es = filter (\<lambda>(t, v). \<not> hit v) es"
  by (induction hit es rule: cancel_scan.induct) auto

lemma execute_scan_split:
  "execute_scan now ph es = (r, es') \<Longrightarrow>
   \<exists>pre. (\<forall>(t, v) \<in> set pre. t \<le> now \<and> phase_blocked ph v) \<and>
     (case r of
        None \<Rightarrow> es = pre @ es' \<and> (case es' of [] \<Rightarrow> True | (t, v) # _ \<Rightarrow> now < t)
      | Some v \<Rightarrow> \<exists>t. es = pre @ (t, v) # es' \<and> t \<le> now \<and> \<not> phase_blocked ph v)"
proof (induction now ph es arbitrary: r es' rule: execute_scan.induct)
  case (1 now ph)
  then show ?case by (intro exI [of _ "[]"]) auto
next
  case (2 now ph t v es)
  show ?case
  proof (cases "\<not> now < t \<and> phase_blocked ph v")
    case True
    with 2 obtain pre where
      "\<forall>(t, v) \<in> set pre. t \<le> now \<and> phase_blocked ph v"
      "case r of
         None \<Rightarrow> es = pre @ es' \<and> (case es' of [] \<Rightarrow> True | (t, v) # _ \<Rightarrow> now < t)
       | Some v \<Rightarrow> \<exists>t. es = pre @ (t, v) # es' \<and> t \<le> now \<and> \<not> phase_blocked ph v"
      by force
    with True show ?thesis
      by (intro exI [of _ "(t, v) # pre"]) (auto split: option.splits)
  next
    case False
    with "2.prems" show ?thesis
      by (intro exI [of _ "[]"]) (auto split: if_splits)
  qed
qed

lemma execute_scan_suffix: "\<exists>pre. es = pre @ snd (execute_scan now ph es)"
proof (induction now ph es rule: execute_scan.induct)
  case (1 now ph)
  then show ?case by simp
next
  case (2 now ph t v es)
  show ?case
  proof (cases "\<not> now < t \<and> phase_blocked ph v")
    case True
    with 2 obtain pre where "es = pre @ snd (execute_scan now ph es)" by auto
    with True show ?thesis by (intro exI [of _ "(t, v) # pre"]) simp
  next
    case False
    then show ?thesis by (auto intro: exI [of _ "[]"] exI [of _ "[(t, v)]"])
  qed
qed

lemma mm_ok_append2: "mm_ok (pre @ post) \<Longrightarrow> mm_ok post"
  by (simp add: mm_ok_def sorted_append)

lemma mm_ok_execute_scan: "mm_ok es \<Longrightarrow> mm_ok (snd (execute_scan now ph es))"
  by (metis execute_scan_suffix mm_ok_append2)

lemma mm_ok_insert_all: "mm_ok m \<Longrightarrow> mm_ok (mm_insert_all es m)"
  by (induction es m rule: mm_insert_all.induct) auto

lemma mset_mm_insert_all: "mset (mm_insert_all es m) = mset es + mset m"
  by (induction es m rule: mm_insert_all.induct) auto

lemma delay_scan_kept: "fst (delay_scan d g es dl) = filter (\<lambda>(t, v). v AND group_bit g = 0) es"
  by (induction d g es dl rule: delay_scan.induct) (auto split: prod.splits)

lemma delay_scan_delayed:
  "mset (snd (delay_scan d g es dl))
     = image_mset (\<lambda>(t, v). (t + d, v)) (mset (filter (\<lambda>(t, v). v AND group_bit g \<noteq> 0) es)) + mset dl"
  by (induction d g es dl rule: delay_scan.induct) (auto split: prod.splits)

section \<open>The store stays in time order\<close>

datatype em_op =
    OpReset | OpUpdate u32 | OpSetPhase u8 | OpAddPhase u8 | OpRemovePhase u8
  | OpSchedule u32 u32 u32 u8 | OpReschedule u32 u32 u32 u8 | OpRepeat u32 | OpExecute
  | OpDelay u32 | OpDelayGroup u32 u32 | OpCancel u32 | OpCancelGroup u32

fun em_step :: "event_map \<Rightarrow> em_op \<Rightarrow> event_map" where
  "em_step em OpReset = EventMap_Reset em"
| "em_step em (OpUpdate t) = EventMap_Update t em"
| "em_step em (OpSetPhase p) = EventMap_SetPhase p em"
| "em_step em (OpAddPhase p) = EventMap_AddPhase p em"
| "em_step em (OpRemovePhase p) = EventMap_RemovePhase p em"
| "em_step em (OpSchedule i t g p) = EventMap_ScheduleEvent i t g p em"
| "em_step em (OpReschedule i t g p) = EventMap_RescheduleEvent i t g p em"
| "em_step em (OpRepeat t) = EventMap_Repeat t em"
| "em_step em OpExecute = snd (EventMap_ExecuteEvent em)"
| "em_step em (OpDelay d) = EventMap_DelayEvents d em"
| "em_step em (OpDelayGroup d g) = EventMap_DelayEvents_group d g em"
| "em_step em (OpCancel i) = EventMap_CancelEvent i em"
| "em_step em (OpCancelGroup g) = EventMap_CancelEventGroup g em"

lemma ExecuteEvent_store:
  "em_store (snd (EventMap_ExecuteEvent em))
     = snd (execute_scan (em_time em) (em_phase em) (em_store em))"
  by (auto simp: EventMap_ExecuteEvent_def split: prod.splits option.splits)

lemma mm_ok_cancel_scan [simp]: "mm_ok es \<Longrightarrow> mm_ok (cancel_scan hit es)"
  by (simp add: cancel_scan_filter)

lemma em_step_sorted: "mm_ok (em_store em) \<Longrightarrow> mm_ok (em_store (em_step em a))"
proof (cases a)
  case OpExecute
  assume "mm_ok (em_store em)"
  then show ?thesis by (simp add: OpExecute ExecuteEvent_store mm_ok_execute_scan)
next
  case (OpDelayGroup d g)
  assume ok: "mm_ok (em_store em)"
  then have "mm_ok (fst (delay_scan d g (em_store em) []))"
    by (simp add: delay_scan_kept)
  with ok show ?thesis
    by (auto simp: OpDelayGroup EventMap_DelayEvents_group_def split: prod.splits
        intro: mm_ok_insert_all)
qed (auto simp: EventMap_Reset_def EventMap_Update_def EventMap_SetPhase_def
    EventMap_AddPhase_def EventMap_RemovePhase_def EventMap_ScheduleEvent_def
    EventMap_CancelEvent_def EventMap_CancelEventGroup_def EventMap_RescheduleEvent_def
    EventMap_Repeat_def EventMap_DelayEvents_def)

interpretation em: op_machine EventMap_init em_step "\<lambda>em. mm_ok (em_store em)"
  by unfold_locales (auto simp: EventMap_init_def em_step_sorted)

section \<open>Properties\<close>

text \<open>after any sequence of operations from a fresh map, the stored events are in time order.\<close>

theorem EventMap_run_sorted:
  "sorted (map fst (em_store (foldl em_step EventMap_init ops)))"
  using em.run_inv [of ops] by (simp add: mm_ok_def)

text \<open>
  C25: what \<^verbatim>\<open>ExecuteEvent\<close> does to a store in time order. It drops due events of other phases and
  either returns the first due event whose phase is active (and remembers it for \<^verbatim>\<open>Repeat\<close>), or
  returns 0 with every remaining event in the future and nothing due lost but blocked events.
\<close>

theorem EventMap_ExecuteEvent_spec:
  assumes "sorted (map fst (em_store em))" and "EventMap_ExecuteEvent em = (r, em')"
  shows "\<exists>pre. (\<forall>(t, v) \<in> set pre. t \<le> em_time em \<and> phase_blocked (em_phase em) v) \<and>
    em_time em' = em_time em \<and> em_phase em' = em_phase em \<and>
    ((r = 0 \<and> em_last em' = em_last em \<and> em_store em = pre @ em_store em'
        \<and> (\<forall>(t, v) \<in> set (em_store em'). em_time em < t))
     \<or> (\<exists>t v. em_store em = pre @ (t, v) # em_store em' \<and> t \<le> em_time em
          \<and> \<not> phase_blocked (em_phase em) v \<and> r = v AND 0xFFFF \<and> em_last em' = v))"
proof -
  obtain q es where scan: "execute_scan (em_time em) (em_phase em) (em_store em) = (q, es)"
    by fastforce
  then obtain pre where pre: "\<forall>(t, v) \<in> set pre. t \<le> em_time em \<and> phase_blocked (em_phase em) v"
    and rest: "case q of
        None \<Rightarrow> em_store em = pre @ es \<and> (case es of [] \<Rightarrow> True | (t, v) # _ \<Rightarrow> em_time em < t)
      | Some v \<Rightarrow> \<exists>t. em_store em = pre @ (t, v) # es \<and> t \<le> em_time em \<and> \<not> phase_blocked (em_phase em) v"
    using execute_scan_split [OF scan] by blast
  show ?thesis
  proof (cases q)
    case None
    with rest assms(1) have "\<forall>(t, v) \<in> set es. em_time em < t"
      by (auto simp: sorted_append split: list.splits prod.splits)
    with None rest assms(2) pre scan show ?thesis
      by (intro exI [of _ pre]) (auto simp: EventMap_ExecuteEvent_def)
  next
    case (Some v)
    with rest assms(2) pre scan show ?thesis
      by (intro exI [of _ pre]) (auto simp: EventMap_ExecuteEvent_def)
  qed
qed

text \<open>An event of another phase in front of one that is due: the first is dropped, the second returned.\<close>

theorem EventMap_ExecuteEvent_spec_witness:
  "EventMap_ExecuteEvent \<lparr>em_time = 10, em_phase = 1, em_store = [(5, 0x02000007), (9, 3), (20, 4)], em_last = 0\<rparr>
     = (3, \<lparr>em_time = 10, em_phase = 1, em_store = [(20, 4)], em_last = 3\<rparr>)
   \<and> (\<exists>pre. \<forall>(t, v) \<in> set pre. t \<le> (10::u32) \<and> phase_blocked 1 v)"
proof -
  let ?em = "\<lparr>em_time = 10, em_phase = 1, em_store = [(5, 0x02000007), (9, 3), (20, 4)], em_last = 0\<rparr>"
  have run: "EventMap_ExecuteEvent ?em = (3, \<lparr>em_time = 10, em_phase = 1, em_store = [(20, 4)], em_last = 3\<rparr>)"
    by (simp add: EventMap_ExecuteEvent_def phase_blocked_def)
  have srt: "sorted (map fst (em_store ?em))" by simp
  from EventMap_ExecuteEvent_spec [OF srt run]
  have "\<exists>pre. \<forall>(t, v) \<in> set pre. t \<le> em_time ?em \<and> phase_blocked (em_phase ?em) v" by blast
  with run show ?thesis by simp
qed

text \<open>Event data keeps the id, the group and the phase apart when the id fits 16 bits.\<close>

lemma low16_mask: "(0xFFFF :: u32) = mask 16"
  by (simp add: mask_eq_exp_minus_1)

lemma low16_or_push: "16 \<le> n \<Longrightarrow> (v OR push_bit n 1) AND 0xFFFF = v AND (0xFFFF :: u32)"
  unfolding low16_mask by (rule bit_word_eqI) (auto simp: bit_simps)

lemma low16_or_group: "g \<noteq> 0 \<Longrightarrow> (v OR group_bit g) AND 0xFFFF = v AND 0xFFFF"
  unfolding group_bit_def by (rule low16_or_push) (simp add: Suc_le_eq unat_gt_0)

lemma event_data_low16: "event_data i g p AND 0xFFFF = i AND 0xFFFF"
  by (simp add: event_data_def Let_def low16_or_push low16_or_group del: push_bit_of_1)

subsection \<open>A cancelled event does not come back by itself\<close>

definition holds_event :: "u32 \<Rightarrow> event_map \<Rightarrow> bool" where
  "holds_event i em = (\<exists>(t, v) \<in> set (em_store em). v AND 0xFFFF = i)"

fun reschedules :: "u32 \<Rightarrow> em_op \<Rightarrow> bool" where
  "reschedules i (OpSchedule j t g p) = (j AND 0xFFFF = i)"
| "reschedules i (OpReschedule j t g p) = (j AND 0xFFFF = i)"
| "reschedules i (OpRepeat t) = True"
| "reschedules i _ = False"

fun returned :: "event_map \<Rightarrow> em_op list \<Rightarrow> u32 list" where
  "returned em [] = []"
| "returned em (OpExecute # ops) =
     (case EventMap_ExecuteEvent em of (r, em') \<Rightarrow> r # returned em' ops)"
| "returned em (a # ops) = returned (em_step em a) ops"

lemma not_holds_scan:
  assumes "\<not> holds_event i em"
  shows "\<not> holds_event i (snd (EventMap_ExecuteEvent em))"
proof -
  obtain pre where "em_store em = pre @ em_store (snd (EventMap_ExecuteEvent em))"
    using execute_scan_suffix ExecuteEvent_store by metis
  then have "set (em_store (snd (EventMap_ExecuteEvent em))) \<subseteq> set (em_store em)"
    by (metis Un_upper2 set_append)
  with assms show ?thesis unfolding holds_event_def by blast
qed

lemma execute_returns_held:
  assumes "EventMap_ExecuteEvent em = (r, em')" and "r \<noteq> 0"
  shows "holds_event r em"
proof -
  obtain v es where scan: "execute_scan (em_time em) (em_phase em) (em_store em) = (Some v, es)"
    and r: "r = v AND 0xFFFF"
    using assms by (auto simp: EventMap_ExecuteEvent_def split: prod.splits option.splits)
  from execute_scan_split [OF scan] r show ?thesis
    by (auto simp: holds_event_def)
qed

lemma delay_group_not_holds:
  assumes "\<not> holds_event i em"
  shows "\<not> holds_event i (EventMap_DelayEvents_group d g em)"
proof (cases "g = 0 \<or> 8 < g \<or> EventMap_Empty em")
  case True
  with assms show ?thesis by (simp add: EventMap_DelayEvents_group_def)
next
  case False
  obtain kept dl where scan: "delay_scan d g (em_store em) [] = (kept, dl)" by fastforce
  have "set kept \<subseteq> set (em_store em)"
    using delay_scan_kept [of d g "em_store em" "[]"] scan by auto
  moreover have "snd ` set dl \<subseteq> snd ` set (em_store em)"
    using arg_cong [OF delay_scan_delayed [of d g "em_store em" "[]"], of set_mset] scan by force
  moreover have "set (mm_insert_all dl kept) = set dl \<union> set kept"
    by (metis mset_mm_insert_all set_mset_mset set_mset_union)
  ultimately have "snd ` set (mm_insert_all dl kept) \<subseteq> snd ` set (em_store em)" by auto
  with assms False scan show ?thesis
    by (force simp: EventMap_DelayEvents_group_def holds_event_def)
qed

lemma em_step_not_holds:
  assumes "\<not> holds_event i em" and "\<not> reschedules i a"
  shows "\<not> holds_event i (em_step em a)"
proof (cases a)
  case OpExecute
  with assms not_holds_scan show ?thesis by simp
next
  case (OpDelayGroup d g)
  with assms delay_group_not_holds show ?thesis by simp
qed (use assms in \<open>auto simp: EventMap_Reset_def EventMap_Update_def EventMap_SetPhase_def
    EventMap_AddPhase_def EventMap_RemovePhase_def EventMap_ScheduleEvent_def
    EventMap_CancelEvent_def EventMap_CancelEventGroup_def EventMap_RescheduleEvent_def
    EventMap_Repeat_def EventMap_DelayEvents_def holds_event_def cancel_scan_filter
    event_data_low16\<close>)

lemma never_returned:
  "\<not> holds_event i em \<Longrightarrow> i \<noteq> 0 \<Longrightarrow> \<forall>a \<in> set ops. \<not> reschedules i a \<Longrightarrow>
   i \<notin> set (returned em ops)"
proof (induction em ops rule: returned.induct)
  case (2 em ops)
  obtain r em' where run: "EventMap_ExecuteEvent em = (r, em')" by fastforce
  with 2 not_holds_scan [of i em] execute_returns_held [OF run] show ?case by auto
qed (simp_all add: em_step_not_holds del: em_step.simps reschedules.simps)

text \<open>
  C34: once \<^verbatim>\<open>CancelEvent\<close> has run, \<^verbatim>\<open>ExecuteEvent\<close> never returns that id again, whatever
  happens to the timer, the phase and the other events, until the id is scheduled again
  or \<^verbatim>\<open>Repeat\<close> re-queues the last event.
\<close>

theorem EventMap_cancelled_never_returned:
  assumes "i \<noteq> 0" and "\<forall>a \<in> set ops. \<not> reschedules i a"
  shows "i \<notin> set (returned (EventMap_CancelEvent i em) ops)"
proof (rule never_returned)
  show "\<not> holds_event i (EventMap_CancelEvent i em)"
    by (auto simp: EventMap_CancelEvent_def EventMap_Empty_def holds_event_def cancel_scan_filter)
qed (use assms in auto)

theorem EventMap_cancelled_never_returned_witness:
  "7 \<notin> set (returned (EventMap_CancelEvent 7
      \<lparr>em_time = 0, em_phase = 0, em_store = [(5, 7), (9, 3)], em_last = 0\<rparr>)
      [OpSchedule 8 2 1 0, OpUpdate 20, OpExecute, OpDelayGroup 4 1, OpExecute])"
  by (rule EventMap_cancelled_never_returned) auto

subsection \<open>Schedule, wait, execute\<close>

text \<open>
  an event scheduled with delay \<open>d\<close> is returned by the first \<^verbatim>\<open>ExecuteEvent\<close> after the
  timer advanced by \<open>d\<close>, also when the 32 bit clock wraps, if its id fits 16 bits, no stored
  event is due earlier and its phase is unset or active; before that the call returns 0.
\<close>

theorem EventMap_schedule_execute:
  assumes "i AND 0xFFFF = i" and "\<forall>(t, v) \<in> set (em_store em). em_time em + d < t"
    and "\<not> phase_blocked (em_phase em) (event_data i g p)"
  shows "fst (EventMap_ExecuteEvent (EventMap_Update d (EventMap_ScheduleEvent i d g p em))) = i \<and>
    (\<forall>e. em_time em + e < em_time em + d \<longrightarrow>
      fst (EventMap_ExecuteEvent (EventMap_Update e (EventMap_ScheduleEvent i d g p em))) = 0)"
proof -
  have "mm_insert (em_time em + d) (event_data i g p) (em_store em)
      = (em_time em + d, event_data i g p) # em_store em"
    using assms(2) by (intro mm_insert_first) auto
  with assms show ?thesis by (simp add: EventMap_defs event_data_low16)
qed

theorem EventMap_schedule_execute_witness:
  "fst (EventMap_ExecuteEvent (EventMap_Update 500
     (EventMap_ScheduleEvent 3 500 2 1 (EventMap_init\<lparr>em_time := 0xFFFFFF00, em_phase := 1\<rparr>)))) = 3"
  by (rule EventMap_schedule_execute [THEN conjunct1]) (simp_all add: EventMap_init_def phase_blocked_def
      event_data_def group_bit_def)

end
