(* ===== verification/Spell_Queue.thy ===== *)
theory Spell_Queue
  imports Prelude
begin

text \<open>
  \<^verbatim>\<open>BotSpellQueue\<close> (src/server/game/Bots/BotSpellQueue.h and .cpp): a player-like spell queue
  for bots. An intent waits for a native lock (global cooldown, cast or channel) to clear;
  the queue is a \<^verbatim>\<open>std::priority_queue\<close> ordered by release time, then by action priority,
  then by age. A newer intent for a key supersedes the older one, which stays in the heap
  until it surfaces or the heap is compacted. All times are unsigned 64 bit milliseconds.
\<close>

section \<open>Native locks\<close>

definition MaxWaitMs :: u32 where "MaxWaitMs = 3000"
definition RegenerationPollMs :: u32 where "RegenerationPollMs = 100"
definition CombatDecisionIntervalMs :: u32 where "CombatDecisionIntervalMs = 100"
definition PausedReleaseGapMs :: u32 where "PausedReleaseGapMs = 5 * CombatDecisionIntervalMs"

record native_lock =
  GlobalCooldownEndsAtMs :: u64
  CastEndsAtMs :: u64
  ChannelEndsAtMs :: u64

definition ReleaseAtMs :: "native_lock \<Rightarrow> u64" where
  "ReleaseAtMs l = max (max (GlobalCooldownEndsAtMs l) (CastEndsAtMs l)) (ChannelEndsAtMs l)"

definition Locked :: "native_lock \<Rightarrow> u64 \<Rightarrow> bool" where
  "Locked l now = (now < ReleaseAtMs l)"

definition Casting :: "native_lock \<Rightarrow> u64 \<Rightarrow> bool" where
  "Casting l now = (now < CastEndsAtMs l \<or> now < ChannelEndsAtMs l)"

definition LockRetryAtMs :: "native_lock \<Rightarrow> u64 \<Rightarrow> u64" where
  "LockRetryAtMs l now =
     (if \<not> Locked l now then now + ucast RegenerationPollMs
      else if Casting l now then min (ReleaseAtMs l) (now + ucast CombatDecisionIntervalMs)
      else GlobalCooldownEndsAtMs l)"

definition IsRegenerationWaitReason :: "string \<Rightarrow> bool" where
  "IsRegenerationWaitReason reason =
     (reason = ''insufficient_resource'' \<or> reason = ''cooldown_not_ready''
      \<or> reason = ''cooldown_group_not_aligned'' \<or> reason = ''insufficient_combo_points''
      \<or> reason = ''global_cooldown'' \<or> reason = ''already_casting'')"

section \<open>The priority queue\<close>

record entry =
  Key :: string
  Reason :: string
  Prio :: u8
  ReadyAtMs :: u64
  QueuedAtMs :: u64
  Serial :: u64

definition ReleasedLater :: "entry \<Rightarrow> entry \<Rightarrow> bool" where
  "ReleasedLater left right =
     (if ReadyAtMs left \<noteq> ReadyAtMs right then ReadyAtMs right < ReadyAtMs left
      else if Prio left \<noteq> Prio right then Prio left < Prio right
      else Serial right < Serial left)"

text \<open>
  The contract of \<^verbatim>\<open>std::priority_queue\<close>: with a strict weak order \<open>lt\<close>, the top is an
  element that no other one exceeds, and pop removes it.
\<close>

locale priority_queue = strict_weak_order lt for lt :: "'e \<Rightarrow> 'e \<Rightarrow> bool" +
  fixes push :: "'e \<Rightarrow> 'q \<Rightarrow> 'q"
    and pop :: "'q \<Rightarrow> 'q"
    and top :: "'q \<Rightarrow> 'e option"
    and elems :: "'q \<Rightarrow> 'e multiset"
    and invar :: "'q \<Rightarrow> bool"
  assumes elems_push: "elems (push e q) = add_mset e (elems q)"
    and top_None: "top q = None \<longleftrightarrow> elems q = {#}"
    and top_max: "invar q \<Longrightarrow> top q = Some e \<Longrightarrow> e \<in># elems q \<and> (\<forall>x. x \<in># elems q \<longrightarrow> \<not> lt e x)"
    and elems_pop: "top q = Some e \<Longrightarrow> elems (pop q) = elems q - {#e#}"
    and invar_push: "invar q \<Longrightarrow> invar (push e q)"
    and invar_pop: "invar q \<Longrightarrow> invar (pop q)"
begin

text \<open>If the top does not satisfy a property that is inherited upwards, no element does.\<close>

lemma top_decides:
  assumes "invar q" and "top q = Some e" and "\<not> due e"
    and "\<And>a b. due a \<Longrightarrow> \<not> lt b a \<Longrightarrow> due b"
  shows "\<forall>x. x \<in># elems q \<longrightarrow> \<not> due x"
  using assms top_max by blast

end

definition pq_push :: "('e \<Rightarrow> 'e \<Rightarrow> bool) \<Rightarrow> 'e \<Rightarrow> 'e list \<Rightarrow> 'e list" where
  "pq_push lt e q = insert_before (\<lambda>a b. lt b a) e q"

definition pq_pop :: "'e list \<Rightarrow> 'e list" where
  "pq_pop q = tl q"

definition pq_top :: "'e list \<Rightarrow> 'e option" where
  "pq_top q = (case q of [] \<Rightarrow> None | e # _ \<Rightarrow> Some e)"

abbreviation pq_ok :: "('e \<Rightarrow> 'e \<Rightarrow> bool) \<Rightarrow> 'e list \<Rightarrow> bool" where
  "pq_ok lt q \<equiv> in_order (\<lambda>a b. lt b a) q"

interpretation later: strict_weak_order ReleasedLater
  by unfold_locales (auto simp: ReleasedLater_def split: if_splits)

lemma pq_push_ok: "pq_ok ReleasedLater q \<Longrightarrow> pq_ok ReleasedLater (pq_push ReleasedLater e q)"
proof -
  have "strict_weak_order (\<lambda>a b. ReleasedLater b a)"
    by unfold_locales (use later.lt_irrefl later.lt_trans later.lt_negtrans in blast)+
  then show "pq_ok ReleasedLater q \<Longrightarrow> pq_ok ReleasedLater (pq_push ReleasedLater e q)"
    unfolding pq_push_def by (rule strict_weak_order.in_order_insert_before)
qed

interpretation pending: priority_queue ReleasedLater
  "pq_push ReleasedLater" pq_pop pq_top mset "pq_ok ReleasedLater"
proof unfold_locales
  fix q e assume "pq_ok ReleasedLater q" "pq_top q = Some e"
  then show "e \<in># mset q \<and> (\<forall>x. x \<in># mset q \<longrightarrow> \<not> ReleasedLater e x)"
    using later.lt_irrefl by (auto simp: pq_top_def in_order_def split: list.splits)
next
  fix q :: "entry list" assume "pq_ok ReleasedLater q"
  then show "pq_ok ReleasedLater (pq_pop q)"
    by (cases q) (auto simp: pq_pop_def in_order_def)
qed (auto simp: pq_push_def pq_pop_def pq_top_def pq_push_ok [unfolded pq_push_def] split: list.splits)

section \<open>The queue\<close>

record spell_queue =
  pendingQ :: "entry list"
  currentSerialByKey :: "(string, u64) omap"
  nextSerial :: u64
  scheduledN :: u64
  releasedN :: u64
  releasedAfterPause :: u64
  lastReleaseCheckMs :: u64
  totalReleaseLatencyMs :: u64
  maxReleaseLatencyMs :: u64
  lastReleasedKey :: string
  lastReleasedReason :: string

definition Queue_init :: spell_queue where
  "Queue_init = \<lparr>pendingQ = [], currentSerialByKey = [], nextSerial = 0, scheduledN = 0,
     releasedN = 0, releasedAfterPause = 0, lastReleaseCheckMs = 0, totalReleaseLatencyMs = 0,
     maxReleaseLatencyMs = 0, lastReleasedKey = [], lastReleasedReason = []\<rparr>"

definition IsCurrent :: "(string, u64) omap \<Rightarrow> entry \<Rightarrow> bool" where
  "IsCurrent cur e = (case om_get cur (Key e) of None \<Rightarrow> False | Some s \<Rightarrow> s = Serial e)"

fun collect_current :: "(string, u64) omap \<Rightarrow> entry list \<Rightarrow> entry list" where
  "collect_current cur [] = []"
| "collect_current cur (e # q) =
     (if IsCurrent cur e then e # collect_current cur q else collect_current cur q)"

definition DropSuperseded :: "spell_queue \<Rightarrow> spell_queue" where
  "DropSuperseded q =
     q\<lparr>pendingQ := foldl (\<lambda>p e. pq_push ReleasedLater e p) []
        (collect_current (currentSerialByKey q) (pendingQ q))\<rparr>"

definition Queue_Schedule ::
  "string \<Rightarrow> string \<Rightarrow> u8 \<Rightarrow> u64 \<Rightarrow> u64 \<Rightarrow> spell_queue \<Rightarrow> spell_queue" where
  "Queue_Schedule key reason priority readyAt now q =
     (let serial = nextSerial q + 1;
          e = \<lparr>Key = key, Reason = reason, Prio = priority,
               ReadyAtMs = min (max readyAt now) (now + ucast MaxWaitMs),
               QueuedAtMs = now, Serial = serial\<rparr>;
          q' = q\<lparr>nextSerial := serial,
                 currentSerialByKey := om_put key serial (currentSerialByKey q),
                 pendingQ := pq_push ReleasedLater e (pendingQ q),
                 scheduledN := scheduledN q + 1\<rparr>
      in if 4 * length (currentSerialByKey q') + 8 < length (pendingQ q')
         then DropSuperseded q' else q')"

text \<open>One turn of the release loop for the entry on top.\<close>

definition release_top :: "u64 \<Rightarrow> bool \<Rightarrow> entry \<Rightarrow> spell_queue \<Rightarrow> spell_queue" where
  "release_top now resumed e q =
     (let q1 = q\<lparr>releasedN := releasedN q + 1\<rparr>;
          q2 = (if resumed then q1\<lparr>releasedAfterPause := releasedAfterPause q1 + 1\<rparr>
                else let lat = now - ReadyAtMs e in
                  q1\<lparr>totalReleaseLatencyMs := totalReleaseLatencyMs q1 + lat,
                     maxReleaseLatencyMs := max (maxReleaseLatencyMs q1) lat\<rparr>)
      in q2\<lparr>lastReleasedKey := Key e, lastReleasedReason := Reason e,
            currentSerialByKey := om_erase (Key e) (currentSerialByKey q2)\<rparr>)"

function release_loop :: "u64 \<Rightarrow> bool \<Rightarrow> spell_queue \<Rightarrow> u32 \<Rightarrow> spell_queue \<times> u32" where
  "release_loop now resumed q n =
     (case pq_top (pendingQ q) of
        None \<Rightarrow> (q, n)
      | Some e \<Rightarrow>
          if \<not> ReadyAtMs e \<le> now then (q, n)
          else if IsCurrent (currentSerialByKey q) e
            then release_loop now resumed
                   (release_top now resumed e q\<lparr>pendingQ := pq_pop (pendingQ q)\<rparr>) (n + 1)
            else release_loop now resumed (q\<lparr>pendingQ := pq_pop (pendingQ q)\<rparr>) n)"
  by pat_completeness auto
termination
  by (relation "measure (\<lambda>(now, resumed, q, n). length (pendingQ q))")
    (auto simp: pq_pop_def pq_top_def release_top_def Let_def split: list.splits)

declare release_loop.simps [simp del]

definition Queue_ReleaseDue :: "u64 \<Rightarrow> spell_queue \<Rightarrow> spell_queue \<times> u32" where
  "Queue_ReleaseDue now q =
     (let resumed = (lastReleaseCheckMs q \<noteq> 0
            \<and> lastReleaseCheckMs q + ucast PausedReleaseGapMs < now)
      in release_loop now resumed (q\<lparr>lastReleaseCheckMs := now\<rparr>) 0)"

fun drop_stale :: "(string, u64) omap \<Rightarrow> entry list \<Rightarrow> entry list" where
  "drop_stale cur [] = []"
| "drop_stale cur (e # q) = (if IsCurrent cur e then e # q else drop_stale cur q)"

definition Queue_WakeDelayMs :: "u64 \<Rightarrow> u32 \<Rightarrow> spell_queue \<Rightarrow> spell_queue \<times> u32" where
  "Queue_WakeDelayMs now timer q =
     (let q' = q\<lparr>pendingQ := drop_stale (currentSerialByKey q) (pendingQ q)\<rparr>
      in case pq_top (pendingQ q') of
           None \<Rightarrow> (q', timer)
         | Some e \<Rightarrow>
             (let delay = (if now < ReadyAtMs e then ReadyAtMs e - now else 1)
              in (q', ucast (max 1 (min (ucast timer) delay)))))"

definition Queue_Clear :: "spell_queue \<Rightarrow> spell_queue" where
  "Queue_Clear q =
     (if pendingQ q = [] \<and> currentSerialByKey q = [] then q
      else q\<lparr>pendingQ := [], currentSerialByKey := []\<rparr>)"

definition Queue_Empty :: "spell_queue \<Rightarrow> spell_queue \<times> bool" where
  "Queue_Empty q =
     (let p = drop_stale (currentSerialByKey q) (pendingQ q)
      in (q\<lparr>pendingQ := p\<rparr>, p = []))"

section \<open>Lemmas on the loops\<close>

lemma pq_ok_Cons:
  "pq_ok ReleasedLater (e # q) \<longleftrightarrow> (\<forall>x \<in> set q. \<not> ReleasedLater e x) \<and> pq_ok ReleasedLater q"
  by (simp add: in_order_def)

lemma pq_ok_ready: "pq_ok ReleasedLater (e # q) \<Longrightarrow> x \<in> set q \<Longrightarrow> ReadyAtMs e \<le> ReadyAtMs x"
proof (rule ccontr)
  assume ok: "pq_ok ReleasedLater (e # q)" "x \<in> set q" and "\<not> ReadyAtMs e \<le> ReadyAtMs x"
  then have "ReadyAtMs x < ReadyAtMs e" by (simp add: not_le)
  then have "ReleasedLater e x" by (auto simp: ReleasedLater_def)
  with ok(1,2) show False by (simp add: pq_ok_Cons)
qed

lemma pq_ok_filter: "pq_ok ReleasedLater q \<Longrightarrow> pq_ok ReleasedLater (filter P q)"
  by (simp add: in_order_def sorted_wrt_filter)

lemma release_top_simps [simp]:
  "pendingQ (release_top now r e q) = pendingQ q"
  "currentSerialByKey (release_top now r e q) = om_erase (Key e) (currentSerialByKey q)"
  "nextSerial (release_top now r e q) = nextSerial q"
  "releasedN (release_top now r e q) = releasedN q + 1"
  "scheduledN (release_top now r e q) = scheduledN q"
  by (simp_all add: release_top_def Let_def)

lemma release_loop_pending:
  "pq_ok ReleasedLater (pendingQ q) \<Longrightarrow>
   pendingQ (fst (release_loop now r q n)) = filter (\<lambda>e. now < ReadyAtMs e) (pendingQ q)"
proof (induction now r q n rule: release_loop.induct)
  case (1 now r q n)
  show ?case
  proof (cases "pendingQ q")
    case Nil
    then show ?thesis by (simp add: release_loop.simps [of now r q n] pq_top_def)
  next
    case (Cons e es)
    have later: "now < ReadyAtMs e \<Longrightarrow> filter (\<lambda>e. now < ReadyAtMs e) es = es"
      using "1.prems" Cons pq_ok_ready by (force simp: filter_id_conv)
    show ?thesis using 1 Cons later
      by (auto simp: release_loop.simps [of now r q n] pq_top_def pq_pop_def pq_ok_Cons)
  qed
qed

lemma release_loop_current:
  "pq_ok ReleasedLater (pendingQ q) \<Longrightarrow>
   om_get (currentSerialByKey (fst (release_loop now r q n))) k =
     (if \<exists>e \<in> set (pendingQ q). ReadyAtMs e \<le> now \<and> Key e = k \<and> IsCurrent (currentSerialByKey q) e
      then None else om_get (currentSerialByKey q) k)"
proof (induction now r q n rule: release_loop.induct)
  case (1 now r q n)
  show ?case
  proof (cases "pendingQ q")
    case Nil
    then show ?thesis by (simp add: release_loop.simps [of now r q n] pq_top_def)
  next
    case (Cons e es)
    have later: "now < ReadyAtMs e \<Longrightarrow> \<forall>x \<in> set es. \<not> ReadyAtMs x \<le> now"
      using "1.prems" Cons pq_ok_ready by force
    have ok: "pq_ok ReleasedLater es" using "1.prems" Cons by (simp add: pq_ok_Cons)
    show ?thesis
    proof (cases "ReadyAtMs e \<le> now")
      case False
      with later Cons show ?thesis by (auto simp: release_loop.simps [of now r q n] pq_top_def)
    next
      case due: True
      show ?thesis
      proof (cases "IsCurrent (currentSerialByKey q) e")
        case True
        have "IsCurrent (om_erase (Key e) c) x \<longleftrightarrow> Key x \<noteq> Key e \<and> IsCurrent c x" for c x
          by (auto simp: IsCurrent_def)
        with True due ok Cons 1 show ?thesis
          by (auto simp: release_loop.simps [of now r q n] pq_top_def pq_pop_def)
      next
        case False
        with due ok Cons 1 show ?thesis
          by (auto simp: release_loop.simps [of now r q n] pq_top_def pq_pop_def)
      qed
    qed
  qed
qed

lemma release_loop_counts:
  "om_ok (currentSerialByKey q) \<Longrightarrow> release_loop now r q n = (q', n') \<Longrightarrow>
   om_ok (currentSerialByKey q') \<and> nextSerial q' = nextSerial q \<and> scheduledN q' = scheduledN q \<and>
   (\<exists>m. length (currentSerialByKey q) = length (currentSerialByKey q') + m
      \<and> n' = n + of_nat m \<and> releasedN q' = releasedN q + of_nat m)"
proof (induction now r q n rule: release_loop.induct)
  case (1 now r q n)
  show ?case
  proof (cases "pq_top (pendingQ q)")
    case None
    with 1 show ?thesis by (auto simp: release_loop.simps [of now r q n])
  next
    case (Some e)
    let ?q1 = "release_top now r e q\<lparr>pendingQ := pq_pop (pendingQ q)\<rparr>"
    show ?thesis
    proof (cases "ReadyAtMs e \<le> now \<and> IsCurrent (currentSerialByKey q) e")
      case True
      with Some "1.prems" have "release_loop now r ?q1 (n + 1) = (q', n')"
        by (simp add: release_loop.simps [of now r q n])
      with 1 True Some have "om_ok (currentSerialByKey q')" "nextSerial q' = nextSerial q"
        "scheduledN q' = scheduledN q"
        "\<exists>m. length (om_erase (Key e) (currentSerialByKey q)) = length (currentSerialByKey q') + m
          \<and> n' = n + 1 + of_nat m \<and> releasedN q' = releasedN q + 1 + of_nat m"
        by auto
      moreover have "length (currentSerialByKey q)
          = Suc (length (om_erase (Key e) (currentSerialByKey q)))"
        using True length_om_erase [OF "1.prems"(1), of "Key e"]
        by (auto simp: IsCurrent_def split: option.splits)
      ultimately show ?thesis by (force intro: exI [of _ "Suc _"])
    next
      case False
      with 1 Some show ?thesis
        by (auto simp: release_loop.simps [of now r q n] split: if_splits)
    qed
  qed
qed

lemma pq_ok_drop_stale: "pq_ok ReleasedLater q \<Longrightarrow> pq_ok ReleasedLater (drop_stale cur q)"
  by (induction cur q rule: drop_stale.induct) (auto simp: pq_ok_Cons)

lemma drop_stale_keeps: "e \<in> set q \<Longrightarrow> IsCurrent cur e \<Longrightarrow> e \<in> set (drop_stale cur q)"
  by (induction cur q rule: drop_stale.induct) auto

lemma drop_stale_head: "drop_stale cur q = e # es \<Longrightarrow> IsCurrent cur e"
  by (induction cur q rule: drop_stale.induct) (auto split: if_splits)

lemma set_collect_current: "set (collect_current cur q) = {e \<in> set q. IsCurrent cur e}"
  by (induction cur q rule: collect_current.induct) auto

lemma foldl_push:
  "mset (foldl (\<lambda>p e. pq_push ReleasedLater e p) p es) = mset p + mset es"
  "pq_ok ReleasedLater p \<Longrightarrow> pq_ok ReleasedLater (foldl (\<lambda>p e. pq_push ReleasedLater e p) p es)"
  by (induction es arbitrary: p) (auto simp: pending.elems_push pending.invar_push)

lemma DropSuperseded_pending:
  "set (pendingQ (DropSuperseded q)) = {e \<in> set (pendingQ q). IsCurrent (currentSerialByKey q) e}"
  "pq_ok ReleasedLater (pendingQ (DropSuperseded q))"
  "length (pendingQ (DropSuperseded q)) = length (collect_current (currentSerialByKey q) (pendingQ q))"
proof -
  have m: "mset (pendingQ (DropSuperseded q))
      = mset (collect_current (currentSerialByKey q) (pendingQ q))"
    by (simp add: DropSuperseded_def foldl_push)
  then show "set (pendingQ (DropSuperseded q))
      = {e \<in> set (pendingQ q). IsCurrent (currentSerialByKey q) e}"
    by (metis set_collect_current set_mset_mset)
  from m show "length (pendingQ (DropSuperseded q))
      = length (collect_current (currentSerialByKey q) (pendingQ q))"
    by (metis size_mset)
  show "pq_ok ReleasedLater (pendingQ (DropSuperseded q))"
    by (simp add: DropSuperseded_def foldl_push)
qed

section \<open>The queue invariant\<close>

text \<open>The heap is a heap, the key table is a table, and every queued key still has its entry in the heap.\<close>

definition SQ_inv :: "spell_queue \<Rightarrow> bool" where
  "SQ_inv q \<longleftrightarrow> pq_ok ReleasedLater (pendingQ q) \<and> om_ok (currentSerialByKey q) \<and>
     (\<forall>k s. om_get (currentSerialByKey q) k = Some s \<longrightarrow>
        (\<exists>e \<in> set (pendingQ q). Key e = k \<and> Serial e = s))"

lemma SQ_inv_ok [dest]:
  "SQ_inv q \<Longrightarrow> pq_ok ReleasedLater (pendingQ q)" "SQ_inv q \<Longrightarrow> om_ok (currentSerialByKey q)"
  by (simp_all add: SQ_inv_def)

lemma SQ_inv_subset:
  assumes "SQ_inv q" and "currentSerialByKey q' = currentSerialByKey q"
    and "pq_ok ReleasedLater (pendingQ q')"
    and "\<And>e. e \<in> set (pendingQ q) \<Longrightarrow> IsCurrent (currentSerialByKey q) e \<Longrightarrow> e \<in> set (pendingQ q')"
  shows "SQ_inv q'"
proof -
  have "\<exists>e \<in> set (pendingQ q'). Key e = k \<and> Serial e = s"
    if g: "om_get (currentSerialByKey q) k = Some s" for k s
  proof -
    from assms(1) g obtain e where "e \<in> set (pendingQ q)" "Key e = k" "Serial e = s"
      unfolding SQ_inv_def by blast
    with assms(4) [of e] g show ?thesis by (auto simp: IsCurrent_def)
  qed
  with assms(1-3) show ?thesis by (simp add: SQ_inv_def)
qed

lemma DropSuperseded_current [simp]:
  "currentSerialByKey (DropSuperseded q) = currentSerialByKey q"
  by (simp add: DropSuperseded_def)

lemma SQ_inv_DropSuperseded: "SQ_inv q \<Longrightarrow> SQ_inv (DropSuperseded q)"
  by (erule SQ_inv_subset) (simp_all add: DropSuperseded_pending DropSuperseded_current)

lemma SQ_inv_Schedule: "SQ_inv q \<Longrightarrow> SQ_inv (Queue_Schedule k r p t now q)"
proof -
  assume inv: "SQ_inv q"
  let ?q' = "q\<lparr>nextSerial := nextSerial q + 1,
     currentSerialByKey := om_put k (nextSerial q + 1) (currentSerialByKey q),
     pendingQ := pq_push ReleasedLater \<lparr>Key = k, Reason = r, Prio = p,
       ReadyAtMs = min (max t now) (now + ucast MaxWaitMs), QueuedAtMs = now,
       Serial = nextSerial q + 1\<rparr> (pendingQ q), scheduledN := scheduledN q + 1\<rparr>"
  have "SQ_inv ?q'" using inv
    by (auto simp: SQ_inv_def pending.invar_push) (auto simp: pq_push_def split: if_splits)
  then show ?thesis by (simp add: Queue_Schedule_def Let_def SQ_inv_DropSuperseded)
qed

lemma ReleaseDue_facts:
  assumes "SQ_inv q" and "Queue_ReleaseDue now q = (q', n)"
  shows "pendingQ q' = filter (\<lambda>e. now < ReadyAtMs e) (pendingQ q)"
    and "om_get (currentSerialByKey q') k =
       (if \<exists>e \<in> set (pendingQ q). ReadyAtMs e \<le> now \<and> Key e = k \<and> IsCurrent (currentSerialByKey q) e
        then None else om_get (currentSerialByKey q) k)"
    and "om_ok (currentSerialByKey q')"
    and "\<exists>m. length (currentSerialByKey q) = length (currentSerialByKey q') + m
       \<and> n = of_nat m \<and> releasedN q' = releasedN q + of_nat m"
proof -
  let ?r = "lastReleaseCheckMs q \<noteq> 0 \<and> lastReleaseCheckMs q + ucast PausedReleaseGapMs < now"
  let ?q = "q\<lparr>lastReleaseCheckMs := now\<rparr>"
  have rel: "release_loop now ?r ?q 0 = (q', n)"
    using assms(2) by (simp add: Queue_ReleaseDue_def Let_def)
  have ok: "pq_ok ReleasedLater (pendingQ ?q)" "om_ok (currentSerialByKey ?q)"
    using assms(1) by (simp_all add: SQ_inv_ok)
  show "pendingQ q' = filter (\<lambda>e. now < ReadyAtMs e) (pendingQ q)"
    using release_loop_pending [OF ok(1), of now ?r 0] rel by simp
  show "om_get (currentSerialByKey q') k =
       (if \<exists>e \<in> set (pendingQ q). ReadyAtMs e \<le> now \<and> Key e = k \<and> IsCurrent (currentSerialByKey q) e
        then None else om_get (currentSerialByKey q) k)"
    using release_loop_current [OF ok(1), of now ?r 0 k] rel by (simp cong del: if_weak_cong)
  show "om_ok (currentSerialByKey q')"
    "\<exists>m. length (currentSerialByKey q) = length (currentSerialByKey q') + m
       \<and> n = of_nat m \<and> releasedN q' = releasedN q + of_nat m"
    using release_loop_counts [OF ok(2) rel] by simp_all
qed

lemma SQ_inv_ReleaseDue: "SQ_inv q \<Longrightarrow> SQ_inv (fst (Queue_ReleaseDue now q))"
proof -
  assume inv: "SQ_inv q"
  obtain q' n where run: "Queue_ReleaseDue now q = (q', n)" by fastforce
  note facts = ReleaseDue_facts [OF inv run]
  have "\<exists>e \<in> set (pendingQ q'). Key e = k \<and> Serial e = s"
    if g: "om_get (currentSerialByKey q') k = Some s" for k s
  proof -
    from g facts(2) [of k] have none: "\<not> (\<exists>e \<in> set (pendingQ q). ReadyAtMs e \<le> now \<and> Key e = k
        \<and> IsCurrent (currentSerialByKey q) e)" and g0: "om_get (currentSerialByKey q) k = Some s"
      by (auto split: if_splits)
    from g0 inv obtain e where e: "e \<in> set (pendingQ q)" "Key e = k" "Serial e = s"
      by (auto simp: SQ_inv_def)
    with g0 have "IsCurrent (currentSerialByKey q) e" by (simp add: IsCurrent_def)
    with none e have "now < ReadyAtMs e" by force
    with e facts(1) show ?thesis by auto
  qed
  then show ?thesis
    using run facts(1,3) SQ_inv_ok(1) [OF inv] by (simp add: SQ_inv_def pq_ok_filter)
qed

lemma SQ_inv_drop_stale:
  assumes "SQ_inv q"
  shows "SQ_inv (q\<lparr>pendingQ := drop_stale (currentSerialByKey q) (pendingQ q)\<rparr>)"
  by (rule SQ_inv_subset [OF assms]) (simp_all add: pq_ok_drop_stale drop_stale_keeps SQ_inv_ok [OF assms])

datatype sq_op = SQ_Schedule string string u8 u64 u64 | SQ_ReleaseDue u64 | SQ_WakeDelay u64 u32
  | SQ_Clear | SQ_Empty

fun sq_step :: "spell_queue \<Rightarrow> sq_op \<Rightarrow> spell_queue" where
  "sq_step q (SQ_Schedule k r p t now) = Queue_Schedule k r p t now q"
| "sq_step q (SQ_ReleaseDue now) = fst (Queue_ReleaseDue now q)"
| "sq_step q (SQ_WakeDelay now timer) = fst (Queue_WakeDelayMs now timer q)"
| "sq_step q SQ_Clear = Queue_Clear q"
| "sq_step q SQ_Empty = fst (Queue_Empty q)"

interpretation sq: op_machine Queue_init sq_step SQ_inv
proof unfold_locales
  show "SQ_inv Queue_init" by (simp add: SQ_inv_def Queue_init_def)
next
  fix q a assume inv: "SQ_inv q"
  show "SQ_inv (sq_step q a)"
  proof (cases a)
    case SQ_Clear
    with inv show ?thesis by (auto simp: Queue_Clear_def SQ_inv_def)
  next
    case (SQ_WakeDelay now timer)
    with SQ_inv_drop_stale [OF inv] show ?thesis
      by (auto simp: Queue_WakeDelayMs_def Let_def split: option.splits)
  qed (use inv in \<open>auto simp: SQ_inv_Schedule SQ_inv_ReleaseDue Queue_Empty_def Let_def SQ_inv_drop_stale\<close>)
qed

section \<open>Properties\<close>

text \<open>
  \<^verbatim>\<open>ReleaseDue\<close> on a well formed queue releases exactly the intents whose time has come. The
  keys with a due current entry leave the table, all others stay; nothing due remains in the heap
  and nothing in the future is removed; the result and the counter count the released keys.
\<close>

theorem SpellQueue_ReleaseDue_spec:
  assumes "SQ_inv q" and "Queue_ReleaseDue now q = (q', n)"
  shows "pendingQ q' = filter (\<lambda>e. now < ReadyAtMs e) (pendingQ q) \<and>
    (\<forall>k. om_get (currentSerialByKey q') k =
       (if \<exists>e \<in> set (pendingQ q). ReadyAtMs e \<le> now \<and> Key e = k \<and> IsCurrent (currentSerialByKey q) e
        then None else om_get (currentSerialByKey q) k)) \<and>
    (\<exists>m. length (currentSerialByKey q) = length (currentSerialByKey q') + m
       \<and> n = of_nat m \<and> releasedN q' = releasedN q + of_nat m)"
  using ReleaseDue_facts [OF assms] by blast

theorem SpellQueue_ReleaseDue_spec_witness:
  "snd (Queue_ReleaseDue 45 (foldl sq_step Queue_init
      [SQ_Schedule ''a'' ''r'' 1 50 10, SQ_Schedule ''b'' ''r'' 2 40 10])) = 1
   \<and> om_get (currentSerialByKey (fst (Queue_ReleaseDue 45 (foldl sq_step Queue_init
      [SQ_Schedule ''a'' ''r'' 1 50 10, SQ_Schedule ''b'' ''r'' 2 40 10])))) ''b'' = None"
proof -
  let ?q = "foldl sq_step Queue_init
      [SQ_Schedule ''a'' ''r'' 1 50 10, SQ_Schedule ''b'' ''r'' 2 40 10]"
  have inv: "SQ_inv ?q" by (rule sq.run_inv)
  obtain q' n where run: "Queue_ReleaseDue 45 ?q = (q', n)" by fastforce
  have pend: "\<exists>e \<in> set (pendingQ ?q). ReadyAtMs e \<le> 45 \<and> Key e = ''b'' \<and> IsCurrent (currentSerialByKey ?q) e"
    by (simp add: Queue_init_def Queue_Schedule_def Let_def pq_push_def ReleasedLater_def
        MaxWaitMs_def IsCurrent_def om_get_def)
  from SpellQueue_ReleaseDue_spec [OF inv run] pend
  have "om_get (currentSerialByKey q') ''b'' = None" by presburger
  moreover have "snd (Queue_ReleaseDue 45 ?q) = 1" by code_simp
  ultimately show ?thesis using run by simp
qed

lemma drop_stale_sorted:
  assumes "pq_ok ReleasedLater q" and "drop_stale cur q = e # es"
    and "x \<in> set q" and "IsCurrent cur x"
  shows "ReadyAtMs e \<le> ReadyAtMs x"
proof -
  have "x \<in> set (e # es)" using drop_stale_keeps [OF assms(3,4)] assms(2) by simp
  moreover have "pq_ok ReleasedLater (e # es)"
    using pq_ok_drop_stale [OF assms(1), of cur] assms(2) by simp
  ultimately show ?thesis using pq_ok_ready by fastforce
qed

lemma wake_delay_value:
  fixes now r :: u64 and timer :: u32
  assumes "now < r"
  shows "unat (ucast (max 1 (min (ucast timer) (r - now))) :: u32) \<le> unat r - unat now"
    and "unat (ucast (max 1 (min (ucast timer) (r - now))) :: u32) \<le> max 1 (unat timer)"
    and "1 \<le> unat (ucast (max 1 (min (ucast timer) (r - now))) :: u32)"
proof -
  let ?d = "max 1 (min (ucast timer) (r - now)) :: u64"
  have sub: "unat (r - now) = unat r - unat now"
    using assms by (simp add: unat_sub less_imp_le)
  have pos: "1 \<le> unat (r - now)" using assms by (simp add: sub word_less_nat_alt)
  have d: "unat ?d = max 1 (min (unat timer) (unat (r - now)))"
    by (simp add: max_def min_def word_le_nat_alt)
  moreover have "unat timer < 2 ^ 32" by simp
  ultimately have "unat ?d < 2 ^ 32" by (simp add: min_less_iff_disj)
  then have c: "unat (ucast ?d :: u32) = unat ?d" by (rule unat_ucast_64_32)
  show "unat (ucast ?d :: u32) \<le> unat r - unat now" unfolding c d using pos sub by simp
  show "unat (ucast ?d :: u32) \<le> max 1 (unat timer)" unfolding c d by simp
  show "1 \<le> unat (ucast ?d :: u32)" unfolding c d by simp
qed

text \<open>
  the wake-up delay never sleeps past the release of a pending intent: it is at most the
  current timer (but at least 1 ms when something is pending), and for every current entry it ends
  no later than the entry's release time, or is 1 ms if that time has passed.
\<close>

theorem SpellQueue_WakeDelay_bound:
  assumes "SQ_inv q" and "Queue_WakeDelayMs now timer q = (q', d)"
  shows "unat d \<le> max 1 (unat timer) \<and>
    (\<forall>e \<in> set (pendingQ q). IsCurrent (currentSerialByKey q) e \<longrightarrow>
       1 \<le> unat d \<and> unat now + unat d \<le> max (unat now + 1) (unat (ReadyAtMs e)))"
proof (cases "drop_stale (currentSerialByKey q) (pendingQ q)")
  case Nil
  with assms(2) drop_stale_keeps [of _ "pendingQ q" "currentSerialByKey q"] show ?thesis
    by (force simp: Queue_WakeDelayMs_def pq_top_def)
next
  case (Cons e es)
  let ?w = "if now < ReadyAtMs e then ReadyAtMs e - now else 1"
  from Cons assms(2) have d: "d = ucast (max 1 (min (ucast timer) ?w))"
    by (simp add: Queue_WakeDelayMs_def pq_top_def)
  have first: "unat (ReadyAtMs e) \<le> unat (ReadyAtMs x)"
    if "x \<in> set (pendingQ q)" "IsCurrent (currentSerialByKey q) x" for x
    using drop_stale_sorted [OF SQ_inv_ok(1) [OF assms(1)] Cons that] by (simp add: word_le_nat_alt)
  show ?thesis
  proof (cases "now < ReadyAtMs e")
    case True
    with d have "d = ucast (max 1 (min (ucast timer) (ReadyAtMs e - now)))" by simp
    with wake_delay_value [OF True, of timer] have v: "unat d \<le> unat (ReadyAtMs e) - unat now"
      "unat d \<le> max 1 (unat timer)" "1 \<le> unat d" by simp_all
    moreover have "unat now < unat (ReadyAtMs e)" using True by (simp add: word_less_nat_alt)
    ultimately have "unat now + unat d \<le> unat (ReadyAtMs e)" by linarith
    with v first show ?thesis by (meson le_max_iff_disj order.trans)
  next
    case False
    then have "d = 1" using d by (simp add: max_def min_def)
    then show ?thesis by simp
  qed
qed

theorem SpellQueue_WakeDelay_bound_witness:
  "unat (snd (Queue_WakeDelayMs 20 100 (foldl sq_step Queue_init
      [SQ_Schedule ''a'' ''r'' 1 50 10, SQ_Schedule ''b'' ''r'' 2 40 10]))) \<le> 100"
proof -
  let ?q = "foldl sq_step Queue_init
      [SQ_Schedule ''a'' ''r'' 1 50 10, SQ_Schedule ''b'' ''r'' 2 40 10]"
  have inv: "SQ_inv ?q" by (rule sq.run_inv)
  obtain q' d where run: "Queue_WakeDelayMs 20 100 ?q = (q', d)" by fastforce
  from SpellQueue_WakeDelay_bound [OF inv run] run show ?thesis by simp
qed

lemma collect_current_filter: "collect_current cur q = filter (IsCurrent cur) q"
  by (induction cur q rule: collect_current.induct) auto

lemma length_collect_current:
  assumes "distinct (map Serial q)" and "om_ok cur"
  shows "length (collect_current cur q) \<le> length cur"
proof -
  let ?c = "filter (IsCurrent cur) q"
  have same: "Serial x = Serial y" if "Key x = Key y" "x \<in> set ?c" "y \<in> set ?c" for x y
    using that by (auto simp: IsCurrent_def split: option.splits)
  have "distinct (map Serial ?c)" using assms(1) by (simp add: distinct_map_filter)
  then have "distinct ?c" "inj_on Serial (set ?c)" by (simp_all add: distinct_map)
  then have "distinct (map Key ?c)"
    unfolding distinct_map inj_on_def using same by blast
  then have "length ?c = card (Key ` set ?c)"
    by (metis distinct_card length_map set_map)
  also have "\<dots> \<le> card (fst ` set cur)"
    by (rule card_mono) (force simp: IsCurrent_def om_get_def dest: map_of_SomeD split: option.splits)+
  also have "\<dots> \<le> length cur" by (metis card_length length_map set_map)
  finally show ?thesis by (simp add: collect_current_filter)
qed

lemma Schedule_facts:
  assumes "om_ok (currentSerialByKey q)" and "distinct (map Serial (pendingQ q))"
    and "\<forall>e \<in> set (pendingQ q). Serial e \<le> nextSerial q" and "nextSerial q \<noteq> - 1"
    and "now \<le> now + 3000" and "Queue_Schedule k r p t now q = q'"
  shows "length (pendingQ q') \<le> 4 * length (currentSerialByKey q') + 8 \<and>
    (\<exists>e \<in> set (pendingQ q'). Key e = k \<and> IsCurrent (currentSerialByKey q') e
       \<and> now \<le> ReadyAtMs e \<and> ReadyAtMs e \<le> now + 3000 \<and> (now \<le> t \<and> t \<le> now + 3000 \<longrightarrow> ReadyAtMs e = t))
    \<and> distinct (map Serial (pendingQ q')) \<and> (\<forall>e \<in> set (pendingQ q'). Serial e \<le> nextSerial q')"
proof -
  let ?e = "\<lparr>Key = k, Reason = r, Prio = p, ReadyAtMs = min (max t now) (now + ucast MaxWaitMs),
     QueuedAtMs = now, Serial = nextSerial q + 1\<rparr>"
  let ?q = "q\<lparr>nextSerial := nextSerial q + 1,
     currentSerialByKey := om_put k (nextSerial q + 1) (currentSerialByKey q),
     pendingQ := pq_push ReleasedLater ?e (pendingQ q), scheduledN := scheduledN q + 1\<rparr>"
  have next_gt: "nextSerial q < nextSerial q + 1" using assms(4) by (rule less_plus_one)
  have fresh: "nextSerial q + 1 \<notin> Serial ` set (pendingQ q)" using assms(3) next_gt by force
  have dist: "distinct (map Serial (pendingQ ?q))"
    using fresh assms(2) by (simp add: pq_push_def)
  have bnd: "\<forall>e \<in> set (pendingQ ?q). Serial e \<le> nextSerial ?q"
    using assms(3) next_gt by (auto simp: pq_push_def)
  have new: "?e \<in> set (pendingQ ?q)" "IsCurrent (currentSerialByKey ?q) ?e"
    by (simp_all add: pq_push_def IsCurrent_def)
  have time: "now \<le> ReadyAtMs ?e \<and> ReadyAtMs ?e \<le> now + 3000
      \<and> (now \<le> t \<and> t \<le> now + 3000 \<longrightarrow> ReadyAtMs ?e = t)"
    using assms(5) by (auto simp: MaxWaitMs_def min_def max_def)
  show ?thesis
  proof (cases "4 * length (currentSerialByKey ?q) + 8 < length (pendingQ ?q)")
    case False
    with assms(6) have q': "q' = ?q" by (simp add: Queue_Schedule_def Let_def)
    from False have "length (pendingQ ?q) \<le> 4 * length (currentSerialByKey ?q) + 8" by linarith
    moreover have "Key ?e = k" by simp
    ultimately show ?thesis unfolding q' using dist bnd new time by blast
  next
    case True
    with assms(6) have q': "q' = DropSuperseded ?q" by (simp add: Queue_Schedule_def Let_def)
    have "length (pendingQ q') \<le> length (currentSerialByKey ?q)"
      unfolding q' DropSuperseded_pending(3) by (rule length_collect_current) (use dist assms(1) in auto)
    moreover have "distinct (map Serial (pendingQ q'))"
    proof -
      have "mset (pendingQ q') = mset (filter (IsCurrent (currentSerialByKey ?q)) (pendingQ ?q))"
        unfolding q' DropSuperseded_def by (simp add: foldl_push collect_current_filter)
      then have "mset (map Serial (pendingQ q'))
          = mset (map Serial (filter (IsCurrent (currentSerialByKey ?q)) (pendingQ ?q)))" by simp
      then show ?thesis using distinct_map_filter [OF dist] mset_eq_imp_distinct_iff by blast
    qed
    moreover have "set (pendingQ q') = {e \<in> set (pendingQ ?q). IsCurrent (currentSerialByKey ?q) e}"
      unfolding q' by (rule DropSuperseded_pending)
    moreover have "nextSerial q' = nextSerial ?q" "currentSerialByKey q' = currentSerialByKey ?q"
      unfolding q' by (simp_all add: DropSuperseded_def)
    moreover have "Key ?e = k" by simp
    ultimately show ?thesis using bnd new time by (intro conjI bexI [of _ ?e]) force+
  qed
qed

text \<open>
  \<^verbatim>\<open>Schedule\<close> keeps the heap proportional to the number of keys, however often one key is
  re-timed, and stores the new intent with a release time between now and now + 3000 ms. The
  hypotheses (serials are distinct and not above the last serial given out, which is not yet
  the largest 64 bit value) hold along every run with fewer than \<open>2 ^ 64\<close> schedules.
\<close>

theorem SpellQueue_Schedule_bounded:
  assumes "om_ok (currentSerialByKey q)" and "distinct (map Serial (pendingQ q))"
    and "\<forall>e \<in> set (pendingQ q). Serial e \<le> nextSerial q" and "nextSerial q \<noteq> - 1"
    and "now \<le> now + 3000" and "Queue_Schedule k r p t now q = q'"
  shows "length (pendingQ q') \<le> 4 * length (currentSerialByKey q') + 8 \<and>
    (\<exists>e \<in> set (pendingQ q'). Key e = k \<and> IsCurrent (currentSerialByKey q') e
       \<and> now \<le> ReadyAtMs e \<and> ReadyAtMs e \<le> now + 3000 \<and> (now \<le> t \<and> t \<le> now + 3000 \<longrightarrow> ReadyAtMs e = t))
    \<and> distinct (map Serial (pendingQ q')) \<and> (\<forall>e \<in> set (pendingQ q'). Serial e \<le> nextSerial q')"
  by (rule Schedule_facts [OF assms])

theorem SpellQueue_Schedule_bounded_witness:
  "length (pendingQ (Queue_Schedule ''a'' ''r'' 1 50 10 Queue_init))
     \<le> 4 * length (currentSerialByKey (Queue_Schedule ''a'' ''r'' 1 50 10 Queue_init)) + 8"
  by (rule SpellQueue_Schedule_bounded
      [of Queue_init 10 "''a''" "''r''" 1 50, THEN conjunct1]) (simp_all add: Queue_init_def)

section \<open>The queue refines a table of release times\<close>

text \<open>The abstract queue: which keys wait, and until when.\<close>

definition SQ_abs :: "spell_queue \<Rightarrow> string \<Rightarrow> u64 option" where
  "SQ_abs q k = map_option ReadyAtMs
     (find (\<lambda>e. Key e = k \<and> IsCurrent (currentSerialByKey q) e) (pendingQ q))"

fun sq_spec :: "(string \<Rightarrow> u64 option) \<Rightarrow> sq_op \<Rightarrow> (string \<Rightarrow> u64 option)" where
  "sq_spec m (SQ_Schedule k r p t now) = m(k \<mapsto> min (max t now) (now + 3000))"
| "sq_spec m (SQ_ReleaseDue now) =
     (\<lambda>k. case m k of None \<Rightarrow> None | Some t \<Rightarrow> if t \<le> now then None else Some t)"
| "sq_spec m (SQ_WakeDelay now timer) = m"
| "sq_spec m SQ_Clear = Map.empty"
| "sq_spec m SQ_Empty = m"

definition serials_ok :: "spell_queue \<Rightarrow> bool" where
  "serials_ok q \<longleftrightarrow> distinct (map Serial (pendingQ q)) \<and> (\<forall>e \<in> set (pendingQ q). Serial e \<le> nextSerial q)"

fun schedules :: "sq_op list \<Rightarrow> nat" where
  "schedules [] = 0"
| "schedules (SQ_Schedule k r p t now # ops) = Suc (schedules ops)"
| "schedules (a # ops) = schedules ops"

lemma SQ_abs_Some:
  assumes "distinct (map Serial (pendingQ q))"
  shows "SQ_abs q k = Some t \<longleftrightarrow>
    (\<exists>e \<in> set (pendingQ q). Key e = k \<and> IsCurrent (currentSerialByKey q) e \<and> ReadyAtMs e = t)"
proof -
  have inj: "x = y" if "x \<in> set (pendingQ q)" "y \<in> set (pendingQ q)" "Serial x = Serial y" for x y
    using assms that by (auto simp: distinct_map inj_on_def)
  have same: "x = y" if "x \<in> set (pendingQ q)" "y \<in> set (pendingQ q)" "Key x = Key y"
    "IsCurrent (currentSerialByKey q) x" "IsCurrent (currentSerialByKey q) y" for x y
    by (rule inj [OF that(1,2)]) (use that(3-5) in \<open>auto simp: IsCurrent_def split: option.splits\<close>)
  show ?thesis
  proof
    assume "SQ_abs q k = Some t"
    then show "\<exists>e \<in> set (pendingQ q). Key e = k \<and> IsCurrent (currentSerialByKey q) e \<and> ReadyAtMs e = t"
      by (auto simp: SQ_abs_def find_Some_iff)
  next
    assume "\<exists>e \<in> set (pendingQ q). Key e = k \<and> IsCurrent (currentSerialByKey q) e \<and> ReadyAtMs e = t"
    then obtain e where e: "e \<in> set (pendingQ q)" "Key e = k" "IsCurrent (currentSerialByKey q) e" "ReadyAtMs e = t"
      by blast
    then obtain x where x: "find (\<lambda>e. Key e = k \<and> IsCurrent (currentSerialByKey q) e) (pendingQ q) = Some x"
      by (cases "find (\<lambda>e. Key e = k \<and> IsCurrent (currentSerialByKey q) e) (pendingQ q)") (auto simp: find_None_iff)
    then have "x \<in> set (pendingQ q)" "Key x = k" "IsCurrent (currentSerialByKey q) x"
      by (auto simp: find_Some_iff)
    with same [of x e] e x show "SQ_abs q k = Some t" by (auto simp: SQ_abs_def)
  qed
qed

lemma option_ext: "(\<And>t. a = Some t \<longleftrightarrow> b = Some t) \<Longrightarrow> a = b"
  by (cases a; cases b) auto

lemma serials_ok_subset:
  assumes "serials_ok q" "distinct (map Serial (pendingQ q'))" "set (pendingQ q') \<subseteq> set (pendingQ q)"
    and "nextSerial q' = nextSerial q"
  shows "serials_ok q'"
  using assms by (auto simp: serials_ok_def)

lemma Schedule_refines:
  assumes ok: "serials_ok q" and fresh: "nextSerial q \<noteq> - 1"
  shows "serials_ok (Queue_Schedule k r p t now q)"
    and "nextSerial (Queue_Schedule k r p t now q) = nextSerial q + 1"
    and "SQ_abs (Queue_Schedule k r p t now q) = (SQ_abs q)(k \<mapsto> min (max t now) (now + 3000))"
proof -
  let ?e = "\<lparr>Key = k, Reason = r, Prio = p, ReadyAtMs = min (max t now) (now + ucast MaxWaitMs),
     QueuedAtMs = now, Serial = nextSerial q + 1\<rparr>"
  let ?q = "q\<lparr>nextSerial := nextSerial q + 1,
     currentSerialByKey := om_put k (nextSerial q + 1) (currentSerialByKey q),
     pendingQ := pq_push ReleasedLater ?e (pendingQ q), scheduledN := scheduledN q + 1\<rparr>"
  let ?r = "Queue_Schedule k r p t now q"
  have r: "?r = (if 4 * length (currentSerialByKey ?q) + 8 < length (pendingQ ?q) then DropSuperseded ?q else ?q)"
    by (simp add: Queue_Schedule_def Let_def)
  have next_gt: "nextSerial q < nextSerial q + 1" using fresh by (rule less_plus_one)
  have old: "Serial x \<noteq> nextSerial q + 1" if "x \<in> set (pendingQ q)" for x
    using ok that next_gt by (force simp: serials_ok_def)
  have okq: "serials_ok ?q"
    using ok next_gt old by (auto simp: serials_ok_def pq_push_def)
  have drop: "distinct (map Serial (pendingQ (DropSuperseded ?q)))"
  proof -
    have "mset (map Serial (pendingQ (DropSuperseded ?q)))
        = mset (map Serial (filter (IsCurrent (currentSerialByKey ?q)) (pendingQ ?q)))"
      unfolding DropSuperseded_def by (simp add: foldl_push collect_current_filter)
    moreover have "distinct (map Serial (filter (IsCurrent (currentSerialByKey ?q)) (pendingQ ?q)))"
      using okq by (simp add: serials_ok_def distinct_map_filter)
    ultimately show ?thesis using mset_eq_imp_distinct_iff by blast
  qed
  have cur: "currentSerialByKey ?r = currentSerialByKey ?q" by (simp add: r)
  show okr: "serials_ok ?r"
    unfolding r using okq serials_ok_subset [OF okq drop] DropSuperseded_pending(1) [of ?q]
    by (auto simp: DropSuperseded_def)
  show "nextSerial ?r = nextSerial q + 1" by (simp add: r DropSuperseded_def)
  have entries: "x \<in> set (pendingQ ?r) \<and> IsCurrent (currentSerialByKey ?r) x \<longleftrightarrow>
      x = ?e \<or> (x \<in> set (pendingQ q) \<and> Key x \<noteq> k \<and> IsCurrent (currentSerialByKey q) x)" for x
  proof -
    have "x \<in> set (pendingQ ?r) \<and> IsCurrent (currentSerialByKey ?r) x \<longleftrightarrow>
        x \<in> set (pendingQ ?q) \<and> IsCurrent (currentSerialByKey ?q) x"
      unfolding cur unfolding r using DropSuperseded_pending(1) [of ?q] by auto
    also have "\<dots> \<longleftrightarrow> x = ?e \<or> (x \<in> set (pendingQ q) \<and> Key x \<noteq> k \<and> IsCurrent (currentSerialByKey q) x)"
    proof (cases "x = ?e")
      case True
      then show ?thesis by (simp add: pq_push_def IsCurrent_def)
    next
      case False
      then have "x \<in> set (pendingQ ?q) \<longleftrightarrow> x \<in> set (pendingQ q)" by (simp add: pq_push_def)
      moreover have "x \<in> set (pendingQ q) \<Longrightarrow> IsCurrent (currentSerialByKey ?q) x \<longleftrightarrow>
          Key x \<noteq> k \<and> IsCurrent (currentSerialByKey q) x"
        using old [of x] by (auto simp: IsCurrent_def)
      ultimately show ?thesis using False by blast
    qed
    finally show ?thesis .
  qed
  have "\<exists>e0. Key e0 = k \<and> ReadyAtMs e0 = min (max t now) (now + 3000) \<and>
      (\<forall>x. x \<in> set (pendingQ ?r) \<and> IsCurrent (currentSerialByKey ?r) x \<longleftrightarrow>
        x = e0 \<or> (x \<in> set (pendingQ q) \<and> Key x \<noteq> k \<and> IsCurrent (currentSerialByKey q) x))"
    by (rule exI [of _ ?e]) (simp add: entries MaxWaitMs_def)
  then obtain e0 where e0: "Key e0 = k" "ReadyAtMs e0 = min (max t now) (now + 3000)"
    "\<And>x. x \<in> set (pendingQ ?r) \<and> IsCurrent (currentSerialByKey ?r) x \<longleftrightarrow>
        x = e0 \<or> (x \<in> set (pendingQ q) \<and> Key x \<noteq> k \<and> IsCurrent (currentSerialByKey q) x)" by blast
  have dr: "distinct (map Serial (pendingQ ?r))" and dq: "distinct (map Serial (pendingQ q))"
    using okr ok unfolding serials_ok_def by blast+
  show "SQ_abs ?r = (SQ_abs q)(k \<mapsto> min (max t now) (now + 3000))"
  proof (rule ext, rule option_ext)
    fix j u
    have "SQ_abs ?r j = Some u \<longleftrightarrow> (\<exists>x. (x \<in> set (pendingQ ?r) \<and> IsCurrent (currentSerialByKey ?r) x) \<and> Key x = j \<and> ReadyAtMs x = u)"
      unfolding SQ_abs_Some [OF dr] by blast
    also have "\<dots> \<longleftrightarrow> (if j = k then u = min (max t now) (now + 3000) else SQ_abs q j = Some u)"
      unfolding e0(3) SQ_abs_Some [OF dq] using e0(1,2) by auto
    finally show "SQ_abs ?r j = Some u \<longleftrightarrow> ((SQ_abs q)(k \<mapsto> min (max t now) (now + 3000))) j = Some u" by auto
  qed
qed

lemma ReleaseDue_serials: "nextSerial (fst (Queue_ReleaseDue now q)) = nextSerial q" if "om_ok (currentSerialByKey q)"
  using release_loop_counts [of "q\<lparr>lastReleaseCheckMs := now\<rparr>"] that
  by (simp add: Queue_ReleaseDue_def Let_def) (metis prod.collapse)

lemma ReleaseDue_refines:
  assumes inv: "SQ_inv q" and ok: "serials_ok q"
  shows "serials_ok (fst (Queue_ReleaseDue now q))"
    and "SQ_abs (fst (Queue_ReleaseDue now q)) k =
      (case SQ_abs q k of None \<Rightarrow> None | Some t \<Rightarrow> if t \<le> now then None else Some t)"
proof -
  obtain q' n where run: "Queue_ReleaseDue now q = (q', n)" by fastforce
  note facts = ReleaseDue_facts [OF inv run]
  show okr: "serials_ok (fst (Queue_ReleaseDue now q))"
    using ok ReleaseDue_serials [of q now] inv facts(1)
    by (intro serials_ok_subset [OF ok]) (auto simp: run serials_ok_def distinct_map_filter)
  have d: "distinct (map Serial (pendingQ q))" "distinct (map Serial (pendingQ q'))"
    using ok okr by (simp_all add: serials_ok_def run)
  have uniq: "x = y" if "x \<in> set (pendingQ q)" "y \<in> set (pendingQ q)" "Key x = Key y"
    "IsCurrent (currentSerialByKey q) x" "IsCurrent (currentSerialByKey q) y" for x y
  proof -
    have "Serial x = Serial y" using that(3-5) by (auto simp: IsCurrent_def split: option.splits)
    then show ?thesis using d(1) that(1,2) by (auto simp: distinct_map inj_on_def)
  qed
  have same: "SQ_abs q' k = Some t \<longleftrightarrow> SQ_abs q k = Some t \<and> \<not> t \<le> now" for t
  proof
    assume "SQ_abs q' k = Some t"
    then obtain e where e: "e \<in> set (pendingQ q')" "Key e = k" "IsCurrent (currentSerialByKey q') e" "ReadyAtMs e = t"
      using SQ_abs_Some [OF d(2)] by blast
    then have "e \<in> set (pendingQ q)" "now < t" "IsCurrent (currentSerialByKey q) e"
      using facts(1) facts(2) [of k] by (auto simp: IsCurrent_def split: if_splits option.splits)
    with e SQ_abs_Some [OF d(1)] show "SQ_abs q k = Some t \<and> \<not> t \<le> now" by auto
  next
    assume t: "SQ_abs q k = Some t \<and> \<not> t \<le> now"
    then obtain e where e: "e \<in> set (pendingQ q)" "Key e = k" "IsCurrent (currentSerialByKey q) e" "ReadyAtMs e = t"
      using SQ_abs_Some [OF d(1)] by blast
    have "\<not> (\<exists>x \<in> set (pendingQ q). ReadyAtMs x \<le> now \<and> Key x = k \<and> IsCurrent (currentSerialByKey q) x)"
    proof
      assume "\<exists>x \<in> set (pendingQ q). ReadyAtMs x \<le> now \<and> Key x = k \<and> IsCurrent (currentSerialByKey q) x"
      then obtain x where x: "x \<in> set (pendingQ q)" "ReadyAtMs x \<le> now" "Key x = k" "IsCurrent (currentSerialByKey q) x"
        by blast
      have "x = e" by (rule uniq) (use x e in simp_all)
      with x(2) e(4) t show False by simp
    qed
    then have "om_get (currentSerialByKey q') k = om_get (currentSerialByKey q) k" using facts(2) [of k] by presburger
    with e have "IsCurrent (currentSerialByKey q') e" by (simp add: IsCurrent_def)
    moreover have "e \<in> set (pendingQ q')" using e t facts(1) by auto
    ultimately show "SQ_abs q' k = Some t" using e SQ_abs_Some [OF d(2)] by blast
  qed
  have "SQ_abs q' k = Some t \<longleftrightarrow>
      (case SQ_abs q k of None \<Rightarrow> None | Some t \<Rightarrow> if t \<le> now then None else Some t) = Some t" for t
    unfolding same by (cases "SQ_abs q k") auto
  then have "SQ_abs q' k = (case SQ_abs q k of None \<Rightarrow> None | Some t \<Rightarrow> if t \<le> now then None else Some t)"
    by (rule option_ext)
  then show "SQ_abs (fst (Queue_ReleaseDue now q)) k =
      (case SQ_abs q k of None \<Rightarrow> None | Some t \<Rightarrow> if t \<le> now then None else Some t)" by (simp add: run)
qed

lemma drop_stale_suffix: "\<exists>ys. q = ys @ drop_stale cur q"
proof (induction cur q rule: drop_stale.induct)
  case (2 cur e q)
  show ?case
  proof (cases "IsCurrent cur e")
    case False
    with 2 obtain ys where "q = ys @ drop_stale cur q" by blast
    with False show ?thesis by (intro exI [of _ "e # ys"]) simp
  qed simp
qed simp

lemma stale_refines:
  assumes "serials_ok q" "pendingQ q' = drop_stale (currentSerialByKey q) (pendingQ q)"
    and "currentSerialByKey q' = currentSerialByKey q" "nextSerial q' = nextSerial q"
  shows "serials_ok q' \<and> SQ_abs q' = SQ_abs q"
proof -
  obtain ys where ys: "pendingQ q = ys @ pendingQ q'" using drop_stale_suffix assms(2) by metis
  then have d: "distinct (map Serial (pendingQ q))" "distinct (map Serial (pendingQ q'))" "serials_ok q'"
    using assms(1,4) unfolding serials_ok_def ys by auto
  have "SQ_abs q' k = Some t \<longleftrightarrow> SQ_abs q k = Some t" for k t
  proof -
    have "x \<in> set (pendingQ q') \<and> IsCurrent (currentSerialByKey q) x \<longleftrightarrow>
        x \<in> set (pendingQ q) \<and> IsCurrent (currentSerialByKey q) x" for x
    proof -
      have "set (pendingQ q') \<subseteq> set (pendingQ q)" using ys by (metis Un_upper2 set_append)
      then show ?thesis using drop_stale_keeps [of x "pendingQ q" "currentSerialByKey q"] unfolding assms(2) by blast
    qed
    then show ?thesis unfolding SQ_abs_Some [OF d(1)] SQ_abs_Some [OF d(2)] assms(3) by blast
  qed
  then have "SQ_abs q' k = SQ_abs q k" for k by (rule option_ext)
  with d(3) show ?thesis by (simp add: fun_eq_iff)
qed

lemma schedules_append: "schedules (ops @ [a]) = schedules ops + schedules [a]"
  by (induction ops rule: schedules.induct) auto

lemma sq_refines_run:
  "schedules ops < 2 ^ 64 \<Longrightarrow> serials_ok (foldl sq_step Queue_init ops) \<and>
     unat (nextSerial (foldl sq_step Queue_init ops)) = schedules ops \<and>
     SQ_abs (foldl sq_step Queue_init ops) = foldl sq_spec Map.empty ops"
proof (induction ops rule: rev_induct)
  case Nil
  then show ?case by (simp add: Queue_init_def serials_ok_def SQ_abs_def fun_eq_iff)
next
  case (snoc a ops)
  let ?q = "foldl sq_step Queue_init ops"
  have less: "schedules ops < 2 ^ 64" using snoc.prems by (simp add: schedules_append)
  note IH = snoc.IH [OF less]
  have inv: "SQ_inv ?q" by (rule sq.run_inv)
  show ?case
  proof (cases a)
    case (SQ_Schedule k r p t now)
    have n: "unat (nextSerial ?q) + 1 < 2 ^ 64" using IH snoc.prems by (simp add: schedules_append SQ_Schedule)
    have "nextSerial ?q \<noteq> - 1"
    proof
      assume "nextSerial ?q = - 1"
      then have "unat (nextSerial ?q) = 2 ^ 64 - 1" by (simp add: unsigned_minus_1_eq_mask mask_eq_exp_minus_1)
      with n show False by simp
    qed
    note ref = Schedule_refines [OF _ this, of k r p t now]
    have "unat (nextSerial ?q + 1) = unat (nextSerial ?q) + 1" using n by (simp add: unat_word_ariths)
    with ref IH show ?thesis by (simp add: SQ_Schedule schedules_append)
  next
    case (SQ_ReleaseDue now)
    have "SQ_abs (fst (Queue_ReleaseDue now ?q)) = sq_spec (SQ_abs ?q) a"
      using ReleaseDue_refines(2) [OF inv, of now] IH by (simp add: SQ_ReleaseDue fun_eq_iff)
    then show ?thesis using IH ReleaseDue_refines(1) [OF inv, of now] ReleaseDue_serials [OF SQ_inv_ok(2) [OF inv], of now]
      by (simp add: SQ_ReleaseDue schedules_append)
  next
    case (SQ_WakeDelay now timer)
    have "serials_ok (fst (Queue_WakeDelayMs now timer ?q)) \<and> SQ_abs (fst (Queue_WakeDelayMs now timer ?q)) = SQ_abs ?q"
      using IH by (intro stale_refines) (auto simp: Queue_WakeDelayMs_def Let_def split: option.split)
    moreover have "nextSerial (fst (Queue_WakeDelayMs now timer ?q)) = nextSerial ?q"
      by (simp add: Queue_WakeDelayMs_def Let_def split: option.split)
    ultimately show ?thesis using IH by (simp add: SQ_WakeDelay schedules_append)
  next
    case SQ_Clear
    have "serials_ok (Queue_Clear ?q)" "SQ_abs (Queue_Clear ?q) = Map.empty" "nextSerial (Queue_Clear ?q) = nextSerial ?q"
      using IH by (auto simp: Queue_Clear_def serials_ok_def SQ_abs_def fun_eq_iff)
    then show ?thesis using IH by (simp add: SQ_Clear schedules_append)
  next
    case SQ_Empty
    have "serials_ok (fst (Queue_Empty ?q)) \<and> SQ_abs (fst (Queue_Empty ?q)) = SQ_abs ?q"
      using IH by (intro stale_refines) (auto simp: Queue_Empty_def Let_def)
    moreover have "nextSerial (fst (Queue_Empty ?q)) = nextSerial ?q" by (simp add: Queue_Empty_def Let_def)
    ultimately show ?thesis using IH by (simp add: SQ_Empty schedules_append)
  qed
qed

lemma Empty_refines:
  assumes "SQ_inv q" "serials_ok q"
  shows "snd (Queue_Empty q) \<longleftrightarrow> SQ_abs q = Map.empty"
proof -
  have d: "distinct (map Serial (pendingQ q))" using assms(2) by (simp add: serials_ok_def)
  have "drop_stale (currentSerialByKey q) (pendingQ q) = [] \<longleftrightarrow>
      \<not> (\<exists>e \<in> set (pendingQ q). IsCurrent (currentSerialByKey q) e)"
  proof (cases "drop_stale (currentSerialByKey q) (pendingQ q)")
    case Nil
    then show ?thesis using drop_stale_keeps [of _ "pendingQ q" "currentSerialByKey q"] by auto
  next
    case (Cons e es)
    obtain ys where "pendingQ q = ys @ e # es"
      using drop_stale_suffix [of "pendingQ q" "currentSerialByKey q"] Cons by auto
    then have "e \<in> set (pendingQ q)" by simp
    with drop_stale_head [OF Cons] show ?thesis by (auto simp: Cons)
  qed
  moreover have "SQ_abs q = Map.empty \<longleftrightarrow> \<not> (\<exists>e \<in> set (pendingQ q). IsCurrent (currentSerialByKey q) e)"
    by (auto simp: fun_eq_iff option.distinct SQ_abs_Some [OF d] simp flip: not_Some_eq)
  ultimately show ?thesis by (simp add: Queue_Empty_def Let_def)
qed

text \<open>
  C24: the queue refines a plain table of release times. Over every run of fewer than \<open>2 ^ 64\<close>
  schedules, with its superseded heap entries and its compactions, it stands for the table that
  each operation updates at once: scheduling sets a key to its time, cut to now + 3000 ms;
  releasing removes the keys that are due and no others; clearing empties it; asking for the delay
  or for emptiness changes nothing, and the queue calls itself empty exactly if the table is.
\<close>

theorem SpellQueue_refines_table:
  assumes "schedules ops < 2 ^ 64"
  shows "SQ_abs (foldl sq_step Queue_init ops) = foldl sq_spec Map.empty ops \<and>
    (snd (Queue_Empty (foldl sq_step Queue_init ops)) \<longleftrightarrow> foldl sq_spec Map.empty ops = Map.empty)"
  using sq_refines_run [OF assms] Empty_refines [OF sq.run_inv] by simp

theorem SpellQueue_refines_table_witness:
  "SQ_abs (foldl sq_step Queue_init [SQ_Schedule ''a'' ''r'' 1 50 10, SQ_Schedule ''b'' ''r'' 2 40 10,
      SQ_Schedule ''a'' ''r'' 1 9000 20, SQ_ReleaseDue 60]) ''a'' = Some 3020"
  using SpellQueue_refines_table [of "[SQ_Schedule ''a'' ''r'' 1 50 10, SQ_Schedule ''b'' ''r'' 2 40 10,
      SQ_Schedule ''a'' ''r'' 1 9000 20, SQ_ReleaseDue 60]"]
  by simp

text \<open>
  the retry time of a candidate blocked by a native lock. A global cooldown alone is waited
  for exactly; a cast or channel is looked at again within 100 ms and never after the lock
  clears; with no lock the queue polls after 100 ms. The retry time is always in the future.
\<close>

theorem LockRetryAtMs_spec:
  assumes "now < now + 100"
  shows "now < LockRetryAtMs l now \<and>
    (Locked l now \<longrightarrow> LockRetryAtMs l now \<le> ReleaseAtMs l) \<and>
    (Locked l now \<and> \<not> Casting l now \<longrightarrow>
       LockRetryAtMs l now = GlobalCooldownEndsAtMs l \<and> LockRetryAtMs l now = ReleaseAtMs l) \<and>
    (Casting l now \<or> \<not> Locked l now \<longrightarrow> LockRetryAtMs l now \<le> now + 100)"
proof (cases "Locked l now")
  case False
  then have "LockRetryAtMs l now = now + 100" and "\<not> Casting l now"
    by (auto simp: LockRetryAtMs_def RegenerationPollMs_def Locked_def Casting_def ReleaseAtMs_def
        max_def split: if_splits)
  with False assms show ?thesis by simp
next
  case locked: True
  show ?thesis
  proof (cases "Casting l now")
    case True
    then have "LockRetryAtMs l now = min (ReleaseAtMs l) (now + 100)"
      using locked by (simp add: LockRetryAtMs_def CombatDecisionIntervalMs_def)
    with True locked assms show ?thesis by (simp add: Locked_def)
  next
    case False
    then have "LockRetryAtMs l now = GlobalCooldownEndsAtMs l"
      using locked by (simp add: LockRetryAtMs_def)
    moreover have "ReleaseAtMs l = GlobalCooldownEndsAtMs l"
      using False locked by (auto simp: Locked_def Casting_def ReleaseAtMs_def max_def split: if_splits)
    ultimately show ?thesis using False locked by (simp add: Locked_def)
  qed
qed

theorem LockRetryAtMs_spec_witness:
  "LockRetryAtMs \<lparr>GlobalCooldownEndsAtMs = 1500, CastEndsAtMs = 0, ChannelEndsAtMs = 0\<rparr> 1000 = 1500"
  using LockRetryAtMs_spec [of 1000 "\<lparr>GlobalCooldownEndsAtMs = 1500, CastEndsAtMs = 0, ChannelEndsAtMs = 0\<rparr>"]
  by (simp add: Locked_def Casting_def ReleaseAtMs_def)

end
