(* ===== verification/Action_Arbiter.thy ===== *)
theory Action_Arbiter
  imports Prelude
begin

text \<open>
  \<^verbatim>\<open>BotActionArbitration\<close> (src/server/game/Bots/BotActionArbiter.h): the utility kernel that
  decides, once per bot and tick, which of the submitted action candidates run. Candidates
  are ordered by priority and score; several may commit in one tick when their resource
  lanes are disjoint; failing candidates back off per key. A candidate's callback is a
  function from the outside world \<open>'w\<close> to its outcome, the new world and, as a callback may
  report a finished route from inside \<^verbatim>\<open>Resolve\<close>, the argument of a nested
  \<^verbatim>\<open>ResetLifecycleHistory\<close> call. Other calls back into the kernel are not modelled (a nested
  \<^verbatim>\<open>Submit\<close> would invalidate the vector that is being iterated).
\<close>

section \<open>Priorities, dispositions, phases\<close>

datatype arb_priority = PIdle | PRouteMovement | PCombatMovement | PTrainedDamage | PThreatControl
  | PSupport | PInterrupt | PMechanic | PSurvival | PTerminal

fun prio_num :: "arb_priority \<Rightarrow> u8" where
  "prio_num PIdle = 0"
| "prio_num PRouteMovement = 20"
| "prio_num PCombatMovement = 40"
| "prio_num PTrainedDamage = 60"
| "prio_num PThreatControl = 80"
| "prio_num PSupport = 100"
| "prio_num PInterrupt = 120"
| "prio_num PMechanic = 140"
| "prio_num PSurvival = 160"
| "prio_num PTerminal = 180"

datatype disposition = DNotApplicable | DRetryable | DUnsafe | DCommitted | DTerminal

datatype arb_phase = PhProposed | PhDeferred | PhSelected | PhSubmitted | PhStarted | PhProgressed
  | PhCompleted | PhFailed | PhTerminal

fun phase_ToString :: "arb_phase \<Rightarrow> string" where
  "phase_ToString PhProposed = ''proposed''"
| "phase_ToString PhDeferred = ''deferred''"
| "phase_ToString PhSelected = ''selected''"
| "phase_ToString PhSubmitted = ''submitted''"
| "phase_ToString PhStarted = ''started''"
| "phase_ToString PhProgressed = ''progressed''"
| "phase_ToString PhCompleted = ''completed''"
| "phase_ToString PhFailed = ''failed''"
| "phase_ToString PhTerminal = ''terminal''"

fun disposition_ToString :: "disposition \<Rightarrow> string" where
  "disposition_ToString DNotApplicable = ''not_applicable''"
| "disposition_ToString DRetryable = ''retryable''"
| "disposition_ToString DUnsafe = ''unsafe''"
| "disposition_ToString DCommitted = ''committed''"
| "disposition_ToString DTerminal = ''terminal''"

section \<open>Outcomes\<close>

record outcome =
  o_Result :: disposition
  o_Reason :: string
  o_LifecyclePhase :: arb_phase
  o_RetryAtMs :: u64

definition mk_outcome :: "disposition \<Rightarrow> string \<Rightarrow> arb_phase \<Rightarrow> u64 \<Rightarrow> outcome" where
  "mk_outcome d r ph t = \<lparr>o_Result = d, o_Reason = r, o_LifecyclePhase = ph, o_RetryAtMs = t\<rparr>"

definition Outcome_NotApplicable :: "string \<Rightarrow> outcome" where
  "Outcome_NotApplicable reason = mk_outcome DNotApplicable reason PhDeferred 0"

definition Outcome_Retryable :: "string \<Rightarrow> outcome" where
  "Outcome_Retryable reason = mk_outcome DRetryable reason PhFailed 0"

definition Outcome_WaitUntil :: "string \<Rightarrow> u64 \<Rightarrow> outcome" where
  "Outcome_WaitUntil reason readyAtMs = mk_outcome DRetryable reason PhDeferred readyAtMs"

definition Outcome_Unsafe :: "string \<Rightarrow> outcome" where
  "Outcome_Unsafe reason = mk_outcome DUnsafe reason PhFailed 0"

definition Outcome_Committed :: "string \<Rightarrow> outcome" where
  "Outcome_Committed reason = mk_outcome DCommitted reason PhCompleted 0"

definition Outcome_Submitted :: "string \<Rightarrow> outcome" where
  "Outcome_Submitted reason = mk_outcome DCommitted reason PhSubmitted 0"

definition Outcome_Selected :: "string \<Rightarrow> outcome" where
  "Outcome_Selected reason = mk_outcome DNotApplicable reason PhSelected 0"

definition Outcome_Started :: "string \<Rightarrow> outcome" where
  "Outcome_Started reason = mk_outcome DCommitted reason PhStarted 0"

definition Outcome_Progressed :: "string \<Rightarrow> outcome" where
  "Outcome_Progressed reason = mk_outcome DCommitted reason PhProgressed 0"

definition Outcome_Terminal :: "string \<Rightarrow> outcome" where
  "Outcome_Terminal reason = mk_outcome DTerminal reason PhTerminal 0"

datatype bot_action_result = BOk | BDisabled | BNoOwner | BNoBot | BInvalidTarget | BNotFriendly
  | BDeadTarget | BOutOfRange | BNoLineOfSight | BCasting | BGlobalCooldown | BCooldown | BNoMana
  | BBadSpell | BCastFailed | BThrottled | BNoAction

fun FromBotActionResult :: "bot_action_result \<Rightarrow> outcome" where
  "FromBotActionResult BOk = Outcome_Submitted ''native_action_submitted''"
| "FromBotActionResult BCasting = Outcome_Started ''casting''"
| "FromBotActionResult BGlobalCooldown = Outcome_Retryable ''global_cooldown''"
| "FromBotActionResult BNoOwner = Outcome_Retryable ''owner_unavailable''"
| "FromBotActionResult BNoBot = Outcome_Terminal ''bot_unavailable''"
| "FromBotActionResult BInvalidTarget = Outcome_Retryable ''invalid_target''"
| "FromBotActionResult BNotFriendly = Outcome_Retryable ''target_not_friendly''"
| "FromBotActionResult BDeadTarget = Outcome_Retryable ''target_dead''"
| "FromBotActionResult BOutOfRange = Outcome_Retryable ''out_of_range''"
| "FromBotActionResult BNoLineOfSight = Outcome_Retryable ''no_line_of_sight''"
| "FromBotActionResult BCooldown = Outcome_Retryable ''cooldown''"
| "FromBotActionResult BNoMana = Outcome_Retryable ''no_power''"
| "FromBotActionResult BBadSpell = Outcome_Retryable ''spell_unavailable''"
| "FromBotActionResult BCastFailed = Outcome_Retryable ''cast_failed''"
| "FromBotActionResult BThrottled = Outcome_Retryable ''throttled''"
| "FromBotActionResult BDisabled = Outcome_NotApplicable ''disabled''"
| "FromBotActionResult BNoAction = Outcome_NotApplicable ''no_action''"

section \<open>Resources and candidates\<close>

type_synonym resource_mask = u16

datatype resource = RNone | RGlobalCooldown | RCast | RMovement | RTarget | RInteraction | RPet
  | RAutoAttackToggle

fun res_num :: "resource \<Rightarrow> u16" where
  "res_num RNone = 0"
| "res_num RGlobalCooldown = push_bit 0 1"
| "res_num RCast = push_bit 1 1"
| "res_num RMovement = push_bit 2 1"
| "res_num RTarget = push_bit 3 1"
| "res_num RInteraction = push_bit 4 1"
| "res_num RPet = push_bit 5 1"
| "res_num RAutoAttackToggle = push_bit 6 1"

fun Uses :: "resource list \<Rightarrow> resource_mask" where
  "Uses [] = 0"
| "Uses (r # rs) = res_num r OR Uses rs"

definition Conflicts :: "resource_mask \<Rightarrow> resource_mask \<Rightarrow> bool" where
  "Conflicts left right = (left AND right \<noteq> 0)"

datatype admission_class = AUnknown | AFormationMovement | AFriendlyHealing | ABagConsumable
  | AOffenseSuppression | ADefensiveSurvival | AControllerCheckpointObservation

record admission_metadata =
  a_Classification :: admission_class
  a_ScopeKey :: string

record 'w attempt_effect =
  eff_outcome :: outcome
  eff_world :: 'w
  eff_reset :: "u64 option"

record 'w candidate =
  c_Key :: string
  c_Source :: string
  c_ActionPriority :: arb_priority
  c_UtilityScore :: float32
  c_PolicyScore :: float32
  c_PolicyWeight :: float32
  c_RequiredResources :: resource_mask
  c_ExpiresAtMs :: u64
  c_RetryBaseMs :: u32
  c_RetryMaxMs :: u32
  c_EscalateAfter :: u8
  c_Allowed :: bool
  c_RejectReason :: string
  c_Attempt :: "('w \<Rightarrow> 'w attempt_effect) option"

definition Score :: "'w candidate \<Rightarrow> float32" where
  "Score c = c_UtilityScore c + c_PolicyScore c * c_PolicyWeight c"

record lifecycle =
  l_CurrentPhase :: arb_phase
  l_LastDisposition :: disposition
  l_LastReason :: string
  l_FirstFailureAtMs :: u64
  l_LastAttemptAtMs :: u64
  l_LastProgressAtMs :: u64
  l_RetryAfterMs :: u64
  l_AttemptCount :: u32
  l_ConsecutiveFailures :: u32
  l_EscalateAfter :: u8

definition default_lifecycle :: lifecycle where
  "default_lifecycle = \<lparr>l_CurrentPhase = PhProposed, l_LastDisposition = DNotApplicable,
     l_LastReason = ''not_attempted'', l_FirstFailureAtMs = 0, l_LastAttemptAtMs = 0,
     l_LastProgressAtMs = 0, l_RetryAfterMs = 0, l_AttemptCount = 0,
     l_ConsecutiveFailures = 0, l_EscalateAfter = 5\<rparr>"

record candidate_trace =
  t_Key :: string
  t_Source :: string
  t_Status :: string
  t_Reason :: string
  t_ActionPriority :: arb_priority
  t_Score :: float32
  t_RequiredResources :: resource_mask
  t_LifecyclePhase :: arb_phase

record resolution =
  r_AnyCommitted :: bool
  r_Terminal :: bool
  r_ClaimedResources :: resource_mask
  r_CommittedCandidates :: "string list"
  r_Trace :: "candidate_trace list"

definition empty_resolution :: resolution where
  "empty_resolution = \<lparr>r_AnyCommitted = False, r_Terminal = False, r_ClaimedResources = 0,
     r_CommittedCandidates = [], r_Trace = []\<rparr>"

section \<open>The kernel\<close>

record 'w queued =
  q_Value :: "'w candidate"
  q_Serial :: u64

type_synonym 'w admission_policy = "'w candidate \<Rightarrow> admission_metadata option \<Rightarrow> string"

record 'w kernel =
  k_nowMs :: u64
  k_nextSerial :: u64
  k_candidates :: "'w queued list"
  k_admissionMetadata :: "string \<rightharpoonup> admission_metadata"
  k_lifecycles :: "string \<rightharpoonup> lifecycle"
  k_lastResolution :: resolution
  k_admissionPolicy :: "'w admission_policy option"

definition Kernel_init :: "'w kernel" where
  "Kernel_init = \<lparr>k_nowMs = 0, k_nextSerial = 0, k_candidates = [],
     k_admissionMetadata = Map.empty, k_lifecycles = Map.empty,
     k_lastResolution = empty_resolution, k_admissionPolicy = None\<rparr>"

definition Kernel_Begin :: "u64 \<Rightarrow> 'w kernel \<Rightarrow> 'w kernel" where
  "Kernel_Begin now k = k\<lparr>k_nowMs := now, k_nextSerial := 0, k_candidates := [],
     k_admissionMetadata := Map.empty, k_lastResolution := empty_resolution,
     k_admissionPolicy := None\<rparr>"

definition Kernel_ResetLifecycleHistory :: "u64 \<Rightarrow> 'w kernel \<Rightarrow> 'w kernel" where
  "Kernel_ResetLifecycleHistory now k = k\<lparr>k_lifecycles := Map.empty, k_nowMs := now\<rparr>"

definition Kernel_SetAdmissionPolicy :: "'w admission_policy option \<Rightarrow> 'w kernel \<Rightarrow> 'w kernel" where
  "Kernel_SetAdmissionPolicy p k = k\<lparr>k_admissionPolicy := p\<rparr>"

definition Kernel_SetCandidateAdmission ::
  "string \<Rightarrow> admission_class \<Rightarrow> string \<Rightarrow> 'w kernel \<Rightarrow> 'w kernel" where
  "Kernel_SetCandidateAdmission key cls scope k =
     k\<lparr>k_admissionMetadata := (k_admissionMetadata k)
         (key \<mapsto> \<lparr>a_Classification = cls, a_ScopeKey = scope\<rparr>)\<rparr>"

definition Better :: "'w queued \<Rightarrow> 'w queued \<Rightarrow> bool" where
  "Better left right =
     (let l = q_Value left; r = q_Value right in
      if c_ActionPriority l \<noteq> c_ActionPriority r
        then prio_num (c_ActionPriority r) < prio_num (c_ActionPriority l)
      else if Score l \<noteq> Score r then Score r < Score l
      else if c_Source l \<noteq> c_Source r then c_Source l < c_Source r
      else if c_Key l \<noteq> c_Key r then c_Key l < c_Key r
      else q_Serial left < q_Serial right)"

text \<open>Replaces the first row with the same key if the new form is better, keeping its serial.\<close>

fun submit_into :: "'w queued \<Rightarrow> 'w queued list \<Rightarrow> 'w queued list" where
  "submit_into qd [] = [qd]"
| "submit_into qd (row # rows) =
     (if c_Key (q_Value row) = c_Key (q_Value qd)
      then (if Better qd row then qd\<lparr>q_Serial := q_Serial row\<rparr> else row) # rows
      else row # submit_into qd rows)"

definition Kernel_Submit :: "'w candidate \<Rightarrow> 'w kernel \<Rightarrow> 'w kernel \<times> bool" where
  "Kernel_Submit c k =
     (if c_Key c = [] \<or> c_Attempt c = None then (k, False)
      else (k\<lparr>k_candidates := submit_into \<lparr>q_Value = c, q_Serial = k_nextSerial k\<rparr> (k_candidates k),
              k_nextSerial := k_nextSerial k + 1\<rparr>, True))"

definition lifecycle_of :: "'w kernel \<Rightarrow> string \<Rightarrow> lifecycle" where
  "lifecycle_of k key = (case k_lifecycles k key of None \<Rightarrow> default_lifecycle | Some l \<Rightarrow> l)"

definition observe_lifecycle ::
  "outcome \<Rightarrow> u64 \<Rightarrow> u32 \<Rightarrow> u32 \<Rightarrow> u8 \<Rightarrow> lifecycle \<Rightarrow> lifecycle" where
  "observe_lifecycle oc now retryBase retryMax escalateAfter l =
     (let l1 = l\<lparr>l_CurrentPhase := o_LifecyclePhase oc, l_LastDisposition := o_Result oc,
                 l_LastReason := o_Reason oc, l_LastAttemptAtMs := now,
                 l_EscalateAfter := escalateAfter\<rparr>
      in if o_Result oc = DCommitted then
           (let l2 = l1\<lparr>l_ConsecutiveFailures := 0, l_FirstFailureAtMs := 0, l_RetryAfterMs := 0\<rparr>
            in if o_LifecyclePhase oc = PhProgressed \<or> o_LifecyclePhase oc = PhCompleted
               then l2\<lparr>l_LastProgressAtMs := now\<rparr> else l2)
         else if o_Result oc = DNotApplicable then
           l1\<lparr>l_ConsecutiveFailures := 0, l_FirstFailureAtMs := 0, l_RetryAfterMs := 0\<rparr>
         else if o_Result oc = DRetryable \<and> o_RetryAtMs oc \<noteq> 0 then
           l1\<lparr>l_RetryAfterMs := min (max (o_RetryAtMs oc) now) (now + ucast retryMax)\<rparr>
         else
           (let l2 = (if l_ConsecutiveFailures l1 = 0 then l1\<lparr>l_FirstFailureAtMs := now\<rparr> else l1);
                l3 = l2\<lparr>l_ConsecutiveFailures := l_ConsecutiveFailures l2 + 1\<rparr>;
                shift = min (l_ConsecutiveFailures l3 - 1) 8;
                delay = push_bit (unat shift) (ucast retryBase :: u64)
            in l3\<lparr>l_RetryAfterMs := now + min (ucast retryMax) delay\<rparr>))"

definition Kernel_Observe ::
  "string \<Rightarrow> outcome \<Rightarrow> u64 \<Rightarrow> u32 \<Rightarrow> u32 \<Rightarrow> u8 \<Rightarrow> 'w kernel \<Rightarrow> 'w kernel" where
  "Kernel_Observe key oc now retryBase retryMax escalateAfter k =
     k\<lparr>k_lifecycles := (k_lifecycles k)
         (key \<mapsto> observe_lifecycle oc now retryBase retryMax escalateAfter (lifecycle_of k key))\<rparr>"

definition Kernel_MarkProgress :: "string \<Rightarrow> u64 \<Rightarrow> string \<Rightarrow> 'w kernel \<Rightarrow> 'w kernel" where
  "Kernel_MarkProgress key now reason k =
     Kernel_Observe key (Outcome_Progressed reason) now 100 3000 5 k"

definition Kernel_ShouldEscalate :: "string \<Rightarrow> u64 \<Rightarrow> u64 \<Rightarrow> 'w kernel \<Rightarrow> bool" where
  "Kernel_ShouldEscalate key now minDuration k =
     (case k_lifecycles k key of
        None \<Rightarrow> False
      | Some l \<Rightarrow> ucast (l_EscalateAfter l) \<le> l_ConsecutiveFailures l
          \<and> l_FirstFailureAtMs l \<noteq> 0 \<and> l_FirstFailureAtMs l + minDuration \<le> now)"

definition Kernel_Trace :: "'w candidate \<Rightarrow> string \<Rightarrow> string \<Rightarrow> arb_phase \<Rightarrow> 'w kernel \<Rightarrow> 'w kernel" where
  "Kernel_Trace c status reason ph k =
     (let r = k_lastResolution k in
      k\<lparr>k_lastResolution := r\<lparr>r_Trace := r_Trace r @
        [\<lparr>t_Key = c_Key c, t_Source = c_Source c, t_Status = status, t_Reason = reason,
          t_ActionPriority = c_ActionPriority c, t_Score = Score c,
          t_RequiredResources = c_RequiredResources c, t_LifecyclePhase = ph\<rparr>]\<rparr>\<rparr>)"

section \<open>Resolve\<close>

text \<open>The masks before an attempt: \<open>Some (status, reason)\<close> when the candidate may not run.\<close>

definition admission_reason :: "'w candidate \<Rightarrow> 'w kernel \<Rightarrow> string" where
  "admission_reason c k =
     (case k_admissionPolicy k of None \<Rightarrow> [] | Some p \<Rightarrow> p c (k_admissionMetadata k (c_Key c)))"

definition mask_reason :: "'w candidate \<Rightarrow> lifecycle \<Rightarrow> 'w kernel \<Rightarrow> (string \<times> string) option" where
  "mask_reason c l k =
     (if admission_reason c k \<noteq> [] then Some (''hard_masked'', admission_reason c k)
      else if \<not> c_Allowed c then
        Some (''hard_masked'', if c_RejectReason c = [] then ''hard_safety_mask'' else c_RejectReason c)
      else if c_ExpiresAtMs c \<noteq> 0 \<and> c_ExpiresAtMs c \<le> k_nowMs k then
        Some (''expired'', ''candidate_expired'')
      else if k_nowMs k < l_RetryAfterMs l then Some (''backoff'', l_LastReason l)
      else if Conflicts (c_RequiredResources c) (r_ClaimedResources (k_lastResolution k)) then
        Some (''resource_conflict'', ''resource_lane_owned'')
      else None)"

definition touch_lifecycle :: "'w candidate \<Rightarrow> 'w kernel \<Rightarrow> 'w kernel" where
  "touch_lifecycle c k =
     k\<lparr>k_lifecycles := (k_lifecycles k)(c_Key c \<mapsto> (lifecycle_of k (c_Key c))
         \<lparr>l_EscalateAfter := c_EscalateAfter c, l_CurrentPhase := PhProposed\<rparr>)\<rparr>"

definition select_lifecycle :: "'w candidate \<Rightarrow> 'w kernel \<Rightarrow> 'w kernel" where
  "select_lifecycle c k =
     (let l = lifecycle_of k (c_Key c) in
      k\<lparr>k_lifecycles := (k_lifecycles k)(c_Key c \<mapsto> l\<lparr>l_CurrentPhase := PhSelected,
         l_AttemptCount := l_AttemptCount l + 1, l_LastAttemptAtMs := k_nowMs k\<rparr>)\<rparr>)"

definition run_attempt :: "'w candidate \<Rightarrow> 'w kernel \<Rightarrow> 'w \<Rightarrow> outcome \<times> 'w kernel \<times> 'w" where
  "run_attempt c k w =
     (case c_Attempt c of
        None \<Rightarrow> (Outcome_NotApplicable ''not_applicable'', k, w)
      | Some f \<Rightarrow>
          (let eff = f w;
               k' = (case eff_reset eff of None \<Rightarrow> k | Some t \<Rightarrow> Kernel_ResetLifecycleHistory t k)
           in (eff_outcome eff, k', eff_world eff)))"

definition commit_resolution :: "'w candidate \<Rightarrow> outcome \<Rightarrow> resolution \<Rightarrow> resolution" where
  "commit_resolution c oc r =
     (if o_Result oc = DCommitted then
        r\<lparr>r_AnyCommitted := True,
          r_ClaimedResources := r_ClaimedResources r OR c_RequiredResources c,
          r_CommittedCandidates := r_CommittedCandidates r @ [c_Key c]\<rparr>
      else if o_Result oc = DTerminal then r\<lparr>r_Terminal := True\<rparr>
      else r)"

text \<open>One iteration of the loop; the flag says whether it breaks out of it.\<close>

definition resolve_one :: "'w candidate \<Rightarrow> 'w kernel \<Rightarrow> 'w \<Rightarrow> ('w kernel \<times> 'w) \<times> bool" where
  "resolve_one c k w =
     (let k1 = touch_lifecycle c k in
      case mask_reason c (lifecycle_of k1 (c_Key c)) k1 of
        Some (status, reason) \<Rightarrow> ((Kernel_Trace c status reason PhDeferred k1, w), False)
      | None \<Rightarrow>
          (case run_attempt c (select_lifecycle c k1) w of
             (oc, k2, w') \<Rightarrow>
               (let k3 = Kernel_Observe (c_Key c) oc (k_nowMs k2) (c_RetryBaseMs c)
                           (c_RetryMaxMs c) (c_EscalateAfter c) k2;
                    k4 = Kernel_Trace c ''attempted'' (o_Reason oc) (o_LifecyclePhase oc) k3;
                    k5 = k4\<lparr>k_lastResolution := commit_resolution c oc (k_lastResolution k4)\<rparr>
                in ((k5, w'), o_Result oc = DTerminal))))"

fun resolve_loop :: "'w queued list \<Rightarrow> 'w kernel \<Rightarrow> 'w \<Rightarrow> 'w kernel \<times> 'w" where
  "resolve_loop [] k w = (k, w)"
| "resolve_loop (qd # qs) k w =
     (case resolve_one (q_Value qd) k w of
        ((k', w'), stop) \<Rightarrow> if stop then (k', w') else resolve_loop qs k' w')"

definition Kernel_Resolve :: "'w kernel \<Rightarrow> 'w \<Rightarrow> 'w kernel \<times> 'w" where
  "Kernel_Resolve k w =
     (case resolve_loop (stable_sort Better (k_candidates k)) k w of
        (k', w') \<Rightarrow> (k'\<lparr>k_candidates := []\<rparr>, w'))"

section \<open>Trace output\<close>

fun Escape :: "string \<Rightarrow> string" where
  "Escape [] = []"
| "Escape (c # cs) =
     (let pre = (if c = CHR 0x5C \<or> c = CHR 0x22 then [CHR 0x5C] else [])
      in if c = CHR 0x0A then pre @ [CHR 0x5C, CHR ''n''] @ Escape cs
         else pre @ [c] @ Escape cs)"

section \<open>Tick\<close>

record tick =
  tk_lastPriority :: u8
  tk_attemptCount :: u16
  tk_resolved :: bool
  tk_orderingValid :: bool
  tk_candidate :: string
  tk_outcome :: outcome

definition Tick_init :: tick where
  "Tick_init = \<lparr>tk_lastPriority = prio_num PTerminal, tk_attemptCount = 0, tk_resolved = False,
     tk_orderingValid = True, tk_candidate = [], tk_outcome = Outcome_NotApplicable ''not_applicable''\<rparr>"

definition Tick_Try :: "arb_priority \<Rightarrow> string \<Rightarrow> ('w \<Rightarrow> outcome \<times> 'w) \<Rightarrow> tick \<Rightarrow> 'w \<Rightarrow> (tick \<times> 'w) \<times> outcome" where
  "Tick_Try p cand attempt t w =
     (if tk_resolved t then ((t, w), tk_outcome t)
      else if tk_attemptCount t \<noteq> 0 \<and> tk_lastPriority t < prio_num p then
        (let oc = Outcome_Terminal ''action_priority_inversion''
         in ((t\<lparr>tk_candidate := cand, tk_outcome := oc, tk_resolved := True,
                tk_orderingValid := False\<rparr>, w), oc))
      else (case attempt w of (oc, w') \<Rightarrow>
        ((t\<lparr>tk_lastPriority := prio_num p, tk_attemptCount := tk_attemptCount t + 1,
            tk_candidate := cand, tk_outcome := oc,
            tk_resolved := (o_Result oc = DCommitted \<or> o_Result oc = DTerminal)\<rparr>, w'), oc)))"

section \<open>Ordering of candidates\<close>

lemma prio_num_inj: "prio_num a = prio_num b \<longleftrightarrow> a = b"
  by (cases a; cases b) auto

interpretation better: strict_weak_order "Better :: 'w queued \<Rightarrow> 'w queued \<Rightarrow> bool"
proof unfold_locales
  fix a b c :: "'w queued"
  show "\<not> Better a a" by (simp add: Better_def)
  show "Better a b \<Longrightarrow> Better b c \<Longrightarrow> Better a c"
    by (auto simp: Better_def Let_def prio_num_inj split: if_splits)
  show "\<not> Better a b \<Longrightarrow> \<not> Better b c \<Longrightarrow> \<not> Better a c"
    by (auto simp: Better_def Let_def not_less prio_num_inj [symmetric] split: if_splits)
qed

text \<open>The order on the values alone: what \<open>Better\<close> compares before it looks at the serials.\<close>

definition value_better :: "'w candidate \<Rightarrow> 'w candidate \<Rightarrow> bool" where
  "value_better c d = Better \<lparr>q_Value = c, q_Serial = 0\<rparr> \<lparr>q_Value = d, q_Serial = 0\<rparr>"

lemma value_better_negtrans: "\<not> value_better a b \<Longrightarrow> \<not> value_better b c \<Longrightarrow> \<not> value_better a c"
  unfolding value_better_def by (rule better.lt_negtrans)

lemma Better_value: "Better l r \<Longrightarrow> \<not> value_better (q_Value r) (q_Value l)"
  by (auto simp: value_better_def Better_def Let_def split: if_splits)

lemma not_Better_value: "\<not> Better l r \<Longrightarrow> \<not> value_better (q_Value l) (q_Value r)"
  by (auto simp: value_better_def Better_def Let_def split: if_splits)

section \<open>Submission\<close>

abbreviation qkeys :: "'w queued list \<Rightarrow> string list" where
  "qkeys qs \<equiv> map (\<lambda>q. c_Key (q_Value q)) qs"

lemma set_qkeys_submit_into: "set (qkeys (submit_into qd rows)) = insert (c_Key (q_Value qd)) (set (qkeys rows))"
  by (induction qd rows rule: submit_into.induct) auto

lemma distinct_submit_into: "distinct (qkeys rows) \<Longrightarrow> distinct (qkeys (submit_into qd rows))"
proof (induction qd rows rule: submit_into.induct)
  case (2 qd row rows)
  then show ?case using set_qkeys_submit_into [of qd rows] by auto
qed simp

lemma submit_into_values: "q \<in> set (submit_into qd rows) \<Longrightarrow> q_Value q = q_Value qd \<or> q \<in> set rows"
  by (induction qd rows rule: submit_into.induct) (auto split: if_splits)

lemma submit_into_best_new:
  "\<exists>q \<in> set (submit_into qd rows). c_Key (q_Value q) = c_Key (q_Value qd)
     \<and> \<not> value_better (q_Value qd) (q_Value q)"
proof (induction qd rows rule: submit_into.induct)
  case (1 qd)
  then show ?case by (simp add: value_better_def better.lt_irrefl)
next
  case (2 qd row rows)
  then show ?case
    by (auto simp: not_Better_value) (simp add: value_better_def better.lt_irrefl)
qed

lemma submit_into_best_old:
  "\<exists>q \<in> set rows. c_Key (q_Value q) = c_Key c \<and> \<not> value_better c (q_Value q) \<Longrightarrow>
   \<exists>q \<in> set (submit_into qd rows). c_Key (q_Value q) = c_Key c \<and> \<not> value_better c (q_Value q)"
proof (induction qd rows rule: submit_into.induct)
  case (2 qd row rows)
  then show ?case
    by (auto dest: Better_value value_better_negtrans)
qed simp

definition submit_all :: "'w kernel \<Rightarrow> 'w candidate list \<Rightarrow> 'w kernel" where
  "submit_all k cs = foldl (\<lambda>k c. fst (Kernel_Submit c k)) k cs"

text \<open>
  the candidates of a frame after \<^verbatim>\<open>Begin\<close> and any submissions have distinct keys; each
  submitted candidate with a key and a callback is represented under its key by a candidate that is
  at least as good in priority, score and source; and nothing else is in the queue.
\<close>

theorem Kernel_Submit_keeps_best:
  "distinct (qkeys (k_candidates (submit_all (Kernel_Begin now k) cs))) \<and>
   (\<forall>c \<in> set cs. c_Key c \<noteq> [] \<and> c_Attempt c \<noteq> None \<longrightarrow>
      (\<exists>q \<in> set (k_candidates (submit_all (Kernel_Begin now k) cs)).
         c_Key (q_Value q) = c_Key c \<and> \<not> value_better c (q_Value q))) \<and>
   (\<forall>q \<in> set (k_candidates (submit_all (Kernel_Begin now k) cs)).
      q_Value q \<in> set cs \<and> c_Key (q_Value q) \<noteq> [] \<and> c_Attempt (q_Value q) \<noteq> None)"
proof (induction cs rule: rev_induct)
  case Nil
  then show ?case by (simp add: submit_all_def Kernel_Begin_def)
next
  case (snoc c cs)
  let ?k = "submit_all (Kernel_Begin now k) cs"
  have step: "submit_all (Kernel_Begin now k) (cs @ [c]) = fst (Kernel_Submit c ?k)"
    by (simp add: submit_all_def)
  show ?case
  proof (cases "c_Key c = [] \<or> c_Attempt c = None")
    case True
    with snoc step show ?thesis by (auto simp: Kernel_Submit_def)
  next
    case False
    let ?q = "\<lparr>q_Value = c, q_Serial = k_nextSerial ?k\<rparr>"
    have cands: "k_candidates (fst (Kernel_Submit c ?k)) = submit_into ?q (k_candidates ?k)"
      using False by (auto simp: Kernel_Submit_def)
    have "\<forall>q \<in> set (submit_into ?q (k_candidates ?k)). q_Value q \<in> set (cs @ [c])
        \<and> c_Key (q_Value q) \<noteq> [] \<and> c_Attempt (q_Value q) \<noteq> None"
      using submit_into_values [of _ ?q "k_candidates ?k"] snoc False by fastforce
    moreover have "\<exists>q \<in> set (submit_into ?q (k_candidates ?k)). c_Key (q_Value q) = c_Key c
        \<and> \<not> value_better c (q_Value q)"
      using submit_into_best_new [of ?q "k_candidates ?k"] by simp
    ultimately show ?thesis unfolding step cands
      using snoc distinct_submit_into [of "k_candidates ?k" ?q]
        submit_into_best_old [of "k_candidates ?k" _ ?q] by (intro conjI) auto
  qed
qed

section \<open>What one iteration does to the resolution\<close>

lemma lastResolution_simps [simp]:
  "k_lastResolution (touch_lifecycle c k) = k_lastResolution k"
  "k_lastResolution (select_lifecycle c k) = k_lastResolution k"
  "k_lastResolution (Kernel_Observe key oc now b m e k) = k_lastResolution k"
  "k_lastResolution (Kernel_ResetLifecycleHistory t k) = k_lastResolution k"
  by (simp_all add: touch_lifecycle_def select_lifecycle_def Kernel_Observe_def
      Kernel_ResetLifecycleHistory_def Let_def)

lemma run_attempt_resolution: "run_attempt c k w = (oc, k', w') \<Longrightarrow> k_lastResolution k' = k_lastResolution k"
  by (auto simp: run_attempt_def Let_def split: option.splits)

lemma Trace_resolution:
  "r_CommittedCandidates (k_lastResolution (Kernel_Trace c st rs ph k)) = r_CommittedCandidates (k_lastResolution k)"
  "r_ClaimedResources (k_lastResolution (Kernel_Trace c st rs ph k)) = r_ClaimedResources (k_lastResolution k)"
  "r_Terminal (k_lastResolution (Kernel_Trace c st rs ph k)) = r_Terminal (k_lastResolution k)"
  "r_Trace (k_lastResolution (Kernel_Trace c st rs ph k)) = r_Trace (k_lastResolution k) @
     [\<lparr>t_Key = c_Key c, t_Source = c_Source c, t_Status = st, t_Reason = rs,
       t_ActionPriority = c_ActionPriority c, t_Score = Score c,
       t_RequiredResources = c_RequiredResources c, t_LifecyclePhase = ph\<rparr>]"
  by (simp_all add: Kernel_Trace_def Let_def)

lemma commit_resolution_Trace [simp]: "r_Trace (commit_resolution c oc r) = r_Trace r"
  by (simp add: commit_resolution_def)

lemma resolve_one_resolution:
  assumes "resolve_one c k w = ((k', w'), stop)"
  shows "r_Terminal (k_lastResolution k') = (r_Terminal (k_lastResolution k) \<or> stop)"
    and "\<exists>t. r_Trace (k_lastResolution k') = r_Trace (k_lastResolution k) @ [t]
          \<and> t_Key t = c_Key c \<and> t_ActionPriority t = c_ActionPriority c"
    and "(r_CommittedCandidates (k_lastResolution k') = r_CommittedCandidates (k_lastResolution k)
          \<and> r_ClaimedResources (k_lastResolution k') = r_ClaimedResources (k_lastResolution k))
       \<or> (\<not> Conflicts (c_RequiredResources c) (r_ClaimedResources (k_lastResolution k))
          \<and> r_CommittedCandidates (k_lastResolution k')
              = r_CommittedCandidates (k_lastResolution k) @ [c_Key c]
          \<and> r_ClaimedResources (k_lastResolution k')
              = r_ClaimedResources (k_lastResolution k) OR c_RequiredResources c)"
proof -
  let ?k1 = "touch_lifecycle c k"
  consider (masked) status reason where
      "mask_reason c (lifecycle_of ?k1 (c_Key c)) ?k1 = Some (status, reason)"
    | (run) oc k2 w2 where "mask_reason c (lifecycle_of ?k1 (c_Key c)) ?k1 = None"
      "run_attempt c (select_lifecycle c ?k1) w = (oc, k2, w2)"
    by (metis option.exhaust surj_pair)
  then have "r_Terminal (k_lastResolution k') = (r_Terminal (k_lastResolution k) \<or> stop) \<and>
    (\<exists>t. r_Trace (k_lastResolution k') = r_Trace (k_lastResolution k) @ [t]
          \<and> t_Key t = c_Key c \<and> t_ActionPriority t = c_ActionPriority c) \<and>
    ((r_CommittedCandidates (k_lastResolution k') = r_CommittedCandidates (k_lastResolution k)
          \<and> r_ClaimedResources (k_lastResolution k') = r_ClaimedResources (k_lastResolution k))
       \<or> (\<not> Conflicts (c_RequiredResources c) (r_ClaimedResources (k_lastResolution k))
          \<and> r_CommittedCandidates (k_lastResolution k')
              = r_CommittedCandidates (k_lastResolution k) @ [c_Key c]
          \<and> r_ClaimedResources (k_lastResolution k')
              = r_ClaimedResources (k_lastResolution k) OR c_RequiredResources c))"
  proof cases
    case masked
    with assms show ?thesis by (auto simp: resolve_one_def Let_def Trace_resolution)
  next
    case run
    from run(1) have "\<not> Conflicts (c_RequiredResources c) (r_ClaimedResources (k_lastResolution k))"
      by (simp add: mask_reason_def split: if_splits)
    moreover have "k_lastResolution k2 = k_lastResolution k"
      using run_attempt_resolution [OF run(2)] by simp
    ultimately show ?thesis using run assms
      by (cases "o_Result oc") (auto simp: resolve_one_def Let_def Trace_resolution commit_resolution_def)
  qed
  then show "r_Terminal (k_lastResolution k') = (r_Terminal (k_lastResolution k) \<or> stop)"
    and "\<exists>t. r_Trace (k_lastResolution k') = r_Trace (k_lastResolution k) @ [t]
          \<and> t_Key t = c_Key c \<and> t_ActionPriority t = c_ActionPriority c"
    and "(r_CommittedCandidates (k_lastResolution k') = r_CommittedCandidates (k_lastResolution k)
          \<and> r_ClaimedResources (k_lastResolution k') = r_ClaimedResources (k_lastResolution k))
       \<or> (\<not> Conflicts (c_RequiredResources c) (r_ClaimedResources (k_lastResolution k))
          \<and> r_CommittedCandidates (k_lastResolution k')
              = r_CommittedCandidates (k_lastResolution k) @ [c_Key c]
          \<and> r_ClaimedResources (k_lastResolution k')
              = r_ClaimedResources (k_lastResolution k) OR c_RequiredResources c)"
    by blast+
qed

section \<open>Resource lanes\<close>

definition or_all :: "resource_mask list \<Rightarrow> resource_mask" where
  "or_all ms = foldl (OR) 0 ms"

lemma or_all_snoc: "or_all (ms @ [m]) = or_all ms OR m"
  by (simp add: or_all_def)

lemma and_or_all: "m AND or_all ms = 0 \<longleftrightarrow> (\<forall>x \<in> set ms. m AND x = 0)"
proof (induction ms rule: rev_induct)
  case Nil
  then show ?case by (simp add: or_all_def)
next
  case (snoc x xs)
  then show ?case by (auto simp: or_all_snoc and_or_zero_iff)
qed

definition mask_of :: "'w queued list \<Rightarrow> string \<Rightarrow> resource_mask" where
  "mask_of qs key =
     (case find (\<lambda>q. c_Key (q_Value q) = key) qs of None \<Rightarrow> 0 | Some q \<Rightarrow> c_RequiredResources (q_Value q))"

lemma mask_of_member:
  "distinct (qkeys qs) \<Longrightarrow> q \<in> set qs \<Longrightarrow>
   mask_of qs (c_Key (q_Value q)) = c_RequiredResources (q_Value q)"
  by (induction qs) (force simp: mask_of_def)+

definition lanes_ok :: "(string \<Rightarrow> resource_mask) \<Rightarrow> resolution \<Rightarrow> bool" where
  "lanes_ok mk r \<longleftrightarrow>
     sorted_wrt (\<lambda>a b. \<not> Conflicts (mk a) (mk b)) (r_CommittedCandidates r)
     \<and> r_ClaimedResources r = or_all (map mk (r_CommittedCandidates r))"

lemma resolve_one_lanes:
  assumes "resolve_one c k w = ((k', w'), stop)" and "mk (c_Key c) = c_RequiredResources c"
    and "lanes_ok mk (k_lastResolution k)"
  shows "lanes_ok mk (k_lastResolution k')"
  using resolve_one_resolution(3) [OF assms(1)] assms(2,3)
  by (auto simp: lanes_ok_def Conflicts_def and_or_all sorted_wrt_append or_all_snoc and.commute)

lemma resolve_one_committed:
  "resolve_one c k w = ((k', w'), stop) \<Longrightarrow>
   set (r_CommittedCandidates (k_lastResolution k'))
     \<subseteq> insert (c_Key c) (set (r_CommittedCandidates (k_lastResolution k)))"
  using resolve_one_resolution(3) by fastforce

lemma resolve_loop_lanes:
  "(\<forall>q \<in> set qs. mk (c_Key (q_Value q)) = c_RequiredResources (q_Value q)) \<Longrightarrow>
   lanes_ok mk (k_lastResolution k) \<Longrightarrow>
   lanes_ok mk (k_lastResolution (fst (resolve_loop qs k w)))"
proof (induction qs k w rule: resolve_loop.induct)
  case (2 qd qs k w)
  obtain k1 w1 stop where one: "resolve_one (q_Value qd) k w = ((k1, w1), stop)" by (metis surj_pair)
  with "2.prems" have "lanes_ok mk (k_lastResolution k1)" by (auto intro: resolve_one_lanes)
  with 2 one show ?case by (cases stop) auto
qed simp

text \<open>
  C1: the candidates that \<^verbatim>\<open>Resolve\<close> commits in one tick own pairwise disjoint resource lanes,
  and the claimed mask of the resolution is exactly the union of their lanes.
\<close>

theorem Kernel_Resolve_exclusive:
  assumes "distinct (qkeys (k_candidates k))" and "k_lastResolution k = empty_resolution"
    and "Kernel_Resolve k w = (k', w')"
  shows "sorted_wrt (\<lambda>a b. mask_of (k_candidates k) a AND mask_of (k_candidates k) b = 0)
      (r_CommittedCandidates (k_lastResolution k')) \<and>
    r_ClaimedResources (k_lastResolution k')
      = or_all (map (mask_of (k_candidates k)) (r_CommittedCandidates (k_lastResolution k')))"
proof -
  let ?qs = "stable_sort Better (k_candidates k)"
  obtain k2 w2 where loop: "resolve_loop ?qs k w = (k2, w2)" by fastforce
  have "lanes_ok (mask_of (k_candidates k)) (k_lastResolution k2)"
    using resolve_loop_lanes [of ?qs "mask_of (k_candidates k)" k w] loop assms(1,2)
    by (auto simp: mask_of_member lanes_ok_def empty_resolution_def or_all_def)
  with loop assms(3) show ?thesis
    by (auto simp: Kernel_Resolve_def lanes_ok_def Conflicts_def)
qed

definition sample_candidate :: "string \<Rightarrow> arb_priority \<Rightarrow> resource list \<Rightarrow> outcome \<Rightarrow> string list candidate" where
  "sample_candidate key p rs oc = \<lparr>c_Key = key, c_Source = ''s'', c_ActionPriority = p,
     c_UtilityScore = 0, c_PolicyScore = 0, c_PolicyWeight = 0, c_RequiredResources = Uses rs,
     c_ExpiresAtMs = 0, c_RetryBaseMs = 100, c_RetryMaxMs = 3000, c_EscalateAfter = 5,
     c_Allowed = True, c_RejectReason = [],
     c_Attempt = Some (\<lambda>log. \<lparr>eff_outcome = oc, eff_world = log @ [key], eff_reset = None\<rparr>)\<rparr>"

definition sample_kernel :: "string list kernel" where
  "sample_kernel = submit_all (Kernel_Begin 1000 Kernel_init)
     [sample_candidate ''walk'' PRouteMovement [RMovement] (Outcome_Committed ''ok''),
      sample_candidate ''cast'' PTrainedDamage [RGlobalCooldown, RCast] (Outcome_Committed ''ok''),
      sample_candidate ''blink'' PSurvival [RMovement, RCast] (Outcome_Retryable ''cooldown''),
      sample_candidate ''heal'' PSupport [RCast] (Outcome_Committed ''ok'')]"

lemmas sample_simps = sample_kernel_def sample_candidate_def submit_all_def Kernel_Begin_def
  Kernel_init_def Kernel_Submit_def Better_def Let_def Score_def empty_resolution_def

theorem Kernel_Submit_keeps_best_witness:
  "distinct (qkeys (k_candidates sample_kernel)) \<and>
   (\<exists>q \<in> set (k_candidates (submit_all (Kernel_Begin 1000 Kernel_init)
        [sample_candidate ''cast'' PTrainedDamage [RCast] (Outcome_Committed ''ok''),
         sample_candidate ''cast'' PSurvival [RCast] (Outcome_Committed ''ok'')])).
      c_Key (q_Value q) = ''cast'' \<and> c_ActionPriority (q_Value q) = PSurvival)"
proof -
  let ?a = "sample_candidate ''cast'' PTrainedDamage [RCast] (Outcome_Committed ''ok'')"
  let ?b = "sample_candidate ''cast'' PSurvival [RCast] (Outcome_Committed ''ok'')"
  note best = Kernel_Submit_keeps_best [of 1000 Kernel_init]
  have "\<exists>q \<in> set (k_candidates (submit_all (Kernel_Begin 1000 Kernel_init) [?a, ?b])).
      c_Key (q_Value q) = c_Key ?b \<and> \<not> value_better ?b (q_Value q)"
    using best [of "[?a, ?b]"] by (simp add: sample_candidate_def)
  then obtain q where q: "q \<in> set (k_candidates (submit_all (Kernel_Begin 1000 Kernel_init) [?a, ?b]))"
    "c_Key (q_Value q) = ''cast''" "\<not> value_better ?b (q_Value q)"
    by (auto simp: sample_candidate_def)
  then have "q_Value q = ?a \<or> q_Value q = ?b" using best [of "[?a, ?b]"] by auto
  with q(3) have "c_ActionPriority (q_Value q) = PSurvival"
    by (auto simp: value_better_def Better_def sample_candidate_def Score_def)
  moreover have "distinct (qkeys (k_candidates sample_kernel))"
    unfolding sample_kernel_def using best by blast
  ultimately show ?thesis using q by blast
qed

theorem Kernel_Resolve_exclusive_witness:
  "r_CommittedCandidates (k_lastResolution (fst (Kernel_Resolve sample_kernel []))) = [''heal'', ''walk''] \<and>
   r_ClaimedResources (k_lastResolution (fst (Kernel_Resolve sample_kernel []))) = Uses [RCast, RMovement]"
proof -
  obtain k' w' where run: "Kernel_Resolve sample_kernel [] = (k', w')" by fastforce
  have d: "distinct (qkeys (k_candidates sample_kernel))"
    by (simp add: sample_simps)
  have e: "k_lastResolution sample_kernel = empty_resolution"
    by (simp add: sample_simps)
  have "map c_Key (map q_Value (k_candidates sample_kernel)) = [''walk'', ''cast'', ''blink'', ''heal'']"
    by (simp add: sample_simps)
  have comm: "r_CommittedCandidates (k_lastResolution (fst (Kernel_Resolve sample_kernel []))) = [''heal'', ''walk'']"
    by code_simp
  with Kernel_Resolve_exclusive [OF d e run] run
  have "r_ClaimedResources (k_lastResolution k') = or_all (map (mask_of (k_candidates sample_kernel)) [''heal'', ''walk''])"
    by simp
  also have "\<dots> = Uses [RCast, RMovement]" by code_simp
  finally show ?thesis using comm run by simp
qed

section \<open>Order of the trace\<close>

lemma resolve_loop_trace:
  "resolve_loop qs k w = (k', w') \<Longrightarrow> \<not> r_Terminal (k_lastResolution k) \<Longrightarrow>
   \<exists>n ts. n \<le> length qs \<and> r_Trace (k_lastResolution k') = r_Trace (k_lastResolution k) @ ts
     \<and> map t_Key ts = take n (qkeys qs)
     \<and> map t_ActionPriority ts = take n (map (\<lambda>q. c_ActionPriority (q_Value q)) qs)
     \<and> (\<not> r_Terminal (k_lastResolution k') \<longrightarrow> n = length qs)"
proof (induction qs k w arbitrary: k' w' rule: resolve_loop.induct)
  case (1 k w)
  then show ?case by (intro exI [of _ 0] exI [of _ "[]"]) auto
next
  case (2 qd qs k w)
  obtain k1 w1 stop where one: "resolve_one (q_Value qd) k w = ((k1, w1), stop)" by (metis surj_pair)
  note step = resolve_one_resolution [OF one]
  then obtain t where t: "r_Trace (k_lastResolution k1) = r_Trace (k_lastResolution k) @ [t]"
    "t_Key t = c_Key (q_Value qd)" "t_ActionPriority t = c_ActionPriority (q_Value qd)" by blast
  show ?case
  proof (cases stop)
    case True
    with one "2.prems" t step(1) show ?thesis
      by (intro exI [of _ 1] exI [of _ "[t]"]) auto
  next
    case False
    with one "2.prems" step(1) have "resolve_loop qs k1 w1 = (k', w')"
      "\<not> r_Terminal (k_lastResolution k1)" by auto
    with "2.IH" [OF one [symmetric] refl False] obtain n ts where
      "n \<le> length qs" "r_Trace (k_lastResolution k') = r_Trace (k_lastResolution k1) @ ts"
      "map t_Key ts = take n (qkeys qs)"
      "map t_ActionPriority ts = take n (map (\<lambda>q. c_ActionPriority (q_Value q)) qs)"
      "\<not> r_Terminal (k_lastResolution k') \<longrightarrow> n = length qs" by blast
    with t show ?thesis by (intro exI [of _ "Suc n"] exI [of _ "t # ts"]) auto
  qed
qed

lemma sorted_priorities:
  "sorted_wrt (\<lambda>p p'. prio_num p' \<le> prio_num p)
     (map (\<lambda>q. c_ActionPriority (q_Value q)) (stable_sort Better qs))"
proof -
  have "in_order Better (stable_sort Better qs)" by (rule better.in_order_stable_sort)
  then have "sorted_wrt (\<lambda>a b. prio_num (c_ActionPriority (q_Value b)) \<le> prio_num (c_ActionPriority (q_Value a)))
      (stable_sort Better qs)"
    unfolding in_order_def
    by (rule sorted_wrt_mono_rel [rotated]) (auto simp: Better_def Let_def not_less split: if_splits)
  then show ?thesis by (simp add: sorted_wrt_map)
qed

text \<open>
  C23: \<^verbatim>\<open>Resolve\<close> of a fresh frame traces the candidates in the order of \<^verbatim>\<open>Better\<close>, so with
  priorities never rising, each at most once; unless a candidate ends the tick with a terminal
  outcome every submitted candidate is traced, and the queue is empty afterwards.
\<close>

theorem Kernel_Resolve_trace_order:
  assumes "k_lastResolution k = empty_resolution" and "Kernel_Resolve k w = (k', w')"
  shows "k_candidates k' = [] \<and>
    sorted_wrt (\<lambda>a b. prio_num (t_ActionPriority b) \<le> prio_num (t_ActionPriority a))
      (r_Trace (k_lastResolution k')) \<and>
    (\<exists>n. map t_Key (r_Trace (k_lastResolution k')) = take n (qkeys (stable_sort Better (k_candidates k)))
       \<and> (\<not> r_Terminal (k_lastResolution k') \<longrightarrow> n = length (k_candidates k)))"
proof -
  let ?qs = "stable_sort Better (k_candidates k)"
  obtain k2 where loop: "resolve_loop ?qs k w = (k2, w')" and k': "k' = k2\<lparr>k_candidates := []\<rparr>"
    using assms(2) by (auto simp: Kernel_Resolve_def split: prod.splits)
  from resolve_loop_trace [OF loop] assms(1) obtain n where
    n: "map t_Key (r_Trace (k_lastResolution k2)) = take n (qkeys ?qs)"
    "map t_ActionPriority (r_Trace (k_lastResolution k2)) = take n (map (\<lambda>q. c_ActionPriority (q_Value q)) ?qs)"
    "\<not> r_Terminal (k_lastResolution k2) \<longrightarrow> n = length ?qs"
    by (auto simp: empty_resolution_def)
  have "sorted_wrt (\<lambda>p p'. prio_num p' \<le> prio_num p) (map t_ActionPriority (r_Trace (k_lastResolution k2)))"
    unfolding n(2) by (rule sorted_wrt_take) (rule sorted_priorities)
  then have "sorted_wrt (\<lambda>a b. prio_num (t_ActionPriority b) \<le> prio_num (t_ActionPriority a))
      (r_Trace (k_lastResolution k2))" by (simp add: sorted_wrt_map)
  with n k' show ?thesis by auto
qed

theorem Kernel_Resolve_trace_order_witness:
  "\<exists>n. map t_Key (r_Trace (k_lastResolution (fst (Kernel_Resolve sample_kernel []))))
     = take n [''blink'', ''heal'', ''cast'', ''walk'']"
proof -
  obtain k' w' where run: "Kernel_Resolve sample_kernel [] = (k', w')" by fastforce
  have e: "k_lastResolution sample_kernel = empty_resolution" by (simp add: sample_simps)
  have "qkeys (stable_sort Better (k_candidates sample_kernel)) = [''blink'', ''heal'', ''cast'', ''walk'']"
    by code_simp
  with Kernel_Resolve_trace_order [OF e run] run show ?thesis by auto
qed

section \<open>Gates\<close>

definition blocked :: "'w candidate \<Rightarrow> 'w kernel \<Rightarrow> bool" where
  "blocked c k \<longleftrightarrow>
     (case k_admissionPolicy k of None \<Rightarrow> False | Some p \<Rightarrow> p c (k_admissionMetadata k (c_Key c)) \<noteq> [])
     \<or> \<not> c_Allowed c
     \<or> (c_ExpiresAtMs c \<noteq> 0 \<and> c_ExpiresAtMs c \<le> k_nowMs k)
     \<or> (\<exists>l. k_lifecycles k (c_Key c) = Some l \<and> k_nowMs k < l_RetryAfterMs l)
     \<or> c_RequiredResources c AND r_ClaimedResources (k_lastResolution k) \<noteq> 0"

lemma touch_simps [simp]:
  "k_admissionPolicy (touch_lifecycle c k) = k_admissionPolicy k"
  "k_admissionMetadata (touch_lifecycle c k) = k_admissionMetadata k"
  "k_nowMs (touch_lifecycle c k) = k_nowMs k"
  "l_RetryAfterMs (lifecycle_of (touch_lifecycle c k) (c_Key c)) = l_RetryAfterMs (lifecycle_of k (c_Key c))"
  by (simp_all add: touch_lifecycle_def lifecycle_of_def)

lemma backing_off_iff:
  "(\<exists>l. k_lifecycles k key = Some l \<and> now < l_RetryAfterMs l) \<longleftrightarrow> now < l_RetryAfterMs (lifecycle_of k key)"
  by (auto simp: lifecycle_of_def default_lifecycle_def split: option.splits)

lemma mask_reason_blocked:
  "mask_reason c (lifecycle_of (touch_lifecycle c k) (c_Key c)) (touch_lifecycle c k) = None \<longleftrightarrow> \<not> blocked c k"
  unfolding blocked_def backing_off_iff
  by (auto simp: mask_reason_def admission_reason_def Conflicts_def split: option.splits)

lemma mask_reason_status:
  "mask_reason c l k = Some (st, rs) \<Longrightarrow> st \<noteq> ''attempted''"
  by (auto simp: mask_reason_def split: if_splits)

text \<open>
  a candidate's callback runs exactly when no gate holds: not vetoed by the admission policy,
  not masked, not expired, not backing off, and free of the claimed lanes. A gated candidate
  leaves the world, the commitments and its failure record alone and is traced as deferred.
\<close>

theorem Kernel_gates:
  assumes "resolve_one c k w = ((k', w'), stop)"
  shows "(t_Status (last (r_Trace (k_lastResolution k'))) = ''attempted'') = (\<not> blocked c k) \<and>
    (blocked c k \<longrightarrow> w' = w \<and> \<not> stop
       \<and> r_CommittedCandidates (k_lastResolution k') = r_CommittedCandidates (k_lastResolution k)
       \<and> l_RetryAfterMs (lifecycle_of k' (c_Key c)) = l_RetryAfterMs (lifecycle_of k (c_Key c))
       \<and> l_AttemptCount (lifecycle_of k' (c_Key c)) = l_AttemptCount (lifecycle_of k (c_Key c))
       \<and> t_LifecyclePhase (last (r_Trace (k_lastResolution k'))) = PhDeferred)"
proof (cases "mask_reason c (lifecycle_of (touch_lifecycle c k) (c_Key c)) (touch_lifecycle c k)")
  case None
  then have "\<not> blocked c k" using mask_reason_blocked by blast
  moreover obtain oc k2 w2 where "run_attempt c (select_lifecycle c (touch_lifecycle c k)) w = (oc, k2, w2)"
    by (metis surj_pair)
  then have "t_Status (last (r_Trace (k_lastResolution k'))) = ''attempted''"
    using None assms by (auto simp: resolve_one_def Let_def Trace_resolution)
  ultimately show ?thesis by simp
next
  case (Some sr)
  obtain st rs where sr: "sr = (st, rs)" by fastforce
  have "blocked c k" using Some mask_reason_blocked [of c k] by auto
  moreover have "k' = Kernel_Trace c st rs PhDeferred (touch_lifecycle c k)" "w' = w" "\<not> stop"
    using Some assms sr by (auto simp: resolve_one_def Let_def)
  moreover have "st \<noteq> ''attempted''" using Some sr mask_reason_status by blast
  ultimately show ?thesis
    by (simp add: Trace_resolution) (simp add: Kernel_Trace_def touch_lifecycle_def lifecycle_of_def Let_def)
qed

theorem Kernel_gates_witness:
  "snd (fst (resolve_one (sample_candidate ''a'' PIdle [RCast] (Outcome_Committed ''ok''))
      (Kernel_Observe ''a'' (Outcome_Retryable ''cooldown'') 1000 100 3000 5 (Kernel_Begin 1050 Kernel_init)) [])) = []"
proof -
  let ?c = "sample_candidate ''a'' PIdle [RCast] (Outcome_Committed ''ok'')"
  let ?k = "Kernel_Observe ''a'' (Outcome_Retryable ''cooldown'') 1000 100 3000 5 (Kernel_Begin 1050 Kernel_init)"
  obtain k' w' stop where run: "resolve_one ?c ?k [] = ((k', w'), stop)" by (metis surj_pair)
  have "blocked ?c ?k"
    by (simp add: blocked_def Kernel_Observe_def observe_lifecycle_def sample_simps
        lifecycle_of_def default_lifecycle_def Outcome_Retryable_def mk_outcome_def)
  with Kernel_gates [OF run] run show ?thesis by simp
qed

section \<open>Backoff\<close>

definition failing :: "outcome \<Rightarrow> bool" where
  "failing oc \<longleftrightarrow> o_Result oc = DUnsafe \<or> o_Result oc = DTerminal \<or> (o_Result oc = DRetryable \<and> o_RetryAtMs oc = 0)"

definition observe_all :: "u32 \<Rightarrow> u32 \<Rightarrow> u8 \<Rightarrow> (outcome \<times> u64) list \<Rightarrow> lifecycle \<Rightarrow> lifecycle" where
  "observe_all base mx esc obs l = foldl (\<lambda>l (oc, now). observe_lifecycle oc now base mx esc l) l obs"

lemma unat_of_nat_32: "n < 2 ^ 32 \<Longrightarrow> unat (of_nat n :: u32) = n"
  by (simp add: unat_of_nat)

lemma unat_min_8: "n < 2 ^ 32 \<Longrightarrow> unat (min (of_nat n :: u32) 8) = min n 8"
  by (simp add: min_def word_le_nat_alt unat_of_nat_32)

lemma observe_failing:
  assumes "failing oc" and "l_ConsecutiveFailures l = of_nat n" and "Suc n < 2 ^ 32"
  shows "l_ConsecutiveFailures (observe_lifecycle oc now base mx esc l) = of_nat (Suc n)"
    and "l_RetryAfterMs (observe_lifecycle oc now base mx esc l)
      = now + min (ucast mx) (push_bit (min n 8) (ucast base))"
    and "l_FirstFailureAtMs (observe_lifecycle oc now base mx esc l)
      = (if n = 0 then now else l_FirstFailureAtMs l)"
proof -
  have zero: "(of_nat n = (0 :: u32)) = (n = 0)"
  proof
    assume "of_nat n = (0 :: u32)"
    then have "unat (of_nat n :: u32) = 0" by simp
    then show "n = 0" using assms(3) by (simp add: unat_of_nat_32)
  qed simp
  have oc: "o_Result oc \<noteq> DCommitted" "o_Result oc \<noteq> DNotApplicable"
    "\<not> (o_Result oc = DRetryable \<and> o_RetryAtMs oc \<noteq> 0)"
    using assms(1) by (auto simp: failing_def)
  show "l_ConsecutiveFailures (observe_lifecycle oc now base mx esc l) = of_nat (Suc n)"
    using oc assms(2) by (simp add: observe_lifecycle_def Let_def add.commute)
  show "l_RetryAfterMs (observe_lifecycle oc now base mx esc l)
      = now + min (ucast mx) (push_bit (min n 8) (ucast base))"
    using oc assms(2) unat_min_8 [of n] assms(3) by (cases "n = 0") (auto simp: zero observe_lifecycle_def Let_def)
  show "l_FirstFailureAtMs (observe_lifecycle oc now base mx esc l)
      = (if n = 0 then now else l_FirstFailureAtMs l)"
    using oc assms(2) zero by (auto simp: observe_lifecycle_def Let_def)
qed

text \<open>
  Exponential backoff. After \<open>n + 1\<close> failures in a row under one key the key has counted
  exactly those failures, remembers the time of the first one, and is blocked until the time of the
  last one plus the smaller of the maximum delay and \<open>base * 2 ^ min n 8\<close>.
\<close>

theorem Kernel_backoff:
  assumes "\<forall>(oc, t) \<in> set (obs @ [(oc, now)]). failing oc" and "Suc (length obs) < 2 ^ 32"
    and "l_ConsecutiveFailures l = 0"
  shows "l_ConsecutiveFailures (observe_all base mx esc (obs @ [(oc, now)]) l) = of_nat (Suc (length obs)) \<and>
    l_FirstFailureAtMs (observe_all base mx esc (obs @ [(oc, now)]) l) = snd (hd (obs @ [(oc, now)])) \<and>
    l_RetryAfterMs (observe_all base mx esc (obs @ [(oc, now)]) l)
      = now + min (ucast mx) (push_bit (min (length obs) 8) (ucast base))"
  using assms
proof (induction obs arbitrary: oc now rule: rev_induct)
  case Nil
  then show ?case using observe_failing [of oc l 0] by (simp add: observe_all_def)
next
  case (snoc x obs)
  obtain oc0 t0 where x: "x = (oc0, t0)" by fastforce
  let ?l = "observe_all base mx esc (obs @ [(oc0, t0)]) l"
  have all: "observe_all base mx esc ((obs @ [x]) @ [(oc, now)]) l = observe_lifecycle oc now base mx esc ?l"
    by (simp add: observe_all_def x)
  have IH: "l_ConsecutiveFailures ?l = of_nat (Suc (length obs))"
    "l_FirstFailureAtMs ?l = snd (hd (obs @ [(oc0, t0)]))"
    using snoc.IH [of oc0 t0] snoc.prems x by auto
  have "failing oc" using snoc.prems(1) by simp
  from observe_failing [OF this IH(1)] snoc.prems(2) IH(2) x show ?case
    unfolding all by (cases obs) simp_all
qed

theorem Kernel_backoff_witness:
  "l_RetryAfterMs (observe_all 100 3000 5
     ([(Outcome_Retryable ''r'', 10), (Outcome_Unsafe ''u'', 300)] @ [(Outcome_Retryable ''r'', 900)])
     default_lifecycle) = 900 + 400"
proof -
  have "\<forall>(oc, t) \<in> set ([(Outcome_Retryable ''r'', 10 :: u64), (Outcome_Unsafe ''u'', 300)]
      @ [(Outcome_Retryable ''r'', 900)]). failing oc"
    by (simp add: failing_def Outcome_Retryable_def Outcome_Unsafe_def mk_outcome_def)
  from Kernel_backoff [OF this, of default_lifecycle 100 3000 5] show ?thesis
    by (simp add: default_lifecycle_def push_bit_eq_mult)
qed

section \<open>Timed waits\<close>

definition timed_wait :: "outcome \<Rightarrow> bool" where
  "timed_wait oc \<longleftrightarrow> o_Result oc = DRetryable \<and> o_RetryAtMs oc \<noteq> 0"

lemma observe_timed_wait:
  assumes "timed_wait oc"
  shows "observe_lifecycle oc now base mx esc l =
    l\<lparr>l_CurrentPhase := o_LifecyclePhase oc, l_LastDisposition := DRetryable, l_LastReason := o_Reason oc,
      l_LastAttemptAtMs := now, l_EscalateAfter := esc,
      l_RetryAfterMs := min (max (o_RetryAtMs oc) now) (now + ucast mx)\<rparr>"
  using assms by (simp add: timed_wait_def observe_lifecycle_def Let_def)

lemma lifecycle_of_Observe:
  "k_lifecycles (Kernel_Observe key oc now base mx esc k) key
     = Some (observe_lifecycle oc now base mx esc (lifecycle_of k key))"
  by (simp add: Kernel_Observe_def)

text \<open>
  waiting cannot hide a failing action: any number of timed waits observed under a key leave its
  failure streak and the time of the first failure, hence the escalation verdict, as they were, and
  the key stays blocked from the last wait on for at most the maximum delay.
\<close>

theorem Kernel_waits_keep_streak:
  assumes "\<forall>(oc, t) \<in> set (waits @ [(oc, now)]). timed_wait oc"
    and "now \<le> now + ucast mx"
  shows "let l' = observe_all base mx (l_EscalateAfter l) (waits @ [(oc, now)]) l in
    l_ConsecutiveFailures l' = l_ConsecutiveFailures l \<and>
    l_FirstFailureAtMs l' = l_FirstFailureAtMs l \<and>
    now \<le> l_RetryAfterMs l' \<and> l_RetryAfterMs l' \<le> now + ucast mx \<and>
    (\<forall>key t d. Kernel_ShouldEscalate key t d (k\<lparr>k_lifecycles := (k_lifecycles k)(key \<mapsto> l')\<rparr>)
      = Kernel_ShouldEscalate key t d (k\<lparr>k_lifecycles := (k_lifecycles k)(key \<mapsto> l)\<rparr>))"
proof -
  let ?f = "\<lambda>obs. observe_all base mx (l_EscalateAfter l) obs l"
  have streak: "\<forall>(oc, t) \<in> set obs. timed_wait oc \<Longrightarrow>
      l_ConsecutiveFailures (?f obs) = l_ConsecutiveFailures l
      \<and> l_FirstFailureAtMs (?f obs) = l_FirstFailureAtMs l
      \<and> l_EscalateAfter (?f obs) = l_EscalateAfter l" for obs
    by (induction obs rule: rev_induct) (auto simp: observe_all_def observe_timed_wait split: prod.splits)
  have last: "?f (waits @ [(oc, now)]) = observe_lifecycle oc now base mx (l_EscalateAfter l) (?f waits)"
    by (simp add: observe_all_def)
  have "timed_wait oc" using assms(1) by simp
  then have "l_RetryAfterMs (?f (waits @ [(oc, now)])) = min (max (o_RetryAtMs oc) now) (now + ucast mx)"
    unfolding last by (simp add: observe_timed_wait)
  with streak [OF assms(1)] assms(2) show ?thesis
    by (simp add: Let_def Kernel_ShouldEscalate_def)
qed

theorem Kernel_waits_keep_streak_witness:
  "l_ConsecutiveFailures (observe_all 100 3000 5
     ([(Outcome_WaitUntil ''gcd'' 1500, 1000)] @ [(Outcome_WaitUntil ''gcd'' 90000, 1500)])
     (default_lifecycle\<lparr>l_ConsecutiveFailures := 3\<rparr>)) = 3"
proof -
  have "\<forall>(oc, t) \<in> set ([(Outcome_WaitUntil ''gcd'' 1500, 1000 :: u64)]
      @ [(Outcome_WaitUntil ''gcd'' 90000, 1500)]). timed_wait oc"
    by (simp add: timed_wait_def Outcome_WaitUntil_def mk_outcome_def)
  moreover have "(1500 :: u64) \<le> 1500 + ucast (3000 :: u32)" by simp
  ultimately have waits: "l_ConsecutiveFailures (observe_all base 3000 (l_EscalateAfter l)
      ([(Outcome_WaitUntil ''gcd'' 1500, 1000)] @ [(Outcome_WaitUntil ''gcd'' 90000, 1500)]) l)
      = l_ConsecutiveFailures l" for base l
    using Kernel_waits_keep_streak [of _ _ 1500 3000 base l Kernel_init] unfolding Let_def by blast
  have "l_EscalateAfter (default_lifecycle\<lparr>l_ConsecutiveFailures := 3\<rparr>) = 5"
    "l_ConsecutiveFailures (default_lifecycle\<lparr>l_ConsecutiveFailures := 3\<rparr>) = 3"
    by (simp_all add: default_lifecycle_def)
  with waits [of 100 "default_lifecycle\<lparr>l_ConsecutiveFailures := 3\<rparr>"] show ?thesis by metis
qed

section \<open>Escaping\<close>

text \<open>How a reader of a JSON string literal undoes the escapes that \<open>Escape\<close> writes.\<close>

fun unescape :: "string \<Rightarrow> string" where
  "unescape [] = []"
| "unescape [c] = [c]"
| "unescape (c # d # cs) =
     (if c = CHR 0x5C then (if d = CHR ''n'' then CHR 0x0A else d) # unescape cs
      else c # unescape (d # cs))"

text \<open>The rest of the output after the closing quote of the literal that starts here.\<close>

fun after_literal :: "string \<Rightarrow> string option" where
  "after_literal [] = None"
| "after_literal [c] = (if c = CHR 0x22 then Some [] else None)"
| "after_literal (c # d # cs) =
     (if c = CHR 0x22 then Some (d # cs)
      else if c = CHR 0x5C then after_literal cs
      else after_literal (d # cs))"

lemma after_literal_plain: "c \<noteq> CHR 0x22 \<Longrightarrow> c \<noteq> CHR 0x5C \<Longrightarrow> after_literal (c # cs) = after_literal cs"
  by (cases cs) auto

lemma after_literal_quote: "after_literal (CHR 0x22 # cs) = Some cs"
  by (cases cs) auto

lemma unescape_plain: "c \<noteq> CHR 0x5C \<Longrightarrow> unescape (c # cs) = c # unescape cs"
  by (cases cs) auto

text \<open>
  \<^verbatim>\<open>Escape\<close> is a faithful quoting for the trace output: it can be undone, the escaped text
  ends exactly at the closing quote that follows it, whatever comes after, and it has no raw
  newline, so two values never print alike and no value breaks out of its literal.
\<close>

theorem Escape_roundtrip:
  "unescape (Escape s) = s \<and> after_literal (Escape s @ [CHR 0x22] @ rest) = Some rest
    \<and> CHR 0x0A \<notin> set (Escape s)"
proof (induction s)
  case Nil
  then show ?case by (simp add: after_literal_quote)
next
  case (Cons c s)
  consider "c = CHR 0x5C" | "c = CHR 0x22" | "c = CHR 0x0A"
    | "c \<noteq> CHR 0x5C" "c \<noteq> CHR 0x22" "c \<noteq> CHR 0x0A" by blast
  then show ?case
    using Cons by cases (simp_all add: Let_def after_literal_plain unescape_plain)
qed

section \<open>Ordered ticks\<close>

type_synonym 'w try_call = "arb_priority \<times> string \<times> ('w \<Rightarrow> outcome \<times> 'w)"

fun tick_run :: "'w try_call list \<Rightarrow> tick \<Rightarrow> 'w \<Rightarrow> tick \<times> 'w" where
  "tick_run [] t w = (t, w)"
| "tick_run ((p, cand, attempt) # calls) t w =
     (case Tick_Try p cand attempt t w of ((t', w'), _) \<Rightarrow> tick_run calls t' w')"

text \<open>The calls whose callback runs: a prefix, cut after the first decisive outcome or before the
  first call of a higher priority than its predecessor.\<close>

fun tick_expected :: "arb_priority option \<Rightarrow> 'w try_call list \<Rightarrow> 'w \<Rightarrow> 'w" where
  "tick_expected prev [] w = w"
| "tick_expected prev ((p, cand, attempt) # calls) w =
     (if (case prev of None \<Rightarrow> False | Some q \<Rightarrow> prio_num q < prio_num p) then w
      else (case attempt w of (oc, w') \<Rightarrow>
        if o_Result oc = DCommitted \<or> o_Result oc = DTerminal then w'
        else tick_expected (Some p) calls w'))"

lemma tick_resolved_sticky: "tk_resolved t \<Longrightarrow> tick_run calls t w = (t, w)"
  by (induction calls t w rule: tick_run.induct) (auto simp: Tick_Try_def)

lemma tick_run_expected:
  assumes "\<not> tk_resolved t" and "unat (tk_attemptCount t) + length calls < 2 ^ 16"
    and "(prev = None) = (tk_attemptCount t = 0)"
    and "\<forall>q. prev = Some q \<longrightarrow> tk_lastPriority t = prio_num q"
  shows "snd (tick_run calls t w) = tick_expected prev calls w"
  using assms
proof (induction calls arbitrary: t w prev)
  case Nil
  then show ?case by simp
next
  case (Cons call calls)
  obtain p cand attempt where call: "call = (p, cand, attempt)" by (cases call)
  have inv: "(case prev of None \<Rightarrow> False | Some q \<Rightarrow> prio_num q < prio_num p)
      = (tk_attemptCount t \<noteq> 0 \<and> tk_lastPriority t < prio_num p)"
    using Cons.prems by (cases prev) auto
  obtain oc w' where att: "attempt w = (oc, w')" by fastforce
  show ?case
  proof (cases "tk_attemptCount t \<noteq> 0 \<and> tk_lastPriority t < prio_num p")
    case True
    then show ?thesis using Cons.prems(1) inv call
      by (simp add: Tick_Try_def Let_def tick_resolved_sticky)
  next
    case False
    let ?t = "t\<lparr>tk_lastPriority := prio_num p, tk_attemptCount := tk_attemptCount t + 1,
        tk_candidate := cand, tk_outcome := oc,
        tk_resolved := (o_Result oc = DCommitted \<or> o_Result oc = DTerminal)\<rparr>"
    have inv_False: "\<not> (case prev of None \<Rightarrow> False | Some q \<Rightarrow> prio_num q < prio_num p)"
      using False inv by blast
    have tried: "Tick_Try p cand attempt t w = ((?t, w'), oc)"
      using False Cons.prems(1) att by (auto simp: Tick_Try_def)
    have cnt: "unat (tk_attemptCount ?t) = Suc (unat (tk_attemptCount t))"
      using Cons.prems(2) by (simp add: unat_word_ariths)
    then have nz: "tk_attemptCount ?t \<noteq> 0" by (metis nat.distinct(1) unat_0)
    show ?thesis
    proof (cases "o_Result oc = DCommitted \<or> o_Result oc = DTerminal")
      case True
      then show ?thesis using tried False inv call att by (auto simp: tick_resolved_sticky)
    next
      case nres: False
      have "snd (tick_run calls ?t w') = tick_expected (Some p) calls w'"
        by (rule Cons.IH) (use Cons.prems nres cnt nz in auto)
      then show ?thesis using tried inv_False call att nres by simp
    qed
  qed
qed

text \<open>
  over one \<^verbatim>\<open>Tick\<close> of fewer than 65536 calls the callbacks that run are exactly those of the
  longest prefix with non-rising priorities, cut after the first committed or terminal outcome:
  nothing runs after a decision, and nothing runs out of order.
\<close>

theorem Tick_runs_ordered_prefix:
  assumes "length calls < 2 ^ 16"
  shows "snd (tick_run calls Tick_init w) = tick_expected None calls w"
  by (rule tick_run_expected) (use assms in \<open>auto simp: Tick_init_def\<close>)

theorem Tick_runs_ordered_prefix_witness:
  "snd (tick_run
     [(PCombatMovement, ''a'', \<lambda>w. (Outcome_Retryable ''no'', w @ [1 :: nat])),
      (PIdle, ''b'', \<lambda>w. (Outcome_Committed ''ok'', w @ [2])),
      (PIdle, ''c'', \<lambda>w. (Outcome_Committed ''ok'', w @ [3]))] Tick_init []) = [1, 2]"
  by (subst Tick_runs_ordered_prefix, simp, code_simp)

end
