(* ===== verification/Movement_Arbiter.thy ===== *)
theory Movement_Arbiter
  imports Prelude
begin

text \<open>
  The movement lease of a bot (\<^verbatim>\<open>server/game/Bots/BotMovementArbiter.h\<close>) and the code that
  builds its requests and recognises a path that is already running
  (\<^verbatim>\<open>BotWorldPopulationMgrMovementLease.cpp\<close>, \<^verbatim>\<open>BotWorldPopulationMgrMovementEvidence.cpp\<close>).

  \<open>Evaluate\<close> and \<open>Apply\<close> are the C++ functions; \<open>lease_step\<close> is the part of
  \<^verbatim>\<open>BotWorldPopulationMgrMovementExecutor.cpp\<close> that consults them, for a request whose path
  the planner admits. Coordinates are rationals; the default tolerance is the value of the float
  literal \<^verbatim>\<open>0.1f\<close>. The facts that \<^verbatim>\<open>BuildMovementRequest\<close> and \<^verbatim>\<open>ObserveActiveMovement\<close>
  read from the bot, its target, the cohort and the motion master are arguments (\<open>bot_facts\<close>,
  \<open>motion_facts\<close>).
\<close>

section \<open>Owners, priorities, leases\<close>

datatype owner = ONone | ORoute | OFormation | OCombatRange | OSupport | OMechanic | OHazard | ORecovery

datatype move_priority = MIdle | MRoute | MFormation | MCombat | MSupport | MMechanic | MHazard | MRecovery

primrec move_num :: "move_priority \<Rightarrow> u8" where
  "move_num MIdle = 0"
| "move_num MRoute = 20"
| "move_num MFormation = 40"
| "move_num MCombat = 60"
| "move_num MSupport = 80"
| "move_num MMechanic = 100"
| "move_num MHazard = 120"
| "move_num MRecovery = 140"

lemma move_num_inj [simp]: "move_num a = move_num b \<longleftrightarrow> a = b"
  by (cases a; cases b) auto

instantiation move_priority :: linorder
begin

definition less_eq_move_priority :: "move_priority \<Rightarrow> move_priority \<Rightarrow> bool" where
  "less_eq_move_priority a b \<longleftrightarrow> move_num a \<le> move_num b"

definition less_move_priority :: "move_priority \<Rightarrow> move_priority \<Rightarrow> bool" where
  "less_move_priority a b \<longleftrightarrow> move_num a < move_num b"

instance
proof
  fix x y z :: move_priority
  show "(x < y) = (x \<le> y \<and> \<not> y \<le> x)"
    unfolding less_eq_move_priority_def less_move_priority_def by (rule less_le_not_le)
  show "x \<le> x" unfolding less_eq_move_priority_def by (rule order_refl)
  show "x \<le> y \<Longrightarrow> y \<le> z \<Longrightarrow> x \<le> z"
    unfolding less_eq_move_priority_def by (rule order_trans)
  show "x \<le> y \<Longrightarrow> y \<le> x \<Longrightarrow> x = y"
    using order_antisym unfolding less_eq_move_priority_def by (metis move_num_inj)
  show "x \<le> y \<or> y \<le> x"
    unfolding less_eq_move_priority_def by (rule linear)
qed

end

record scope =
  sc_AttemptId :: u64
  sc_WipeGeneration :: u32
  sc_RouteGeneration :: u64
  sc_MapId :: u32
  sc_InstanceId :: u32

definition Scope_default :: scope where
  "Scope_default = \<lparr>sc_AttemptId = 0, sc_WipeGeneration = 0, sc_RouteGeneration = 0,
     sc_MapId = u32_max, sc_InstanceId = 0\<rparr>"

record lease =
  ls_MovementOwner :: owner
  ls_MovementPriority :: move_priority
  ls_ExpiresAtMs :: u64
  ls_MovementScope :: scope
  ls_X :: float32
  ls_Y :: float32
  ls_Z :: float32
  ls_DynamicTargetGuid :: u64

record request =
  rq_MovementOwner :: owner
  rq_MovementPriority :: move_priority
  rq_ExpiresAtMs :: u64
  rq_MovementScope :: scope
  rq_X :: float32
  rq_Y :: float32
  rq_Z :: float32
  rq_DynamicTargetGuid :: u64

definition Lease_default :: lease where
  "Lease_default = \<lparr>ls_MovementOwner = ONone, ls_MovementPriority = MIdle, ls_ExpiresAtMs = 0,
     ls_MovementScope = Scope_default, ls_X = 0, ls_Y = 0, ls_Z = 0, ls_DynamicTargetGuid = 0\<rparr>"

record native_path_receipt =
  np_Active :: bool
  np_Path :: lease

datatype decision = Acquire | Refresh | Preempt | PreserveExisting | RejectInvalid

section \<open>Decisions\<close>

definition float_0_1 :: float32 where
  "float_0_1 = 13421773 / 134217728"

definition ValidScope :: "scope \<Rightarrow> bool" where
  "ValidScope s \<longleftrightarrow> sc_MapId s \<noteq> u32_max"

definition SameScope :: "scope \<Rightarrow> scope \<Rightarrow> bool" where
  "SameScope l r \<longleftrightarrow>
     sc_AttemptId l = sc_AttemptId r \<and> sc_WipeGeneration l = sc_WipeGeneration r
     \<and> sc_RouteGeneration l = sc_RouteGeneration r \<and> sc_MapId l = sc_MapId r
     \<and> sc_InstanceId l = sc_InstanceId r"

definition SameDestination :: "lease \<Rightarrow> request \<Rightarrow> float32 \<Rightarrow> bool" where
  "SameDestination lease req epsilon \<longleftrightarrow>
     (if ls_DynamicTargetGuid lease \<noteq> 0 \<or> rq_DynamicTargetGuid req \<noteq> 0
      then ls_DynamicTargetGuid lease \<noteq> 0 \<and> ls_DynamicTargetGuid lease = rq_DynamicTargetGuid req
      else \<bar>ls_X lease - rq_X req\<bar> \<le> epsilon \<and> \<bar>ls_Y lease - rq_Y req\<bar> \<le> epsilon
         \<and> \<bar>ls_Z lease - rq_Z req\<bar> \<le> epsilon)"

definition MatchesNativePath :: "native_path_receipt \<Rightarrow> request \<Rightarrow> float32 \<Rightarrow> bool" where
  "MatchesNativePath receipt req epsilon \<longleftrightarrow>
     np_Active receipt
     \<and> ls_MovementOwner (np_Path receipt) = rq_MovementOwner req
     \<and> SameScope (ls_MovementScope (np_Path receipt)) (rq_MovementScope req)
     \<and> SameDestination (np_Path receipt) req epsilon"

definition ValidRequest :: "request \<Rightarrow> u64 \<Rightarrow> bool" where
  "ValidRequest req now \<longleftrightarrow>
     rq_MovementOwner req \<noteq> ONone \<and> rq_MovementPriority req \<noteq> MIdle
     \<and> now < rq_ExpiresAtMs req \<and> ValidScope (rq_MovementScope req)"

definition Evaluate :: "lease \<Rightarrow> request \<Rightarrow> u64 \<Rightarrow> decision" where
  "Evaluate lease req now =
     (if \<not> ValidRequest req now then RejectInvalid
      else if ls_MovementOwner lease = ONone \<or> ls_ExpiresAtMs lease \<le> now
          \<or> \<not> SameScope (ls_MovementScope lease) (rq_MovementScope req) then Acquire
      else if ls_MovementOwner lease = rq_MovementOwner req \<and> SameDestination lease req float_0_1
        then Refresh
      else if ls_MovementOwner lease = rq_MovementOwner req
          \<and> ls_DynamicTargetGuid lease = 0 \<and> rq_DynamicTargetGuid req \<noteq> 0 then Preempt
      else if ls_MovementPriority lease < rq_MovementPriority req then Preempt
      else PreserveExisting)"

definition Lease_Apply :: "lease \<Rightarrow> request \<Rightarrow> lease" where
  "Lease_Apply lease req = lease\<lparr>ls_MovementOwner := rq_MovementOwner req,
     ls_MovementPriority := rq_MovementPriority req, ls_ExpiresAtMs := rq_ExpiresAtMs req,
     ls_MovementScope := rq_MovementScope req, ls_X := rq_X req, ls_Y := rq_Y req, ls_Z := rq_Z req,
     ls_DynamicTargetGuid := rq_DynamicTargetGuid req\<rparr>"

definition Lease_Clear :: "lease \<Rightarrow> lease" where
  "Lease_Clear lease = Lease_default"

text \<open>What the executor does with the lease for a request whose path is admitted.\<close>

definition lease_step :: "lease \<Rightarrow> request \<times> u64 \<Rightarrow> lease" where
  "lease_step lease rn =
     (case rn of (req, now) \<Rightarrow>
        if Evaluate lease req now = RejectInvalid \<or> Evaluate lease req now = PreserveExisting
        then lease else Lease_Apply lease req)"

section \<open>Requests and active paths\<close>

record bot_facts =
  bf_exists :: bool
  bf_mapId :: u32
  bf_instanceId :: u32
  bf_scopedRoute :: bool
  bf_attemptId :: u64
  bf_wipeGeneration :: u64
  bf_routeGeneration :: u64
  bf_routeNodeId :: string
  bf_targetAwareChase :: bool \<comment> \<open>the target lives, is in the world, on the bot's map\<close>
  bf_targetGuid :: u64

record move_intent =
  mi_Owner :: owner
  mi_Priority :: move_priority
  mi_X :: float32
  mi_Y :: float32
  mi_Z :: float32

definition BuildMovementRequest :: "bot_facts \<Rightarrow> move_intent \<Rightarrow> u64 \<Rightarrow> request" where
  "BuildMovementRequest bt intent now =
     \<lparr>rq_MovementOwner = mi_Owner intent, rq_MovementPriority = mi_Priority intent,
      rq_ExpiresAtMs = now + 1500,
      rq_MovementScope =
        \<lparr>sc_AttemptId = if bf_scopedRoute bt then bf_attemptId bt else 0,
         sc_WipeGeneration = if bf_scopedRoute bt then ucast (bf_wipeGeneration bt) else 0,
         sc_RouteGeneration = if bf_scopedRoute bt then bf_routeGeneration bt else 0,
         sc_MapId = if bf_exists bt then bf_mapId bt else u32_max,
         sc_InstanceId = if bf_exists bt then bf_instanceId bt else 0\<rparr>,
      rq_X = mi_X intent, rq_Y = mi_Y intent, rq_Z = mi_Z intent,
      rq_DynamicTargetGuid = if bf_exists bt \<and> bf_targetAwareChase bt then bf_targetGuid bt else 0\<rparr>"

record active_path =
  ap_Valid :: bool
  ap_ToX :: float32
  ap_ToY :: float32
  ap_ToZ :: float32
  ap_TargetGuid :: u64
  ap_AttemptId :: u64
  ap_WipeGeneration :: u32
  ap_RouteGeneration :: u64
  ap_RouteNodeId :: string

text \<open>The path fields that \<^verbatim>\<open>CommitMovementEvidence\<close> records, and the lease it applies.\<close>

definition CommitMovementEvidence ::
  "bot_facts \<Rightarrow> move_intent \<Rightarrow> bool \<Rightarrow> request \<Rightarrow> active_path \<times> lease \<Rightarrow> active_path \<times> lease" where
  "CommitMovementEvidence bt intent planDynamic req st =
     (case st of (ap, lease) \<Rightarrow>
       (ap\<lparr>ap_ToX := mi_X intent, ap_ToY := mi_Y intent, ap_ToZ := mi_Z intent, ap_Valid := True,
           ap_TargetGuid := (if planDynamic then bf_targetGuid bt else 0),
           ap_AttemptId := sc_AttemptId (rq_MovementScope req),
           ap_WipeGeneration := sc_WipeGeneration (rq_MovementScope req),
           ap_RouteGeneration := sc_RouteGeneration (rq_MovementScope req),
           ap_RouteNodeId := (if bf_scopedRoute bt then bf_routeNodeId bt else [])\<rparr>,
        Lease_Apply lease req))"

record motion_facts =
  mf_pointActive :: bool
  mf_chaseTarget :: u64 \<comment> \<open>target of an active chase generator, 0 if none\<close>

record observation =
  ob_ScopeMatches :: bool
  ob_NativePointPathActive :: bool
  ob_NativeTargetChaseActive :: bool
  ob_MatchingDestination :: bool

definition ObserveActiveMovement ::
  "active_path \<Rightarrow> bot_facts \<Rightarrow> motion_facts \<Rightarrow> move_intent \<Rightarrow> request \<Rightarrow> observation" where
  "ObserveActiveMovement ap bt mot intent req =
     (if \<not> bf_exists bt then \<lparr>ob_ScopeMatches = False, ob_NativePointPathActive = False,
         ob_NativeTargetChaseActive = False, ob_MatchingDestination = False\<rparr>
      else
        (let chase = rq_DynamicTargetGuid req \<noteq> 0;
             chasing = (chase \<and> mf_chaseTarget mot \<noteq> 0 \<and> mf_chaseTarget mot = bf_targetGuid bt)
         in \<lparr>ob_ScopeMatches = (\<not> bf_scopedRoute bt \<or>
               ap_AttemptId ap = sc_AttemptId (rq_MovementScope req)
               \<and> ap_WipeGeneration ap = sc_WipeGeneration (rq_MovementScope req)
               \<and> ap_RouteGeneration ap = sc_RouteGeneration (rq_MovementScope req)
               \<and> ap_RouteNodeId ap = bf_routeNodeId bt),
             ob_NativePointPathActive = mf_pointActive mot,
             ob_NativeTargetChaseActive = chasing,
             ob_MatchingDestination =
               (if chase then chasing \<and> ap_TargetGuid ap = bf_targetGuid bt
                else ap_TargetGuid ap = 0
                  \<and> \<bar>mi_X intent - ap_ToX ap\<bar> \<le> float_0_1
                  \<and> \<bar>mi_Y intent - ap_ToY ap\<bar> \<le> float_0_1
                  \<and> \<bar>mi_Z intent - ap_ToZ ap\<bar> \<le> float_0_1)\<rparr>))"

section \<open>Basic facts\<close>

lemma SameScope_iff: "SameScope l r \<longleftrightarrow> l = (r :: scope)"
  by (cases l; cases r) (auto simp: SameScope_def)

lemma Lease_Apply_sel [simp]:
  "ls_MovementOwner (Lease_Apply l r) = rq_MovementOwner r"
  "ls_MovementPriority (Lease_Apply l r) = rq_MovementPriority r"
  "ls_ExpiresAtMs (Lease_Apply l r) = rq_ExpiresAtMs r"
  "ls_MovementScope (Lease_Apply l r) = rq_MovementScope r"
  "ls_X (Lease_Apply l r) = rq_X r" "ls_Y (Lease_Apply l r) = rq_Y r" "ls_Z (Lease_Apply l r) = rq_Z r"
  "ls_DynamicTargetGuid (Lease_Apply l r) = rq_DynamicTargetGuid r"
  by (simp_all add: Lease_Apply_def)

text \<open>A lease that binds other requesters at a time and in a scope.\<close>

definition live :: "lease \<Rightarrow> scope \<Rightarrow> u64 \<Rightarrow> bool" where
  "live lease s now \<longleftrightarrow>
     ls_MovementOwner lease \<noteq> ONone \<and> now < ls_ExpiresAtMs lease \<and> ls_MovementScope lease = s"

lemma Evaluate_live:
  assumes "ValidRequest r now" and "live lease (rq_MovementScope r) now"
  shows "Evaluate lease r now =
     (if ls_MovementOwner lease = rq_MovementOwner r \<and>
         (SameDestination lease r float_0_1 \<or> ls_DynamicTargetGuid lease = 0 \<and> rq_DynamicTargetGuid r \<noteq> 0)
      then (if SameDestination lease r float_0_1 then Refresh else Preempt)
      else if ls_MovementPriority lease < rq_MovementPriority r then Preempt else PreserveExisting)"
proof -
  have "\<not> ls_ExpiresAtMs lease \<le> now" using assms(2) by (simp add: live_def not_le)
  then show ?thesis using assms by (auto simp: Evaluate_def live_def SameScope_iff)
qed

lemma Evaluate_free:
  assumes "ValidRequest r now" and "\<not> live lease (rq_MovementScope r) now"
  shows "Evaluate lease r now = Acquire"
  using assms by (auto simp: Evaluate_def live_def SameScope_iff)

section \<open>Properties\<close>

definition sample_request :: "owner \<Rightarrow> move_priority \<Rightarrow> request" where
  "sample_request w p = \<lparr>rq_MovementOwner = w, rq_MovementPriority = p, rq_ExpiresAtMs = 1500,
     rq_MovementScope = \<lparr>sc_AttemptId = 0, sc_WipeGeneration = 0, sc_RouteGeneration = 0,
       sc_MapId = 0, sc_InstanceId = 0\<rparr>, rq_X = 1, rq_Y = 2, rq_Z = 3, rq_DynamicTargetGuid = 0\<rparr>"

lemma max_Max_insert: "finite S \<Longrightarrow> max (Max (insert a S)) b = Max (insert a (insert b S))"
  by (subst insert_commute) (simp add: max.commute)

definition lease_run :: "lease \<Rightarrow> (request \<times> u64) list \<Rightarrow> lease" where
  "lease_run lease reqs = foldl lease_step lease reqs"

lemma lease_step_live:
  assumes "live lease s now" "ValidRequest r now" "rq_MovementScope r = s"
    and "ls_MovementOwner lease = rq_MovementOwner r \<longrightarrow> ls_MovementPriority lease = rq_MovementPriority r"
  shows "ls_MovementPriority (lease_step lease (r, now)) = max (ls_MovementPriority lease) (rq_MovementPriority r)"
    and "ls_MovementScope (lease_step lease (r, now)) = s"
    and "ls_MovementOwner (lease_step lease (r, now)) \<noteq> ONone"
  using assms Evaluate_live [of r now lease]
  by (auto simp: lease_step_def max_def live_def ValidRequest_def split: if_splits)

text \<open>
  contention. While the lease stays live, in one scope and with one priority per owner, any
  sequence of valid requests leaves the lease with an owner of the highest priority among the first
  holder and all requesters, whatever the order of the requests: no lower priority request ever
  takes the lane from a higher one, and the highest is never refused.
\<close>

theorem Lease_contention_max:
  assumes "live lease s t0"
    and "\<forall>(r, now) \<in> set reqs. ValidRequest r now \<and> rq_MovementScope r = s
          \<and> now < ls_ExpiresAtMs lease \<and> (\<forall>(r', now') \<in> set reqs. now < rq_ExpiresAtMs r')
          \<and> rq_MovementPriority r = prio (rq_MovementOwner r)"
    and "ls_MovementPriority lease = prio (ls_MovementOwner lease)"
  shows "ls_MovementPriority (lease_run lease reqs)
       = Max (insert (ls_MovementPriority lease) ((\<lambda>(r, now). rq_MovementPriority r) ` set reqs)) \<and>
     prio (ls_MovementOwner (lease_run lease reqs)) = ls_MovementPriority (lease_run lease reqs)"
proof -
  let ?E = "insert (ls_ExpiresAtMs lease) ((\<lambda>(r, now). rq_ExpiresAtMs r) ` set reqs)"
  have main: "set rs \<subseteq> set reqs \<Longrightarrow>
      ls_MovementPriority (lease_run lease rs)
        = Max (insert (ls_MovementPriority lease) ((\<lambda>(r, now). rq_MovementPriority r) ` set rs))
      \<and> prio (ls_MovementOwner (lease_run lease rs)) = ls_MovementPriority (lease_run lease rs)
      \<and> ls_MovementScope (lease_run lease rs) = s
      \<and> ls_MovementOwner (lease_run lease rs) \<noteq> ONone
      \<and> ls_ExpiresAtMs (lease_run lease rs) \<in> ?E" for rs
  proof (induction rs rule: rev_induct)
    case Nil
    then show ?case using assms by (simp add: lease_run_def live_def)
  next
    case (snoc x rs)
    obtain r now where x: "x = (r, now)" by fastforce
    let ?l = "lease_run lease rs"
    have r: "ValidRequest r now" "rq_MovementScope r = s" "rq_MovementPriority r = prio (rq_MovementOwner r)"
      "\<forall>e \<in> ?E. now < e"
      using snoc.prems assms(2) x by auto
    from snoc have IH: "ls_MovementPriority ?l
        = Max (insert (ls_MovementPriority lease) ((\<lambda>(r, now). rq_MovementPriority r) ` set rs))"
      "prio (ls_MovementOwner ?l) = ls_MovementPriority ?l" "ls_MovementScope ?l = s"
      "ls_MovementOwner ?l \<noteq> ONone" "ls_ExpiresAtMs ?l \<in> ?E"
      by auto
    then have "live ?l s now" using r(4) by (auto simp: live_def)
    moreover have "ls_MovementOwner ?l = rq_MovementOwner r \<longrightarrow> ls_MovementPriority ?l = rq_MovementPriority r"
      using IH(2) r(3) by metis
    ultimately have step: "ls_MovementPriority (lease_step ?l (r, now)) = max (ls_MovementPriority ?l) (rq_MovementPriority r)"
      "ls_MovementScope (lease_step ?l (r, now)) = s" "ls_MovementOwner (lease_step ?l (r, now)) \<noteq> ONone"
      using lease_step_live [of ?l s now r] r(1,2) by blast+
    have run: "lease_run lease (rs @ [x]) = lease_step ?l (r, now)" by (simp add: lease_run_def x)
    have "rq_ExpiresAtMs r \<in> ?E" using snoc.prems x by force
    then have exp: "ls_ExpiresAtMs (lease_step ?l (r, now)) \<in> ?E"
      using IH(5) by (simp add: lease_step_def)
    have own: "prio (ls_MovementOwner (lease_step ?l (r, now))) = ls_MovementPriority (lease_step ?l (r, now))"
      using IH(2) r(3) by (simp add: lease_step_def)
    have "ls_MovementPriority (lease_step ?l (r, now)) = max (ls_MovementPriority ?l) (rq_MovementPriority r)"
      by (rule step(1))
    also have "\<dots> = Max (insert (ls_MovementPriority lease) ((\<lambda>(r, now). rq_MovementPriority r) ` set (rs @ [x])))"
      using IH(1) x max_Max_insert [of "(\<lambda>(r, now). rq_MovementPriority r) ` set rs"] by simp
    finally show ?case unfolding run using step(2,3) own exp by blast
  qed
  then show ?thesis by blast
qed

theorem Lease_contention_max_witness:
  "ls_MovementPriority (lease_run
     \<lparr>ls_MovementOwner = ORoute, ls_MovementPriority = MRoute, ls_ExpiresAtMs = 1500,
      ls_MovementScope = \<lparr>sc_AttemptId = 0, sc_WipeGeneration = 0, sc_RouteGeneration = 0,
        sc_MapId = 0, sc_InstanceId = 0\<rparr>, ls_X = 0, ls_Y = 0, ls_Z = 0, ls_DynamicTargetGuid = 0\<rparr>
     [(sample_request OHazard MHazard, 100), (sample_request OSupport MSupport, 200)]) = MHazard"
proof -
  let ?l = "\<lparr>ls_MovementOwner = ORoute, ls_MovementPriority = MRoute, ls_ExpiresAtMs = 1500,
      ls_MovementScope = \<lparr>sc_AttemptId = 0, sc_WipeGeneration = 0, sc_RouteGeneration = 0,
        sc_MapId = 0, sc_InstanceId = 0\<rparr>, ls_X = 0, ls_Y = 0, ls_Z = 0, ls_DynamicTargetGuid = 0\<rparr>"
  let ?reqs = "[(sample_request OHazard MHazard, 100 :: u64), (sample_request OSupport MSupport, 200)]"
  let ?prio = "\<lambda>w. if w = OHazard then MHazard else if w = OSupport then MSupport else MRoute"
  have "live ?l (ls_MovementScope ?l) 0" by (simp add: live_def)
  moreover have "\<forall>(r, now) \<in> set ?reqs. ValidRequest r now \<and> rq_MovementScope r = ls_MovementScope ?l
          \<and> now < ls_ExpiresAtMs ?l \<and> (\<forall>(r', now') \<in> set ?reqs. now < rq_ExpiresAtMs r')
          \<and> rq_MovementPriority r = ?prio (rq_MovementOwner r)"
    by (simp add: sample_request_def ValidRequest_def ValidScope_def)
  ultimately show ?thesis
    using Lease_contention_max [of ?l "ls_MovementScope ?l" 0 ?reqs ?prio]
    by (simp add: sample_request_def less_eq_move_priority_def max_def)
qed

definition binds :: "request \<Rightarrow> request \<Rightarrow> bool" where
  "binds r r' \<longleftrightarrow> rq_MovementOwner r' = rq_MovementOwner r \<and>
     (if rq_DynamicTargetGuid r = 0 then rq_DynamicTargetGuid r' = 0
        \<and> \<bar>rq_X r - rq_X r'\<bar> \<le> float_0_1 \<and> \<bar>rq_Y r - rq_Y r'\<bar> \<le> float_0_1 \<and> \<bar>rq_Z r - rq_Z r'\<bar> \<le> float_0_1
      else rq_DynamicTargetGuid r' = rq_DynamicTargetGuid r)"

text \<open>
  C33: an admitted request holds the lane until it expires. In its scope the same owner is refreshed
  for the same destination (within 0.1 of a point, or anywhere for the same live target), a point
  lease is upgraded at once to a target of the same owner, and another owner is refused exactly when
  its priority is not higher. In any other scope, and from the expiry on, every valid request acquires.
\<close>

theorem Lease_holds_until_expiry:
  assumes "Evaluate lease r t0 \<in> {Acquire, Refresh, Preempt}" and "ValidRequest r' t"
  shows "let l = lease_step lease (r, t0); d = Evaluate l r' t in
    (if rq_ExpiresAtMs r \<le> t \<or> rq_MovementScope r' \<noteq> rq_MovementScope r then d = Acquire
     else if binds r r' then d = Refresh
     else if rq_MovementOwner r' = rq_MovementOwner r \<and> rq_DynamicTargetGuid r = 0
       \<and> rq_DynamicTargetGuid r' \<noteq> 0 then d = Preempt
     else (d = PreserveExisting) = (rq_MovementPriority r' \<le> rq_MovementPriority r))"
proof -
  let ?l = "Lease_Apply lease r"
  have step: "lease_step lease (r, t0) = ?l" using assms(1) by (auto simp: lease_step_def)
  have ok: "rq_MovementOwner r \<noteq> ONone" using assms(1)
    by (auto simp: Evaluate_def ValidRequest_def split: if_splits)
  have same: "SameDestination ?l r' float_0_1 \<and> rq_MovementOwner r' = rq_MovementOwner r \<longleftrightarrow> binds r r'"
    by (auto simp: SameDestination_def binds_def)
  show ?thesis
  proof (cases "rq_ExpiresAtMs r \<le> t \<or> rq_MovementScope r' \<noteq> rq_MovementScope r")
    case True
    then have "\<not> live ?l (rq_MovementScope r') t" by (auto simp: live_def)
    with True Evaluate_free [OF assms(2)] step show ?thesis by (simp add: Let_def)
  next
    case False
    then have "live ?l (rq_MovementScope r') t" using ok by (auto simp: live_def)
    note ev = Evaluate_live [OF assms(2) this]
    have "(d = PreserveExisting) = (rq_MovementPriority r' \<le> rq_MovementPriority r)"
      if "d = (if rq_MovementPriority r < rq_MovementPriority r' then Preempt else PreserveExisting)" for d
      using that by (auto simp: not_less)
    with False ev step same show ?thesis
      unfolding Let_def Lease_Apply_sel by (cases "binds r r'") (auto simp: binds_def)
  qed
qed

theorem Lease_holds_until_expiry_witness:
  "Evaluate (lease_step Lease_default (sample_request OHazard MHazard, 0)) (sample_request OHazard MHazard) 1499
     = Refresh"
proof -
  have "Evaluate Lease_default (sample_request OHazard MHazard) 0 \<in> {Acquire, Refresh, Preempt}"
    by (simp add: Evaluate_def sample_request_def ValidRequest_def ValidScope_def Lease_default_def)
  moreover have "ValidRequest (sample_request OHazard MHazard) 1499"
    by (simp add: sample_request_def ValidRequest_def ValidScope_def)
  ultimately show ?thesis
    using Lease_holds_until_expiry [of Lease_default "sample_request OHazard MHazard" 0
        "sample_request OHazard MHazard" 1499]
    by (simp add: Let_def binds_def sample_request_def float_0_1_def)
qed

text \<open>
  an admitted path outlives its lease: at any later time the observation recognises it exactly
  while the bot is in the same attempt, wipe generation and route node and, for a chase, while the
  native chase still follows the committed target, wherever that target has moved; for a point,
  while the intent stays within 0.1 of the committed one.
\<close>

theorem Active_path_recognised:
  assumes "bf_exists b" and "bf_exists b'" and "bf_scopedRoute b" and "bf_scopedRoute b'"
    and "rq = BuildMovementRequest b i now" and "rq' = BuildMovementRequest b' i' now'"
    and "(ap', lease') = CommitMovementEvidence b i (rq_DynamicTargetGuid rq \<noteq> 0) rq (ap, lease)"
  shows "ob_ScopeMatches (ObserveActiveMovement ap' b' mot i' rq') =
      (bf_attemptId b' = bf_attemptId b \<and> (ucast (bf_wipeGeneration b') :: u32) = ucast (bf_wipeGeneration b)
        \<and> bf_routeGeneration b' = bf_routeGeneration b \<and> bf_routeNodeId b' = bf_routeNodeId b) \<and>
    ob_MatchingDestination (ObserveActiveMovement ap' b' mot i' rq') =
      (if bf_targetAwareChase b' \<and> bf_targetGuid b' \<noteq> 0
       then bf_targetAwareChase b \<and> bf_targetGuid b = bf_targetGuid b' \<and> mf_chaseTarget mot = bf_targetGuid b'
       else \<not> (bf_targetAwareChase b \<and> bf_targetGuid b \<noteq> 0)
         \<and> \<bar>mi_X i' - mi_X i\<bar> \<le> float_0_1 \<and> \<bar>mi_Y i' - mi_Y i\<bar> \<le> float_0_1 \<and> \<bar>mi_Z i' - mi_Z i\<bar> \<le> float_0_1)"
proof -
  have "ap' = fst (CommitMovementEvidence b i (rq_DynamicTargetGuid rq \<noteq> 0) rq (ap, lease))"
    using assms(7) by (metis fst_conv)
  then show ?thesis
    using assms(1-4) unfolding assms(5,6)
    by (auto simp: ObserveActiveMovement_def Let_def CommitMovementEvidence_def BuildMovementRequest_def)
qed

definition sample_facts :: "u64 \<Rightarrow> bot_facts" where
  "sample_facts target = \<lparr>bf_exists = True, bf_mapId = 669, bf_instanceId = 4, bf_scopedRoute = True,
     bf_attemptId = 7, bf_wipeGeneration = 2, bf_routeGeneration = 3, bf_routeNodeId = ''magmaw'',
     bf_targetAwareChase = (target \<noteq> 0), bf_targetGuid = target\<rparr>"

theorem Active_path_recognised_witness:
  "ob_MatchingDestination (ObserveActiveMovement
     (fst (CommitMovementEvidence (sample_facts 55) \<lparr>mi_Owner = OCombatRange, mi_Priority = MCombat, mi_X = 1, mi_Y = 2, mi_Z = 3\<rparr>
        True (BuildMovementRequest (sample_facts 55) \<lparr>mi_Owner = OCombatRange, mi_Priority = MCombat, mi_X = 1, mi_Y = 2, mi_Z = 3\<rparr> 100)
        (\<lparr>ap_Valid = False, ap_ToX = 0, ap_ToY = 0, ap_ToZ = 0, ap_TargetGuid = 0, ap_AttemptId = 0,
          ap_WipeGeneration = 0, ap_RouteGeneration = 0, ap_RouteNodeId = []\<rparr>, Lease_default)))
     (sample_facts 55) \<lparr>mf_pointActive = False, mf_chaseTarget = 55\<rparr>
     \<lparr>mi_Owner = OCombatRange, mi_Priority = MCombat, mi_X = 40, mi_Y = 50, mi_Z = 60\<rparr>
     (BuildMovementRequest (sample_facts 55) \<lparr>mi_Owner = OCombatRange, mi_Priority = MCombat, mi_X = 40, mi_Y = 50, mi_Z = 60\<rparr> 5000))"
proof -
  let ?i = "\<lparr>mi_Owner = OCombatRange, mi_Priority = MCombat, mi_X = 1, mi_Y = 2, mi_Z = 3 :: rat\<rparr>"
  let ?ap = "\<lparr>ap_Valid = False, ap_ToX = 0, ap_ToY = 0, ap_ToZ = 0, ap_TargetGuid = 0, ap_AttemptId = 0,
          ap_WipeGeneration = 0, ap_RouteGeneration = 0, ap_RouteNodeId = []\<rparr>"
  have dyn: "(rq_DynamicTargetGuid (BuildMovementRequest (sample_facts 55) ?i 100) \<noteq> 0) = True"
    by (simp add: BuildMovementRequest_def sample_facts_def)
  have facts: "bf_exists (sample_facts 55)" "bf_scopedRoute (sample_facts 55)" by (simp_all add: sample_facts_def)
  obtain ap' lease' where c: "(ap', lease') = CommitMovementEvidence (sample_facts 55) ?i
      (rq_DynamicTargetGuid (BuildMovementRequest (sample_facts 55) ?i 100) \<noteq> 0)
      (BuildMovementRequest (sample_facts 55) ?i 100) (?ap, Lease_default)" by (metis surj_pair)
  note Active_path_recognised [OF facts(1) facts(1) facts(2) facts(2) refl refl c, of
      "\<lparr>mf_pointActive = False, mf_chaseTarget = 55\<rparr>"
      "\<lparr>mi_Owner = OCombatRange, mi_Priority = MCombat, mi_X = 40, mi_Y = 50, mi_Z = 60\<rparr>" 5000]
  moreover have "ap' = fst (CommitMovementEvidence (sample_facts 55) ?i True
      (BuildMovementRequest (sample_facts 55) ?i 100) (?ap, Lease_default))"
    using c unfolding dyn by (metis fst_conv)
  ultimately show ?thesis by (simp add: sample_facts_def)
qed

end
