(* ===== verification/Area_Authority.thy ===== *)
theory Area_Authority
  imports Prelude
begin

text \<open>
  The shared tables of targets a raid member may not attack
  (\<^verbatim>\<open>server/game/Bots/BotRaidAreaAuthority.h\<close>): suppressed owners, protected future
  encounters with their exceptions, and the restrictions of the current encounter with theirs.
  The process-wide tables are one record; each function takes the mutex for its whole body, so a
  call is one atomic step on the record. A hash map of hash sets is a partial map to sets, given
  by finite lists of elements where the code builds them.
\<close>

section \<open>State\<close>

record authority =
  au_SuppressedOwners :: "u64 set"
  au_AllOffenseSuppressedOwners :: "u64 set"
  au_ProtectedEntries :: "u64 \<rightharpoonup> u32 set"
  au_ProtectedSpawnIds :: "u64 \<rightharpoonup> u32 set"
  au_AllowedGuids :: "u64 \<rightharpoonup> u64 set"
  au_CurrentRestrictedEntries :: "u64 \<rightharpoonup> u32 set"
  au_CurrentAllowedGuids :: "u64 \<rightharpoonup> u64 set"

definition Authority_init :: authority where
  "Authority_init = \<lparr>au_SuppressedOwners = {}, au_AllOffenseSuppressedOwners = {},
     au_ProtectedEntries = Map.empty, au_ProtectedSpawnIds = Map.empty, au_AllowedGuids = Map.empty,
     au_CurrentRestrictedEntries = Map.empty, au_CurrentAllowedGuids = Map.empty\<rparr>"

abbreviation map_erase :: "'k \<Rightarrow> ('k \<rightharpoonup> 'v) \<Rightarrow> 'k \<rightharpoonup> 'v" where
  "map_erase k m \<equiv> m(k := None)"

section \<open>Updates\<close>

definition SetCurrentEncounterRestrictions :: "u64 \<Rightarrow> u32 list \<Rightarrow> u64 list \<Rightarrow> authority \<Rightarrow> authority" where
  "SetCurrentEncounterRestrictions owner entries allowed au =
     (if owner = 0 then au
      else if entries = [] then
        au\<lparr>au_CurrentRestrictedEntries := map_erase owner (au_CurrentRestrictedEntries au),
           au_CurrentAllowedGuids := map_erase owner (au_CurrentAllowedGuids au)\<rparr>
      else au\<lparr>au_CurrentRestrictedEntries := (au_CurrentRestrictedEntries au)(owner \<mapsto> set entries),
              au_CurrentAllowedGuids := (au_CurrentAllowedGuids au)(owner \<mapsto> set allowed - {0})\<rparr>)"

definition Authority_Set :: "u64 \<Rightarrow> bool \<Rightarrow> authority \<Rightarrow> authority" where
  "Authority_Set owner suppressed au =
     (if owner = 0 then au
      else if suppressed then au\<lparr>au_SuppressedOwners := insert owner (au_SuppressedOwners au)\<rparr>
      else au\<lparr>au_SuppressedOwners := au_SuppressedOwners au - {owner}\<rparr>)"

definition SetAllOffenseSuppressed :: "u64 \<Rightarrow> bool \<Rightarrow> authority \<Rightarrow> authority" where
  "SetAllOffenseSuppressed owner suppressed au =
     (if owner = 0 then au
      else if suppressed
        then au\<lparr>au_AllOffenseSuppressedOwners := insert owner (au_AllOffenseSuppressedOwners au)\<rparr>
      else au\<lparr>au_AllOffenseSuppressedOwners := au_AllOffenseSuppressedOwners au - {owner}\<rparr>)"

definition SetProtectedEncounterEntries :: "u64 \<Rightarrow> u32 list \<Rightarrow> authority \<Rightarrow> authority" where
  "SetProtectedEncounterEntries owner entries au =
     (if owner = 0 then au
      else if entries = [] then au\<lparr>au_ProtectedEntries := map_erase owner (au_ProtectedEntries au)\<rparr>
      else au\<lparr>au_ProtectedEntries := (au_ProtectedEntries au)(owner \<mapsto> set entries)\<rparr>)"

definition SetProtectedEncounterSpawnIds :: "u64 \<Rightarrow> u32 list \<Rightarrow> authority \<Rightarrow> authority" where
  "SetProtectedEncounterSpawnIds owner spawnIds au =
     (if owner = 0 then au
      else if spawnIds = [] then au\<lparr>au_ProtectedSpawnIds := map_erase owner (au_ProtectedSpawnIds au)\<rparr>
      else au\<lparr>au_ProtectedSpawnIds := (au_ProtectedSpawnIds au)(owner \<mapsto> set spawnIds)\<rparr>)"

definition SetAllowedEncounterGuids :: "u64 \<Rightarrow> u64 list \<Rightarrow> authority \<Rightarrow> authority" where
  "SetAllowedEncounterGuids owner guids au =
     (if owner = 0 then au
      else if guids = [] then au\<lparr>au_AllowedGuids := map_erase owner (au_AllowedGuids au)\<rparr>
      else au\<lparr>au_AllowedGuids := (au_AllowedGuids au)(owner \<mapsto> set guids)\<rparr>)"

definition Authority_Clear :: "u64 \<Rightarrow> authority \<Rightarrow> authority" where
  "Authority_Clear owner au =
     (if owner = 0 then au
      else au\<lparr>au_SuppressedOwners := au_SuppressedOwners au - {owner},
              au_AllOffenseSuppressedOwners := au_AllOffenseSuppressedOwners au - {owner},
              au_ProtectedEntries := map_erase owner (au_ProtectedEntries au),
              au_ProtectedSpawnIds := map_erase owner (au_ProtectedSpawnIds au),
              au_AllowedGuids := map_erase owner (au_AllowedGuids au),
              au_CurrentRestrictedEntries := map_erase owner (au_CurrentRestrictedEntries au),
              au_CurrentAllowedGuids := map_erase owner (au_CurrentAllowedGuids au)\<rparr>)"

section \<open>Queries\<close>

definition in_entry :: "('k \<rightharpoonup> 'e set) \<Rightarrow> 'k \<Rightarrow> 'e \<Rightarrow> bool" where
  "in_entry m k e \<longleftrightarrow> (case m k of None \<Rightarrow> False | Some s \<Rightarrow> e \<in> s)"

definition IsCurrentEncounterRestrictedEntry :: "u64 \<Rightarrow> u32 \<Rightarrow> authority \<Rightarrow> bool" where
  "IsCurrentEncounterRestrictedEntry owner entry au = in_entry (au_CurrentRestrictedEntries au) owner entry"

definition IsSuppressed :: "u64 \<Rightarrow> authority \<Rightarrow> bool" where
  "IsSuppressed owner au \<longleftrightarrow> owner \<in> au_SuppressedOwners au"

definition IsAllOffenseSuppressed :: "u64 \<Rightarrow> authority \<Rightarrow> bool" where
  "IsAllOffenseSuppressed owner au \<longleftrightarrow> owner \<in> au_AllOffenseSuppressedOwners au"

definition non_empty_at :: "('k \<rightharpoonup> 'e set) \<Rightarrow> 'k \<Rightarrow> bool" where
  "non_empty_at m k \<longleftrightarrow> (case m k of None \<Rightarrow> False | Some s \<Rightarrow> s \<noteq> {})"

definition HasProtectedEncounterEntries :: "u64 \<Rightarrow> authority \<Rightarrow> bool" where
  "HasProtectedEncounterEntries owner au \<longleftrightarrow>
     non_empty_at (au_CurrentRestrictedEntries au) owner
     \<or> non_empty_at (au_ProtectedEntries au) owner
     \<or> non_empty_at (au_ProtectedSpawnIds au) owner"

definition IsProtectedEncounterEntry :: "u64 \<Rightarrow> u32 \<Rightarrow> authority \<Rightarrow> bool" where
  "IsProtectedEncounterEntry owner entry au \<longleftrightarrow> entry \<noteq> 0 \<and> in_entry (au_ProtectedEntries au) owner entry"

definition IsProtectedEncounterTarget :: "u64 \<Rightarrow> u32 \<Rightarrow> u32 \<Rightarrow> u64 \<Rightarrow> authority \<Rightarrow> bool" where
  "IsProtectedEncounterTarget owner entry spawnId rawGuid au =
     (if owner = 0 then False
      else if \<not> in_entry (au_AllowedGuids au) owner rawGuid
          \<and> (in_entry (au_ProtectedEntries au) owner entry \<or> in_entry (au_ProtectedSpawnIds au) owner spawnId)
        then True
      else if \<not> in_entry (au_CurrentRestrictedEntries au) owner entry then False
      else \<not> in_entry (au_CurrentAllowedGuids au) owner rawGuid)"

lemma non_empty_at_iff: "non_empty_at m k \<longleftrightarrow> (\<exists>s e. m k = Some s \<and> e \<in> s)"
  by (auto simp: non_empty_at_def split: option.splits)

section \<open>Operations as steps\<close>

datatype area_op =
    OpRestrict u64 "u32 list" "u64 list"
  | OpSuppress u64 bool
  | OpSuppressAll u64 bool
  | OpProtectEntries u64 "u32 list"
  | OpProtectSpawns u64 "u32 list"
  | OpAllowGuids u64 "u64 list"
  | OpClear u64

primrec area_step :: "authority \<Rightarrow> area_op \<Rightarrow> authority" where
  "area_step au (OpRestrict w es gs) = SetCurrentEncounterRestrictions w es gs au"
| "area_step au (OpSuppress w b) = Authority_Set w b au"
| "area_step au (OpSuppressAll w b) = SetAllOffenseSuppressed w b au"
| "area_step au (OpProtectEntries w es) = SetProtectedEncounterEntries w es au"
| "area_step au (OpProtectSpawns w ss) = SetProtectedEncounterSpawnIds w ss au"
| "area_step au (OpAllowGuids w gs) = SetAllowedEncounterGuids w gs au"
| "area_step au (OpClear w) = Authority_Clear w au"

primrec op_owner :: "area_op \<Rightarrow> u64" where
  "op_owner (OpRestrict w es gs) = w"
| "op_owner (OpSuppress w b) = w"
| "op_owner (OpSuppressAll w b) = w"
| "op_owner (OpProtectEntries w es) = w"
| "op_owner (OpProtectSpawns w ss) = w"
| "op_owner (OpAllowGuids w gs) = w"
| "op_owner (OpClear w) = w"

text \<open>What the tables hold for one owner, which is all that a query for it reads.\<close>

definition view :: "u64 \<Rightarrow> authority \<Rightarrow> _" where
  "view w au = (w \<in> au_SuppressedOwners au, w \<in> au_AllOffenseSuppressedOwners au,
     au_ProtectedEntries au w, au_ProtectedSpawnIds au w, au_AllowedGuids au w,
     au_CurrentRestrictedEntries au w, au_CurrentAllowedGuids au w)"

lemmas area_op_defs = SetCurrentEncounterRestrictions_def Authority_Set_def SetAllOffenseSuppressed_def
  SetProtectedEncounterEntries_def SetProtectedEncounterSpawnIds_def SetAllowedEncounterGuids_def
  Authority_Clear_def

lemma view_step_other: "op_owner a \<noteq> w \<Longrightarrow> view w (area_step au a) = view w au"
  by (cases a) (auto simp: area_op_defs view_def)

lemma view_step_cong: "view w au = view w au' \<Longrightarrow> view w (area_step au a) = view w (area_step au' a)"
  by (cases a) (auto simp: area_op_defs view_def)

lemma view_Clear: "w \<noteq> 0 \<Longrightarrow> view w (Authority_Clear w au) = view w Authority_init"
  by (simp add: Authority_Clear_def view_def Authority_init_def)

lemma view_run_filter:
  "view w (foldl area_step au ops) = view w (foldl area_step au (filter (\<lambda>a. op_owner a = w) ops))"
proof (induction ops rule: rev_induct)
  case (snoc a ops)
  then show ?case
    by (cases "op_owner a = w") (auto simp: view_step_other intro: view_step_cong)
qed simp

text \<open>The invariant: nothing is stored for owner 0, the stored sets of entries are never empty, and
  an exception of the current encounter is never guid 0 and comes with a restriction.\<close>

definition area_inv :: "authority \<Rightarrow> bool" where
  "area_inv au \<longleftrightarrow> view 0 au = view 0 Authority_init
     \<and> {} \<notin> ran (au_ProtectedEntries au) \<and> {} \<notin> ran (au_ProtectedSpawnIds au)
     \<and> {} \<notin> ran (au_AllowedGuids au) \<and> {} \<notin> ran (au_CurrentRestrictedEntries au)
     \<and> (\<forall>s \<in> ran (au_CurrentAllowedGuids au). 0 \<notin> s)
     \<and> dom (au_CurrentAllowedGuids au) = dom (au_CurrentRestrictedEntries au)"

lemma ran_upd: "s \<in> ran (m(k := v)) \<Longrightarrow> Some s = v \<or> s \<in> ran m"
  by (auto simp: ran_def split: if_splits)

lemma view0_step: "view 0 (area_step au a) = view 0 au"
proof (cases "op_owner a = 0")
  case True
  then show ?thesis by (cases a) (auto simp: area_op_defs)
qed (simp add: view_step_other)

lemma area_inv_step: "area_inv au \<Longrightarrow> area_inv (area_step au a)"
  using view0_step [of au a] unfolding area_inv_def
  by (cases a) (auto simp: area_op_defs dest!: ran_upd split: if_splits)

interpretation area: op_machine Authority_init area_step area_inv
  by unfold_locales (simp add: area_inv_def Authority_init_def, rule area_inv_step)

section \<open>Properties\<close>

lemma queries_view:
  "IsSuppressed w au = fst (view w au)"
  "IsAllOffenseSuppressed w au = fst (snd (view w au))"
  by (simp_all add: IsSuppressed_def IsAllOffenseSuppressed_def view_def)

lemma view_eq_queries:
  assumes "view w au = view w au'"
  shows "IsSuppressed w au = IsSuppressed w au'"
    and "IsAllOffenseSuppressed w au = IsAllOffenseSuppressed w au'"
    and "IsProtectedEncounterTarget w e sp g au = IsProtectedEncounterTarget w e sp g au'"
    and "IsCurrentEncounterRestrictedEntry w e au = IsCurrentEncounterRestrictedEntry w e au'"
    and "HasProtectedEncounterEntries w au = HasProtectedEncounterEntries w au'"
    and "IsProtectedEncounterEntry w e au = IsProtectedEncounterEntry w e au'"
  using assms by (simp_all add: view_def IsSuppressed_def IsAllOffenseSuppressed_def
      IsProtectedEncounterTarget_def IsCurrentEncounterRestrictedEntry_def HasProtectedEncounterEntries_def
      IsProtectedEncounterEntry_def in_entry_def non_empty_at_def)

lemma view_run_cong: "view w au = view w au' \<Longrightarrow> view w (foldl area_step au ops) = view w (foldl area_step au' ops)"
proof (induction ops arbitrary: au au')
  case (Cons a ops)
  show ?case using Cons.IH [OF view_step_cong [OF Cons.prems]] by simp
qed simp

text \<open>
  owners do not interfere, and \<^verbatim>\<open>Clear\<close> forgets: the verdicts for an owner after any
  interleaving of calls are those of its own calls alone since a \<^verbatim>\<open>Clear\<close>; so with none since
  then it has no protected target and no suppression, whatever was called for the others.
\<close>

theorem Area_owner_isolation:
  assumes "w \<noteq> 0"
  shows "let au = foldl area_step Authority_init (pre @ OpClear w # ops);
      own = foldl area_step Authority_init (filter (\<lambda>a. op_owner a = w) ops) in
    IsProtectedEncounterTarget w e sp g au = IsProtectedEncounterTarget w e sp g own \<and>
    IsSuppressed w au = IsSuppressed w own \<and> IsAllOffenseSuppressed w au = IsAllOffenseSuppressed w own \<and>
    HasProtectedEncounterEntries w au = HasProtectedEncounterEntries w own \<and>
    (filter (\<lambda>a. op_owner a = w) ops = [] \<longrightarrow> \<not> IsProtectedEncounterTarget w e sp g au
       \<and> \<not> IsSuppressed w au \<and> \<not> IsAllOffenseSuppressed w au)"
proof -
  let ?au = "foldl area_step Authority_init (pre @ OpClear w # ops)"
  let ?own = "foldl area_step Authority_init (filter (\<lambda>a. op_owner a = w) ops)"
  have "view w ?au = view w (foldl area_step Authority_init ops)"
    by (simp add: view_run_cong [OF view_Clear [OF assms]])
  also have "\<dots> = view w ?own" by (rule view_run_filter)
  finally have "view w ?au = view w ?own" .
  from view_eq_queries [OF this] show ?thesis
    unfolding Let_def
    by (auto simp: Authority_init_def IsProtectedEncounterTarget_def in_entry_def IsSuppressed_def
        IsAllOffenseSuppressed_def)
qed

theorem Area_owner_isolation_witness:
  "\<not> IsProtectedEncounterTarget 5 41570 0 9 (foldl area_step Authority_init
     ([OpProtectEntries 5 [41570]] @ OpClear 5 # [OpProtectEntries 6 [41570]]))"
proof -
  let ?pre = "[OpProtectEntries 5 [41570]]" and ?ops = "[OpProtectEntries 6 [41570]]"
  have "(5 :: u64) \<noteq> 0" and "filter (\<lambda>a. op_owner a = 5) ?ops = []" by simp_all
  with Area_owner_isolation [where w = 5 and pre = ?pre and ops = ?ops and e = 41570 and sp = 0 and g = 9]
  show ?thesis unfolding Let_def by blast
qed

text \<open>
  the two layers of protection are independent. For a valid owner a target is protected after
  \<^verbatim>\<open>SetCurrentEncounterRestrictions\<close> exactly if the future-route layer protects it or its entry is
  restricted and its guid is not among the non-zero exceptions; so an exception of the current
  encounter never lifts future protection, and an exception from future protection never lifts a
  restriction of the current encounter.
\<close>

theorem Area_layers_independent:
  assumes "w \<noteq> 0"
  shows "IsProtectedEncounterTarget w e sp g (SetCurrentEncounterRestrictions w es gs au) =
      (IsProtectedEncounterTarget w e sp g (SetCurrentEncounterRestrictions w [] [] au)
        \<or> (e \<in> set es \<and> (g = 0 \<or> g \<notin> set gs))) \<and>
    IsProtectedEncounterTarget w e sp g
        (SetCurrentEncounterRestrictions w es gs (SetAllowedEncounterGuids w (g # gs') au)) =
      (e \<in> set es \<and> (g = 0 \<or> g \<notin> set gs))"
  using assms by (auto simp: area_op_defs IsProtectedEncounterTarget_def in_entry_def split: option.splits)

theorem Area_layers_independent_witness:
  "IsProtectedEncounterTarget 5 41570 0 9 (SetCurrentEncounterRestrictions 5 [41570] [9]
     (SetProtectedEncounterEntries 5 [41570] Authority_init))"
proof -
  have "(5 :: u64) \<noteq> 0" by simp
  then have "IsProtectedEncounterTarget 5 41570 0 9 (SetCurrentEncounterRestrictions 5 [] []
      (SetProtectedEncounterEntries 5 [41570] Authority_init))"
    by (simp add: area_op_defs IsProtectedEncounterTarget_def in_entry_def Authority_init_def)
  then show ?thesis
    using Area_layers_independent [where w = 5 and e = 41570 and sp = 0 and g = 9 and es = "[41570]" and gs = "[9]"
        and au = "SetProtectedEncounterEntries 5 [41570] Authority_init"] by simp
qed

text \<open>
  \<^verbatim>\<open>HasProtectedEncounterEntries\<close> is a sound pre-check in every reachable state: without it no
  target of the owner is protected, and with it some target is, as long as the owner has no
  exception from future protection.
\<close>

theorem Area_Has_sound:
  assumes "w \<noteq> 0" and "au = foldl area_step Authority_init ops"
  shows "(IsProtectedEncounterTarget w e sp g au \<longrightarrow> HasProtectedEncounterEntries w au) \<and>
    (au_AllowedGuids au w = None \<longrightarrow>
       HasProtectedEncounterEntries w au = (\<exists>e sp g. IsProtectedEncounterTarget w e sp g au))"
proof -
  have inv: "area_inv au" unfolding assms(2) by (rule area.run_inv)
  have one: "IsProtectedEncounterTarget w e sp g au \<Longrightarrow> HasProtectedEncounterEntries w au" for e sp g
    by (auto simp: IsProtectedEncounterTarget_def HasProtectedEncounterEntries_def in_entry_def
        non_empty_at_def split: option.splits if_splits)
  have "\<exists>e sp g. IsProtectedEncounterTarget w e sp g au"
    if has: "HasProtectedEncounterEntries w au" and none: "au_AllowedGuids au w = None"
  proof -
    have out: "\<not> in_entry (au_AllowedGuids au) w 0" by (simp add: in_entry_def none)
    consider (cur) s e where "au_CurrentRestrictedEntries au w = Some s" "e \<in> s"
      | (ent) s e where "au_ProtectedEntries au w = Some s" "e \<in> s"
      | (spawn) s sp where "au_ProtectedSpawnIds au w = Some s" "sp \<in> s"
      using has unfolding HasProtectedEncounterEntries_def non_empty_at_iff by blast
    then show ?thesis
    proof cases
      case cur
      have "\<not> in_entry (au_CurrentAllowedGuids au) w 0"
        using inv by (auto simp: area_inv_def in_entry_def ran_def split: option.splits)
      then have "IsProtectedEncounterTarget w e 0 0 au"
        using cur assms(1) by (auto simp: IsProtectedEncounterTarget_def in_entry_def split: option.splits)
      then show ?thesis by blast
    next
      case ent
      then have "IsProtectedEncounterTarget w e 0 0 au"
        using assms(1) out by (simp add: IsProtectedEncounterTarget_def in_entry_def)
      then show ?thesis by blast
    next
      case spawn
      then have "IsProtectedEncounterTarget w 0 sp 0 au"
        using assms(1) out by (simp add: IsProtectedEncounterTarget_def in_entry_def)
      then show ?thesis by blast
    qed
  qed
  with one show ?thesis by blast
qed

theorem Area_Has_sound_witness:
  "HasProtectedEncounterEntries 5 (foldl area_step Authority_init [OpProtectSpawns 5 [17]])"
proof -
  have "(5 :: u64) \<noteq> 0" by simp
  from Area_Has_sound [OF this refl, of 0 17 0 "[OpProtectSpawns 5 [17]]"] show ?thesis
    by (simp add: area_op_defs IsProtectedEncounterTarget_def in_entry_def Authority_init_def)
qed

end
