(* ===== verification/Lockout_Registry.thy ===== *)
theory Lockout_Registry
  imports Prelude
begin

text \<open>
  Seeded raid lockouts (\<^verbatim>\<open>server/game/Bots/BotRaidLockoutRegistry.cpp\<close>), with the parts of
  \<^verbatim>\<open>InstanceSaveMgr.cpp\<close> and \<^verbatim>\<open>Group.cpp\<close> they drive and the admission gates of
  \<^verbatim>\<open>BotRaidLockoutCohortContext.cpp\<close>. The world is one record: the registry
  (\<^verbatim>\<open>std::map\<close> by cohort id), the groups by low guid, the loaded instance saves by
  instance id (a save pointer is its instance id), the rows of \<^verbatim>\<open>group_instance\<close> and the writes to
  that table that are still queued for the database worker: none of the functions here queues one,
  but group code outside the model may have (\<^verbatim>\<open>BindToInstance\<close> without \<^verbatim>\<open>load\<close>).
  The map store and \<^verbatim>\<open>GetDownscaledMapDifficultyData\<close> read client data files and are
  parameters (\<open>env\<close>). Left out: reset times and logging, and the fields of a record that none of
  these functions reads.
\<close>

section \<open>Records and the world\<close>

record lockout_record =
  lk_CohortId :: string
  lk_Raid :: string
  lk_MapId :: u32
  lk_InstanceId :: u32
  lk_Difficulty :: u8
  lk_BossesDone :: "string list"
  lk_CompletedEncounterMask :: u32
  lk_ArmedLeaderGuid :: u32
  lk_BoundGroupGuid :: u32

type_synonym registry = "(string, lockout_record) omap"

record instance_save =
  sv_MapId :: u32
  sv_Difficulty :: u8
  sv_CanReset :: bool
  sv_Groups :: "u32 list"
  sv_HasPlayers :: bool \<comment> \<open>bound players, or players inside the map\<close>

record group_bind =
  gb_Save :: u32
  gb_Perm :: bool

record seed_group =
  gr_DbStoreId :: u32
  gr_RaidDifficulty :: u8
  gr_BattleGroup :: bool \<comment> \<open>\<^verbatim>\<open>isBGGroup() || isBFGroup()\<close>\<close>
  gr_Bound :: "u8 \<times> u32 \<rightharpoonup> group_bind"

text \<open>A statement on \<^verbatim>\<open>group_instance\<close> for the row of a group's storage id and an instance.\<close>

datatype row_write = ReplaceRow "u32 \<times> u32" | DeleteRow "u32 \<times> u32"

record world =
  w_Records :: registry
  w_Groups :: "u32 \<rightharpoonup> seed_group"
  w_Saves :: "u32 \<rightharpoonup> instance_save"
  w_GroupRows :: "(u32 \<times> u32) set"
  w_Queued :: "row_write list" \<comment> \<open>queued by \<^verbatim>\<open>CharacterDatabase.Execute\<close>, oldest first\<close>

record env =
  env_IsRaid :: "u32 \<rightharpoonup> bool" \<comment> \<open>\<^verbatim>\<open>sMapStore\<close>: the maps that exist\<close>
  env_Downscale :: "u32 \<Rightarrow> u8 \<Rightarrow> u8"

section \<open>The registry\<close>

definition Registry_Find :: "string \<Rightarrow> registry \<Rightarrow> lockout_record option" where
  "Registry_Find cohortId m = om_get m cohortId"

definition Registry_Insert :: "lockout_record \<Rightarrow> registry \<Rightarrow> registry \<times> bool" where
  "Registry_Insert r m =
     (if om_get m (lk_CohortId r) = None then (om_put (lk_CohortId r) r m, True) else (m, False))"

definition Registry_Erase :: "string \<Rightarrow> registry \<Rightarrow> registry" where
  "Registry_Erase cohortId m = om_erase cohortId m"

fun other_armed :: "string \<Rightarrow> u32 \<Rightarrow> registry \<Rightarrow> bool" where
  "other_armed cohortId leader [] = False"
| "other_armed cohortId leader ((cid, r) # m) =
     (if cid \<noteq> cohortId \<and> lk_ArmedLeaderGuid r = leader then True else other_armed cohortId leader m)"

definition Registry_Arm :: "string \<Rightarrow> u32 \<Rightarrow> registry \<Rightarrow> registry \<times> bool" where
  "Registry_Arm cohortId leader m =
     (case om_get m cohortId of
        None \<Rightarrow> (m, False)
      | Some r \<Rightarrow>
          if leader = 0 then (m, False)
          else if other_armed cohortId leader m then (m, False)
          else (om_put cohortId (r\<lparr>lk_ArmedLeaderGuid := leader, lk_BoundGroupGuid := 0\<rparr>) m, True))"

definition Registry_Disarm :: "string \<Rightarrow> registry \<Rightarrow> registry" where
  "Registry_Disarm cohortId m =
     (case om_get m cohortId of
        None \<Rightarrow> m
      | Some r \<Rightarrow> om_put cohortId (r\<lparr>lk_ArmedLeaderGuid := 0\<rparr>) m)"

definition Registry_SetBoundGroup :: "string \<Rightarrow> u32 \<Rightarrow> registry \<Rightarrow> registry" where
  "Registry_SetBoundGroup cohortId groupGuid m =
     (case om_get m cohortId of
        None \<Rightarrow> m
      | Some r \<Rightarrow> om_put cohortId (r\<lparr>lk_BoundGroupGuid := groupGuid\<rparr>) m)"

fun Registry_HasInstance :: "u32 \<Rightarrow> registry \<Rightarrow> bool" where
  "Registry_HasInstance inst [] = False"
| "Registry_HasInstance inst ((cid, r) # m) =
     (if lk_InstanceId r = inst then True else Registry_HasInstance inst m)"

fun FindArmed :: "u32 \<Rightarrow> registry \<Rightarrow> lockout_record option" where
  "FindArmed leader [] = None"
| "FindArmed leader ((cid, r) # m) =
     (if lk_ArmedLeaderGuid r = leader then Some r else FindArmed leader m)"

section \<open>Instance saves and group binds\<close>

definition AddInstanceSave :: "env \<Rightarrow> u32 \<Rightarrow> u32 \<Rightarrow> u8 \<Rightarrow> bool \<Rightarrow> world \<Rightarrow> world \<times> instance_save option" where
  "AddInstanceSave ev mapId inst difficulty canReset w =
     (case w_Saves w inst of
        Some old \<Rightarrow> (w, Some old)
      | None \<Rightarrow>
          (case env_IsRaid ev mapId of
             None \<Rightarrow> (w, None)
           | Some raid \<Rightarrow>
               if inst = 0 then (w, None)
               else if (if raid then 4 else 3) \<le> difficulty then (w, None)
               else (let s = \<lparr>sv_MapId = mapId, sv_Difficulty = difficulty, sv_CanReset = canReset,
                            sv_Groups = [], sv_HasPlayers = False\<rparr>
                     in (w\<lparr>w_Saves := (w_Saves w)(inst \<mapsto> s)\<rparr>, Some s))))"

definition Save_AddGroup :: "u32 \<Rightarrow> u32 \<Rightarrow> world \<Rightarrow> world" where
  "Save_AddGroup inst g w =
     (case w_Saves w inst of
        None \<Rightarrow> w
      | Some s \<Rightarrow> w\<lparr>w_Saves := (w_Saves w)(inst \<mapsto> s\<lparr>sv_Groups := sv_Groups s @ [g]\<rparr>)\<rparr>)"

definition Save_RemoveGroup :: "u32 \<Rightarrow> u32 \<Rightarrow> world \<Rightarrow> world" where
  "Save_RemoveGroup inst g w =
     (case w_Saves w inst of
        None \<Rightarrow> w
      | Some s \<Rightarrow>
          (let s' = s\<lparr>sv_Groups := filter (\<lambda>x. x \<noteq> g) (sv_Groups s)\<rparr>
           in if sv_Groups s' = [] \<and> \<not> sv_HasPlayers s'
              then w\<lparr>w_Saves := (w_Saves w)(inst := None)\<rparr>
              else w\<lparr>w_Saves := (w_Saves w)(inst \<mapsto> s')\<rparr>))"

definition Group_GetBoundInstance :: "env \<Rightarrow> seed_group \<Rightarrow> u8 \<Rightarrow> u32 \<Rightarrow> group_bind option" where
  "Group_GetBoundInstance ev gr difficulty mapId = gr_Bound gr (env_Downscale ev mapId difficulty, mapId)"

text \<open>\<^verbatim>\<open>BindToInstance(save, permanent, true)\<close>: with \<^verbatim>\<open>load\<close> set no row is written.\<close>

definition Group_BindToInstance :: "u32 \<Rightarrow> u32 \<Rightarrow> instance_save \<Rightarrow> bool \<Rightarrow> world \<Rightarrow> world" where
  "Group_BindToInstance g inst s permanent w =
     (case w_Groups w g of
        None \<Rightarrow> w
      | Some gr \<Rightarrow>
          if gr_BattleGroup gr then w
          else
            (let key = (sv_Difficulty s, sv_MapId s);
                 w1 = (case gr_Bound gr key of
                         None \<Rightarrow> Save_AddGroup inst g w
                       | Some b \<Rightarrow> if gb_Save b = inst then w
                                   else Save_AddGroup inst g (Save_RemoveGroup (gb_Save b) g w))
             in w1\<lparr>w_Groups := (w_Groups w1)
                  (g \<mapsto> gr\<lparr>gr_Bound := (gr_Bound gr)(key \<mapsto> \<lparr>gb_Save = inst, gb_Perm = permanent\<rparr>)\<rparr>)\<rparr>))"

text \<open>\<^verbatim>\<open>UnbindInstance(map, difficulty, true)\<close>: with \<^verbatim>\<open>unload\<close> set no row is deleted.\<close>

definition Group_UnbindInstance :: "u32 \<Rightarrow> u32 \<Rightarrow> u8 \<Rightarrow> world \<Rightarrow> world" where
  "Group_UnbindInstance g mapId difficulty w =
     (case w_Groups w g of
        None \<Rightarrow> w
      | Some gr \<Rightarrow>
          (case gr_Bound gr (difficulty, mapId) of
             None \<Rightarrow> w
           | Some b \<Rightarrow>
               (let w1 = Save_RemoveGroup (gb_Save b) g w
                in w1\<lparr>w_Groups := (w_Groups w1)
                     (g \<mapsto> gr\<lparr>gr_Bound := (gr_Bound gr)((difficulty, mapId) := None)\<rparr>)\<rparr>)))"

section \<open>Binding and releasing the seed group\<close>

definition set_bound :: "string \<Rightarrow> u32 \<Rightarrow> world \<Rightarrow> world" where
  "set_bound cohortId g w = w\<lparr>w_Records := Registry_SetBoundGroup cohortId g (w_Records w)\<rparr>"

definition ReleaseBoundGroup :: "env \<Rightarrow> lockout_record \<Rightarrow> world \<Rightarrow> world" where
  "ReleaseBoundGroup ev r w =
     (if lk_BoundGroupGuid r = 0 then w
      else
        (let g = lk_BoundGroupGuid r;
             w1 = (case w_Groups w g of
                     None \<Rightarrow> w
                   | Some gr \<Rightarrow>
                       (case Group_GetBoundInstance ev gr (lk_Difficulty r) (lk_MapId r) of
                          None \<Rightarrow> w
                        | Some b \<Rightarrow>
                            if gb_Save b = lk_InstanceId r
                            then (let w2 = Group_UnbindInstance g (lk_MapId r) (lk_Difficulty r) w
                                  in w2\<lparr>w_GroupRows := w_GroupRows w2 - {(gr_DbStoreId gr, lk_InstanceId r)}\<rparr>)
                            else w))
         in set_bound (lk_CohortId r) 0 w1))"

definition BindArmedSeedGroup :: "env \<Rightarrow> u32 \<Rightarrow> u32 \<Rightarrow> u32 \<Rightarrow> world \<Rightarrow> world" where
  "BindArmedSeedGroup ev leader seed placementMapId w =
     (case w_Groups w seed of
        None \<Rightarrow> w
      | Some gr \<Rightarrow>
          if leader = 0 then w
          else
            (case FindArmed leader (w_Records w) of
               None \<Rightarrow> w
             | Some r \<Rightarrow>
                 (case (case w_Saves w (lk_InstanceId r) of
                          Some s \<Rightarrow> (w, Some s)
                        | None \<Rightarrow> AddInstanceSave ev (lk_MapId r) (lk_InstanceId r) (lk_Difficulty r) False w) of
                    (w1, None) \<Rightarrow> w1
                  | (w1, Some s) \<Rightarrow>
                      if sv_MapId s \<noteq> placementMapId \<or> sv_MapId s \<noteq> lk_MapId r
                          \<or> sv_Difficulty s \<noteq> lk_Difficulty r \<or> gr_RaidDifficulty gr \<noteq> lk_Difficulty r
                      then w1
                      else set_bound (lk_CohortId r) seed
                             (Group_BindToInstance seed (lk_InstanceId r) s True w1))))"

definition ReleaseArmedSeedGroup :: "env \<Rightarrow> u32 \<Rightarrow> world \<Rightarrow> world" where
  "ReleaseArmedSeedGroup ev leader w =
     (if leader = 0 then w
      else (case FindArmed leader (w_Records w) of None \<Rightarrow> w | Some r \<Rightarrow> ReleaseBoundGroup ev r w))"

definition ReleaseSeedGroupBind :: "env \<Rightarrow> string \<Rightarrow> world \<Rightarrow> world" where
  "ReleaseSeedGroupBind ev cohortId w =
     (case Registry_Find cohortId (w_Records w) of None \<Rightarrow> w | Some r \<Rightarrow> ReleaseBoundGroup ev r w)"

section \<open>Admission\<close>

record runtime =
  rt_Attached :: bool
  rt_Admitted :: bool
  rt_InstanceId :: u32
  rt_BoundGroupGuid :: u32
  rt_AdmissionFailure :: string

record readback =
  rb_Failure :: string
  rb_LockoutIntact :: bool
  rb_ExtraDone :: "string list"
  rb_MapPlayers :: u32
  rb_SaveGroupBinds :: u32
  rb_LiveScript :: bool \<comment> \<open>\<^verbatim>\<open>Source == "live_instance_script"\<close>\<close>

definition arm_failure ::
  "string \<Rightarrow> bool \<Rightarrow> u8 \<Rightarrow> u32 \<Rightarrow> u32 \<Rightarrow> lockout_record \<Rightarrow> readback \<Rightarrow> bool \<Rightarrow> registry \<Rightarrow> registry \<times> string" where
  "arm_failure cohortId play raidDifficulty routeMapId leader r rb saveLoaded m =
     (if play then (m, ''seeded_lockout_play_unsupported'')
      else if lk_MapId r \<noteq> routeMapId then (m, ''seeded_lockout_map_mismatch'')
      else if lk_Difficulty r \<noteq> raidDifficulty then (m, ''seeded_lockout_difficulty_mismatch'')
      else if leader = 0 then (m, ''seeded_lockout_leader_missing'')
      else if rb_Failure rb \<noteq> [] then (m, ''seeded_lockout_readback:'' @ rb_Failure rb)
      else if \<not> rb_LockoutIntact rb then
        (m, ''seeded_lockout_progressed:'' @ (if rb_ExtraDone rb = [] then ''state'' else hd (rb_ExtraDone rb)))
      else if rb_MapPlayers rb \<noteq> 0 then (m, ''seeded_lockout_map_occupied'')
      else if rb_SaveGroupBinds rb \<noteq> 0 then (m, ''seeded_lockout_group_already_bound'')
      else if \<not> saveLoaded then (m, ''seeded_lockout_save_unavailable'')
      else (case Registry_Arm cohortId leader m of
              (m', ok) \<Rightarrow> (m', if ok then [] else ''seeded_lockout_arm_failed'')))"

definition ArmAdmission ::
  "string \<Rightarrow> bool \<Rightarrow> u8 \<Rightarrow> u32 \<Rightarrow> u32 \<Rightarrow> readback \<Rightarrow> bool \<Rightarrow> registry \<Rightarrow> (registry \<times> runtime) \<times> string" where
  "ArmAdmission cohortId play raidDifficulty routeMapId leader rb saveLoaded m =
     (let rt0 = \<lparr>rt_Attached = False, rt_Admitted = False, rt_InstanceId = 0, rt_BoundGroupGuid = 0,
                rt_AdmissionFailure = []\<rparr>
      in case Registry_Find cohortId m of
           None \<Rightarrow> ((m, rt0), [])
         | Some r \<Rightarrow>
             (case arm_failure cohortId play raidDifficulty routeMapId leader r rb saveLoaded m of
                (m', failure) \<Rightarrow>
                  ((m', rt0\<lparr>rt_Attached := True, rt_InstanceId := lk_InstanceId r,
                            rt_AdmissionFailure := failure\<rparr>), failure)))"

record bot_place =
  bp_Loaded :: bool
  bp_MapId :: u32
  bp_InstanceId :: u32
  bp_Group :: "u32 option"
  bp_Guid :: string \<comment> \<open>the printed counter\<close>

fun verify_bots :: "env \<Rightarrow> world \<Rightarrow> lockout_record \<Rightarrow> bot_place list \<Rightarrow> string option" where
  "verify_bots ev w r [] = None"
| "verify_bots ev w r (b # bs) =
     (if \<not> bp_Loaded b \<or> bp_MapId b \<noteq> lk_MapId r \<or> bp_InstanceId b \<noteq> lk_InstanceId r
      then Some (''seeded_lockout_instance_mismatch:'' @ bp_Guid b)
      else (case bp_Group b of
              None \<Rightarrow> Some (''seeded_lockout_group_mismatch:'' @ bp_Guid b)
            | Some g \<Rightarrow>
                if g \<noteq> lk_BoundGroupGuid r then Some (''seeded_lockout_group_mismatch:'' @ bp_Guid b)
                else (case w_Groups w g of
                        None \<Rightarrow> Some (''seeded_lockout_group_mismatch:'' @ bp_Guid b)
                      | Some gr \<Rightarrow>
                          (case Group_GetBoundInstance ev gr (lk_Difficulty r) (lk_MapId r) of
                             None \<Rightarrow> Some ''seeded_lockout_group_bind_mismatch''
                           | Some bind \<Rightarrow>
                               if \<not> gb_Perm bind \<or> gb_Save bind \<noteq> lk_InstanceId r
                               then Some ''seeded_lockout_group_bind_mismatch''
                               else verify_bots ev w r bs))))"

definition VerifyAdmission ::
  "env \<Rightarrow> string \<Rightarrow> bot_place list \<Rightarrow> readback \<Rightarrow> world \<times> runtime \<Rightarrow> (world \<times> runtime) \<times> string" where
  "VerifyAdmission ev cohortId bots rb st =
     (case st of (w, rt) \<Rightarrow>
        (let fail = (\<lambda>reason. ((w, rt\<lparr>rt_AdmissionFailure := reason\<rparr>), reason)) in
         if \<not> rt_Attached rt then (st, [])
         else (case Registry_Find cohortId (w_Records w) of
                 None \<Rightarrow> fail ''seeded_lockout_missing_at_admission''
               | Some r \<Rightarrow>
                   if lk_InstanceId r \<noteq> rt_InstanceId rt then fail ''seeded_lockout_missing_at_admission''
                   else if lk_BoundGroupGuid r = 0 then fail ''seeded_lockout_group_not_bound''
                   else (case verify_bots ev w r bots of
                           Some reason \<Rightarrow> fail reason
                         | None \<Rightarrow>
                             if \<not> rb_LiveScript rb then fail ''seeded_lockout_live_readback_missing''
                             else if rb_Failure rb \<noteq> [] then fail (''seeded_lockout_readback:'' @ rb_Failure rb)
                             else if \<not> rb_LockoutIntact rb then fail ''seeded_lockout_readback_mismatch''
                             else ((w\<lparr>w_Records := Registry_Disarm cohortId (w_Records w)\<rparr>,
                                    rt\<lparr>rt_Admitted := True, rt_BoundGroupGuid := lk_BoundGroupGuid r,
                                       rt_AdmissionFailure := []\<rparr>), [])))))"

definition DisarmAdmission :: "env \<Rightarrow> string \<Rightarrow> world \<times> runtime \<Rightarrow> world \<times> runtime" where
  "DisarmAdmission ev cohortId st =
     (case st of (w, rt) \<Rightarrow>
        if \<not> rt_Attached rt then st
        else (let w1 = ReleaseSeedGroupBind ev cohortId w
              in (w1\<lparr>w_Records := Registry_Disarm cohortId (w_Records w1)\<rparr>,
                  rt\<lparr>rt_Admitted := False, rt_BoundGroupGuid := 0\<rparr>)))"

section \<open>The registry keeps one lockout per leader\<close>

definition lock_ok :: "registry \<Rightarrow> bool" where
  "lock_ok m \<longleftrightarrow> om_ok m \<and> (\<forall>c r. om_get m c = Some r \<longrightarrow> lk_CohortId r = c) \<and>
     (\<forall>c c' r r'. om_get m c = Some r \<and> om_get m c' = Some r' \<and> lk_ArmedLeaderGuid r = lk_ArmedLeaderGuid r'
        \<and> lk_ArmedLeaderGuid r \<noteq> 0 \<longrightarrow> c = c')"

lemma other_armed_set:
  "other_armed c leader m \<longleftrightarrow> (\<exists>(c', r) \<in> set m. c' \<noteq> c \<and> lk_ArmedLeaderGuid r = leader)"
  by (induction c leader m rule: other_armed.induct) auto

lemma other_armed_get:
  "om_ok m \<Longrightarrow> other_armed c leader m \<longleftrightarrow>
    (\<exists>c' r. om_get m c' = Some r \<and> c' \<noteq> c \<and> lk_ArmedLeaderGuid r = leader)"
  by (auto simp: other_armed_set om_ok_get_iff)

lemma FindArmed_SomeD: "FindArmed leader m = Some r \<Longrightarrow> \<exists>c. (c, r) \<in> set m \<and> lk_ArmedLeaderGuid r = leader"
  by (induction leader m rule: FindArmed.induct) (auto split: if_splits)

lemma FindArmed_NoneD: "FindArmed leader m = None \<Longrightarrow> (c, r) \<in> set m \<Longrightarrow> lk_ArmedLeaderGuid r \<noteq> leader"
  by (induction leader m rule: FindArmed.induct) (auto split: if_splits)

lemma FindArmed_iff:
  assumes "lock_ok m" and "leader \<noteq> 0"
  shows "FindArmed leader m = Some r \<longleftrightarrow> om_get m (lk_CohortId r) = Some r \<and> lk_ArmedLeaderGuid r = leader"
proof
  assume "FindArmed leader m = Some r"
  then obtain c where "(c, r) \<in> set m" "lk_ArmedLeaderGuid r = leader" using FindArmed_SomeD by blast
  then show "om_get m (lk_CohortId r) = Some r \<and> lk_ArmedLeaderGuid r = leader"
    using assms(1) unfolding lock_ok_def by (metis om_ok_get_iff)
next
  assume r: "om_get m (lk_CohortId r) = Some r \<and> lk_ArmedLeaderGuid r = leader"
  have "FindArmed leader m \<noteq> None" using r FindArmed_NoneD om_get_eq_SomeD by metis
  then obtain r' where r': "FindArmed leader m = Some r'" by blast
  then obtain c' where "om_get m c' = Some r'" "lk_ArmedLeaderGuid r' = leader"
    using FindArmed_SomeD assms(1) om_ok_get_iff unfolding lock_ok_def by metis
  with r r' assms show "FindArmed leader m = Some r" unfolding lock_ok_def by (metis option.inject)
qed

datatype lock_op = LSeed lockout_record | LErase string | LArm string u32 | LDisarm string | LSetBound string u32

primrec lock_step :: "registry \<Rightarrow> lock_op \<Rightarrow> registry" where
  "lock_step m (LSeed r) = fst (Registry_Insert (r\<lparr>lk_ArmedLeaderGuid := 0, lk_BoundGroupGuid := 0\<rparr>) m)"
| "lock_step m (LErase c) = Registry_Erase c m"
| "lock_step m (LArm c leader) = fst (Registry_Arm c leader m)"
| "lock_step m (LDisarm c) = Registry_Disarm c m"
| "lock_step m (LSetBound c g) = Registry_SetBoundGroup c g m"

lemma lock_ok_put:
  assumes "lock_ok m" and "lk_CohortId r = c"
    and "\<forall>c' r'. om_get m c' = Some r' \<and> c' \<noteq> c \<and> lk_ArmedLeaderGuid r \<noteq> 0 \<longrightarrow>
           lk_ArmedLeaderGuid r' \<noteq> lk_ArmedLeaderGuid r"
  shows "lock_ok (om_put c r m)"
  using assms unfolding lock_ok_def by (auto split: if_splits) metis

lemma lock_ok_step: "lock_ok m \<Longrightarrow> lock_ok (lock_step m a)"
proof (cases a)
  case (LSeed r)
  then show "lock_ok m \<Longrightarrow> lock_ok (lock_step m a)"
    by (auto simp: Registry_Insert_def intro!: lock_ok_put)
next
  case (LErase c)
  then show "lock_ok m \<Longrightarrow> lock_ok (lock_step m a)"
    by (auto simp: Registry_Erase_def lock_ok_def)
next
  case (LArm c leader)
  assume ok: "lock_ok m"
  then show "lock_ok (lock_step m a)"
    using LArm other_armed_get [of m c leader]
    by (auto simp: Registry_Arm_def lock_ok_def [of m] split: option.splits intro!: lock_ok_put) metis
next
  case (LDisarm c)
  then show "lock_ok m \<Longrightarrow> lock_ok (lock_step m a)"
    by (auto simp: Registry_Disarm_def lock_ok_def [of m] split: option.splits intro!: lock_ok_put)
next
  case (LSetBound c g)
  then show "lock_ok m \<Longrightarrow> lock_ok (lock_step m a)"
    by (auto simp: Registry_SetBoundGroup_def lock_ok_def [of m] split: option.splits intro!: lock_ok_put)
qed

interpretation lockouts: op_machine "[]" lock_step lock_ok
  by unfold_locales (simp add: lock_ok_def, rule lock_ok_step)

text \<open>
  C21: at most one lockout is armed for a leader: after any calls of the registry, looking up the
  armed lockout of a non-zero leader finds a record exactly if that record is registered and armed
  for this leader; so no two cohorts share a leader, whatever the order of arming.
\<close>

theorem Lockout_unique_leader:
  assumes "leader \<noteq> 0"
  shows "FindArmed leader (foldl lock_step [] ops) = Some r \<longleftrightarrow>
    Registry_Find (lk_CohortId r) (foldl lock_step [] ops) = Some r \<and> lk_ArmedLeaderGuid r = leader"
  unfolding Registry_Find_def by (rule FindArmed_iff [OF lockouts.run_inv assms])

definition sample_lockout :: "string \<Rightarrow> lockout_record" where
  "sample_lockout c = \<lparr>lk_CohortId = c, lk_Raid = ''blackwing_descent'', lk_MapId = 669, lk_InstanceId = 40,
     lk_Difficulty = 0, lk_BossesDone = [''omnotron''], lk_CompletedEncounterMask = 2,
     lk_ArmedLeaderGuid = 0, lk_BoundGroupGuid = 0\<rparr>"

theorem Lockout_unique_leader_witness:
  "FindArmed 7 (foldl lock_step [] [LSeed (sample_lockout ''b''), LSeed (sample_lockout ''a''), LArm ''b'' 7, LArm ''a'' 7])
     \<noteq> Some (sample_lockout ''a''\<lparr>lk_ArmedLeaderGuid := 7\<rparr>)"
proof -
  let ?m = "foldl lock_step [] [LSeed (sample_lockout ''b''), LSeed (sample_lockout ''a''), LArm ''b'' 7, LArm ''a'' 7]"
  have "(7 :: u32) \<noteq> 0" by simp
  note iff = Lockout_unique_leader [OF this]
  have "Registry_Find ''a'' ?m = Some (sample_lockout ''a'')" by code_simp
  then show ?thesis unfolding iff by (simp add: sample_lockout_def)
qed

section \<open>Binding the seed group\<close>

lemma groups_Save [simp]:
  "w_Groups (Save_AddGroup inst g w) = w_Groups w"
  "w_Groups (Save_RemoveGroup inst g w) = w_Groups w"
  "w_Records (Save_AddGroup inst g w) = w_Records w"
  "w_Records (Save_RemoveGroup inst g w) = w_Records w"
  "w_GroupRows (Save_AddGroup inst g w) = w_GroupRows w"
  "w_GroupRows (Save_RemoveGroup inst g w) = w_GroupRows w"
  "w_Queued (Save_AddGroup inst g w) = w_Queued w"
  "w_Queued (Save_RemoveGroup inst g w) = w_Queued w"
  by (auto simp: Save_AddGroup_def Save_RemoveGroup_def Let_def split: option.splits)

lemma groups_set_bound [simp]:
  "w_Groups (set_bound c g w) = w_Groups w" "w_Saves (set_bound c g w) = w_Saves w"
  "w_GroupRows (set_bound c g w) = w_GroupRows w" "w_Queued (set_bound c g w) = w_Queued w"
  "w_Records (set_bound c g w) = Registry_SetBoundGroup c g (w_Records w)"
  by (simp_all add: set_bound_def)

lemma AddInstanceSave_frame:
  "AddInstanceSave ev mapId inst d cr w = (w', so) \<Longrightarrow>
     w_Groups w' = w_Groups w \<and> w_Records w' = w_Records w \<and> w_GroupRows w' = w_GroupRows w
     \<and> (\<forall>s. so = Some s \<longrightarrow> w_Saves w' inst = Some s)"
  by (auto simp: AddInstanceSave_def Let_def split: option.splits if_splits)

lemma BindToInstance_groups:
  "w_Groups w g = Some gr \<Longrightarrow> w_Groups (Group_BindToInstance g inst s perm w) =
     (if gr_BattleGroup gr then w_Groups w
      else (w_Groups w)(g \<mapsto> gr\<lparr>gr_Bound := (gr_Bound gr)
              ((sv_Difficulty s, sv_MapId s) \<mapsto> \<lparr>gb_Save = inst, gb_Perm = perm\<rparr>)\<rparr>))"
  "w_Records (Group_BindToInstance g inst s perm w) = w_Records w"
  "w_GroupRows (Group_BindToInstance g inst s perm w) = w_GroupRows w"
  by (auto simp: Group_BindToInstance_def Let_def split: option.splits)

text \<open>The save that the bind uses, as the code looks it up or loads it.\<close>

definition lockout_save :: "env \<Rightarrow> lockout_record \<Rightarrow> world \<Rightarrow> world \<times> instance_save option" where
  "lockout_save ev r w =
     (case w_Saves w (lk_InstanceId r) of
        Some s \<Rightarrow> (w, Some s)
      | None \<Rightarrow> AddInstanceSave ev (lk_MapId r) (lk_InstanceId r) (lk_Difficulty r) False w)"

lemma lockout_save_frame:
  "lockout_save ev r w = (w', so) \<Longrightarrow>
     w_Groups w' = w_Groups w \<and> w_Records w' = w_Records w \<and> w_GroupRows w' = w_GroupRows w
     \<and> (\<forall>s. so = Some s \<longrightarrow> w_Saves w' (lk_InstanceId r) = Some s)"
  unfolding lockout_save_def by (auto split: option.splits dest: AddInstanceSave_frame)

text \<open>
  C32: \<^verbatim>\<open>BindArmedSeedGroup\<close> never binds anything but the armed lockout. Either it leaves every
  group and the registry as they were, or the leader has an armed record, the placement is on that
  record's map, and the only changes are a permanent bind of the seed group to that record's
  instance on its map and difficulty (none for a battleground group) and the note of the group in
  that record.
\<close>

theorem Lockout_bind_exact:
  assumes "w' = BindArmedSeedGroup ev leader seed placement w"
  shows "(w_Groups w' = w_Groups w \<and> w_Records w' = w_Records w) \<or>
    (\<exists>r gr. leader \<noteq> 0 \<and> FindArmed leader (w_Records w) = Some r \<and> w_Groups w seed = Some gr \<and>
       placement = lk_MapId r \<and> gr_RaidDifficulty gr = lk_Difficulty r \<and>
       w_Groups w' = (if gr_BattleGroup gr then w_Groups w
          else (w_Groups w)(seed \<mapsto> gr\<lparr>gr_Bound := (gr_Bound gr)
            ((lk_Difficulty r, lk_MapId r) \<mapsto> \<lparr>gb_Save = lk_InstanceId r, gb_Perm = True\<rparr>)\<rparr>)) \<and>
       w_Records w' = Registry_SetBoundGroup (lk_CohortId r) seed (w_Records w))"
proof (cases "\<exists>gr r. w_Groups w seed = Some gr \<and> leader \<noteq> 0 \<and> FindArmed leader (w_Records w) = Some r")
  case False
  then have "w' = w" using assms by (auto simp: BindArmedSeedGroup_def split: option.splits)
  then show ?thesis by simp
next
  case True
  then obtain gr r where gr: "w_Groups w seed = Some gr" and l: "leader \<noteq> 0"
    and r: "FindArmed leader (w_Records w) = Some r" by blast
  obtain w1 so where so: "lockout_save ev r w = (w1, so)" by fastforce
  note frame = lockout_save_frame [OF so]
  have w': "w' = (case so of None \<Rightarrow> w1 | Some s \<Rightarrow>
      if sv_MapId s \<noteq> placement \<or> sv_MapId s \<noteq> lk_MapId r \<or> sv_Difficulty s \<noteq> lk_Difficulty r
         \<or> gr_RaidDifficulty gr \<noteq> lk_Difficulty r then w1
      else set_bound (lk_CohortId r) seed (Group_BindToInstance seed (lk_InstanceId r) s True w1))"
    using assms gr l r so unfolding BindArmedSeedGroup_def lockout_save_def by (auto split: option.splits)
  show ?thesis
  proof (cases so)
    case None
    then show ?thesis using w' frame by simp
  next
    case (Some s)
    show ?thesis
    proof (cases "sv_MapId s \<noteq> placement \<or> sv_MapId s \<noteq> lk_MapId r \<or> sv_Difficulty s \<noteq> lk_Difficulty r
         \<or> gr_RaidDifficulty gr \<noteq> lk_Difficulty r")
      case True
      then show ?thesis using w' Some frame by auto
    next
      case False
      have "w_Groups w1 seed = Some gr" using frame gr by simp
      note bind = BindToInstance_groups(1) [OF this, of "lk_InstanceId r" s True]
      have "w' = set_bound (lk_CohortId r) seed (Group_BindToInstance seed (lk_InstanceId r) s True w1)"
        using w' Some False by simp
      then show ?thesis using bind False frame gr l r by (auto simp: BindToInstance_groups)
    qed
  qed
qed

definition sample_env :: env where
  "sample_env = \<lparr>env_IsRaid = [669 \<mapsto> True], env_Downscale = (\<lambda>m d. d)\<rparr>"

definition sample_group :: seed_group where
  "sample_group = \<lparr>gr_DbStoreId = 12, gr_RaidDifficulty = 0, gr_BattleGroup = False, gr_Bound = Map.empty\<rparr>"

definition sample_world :: "registry \<Rightarrow> world" where
  "sample_world m = \<lparr>w_Records = m, w_Groups = [9 \<mapsto> sample_group], w_Saves = Map.empty, w_GroupRows = {(12, 40)},
     w_Queued = [ReplaceRow (12, 41)]\<rparr>"

definition armed_registry :: registry where
  "armed_registry = [(''a'', sample_lockout ''a''\<lparr>lk_ArmedLeaderGuid := 7\<rparr>)]"

lemmas lockout_sample_simps = sample_env_def sample_group_def sample_world_def armed_registry_def sample_lockout_def

theorem Lockout_bind_exact_witness:
  "w_Groups (BindArmedSeedGroup sample_env 7 9 631 (sample_world armed_registry)) = [9 \<mapsto> sample_group]"
  using Lockout_bind_exact [OF refl, of sample_env 7 9 631 "sample_world armed_registry"]
  by (auto simp: lockout_sample_simps)

section \<open>Releasing the seed group\<close>

lemma RemoveGroup_save:
  "w_Saves (Save_RemoveGroup inst g w) inst = Some s \<Longrightarrow> g \<notin> set (sv_Groups s)"
  by (auto simp: Save_RemoveGroup_def Let_def split: option.splits if_splits)

lemma UnbindInstance_facts:
  assumes "w_Groups w g = Some gr" and "gr_Bound gr (d, m) = Some b"
  shows "w_Groups (Group_UnbindInstance g m d w) = (w_Groups w)(g \<mapsto> gr\<lparr>gr_Bound := (gr_Bound gr)((d, m) := None)\<rparr>)"
    and "w_Records (Group_UnbindInstance g m d w) = w_Records w"
    and "w_Saves (Group_UnbindInstance g m d w) (gb_Save b) = Some s \<Longrightarrow> g \<notin> set (sv_Groups s)"
    and "w_GroupRows (Group_UnbindInstance g m d w) = w_GroupRows w"
    and "w_Queued (Group_UnbindInstance g m d w) = w_Queued w"
  using assms by (auto simp: Group_UnbindInstance_def Let_def dest: RemoveGroup_save)

definition bound_to :: "world \<Rightarrow> u32 \<Rightarrow> lockout_record \<Rightarrow> bool" where
  "bound_to w g r \<longleftrightarrow> (\<exists>gr b. w_Groups w g = Some gr \<and> gr_Bound gr (lk_Difficulty r, lk_MapId r) = Some b
     \<and> gb_Save b = lk_InstanceId r)"

lemma ReleaseBoundGroup_facts:
  assumes "lk_BoundGroupGuid r = g" "g \<noteq> 0" "w_Groups w g = Some gr"
    and "env_Downscale ev (lk_MapId r) (lk_Difficulty r) = lk_Difficulty r"
  shows "w_Records (ReleaseBoundGroup ev r w) = Registry_SetBoundGroup (lk_CohortId r) 0 (w_Records w)"
    and "\<not> bound_to (ReleaseBoundGroup ev r w) g r"
    and "g' \<noteq> g \<Longrightarrow> w_Groups (ReleaseBoundGroup ev r w) g' = w_Groups w g'"
    and "bound_to w g r \<Longrightarrow> w_Saves (ReleaseBoundGroup ev r w) (lk_InstanceId r) = Some s \<Longrightarrow> g \<notin> set (sv_Groups s)"
    and "w_GroupRows (ReleaseBoundGroup ev r w) = w_GroupRows w
      - (if bound_to w g r then {(gr_DbStoreId gr, lk_InstanceId r)} else {})"
    and "w_Queued (ReleaseBoundGroup ev r w) = w_Queued w"
proof -
  let ?w' = "ReleaseBoundGroup ev r w"
  have "w_Records ?w' = Registry_SetBoundGroup (lk_CohortId r) 0 (w_Records w) \<and> \<not> bound_to ?w' g r
    \<and> (g' \<noteq> g \<longrightarrow> w_Groups ?w' g' = w_Groups w g')
    \<and> (bound_to w g r \<longrightarrow> (\<forall>s. w_Saves ?w' (lk_InstanceId r) = Some s \<longrightarrow> g \<notin> set (sv_Groups s)))
    \<and> w_GroupRows ?w' = w_GroupRows w - (if bound_to w g r then {(gr_DbStoreId gr, lk_InstanceId r)} else {})
    \<and> w_Queued ?w' = w_Queued w"
  proof (cases "bound_to w g r")
    case False
    then have "?w' = set_bound (lk_CohortId r) 0 w"
      using assms by (auto simp: ReleaseBoundGroup_def Group_GetBoundInstance_def bound_to_def Let_def
          split: option.splits)
    then show ?thesis using False by (auto simp: bound_to_def)
  next
    case True
    then obtain b where b: "gr_Bound gr (lk_Difficulty r, lk_MapId r) = Some b" "gb_Save b = lk_InstanceId r"
      using assms(3) by (auto simp: bound_to_def)
    let ?u = "Group_UnbindInstance g (lk_MapId r) (lk_Difficulty r) w"
    have w': "?w' = set_bound (lk_CohortId r) 0
        (?u\<lparr>w_GroupRows := w_GroupRows ?u - {(gr_DbStoreId gr, lk_InstanceId r)}\<rparr>)"
      using assms b by (simp add: ReleaseBoundGroup_def Group_GetBoundInstance_def Let_def)
    note u = UnbindInstance_facts [OF assms(3) b(1)]
    have "g \<notin> set (sv_Groups s)" if "w_Saves ?u (lk_InstanceId r) = Some s" for s
      using u(3) [of s] that b(2) by simp
    moreover have "\<not> bound_to ?w' g r" unfolding w' by (simp add: u(1) bound_to_def)
    ultimately show ?thesis using True unfolding w' by (simp add: u(1,2,4,5))
  qed
  then show "w_Records ?w' = Registry_SetBoundGroup (lk_CohortId r) 0 (w_Records w)"
    and "\<not> bound_to ?w' g r"
    and "g' \<noteq> g \<Longrightarrow> w_Groups ?w' g' = w_Groups w g'"
    and "bound_to w g r \<Longrightarrow> w_Saves ?w' (lk_InstanceId r) = Some s \<Longrightarrow> g \<notin> set (sv_Groups s)"
    and "w_GroupRows ?w' = w_GroupRows w - (if bound_to w g r then {(gr_DbStoreId gr, lk_InstanceId r)} else {})"
    and "w_Queued ?w' = w_Queued w"
    by blast+
qed

text \<open>The rows once the queued writes have landed, and what they say of one row.\<close>

fun write_row :: "row_write \<Rightarrow> (u32 \<times> u32) set \<Rightarrow> (u32 \<times> u32) set" where
  "write_row (ReplaceRow k) rows = insert k rows"
| "write_row (DeleteRow k) rows = rows - {k}"

definition landed_rows :: "world \<Rightarrow> (u32 \<times> u32) set" where
  "landed_rows w = fold write_row (w_Queued w) (w_GroupRows w)"

fun restores :: "u32 \<times> u32 \<Rightarrow> row_write list \<Rightarrow> bool" where
  "restores k [] = False"
| "restores k (x # xs) = (if ReplaceRow k \<in> set xs \<or> DeleteRow k \<in> set xs then restores k xs else x = ReplaceRow k)"

lemma landed_row: "k \<in> fold write_row xs rows \<longleftrightarrow>
    (if ReplaceRow k \<in> set xs \<or> DeleteRow k \<in> set xs then restores k xs else k \<in> rows)"
proof (induction xs arbitrary: rows)
  case (Cons x xs)
  then show ?case by (cases x) auto
qed simp

lemma restores_queued: "restores k xs \<Longrightarrow> ReplaceRow k \<in> set xs"
  by (induction xs) (auto split: if_splits)

text \<open>
  C36: rolling an admission back leaves no half-bound group: after \<^verbatim>\<open>DisarmAdmission\<close> the cohort's
  record is neither armed nor bound and otherwise as it was, the group that was bound has no bind to
  the lockout's instance and the save does not list it, and the other cohorts and groups are
  untouched. Its row of \<^verbatim>\<open>group_instance\<close> is deleted at once, no other row is, and nothing is queued or
  taken from the queue. So an asynchronous write of that row that was queued before, as
  \<^verbatim>\<open>ConvertLeaderInstancesToGroup\<close> queues one, can still land afterwards: once the queue is done the
  row is there exactly if its last queued write is a \<^verbatim>\<open>REPLACE\<close>, which the comment in
  \<^verbatim>\<open>BindArmedSeedGroup\<close> says is harmless. (Map and difficulty are those of a lockout that is not
  downscaled.)
\<close>

theorem Lockout_disarm_rolls_back:
  assumes "rt_Attached rt" and "Registry_Find c (w_Records w) = Some r" and "lk_CohortId r = c"
    and "lk_BoundGroupGuid r = g" and "g \<noteq> 0" and "w_Groups w g = Some gr"
    and "env_Downscale ev (lk_MapId r) (lk_Difficulty r) = lk_Difficulty r"
    and "DisarmAdmission ev c (w, rt) = (w', rt')"
  shows "Registry_Find c (w_Records w') = Some (r\<lparr>lk_ArmedLeaderGuid := 0, lk_BoundGroupGuid := 0\<rparr>) \<and>
    \<not> rt_Admitted rt' \<and> \<not> bound_to w' g r \<and>
    (bound_to w g r \<longrightarrow> (\<forall>s. w_Saves w' (lk_InstanceId r) = Some s \<longrightarrow> g \<notin> set (sv_Groups s))
       \<and> ((gr_DbStoreId gr, lk_InstanceId r) \<in> landed_rows w' \<longleftrightarrow> restores (gr_DbStoreId gr, lk_InstanceId r) (w_Queued w))) \<and>
    w_GroupRows w' = w_GroupRows w - (if bound_to w g r then {(gr_DbStoreId gr, lk_InstanceId r)} else {}) \<and>
    w_Queued w' = w_Queued w \<and>
    (\<forall>c'. c' \<noteq> c \<longrightarrow> Registry_Find c' (w_Records w') = Registry_Find c' (w_Records w)) \<and>
    (\<forall>g'. g' \<noteq> g \<longrightarrow> w_Groups w' g' = w_Groups w g')"
proof -
  let ?w1 = "ReleaseBoundGroup ev r w"
  have w': "w' = ?w1\<lparr>w_Records := Registry_Disarm c (w_Records ?w1)\<rparr>" "\<not> rt_Admitted rt'"
    using assms by (auto simp: DisarmAdmission_def ReleaseSeedGroupBind_def Let_def)
  note rel = ReleaseBoundGroup_facts [OF assms(4-7)]
  have "bound_to w' g r = bound_to ?w1 g r" unfolding w' by (simp add: bound_to_def)
  moreover have "Registry_Find c' (w_Records w') = (if c' = c then Some (r\<lparr>lk_ArmedLeaderGuid := 0, lk_BoundGroupGuid := 0\<rparr>)
      else Registry_Find c' (w_Records w))" for c'
    using assms(2,3) unfolding w' by (simp add: rel(1) Registry_SetBoundGroup_def Registry_Disarm_def Registry_Find_def)
  moreover have "(gr_DbStoreId gr, lk_InstanceId r) \<in> landed_rows w'
      \<longleftrightarrow> restores (gr_DbStoreId gr, lk_InstanceId r) (w_Queued w)" if "bound_to w g r"
    using that restores_queued unfolding landed_rows_def landed_row w' by (auto simp: rel(5,6))
  ultimately show ?thesis using rel w' by simp
qed

theorem Lockout_disarm_rolls_back_witness:
  "w_GroupRows (fst (DisarmAdmission sample_env ''a''
     (BindArmedSeedGroup sample_env 7 9 669 (sample_world armed_registry),
      \<lparr>rt_Attached = True, rt_Admitted = True, rt_InstanceId = 40, rt_BoundGroupGuid = 9, rt_AdmissionFailure = []\<rparr>))) = {}"
proof -
  let ?w = "BindArmedSeedGroup sample_env 7 9 669 (sample_world armed_registry)"
  let ?rt = "\<lparr>rt_Attached = True, rt_Admitted = True, rt_InstanceId = 40, rt_BoundGroupGuid = 9, rt_AdmissionFailure = []\<rparr>"
  let ?r = "sample_lockout ''a''\<lparr>lk_ArmedLeaderGuid := 7, lk_BoundGroupGuid := 9\<rparr>"
  let ?gr = "sample_group\<lparr>gr_Bound := [(0, 669) \<mapsto> \<lparr>gb_Save = 40, gb_Perm = True\<rparr>]\<rparr>"
  have w: "w_Records ?w = [(''a'', ?r)]" "w_Groups ?w 9 = Some ?gr" "w_GroupRows ?w = {(12, 40)}"
    by (simp_all add: BindArmedSeedGroup_def lockout_sample_simps AddInstanceSave_def Let_def Group_BindToInstance_def
        Registry_SetBoundGroup_def om_get_def Save_AddGroup_def set_bound_def)
  have 1: "rt_Attached ?rt" by simp
  have 2: "Registry_Find ''a'' (w_Records ?w) = Some ?r" by (simp add: w(1) Registry_Find_def om_get_def)
  have 3: "lk_CohortId ?r = ''a''" "lk_BoundGroupGuid ?r = 9" by (simp_all add: lockout_sample_simps)
  have 4: "env_Downscale sample_env (lk_MapId ?r) (lk_Difficulty ?r) = lk_Difficulty ?r" by (simp add: lockout_sample_simps)
  have 5: "bound_to ?w 9 ?r" using w(2) by (auto simp: bound_to_def lockout_sample_simps)
  obtain w' rt' where d: "DisarmAdmission sample_env ''a'' (?w, ?rt) = (w', rt')" by fastforce
  have "w_GroupRows w' = w_GroupRows ?w - {(gr_DbStoreId ?gr, lk_InstanceId ?r)}"
    using Lockout_disarm_rolls_back [OF 1 2 3 _ w(2) 4 d] 5 by simp
  then show ?thesis using d w(3) by (auto simp: lockout_sample_simps)
qed

section \<open>Admission\<close>

lemma verify_bots_None:
  "verify_bots ev w r bots = None \<Longrightarrow> b \<in> set bots \<Longrightarrow>
     bp_Loaded b \<and> bp_MapId b = lk_MapId r \<and> bp_InstanceId b = lk_InstanceId r \<and>
     bp_Group b = Some (lk_BoundGroupGuid r) \<and>
     (\<exists>gr bind. w_Groups w (lk_BoundGroupGuid r) = Some gr
        \<and> Group_GetBoundInstance ev gr (lk_Difficulty r) (lk_MapId r) = Some bind
        \<and> gb_Perm bind \<and> gb_Save bind = lk_InstanceId r)"
  by (induction ev w r bots rule: verify_bots.induct) (auto split: if_splits option.splits)

lemma verify_bots_reason: "verify_bots ev w r bots = Some reason \<Longrightarrow> reason \<noteq> []"
  by (induction ev w r bots rule: verify_bots.induct) (auto split: if_splits option.splits)

text \<open>
  an admission is verified only if it is real: if \<^verbatim>\<open>VerifyAdmission\<close> of an attached cohort
  reports no failure, the lockout is still the attached one, every bot is loaded inside its instance
  and belongs to the bound group, and that group has a permanent bind to the instance; the cohort is
  then admitted, disarmed and keeps its bound group. If it reports a failure nothing changes but the
  reason.
\<close>

theorem Lockout_verify_sound:
  assumes "rt_Attached rt" and "VerifyAdmission ev c bots rb (w, rt) = ((w', rt'), reason)"
  shows "if reason = []
    then \<exists>r. Registry_Find c (w_Records w) = Some r \<and> lk_InstanceId r = rt_InstanceId rt \<and>
      lk_BoundGroupGuid r \<noteq> 0 \<and> rb_LiveScript rb \<and> rb_LockoutIntact rb \<and>
      (\<forall>b \<in> set bots. bp_Loaded b \<and> bp_MapId b = lk_MapId r \<and> bp_InstanceId b = lk_InstanceId r \<and>
         bp_Group b = Some (lk_BoundGroupGuid r) \<and>
         (\<exists>gr bind. w_Groups w (lk_BoundGroupGuid r) = Some gr
            \<and> Group_GetBoundInstance ev gr (lk_Difficulty r) (lk_MapId r) = Some bind
            \<and> gb_Perm bind \<and> gb_Save bind = lk_InstanceId r)) \<and>
      rt_Admitted rt' \<and> rt_BoundGroupGuid rt' = lk_BoundGroupGuid r \<and>
      Registry_Find c (w_Records w') = Some (r\<lparr>lk_ArmedLeaderGuid := 0\<rparr>)
    else w' = w \<and> rt' = rt\<lparr>rt_AdmissionFailure := reason\<rparr>"
proof (cases "reason = []")
  case True
  have "\<exists>r. Registry_Find c (w_Records w) = Some r \<and> lk_InstanceId r = rt_InstanceId rt
      \<and> lk_BoundGroupGuid r \<noteq> 0 \<and> verify_bots ev w r bots = None \<and> rb_LiveScript rb \<and> rb_LockoutIntact rb
      \<and> w' = w\<lparr>w_Records := Registry_Disarm c (w_Records w)\<rparr>
      \<and> rt' = rt\<lparr>rt_Admitted := True, rt_BoundGroupGuid := lk_BoundGroupGuid r, rt_AdmissionFailure := []\<rparr>"
    using assms True unfolding VerifyAdmission_def Let_def
    by (simp split: option.splits if_splits add: verify_bots_reason)
  then obtain r where r: "Registry_Find c (w_Records w) = Some r" "lk_InstanceId r = rt_InstanceId rt"
      "lk_BoundGroupGuid r \<noteq> 0" "verify_bots ev w r bots = None" "rb_LiveScript rb" "rb_LockoutIntact rb"
      "w' = w\<lparr>w_Records := Registry_Disarm c (w_Records w)\<rparr>"
      "rt' = rt\<lparr>rt_Admitted := True, rt_BoundGroupGuid := lk_BoundGroupGuid r, rt_AdmissionFailure := []\<rparr>"
    by blast
  have "Registry_Find c (w_Records w') = Some (r\<lparr>lk_ArmedLeaderGuid := 0\<rparr>)"
    using r(1) by (simp add: r(7) Registry_Disarm_def Registry_Find_def)
  with r verify_bots_None [OF r(4)] True show ?thesis by auto
next
  case False
  then show ?thesis using assms unfolding VerifyAdmission_def Let_def
    by (simp split: option.splits if_splits) auto
qed

theorem Lockout_verify_sound_witness:
  "snd (VerifyAdmission sample_env ''a''
     [\<lparr>bp_Loaded = True, bp_MapId = 669, bp_InstanceId = 41, bp_Group = Some 9, bp_Guid = ''3''\<rparr>]
     \<lparr>rb_Failure = [], rb_LockoutIntact = True, rb_ExtraDone = [], rb_MapPlayers = 0, rb_SaveGroupBinds = 0, rb_LiveScript = True\<rparr>
     (BindArmedSeedGroup sample_env 7 9 669 (sample_world armed_registry),
      \<lparr>rt_Attached = True, rt_Admitted = False, rt_InstanceId = 40, rt_BoundGroupGuid = 0, rt_AdmissionFailure = []\<rparr>)) \<noteq> []"
proof -
  let ?b = "\<lparr>bp_Loaded = True, bp_MapId = 669, bp_InstanceId = 41, bp_Group = Some 9, bp_Guid = ''3''\<rparr>"
  let ?rb = "\<lparr>rb_Failure = [], rb_LockoutIntact = True, rb_ExtraDone = [], rb_MapPlayers = 0, rb_SaveGroupBinds = 0, rb_LiveScript = True\<rparr>"
  let ?rt = "\<lparr>rt_Attached = True, rt_Admitted = False, rt_InstanceId = 40, rt_BoundGroupGuid = 0, rt_AdmissionFailure = []\<rparr>"
  let ?w = "BindArmedSeedGroup sample_env 7 9 669 (sample_world armed_registry)"
  obtain w' rt' reason where v: "VerifyAdmission sample_env ''a'' [?b] ?rb (?w, ?rt) = ((w', rt'), reason)"
    by (metis surj_pair)
  have att: "rt_Attached ?rt" by simp
  from Lockout_verify_sound [OF att v] show ?thesis
    using v by (auto split: if_splits)
qed

end
