(* ===== verification/Duty_Claims.thy ===== *)
theory Duty_Claims
  imports Prelude
begin

text \<open>
  Human duty callouts in raid chat (\<^verbatim>\<open>server/game/Bots/BotRaidDutyClaims.h\<close>): words of a
  message, mentions of duties, the intent of a clause, the clauses of a message, and the table of
  claims. Texts are lists of bytes; \<^verbatim>\<open>std::isalnum\<close> and \<^verbatim>\<open>std::tolower\<close> are those of the
  C locale. An \<^verbatim>\<open>ObjectGuid\<close> is its raw value, 0 for the empty guid. Indices into a clause are
  natural numbers; a scan of a prefix is a recursion on the words themselves.
\<close>

section \<open>Words\<close>

definition isalnum :: "char \<Rightarrow> bool" where
  "isalnum c \<longleftrightarrow> (let n = of_char c :: nat in
     (48 \<le> n \<and> n \<le> 57) \<or> (65 \<le> n \<and> n \<le> 90) \<or> (97 \<le> n \<and> n \<le> 122))"

definition tolower :: "char \<Rightarrow> char" where
  "tolower c = (let n = of_char c :: nat in if 65 \<le> n \<and> n \<le> 90 then char_of (n + 32) else c)"

text \<open>The U+2019 sequence that the loop skips; only with two more bytes in the text.\<close>

definition curly :: "char \<Rightarrow> string \<Rightarrow> bool" where
  "curly c cs \<longleftrightarrow> c = CHR 0xE2 \<and> 2 \<le> length cs \<and> cs ! 0 = CHR 0x80 \<and> cs ! 1 = CHR 0x99"

fun normalize_loop :: "string \<Rightarrow> string \<Rightarrow> string list" where
  "normalize_loop word [] = (if word = [] then [] else [word])"
| "normalize_loop word (c # cs) =
     (if c = CHR 0x27 then normalize_loop word cs
      else if curly c cs then normalize_loop word (drop 2 cs)
      else if isalnum c then normalize_loop (word @ [tolower c]) cs
      else if word \<noteq> [] then word # normalize_loop [] cs
      else normalize_loop word cs)"

definition NormalizeWords :: "string \<Rightarrow> string list" where
  "NormalizeWords text = normalize_loop [] text"

section \<open>Keyword tables and word classes\<close>

record duty_keywords =
  dk_Duty :: string
  dk_Keywords :: "string list"
  dk_NotFollowedBy :: "string list"
  dk_NotPrecededBy :: "string list"


definition IsOneOf :: "string \<Rightarrow> string list \<Rightarrow> bool" where
  "IsOneOf word values = List.member values word"

definition IsFirstPerson :: "string \<Rightarrow> bool" where
  "IsFirstPerson word = IsOneOf word [''i'', ''ill'', ''im'', ''ive'', ''id'']"

definition IsBotWord :: "string \<Rightarrow> bool" where
  "IsBotWord word = IsOneOf word [''bot'', ''bots'']"

definition IsNegation :: "string \<Rightarrow> bool" where
  "IsNegation word = IsOneOf word [''not'', ''no'', ''dont'', ''cant'', ''wont'', ''never'', ''cannot'', ''isnt'', ''stop'']"

definition IsReleaseVerb :: "string \<Rightarrow> bool" where
  "IsReleaseVerb word = IsOneOf word [''release'', ''unclaim'', ''drop'']"

definition IsRequest :: "string \<Rightarrow> bool" where
  "IsRequest word = IsOneOf word [''need'', ''needs'', ''want'', ''who'', ''someone'', ''anyone'', ''somebody'',
     ''anybody'', ''please'', ''pls'', ''plz'']"

section \<open>Mentions\<close>

record mention =
  mn_Index :: nat
  mn_Length :: nat
  mn_Duty :: string

definition keyword_length :: "string list \<Rightarrow> nat \<Rightarrow> string \<Rightarrow> nat" where
  "keyword_length words index keyword =
     (let hd_word = takeWhile (\<lambda>c. c \<noteq> CHR '' '') keyword;
          rest = dropWhile (\<lambda>c. c \<noteq> CHR '' '') keyword
      in if rest = [] then (if words ! index = keyword then 1 else 0)
         else if index + 1 < length words \<and> words ! index = hd_word \<and> words ! (index + 1) = tl rest then 2
         else 0)"

fun first_length :: "string list \<Rightarrow> nat \<Rightarrow> string list \<Rightarrow> nat" where
  "first_length words index [] = 0"
| "first_length words index (k # ks) =
     (let l = keyword_length words index k in if l \<noteq> 0 then l else first_length words index ks)"

fun match_table :: "string list \<Rightarrow> nat \<Rightarrow> duty_keywords list \<Rightarrow> (duty_keywords \<times> nat) option" where
  "match_table words index [] = None"
| "match_table words index (duty # table) =
     (let l = first_length words index (dk_Keywords duty)
      in if l \<noteq> 0 then Some (duty, l) else match_table words index table)"

definition excluded :: "string list \<Rightarrow> nat \<Rightarrow> nat \<Rightarrow> duty_keywords \<Rightarrow> bool" where
  "excluded words index len duty \<longleftrightarrow>
     (index + len < length words \<and> List.member (dk_NotFollowedBy duty) (words ! (index + len)))
     \<or> (0 < index \<and> List.member (dk_NotPrecededBy duty) (words ! (index - 1)))"

text \<open>The loop from \<open>index\<close>; after a match the next index is the one behind the matched words.\<close>

function mentions_from :: "string list \<Rightarrow> duty_keywords list \<Rightarrow> nat \<Rightarrow> mention list" where
  "mentions_from words table index =
     (if length words \<le> index then []
      else (case match_table words index table of
              None \<Rightarrow> mentions_from words table (index + 1)
            | Some (duty, len) \<Rightarrow>
                (if excluded words index len duty then []
                 else [\<lparr>mn_Index = index, mn_Length = len, mn_Duty = dk_Duty duty\<rparr>])
                @ mentions_from words table (index + (len - 1) + 1)))"
  by pat_completeness auto
termination
  by (relation "measure (\<lambda>(words, table, index). length words - index)") auto

declare mentions_from.simps [simp del]

definition FindMentions :: "string list \<Rightarrow> duty_keywords list \<Rightarrow> mention list" where
  "FindMentions words table = mentions_from words table 0"

section \<open>Clauses\<close>

datatype callout_intent = Claim | Release

record callout =
  co_Duty :: string
  co_Intent :: callout_intent
  co_Personal :: bool

text \<open>The backward scan for the subject: the words before the first mention, last one first.\<close>

fun subject_scan :: "bool \<Rightarrow> string list \<Rightarrow> bool \<times> bool \<times> bool" where
  "subject_scan negationSeen [] = (False, False, False)"
| "subject_scan negationSeen (w # ws) =
     (if IsBotWord w then (True, False, False)
      else if IsFirstPerson w then (False, True, negationSeen)
      else subject_scan (negationSeen \<or> IsNegation w) ws)"

definition suffix_claim :: "string list \<Rightarrow> nat \<Rightarrow> bool" where
  "suffix_claim words after \<longleftrightarrow>
     (after < length words \<and> words ! after = ''mine'')
     \<or> (after + 1 < length words \<and> words ! after = ''on'' \<and> words ! (after + 1) = ''me'')"

fun add_callouts :: "callout_intent \<Rightarrow> bool \<Rightarrow> mention list \<Rightarrow> callout list \<Rightarrow> callout list" where
  "add_callouts intent personal [] acc = acc"
| "add_callouts intent personal (m # ms) acc =
     add_callouts intent personal ms
       (if list_ex (\<lambda>c. co_Duty c = mn_Duty m) acc then acc
        else acc @ [\<lparr>co_Duty = mn_Duty m, co_Intent = intent, co_Personal = personal\<rparr>])"

definition clause_intent :: "string list \<Rightarrow> mention list \<Rightarrow> (callout_intent \<times> bool) option" where
  "clause_intent words ms =
     (let first = mn_Index (hd ms);
          releaseVerb = list_ex IsReleaseVerb (take first words);
          after = mn_Index (last ms) + mn_Length (last ms)
      in case subject_scan False (rev (take first words)) of
           (bots, firstPerson, negated) \<Rightarrow>
             if bots \<or> releaseVerb then Some (Release, False)
             else if firstPerson \<and> negated then Some (Release, True)
             else if firstPerson \<or> suffix_claim words after then Some (Claim, False)
             else None)"

definition ParseClause :: "string list \<Rightarrow> duty_keywords list \<Rightarrow> callout list" where
  "ParseClause words table =
     (let ms = FindMentions words table in
      if ms = [] \<or> list_ex IsRequest words then []
      else (case clause_intent words ms of
              None \<Rightarrow> []
            | Some (intent, personal) \<Rightarrow> add_callouts intent personal ms []))"

section \<open>Messages\<close>

definition is_stop :: "char \<Rightarrow> bool" where
  "is_stop c = List.member '',;.!'' c"

fun merge_one :: "callout \<Rightarrow> callout list \<Rightarrow> callout list" where
  "merge_one c [] = [c]"
| "merge_one c (d # ds) = (if co_Duty d = co_Duty c then c # ds else d # merge_one c ds)"

definition merge :: "callout list \<Rightarrow> callout list \<Rightarrow> callout list" where
  "merge callouts clause = foldl (\<lambda>acc c. merge_one c acc) callouts clause"

fun segment_loop :: "duty_keywords list \<Rightarrow> string list \<Rightarrow> string list \<Rightarrow> callout list \<Rightarrow> callout list" where
  "segment_loop table clause [] callouts = merge callouts (ParseClause clause table)"
| "segment_loop table clause (word # words) callouts =
     (if word = ''but'' then segment_loop table [] words (merge callouts (ParseClause clause table))
      else segment_loop table (clause @ [word]) words callouts)"

function text_loop :: "duty_keywords list \<Rightarrow> string \<Rightarrow> callout list \<Rightarrow> callout list" where
  "text_loop table text callouts =
     (let segment = takeWhile (\<lambda>c. \<not> is_stop c) text;
          rest = dropWhile (\<lambda>c. \<not> is_stop c) text;
          callouts' = segment_loop table [] (NormalizeWords segment) callouts
      in if rest = [] then callouts' else text_loop table (tl rest) callouts')"
  by pat_completeness auto
termination
proof (relation "measure (\<lambda>(table, text, callouts). length text)", goal_cases)
  case (2 table str callouts segment rest callouts')
  have "length rest \<le> length str" unfolding 2(2) by (rule length_dropWhile_le)
  then show ?case using 2(4) by (cases rest) auto
qed simp

declare text_loop.simps [simp del]

definition ParseCallouts :: "string \<Rightarrow> duty_keywords list \<Rightarrow> callout list" where
  "ParseCallouts text table =
     (if List.member text (CHR ''?'') then [] else text_loop table text [])"

section \<open>Claims\<close>

record claim_entry =
  ce_Owner :: u64
  ce_ClaimedAtMs :: u64

type_synonym claims = "(string, claim_entry) omap"

definition Claims_Claim :: "string \<Rightarrow> u64 \<Rightarrow> u64 \<Rightarrow> claims \<Rightarrow> claims" where
  "Claims_Claim duty owner atMs m = om_put duty \<lparr>ce_Owner = owner, ce_ClaimedAtMs = atMs\<rparr> m"

definition Claims_Release :: "string \<Rightarrow> claims \<Rightarrow> claims \<times> bool" where
  "Claims_Release duty m = (om_erase duty m, om_get m duty \<noteq> None)"

definition Claims_Owner :: "string \<Rightarrow> claims \<Rightarrow> u64" where
  "Claims_Owner duty m = (case om_get m duty of None \<Rightarrow> 0 | Some e \<Rightarrow> ce_Owner e)"

definition Claims_IsClaimed :: "string \<Rightarrow> claims \<Rightarrow> bool" where
  "Claims_IsClaimed duty m \<longleftrightarrow> om_get m duty \<noteq> None"

definition Claims_Apply :: "callout \<Rightarrow> u64 \<Rightarrow> u64 \<Rightarrow> claims \<Rightarrow> claims \<times> bool" where
  "Claims_Apply c speaker atMs m =
     (if co_Intent c = Release then
        (if co_Personal c \<and> Claims_Owner (co_Duty c) m \<noteq> speaker then (m, False)
         else Claims_Release (co_Duty c) m)
      else (case om_get m (co_Duty c) of
              Some e \<Rightarrow> if ce_Owner e = speaker then (m, False)
                        else (Claims_Claim (co_Duty c) speaker atMs m, True)
            | None \<Rightarrow> (Claims_Claim (co_Duty c) speaker atMs m, True)))"

fun Claims_ReleaseAllOwnedBy :: "u64 \<Rightarrow> claims \<Rightarrow> claims \<times> nat" where
  "Claims_ReleaseAllOwnedBy owner [] = ([], 0)"
| "Claims_ReleaseAllOwnedBy owner ((d, e) # m) =
     (case Claims_ReleaseAllOwnedBy owner m of
        (m', released) \<Rightarrow> if ce_Owner e = owner then (m', released + 1) else ((d, e) # m', released))"

definition Claims_Empty :: "claims \<Rightarrow> bool" where
  "Claims_Empty m \<longleftrightarrow> m = []"

section \<open>Words are canonical\<close>

definition clean :: "string \<Rightarrow> bool" where
  "clean w \<longleftrightarrow> (\<forall>c \<in> set w. isalnum c \<and> tolower c = c)"

lemma of_char_of_nat: "n < 256 \<Longrightarrow> of_char (char_of n :: char) = (n :: nat)"
  by simp

lemma tolower_alnum: "isalnum c \<Longrightarrow> isalnum (tolower c) \<and> tolower (tolower c) = tolower c"
  by (auto simp: isalnum_def tolower_def Let_def)

lemma alnum_not_special: "isalnum c \<Longrightarrow> c \<noteq> CHR 0x27 \<and> \<not> curly c cs"
  by (auto simp: isalnum_def curly_def Let_def)

lemma normalize_loop_clean:
  "clean word \<Longrightarrow> w \<in> set (normalize_loop word str) \<Longrightarrow> w \<noteq> [] \<and> clean w"
proof (induction word str rule: normalize_loop.induct)
  case (1 word)
  then show ?case by (auto split: if_splits)
next
  case (2 word c cs)
  have ext: "isalnum c \<Longrightarrow> clean (word @ [tolower c])"
    using "2.prems"(1) tolower_alnum by (auto simp: clean_def)
  have nil: "clean []" by (simp add: clean_def)
  consider "c = CHR 0x27" | "c \<noteq> CHR 0x27" "curly c cs" | "c \<noteq> CHR 0x27" "\<not> curly c cs" "isalnum c"
    | "c \<noteq> CHR 0x27" "\<not> curly c cs" "\<not> isalnum c" by blast
  then show ?case
  proof cases
    case 1
    then show ?thesis using "2.IH"(1) "2.prems" by simp
  next
    case 2
    then show ?thesis using "2.IH"(2) "2.prems" by simp
  next
    case 3
    then show ?thesis using "2.IH"(3) "2.prems" ext by simp
  next
    case 4
    then show ?thesis using "2.IH"(4,5) "2.prems" nil by (cases "word = []") auto
  qed
qed

lemma normalize_clean_prefix:
  "clean w \<Longrightarrow> normalize_loop acc (w @ s) = normalize_loop (acc @ w) s"
proof (induction w arbitrary: acc)
  case (Cons c w)
  then have "isalnum c" "tolower c = c" "clean w" by (auto simp: clean_def)
  with Cons.IH [of "acc @ [c]"] alnum_not_special [of c "w @ s"] show ?case by simp
qed simp

fun join_words :: "string list \<Rightarrow> string" where
  "join_words [] = []"
| "join_words [w] = w"
| "join_words (w # v # ws) = w @ CHR '' '' # join_words (v # ws)"

lemma normalize_space: "w \<noteq> [] \<Longrightarrow> normalize_loop w (CHR '' '' # s) = w # normalize_loop [] s"
  by (simp add: curly_def isalnum_def)

lemma normalize_join:
  "\<forall>w \<in> set ws. w \<noteq> [] \<and> clean w \<Longrightarrow> NormalizeWords (join_words ws) = ws"
proof (induction ws rule: join_words.induct)
  case 1
  then show ?case by (simp add: NormalizeWords_def)
next
  case (2 w)
  then show ?case using normalize_clean_prefix [of w "[]" "[]"] by (simp add: NormalizeWords_def)
next
  case (3 w v ws)
  then show ?case
    using normalize_clean_prefix [of w "[]" "CHR '' '' # join_words (v # ws)"] normalize_space [of w]
    by (simp add: NormalizeWords_def del: normalize_loop.simps)
qed

text \<open>
  C37: \<^verbatim>\<open>NormalizeWords\<close> yields canonical words: non-empty, alphanumeric and lower case; and
  normalizing them again, written with spaces between, gives the same words, so no later stage of
  the parser depends on how a message was punctuated or capitalised.
\<close>

theorem NormalizeWords_canonical:
  "(\<forall>w \<in> set (NormalizeWords t). w \<noteq> [] \<and> (\<forall>c \<in> set w. isalnum c \<and> tolower c = c)) \<and>
   NormalizeWords (join_words (NormalizeWords t)) = NormalizeWords t"
proof -
  have "\<forall>w \<in> set (NormalizeWords t). w \<noteq> [] \<and> clean w"
    unfolding NormalizeWords_def using normalize_loop_clean [of "[]" _ t] by (simp add: clean_def)
  with normalize_join show ?thesis unfolding clean_def by blast
qed

theorem NormalizeWords_canonical_witness:
  "tolower (hd (hd (NormalizeWords ''I'll do CHAINS!''))) = CHR ''i'' \<and>
   NormalizeWords (join_words [''ill'', ''do'', ''chains'']) = [''ill'', ''do'', ''chains'']"
proof -
  have words: "NormalizeWords ''I'll do CHAINS!'' = [''ill'', ''do'', ''chains'']" by code_simp
  with NormalizeWords_canonical [of "''I'll do CHAINS!''"] show ?thesis by simp
qed

section \<open>Mentions are real and do not overlap\<close>















section \<open>Messages: the last clause wins\<close>

definition lookup :: "string \<Rightarrow> callout list \<Rightarrow> callout option" where
  "lookup d cs = find (\<lambda>c. co_Duty c = d) cs"

lemma lookup_merge_one: "lookup d (merge_one c cs) = (if co_Duty c = d then Some c else lookup d cs)"
  by (induction c cs rule: merge_one.induct) (auto simp: lookup_def)

lemma merge_one_duties: "set (map co_Duty (merge_one c cs)) = insert (co_Duty c) (set (map co_Duty cs))"
  by (induction c cs rule: merge_one.induct) auto

lemma merge_one_distinct: "distinct (map co_Duty cs) \<Longrightarrow> distinct (map co_Duty (merge_one c cs))"
proof (induction c cs rule: merge_one.induct)
  case (2 c d ds)
  then show ?case using merge_one_duties [of c ds] by auto
qed simp

lemma lookup_merge: "lookup d (merge cs cl) = (case lookup d (rev cl) of None \<Rightarrow> lookup d cs | Some c \<Rightarrow> Some c)"
  by (induction cl rule: rev_induct) (simp_all add: merge_def lookup_merge_one, simp_all add: lookup_def)

lemma merge_distinct: "distinct (map co_Duty cs) \<Longrightarrow> distinct (map co_Duty (merge cs cl))"
  by (induction cl rule: rev_induct) (simp_all add: merge_def merge_one_distinct)

lemma merge_append: "merge (merge cs a) b = merge cs (a @ b)"
  by (simp add: merge_def)

text \<open>The clauses of a message, as word lists in the order they are written.\<close>

fun split_but :: "string list \<Rightarrow> string list \<Rightarrow> string list list" where
  "split_but clause [] = [clause]"
| "split_but clause (w # ws) = (if w = ''but'' then clause # split_but [] ws else split_but (clause @ [w]) ws)"

function segments :: "string \<Rightarrow> string list" where
  "segments s = takeWhile (\<lambda>c. \<not> is_stop c) s #
     (if dropWhile (\<lambda>c. \<not> is_stop c) s = [] then [] else segments (tl (dropWhile (\<lambda>c. \<not> is_stop c) s)))"
  by pat_completeness auto
termination
proof (relation "measure length", goal_cases)
  case (2 s)
  have "length (dropWhile (\<lambda>c. \<not> is_stop c) s) \<le> length s" by (rule length_dropWhile_le)
  then show ?case using 2 by (cases "dropWhile (\<lambda>c. \<not> is_stop c) s") auto
qed simp

declare segments.simps [simp del]

definition clauses :: "string \<Rightarrow> string list list" where
  "clauses s = concat (map (\<lambda>seg. split_but [] (NormalizeWords seg)) (segments s))"

lemma segment_loop_merge:
  "segment_loop table clause ws cs = merge cs (concat (map (\<lambda>cl. ParseClause cl table) (split_but clause ws)))"
  by (induction table clause ws cs rule: segment_loop.induct) (simp_all add: merge_append)

lemma text_loop_merge:
  "text_loop table s cs = merge cs (concat (map (\<lambda>cl. ParseClause cl table) (clauses s)))"
proof (induction table s cs rule: text_loop.induct)
  case (1 table s cs)
  let ?rest = "dropWhile (\<lambda>c. \<not> is_stop c) s"
  let ?seg = "takeWhile (\<lambda>c. \<not> is_stop c) s"
  have step: "text_loop table s cs = (let cs' = merge cs (concat (map (\<lambda>cl. ParseClause cl table) (split_but [] (NormalizeWords ?seg))))
      in if ?rest = [] then cs' else text_loop table (tl ?rest) cs')"
    by (subst text_loop.simps) (simp add: Let_def segment_loop_merge)
  have cl: "clauses s = split_but [] (NormalizeWords ?seg) @ (if ?rest = [] then [] else clauses (tl ?rest))"
    unfolding clauses_def by (subst segments.simps) simp
  show ?case
  proof (cases "?rest = []")
    case True
    then show ?thesis unfolding step cl by simp
  next
    case False
    from "1.IH" [OF refl refl refl False]
    show ?thesis unfolding step cl using False by (auto simp: Let_def merge_append segment_loop_merge)
  qed
qed

text \<open>
  a message means what its clauses say, the last one first: a question mark anywhere silences
  it; otherwise the callouts have distinct duties, and the callout for a duty is the one of the last
  clause that yields one for it (clauses end at \<^verbatim>\<open>, ; . !\<close> and \<^verbatim>\<open>but\<close>).
\<close>

theorem ParseCallouts_last_clause_wins:
  "distinct (map co_Duty (ParseCallouts s table)) \<and>
   lookup d (ParseCallouts s table) =
     (if CHR ''?'' \<in> set s then None
      else lookup d (rev (concat (map (\<lambda>cl. ParseClause cl table) (clauses s)))))"
proof -
  have empty: "lookup d [] = None" by (simp add: lookup_def)
  show ?thesis
    using merge_distinct [of "[]"]
    by (auto simp: ParseCallouts_def text_loop_merge lookup_merge empty split: option.splits)
qed

section \<open>Claims\<close>

datatype claim_op =
    CApply callout u64 u64
  | CLeave u64

primrec claim_step :: "claims \<Rightarrow> claim_op \<Rightarrow> claims" where
  "claim_step m (CApply c speaker t) = fst (Claims_Apply c speaker t m)"
| "claim_step m (CLeave owner) = fst (Claims_ReleaseAllOwnedBy owner m)"

lemma ReleaseAll_filter:
  "Claims_ReleaseAllOwnedBy owner m =
     (filter (\<lambda>(d, e). ce_Owner e \<noteq> owner) m, length (filter (\<lambda>(d, e). ce_Owner e = owner) m))"
  by (induction m) (auto split: prod.splits)

lemma om_ok_filter: "om_ok m \<Longrightarrow> om_ok (filter P m)"
  by (induction m) (auto simp: om_ok_Cons split: prod.splits)

lemma om_get_filter:
  "om_ok m \<Longrightarrow> om_get (filter (\<lambda>(d, e). P e) m) d =
     (case om_get m d of None \<Rightarrow> None | Some e \<Rightarrow> if P e then Some e else None)"
proof (induction m)
  case (Cons x m)
  obtain a e where x: "x = (a, e)" by fastforce
  have "om_get (filter (\<lambda>(d, e). P e) m) a = None" if "a = d"
    using Cons.prems x by (auto simp: om_get_None_iff om_ok_Cons)
  with Cons x show ?case by (auto simp: om_get_def om_ok_Cons)
qed simp

lemma claim_step_ok: "om_ok m \<Longrightarrow> om_ok (claim_step m a)"
  by (cases a) (auto simp: Claims_Apply_def Claims_Release_def Claims_Claim_def ReleaseAll_filter om_ok_filter
      split: option.splits)

interpretation claims: op_machine "[]" claim_step om_ok
  by unfold_locales (simp, rule claim_step_ok)

text \<open>
  the law of one callout, after any history. \<^verbatim>\<open>Apply\<close> reports a change exactly if the table
  changed; it touches no other duty; a claim always ends with the speaker as owner, taking the duty
  from whoever had it; a general release always frees the duty; a personal one frees it only from
  the speaker, so nobody loses a duty by what another says about himself.
\<close>

theorem Claims_Apply_law:
  assumes "m = foldl claim_step [] ops" and "Claims_Apply c speaker t m = (m', changed)"
  shows "changed = (m' \<noteq> m) \<and>
    (\<forall>d. d \<noteq> co_Duty c \<longrightarrow> om_get m' d = om_get m d) \<and>
    (if co_Intent c = Claim then Claims_IsClaimed (co_Duty c) m' \<and> Claims_Owner (co_Duty c) m' = speaker
     else if \<not> co_Personal c \<or> Claims_Owner (co_Duty c) m = speaker then \<not> Claims_IsClaimed (co_Duty c) m'
     else m' = m)"
proof -
  have ok: "om_ok m" unfolding assms(1) by (rule claims.run_inv)
  have put: "om_put d e m \<noteq> m" if "om_get m d \<noteq> Some e" for d e
    using that om_get_put [of d e m d] by metis
  have owned: "ce_Owner e = speaker"
    if "om_get m d = Some e" "om_put d \<lparr>ce_Owner = speaker, ce_ClaimedAtMs = t\<rparr> m = m" for d e
    using that put [of d "\<lparr>ce_Owner = speaker, ce_ClaimedAtMs = t\<rparr>"] by (metis claim_entry.select_convs(1) option.inject)
  have fresh: "om_put d e m \<noteq> m" if "om_get m d = None" for d e
    using put [of d e] that by simp
  have erase: "om_erase d m = m \<longleftrightarrow> om_get m d = None" for d
    using om_get_erase [of d m d] length_om_erase [OF ok, of d]
    by (force simp: om_erase_def om_get_None_iff filter_id_conv)
  show ?thesis
  proof (cases "co_Intent c")
    case Release
    then show ?thesis using assms(2) erase [of "co_Duty c"]
      by (auto simp: Claims_Apply_def Claims_Release_def Claims_IsClaimed_def split: if_splits)
  next
    case Claim
    then show ?thesis using assms(2) owned fresh
      by (auto simp: Claims_Apply_def Claims_Claim_def Claims_IsClaimed_def Claims_Owner_def
          split: option.splits if_splits)
  qed
qed

definition sample_callout :: "callout_intent \<Rightarrow> bool \<Rightarrow> callout" where
  "sample_callout i p = \<lparr>co_Duty = ''chains'', co_Intent = i, co_Personal = p\<rparr>"

theorem Claims_Apply_law_witness:
  "Claims_Owner ''chains'' (fst (Claims_Apply (sample_callout Release True) 8 20
     (foldl claim_step [] [CApply (sample_callout Claim False) 7 10]))) = 7"
proof -
  let ?m = "foldl claim_step [] [CApply (sample_callout Claim False) 7 10]"
  obtain m' ch where a: "Claims_Apply (sample_callout Release True) 8 20 ?m = (m', ch)" by fastforce
  have own: "Claims_Owner ''chains'' ?m = 7" by code_simp
  from Claims_Apply_law [OF refl a] own have "m' = ?m" by (simp add: sample_callout_def)
  with a own show ?thesis by simp
qed

text \<open>
  a member who leaves gives up exactly what it claimed: after any history
  \<^verbatim>\<open>ReleaseAllOwnedBy\<close> frees every duty of the owner, returns how many those were, and keeps
  every other claim as it was.
\<close>

theorem Claims_leave_law:
  assumes "m = foldl claim_step [] ops" and "Claims_ReleaseAllOwnedBy owner m = (m', released)"
  shows "(\<forall>d. om_get m' d = (if Claims_IsClaimed d m \<and> Claims_Owner d m = owner then None else om_get m d)) \<and>
    released = length m - length m' \<and> released = card {d. Claims_IsClaimed d m \<and> Claims_Owner d m = owner}"
proof -
  have ok: "om_ok m" unfolding assms(1) by (rule claims.run_inv)
  have m': "m' = filter (\<lambda>(d, e). ce_Owner e \<noteq> owner) m"
    and released: "released = length (filter (\<lambda>(d, e). ce_Owner e = owner) m)"
    using assms(2) by (auto simp: ReleaseAll_filter)
  have "length m = released + length m'"
    using sum_length_filter_compl [of "\<lambda>(d, e). ce_Owner e = owner" m] unfolding m' released
    by (simp add: case_prod_unfold)
  moreover have "released = card {d. Claims_IsClaimed d m \<and> Claims_Owner d m = owner}"
  proof -
    let ?F = "filter (\<lambda>(d, e). ce_Owner e = owner) m"
    have "distinct (map fst ?F)" using om_ok_distinct [OF om_ok_filter [OF ok]] .
    then have "card (set (map fst ?F)) = length ?F" by (metis distinct_card length_map)
    moreover have "set (map fst ?F) = {d. Claims_IsClaimed d m \<and> Claims_Owner d m = owner}"
    proof (rule set_eqI)
      fix d
      have "d \<in> set (map fst ?F) \<longleftrightarrow> (\<exists>e. om_get m d = Some e \<and> ce_Owner e = owner)"
        by (auto simp: om_ok_get_iff [OF ok] image_iff)
      then show "d \<in> set (map fst ?F) \<longleftrightarrow> d \<in> {d. Claims_IsClaimed d m \<and> Claims_Owner d m = owner}"
        by (auto simp: Claims_IsClaimed_def Claims_Owner_def split: option.splits)
    qed
    ultimately show ?thesis unfolding released by metis
  qed
  moreover have "om_get m' d = (if Claims_IsClaimed d m \<and> Claims_Owner d m = owner then None else om_get m d)" for d
    unfolding m' om_get_filter [OF ok]
    by (auto simp: Claims_IsClaimed_def Claims_Owner_def split: option.splits)
  ultimately show ?thesis by simp
qed

theorem Claims_leave_law_witness:
  "\<not> Claims_IsClaimed ''chains'' (fst (Claims_ReleaseAllOwnedBy 7
     (foldl claim_step [] [CApply (sample_callout Claim False) 7 10])))"
proof -
  let ?m = "foldl claim_step [] [CApply (sample_callout Claim False) 7 10]"
  obtain m' n where a: "Claims_ReleaseAllOwnedBy 7 ?m = (m', n)" by fastforce
  have "Claims_IsClaimed ''chains'' ?m \<and> Claims_Owner ''chains'' ?m = 7" by code_simp
  with Claims_leave_law [OF refl a] have "om_get m' ''chains'' = None" by simp
  with a show ?thesis by (simp add: Claims_IsClaimed_def)
qed

end
