(* ===== verification/Play_Session.thy ===== *)
theory Play_Session
  imports Duty_Claims
begin

text \<open>
  Human play sessions: the pull timer of a raid leader (\<^verbatim>\<open>server/game/Bots/BotPlayPullTimer.h\<close>)
  and the choice of the roster slots that humans replace
  (\<^verbatim>\<open>server/game/Bots/BotPlaySession.h\<close>). Of the session record the fields that these functions
  read or write are modelled. Times are 64-bit milliseconds, sums wrap.
\<close>

section \<open>The pull timer\<close>

definition MaxSeconds :: u32 where
  "MaxSeconds = 300"

definition ReleaseWindowMs :: u64 where
  "ReleaseWindowMs = 30000"

definition Running :: "u64 \<Rightarrow> u64 \<Rightarrow> bool" where
  "Running pullAt now \<longleftrightarrow> pullAt \<noteq> 0 \<and> now < pullAt"

definition Released :: "u64 \<Rightarrow> u64 \<Rightarrow> bool" where
  "Released pullAt now \<longleftrightarrow> pullAt \<noteq> 0 \<and> pullAt \<le> now \<and> now < pullAt + ReleaseWindowMs"

record play_session =
  ps_PullAtMs :: u64
  ps_BossEngaged :: bool
  ps_BossesDoneAtEngage :: u32

definition ObserveEncounter ::
  "bool \<Rightarrow> bool \<Rightarrow> u32 \<Rightarrow> u64 \<Rightarrow> play_session \<Rightarrow> play_session \<times> string" where
  "ObserveEncounter observed inProgress bossesDone now s =
     (if \<not> observed \<or> inProgress = ps_BossEngaged s then (s, [])
      else
        (let s1 = s\<lparr>ps_BossEngaged := inProgress\<rparr> in
         if \<not> inProgress then
           (let s2 = (if ps_PullAtMs s1 \<noteq> 0 \<and> ps_PullAtMs s1 \<le> now then s1\<lparr>ps_PullAtMs := 0\<rparr> else s1)
            in if ps_BossesDoneAtEngage s2 < bossesDone then (s2, ''boss_killed'')
               else if Running (ps_PullAtMs s2) now then (s2, ''boss_reset:pull_timer_running'')
               else (s2, ''boss_reset:start_a_new_pull_timer''))
         else
           (let s2 = s1\<lparr>ps_BossesDoneAtEngage := bossesDone\<rparr>;
                how = (if Released (ps_PullAtMs s2) now then ''pull_timer''
                       else if Running (ps_PullAtMs s2) now then ''before_timer''
                       else if ps_PullAtMs s2 \<noteq> 0 then ''after_window'' else ''without_timer'')
            in (s2\<lparr>ps_PullAtMs := 0\<rparr>, ''boss_engaged:'' @ how))))"

section \<open>Signals\<close>

record signal =
  sg_Cancel :: bool
  sg_Seconds :: u32

fun split_loop :: "(char \<Rightarrow> bool) \<Rightarrow> string \<Rightarrow> string \<Rightarrow> string list" where
  "split_loop sep token [] = (if token \<noteq> [] then [token] else [])"
| "split_loop sep token (c # cs) =
     (if sep c then (if token \<noteq> [] then token # split_loop sep [] cs else split_loop sep [] cs)
      else split_loop sep (token @ [c]) cs)"

definition Split :: "string \<Rightarrow> (char \<Rightarrow> bool) \<Rightarrow> string list" where
  "Split txt sep = split_loop sep [] txt"

definition isdigit :: "char \<Rightarrow> bool" where
  "isdigit c \<longleftrightarrow> 48 \<le> (of_char c :: nat) \<and> (of_char c :: nat) \<le> 57"

fun number_loop :: "u32 \<Rightarrow> string \<Rightarrow> u32 option" where
  "number_loop value [] = Some value"
| "number_loop value (c # cs) =
     (if \<not> isdigit c then None else number_loop (value * 10 + of_nat (of_char c - 48)) cs)"

definition Number :: "string \<Rightarrow> u32 option" where
  "Number token = (if token = [] \<or> 4 < length token then None else number_loop 0 token)"

definition FromSeconds :: "u32 \<Rightarrow> signal option" where
  "FromSeconds seconds =
     (if MaxSeconds < seconds then None
      else Some \<lparr>sg_Cancel = (seconds = 0), sg_Seconds = seconds\<rparr>)"

text \<open>The loops over the fields of a sync message, for the fields from the current one on.\<close>

fun dbm_loop :: "string list \<Rightarrow> signal option" where
  "dbm_loop (f # g # fs) =
     (let pullTimer = (f = ''PT'');
          pizzaPull = (f = ''U'' \<and> (case fs of [] \<Rightarrow> False | h # _ \<Rightarrow> take 4 h = ''Pull''))
      in if pullTimer \<or> pizzaPull
         then (case Number g of Some seconds \<Rightarrow> FromSeconds seconds | None \<Rightarrow> dbm_loop (g # fs))
         else dbm_loop (g # fs))"
| "dbm_loop fs = None"

definition ParseDbm :: "string \<Rightarrow> string \<Rightarrow> signal option" where
  "ParseDbm prefix message =
     (if prefix \<noteq> ''D4'' \<and> prefix \<noteq> ''D5'' then None
      else dbm_loop (Split message (\<lambda>c. c = CHR 0x09)))"

fun bigwigs_loop :: "string list \<Rightarrow> nat \<Rightarrow> string list \<Rightarrow> signal option" where
  "bigwigs_loop tokens index (f # g # fs) =
     (let oldSync = (f = ''BWPull'');
          newSync = (index = 1 \<and> hd tokens = ''P'' \<and> f = ''Pull'')
      in if oldSync \<or> newSync
         then (case Number g of Some seconds \<Rightarrow> FromSeconds seconds
               | None \<Rightarrow> bigwigs_loop tokens (index + 1) (g # fs))
         else bigwigs_loop tokens (index + 1) (g # fs))"
| "bigwigs_loop tokens index fs = None"

definition ParseBigWigs :: "string \<Rightarrow> string \<Rightarrow> signal option" where
  "ParseBigWigs prefix message =
     (if prefix \<noteq> ''BigWigs'' then None
      else (let tokens = Split message (\<lambda>c. \<not> isalnum c) in bigwigs_loop tokens 0 tokens))"

definition ParseAddon :: "string \<Rightarrow> string \<Rightarrow> signal option" where
  "ParseAddon prefix message =
     (case ParseDbm prefix message of Some s \<Rightarrow> Some s | None \<Rightarrow> ParseBigWigs prefix message)"

definition isSecondsUnit :: "string \<Rightarrow> bool" where
  "isSecondsUnit w = IsOneOf w [''s'', ''sec'', ''secs'', ''second'', ''seconds'']"

definition holds :: "string \<Rightarrow> bool" where
  "holds w = IsOneOf w [''cancel'', ''stop'', ''no'', ''dont'', ''don'', ''not'', ''never'', ''cant'', ''wait'', ''hold'']"

text \<open>One word of a chat call: \<open>Inr\<close> the verdict, \<open>Inl\<close> to go on with the next word.\<close>

definition chat_word :: "string list \<Rightarrow> nat \<Rightarrow> unit + signal option" where
  "chat_word words index =
     (if words ! index \<noteq> ''pull'' \<and> words ! index \<noteq> ''pulling'' then Inl ()
      else
        (let n = length words;
             cancelBefore = ((0 < index \<and> holds (words ! (index - 1))) \<or> (1 < index \<and> holds (words ! (index - 2))));
             cancelAfter = (index + 1 < n \<and> IsOneOf (words ! (index + 1)) [''cancelled'', ''canceled'', ''cancel''])
         in if cancelBefore \<or> cancelAfter then Inr (Some \<lparr>sg_Cancel = True, sg_Seconds = 0\<rparr>)
            else
              (let next = (if index + 1 < n \<and> words ! (index + 1) = ''in'' then index + 2 else index + 1) in
               if next < n then
                 (if words ! next = ''now''
                  then Inr (if next + 1 = n then Some \<lparr>sg_Cancel = False, sg_Seconds = 0\<rparr> else None)
                  else
                    (let seconds = Number (words ! next);
                         endsCall = (next + 1 = n \<or> isSecondsUnit (words ! (next + 1)))
                     in case seconds of
                          Some v \<Rightarrow> if endsCall \<and> v \<le> MaxSeconds
                                    then Inr (Some \<lparr>sg_Cancel = False, sg_Seconds = v\<rparr>) else Inl ()
                        | None \<Rightarrow> Inl ()))
               else Inl ())))"

function chat_loop :: "string list \<Rightarrow> nat \<Rightarrow> signal option" where
  "chat_loop words index =
     (if length words \<le> index then None
      else (case chat_word words index of Inr r \<Rightarrow> r | Inl _ \<Rightarrow> chat_loop words (index + 1)))"
  by pat_completeness auto
termination
  by (relation "measure (\<lambda>(words, index). length words - index)") auto

declare chat_loop.simps [simp del]

definition ParseChat :: "string \<Rightarrow> signal option" where
  "ParseChat txt =
     (if CHR ''?'' \<in> set txt then None
      else (let words = NormalizeWords txt in
            if 8 < length words then None else chat_loop words 0))"

section \<open>Roster slots\<close>

record template_slot =
  ts_SlotId :: string
  ts_Role :: string
  ts_ClassSpec :: string

definition DisruptionOrder :: "string \<Rightarrow> string list" where
  "DisruptionOrder scenario =
     (if scenario = ''blackwing_descent_10n_magmaw_diagnostic''
      then [''raid_dps_5'', ''raid_dps_3'', ''raid_dps_1'', ''raid_dps_2'', ''raid_dps_4'', ''raid_tank_1'',
        ''raid_healer_3'', ''raid_healer_1'', ''raid_healer_2'', ''raid_tank_2'']
      else [])"

text \<open>The slots by address, that is by position in the roster.\<close>

definition ordered_slots :: "template_slot list \<Rightarrow> string list \<Rightarrow> nat list" where
  "ordered_slots roster order =
     (let listed = concat (map (\<lambda>sid. filter (\<lambda>i. ts_SlotId (roster ! i) = sid) [0..<length roster]) order)
      in listed @ filter (\<lambda>i. i \<notin> set listed) [0..<length roster])"

definition pick :: "template_slot list \<Rightarrow> nat list \<Rightarrow> string list \<Rightarrow> (template_slot \<Rightarrow> bool) \<Rightarrow> string" where
  "pick roster ordered taken P =
     (case find (\<lambda>i. ts_SlotId (roster ! i) \<notin> set taken \<and> P (roster ! i)) ordered of
        Some i \<Rightarrow> ts_SlotId (roster ! i) | None \<Rightarrow> [])"

definition pick_for_role :: "template_slot list \<Rightarrow> nat list \<Rightarrow> string list \<Rightarrow> string \<Rightarrow> string" where
  "pick_for_role roster ordered taken role =
     (let a = pick roster ordered taken (\<lambda>s. ts_Role s = role);
          b = (if a = [] then pick roster ordered taken (\<lambda>s. ts_Role s = ''dps'') else a)
      in if b = [] then pick roster ordered taken (\<lambda>s. True) else b)"

text \<open>The loop over the roles; the slots chosen so far are also the taken ones.\<close>

fun choose_loop :: "template_slot list \<Rightarrow> nat list \<Rightarrow> string list \<Rightarrow> string list \<Rightarrow> string + string list" where
  "choose_loop roster ordered [] chosen = Inr chosen"
| "choose_loop roster ordered (role # roles) chosen =
     (let sid = pick_for_role roster ordered chosen role
      in if sid = [] then Inl ''play_no_free_roster_slot''
         else choose_loop roster ordered roles (chosen @ [sid]))"

definition ChooseExternalSlots :: "template_slot list \<Rightarrow> string list \<Rightarrow> string list \<Rightarrow> string + string list" where
  "ChooseExternalSlots roster humanRoles order =
     (if humanRoles = [] then Inr []
      else if length roster \<le> length humanRoles then Inl ''play_requires_at_least_one_bot''
      else choose_loop roster (ordered_slots roster order) humanRoles [])"

section \<open>The encounter is a two-state machine\<close>

type_synonym encounter_sample = "bool \<times> bool \<times> u32 \<times> u64"

fun observe_run :: "encounter_sample list \<Rightarrow> play_session \<Rightarrow> play_session \<times> string list" where
  "observe_run [] s = (s, [])"
| "observe_run ((obs, prog, done, now) # xs) s =
     (case ObserveEncounter obs prog done now s of
        (s1, e) \<Rightarrow> (case observe_run xs s1 of (s2, es) \<Rightarrow> (s2, (if e = [] then es else e # es))))"

definition engage_event :: "string \<Rightarrow> bool" where
  "engage_event e \<longleftrightarrow> take 13 e = ''boss_engaged:''"

definition end_event :: "string \<Rightarrow> bool" where
  "end_event e \<longleftrightarrow> e = ''boss_killed'' \<or> e = ''boss_reset:pull_timer_running'' \<or> e = ''boss_reset:start_a_new_pull_timer''"

fun alternating :: "bool \<Rightarrow> string list \<Rightarrow> bool" where
  "alternating engaged [] = True"
| "alternating engaged (e # es) = ((if engaged then end_event e else engage_event e) \<and> alternating (\<not> engaged) es)"

lemma ObserveEncounter_cases:
  assumes "ObserveEncounter obs prog done now s = (s', e)"
  shows "(e = [] \<and> s' = s \<and> (obs \<longrightarrow> prog = ps_BossEngaged s)) \<or>
    (e \<noteq> [] \<and> obs \<and> ps_BossEngaged s' = (\<not> ps_BossEngaged s) \<and> prog = ps_BossEngaged s' \<and>
      (if ps_BossEngaged s then end_event e \<and> ps_BossesDoneAtEngage s' = ps_BossesDoneAtEngage s
         \<and> (e = ''boss_killed'') = (ps_BossesDoneAtEngage s < done)
         \<and> ps_PullAtMs s' = (if Running (ps_PullAtMs s) now then ps_PullAtMs s else 0)
       else engage_event e \<and> ps_PullAtMs s' = 0 \<and> ps_BossesDoneAtEngage s' = done))"
  using assms by (auto simp: ObserveEncounter_def Let_def engage_event_def end_event_def Running_def not_less
      split: if_splits)

text \<open>
  the status a leader reads is a sequence of alternating edges: over any run of observations the
  reported events alternate between an engagement and its end; unobserved refreshes report nothing;
  an end reads as a kill exactly if more bosses are done than at its own engagement, and the timer
  after an engagement is spent, after an end it survives only if it is still counting down.
\<close>

theorem Encounter_edges_alternate:
  assumes "observe_run xs s = (s', es)"
  shows "alternating (ps_BossEngaged s) es \<and>
    ps_BossEngaged s' = (ps_BossEngaged s \<noteq> odd (length es)) \<and>
    length es \<le> length (filter (\<lambda>(obs, prog, done, now). obs) xs) \<and>
    (\<forall>obs prog done now s2 e. ObserveEncounter obs prog done now s' = (s2, e) \<and> e \<noteq> [] \<longrightarrow>
       (if ps_BossEngaged s' then (e = ''boss_killed'') = (ps_BossesDoneAtEngage s' < done)
          \<and> ps_PullAtMs s2 = (if Running (ps_PullAtMs s') now then ps_PullAtMs s' else 0)
        else ps_PullAtMs s2 = 0 \<and> ps_BossesDoneAtEngage s2 = done))"
proof -
  have "alternating (ps_BossEngaged s) es \<and> ps_BossEngaged s' = (ps_BossEngaged s \<noteq> odd (length es))
      \<and> length es \<le> length (filter (\<lambda>(obs, prog, done, now). obs) xs)"
    using assms
  proof (induction xs s arbitrary: es rule: observe_run.induct)
    case (2 obs prog dn now xs s)
    obtain s1 e where one: "ObserveEncounter obs prog dn now s = (s1, e)" by fastforce
    obtain es1 where rest: "observe_run xs s1 = (s', es1)" and es: "es = (if e = [] then es1 else e # es1)"
      using "2.prems" one by (auto split: prod.splits)
    note ih = "2.IH" [OF one [symmetric] rest]
    from ObserveEncounter_cases [OF one] show ?case
    proof
      assume "e = [] \<and> s1 = s \<and> (obs \<longrightarrow> prog = ps_BossEngaged s)"
      then show ?thesis using ih es by auto
    next
      assume "e \<noteq> [] \<and> obs \<and> ps_BossEngaged s1 = (\<not> ps_BossEngaged s) \<and> prog = ps_BossEngaged s1 \<and>
        (if ps_BossEngaged s then end_event e \<and> ps_BossesDoneAtEngage s1 = ps_BossesDoneAtEngage s
           \<and> (e = ''boss_killed'') = (ps_BossesDoneAtEngage s < dn)
           \<and> ps_PullAtMs s1 = (if Running (ps_PullAtMs s) now then ps_PullAtMs s else 0)
         else engage_event e \<and> ps_PullAtMs s1 = 0 \<and> ps_BossesDoneAtEngage s1 = dn)"
      then show ?thesis using ih es by (cases "ps_BossEngaged s") auto
    qed
  qed simp
  moreover have "if ps_BossEngaged s' then (e = ''boss_killed'') = (ps_BossesDoneAtEngage s' < dn)
          \<and> ps_PullAtMs s2 = (if Running (ps_PullAtMs s') now then ps_PullAtMs s' else 0)
        else ps_PullAtMs s2 = 0 \<and> ps_BossesDoneAtEngage s2 = dn"
    if "ObserveEncounter obs prog dn now s' = (s2, e)" "e \<noteq> []" for obs prog dn now s2 e
    using ObserveEncounter_cases [OF that(1)] that(2) by (auto split: if_splits)
  ultimately show ?thesis by blast
qed

theorem Encounter_edges_alternate_witness:
  "alternating False (snd (observe_run
     [(True, True, 1, 5000), (False, False, 9, 6000), (True, False, 2, 7000), (True, True, 2, 8000)]
     \<lparr>ps_PullAtMs = 4000, ps_BossEngaged = False, ps_BossesDoneAtEngage = 0\<rparr>))"
proof -
  let ?xs = "[(True, True, 1, 5000), (False, False, 9, 6000), (True, False, 2, 7000), (True, True, 2, 8000)]"
  let ?s = "\<lparr>ps_PullAtMs = 4000, ps_BossEngaged = False, ps_BossesDoneAtEngage = 0\<rparr>"
  obtain s' es where run: "observe_run ?xs ?s = (s', es)" by fastforce
  from Encounter_edges_alternate [OF run] run show ?thesis by simp
qed

section \<open>Signals are bounded\<close>

definition ok_signal :: "signal option \<Rightarrow> bool" where
  "ok_signal so \<longleftrightarrow> (case so of None \<Rightarrow> True
     | Some s \<Rightarrow> sg_Seconds s \<le> MaxSeconds \<and> (sg_Cancel s \<longrightarrow> sg_Seconds s = 0))"

lemma ok_FromSeconds: "ok_signal (FromSeconds n)"
  by (auto simp: ok_signal_def FromSeconds_def not_less)

lemma ok_dbm_loop: "ok_signal (dbm_loop fs)"
proof (induction fs rule: dbm_loop.induct)
  case (1 f g fs)
  then show ?case by (auto simp: Let_def ok_FromSeconds split: option.splits)
qed (simp_all add: ok_signal_def)

lemma ok_bigwigs_loop: "ok_signal (bigwigs_loop tokens index fs)"
proof (induction tokens index fs rule: bigwigs_loop.induct)
  case (1 tokens index f g fs)
  then show ?case by (auto simp: Let_def ok_FromSeconds split: option.splits)
qed (simp_all add: ok_signal_def)

lemma ok_chat_word: "chat_word words index = Inr r \<Longrightarrow> ok_signal r"
  by (auto simp: chat_word_def Let_def ok_signal_def MaxSeconds_def split: if_splits option.splits)

lemma ok_chat_loop: "ok_signal (chat_loop words index)"
proof (induction words index rule: chat_loop.induct)
  case (1 words index)
  then show ?case
    by (subst chat_loop.simps) (auto simp: ok_chat_word ok_signal_def [of None] split: sum.splits)
qed

section \<open>Numbers and how the addons print them\<close>

fun dec_digits :: "nat \<Rightarrow> string" where
  "dec_digits n = (if n < 10 then [char_of (48 + n)] else dec_digits (n div 10) @ [char_of (48 + n mod 10)])"

declare dec_digits.simps [simp del]

lemma number_loop_append:
  "number_loop v (s @ t) = (case number_loop v s of None \<Rightarrow> None | Some v' \<Rightarrow> number_loop v' t)"
  by (induction v s rule: number_loop.induct) auto

lemma digit_char: "n < 10 \<Longrightarrow> isdigit (char_of (48 + n)) \<and> of_char (char_of (48 + n) :: char) = (48 + n :: nat)"
  by (simp add: isdigit_def)

lemma number_dec: "number_loop 0 (dec_digits n) = Some (of_nat n)"
proof (induction n rule: dec_digits.induct)
  case (1 n)
  show ?case
  proof (cases "n < 10")
    case True
    then show ?thesis using digit_char [of n] by (simp add: dec_digits.simps [of n])
  next
    case False
    have "(of_nat n :: u32) = of_nat (n div 10 * 10 + n mod 10)" by (simp only: div_mult_mod_eq)
    then have "of_nat (n div 10) * 10 + of_nat (n mod 10) = (of_nat n :: u32)"
      by (simp only: of_nat_add of_nat_mult of_nat_numeral)
    then show ?thesis using "1.IH" [OF False] False digit_char [of "n mod 10"]
      by (simp add: dec_digits.simps [of n] number_loop_append)
  qed
qed

lemma dec_digits_ne: "dec_digits n \<noteq> []"
  by (subst dec_digits.simps) simp

lemma dec_length: "n < 10 ^ k \<Longrightarrow> 0 < k \<Longrightarrow> length (dec_digits n) \<le> k"
proof (induction n arbitrary: k rule: dec_digits.induct)
  case (1 n)
  show ?case
  proof (cases "n < 10")
    case True
    then show ?thesis using 1 by (simp add: dec_digits.simps [of n])
  next
    case False
    then obtain j where k: "k = Suc j" "0 < j" using "1.prems" by (cases k; cases "k - 1") auto
    then have "n div 10 < 10 ^ j" using "1.prems" by (simp add: div_less_iff_less_mult mult.commute)
    then have "length (dec_digits (n div 10)) \<le> j" using "1.IH" [OF False] k by blast
    then show ?thesis using False k by (simp add: dec_digits.simps [of n])
  qed
qed

lemma dec_digit: "c \<in> set (dec_digits n) \<Longrightarrow> isdigit c"
proof (induction n rule: dec_digits.induct)
  case (1 n)
  then show ?case using digit_char [of n] digit_char [of "n mod 10"]
    by (cases "n < 10") (auto simp: dec_digits.simps [of n])
qed

lemma digit_clean: "isdigit c \<Longrightarrow> isalnum c \<and> tolower c = c \<and> c \<noteq> CHR 0x09 \<and> c \<noteq> CHR ''?''"
  by (auto simp: isdigit_def isalnum_def tolower_def Let_def)

lemma Number_dec: "n \<le> 9999 \<Longrightarrow> Number (dec_digits n) = Some (of_nat n)"
  using dec_length [of n 4] dec_digits_ne [of n] by (simp add: Number_def number_dec)

lemma Number_long: "9999 < n \<Longrightarrow> Number (dec_digits n) = None"
proof -
  assume "9999 < n"
  then have "4 < length (dec_digits n)"
    by (subst dec_digits.simps, subst dec_digits.simps, subst dec_digits.simps, subst dec_digits.simps)
      (use dec_digits_ne in \<open>auto simp: Suc_le_eq\<close>)
  then show ?thesis by (simp add: Number_def)
qed

text \<open>
  C39: every pull signal is honourable: whatever an addon or the raid chat says, a signal asks for at
  most 300 seconds and a cancellation carries no seconds; and a number is read exactly as it is
  written in decimal, up to 9999, longer tokens are no numbers.
\<close>

theorem Pull_signals_bounded:
  "(case ParseAddon prefix message of None \<Rightarrow> True
      | Some s \<Rightarrow> unat (sg_Seconds s) \<le> 300 \<and> (sg_Cancel s \<longrightarrow> sg_Seconds s = 0)) \<and>
   (case ParseChat message of None \<Rightarrow> True
      | Some s \<Rightarrow> unat (sg_Seconds s) \<le> 300 \<and> (sg_Cancel s \<longrightarrow> sg_Seconds s = 0)) \<and>
   (case Number (dec_digits n) of Some v \<Rightarrow> n \<le> 9999 \<and> unat v = n | None \<Rightarrow> 9999 < n)"
proof -
  have le: "sg_Seconds s \<le> MaxSeconds \<Longrightarrow> unat (sg_Seconds s) \<le> 300" for s
    by (simp add: MaxSeconds_def word_le_nat_alt)
  have "ok_signal (ParseAddon prefix message)" "ok_signal (ParseChat message)"
    using ok_dbm_loop ok_bigwigs_loop ok_chat_loop
    by (auto simp: ParseAddon_def ParseDbm_def ParseBigWigs_def ParseChat_def Let_def ok_signal_def [of None]
        split: option.splits) (metis option.simps(5) ok_dbm_loop)+
  moreover have "case Number (dec_digits n) of Some v \<Rightarrow> n \<le> 9999 \<and> unat v = n | None \<Rightarrow> 9999 < n"
    by (cases "n \<le> 9999") (simp_all add: Number_dec Number_long unat_of_nat)
  ultimately show ?thesis using le by (auto simp: ok_signal_def split: option.splits)
qed

theorem Pull_signals_bounded_witness:
  "Number (dec_digits 120) = Some 120"
proof -
  have "case Number (dec_digits 120) of Some v \<Rightarrow> 120 \<le> (9999 :: nat) \<and> unat v = 120 | None \<Rightarrow> 9999 < (120 :: nat)"
    using Pull_signals_bounded [of "''D4''" "[]" 120] by blast
  then show ?thesis
    by (auto split: option.splits simp: word_unat_eq_iff)
qed

section \<open>What the addons send is what is read\<close>

lemma split_plain: "\<forall>c \<in> set w. \<not> sep c \<Longrightarrow> split_loop sep acc (w @ s) = split_loop sep (acc @ w) s"
  by (induction w arbitrary: acc) auto

lemma Split_field: "\<forall>c \<in> set w. \<not> sep c \<Longrightarrow> w \<noteq> [] \<Longrightarrow> sep d \<Longrightarrow> Split (w @ d # s) sep = w # Split s sep"
  using split_plain [of w sep "[]" "d # s"] by (simp add: Split_def)

lemma Split_last: "\<forall>c \<in> set w. \<not> sep c \<Longrightarrow> w \<noteq> [] \<Longrightarrow> Split w sep = [w]"
  using split_plain [of w sep "[]" "[]"] by (simp add: Split_def)

lemma dec_no_tab: "\<forall>c \<in> set (dec_digits n). c \<noteq> CHR 0x09"
  using dec_digit digit_clean by blast

definition dbm_pizza :: "nat \<Rightarrow> string" where
  "dbm_pizza n = ''U'' @ CHR 0x09 # dec_digits n @ CHR 0x09 # ''Pull in''"

definition dbm_pull :: "nat \<Rightarrow> string" where
  "dbm_pull n = ''PT'' @ CHR 0x09 # dec_digits n"

definition raid_warning :: "nat \<Rightarrow> string" where
  "raid_warning n = ''Pull in '' @ dec_digits n @ '' sec''"

lemma Split_pizza: "Split (dbm_pizza n) (\<lambda>c. c = CHR 0x09) = [''U'', dec_digits n, ''Pull in'']"
  unfolding dbm_pizza_def using dec_no_tab [of n] dec_digits_ne [of n]
  using Split_field [of "''U''" "\<lambda>c. c = CHR 0x09" "CHR 0x09" "dec_digits n @ CHR 0x09 # ''Pull in''"]
    Split_field [of "dec_digits n" "\<lambda>c. c = CHR 0x09" "CHR 0x09" "''Pull in''"]
    Split_last [of "''Pull in''" "\<lambda>c. c = CHR 0x09"] by simp

lemma Split_pull: "Split (dbm_pull n) (\<lambda>c. c = CHR 0x09) = [''PT'', dec_digits n]"
  unfolding dbm_pull_def using dec_no_tab [of n] dec_digits_ne [of n]
  using Split_field [of "''PT''" "\<lambda>c. c = CHR 0x09" "CHR 0x09" "dec_digits n"]
    Split_last [of "dec_digits n" "\<lambda>c. c = CHR 0x09"] by simp

lemma FromSeconds_of_nat:
  "n \<le> 9999 \<Longrightarrow> FromSeconds (of_nat n) =
     (if n \<le> 300 then Some \<lparr>sg_Cancel = (n = 0), sg_Seconds = of_nat n\<rparr> else None)"
proof -
  assume n: "n \<le> 9999"
  then have u: "unat (of_nat n :: u32) = n" by (simp add: unat_of_nat)
  have "(of_nat n = (0 :: u32)) = (n = 0)"
  proof
    assume "of_nat n = (0 :: u32)"
    then show "n = 0" using u by simp
  qed simp
  moreover have "(MaxSeconds < of_nat n) = (300 < n)" using u by (simp add: MaxSeconds_def word_less_nat_alt)
  ultimately show ?thesis by (simp add: FromSeconds_def)
qed

lemma words_of_warning: "NormalizeWords (raid_warning n) = [''pull'', ''in'', dec_digits n, ''sec'']"
proof -
  have "clean (dec_digits n)" using dec_digit digit_clean by (auto simp: clean_def)
  then have "normalize_loop [] (dec_digits n @ '' sec'') = normalize_loop (dec_digits n) '' sec''"
    using normalize_clean_prefix [of "dec_digits n" "[]"] by simp
  also have "\<dots> = dec_digits n # normalize_loop [] ''sec''"
    by (rule normalize_space) (rule dec_digits_ne)
  also have "normalize_loop [] ''sec'' = [''sec'']" by code_simp
  finally have tail: "normalize_loop [] (dec_digits n @ '' sec'') = [dec_digits n, ''sec'']" .
  have lower: "tolower (CHR ''P'') = CHR ''p''" "tolower (CHR ''u'') = CHR ''u''" "tolower (CHR ''l'') = CHR ''l''"
    "tolower (CHR ''i'') = CHR ''i''" "tolower (CHR ''n'') = CHR ''n''" by code_simp+
  show ?thesis unfolding NormalizeWords_def raid_warning_def
    by (simp add: curly_def isalnum_def lower tail)
qed

lemma dec_not_now: "dec_digits n \<noteq> ''now''"
  using dec_digit [of "CHR ''n''" n] by (auto simp: isdigit_def)

lemma chat_warning:
  "n \<le> 300 \<Longrightarrow> chat_loop [''pull'', ''in'', dec_digits n, ''sec''] 0
     = Some \<lparr>sg_Cancel = False, sg_Seconds = of_nat n\<rparr>"
proof -
  assume n: "n \<le> 300"
  then have "(of_nat n :: u32) \<le> MaxSeconds" by (simp add: MaxSeconds_def word_le_nat_alt unat_of_nat)
  then have "chat_word [''pull'', ''in'', dec_digits n, ''sec''] 0
      = Inr (Some \<lparr>sg_Cancel = False, sg_Seconds = of_nat n\<rparr>)"
    using n dec_not_now [of n] by (simp add: chat_word_def Let_def IsOneOf_def Number_dec isSecondsUnit_def)
  then show ?thesis by (subst chat_loop.simps) simp
qed

lemma no_question: "CHR ''?'' \<notin> set (raid_warning n)"
  using dec_digit [of "CHR ''?''" n] by (auto simp: raid_warning_def isdigit_def)

lemma dec_not_word: "\<not> isdigit (hd w) \<Longrightarrow> dec_digits n \<noteq> w"
  using dec_digit [of "hd w" n] dec_digits_ne [of n] by force

lemma chat_long:
  assumes "300 < n"
  shows "chat_loop [''pull'', ''in'', dec_digits n, ''sec''] 0 = None"
proof -
  let ?ws = "[''pull'', ''in'', dec_digits n, ''sec'']"
  have no: "\<not> (\<exists>v. Number (dec_digits n) = Some v \<and> v \<le> MaxSeconds)"
    using assms by (cases "n \<le> 9999")
      (auto simp: Number_dec Number_long MaxSeconds_def word_le_nat_alt unat_of_nat)
  then have "chat_word ?ws 0 = Inl ()"
    using dec_not_now [of n]
    by (auto simp: chat_word_def Let_def IsOneOf_def isSecondsUnit_def split: option.splits)
  moreover have "chat_word ?ws (Suc 0) = Inl ()" by (simp add: chat_word_def)
  moreover have "dec_digits n \<noteq> ''pull''" "dec_digits n \<noteq> ''pulling''"
    by (rule dec_not_word; simp add: isdigit_def)+
  then have "chat_word ?ws (Suc (Suc 0)) = Inl ()" by (simp add: chat_word_def)
  moreover have "chat_word ?ws (Suc (Suc (Suc 0))) = Inl ()" by (simp add: chat_word_def)
  ultimately show ?thesis
    by (subst chat_loop.simps, subst chat_loop.simps, subst chat_loop.simps, subst chat_loop.simps, subst chat_loop.simps) simp
qed

lemma dbm_long: "9999 < n \<Longrightarrow> dbm_loop [''U'', dec_digits n, ''Pull in''] = None"
  "9999 < n \<Longrightarrow> dbm_loop [''PT'', dec_digits n] = None"
proof -
  assume n: "9999 < n"
  have "dec_digits n \<noteq> ''PT''" "dec_digits n \<noteq> ''U''" by (rule dec_not_word; simp add: isdigit_def)+
  then show "dbm_loop [''U'', dec_digits n, ''Pull in''] = None" "dbm_loop [''PT'', dec_digits n] = None"
    using n by (simp_all add: Number_long)
qed

text \<open>
  C40: what DBM sends is what the bots hear, whatever number is sent. For up to 300 seconds the pizza
  timer and the pull sync give exactly that timer, and cancel at 0; the raid warning that goes with
  the pizza timer gives exactly that timer too, but at 0 it is no cancellation: it is heard as a
  pull at once. A longer timer is ignored in all three forms and never shortened.
\<close>

theorem Pull_timer_roundtrip:
  "ParseAddon ''D4'' (dbm_pizza n) =
      (if n \<le> 300 then Some \<lparr>sg_Cancel = (n = 0), sg_Seconds = of_nat n\<rparr> else None) \<and>
    ParseAddon ''D4'' (dbm_pull n) =
      (if n \<le> 300 then Some \<lparr>sg_Cancel = (n = 0), sg_Seconds = of_nat n\<rparr> else None) \<and>
    ParseChat (raid_warning n) =
      (if n \<le> 300 then Some \<lparr>sg_Cancel = False, sg_Seconds = of_nat n\<rparr> else None)"
proof -
  have big: "ParseBigWigs ''D4'' m = None" for m by (simp add: ParseBigWigs_def)
  have "ParseChat (raid_warning n) = (if n \<le> 300 then Some \<lparr>sg_Cancel = False, sg_Seconds = of_nat n\<rparr> else None)"
    using no_question [of n] chat_long [of n] by (simp add: ParseChat_def words_of_warning chat_warning)
  moreover have "ParseDbm ''D4'' m = (if n \<le> 300 then Some \<lparr>sg_Cancel = (n = 0), sg_Seconds = of_nat n\<rparr> else None)"
    if "m \<in> {dbm_pizza n, dbm_pull n}" for m
  proof (cases "n \<le> 9999")
    case True
    then show ?thesis using that FromSeconds_of_nat [OF True] by (auto simp: ParseDbm_def Split_pizza Split_pull Number_dec)
  next
    case False
    then show ?thesis using that dbm_long [of n] by (auto simp: ParseDbm_def Split_pizza Split_pull simp del: dbm_loop.simps)
  qed
  ultimately show ?thesis by (simp add: ParseAddon_def big)
qed

theorem Pull_timer_roundtrip_witness:
  "ParseAddon ''D4'' (dbm_pizza 10) = Some \<lparr>sg_Cancel = False, sg_Seconds = 10\<rparr>"
  using Pull_timer_roundtrip [of 10] by simp

section \<open>Roster slots\<close>

lemma set_ordered_slots: "set (ordered_slots roster order) = {0..<length roster}"
  by (auto simp: ordered_slots_def Let_def)

lemma find_Some_set: "find P xs = Some x \<Longrightarrow> x \<in> set xs \<and> P x"
  by (induction xs) (auto split: if_splits)

lemma pick_sound:
  "pick roster ordered taken P = sid \<Longrightarrow> sid \<noteq> [] \<Longrightarrow>
     \<exists>i \<in> set ordered. ts_SlotId (roster ! i) = sid \<and> sid \<notin> set taken \<and> P (roster ! i)"
  by (auto simp: pick_def dest: find_Some_set split: option.splits)

lemma pick_none:
  "pick roster ordered taken P = [] \<Longrightarrow> \<forall>i \<in> set ordered. ts_SlotId (roster ! i) \<noteq> [] \<Longrightarrow>
     \<forall>i \<in> set ordered. P (roster ! i) \<longrightarrow> ts_SlotId (roster ! i) \<in> set taken"
proof -
  assume none: "pick roster ordered taken P = []" and ne: "\<forall>i \<in> set ordered. ts_SlotId (roster ! i) \<noteq> []"
  have "find (\<lambda>i. ts_SlotId (roster ! i) \<notin> set taken \<and> P (roster ! i)) ordered = None"
  proof (rule ccontr)
    assume "find (\<lambda>i. ts_SlotId (roster ! i) \<notin> set taken \<and> P (roster ! i)) ordered \<noteq> None"
    then obtain i where "find (\<lambda>i. ts_SlotId (roster ! i) \<notin> set taken \<and> P (roster ! i)) ordered = Some i" by blast
    with find_Some_set [OF this] show False using none ne by (simp add: pick_def)
  qed
  then show ?thesis by (auto simp: find_None_iff)
qed

definition good_roster :: "template_slot list \<Rightarrow> bool" where
  "good_roster roster \<longleftrightarrow> distinct (map ts_SlotId roster) \<and> [] \<notin> set (map ts_SlotId roster)"

definition best_slot :: "template_slot list \<Rightarrow> string list \<Rightarrow> string \<Rightarrow> string \<Rightarrow> bool" where
  "best_slot roster taken role sid \<longleftrightarrow> sid \<in> set (map ts_SlotId roster) \<and> sid \<notin> set taken \<and>
     ((\<exists>s \<in> set roster. ts_SlotId s = sid \<and> ts_Role s = role) \<or>
      (\<forall>s \<in> set roster. ts_Role s = role \<longrightarrow> ts_SlotId s \<in> set taken))"

lemma pick_for_role_best:
  assumes "good_roster roster" and "length taken < length roster"
  shows "best_slot roster taken role (pick_for_role roster (ordered_slots roster order) taken role)"
proof -
  let ?o = "ordered_slots roster order"
  have ne: "\<forall>i \<in> set ?o. ts_SlotId (roster ! i) \<noteq> []"
    using assms(1) nth_mem [of _ roster] unfolding good_roster_def set_ordered_slots
    by (metis atLeastLessThan_iff image_eqI list.set_map)
  have mem: "i \<in> set ?o \<Longrightarrow> roster ! i \<in> set roster" for i by (simp add: set_ordered_slots)
  have idx: "s \<in> set roster \<Longrightarrow> \<exists>i \<in> set ?o. s = roster ! i" for s
    by (auto simp: set_ordered_slots in_set_conv_nth)
  have "card (set taken) < card (set (map ts_SlotId roster))"
    using assms card_length [of taken] distinct_card [of "map ts_SlotId roster"] by (simp add: good_roster_def)
  then have "\<not> set (map ts_SlotId roster) \<subseteq> set taken"
    using card_mono [OF List.finite_set, of "set (map ts_SlotId roster)" taken] by linarith
  then obtain s where s: "s \<in> set roster" "ts_SlotId s \<notin> set taken" by auto
  then have any: "pick roster ?o taken (\<lambda>s. True) \<noteq> []"
    using pick_none [of roster ?o taken "\<lambda>s. True"] ne idx by metis
  have role: "pick roster ?o taken (\<lambda>s. ts_Role s = role) = [] \<Longrightarrow>
      \<forall>s \<in> set roster. ts_Role s = role \<longrightarrow> ts_SlotId s \<in> set taken"
    using pick_none [of roster ?o taken "\<lambda>s. ts_Role s = role"] ne idx by metis
  have sound: "pick roster ?o taken P \<noteq> [] \<Longrightarrow> pick roster ?o taken P \<in> set (map ts_SlotId roster)
      \<and> pick roster ?o taken P \<notin> set taken \<and> (\<exists>s \<in> set roster. ts_SlotId s = pick roster ?o taken P \<and> P s)" for P
  proof -
    assume "pick roster ?o taken P \<noteq> []"
    from pick_sound [OF refl this] obtain i where i: "i \<in> set ?o"
      "ts_SlotId (roster ! i) = pick roster ?o taken P" "pick roster ?o taken P \<notin> set taken" "P (roster ! i)"
      by blast
    have "roster ! i \<in> set roster" using mem i(1) .
    moreover from this have "pick roster ?o taken P \<in> set (map ts_SlotId roster)"
      using i(2) by (metis image_eqI list.set_map)
    ultimately show ?thesis using i(2-4) by blast
  qed
  let ?a = "pick roster ?o taken (\<lambda>s. ts_Role s = role)"
  let ?b = "pick roster ?o taken (\<lambda>s. ts_Role s = ''dps'')"
  let ?c = "pick roster ?o taken (\<lambda>s. True)"
  let ?p = "pick_for_role roster ?o taken role"
  have p: "?p = (if ?a \<noteq> [] then ?a else if ?b \<noteq> [] then ?b else ?c)"
    by (simp add: pick_for_role_def Let_def)
  show ?thesis
  proof (cases "?a = []")
    case False
    then have "?p = ?a" using p by simp
    then show ?thesis using sound [OF False] unfolding best_slot_def by metis
  next
    case True
    have "?p = (if ?b \<noteq> [] then ?b else ?c)" using p True by simp
    then have "?p \<in> set (map ts_SlotId roster) \<and> ?p \<notin> set taken"
      using sound [of "\<lambda>s. ts_Role s = ''dps''"] sound [OF any] by presburger
    then show ?thesis using role [OF True] unfolding best_slot_def by blast
  qed
qed

fun chosen_ok :: "template_slot list \<Rightarrow> string list \<Rightarrow> string list \<Rightarrow> string list \<Rightarrow> bool" where
  "chosen_ok roster taken [] slots = (slots = [])"
| "chosen_ok roster taken (role # roles) [] = False"
| "chosen_ok roster taken (role # roles) (sid # slots) =
     (best_slot roster taken role sid \<and> chosen_ok roster (taken @ [sid]) roles slots)"

lemma choose_loop_ok:
  assumes "good_roster roster" and "length chosen + length roles < Suc (length roster)"
    and "length chosen + length roles \<noteq> 0 \<longrightarrow> length chosen + length roles < length roster"
  shows "\<exists>slots. choose_loop roster (ordered_slots roster order) roles chosen = Inr (chosen @ slots)
    \<and> chosen_ok roster chosen roles slots"
  using assms(2,3)
proof (induction roles arbitrary: chosen)
  case (Cons role roles)
  let ?sid = "pick_for_role roster (ordered_slots roster order) chosen role"
  have best: "best_slot roster chosen role ?sid"
    by (rule pick_for_role_best [OF assms(1)]) (use Cons.prems in auto)
  then have "?sid \<noteq> []" using assms(1) by (auto simp: best_slot_def good_roster_def)
  moreover obtain slots where "choose_loop roster (ordered_slots roster order) roles (chosen @ [?sid])
      = Inr ((chosen @ [?sid]) @ slots)" "chosen_ok roster (chosen @ [?sid]) roles slots"
    using Cons.IH [of "chosen @ [?sid]"] Cons.prems by auto
  ultimately show ?case using best by (intro exI [of _ "?sid # slots"]) (simp add: Let_def)
qed simp

lemma chosen_ok_facts:
  "chosen_ok roster taken roles slots \<Longrightarrow> length slots = length roles
     \<and> set slots \<subseteq> set (map ts_SlotId roster) \<and> distinct slots \<and> set slots \<inter> set taken = {}"
  by (induction roster taken roles slots rule: chosen_ok.induct) (auto simp: best_slot_def)

text \<open>
  With distinct non-empty slot ids and fewer humans than slots the choice always succeeds: each
  human gets a slot of the roster of its own, in input order, with the human's role as long as one
  of that role was still free; so at least one bot remains.
\<close>

theorem ChooseExternalSlots_total:
  assumes "good_roster roster" and "length roles < length roster"
  shows "\<exists>slots. ChooseExternalSlots roster roles order = Inr slots \<and> chosen_ok roster [] roles slots \<and>
    length slots = length roles \<and> distinct slots \<and> set slots \<subset> set (map ts_SlotId roster)"
proof -
  have "\<exists>slots. ChooseExternalSlots roster roles order = Inr slots \<and> chosen_ok roster [] roles slots"
    using choose_loop_ok [OF assms(1), of "[]" roles order] assms(2)
    by (auto simp: ChooseExternalSlots_def)
  then obtain slots where slots: "ChooseExternalSlots roster roles order = Inr slots"
    "chosen_ok roster [] roles slots" by blast
  note facts = chosen_ok_facts [OF slots(2)]
  have "card (set slots) < card (set (map ts_SlotId roster))"
    using facts assms distinct_card [of slots] distinct_card [of "map ts_SlotId roster"]
    by (simp add: good_roster_def)
  then have "set slots \<noteq> set (map ts_SlotId roster)" by auto
  with slots facts show ?thesis by blast
qed

definition sample_roster :: "template_slot list" where
  "sample_roster = [\<lparr>ts_SlotId = ''tank_1'', ts_Role = ''tank'', ts_ClassSpec = ''dk''\<rparr>,
     \<lparr>ts_SlotId = ''dps_1'', ts_Role = ''dps'', ts_ClassSpec = ''mage''\<rparr>,
     \<lparr>ts_SlotId = ''dps_2'', ts_Role = ''dps'', ts_ClassSpec = ''mage''\<rparr>]"

theorem ChooseExternalSlots_total_witness:
  "\<exists>slots. ChooseExternalSlots sample_roster [''tank'', ''healer''] [''dps_2''] = Inr slots \<and> length slots = 2"
proof -
  have "good_roster sample_roster" by (simp add: good_roster_def sample_roster_def)
  moreover have "length [''tank'', ''healer''] < length sample_roster" by (simp add: sample_roster_def)
  ultimately obtain slots where "ChooseExternalSlots sample_roster [''tank'', ''healer''] [''dps_2''] = Inr slots"
    "length slots = length [''tank'', ''healer'']"
    using ChooseExternalSlots_total by blast
  then show ?thesis by auto
qed

end
