(* ===== verification/Phase_Shift.thy ===== *)
theory Phase_Shift
  imports Prelude
begin

text \<open>
  Phases of world objects (\<^verbatim>\<open>server/game/Phasing/PhaseShift.h\<close>, \<^verbatim>\<open>PhaseShift.cpp\<close>) and the
  handlers of \<^verbatim>\<open>PhasingHandler.cpp\<close> that change a shift: conditions, area changes, database
  shifts. The sorted vector \<^verbatim>\<open>FlatSet<PhaseRef>\<close> is an ordered map from the 16-bit id to the rest
  of the entry. Reference counters are 32-bit words (two's complement in the source). A pointer to
  a condition list is its number; whether an object meets the conditions, the phase store, the
  terrain swaps and the auras of the unit are arguments. Client updates, \<^verbatim>\<open>OnPhaseChange\<close> and the
  controlled units, which get a copy of the shift, are outside the model.
\<close>

section \<open>Flags\<close>

definition SF_AlwaysVisible :: u32 where "SF_AlwaysVisible = 0x01"
definition SF_Inverse :: u32 where "SF_Inverse = 0x02"
definition SF_InverseUnphased :: u32 where "SF_InverseUnphased = 0x04"
definition SF_Unphased :: u32 where "SF_Unphased = 0x08"
definition SF_NoCosmetic :: u32 where "SF_NoCosmetic = 0x10"

definition PF_None :: u16 where "PF_None = 0x0"
definition PF_Cosmetic :: u16 where "PF_Cosmetic = 0x1"
definition PF_Personal :: u16 where "PF_Personal = 0x2"

definition DEFAULT_PHASE :: u16 where "DEFAULT_PHASE = 169"

definition HasFlag :: "'a::len word \<Rightarrow> 'a word \<Rightarrow> bool" where
  "HasFlag v f \<longleftrightarrow> v AND f \<noteq> 0"

section \<open>Phase shifts\<close>

record phase_ref =
  pr_Flags :: u16
  pr_References :: i32
  pr_AreaConditions :: "nat option"

record visible_map_ref =
  vm_References :: i32
  vm_Info :: nat

record phase_shift =
  ph_Flags :: u32
  ph_PersonalGuid :: u64
  ph_Phases :: "(u16, phase_ref) omap"
  ph_VisibleMapIds :: "(u32, visible_map_ref) omap"
  ph_UiMapPhaseIds :: "(u32, i32) omap"
  ph_NonCosmetic :: i32
  ph_Cosmetic :: i32
  ph_Default :: i32
  ph_IsDb :: bool

definition PhaseShift_init :: phase_shift where
  "PhaseShift_init = \<lparr>ph_Flags = SF_Unphased, ph_PersonalGuid = 0, ph_Phases = [], ph_VisibleMapIds = [],
     ph_UiMapPhaseIds = [], ph_NonCosmetic = 0, ph_Cosmetic = 0, ph_Default = 0, ph_IsDb = False\<rparr>"

definition UpdateUnphasedFlag :: "phase_shift \<Rightarrow> phase_shift" where
  "UpdateUnphasedFlag ps =
     (let inversed = HasFlag (ph_Flags ps) SF_Inverse;
          unphasedFlag = (if \<not> inversed then SF_Unphased else SF_InverseUnphased);
          otherFlag = (if \<not> inversed then SF_InverseUnphased else SF_Unphased);
          f = ph_Flags ps AND NOT otherFlag
      in ps\<lparr>ph_Flags := (if ph_NonCosmetic ps \<noteq> 0 \<and> ph_Default ps = 0
                         then f AND NOT unphasedFlag else f OR unphasedFlag)\<rparr>)"

text \<open>On an entry that is in the container, by its id.\<close>

definition ModifyPhasesReferences :: "u16 \<Rightarrow> i32 \<Rightarrow> phase_shift \<Rightarrow> phase_shift" where
  "ModifyPhasesReferences pid references ps =
     (case om_get (ph_Phases ps) pid of
        None \<Rightarrow> ps
      | Some p \<Rightarrow>
          (let ps1 = ps\<lparr>ph_Phases := om_put pid (p\<lparr>pr_References := pr_References p + references\<rparr>) (ph_Phases ps)\<rparr>
           in if ph_IsDb ps1 then ps1
              else
                (let ps2 = (if HasFlag (pr_Flags p) PF_Cosmetic
                              then ps1\<lparr>ph_Cosmetic := ph_Cosmetic ps1 + references\<rparr>
                            else if pid \<noteq> DEFAULT_PHASE
                              then ps1\<lparr>ph_NonCosmetic := ph_NonCosmetic ps1 + references\<rparr>
                            else ps1\<lparr>ph_Default := ph_Default ps1 + references\<rparr>);
                     ps3 = (if ph_Cosmetic ps2 \<noteq> 0 then ps2\<lparr>ph_Flags := ph_Flags ps2 OR SF_NoCosmetic\<rparr>
                            else ps2\<lparr>ph_Flags := ph_Flags ps2 AND NOT SF_NoCosmetic\<rparr>)
                 in UpdateUnphasedFlag ps3)))"

definition AddPhase :: "u32 \<Rightarrow> u16 \<Rightarrow> nat option \<Rightarrow> i32 \<Rightarrow> phase_shift \<Rightarrow> phase_shift \<times> bool" where
  "AddPhase phaseId flags areaConditions references ps =
     (let pid = ucast phaseId :: u16;
          new = (om_get (ph_Phases ps) pid = None);
          ps1 = (if new then ps\<lparr>ph_Phases := om_put pid
                     \<lparr>pr_Flags = flags, pr_References = 0, pr_AreaConditions = None\<rparr> (ph_Phases ps)\<rparr> else ps);
          ps2 = ModifyPhasesReferences pid references ps1;
          ps3 = (case areaConditions of
                   None \<Rightarrow> ps2
                 | Some c \<Rightarrow> (case om_get (ph_Phases ps2) pid of
                                None \<Rightarrow> ps2
                              | Some p \<Rightarrow> ps2\<lparr>ph_Phases := om_put pid (p\<lparr>pr_AreaConditions := Some c\<rparr>) (ph_Phases ps2)\<rparr>))
      in (ps3, new))"

text \<open>The result says whether the id was found (the iterator is not the end, or the entry was
  erased) and whether the entry was erased.\<close>

definition RemovePhase :: "u32 \<Rightarrow> phase_shift \<Rightarrow> phase_shift \<times> bool \<times> bool" where
  "RemovePhase phaseId ps =
     (let pid = ucast phaseId :: u16 in
      case om_get (ph_Phases ps) pid of
        None \<Rightarrow> (ps, False, False)
      | Some p \<Rightarrow>
          (let ps1 = ModifyPhasesReferences pid (-1) ps in
           if pr_References p + (-1) = 0
           then (ps1\<lparr>ph_Phases := om_erase pid (ph_Phases ps1)\<rparr>, True, True)
           else (ps1, True, False)))"

definition HasPhase :: "u32 \<Rightarrow> phase_shift \<Rightarrow> bool" where
  "HasPhase phaseId ps \<longleftrightarrow> om_get (ph_Phases ps) (ucast phaseId) \<noteq> None"

definition AddVisibleMapId :: "u32 \<Rightarrow> nat \<Rightarrow> i32 \<Rightarrow> phase_shift \<Rightarrow> phase_shift \<times> bool" where
  "AddVisibleMapId mapId info references ps =
     (let old = om_get (ph_VisibleMapIds ps) mapId;
          v = (case old of None \<Rightarrow> \<lparr>vm_References = 0, vm_Info = info\<rparr> | Some v \<Rightarrow> v)
      in (ps\<lparr>ph_VisibleMapIds := om_put mapId (v\<lparr>vm_References := vm_References v + references\<rparr>) (ph_VisibleMapIds ps)\<rparr>,
          old = None))"

definition RemoveVisibleMapId :: "u32 \<Rightarrow> phase_shift \<Rightarrow> phase_shift \<times> bool" where
  "RemoveVisibleMapId mapId ps =
     (case om_get (ph_VisibleMapIds ps) mapId of
        None \<Rightarrow> (ps, False)
      | Some v \<Rightarrow>
          (let r = vm_References v - 1 in
           if r = 0 then (ps\<lparr>ph_VisibleMapIds := om_erase mapId (ph_VisibleMapIds ps)\<rparr>, True)
           else (ps\<lparr>ph_VisibleMapIds := om_put mapId (v\<lparr>vm_References := r\<rparr>) (ph_VisibleMapIds ps)\<rparr>, False)))"

definition AddUiMapPhaseId :: "u32 \<Rightarrow> i32 \<Rightarrow> phase_shift \<Rightarrow> phase_shift \<times> bool" where
  "AddUiMapPhaseId uid references ps =
     (let old = om_get (ph_UiMapPhaseIds ps) uid;
          r = (case old of None \<Rightarrow> 0 | Some r \<Rightarrow> r)
      in (ps\<lparr>ph_UiMapPhaseIds := om_put uid (r + references) (ph_UiMapPhaseIds ps)\<rparr>, old = None))"

definition RemoveUiMapPhaseId :: "u32 \<Rightarrow> phase_shift \<Rightarrow> phase_shift \<times> bool" where
  "RemoveUiMapPhaseId uid ps =
     (case om_get (ph_UiMapPhaseIds ps) uid of
        None \<Rightarrow> (ps, False)
      | Some r \<Rightarrow>
          if r - 1 = 0 then (ps\<lparr>ph_UiMapPhaseIds := om_erase uid (ph_UiMapPhaseIds ps)\<rparr>, True)
          else (ps\<lparr>ph_UiMapPhaseIds := om_put uid (r - 1) (ph_UiMapPhaseIds ps)\<rparr>, False))"

definition ClearPhases :: "phase_shift \<Rightarrow> phase_shift" where
  "ClearPhases ps = UpdateUnphasedFlag (ps\<lparr>ph_Flags := ph_Flags ps AND (SF_AlwaysVisible OR SF_Inverse),
     ph_Phases := [], ph_NonCosmetic := 0, ph_Cosmetic := 0, ph_Default := 0\<rparr>)"

definition PhaseShift_Clear :: "phase_shift \<Rightarrow> phase_shift" where
  "PhaseShift_Clear ps = (ClearPhases ps)\<lparr>ph_PersonalGuid := 0, ph_VisibleMapIds := [], ph_UiMapPhaseIds := []\<rparr>"

section \<open>Visibility\<close>





section \<open>Handlers\<close>

definition SetAlwaysVisible :: "bool \<Rightarrow> phase_shift \<Rightarrow> phase_shift" where
  "SetAlwaysVisible apply_flag ps =
     ps\<lparr>ph_Flags := (if apply_flag then ph_Flags ps OR SF_AlwaysVisible else ph_Flags ps AND NOT SF_AlwaysVisible)\<rparr>"

definition SetInversed :: "bool \<Rightarrow> phase_shift \<Rightarrow> phase_shift" where
  "SetInversed apply_flag ps =
     UpdateUnphasedFlag (ps\<lparr>ph_Flags := (if apply_flag then ph_Flags ps OR SF_Inverse else ph_Flags ps AND NOT SF_Inverse)\<rparr>)"

text \<open>\<^verbatim>\<open>GetPhaseFlags\<close>: \<open>store\<close> gives the cosmetic and personal bits of a phase that exists.\<close>

definition GetPhaseFlags :: "(u32 \<rightharpoonup> bool \<times> bool) \<Rightarrow> u32 \<Rightarrow> u16" where
  "GetPhaseFlags store phaseId =
     (case store phaseId of
        None \<Rightarrow> PF_None
      | Some (cosmetic, personal) \<Rightarrow>
          if cosmetic then PF_Cosmetic else if personal then PF_Personal else PF_None)"

definition add_plain :: "(u32 \<rightharpoonup> bool \<times> bool) \<Rightarrow> u32 \<Rightarrow> phase_shift \<Rightarrow> phase_shift" where
  "add_plain store phaseId ps = fst (AddPhase phaseId (GetPhaseFlags store phaseId) None 1 ps)"

definition InitDbPhaseShift ::
  "(u32 \<rightharpoonup> bool \<times> bool) \<Rightarrow> bool \<Rightarrow> bool \<Rightarrow> u16 \<Rightarrow> u32 list option \<Rightarrow> phase_shift \<Rightarrow> phase_shift" where
  "InitDbPhaseShift store alwaysVisible inversed phaseId phaseGroup ps =
     (let ps1 = (ClearPhases ps)\<lparr>ph_IsDb := True\<rparr>;
          f0 = (if alwaysVisible then SF_AlwaysVisible OR SF_Unphased else 0);
          f1 = (if inversed then f0 OR SF_Inverse else f0);
          ps2 = (if phaseId \<noteq> 0 then add_plain store (ucast phaseId) ps1
                 else (case phaseGroup of None \<Rightarrow> ps1 | Some ids \<Rightarrow> fold (add_plain store) ids ps1));
          f2 = (if ph_Phases ps2 = [] \<or> HasPhase (ucast DEFAULT_PHASE) ps2
                then (if HasFlag f1 SF_Inverse then f1 OR SF_InverseUnphased else f1 OR SF_Unphased)
                else f1)
      in ps2\<lparr>ph_Flags := f2\<rparr>)"

text \<open>The loops of \<^verbatim>\<open>OnConditionChange\<close> over the entries, first to last. The first moves entries
  whose conditions fail to the new suppressions, the second moves entries back.\<close>

definition erase_phase :: "u16 \<Rightarrow> phase_ref \<Rightarrow> phase_shift \<Rightarrow> phase_shift" where
  "erase_phase pid p ps =
     (let ps1 = ModifyPhasesReferences pid (- pr_References p) ps
      in ps1\<lparr>ph_Phases := om_erase pid (ph_Phases ps1)\<rparr>)"

fun suppress_loop :: "(nat \<Rightarrow> bool) \<Rightarrow> (u16 \<times> phase_ref) list \<Rightarrow> phase_shift \<times> phase_shift \<Rightarrow> phase_shift \<times> phase_shift" where
  "suppress_loop meets [] st = st"
| "suppress_loop meets ((pid, p) # rest) (ps, new) =
     (case pr_AreaConditions p of
        None \<Rightarrow> suppress_loop meets rest (ps, new)
      | Some c \<Rightarrow>
          if \<not> meets c
          then suppress_loop meets rest
                 (erase_phase pid p ps, fst (AddPhase (ucast pid) (pr_Flags p) (Some c) (pr_References p) new))
          else suppress_loop meets rest (ps, new))"

fun restore_loop :: "(nat \<Rightarrow> bool) \<Rightarrow> (u16 \<times> phase_ref) list \<Rightarrow> phase_shift \<times> phase_shift \<times> bool \<Rightarrow> phase_shift \<times> phase_shift \<times> bool" where
  "restore_loop meets [] st = st"
| "restore_loop meets ((pid, p) # rest) (ps, supp, changed) =
     (case pr_AreaConditions p of
        None \<Rightarrow> restore_loop meets rest (ps, supp, changed)
      | Some c \<Rightarrow>
          if meets c
          then (case AddPhase (ucast pid) (pr_Flags p) (Some c) (pr_References p) ps of
                  (ps', isNew) \<Rightarrow> restore_loop meets rest (ps', erase_phase pid p supp, isNew \<or> changed))
          else restore_loop meets rest (ps, supp, changed))"

fun aura_loop :: "(u32 \<rightharpoonup> bool \<times> bool) \<Rightarrow> u32 list \<Rightarrow> phase_shift \<times> phase_shift \<Rightarrow> phase_shift \<times> phase_shift" where
  "aura_loop store [] st = st"
| "aura_loop store (phaseId # ids) (ps, new) =
     (case RemovePhase phaseId new of
        (new', found, erased) \<Rightarrow>
          aura_loop store ids (if found \<or> erased then add_plain store phaseId ps else ps, new'))"

fun transfer_loop :: "(u16 \<times> phase_ref) list \<Rightarrow> phase_shift \<Rightarrow> phase_shift" where
  "transfer_loop [] supp = supp"
| "transfer_loop ((pid, p) # rest) supp =
     transfer_loop rest (fst (AddPhase (ucast pid) (pr_Flags p) (pr_AreaConditions p) (pr_References p) supp))"

text \<open>\<^verbatim>\<open>OnConditionChange\<close> on the phases of an object: \<open>auras\<close> are the phase ids of its phase
  and phase group auras, in their order.\<close>

definition OnConditionChange ::
  "(u32 \<rightharpoonup> bool \<times> bool) \<Rightarrow> (nat \<Rightarrow> bool) \<Rightarrow> u32 list \<Rightarrow> phase_shift \<times> phase_shift \<Rightarrow> (phase_shift \<times> phase_shift) \<times> bool" where
  "OnConditionChange store meets auras st =
     (case st of (ps, supp) \<Rightarrow>
       (case suppress_loop meets (ph_Phases ps) (ps, PhaseShift_init) of
          (ps1, new1) \<Rightarrow>
            (case restore_loop meets (ph_Phases supp) (ps1, supp, False) of
               (ps2, supp2, changed) \<Rightarrow>
                 (case aura_loop store auras (ps2, new1) of
                    (ps3, new3) \<Rightarrow>
                      ((ps3, transfer_loop (ph_Phases new3) supp2), changed \<or> ph_Phases new3 \<noteq> [])))))"

section \<open>Flag bits\<close>

lemma flag_pow:
  "SF_AlwaysVisible = 2 ^ 0" "SF_Inverse = 2 ^ 1" "SF_InverseUnphased = 2 ^ 2" "SF_Unphased = 2 ^ 3"
  "SF_NoCosmetic = 2 ^ 4"
  by (simp_all add: SF_AlwaysVisible_def SF_Inverse_def SF_InverseUnphased_def SF_Unphased_def SF_NoCosmetic_def)

lemma HasFlag_pow: "HasFlag v (2 ^ n) \<longleftrightarrow> bit v n"
  by (simp add: HasFlag_def and_exp_eq_0_iff_not_bit)

lemma HasFlag_bits [simp]:
  "HasFlag v SF_AlwaysVisible \<longleftrightarrow> bit v 0" "HasFlag v SF_Inverse \<longleftrightarrow> bit v 1"
  "HasFlag v SF_InverseUnphased \<longleftrightarrow> bit v 2" "HasFlag v SF_Unphased \<longleftrightarrow> bit v 3"
  "HasFlag v SF_NoCosmetic \<longleftrightarrow> bit v 4"
  unfolding flag_pow HasFlag_pow by simp_all

lemma HasFlag_None [simp]: "\<not> HasFlag v PF_None"
  by (simp add: HasFlag_def PF_None_def)


lemma bit_set_flag: "n < 32 \<Longrightarrow> k < 32 \<Longrightarrow> bit (v OR 2 ^ k :: u32) n \<longleftrightarrow> n = k \<or> bit v n"
  by (auto simp: bit_or_iff bit_exp_iff)

lemma bit_clear_flag: "n < 32 \<Longrightarrow> k < 32 \<Longrightarrow> bit (v AND NOT (2 ^ k) :: u32) n \<longleftrightarrow> n \<noteq> k \<and> bit v n"
  by (auto simp: bit_and_iff bit_not_iff bit_exp_iff)

lemma bit_SF [simp]:
  "n < 32 \<Longrightarrow> bit (v OR SF_AlwaysVisible) n \<longleftrightarrow> n = 0 \<or> bit v n"
  "n < 32 \<Longrightarrow> bit (v OR SF_Inverse) n \<longleftrightarrow> n = 1 \<or> bit v n"
  "n < 32 \<Longrightarrow> bit (v OR SF_InverseUnphased) n \<longleftrightarrow> n = 2 \<or> bit v n"
  "n < 32 \<Longrightarrow> bit (v OR SF_Unphased) n \<longleftrightarrow> n = 3 \<or> bit v n"
  "n < 32 \<Longrightarrow> bit (v OR SF_NoCosmetic) n \<longleftrightarrow> n = 4 \<or> bit v n"
  "n < 32 \<Longrightarrow> bit (v AND NOT SF_AlwaysVisible) n \<longleftrightarrow> n \<noteq> 0 \<and> bit v n"
  "n < 32 \<Longrightarrow> bit (v AND NOT SF_Inverse) n \<longleftrightarrow> n \<noteq> 1 \<and> bit v n"
  "n < 32 \<Longrightarrow> bit (v AND NOT SF_InverseUnphased) n \<longleftrightarrow> n \<noteq> 2 \<and> bit v n"
  "n < 32 \<Longrightarrow> bit (v AND NOT SF_Unphased) n \<longleftrightarrow> n \<noteq> 3 \<and> bit v n"
  "n < 32 \<Longrightarrow> bit (v AND NOT SF_NoCosmetic) n \<longleftrightarrow> n \<noteq> 4 \<and> bit v n"
  unfolding flag_pow by (simp_all only: bit_set_flag bit_clear_flag)

text \<open>What \<open>UpdateUnphasedFlag\<close> and the cosmetic flag make of the flags, bit by bit.\<close>

definition unphased :: "phase_shift \<Rightarrow> bool" where
  "unphased ps \<longleftrightarrow> \<not> (ph_NonCosmetic ps \<noteq> 0 \<and> ph_Default ps = 0)"

lemma bit_UpdateUnphased:
  "n < 32 \<Longrightarrow> bit (ph_Flags (UpdateUnphasedFlag ps)) n =
     (if n = 3 then \<not> bit (ph_Flags ps) 1 \<and> unphased ps
      else if n = 2 then bit (ph_Flags ps) 1 \<and> unphased ps else bit (ph_Flags ps) n)"
  unfolding UpdateUnphasedFlag_def Let_def HasFlag_bits unphased_def
  by auto

lemma UpdateUnphased_sel [simp]:
  "ph_Phases (UpdateUnphasedFlag ps) = ph_Phases ps"
  "ph_NonCosmetic (UpdateUnphasedFlag ps) = ph_NonCosmetic ps"
  "ph_Cosmetic (UpdateUnphasedFlag ps) = ph_Cosmetic ps"
  "ph_Default (UpdateUnphasedFlag ps) = ph_Default ps"
  "ph_IsDb (UpdateUnphasedFlag ps) = ph_IsDb ps"
  "ph_PersonalGuid (UpdateUnphasedFlag ps) = ph_PersonalGuid ps"
  "ph_VisibleMapIds (UpdateUnphasedFlag ps) = ph_VisibleMapIds ps"
  "ph_UiMapPhaseIds (UpdateUnphasedFlag ps) = ph_UiMapPhaseIds ps"
  by (simp_all add: UpdateUnphasedFlag_def Let_def)

section \<open>The counters and flags follow the phases\<close>

definition refs_where :: "(u16 \<Rightarrow> phase_ref \<Rightarrow> bool) \<Rightarrow> (u16, phase_ref) omap \<Rightarrow> i32" where
  "refs_where P m = sum_list (map (\<lambda>(pid, p). if P pid p then pr_References p else 0) m)"

definition is_cosmetic :: "u16 \<Rightarrow> phase_ref \<Rightarrow> bool" where
  "is_cosmetic pid p \<longleftrightarrow> HasFlag (pr_Flags p) PF_Cosmetic"

definition is_noncosmetic :: "u16 \<Rightarrow> phase_ref \<Rightarrow> bool" where
  "is_noncosmetic pid p \<longleftrightarrow> \<not> HasFlag (pr_Flags p) PF_Cosmetic \<and> pid \<noteq> DEFAULT_PHASE"

definition is_default :: "u16 \<Rightarrow> phase_ref \<Rightarrow> bool" where
  "is_default pid p \<longleftrightarrow> \<not> HasFlag (pr_Flags p) PF_Cosmetic \<and> pid = DEFAULT_PHASE"

definition counted :: "phase_shift \<Rightarrow> bool" where
  "counted ps \<longleftrightarrow> ph_Cosmetic ps = refs_where is_cosmetic (ph_Phases ps)
     \<and> ph_NonCosmetic ps = refs_where is_noncosmetic (ph_Phases ps)
     \<and> ph_Default ps = refs_where is_default (ph_Phases ps)"

definition flagged :: "phase_shift \<Rightarrow> bool" where
  "flagged ps \<longleftrightarrow> bit (ph_Flags ps) 4 = (ph_Cosmetic ps \<noteq> 0)
     \<and> bit (ph_Flags ps) 3 = (\<not> bit (ph_Flags ps) 1 \<and> unphased ps)
     \<and> bit (ph_Flags ps) 2 = (bit (ph_Flags ps) 1 \<and> unphased ps)"

definition shift_ok :: "phase_shift \<Rightarrow> bool" where
  "shift_ok ps \<longleftrightarrow> om_ok (ph_Phases ps) \<and> \<not> ph_IsDb ps \<and> counted ps \<and> flagged ps"

lemma refs_where_put:
  "om_ok m \<Longrightarrow> refs_where P (om_put pid p m) = refs_where P m
     - (case om_get m pid of None \<Rightarrow> 0 | Some q \<Rightarrow> if P pid q then pr_References q else 0)
     + (if P pid p then pr_References p else 0)"
proof (induction pid p m rule: om_put.induct)
  case (1 k v)
  then show ?case by (simp add: refs_where_def)
next
  case (2 k v a b m)
  have "om_get m k = None" if "k \<le> a" using that 2 by (auto simp: om_get_None_iff om_ok_Cons)
  with 2 show ?case by (auto simp: refs_where_def om_ok_Cons om_get_def)
qed

lemma refs_where_erase:
  "om_ok m \<Longrightarrow> refs_where P (om_erase pid m) = refs_where P m
     - (case om_get m pid of None \<Rightarrow> 0 | Some q \<Rightarrow> if P pid q then pr_References q else 0)"
proof (induction m)
  case (Cons x m)
  obtain a b where x: "x = (a, b)" by fastforce
  have "om_get m a = None" using Cons x by (auto simp: om_get_None_iff om_ok_Cons)
  with Cons x show ?case by (auto simp: refs_where_def om_erase_def om_ok_Cons om_get_def)
qed (simp add: refs_where_def om_erase_def)

lemma Modify_Phases:
  "ph_Phases (ModifyPhasesReferences pid r ps) =
     (case om_get (ph_Phases ps) pid of None \<Rightarrow> ph_Phases ps
      | Some p \<Rightarrow> om_put pid (p\<lparr>pr_References := pr_References p + r\<rparr>) (ph_Phases ps))"
  by (simp add: ModifyPhasesReferences_def Let_def split: option.splits)

lemma Modify_IsDb [simp]: "ph_IsDb (ModifyPhasesReferences pid r ps) = ph_IsDb ps"
  by (simp add: ModifyPhasesReferences_def Let_def split: option.splits)

lemma cases_kind:
  obtains (cosmetic) "is_cosmetic pid p" "\<not> is_noncosmetic pid p" "\<not> is_default pid p"
  | (noncosmetic) "\<not> is_cosmetic pid p" "is_noncosmetic pid p" "\<not> is_default pid p"
  | (default) "\<not> is_cosmetic pid p" "\<not> is_noncosmetic pid p" "is_default pid p"
  by (auto simp: is_cosmetic_def is_noncosmetic_def is_default_def)

lemma kind_references [simp]:
  "is_cosmetic pid (p\<lparr>pr_References := r\<rparr>) = is_cosmetic pid p"
  "is_noncosmetic pid (p\<lparr>pr_References := r\<rparr>) = is_noncosmetic pid p"
  "is_default pid (p\<lparr>pr_References := r\<rparr>) = is_default pid p"
  "is_cosmetic pid (p\<lparr>pr_AreaConditions := c\<rparr>) = is_cosmetic pid p"
  "is_noncosmetic pid (p\<lparr>pr_AreaConditions := c\<rparr>) = is_noncosmetic pid p"
  "is_default pid (p\<lparr>pr_AreaConditions := c\<rparr>) = is_default pid p"
  by (simp_all add: is_cosmetic_def is_noncosmetic_def is_default_def)

lemma Modify_counts:
  assumes "\<not> ph_IsDb ps" and "om_get (ph_Phases ps) pid = Some p"
  shows "ph_Cosmetic (ModifyPhasesReferences pid r ps) = ph_Cosmetic ps + (if is_cosmetic pid p then r else 0)"
    and "ph_NonCosmetic (ModifyPhasesReferences pid r ps) = ph_NonCosmetic ps + (if is_noncosmetic pid p then r else 0)"
    and "ph_Default (ModifyPhasesReferences pid r ps) = ph_Default ps + (if is_default pid p then r else 0)"
  using assms by (auto simp: ModifyPhasesReferences_def Let_def is_cosmetic_def is_noncosmetic_def is_default_def)

lemma Modify_flag_bits:
  assumes "\<not> ph_IsDb ps" and "om_get (ph_Phases ps) pid = Some p" and "n < 32"
  shows "bit (ph_Flags (ModifyPhasesReferences pid r ps)) n =
    (let ps' = ModifyPhasesReferences pid r ps in
     if n = 4 then ph_Cosmetic ps' \<noteq> 0
     else if n = 3 then \<not> bit (ph_Flags ps) 1 \<and> unphased ps'
     else if n = 2 then bit (ph_Flags ps) 1 \<and> unphased ps' else bit (ph_Flags ps) n)"
proof -
  define base where "base = (let ps1 = ps\<lparr>ph_Phases := om_put pid (p\<lparr>pr_References := pr_References p + r\<rparr>) (ph_Phases ps)\<rparr>
      in if HasFlag (pr_Flags p) PF_Cosmetic then ps1\<lparr>ph_Cosmetic := ph_Cosmetic ps1 + r\<rparr>
         else if pid \<noteq> DEFAULT_PHASE then ps1\<lparr>ph_NonCosmetic := ph_NonCosmetic ps1 + r\<rparr>
         else ps1\<lparr>ph_Default := ph_Default ps1 + r\<rparr>)"
  define ps3 where "ps3 = (if ph_Cosmetic base \<noteq> 0 then base\<lparr>ph_Flags := ph_Flags base OR SF_NoCosmetic\<rparr>
      else base\<lparr>ph_Flags := ph_Flags base AND NOT SF_NoCosmetic\<rparr>)"
  have M: "ModifyPhasesReferences pid r ps = UpdateUnphasedFlag ps3"
    using assms(1,2) unfolding ModifyPhasesReferences_def base_def ps3_def Let_def by simp
  have base_flags: "ph_Flags base = ph_Flags ps" by (simp add: base_def Let_def)
  have flags3: "bit (ph_Flags ps3) k = (if k = 4 then ph_Cosmetic base \<noteq> 0 else bit (ph_Flags ps) k)" if "k < 32" for k
    using that by (simp add: ps3_def base_flags)
  have same: "ph_Cosmetic ps3 = ph_Cosmetic base" "unphased (UpdateUnphasedFlag ps3) = unphased ps3"
    by (simp_all add: ps3_def unphased_def)
  show ?thesis
    unfolding M Let_def bit_UpdateUnphased [OF assms(3)] same(2) using flags3 assms(3) same(1) by auto
qed

lemma unphased_phases [simp]: "unphased (ps\<lparr>ph_Phases := m\<rparr>) = unphased ps"
  by (simp add: unphased_def)

lemma Modify_ok:
  assumes "shift_ok ps"
  shows "shift_ok (ModifyPhasesReferences pid r ps)"
proof (cases "om_get (ph_Phases ps) pid")
  case None
  then show ?thesis using assms by (simp add: ModifyPhasesReferences_def)
next
  case (Some p)
  let ?q = "p\<lparr>pr_References := pr_References p + r\<rparr>"
  let ?ps' = "ModifyPhasesReferences pid r ps"
  have db: "\<not> ph_IsDb ps" and ok: "om_ok (ph_Phases ps)" and cnt: "counted ps"
    using assms by (simp_all add: shift_ok_def)
  have ph: "ph_Phases ?ps' = om_put pid ?q (ph_Phases ps)" using Some by (simp add: Modify_Phases)
  have refs: "refs_where P (ph_Phases ?ps') = refs_where P (ph_Phases ps) + (if P pid p then r else 0)"
    if "P pid ?q = P pid p" for P
    unfolding ph refs_where_put [OF ok] using Some that by simp
  have "counted ?ps'"
    using cnt unfolding counted_def Modify_counts [OF db Some] by (simp add: refs)
  moreover have "flagged ?ps'"
    unfolding flagged_def using Modify_flag_bits [OF db Some, of _ r] by (simp add: Let_def)
  ultimately show ?thesis using db ok ph by (simp add: shift_ok_def)
qed

lemma fresh_entry_ok:
  assumes "shift_ok ps" and "om_get (ph_Phases ps) pid = None"
  shows "shift_ok (ps\<lparr>ph_Phases := om_put pid \<lparr>pr_Flags = f, pr_References = 0, pr_AreaConditions = c\<rparr> (ph_Phases ps)\<rparr>)"
  using assms by (auto simp: shift_ok_def counted_def flagged_def refs_where_put)

lemma conditions_ok:
  assumes "shift_ok ps" and "om_get (ph_Phases ps) pid = Some p"
  shows "shift_ok (ps\<lparr>ph_Phases := om_put pid (p\<lparr>pr_AreaConditions := c\<rparr>) (ph_Phases ps)\<rparr>)"
  using assms by (auto simp: shift_ok_def counted_def flagged_def refs_where_put)

lemma AddPhase_ok: "shift_ok ps \<Longrightarrow> shift_ok (fst (AddPhase phaseId flags c r ps))"
  unfolding AddPhase_def Let_def
  by (auto intro!: Modify_ok fresh_entry_ok conditions_ok split: option.splits)

lemma erase_ok:
  assumes "shift_ok ps" and "om_get (ph_Phases ps) pid = Some p" and "pr_References p = 0"
  shows "shift_ok (ps\<lparr>ph_Phases := om_erase pid (ph_Phases ps)\<rparr>)"
  using assms by (auto simp: shift_ok_def counted_def flagged_def refs_where_erase)

lemma RemovePhase_ok: "shift_ok ps \<Longrightarrow> shift_ok (fst (RemovePhase phaseId ps))"
proof -
  assume ok: "shift_ok ps"
  show ?thesis
  proof (cases "om_get (ph_Phases ps) (ucast phaseId)")
    case None
    then show ?thesis using ok by (simp add: RemovePhase_def)
  next
    case (Some p)
    let ?ps1 = "ModifyPhasesReferences (ucast phaseId) (-1) ps"
    have get: "om_get (ph_Phases ?ps1) (ucast phaseId) = Some (p\<lparr>pr_References := pr_References p + (-1)\<rparr>)"
      using Some by (simp add: Modify_Phases)
    show ?thesis using Modify_ok [OF ok, of "ucast phaseId" "-1"] erase_ok [OF _ get] Some
      by (simp add: RemovePhase_def Let_def)
  qed
qed

lemma ClearPhases_ok: "\<not> ph_IsDb ps \<Longrightarrow> shift_ok (ClearPhases ps)"
proof -
  assume db: "\<not> ph_IsDb ps"
  let ?b = "ps\<lparr>ph_Flags := ph_Flags ps AND (SF_AlwaysVisible OR SF_Inverse),
     ph_Phases := [], ph_NonCosmetic := 0, ph_Cosmetic := 0, ph_Default := 0\<rparr>"
  have "\<not> bit (ph_Flags ?b) 4" by (simp add: flag_pow bit_and_iff bit_or_iff bit_exp_iff del: power_Suc)
  then show ?thesis using db bit_UpdateUnphased [of _ ?b]
    by (auto simp: ClearPhases_def shift_ok_def counted_def flagged_def refs_where_def unphased_def)
qed

lemma SetInversed_ok: "shift_ok ps \<Longrightarrow> shift_ok (SetInversed b ps)"
proof -
  assume ok: "shift_ok ps"
  let ?b = "ps\<lparr>ph_Flags := (if b then ph_Flags ps OR SF_Inverse else ph_Flags ps AND NOT SF_Inverse)\<rparr>"
  have "bit (ph_Flags ?b) 4 = bit (ph_Flags ps) 4" by simp
  then show ?thesis using ok bit_UpdateUnphased [of _ ?b]
    by (simp add: SetInversed_def shift_ok_def counted_def flagged_def) (simp add: unphased_def)
qed

lemma SetAlwaysVisible_ok: "shift_ok ps \<Longrightarrow> shift_ok (SetAlwaysVisible b ps)"
  by (simp add: SetAlwaysVisible_def shift_ok_def counted_def flagged_def unphased_def)

datatype phase_op =
    PAdd u32 u16 "nat option" i32
  | PRemove u32
  | PClearPhases
  | PClear
  | PAlwaysVisible bool
  | PInversed bool
  | PInitDb "u32 \<rightharpoonup> bool \<times> bool" bool bool u16 "u32 list option"

primrec phase_step :: "phase_shift \<Rightarrow> phase_op \<Rightarrow> phase_shift" where
  "phase_step ps (PAdd phaseId f c r) = fst (AddPhase phaseId f c r ps)"
| "phase_step ps (PRemove phaseId) = fst (RemovePhase phaseId ps)"
| "phase_step ps PClearPhases = ClearPhases ps"
| "phase_step ps PClear = PhaseShift_Clear ps"
| "phase_step ps (PAlwaysVisible b) = SetAlwaysVisible b ps"
| "phase_step ps (PInversed b) = SetInversed b ps"
| "phase_step ps (PInitDb store alwaysVisible inversed phaseId phaseGroup) =
     InitDbPhaseShift store alwaysVisible inversed phaseId phaseGroup ps"

text \<open>The operation that makes a shift one of the database.\<close>

fun inits_db :: "phase_op \<Rightarrow> bool" where
  "inits_db (PInitDb store alwaysVisible inversed phaseId phaseGroup) = True"
| "inits_db op = False"

lemma Clear_ok: "shift_ok ps \<Longrightarrow> shift_ok (PhaseShift_Clear ps)"
  using ClearPhases_ok [of ps]
  by (auto simp: PhaseShift_Clear_def shift_ok_def counted_def flagged_def unphased_def)

text \<open>A shift of the database keeps its counters at 0, and its phases in order.\<close>

definition db_ok :: "phase_shift \<Rightarrow> bool" where
  "db_ok ps \<longleftrightarrow> om_ok (ph_Phases ps) \<and> ph_IsDb ps \<and> ph_Cosmetic ps = 0 \<and> ph_NonCosmetic ps = 0 \<and> ph_Default ps = 0"

lemma Modify_db: "db_ok ps \<Longrightarrow> db_ok (ModifyPhasesReferences pid r ps)"
  by (auto simp: db_ok_def ModifyPhasesReferences_def Let_def split: option.splits)

lemma db_phases: "db_ok ps \<Longrightarrow> om_ok m \<Longrightarrow> db_ok (ps\<lparr>ph_Phases := m\<rparr>)"
  by (simp add: db_ok_def)

lemma db_om_ok: "db_ok ps \<Longrightarrow> om_ok (ph_Phases ps)"
  by (simp add: db_ok_def)

lemma AddPhase_db: "db_ok ps \<Longrightarrow> db_ok (fst (AddPhase phaseId f c r ps))"
  unfolding AddPhase_def Let_def
  by (auto intro!: Modify_db db_phases om_ok_put db_om_ok split: option.splits)

lemma RemovePhase_db: "db_ok ps \<Longrightarrow> db_ok (fst (RemovePhase phaseId ps))"
  unfolding RemovePhase_def Let_def
  by (auto intro!: Modify_db db_phases om_ok_erase db_om_ok split: option.splits)

lemma ClearPhases_db: "ph_IsDb ps \<Longrightarrow> db_ok (ClearPhases ps)"
  by (simp add: ClearPhases_def db_ok_def)

lemma add_plain_db: "db_ok ps \<Longrightarrow> db_ok (add_plain store phaseId ps)"
  by (simp add: add_plain_def AddPhase_db)

lemma add_plains_db: "db_ok ps \<Longrightarrow> db_ok (fold (add_plain store) ids ps)"
  by (induction ids arbitrary: ps) (simp_all add: add_plain_db)

lemma InitDb_db: "db_ok (InitDbPhaseShift store alwaysVisible inversed phaseId phaseGroup ps)"
proof -
  let ?ps1 = "(ClearPhases ps)\<lparr>ph_IsDb := True\<rparr>"
  have flags: "db_ok (qs\<lparr>ph_Flags := f\<rparr>) = db_ok qs" for qs f by (simp add: db_ok_def)
  have "db_ok ?ps1" by (simp add: ClearPhases_def db_ok_def)
  then show ?thesis by (simp add: InitDbPhaseShift_def Let_def flags add_plain_db add_plains_db split: option.split)
qed

lemma db_small:
  "db_ok ps \<Longrightarrow> db_ok (PhaseShift_Clear ps)" "db_ok ps \<Longrightarrow> db_ok (SetAlwaysVisible b ps)"
  "db_ok ps \<Longrightarrow> db_ok (SetInversed b ps)"
  using ClearPhases_db [of ps] by (simp_all add: db_ok_def PhaseShift_Clear_def SetAlwaysVisible_def SetInversed_def)

definition shift_fine :: "phase_shift \<Rightarrow> bool" where
  "shift_fine ps \<longleftrightarrow> shift_ok ps \<or> db_ok ps"

lemma db_IsDb: "db_ok ps \<Longrightarrow> ph_IsDb ps"
  by (simp add: db_ok_def)

lemma ok_IsDb: "shift_ok ps \<Longrightarrow> \<not> ph_IsDb ps"
  by (simp add: shift_ok_def)

lemma step_db: "db_ok ps \<Longrightarrow> db_ok (phase_step ps a)"
  using db_IsDb [of ps]
  by (cases a) (simp_all add: AddPhase_db RemovePhase_db ClearPhases_db db_small InitDb_db)

lemma step_ok: "shift_ok ps \<Longrightarrow> \<not> inits_db a \<Longrightarrow> shift_ok (phase_step ps a)"
  using ok_IsDb [of ps]
  by (cases a) (simp_all add: AddPhase_ok RemovePhase_ok ClearPhases_ok Clear_ok SetAlwaysVisible_ok SetInversed_ok)

lemma init_ok: "shift_ok PhaseShift_init"
  by (simp add: shift_ok_def PhaseShift_init_def counted_def flagged_def refs_where_def unphased_def flag_pow
      bit_exp_iff del: power_Suc)

interpretation phases: op_machine PhaseShift_init phase_step shift_fine
proof unfold_locales
  show "shift_fine PhaseShift_init" by (simp add: shift_fine_def init_ok)
next
  fix s a
  assume "shift_fine s"
  then show "shift_fine (phase_step s a)"
    using step_db step_ok by (cases "inits_db a") (auto simp: shift_fine_def InitDb_db elim!: inits_db.elims(2))
qed

lemma phase_run:
  "shift_fine (foldl phase_step PhaseShift_init ops)"
  "ph_IsDb (foldl phase_step PhaseShift_init ops) \<longleftrightarrow> (\<exists>a \<in> set ops. inits_db a)"
proof -
  show "shift_fine (foldl phase_step PhaseShift_init ops)" by (rule phases.run_inv)
  have "shift_fine ps \<Longrightarrow> ph_IsDb (phase_step ps a) \<longleftrightarrow> ph_IsDb ps \<or> inits_db a" for ps a
    using step_db [of ps a] step_ok [of ps a] InitDb_db
    by (cases a) (auto simp: shift_fine_def db_ok_def shift_ok_def)
  then show "ph_IsDb (foldl phase_step PhaseShift_init ops) \<longleftrightarrow> (\<exists>a \<in> set ops. inits_db a)"
    using phases.run_inv by (induction ops rule: rev_induct) (auto simp: PhaseShift_init_def)
qed

lemma phase_run_ok: "\<not> ph_IsDb (foldl phase_step PhaseShift_init ops) \<Longrightarrow> shift_ok (foldl phase_step PhaseShift_init ops)"
  using phase_run(1) [of ops] by (simp add: shift_fine_def db_ok_def)

text \<open>The phases and the flags that a database entry gives.\<close>

lemma ucast_u16_u32 [simp]: "(ucast (ucast (k :: u16) :: u32) :: u16) = k"
  by (rule bit_word_eqI) (simp add: bit_ucast_iff)

lemma AddPhase_has:
  "om_get (ph_Phases (fst (AddPhase phaseId f c r ps))) k \<noteq> None \<longleftrightarrow> k = ucast phaseId \<or> om_get (ph_Phases ps) k \<noteq> None"
  by (auto simp: AddPhase_def Let_def Modify_Phases split: option.splits)

lemma add_plains_has:
  "om_get (ph_Phases (fold (add_plain store) ids ps)) k \<noteq> None \<longleftrightarrow> k \<in> ucast ` set ids \<or> om_get (ph_Phases ps) k \<noteq> None"
proof (induction ids arbitrary: ps)
  case (Cons i ids)
  have "om_get (ph_Phases (add_plain store i ps)) k \<noteq> None \<longleftrightarrow> k = ucast i \<or> om_get (ph_Phases ps) k \<noteq> None"
    unfolding add_plain_def by (rule AddPhase_has)
  with Cons show ?case by auto
qed simp

lemma InitDb_phases:
  assumes ds_def: "ds = InitDbPhaseShift store alwaysVisible inversed phaseId phaseGroup ps"
  shows "HasPhase (ucast k) ds = (if phaseId \<noteq> 0 then k = phaseId
       else (\<exists>ids. phaseGroup = Some ids \<and> k \<in> ucast ` set ids))"
  using AddPhase_has add_plains_has
  by (auto simp: HasPhase_def ds_def InitDbPhaseShift_def Let_def add_plain_def [of store "ucast phaseId"]
      ClearPhases_def om_get_def [of "[]"] split: option.split)

lemma InitDb_flags:
  assumes ds_def: "ds = InitDbPhaseShift store alwaysVisible inversed phaseId phaseGroup ps"
  shows "let open_to_all = ph_Phases ds = [] \<or> HasPhase (ucast DEFAULT_PHASE) ds in
      HasFlag (ph_Flags ds) SF_AlwaysVisible = alwaysVisible \<and> HasFlag (ph_Flags ds) SF_Inverse = inversed \<and>
      HasFlag (ph_Flags ds) SF_Unphased = (alwaysVisible \<or> \<not> inversed \<and> open_to_all) \<and>
      HasFlag (ph_Flags ds) SF_InverseUnphased = (inversed \<and> open_to_all) \<and> \<not> HasFlag (ph_Flags ds) SF_NoCosmetic"
proof -
  let ?ps1 = "(ClearPhases ps)\<lparr>ph_IsDb := True\<rparr>"
  define ps2 where "ps2 = (if phaseId \<noteq> 0 then add_plain store (ucast phaseId) ?ps1
     else (case phaseGroup of None \<Rightarrow> ?ps1 | Some ids \<Rightarrow> fold (add_plain store) ids ?ps1))"
  define f1 where "f1 = (let f0 = (if alwaysVisible then SF_AlwaysVisible OR SF_Unphased else 0)
     in if inversed then f0 OR SF_Inverse else f0)"
  have f: "ph_Flags ds = (if ph_Phases ps2 = [] \<or> HasPhase (ucast DEFAULT_PHASE) ps2
      then (if HasFlag f1 SF_Inverse then f1 OR SF_InverseUnphased else f1 OR SF_Unphased) else f1)"
    and p: "ph_Phases ds = ph_Phases ps2"
    by (simp_all add: ds_def InitDbPhaseShift_def Let_def f1_def ps2_def)
  have h: "HasPhase k ds = HasPhase k ps2" for k by (simp add: HasPhase_def p)
  have b: "bit f1 0 = alwaysVisible" "bit f1 1 = inversed" "bit f1 3 = alwaysVisible" "\<not> bit f1 2" "\<not> bit f1 4"
    unfolding f1_def by (cases alwaysVisible; cases inversed; simp)
      (simp add: flag_pow bit_exp_iff bit_or_iff del: power_Suc)+
  show ?thesis unfolding Let_def h p f by (auto simp: b b(2) [simplified])
qed

text \<open>
  C10: the cached counters and flags are those of the phases.  After any operations on a shift that
  has not been set up from the database, the three counters are the sums of the references of its
  cosmetic, its other and its default phases, the cosmetic flag says whether the first is non-zero,
  and exactly the right one of the two unphased flags is set, if the object has the default phase or
  no non-cosmetic phase.  A shift that \<open>InitDbPhaseShift\<close> has set up stays one of the database: its
  counters are 0 whatever its phases are, so that no flag follows them any more; its flags are set
  once, and right after the set-up they are those of the database entry and its phases: the
  always visible and the inverse flag as the entry says, unphased if the entry is always visible or
  the shift is not inversed and has no phase or the default phase, inverse unphased if it is
  inversed and has no phase or the default phase, and never the cosmetic flag.
\<close>

theorem PhaseShift_counters_and_flags:
  fixes ops :: "phase_op list" and store alwaysVisible inversed phaseId phaseGroup
  defines "ps \<equiv> foldl phase_step PhaseShift_init ops"
    and "ds \<equiv> InitDbPhaseShift store alwaysVisible inversed phaseId phaseGroup (foldl phase_step PhaseShift_init ops)"
  shows "ph_IsDb ps = (\<exists>a \<in> set ops. inits_db a) \<and>
    (if ph_IsDb ps then ph_Cosmetic ps = 0 \<and> ph_NonCosmetic ps = 0 \<and> ph_Default ps = 0
     else ph_Cosmetic ps = refs_where is_cosmetic (ph_Phases ps) \<and>
      ph_NonCosmetic ps = refs_where is_noncosmetic (ph_Phases ps) \<and>
      ph_Default ps = refs_where is_default (ph_Phases ps) \<and>
      HasFlag (ph_Flags ps) SF_NoCosmetic = (refs_where is_cosmetic (ph_Phases ps) \<noteq> 0) \<and>
      HasFlag (ph_Flags ps) (if HasFlag (ph_Flags ps) SF_Inverse then SF_InverseUnphased else SF_Unphased)
        = (refs_where is_noncosmetic (ph_Phases ps) = 0 \<or> refs_where is_default (ph_Phases ps) \<noteq> 0) \<and>
      \<not> HasFlag (ph_Flags ps) (if HasFlag (ph_Flags ps) SF_Inverse then SF_Unphased else SF_InverseUnphased)) \<and>
    (let open_to_all = ph_Phases ds = [] \<or> HasPhase (ucast DEFAULT_PHASE) ds in
      HasFlag (ph_Flags ds) SF_AlwaysVisible = alwaysVisible \<and> HasFlag (ph_Flags ds) SF_Inverse = inversed \<and>
      HasFlag (ph_Flags ds) SF_Unphased = (alwaysVisible \<or> \<not> inversed \<and> open_to_all) \<and>
      HasFlag (ph_Flags ds) SF_InverseUnphased = (inversed \<and> open_to_all) \<and> \<not> HasFlag (ph_Flags ds) SF_NoCosmetic) \<and>
    (\<forall>k. HasPhase (ucast k) ds = (if phaseId \<noteq> 0 then k = phaseId
       else (\<exists>ids. phaseGroup = Some ids \<and> k \<in> ucast ` set ids)))"
proof -
  have f: "shift_fine ps" "ph_IsDb ps \<longleftrightarrow> (\<exists>a \<in> set ops. inits_db a)"
    unfolding ps_def by (rule phase_run)+
  have ds: "ds = InitDbPhaseShift store alwaysVisible inversed phaseId phaseGroup ps"
    by (simp add: ds_def ps_def)
  show ?thesis
    using f InitDb_flags [OF ds] InitDb_phases [OF ds]
    by (auto simp: shift_fine_def db_ok_def shift_ok_def counted_def flagged_def unphased_def)
qed

theorem PhaseShift_counters_and_flags_witness:
  "HasFlag (ph_Flags (foldl phase_step PhaseShift_init [PAdd 200 PF_None None 1, PInversed True, PRemove 200]))
     SF_InverseUnphased"
proof -
  let ?ops = "[PAdd 200 PF_None None 1, PInversed True, PRemove 200]"
  have inv: "HasFlag (ph_Flags (foldl phase_step PhaseShift_init ?ops)) SF_Inverse"
    and zero: "refs_where is_noncosmetic (ph_Phases (foldl phase_step PhaseShift_init ?ops)) = 0" by code_simp+
  have "\<not> ph_IsDb (foldl phase_step PhaseShift_init ?ops)" unfolding phase_run(2) by simp
  from PhaseShift_counters_and_flags [of ?ops, THEN conjunct2, THEN conjunct1, unfolded if_not_P [OF this] if_P [OF inv]] zero
  show ?thesis by blast
qed

section \<open>Adding and removing\<close>

lemma shift_flags_unique:
  assumes "flagged ps" and "flagged qs" and "ph_Cosmetic ps = ph_Cosmetic qs" and "unphased ps = unphased qs"
    and "\<forall>n < 32. n \<noteq> 2 \<and> n \<noteq> 3 \<and> n \<noteq> 4 \<longrightarrow> bit (ph_Flags ps) n = bit (ph_Flags qs) n"
  shows "ph_Flags ps = ph_Flags qs"
proof (rule bit_word_eqI)
  fix n assume "n < LENGTH(32)"
  then have n: "n < 32" by simp
  have "bit (ph_Flags ps) 1 = bit (ph_Flags qs) 1" using assms(5) by simp
  then show "bit (ph_Flags ps) n = bit (ph_Flags qs) n"
    using assms n by (cases "n = 2 \<or> n = 3 \<or> n = 4") (auto simp: flagged_def)
qed

lemma Modify_PersonalGuid [simp]:
  "ph_PersonalGuid (ModifyPhasesReferences pid r ps) = ph_PersonalGuid ps"
  "ph_VisibleMapIds (ModifyPhasesReferences pid r ps) = ph_VisibleMapIds ps"
  "ph_UiMapPhaseIds (ModifyPhasesReferences pid r ps) = ph_UiMapPhaseIds ps"
  by (simp_all add: ModifyPhasesReferences_def Let_def split: option.splits)

lemma om_put_put: "om_put k v (om_put k u m) = om_put k v m"
  by (induction k u m rule: om_put.induct) auto

lemma om_put_same: "om_ok m \<Longrightarrow> om_get m k = Some v \<Longrightarrow> om_put k v m = m"
proof (induction k v m rule: om_put.induct)
  case (2 k v a b m)
  have "om_get m k = None" if "k < a" using that "2.prems" by (auto simp: om_get_None_iff om_ok_Cons)
  with 2 show ?case by (auto simp: om_get_def om_ok_Cons split: if_splits)
qed (simp add: om_get_def)

lemma om_erase_put: "om_ok m \<Longrightarrow> om_get m k = None \<Longrightarrow> om_erase k (om_put k v m) = m"
proof (induction k v m rule: om_put.induct)
  case (1 k v)
  then show ?case by (simp add: om_erase_def)
next
  case (2 k v a b m)
  have "filter (\<lambda>(x, y). x \<noteq> k) m = m" using "2.prems" by (force simp: filter_id_conv om_get_None_iff)
  with 2 show ?case by (auto simp: om_erase_def om_get_def om_ok_Cons split: if_splits)
qed

text \<open>
  removing undoes adding: on a shift that is not of the database, adding a phase once and removing it
  once gives back exactly the same shift, flags and counters included; the addition reports whether
  the phase was new, and the removal reports an erasure exactly then (an entry without references
  does not occur in a real shift).
\<close>

theorem PhaseShift_add_remove:
  fixes ops :: "phase_op list"
  defines "ps \<equiv> foldl phase_step PhaseShift_init ops"
  assumes "\<forall>p. om_get (ph_Phases ps) (ucast phaseId) = Some p \<longrightarrow> pr_References p \<noteq> 0" and "\<not> ph_IsDb ps"
  shows "RemovePhase phaseId (fst (AddPhase phaseId f None 1 ps)) = (ps, True, snd (AddPhase phaseId f None 1 ps))
    \<and> snd (AddPhase phaseId f None 1 ps) = (\<not> HasPhase phaseId ps)"
proof -
  let ?pid = "ucast phaseId :: u16"
  have inv: "shift_ok ps" using assms(3) unfolding ps_def by (rule phase_run_ok)
  then have ok: "om_ok (ph_Phases ps)" and db: "\<not> ph_IsDb ps" and fl: "flagged ps" by (simp_all add: shift_ok_def)
  define base where "base = (if om_get (ph_Phases ps) ?pid = None
      then ps\<lparr>ph_Phases := om_put ?pid \<lparr>pr_Flags = f, pr_References = 0, pr_AreaConditions = None\<rparr> (ph_Phases ps)\<rparr> else ps)"
  obtain p where p: "om_get (ph_Phases base) ?pid = Some p" "(om_get (ph_Phases ps) ?pid = None) = (pr_References p = 0)"
    using assms(2) by (cases "om_get (ph_Phases ps) ?pid") (auto simp: base_def)
  have base_ok: "shift_ok base" using inv fresh_entry_ok by (auto simp: base_def)
  have add: "AddPhase phaseId f None 1 ps = (ModifyPhasesReferences ?pid 1 base, om_get (ph_Phases ps) ?pid = None)"
    by (simp add: AddPhase_def Let_def base_def)
  let ?up = "ModifyPhasesReferences ?pid 1 base"
  let ?down = "ModifyPhasesReferences ?pid (-1) ?up"
  have up: "om_get (ph_Phases ?up) ?pid = Some (p\<lparr>pr_References := pr_References p + 1\<rparr>)"
    using p by (simp add: Modify_Phases)
  have dbb: "\<not> ph_IsDb base" "\<not> ph_IsDb ?up" using base_ok by (simp_all add: shift_ok_def)
  have okb: "om_ok (ph_Phases base)" using base_ok by (simp add: shift_ok_def)
  have phases: "ph_Phases ?down = ph_Phases base"
    using up p(1) om_put_same [OF okb p(1)] by (simp add: Modify_Phases [of _ "-1"] om_put_put) (simp add: Modify_Phases om_put_put)
  have counts: "ph_Cosmetic ?down = ph_Cosmetic base" "ph_NonCosmetic ?down = ph_NonCosmetic base"
      "ph_Default ?down = ph_Default base"
    unfolding Modify_counts [OF dbb(2) up] Modify_counts [OF dbb(1) p(1)] by simp_all
  have bits: "bit (ph_Flags ?down) n = bit (ph_Flags base) n" if "n < 32" "n \<noteq> 2 \<and> n \<noteq> 3 \<and> n \<noteq> 4" for n
    using Modify_flag_bits [OF dbb(2) up that(1)] Modify_flag_bits [OF dbb(1) p(1) that(1)] that by (simp add: Let_def)
  have "flagged ?down" "flagged base"
    using Modify_ok [OF Modify_ok [OF base_ok]] base_ok by (simp_all add: shift_ok_def)
  then have flags: "ph_Flags ?down = ph_Flags base"
    by (rule shift_flags_unique) (use counts bits in \<open>auto simp: unphased_def\<close>)
  have down: "?down = base" by (rule phase_shift.equality) (simp_all add: phases counts flags)
  have "RemovePhase phaseId ?up = (if pr_References p = 0
      then (base\<lparr>ph_Phases := om_erase ?pid (ph_Phases base)\<rparr>, True, True) else (base, True, False))"
    using up down by (simp add: RemovePhase_def Let_def)
  moreover have "base\<lparr>ph_Phases := om_erase ?pid (ph_Phases base)\<rparr> = ps" if "pr_References p = 0"
    using that p(2) om_erase_put [OF ok, of ?pid] by (simp add: base_def)
  moreover have "base = ps" if "pr_References p \<noteq> 0" using that p(2) by (auto simp: base_def)
  ultimately show ?thesis using add p(2) by (auto simp: HasPhase_def)
qed

theorem PhaseShift_add_remove_witness:
  "fst (RemovePhase 200 (fst (AddPhase 200 PF_Cosmetic None 1 (foldl phase_step PhaseShift_init [PAdd 300 PF_None None 1]))))
     = foldl phase_step PhaseShift_init [PAdd 300 PF_None None 1]"
proof -
  have "\<forall>p. om_get (ph_Phases (foldl phase_step PhaseShift_init [PAdd 300 PF_None None 1])) (ucast (200 :: u32)) = Some p
      \<longrightarrow> pr_References p \<noteq> 0"
  proof -
    have "om_get (ph_Phases (foldl phase_step PhaseShift_init [PAdd 300 PF_None None 1])) (ucast (200 :: u32)) = None"
      by code_simp
    then show ?thesis by simp
  qed
  moreover have "\<not> ph_IsDb (foldl phase_step PhaseShift_init [PAdd 300 PF_None None 1])"
    unfolding phase_run(2) by simp
  ultimately show ?thesis using PhaseShift_add_remove [of "[PAdd 300 PF_None None 1]" 200 PF_Cosmetic] by simp
qed

section \<open>Who sees whom\<close>













section \<open>Conditions move phases, and nothing else\<close>

abbreviation pget :: "phase_shift \<Rightarrow> u16 \<Rightarrow> phase_ref option" where
  "pget ps k \<equiv> om_get (ph_Phases ps) k"

definition fails :: "(nat \<Rightarrow> bool) \<Rightarrow> phase_ref \<Rightarrow> bool" where
  "fails meets p \<longleftrightarrow> (case pr_AreaConditions p of None \<Rightarrow> False | Some c \<Rightarrow> \<not> meets c)"

lemma AddPhase_fresh:
  assumes "pget ps pid = None"
  shows "pget (fst (AddPhase (ucast pid) f c r ps)) k =
      (if k = pid then Some \<lparr>pr_Flags = f, pr_References = r, pr_AreaConditions = c\<rparr> else pget ps k)"
    and "snd (AddPhase (ucast pid) f c r ps)"
  using assms by (auto simp: AddPhase_def Let_def Modify_Phases split: option.splits)

lemma erase_phase_get:
  "pget (erase_phase pid p ps) k = (if k = pid then None else pget ps k)"
  by (auto simp: erase_phase_def Let_def Modify_Phases split: option.splits)

lemma entry_eta: "pr_AreaConditions p = c \<Longrightarrow> \<lparr>pr_Flags = pr_Flags p, pr_References = pr_References p, pr_AreaConditions = c\<rparr> = p"
  by (cases p) simp

lemma suppress_loop_get:
  assumes "om_ok L" and "\<forall>(pid, p) \<in> set L. pget new pid = None"
    and "suppress_loop meets L (ps, new) = (ps', new')"
  shows "pget ps' k = (case om_get L k of Some p \<Rightarrow> if fails meets p then None else pget ps k | None \<Rightarrow> pget ps k) \<and>
    pget new' k = (case om_get L k of Some p \<Rightarrow> if fails meets p then Some p else pget new k | None \<Rightarrow> pget new k)"
  using assms
proof (induction L arbitrary: ps new)
  case Nil
  then show ?case by (simp add: om_get_def)
next
  case (Cons x L)
  obtain pid p where x: "x = (pid, p)" by fastforce
  have ok: "om_ok L" and none: "om_get L pid = None"
    using Cons.prems(1) x by (auto simp: om_ok_Cons om_get_None_iff)
  have fresh: "pget new pid = None" using Cons.prems(2) x by simp
  show ?case
  proof (cases "fails meets p")
    case False
    then have run: "suppress_loop meets L (ps, new) = (ps', new')"
      using Cons.prems(3) x by (auto simp: fails_def split: option.splits)
    have "\<forall>(pid, p) \<in> set L. pget new pid = None" using Cons.prems(2) by simp
    from Cons.IH [OF ok this run] show ?thesis using False none x by (auto simp: om_get_Cons)
  next
    case True
    then obtain c where c: "pr_AreaConditions p = Some c" "\<not> meets c" by (auto simp: fails_def split: option.splits)
    let ?new = "fst (AddPhase (ucast pid) (pr_Flags p) (Some c) (pr_References p) new)"
    have run: "suppress_loop meets L (erase_phase pid p ps, ?new) = (ps', new')"
      using Cons.prems(3) x c by simp
    have "\<forall>(q, p) \<in> set L. pget ?new q = None"
      using Cons.prems(1,2) x AddPhase_fresh(1) [OF fresh] by (fastforce simp: om_ok_Cons)
    from Cons.IH [OF ok this run] show ?thesis
      using True none x AddPhase_fresh(1) [OF fresh] entry_eta [OF c(1)]
      by (auto simp: om_get_Cons erase_phase_get split: option.split)
  qed
qed

lemma restore_loop_get:
  assumes "om_ok L" and "\<forall>(pid, p) \<in> set L. pget ps pid = None \<and> pr_AreaConditions p \<noteq> None"
    and "restore_loop meets L (ps, supp, ch) = (ps', supp', ch')"
  shows "(pget ps' k = (case om_get L k of Some p \<Rightarrow> if fails meets p then pget ps k else Some p | None \<Rightarrow> pget ps k)) \<and>
    (pget supp' k = (case om_get L k of Some p \<Rightarrow> if fails meets p then pget supp k else None | None \<Rightarrow> pget supp k)) \<and>
    ch' = (ch \<or> (\<exists>(q, p) \<in> set L. \<not> fails meets p))"
  using assms
proof (induction L arbitrary: ps supp ch)
  case Nil
  then show ?case by (simp add: om_get_def)
next
  case (Cons x L)
  obtain pid p where x: "x = (pid, p)" by fastforce
  have ok: "om_ok L" and none: "om_get L pid = None"
    using Cons.prems(1) x by (auto simp: om_ok_Cons om_get_None_iff)
  have fresh: "pget ps pid = None" using Cons.prems(2) x by simp
  obtain c where c: "pr_AreaConditions p = Some c" using Cons.prems(2) x by auto
  show ?case
  proof (cases "meets c")
    case False
    then have run: "restore_loop meets L (ps, supp, ch) = (ps', supp', ch')"
      using Cons.prems(3) x c by simp
    have "\<forall>(pid, p) \<in> set L. pget ps pid = None \<and> pr_AreaConditions p \<noteq> None" using Cons.prems(2) by simp
    from Cons.IH [OF ok this run] show ?thesis using False none x c by (auto simp: om_get_Cons fails_def)
  next
    case True
    let ?add = "AddPhase (ucast pid) (pr_Flags p) (Some c) (pr_References p) ps"
    have run: "restore_loop meets L (fst ?add, erase_phase pid p supp, True) = (ps', supp', ch')"
      using Cons.prems(3) x c True AddPhase_fresh(2) [OF fresh, of "pr_Flags p" "Some c" "pr_References p"]
      by (cases ?add) simp
    have "\<forall>(q, p) \<in> set L. pget (fst ?add) q = None \<and> pr_AreaConditions p \<noteq> None"
      using Cons.prems(1,2) x AddPhase_fresh(1) [OF fresh] by (fastforce simp: om_ok_Cons)
    from Cons.IH [OF ok this run] show ?thesis
      using True none x c AddPhase_fresh(1) [OF fresh] entry_eta [OF c]
      by (auto simp: om_get_Cons erase_phase_get fails_def [of meets p] split: option.split)
  qed
qed

lemma transfer_loop_get:
  assumes "om_ok L" and "\<forall>(pid, p) \<in> set L. pget supp pid = None"
  shows "pget (transfer_loop L supp) k = (case om_get L k of Some p \<Rightarrow> Some p | None \<Rightarrow> pget supp k)"
  using assms
proof (induction L arbitrary: supp)
  case Nil
  then show ?case by (simp add: om_get_def)
next
  case (Cons x L)
  obtain pid p where x: "x = (pid, p)" by fastforce
  have ok: "om_ok L" and none: "om_get L pid = None"
    using Cons.prems(1) x by (auto simp: om_ok_Cons om_get_None_iff)
  have fresh: "pget supp pid = None" using Cons.prems(2) x by simp
  let ?s = "fst (AddPhase (ucast pid) (pr_Flags p) (pr_AreaConditions p) (pr_References p) supp)"
  have "\<forall>(q, p) \<in> set L. pget ?s q = None"
    using Cons.prems(1,2) x AddPhase_fresh(1) [OF fresh] by (fastforce simp: om_ok_Cons)
  from Cons.IH [OF ok this] show ?case
    using none x AddPhase_fresh(1) [OF fresh] entry_eta [OF refl, of p] by (auto simp: om_get_Cons split: option.split)
qed

lemma om_ok_AddPhase: "om_ok (ph_Phases ps) \<Longrightarrow> om_ok (ph_Phases (fst (AddPhase phaseId f c r ps)))"
  by (auto simp: AddPhase_def Let_def Modify_Phases split: option.splits)

lemma om_ok_suppress:
  "om_ok (ph_Phases new) \<Longrightarrow> suppress_loop meets L (ps, new) = (ps', new') \<Longrightarrow> om_ok (ph_Phases new')"
proof (induction L arbitrary: ps new)
  case (Cons x L)
  then show ?case by (cases x) (auto split: option.splits if_splits intro: om_ok_AddPhase)
qed simp

text \<open>
  a condition change moves phases between the active and the suppressed shift and loses nothing:
  for an object without phase auras, whose two shifts share no id, afterwards every entry is there
  unchanged, in the active shift exactly if it has no conditions or the object meets them, and a
  change is reported exactly if some entry moved.
\<close>

theorem OnConditionChange_partition:
  assumes "om_ok (ph_Phases ps)" and "om_ok (ph_Phases supp)"
    and "\<forall>k. pget ps k = None \<or> pget supp k = None"
    and "\<forall>k q. pget supp k = Some q \<longrightarrow> pr_AreaConditions q \<noteq> None"
    and "OnConditionChange store meets [] (ps, supp) = ((ps', supp'), changed)"
  shows "(let entry = (\<lambda>k. case pget ps k of Some p \<Rightarrow> Some p | None \<Rightarrow> pget supp k) in
      \<forall>k. pget ps' k = (case entry k of None \<Rightarrow> None | Some p \<Rightarrow> if fails meets p then None else Some p)
        \<and> pget supp' k = (case entry k of None \<Rightarrow> None | Some p \<Rightarrow> if fails meets p then Some p else None)) \<and>
    changed = (\<exists>k. pget ps' k \<noteq> pget ps k)"
proof -
  obtain ps1 new1 where l1: "suppress_loop meets (ph_Phases ps) (ps, PhaseShift_init) = (ps1, new1)" by fastforce
  obtain ps2 supp2 ch where l2: "restore_loop meets (ph_Phases supp) (ps1, supp, False) = (ps2, supp2, ch)"
    by (metis surj_pair)
  have out: "ps' = ps2" "supp' = transfer_loop (ph_Phases new1) supp2" "changed = (ch \<or> ph_Phases new1 \<noteq> [])"
    using assms(5) l1 l2 by (auto simp: OnConditionChange_def)
  have empty: "pget PhaseShift_init k = None" for k by (simp add: PhaseShift_init_def om_get_def)
  have pre1: "\<forall>(pid, p) \<in> set (ph_Phases ps). pget PhaseShift_init pid = None" by (simp add: empty case_prod_unfold)
  have g1: "pget ps1 k = (case pget ps k of Some p \<Rightarrow> if fails meets p then None else Some p | None \<Rightarrow> None)"
    "pget new1 k = (case pget ps k of Some p \<Rightarrow> if fails meets p then Some p else None | None \<Rightarrow> None)" for k
    using suppress_loop_get [OF assms(1) pre1 l1, of k] by (cases "pget ps k"; simp add: empty)+
  have ok_new: "om_ok (ph_Phases new1)"
    by (rule om_ok_suppress [OF _ l1]) (simp add: PhaseShift_init_def)
  have pre2: "\<forall>(pid, p) \<in> set (ph_Phases supp). pget ps1 pid = None \<and> pr_AreaConditions p \<noteq> None"
  proof clarify
    fix pid p assume "(pid, p) \<in> set (ph_Phases supp)"
    then have q: "pget supp pid = Some p" using om_ok_get_iff [OF assms(2)] by blast
    then have "pget ps pid = None" using assms(3) by (metis option.distinct(1))
    then show "pget ps1 pid = None \<and> pr_AreaConditions p \<noteq> None" using g1(1) [of pid] q assms(4) by simp
  qed
  have g2: "pget ps2 k = (case pget supp k of Some p \<Rightarrow> if fails meets p then pget ps1 k else Some p | None \<Rightarrow> pget ps1 k)"
    "pget supp2 k = (case pget supp k of Some p \<Rightarrow> if fails meets p then Some p else None | None \<Rightarrow> None)" for k
    using restore_loop_get [OF assms(2) pre2 l2, of k] by (cases "pget supp k"; simp)+
  have ch: "ch = (\<exists>(q, p) \<in> set (ph_Phases supp). \<not> fails meets p)"
    using restore_loop_get [OF assms(2) pre2 l2, of 0] by simp
  have pre3: "\<forall>(pid, p) \<in> set (ph_Phases new1). pget supp2 pid = None"
  proof clarify
    fix pid p assume "(pid, p) \<in> set (ph_Phases new1)"
    then have "pget new1 pid = Some p" using om_ok_get_iff [OF ok_new] by blast
    then have "pget ps pid \<noteq> None" using g1(2) [of pid] by (auto split: option.splits)
    then have "pget supp pid = None" using assms(3) [rule_format, of pid] by auto
    then show "pget supp2 pid = None" using g2(2) [of pid] by simp
  qed
  have g3: "pget supp' k = (case pget new1 k of Some p \<Rightarrow> Some p | None \<Rightarrow> pget supp2 k)" for k
    unfolding out(2) by (rule transfer_loop_get [OF ok_new pre3])
  have place: "pget ps' k = (case (case pget ps k of Some p \<Rightarrow> Some p | None \<Rightarrow> pget supp k) of
        None \<Rightarrow> None | Some p \<Rightarrow> if fails meets p then None else Some p)
      \<and> pget supp' k = (case (case pget ps k of Some p \<Rightarrow> Some p | None \<Rightarrow> pget supp k) of
        None \<Rightarrow> None | Some p \<Rightarrow> if fails meets p then Some p else None)" for k
    using assms(3) [rule_format, of k] unfolding g3 out(1) g2 g1
    by (cases "pget ps k"; cases "pget supp k") auto
  have moved_new: "ph_Phases new1 \<noteq> [] \<longleftrightarrow> (\<exists>k p. pget ps k = Some p \<and> fails meets p)"
  proof -
    have "ph_Phases new1 \<noteq> [] \<longleftrightarrow> (\<exists>k p. pget new1 k = Some p)"
      using om_ok_get_iff [OF ok_new] by (metis list.set_intros(1) neq_Nil_conv om_get_Nil option.distinct(1) surj_pair)
    then show ?thesis unfolding g1 by (auto split: option.splits if_splits)
  qed
  have ch': "ch \<longleftrightarrow> (\<exists>k q. pget supp k = Some q \<and> \<not> fails meets q)"
    unfolding ch using om_ok_get_iff [OF assms(2)] by fastforce
  have "changed = (\<exists>k. pget ps' k \<noteq> pget ps k)"
    unfolding out(3) moved_new ch' using place assms(3)
    by (auto split: option.splits if_splits) (metis option.distinct(1) option.sel)+
  with place show ?thesis by (simp add: Let_def)
qed

theorem OnConditionChange_partition_witness:
  "pget (snd (fst (OnConditionChange Map.empty (\<lambda>c. c = 1) []
     (foldl phase_step PhaseShift_init [PAdd 200 PF_None (Some 2) 1], foldl phase_step PhaseShift_init [PAdd 300 PF_None (Some 1) 1])))) 300
   = None"
proof -
  let ?ps = "foldl phase_step PhaseShift_init [PAdd 200 PF_None (Some 2) 1]"
  let ?supp = "foldl phase_step PhaseShift_init [PAdd 300 PF_None (Some 1) 1]"
  have ph: "ph_Phases ?ps = [(200, \<lparr>pr_Flags = 0, pr_References = 1, pr_AreaConditions = Some 2\<rparr>)]"
    "ph_Phases ?supp = [(300, \<lparr>pr_Flags = 0, pr_References = 1, pr_AreaConditions = Some 1\<rparr>)]" by code_simp+
  have 1: "om_ok (ph_Phases ?ps)" "om_ok (ph_Phases ?supp)" unfolding ph by (simp_all add: om_ok_def)
  have 2: "\<forall>k. pget ?ps k = None \<or> pget ?supp k = None" "\<forall>k q. pget ?supp k = Some q \<longrightarrow> pr_AreaConditions q \<noteq> None"
    unfolding ph by (auto simp: om_get_def)
  obtain ps' supp' ch where run: "OnConditionChange Map.empty (\<lambda>c. c = 1) [] (?ps, ?supp) = ((ps', supp'), ch)"
    by (metis surj_pair)
  have "pget supp' 300 = None"
    using OnConditionChange_partition [OF 1 2 run] unfolding ph Let_def
    by (auto simp: om_get_def fails_def)
  with run show ?thesis by simp
qed

end
