(* ===== verification/Combat_Manager.thy ===== *)
theory Combat_Manager
  imports Prelude
begin

text \<open>
  The combat manager, \<^verbatim>\<open>src/server/game/Combat/CombatManager.{h,cpp}\<close>: which pairs of
  units are in combat, and the \<^verbatim>\<open>IN_COMBAT\<close> flag derived from it.  The references that two
  managers share are cells of a heap \<open>cw_refs\<close>, and each unit's two maps hold addresses, as
  the pointers of the code do.  Units are named by their GUID.  An \<^verbatim>\<open>unordered_map\<close> is kept in
  key order here, so its loops run in key order.

  What the operations read of a unit (position, life, phase, faction, owner) is the argument
  \<open>e\<close>.  What they call in other components (the threat manager, the hooks
  \<^verbatim>\<open>AtEnterCombat\<close> and its siblings, the AI) is written to \<open>cw_log\<close> in the order of the calls;
  the bodies of those calls are not run.  A failed \<^verbatim>\<open>ASSERT\<close> clears \<open>cw_asserts\<close>, or
  \<open>cw_pet_asserts\<close> for the one in \<^verbatim>\<open>Unit::UpdatePetCombatState\<close>.
\<close>

section \<open>Units, references and managers\<close>

record combat_unit =
  cu_in_world :: bool
  cu_alive :: bool
  cu_map :: nat
  cu_evade :: bool
  cu_in_flight :: bool
  cu_player_gm :: "bool option" \<comment> \<open>the game master flag of the player who is or controls it\<close>
  cu_by_player :: bool
  cu_flag_player_controlled :: bool
  cu_is_player :: bool
  cu_is_creature :: bool
  cu_is_pet :: bool
  cu_immune_pc :: bool
  cu_immune_npc :: bool
  cu_has_ai :: bool
  cu_master :: "guid option"
  cu_controlled :: "guid list"

record combat_env =
  ce_unit :: "guid \<Rightarrow> combat_unit"
  ce_friendly :: "guid \<Rightarrow> guid \<Rightarrow> bool"
  ce_in_phase :: "guid \<Rightarrow> guid \<Rightarrow> bool"
  ce_within :: "guid \<Rightarrow> guid \<Rightarrow> float32 \<Rightarrow> bool"

record combat_ref =
  cr_first :: guid
  cr_second :: guid
  cr_pvp :: bool
  cr_suppress_first :: bool
  cr_suppress_second :: bool
  cr_timer :: u32

type_synonym unit_filter = "(guid \<Rightarrow> bool) option"

datatype combat_call =
    CallClearThreat guid guid
  | CallRemoveFromThreatLists guid unit_filter
  | CallClearAllThreat guid
  | CallEnterCombat guid
  | CallEngage guid "guid option"
  | CallExitCombat guid
  | CallDisengage guid
  | CallJustEntered guid guid
  | CallJustExited guid

record combat_world =
  cw_refs :: "nat \<rightharpoonup> combat_ref"
  cw_next :: nat
  cw_pve :: "guid \<Rightarrow> (guid, nat) omap"
  cw_pvp :: "guid \<Rightarrow> (guid, nat) omap"
  cw_flag :: "guid \<Rightarrow> bool"
  cw_pet_flag :: "guid \<Rightarrow> bool"
  cw_log :: "combat_call list"
  cw_asserts :: bool
  cw_pet_asserts :: bool

definition Combat_init :: combat_world where
  "Combat_init = \<lparr>cw_refs = Map.empty, cw_next = 0, cw_pve = (\<lambda>_. []), cw_pvp = (\<lambda>_. []),
     cw_flag = (\<lambda>_. False), cw_pet_flag = (\<lambda>_. False), cw_log = [],
     cw_asserts = True, cw_pet_asserts = True\<rparr>"

definition call :: "combat_call \<Rightarrow> combat_world \<Rightarrow> combat_world" where
  "call c w = w\<lparr>cw_log := cw_log w @ [c]\<rparr>"

definition PVP_COMBAT_TIMEOUT :: u32 where
  "PVP_COMBAT_TIMEOUT = 5 * 1000"

definition GetOther :: "combat_ref \<Rightarrow> guid \<Rightarrow> guid" where
  "GetOther r me = (if cr_first r = me then cr_second r else cr_first r)"

definition IsSuppressedFor :: "combat_ref \<Rightarrow> guid \<Rightarrow> bool" where
  "IsSuppressedFor r who =
     (if who = cr_first r then cr_suppress_first r else cr_suppress_second r)"

definition Suppress :: "guid \<Rightarrow> combat_ref \<Rightarrow> combat_ref" where
  "Suppress who r =
     (if who = cr_first r then r\<lparr>cr_suppress_first := True\<rparr> else r\<lparr>cr_suppress_second := True\<rparr>)"

definition deref :: "combat_world \<Rightarrow> nat \<Rightarrow> combat_ref" where
  "deref w i = the (cw_refs w i)"

definition write_ref :: "nat \<Rightarrow> combat_ref \<Rightarrow> combat_world \<Rightarrow> combat_world" where
  "write_ref i r w = w\<lparr>cw_refs := (cw_refs w)(i \<mapsto> r)\<rparr>"

section \<open>Queries\<close>

definition CanBeginCombat :: "combat_env \<Rightarrow> guid \<Rightarrow> guid \<Rightarrow> bool" where
  "CanBeginCombat e a b = (let ua = ce_unit e a; ub = ce_unit e b in
     if a = b then False
     else if \<not> cu_in_world ua \<or> \<not> cu_in_world ub then False
     else if \<not> cu_alive ua \<or> \<not> cu_alive ub then False
     else if cu_map ua \<noteq> cu_map ub then False
     else if \<not> ce_in_phase e a b then False
     else if cu_evade ua \<or> cu_evade ub then False
     else if cu_in_flight ua \<or> cu_in_flight ub then False
     else if ce_friendly e a b \<or> ce_friendly e b a then False
     else if cu_player_gm ua = Some True \<or> cu_player_gm ub = Some True then False
     else True)"

definition HasPvECombat :: "combat_world \<Rightarrow> guid \<Rightarrow> bool" where
  "HasPvECombat w u = list_ex (\<lambda>(g, i). \<not> IsSuppressedFor (deref w i) u) (cw_pve w u)"

definition HasPvECombatWithPlayers :: "combat_env \<Rightarrow> combat_world \<Rightarrow> guid \<Rightarrow> bool" where
  "HasPvECombatWithPlayers e w u = list_ex (\<lambda>(g, i). \<not> IsSuppressedFor (deref w i) u
     \<and> cu_is_player (ce_unit e (GetOther (deref w i) u))) (cw_pve w u)"

definition HasPvPCombat :: "combat_world \<Rightarrow> guid \<Rightarrow> bool" where
  "HasPvPCombat w u = list_ex (\<lambda>(g, i). \<not> IsSuppressedFor (deref w i) u) (cw_pvp w u)"

definition HasCombat :: "combat_world \<Rightarrow> guid \<Rightarrow> bool" where
  "HasCombat w u \<longleftrightarrow> HasPvECombat w u \<or> HasPvPCombat w u"

fun first_target :: "combat_world \<Rightarrow> guid \<Rightarrow> (guid \<times> nat) list \<Rightarrow> guid option" where
  "first_target w u [] = None"
| "first_target w u ((g, i) # rest) =
     (if \<not> IsSuppressedFor (deref w i) u then Some (GetOther (deref w i) u)
      else first_target w u rest)"

definition GetAnyTarget :: "combat_world \<Rightarrow> guid \<Rightarrow> guid option" where
  "GetAnyTarget w u = (case first_target w u (cw_pve w u) of Some t \<Rightarrow> Some t
     | None \<Rightarrow> first_target w u (cw_pvp w u))"

definition IsInCombatWith :: "combat_world \<Rightarrow> guid \<Rightarrow> guid \<Rightarrow> bool" where
  "IsInCombatWith w u who \<longleftrightarrow> om_get (cw_pve w u) who \<noteq> None \<or> om_get (cw_pvp w u) who \<noteq> None"

section \<open>The combat flag\<close>

text \<open>\<^verbatim>\<open>Unit::UpdatePetCombatState\<close> of the unit's charmer or owner.\<close>

definition UpdatePetCombatState :: "combat_env \<Rightarrow> guid \<Rightarrow> combat_world \<Rightarrow> combat_world" where
  "UpdatePetCombatState e m w =
     (let w1 = w\<lparr>cw_pet_asserts := cw_pet_asserts w \<and> \<not> cu_is_pet (ce_unit e m)\<rparr> in
      if cw_flag w1 m then w1
      else w1\<lparr>cw_pet_flag := (cw_pet_flag w1)
             (m := list_ex (\<lambda>c. cw_flag w1 c) (cu_controlled (ce_unit e m)))\<rparr>)"

definition set_combat_flags :: "guid \<Rightarrow> bool \<Rightarrow> combat_world \<Rightarrow> combat_world" where
  "set_combat_flags u b w =
     w\<lparr>cw_flag := (cw_flag w)(u := b), cw_pet_flag := (cw_pet_flag w)(u := b)\<rparr>"

definition UpdateOwnerCombatState ::
  "combat_env \<Rightarrow> guid \<Rightarrow> combat_world \<Rightarrow> combat_world \<times> bool" where
  "UpdateOwnerCombatState e u w = (let combatState = HasCombat w u in
     if combatState = cw_flag w u then (w, False)
     else
       let w1 = set_combat_flags u combatState w;
           w2 = call (if combatState then CallEnterCombat u else CallExitCombat u) w1;
           w3 = (if cu_is_creature (ce_unit e u) then w2
                 else call (if combatState then CallEngage u (GetAnyTarget w2 u)
                            else CallDisengage u) w2);
           w4 = (case cu_master (ce_unit e u) of None \<Rightarrow> w3
                 | Some m \<Rightarrow> UpdatePetCombatState e m w3)
       in (w4, True))"

definition NotifyAICombat :: "combat_env \<Rightarrow> guid \<Rightarrow> guid \<Rightarrow> combat_world \<Rightarrow> combat_world" where
  "NotifyAICombat e me other w =
     (if cu_has_ai (ce_unit e me) then call (CallJustEntered me other) w else w)"

definition notify_exit :: "combat_env \<Rightarrow> guid \<Rightarrow> combat_world \<Rightarrow> combat_world" where
  "notify_exit e me w = (if cu_has_ai (ce_unit e me) then call (CallJustExited me) w else w)"

section \<open>References: registration and end\<close>

definition PutReference :: "guid \<Rightarrow> guid \<Rightarrow> nat \<Rightarrow> combat_world \<Rightarrow> combat_world" where
  "PutReference u g i w =
     (if cr_pvp (deref w i) then
        w\<lparr>cw_asserts := cw_asserts w \<and> om_get (cw_pvp w u) g = None,
          cw_pvp := (cw_pvp w)(u := om_put g i (cw_pvp w u))\<rparr>
      else
        w\<lparr>cw_asserts := cw_asserts w \<and> om_get (cw_pve w u) g = None,
          cw_pve := (cw_pve w)(u := om_put g i (cw_pve w u))\<rparr>)"

definition PurgeReference :: "guid \<Rightarrow> guid \<Rightarrow> bool \<Rightarrow> combat_world \<Rightarrow> combat_world" where
  "PurgeReference u g pvp w =
     (if pvp then w\<lparr>cw_pvp := (cw_pvp w)(u := om_erase g (cw_pvp w u))\<rparr>
      else w\<lparr>cw_pve := (cw_pve w)(u := om_erase g (cw_pve w u))\<rparr>)"

definition EndCombat :: "combat_env \<Rightarrow> nat \<Rightarrow> combat_world \<Rightarrow> combat_world" where
  "EndCombat e i w =
     (let r = deref w i; a = cr_first r; b = cr_second r;
          w1 = call (CallClearThreat b a) (call (CallClearThreat a b) w);
          w2 = PurgeReference b a (cr_pvp r) (PurgeReference a b (cr_pvp r) w1);
          (w3, needFirstAI) = UpdateOwnerCombatState e a w2;
          (w4, needSecondAI) = UpdateOwnerCombatState e b w3;
          w5 = (if needFirstAI then notify_exit e a w4 else w4);
          w6 = (if needSecondAI then notify_exit e b w5 else w5)
      in w6\<lparr>cw_refs := (cw_refs w6)(i := None)\<rparr>)"

definition Refresh :: "combat_env \<Rightarrow> nat \<Rightarrow> combat_world \<Rightarrow> combat_world" where
  "Refresh e i w =
     (let a = cr_first (deref w i); b = cr_second (deref w i);
          (w1, needFirstAI) =
            (if cr_suppress_first (deref w i)
             then UpdateOwnerCombatState e a
                    (write_ref i ((deref w i)\<lparr>cr_suppress_first := False\<rparr>) w)
             else (w, False));
          (w2, needSecondAI) =
            (if cr_suppress_second (deref w1 i)
             then UpdateOwnerCombatState e b
                    (write_ref i ((deref w1 i)\<lparr>cr_suppress_second := False\<rparr>) w1)
             else (w1, False));
          w3 = (if needFirstAI then NotifyAICombat e a b w2 else w2)
      in if needSecondAI then NotifyAICombat e b a w3 else w3)"

definition SuppressFor :: "combat_env \<Rightarrow> nat \<Rightarrow> guid \<Rightarrow> combat_world \<Rightarrow> combat_world" where
  "SuppressFor e i who w =
     (let w1 = write_ref i (Suppress who (deref w i)) w;
          (w2, changed) = UpdateOwnerCombatState e who w1
      in if changed then notify_exit e who w2 else w2)"

definition PvP_Update :: "u32 \<Rightarrow> combat_ref \<Rightarrow> combat_ref \<times> bool" where
  "PvP_Update tdiff r =
     (if cr_timer r \<le> tdiff then (r, False)
      else (r\<lparr>cr_timer := cr_timer r - tdiff\<rparr>, True))"

definition RefreshTimer :: "combat_ref \<Rightarrow> combat_ref" where
  "RefreshTimer r = r\<lparr>cr_timer := PVP_COMBAT_TIMEOUT\<rparr>"

section \<open>The manager's operations\<close>

fun update_loop :: "combat_env \<Rightarrow> guid \<Rightarrow> u32 \<Rightarrow> (guid \<times> nat) list \<Rightarrow> combat_world \<Rightarrow> combat_world"
where
  "update_loop e u tdiff [] w = w"
| "update_loop e u tdiff ((g, i) # rest) w =
     (if cr_first (deref w i) = u then
        (case PvP_Update tdiff (deref w i) of (r, alive) \<Rightarrow>
           if \<not> alive
           then update_loop e u tdiff rest
                  (EndCombat e i (PurgeReference u g True (write_ref i r w)))
           else update_loop e u tdiff rest (write_ref i r w))
      else update_loop e u tdiff rest w)"

definition Combat_Update :: "combat_env \<Rightarrow> guid \<Rightarrow> u32 \<Rightarrow> combat_world \<Rightarrow> combat_world" where
  "Combat_Update e u tdiff w = update_loop e u tdiff (cw_pvp w u) w"

definition SetInCombatWith ::
  "combat_env \<Rightarrow> guid \<Rightarrow> guid \<Rightarrow> bool \<Rightarrow> combat_world \<Rightarrow> combat_world \<times> bool" where
  "SetInCombatWith e u who addSecondUnitSuppressed w =
     (case om_get (cw_pvp w u) who of
        Some i \<Rightarrow> (Refresh e i (write_ref i (RefreshTimer (deref w i)) w), True)
      | None \<Rightarrow>
     (case om_get (cw_pve w u) who of
        Some i \<Rightarrow> (Refresh e i w, True)
      | None \<Rightarrow>
     if \<not> CanBeginCombat e u who then (w, False)
     else
       let pvp = (cu_by_player (ce_unit e u) \<and> cu_by_player (ce_unit e who));
           ref = \<lparr>cr_first = u, cr_second = who, cr_pvp = pvp, cr_suppress_first = False,
                  cr_suppress_second = False, cr_timer = PVP_COMBAT_TIMEOUT\<rparr>;
           ref' = (if addSecondUnitSuppressed then Suppress who ref else ref);
           i = cw_next w;
           w1 = write_ref i ref' (w\<lparr>cw_next := Suc i\<rparr>);
           w2 = PutReference who u i (PutReference u who i w1);
           (w3, needSelfAI) = UpdateOwnerCombatState e u w2;
           (w4, needOtherAI) = UpdateOwnerCombatState e who w3;
           w5 = (if needSelfAI then NotifyAICombat e u who w4 else w4);
           w6 = (if needOtherAI then NotifyAICombat e who u w5 else w5)
       in (w6, IsInCombatWith w6 u who)))"

fun inherit_loop ::
  "combat_env \<Rightarrow> guid \<Rightarrow> guid \<Rightarrow> (guid \<times> nat) list \<Rightarrow> combat_world \<Rightarrow> combat_world" where
  "inherit_loop e u who [] w = w"
| "inherit_loop e u who ((g, i) # rest) w =
     (if \<not> IsInCombatWith w u g then
        let target = GetOther (deref w i) who in
        if (cu_immune_pc (ce_unit e u) \<and> cu_flag_player_controlled (ce_unit e target))
           \<or> (cu_immune_npc (ce_unit e u) \<and> \<not> cu_flag_player_controlled (ce_unit e target))
        then inherit_loop e u who rest w
        else inherit_loop e u who rest (fst (SetInCombatWith e u target False w))
      else inherit_loop e u who rest w)"

definition InheritCombatStatesFrom :: "combat_env \<Rightarrow> guid \<Rightarrow> guid \<Rightarrow> combat_world \<Rightarrow> combat_world"
where
  "InheritCombatStatesFrom e u who w =
     (let w1 = inherit_loop e u who (cw_pve w who) w
      in inherit_loop e u who (cw_pvp w1 who) w1)"

fun end_where ::
  "combat_env \<Rightarrow> (combat_ref \<Rightarrow> bool) \<Rightarrow> guid \<Rightarrow> bool \<Rightarrow> (guid \<times> nat) list \<Rightarrow> combat_world \<Rightarrow> combat_world"
where
  "end_where e P u pvp [] w = w"
| "end_where e P u pvp ((g, i) # rest) w =
     (if P (deref w i)
      then end_where e P u pvp rest (EndCombat e i (PurgeReference u g pvp w))
      else end_where e P u pvp rest w)"

definition EndCombatBeyondRange ::
  "combat_env \<Rightarrow> guid \<Rightarrow> float32 \<Rightarrow> bool \<Rightarrow> combat_world \<Rightarrow> combat_world" where
  "EndCombatBeyondRange e u maxRange includingPvP w =
     (let far = (\<lambda>r. \<not> ce_within e (cr_first r) (cr_second r) maxRange);
          w1 = end_where e far u False (cw_pve w u) w
      in if \<not> includingPvP then w1 else end_where e far u True (cw_pvp w1 u) w1)"

definition RevalidateCombat :: "combat_env \<Rightarrow> guid \<Rightarrow> combat_world \<Rightarrow> combat_world" where
  "RevalidateCombat e u w =
     (let invalid = (\<lambda>r. \<not> CanBeginCombat e u (GetOther r u));
          w1 = end_where e invalid u False (cw_pve w u) w
      in end_where e invalid u True (cw_pvp w1 u) w1)"

definition passes :: "unit_filter \<Rightarrow> guid \<Rightarrow> bool" where
  "passes f g = (case f of None \<Rightarrow> True | Some p \<Rightarrow> p g)"

fun suppress_refs :: "unit_filter \<Rightarrow> guid \<Rightarrow> (guid \<times> nat) list \<Rightarrow> combat_world \<Rightarrow> combat_world" where
  "suppress_refs f u [] w = w"
| "suppress_refs f u ((g, i) # rest) w =
     (if passes f (GetOther (deref w i) u)
      then suppress_refs f u rest (write_ref i (Suppress u (deref w i)) w)
      else suppress_refs f u rest w)"

definition SuppressPvPCombat :: "combat_env \<Rightarrow> guid \<Rightarrow> unit_filter \<Rightarrow> combat_world \<Rightarrow> combat_world"
where
  "SuppressPvPCombat e u f w =
     (let w1 = suppress_refs f u (cw_pvp w u) w;
          (w2, changed) = UpdateOwnerCombatState e u w1
      in if changed then notify_exit e u w2 else w2)"

definition collect_refs :: "unit_filter \<Rightarrow> guid \<Rightarrow> combat_world \<Rightarrow> (guid \<times> nat) list \<Rightarrow> nat list" where
  "collect_refs f u w m = map snd (filter (\<lambda>(g, i). passes f (GetOther (deref w i) u)) m)"

definition end_all :: "combat_env \<Rightarrow> nat list \<Rightarrow> combat_world \<Rightarrow> combat_world" where
  "end_all e ids w = fold (EndCombat e) ids w"

definition EndAllPvECombat :: "combat_env \<Rightarrow> guid \<Rightarrow> unit_filter \<Rightarrow> combat_world \<Rightarrow> combat_world"
where
  "EndAllPvECombat e u f w =
     (let w1 = call (CallClearAllThreat u) (call (CallRemoveFromThreatLists u f) w)
      in end_all e (collect_refs f u w1 (cw_pve w1 u)) w1)"

definition EndAllPvPCombat :: "combat_env \<Rightarrow> guid \<Rightarrow> unit_filter \<Rightarrow> combat_world \<Rightarrow> combat_world"
where
  "EndAllPvPCombat e u f w = end_all e (collect_refs f u w (cw_pvp w u)) w"

definition EndAllCombat :: "combat_env \<Rightarrow> guid \<Rightarrow> unit_filter \<Rightarrow> combat_world \<Rightarrow> combat_world"
where
  "EndAllCombat e u f w = EndAllPvPCombat e u f (EndAllPvECombat e u f w)"


section \<open>Registration and the combat flag as an invariant\<close>

definition tab :: "combat_world \<Rightarrow> bool \<Rightarrow> guid \<Rightarrow> (guid, nat) omap" where
  "tab w p = (if p then cw_pvp w else cw_pve w)"

definition joins :: "combat_ref \<Rightarrow> guid \<Rightarrow> guid \<Rightarrow> bool" where
  "joins r u g \<longleftrightarrow> (cr_first r = u \<and> cr_second r = g) \<or> (cr_first r = g \<and> cr_second r = u)"

definition side_of :: "combat_ref \<Rightarrow> guid \<Rightarrow> bool" where
  "side_of r u \<longleftrightarrow> u = cr_first r \<or> u = cr_second r"

definition refs_ok :: "combat_world \<Rightarrow> bool" where
  "refs_ok w \<longleftrightarrow>
     (\<forall>p u. om_ok (tab w p u))
     \<and> (\<forall>p u g i. om_get (tab w p u) g = Some i
          \<longleftrightarrow> (\<exists>r. cw_refs w i = Some r \<and> cr_pvp r = p \<and> joins r u g))
     \<and> (\<forall>i r. cw_refs w i = Some r \<longrightarrow> cr_first r \<noteq> cr_second r \<and> i < cw_next w)
     \<and> (\<forall>u g. om_get (cw_pve w u) g = None \<or> om_get (cw_pvp w u) g = None)"

definition in_combat :: "(nat \<rightharpoonup> combat_ref) \<Rightarrow> guid \<Rightarrow> bool" where
  "in_combat refs u \<longleftrightarrow> (\<exists>i r. refs i = Some r \<and> side_of r u \<and> \<not> IsSuppressedFor r u)"

definition combat_inv :: "combat_world \<Rightarrow> bool" where
  "combat_inv w \<longleftrightarrow> refs_ok w \<and> (\<forall>u. cw_flag w u = in_combat (cw_refs w) u) \<and> cw_asserts w"

lemma call_fields [simp]:
  "cw_refs (call c w) = cw_refs w" "cw_next (call c w) = cw_next w"
  "cw_pve (call c w) = cw_pve w" "cw_pvp (call c w) = cw_pvp w"
  "cw_flag (call c w) = cw_flag w" "cw_asserts (call c w) = cw_asserts w"
  "tab (call c w) = tab w"
  by (auto simp: call_def tab_def)

lemma notify_fields [simp]:
  "cw_refs (NotifyAICombat e a b w) = cw_refs w" "cw_refs (notify_exit e a w) = cw_refs w"
  "cw_next (NotifyAICombat e a b w) = cw_next w" "cw_next (notify_exit e a w) = cw_next w"
  "tab (NotifyAICombat e a b w) = tab w" "tab (notify_exit e a w) = tab w"
  "cw_flag (NotifyAICombat e a b w) = cw_flag w" "cw_flag (notify_exit e a w) = cw_flag w"
  "cw_asserts (NotifyAICombat e a b w) = cw_asserts w"
  "cw_asserts (notify_exit e a w) = cw_asserts w"
  by (auto simp: NotifyAICombat_def notify_exit_def)

lemma write_ref_fields [simp]:
  "cw_refs (write_ref i r w) = (cw_refs w)(i \<mapsto> r)" "cw_next (write_ref i r w) = cw_next w"
  "tab (write_ref i r w) = tab w" "cw_flag (write_ref i r w) = cw_flag w"
  "cw_asserts (write_ref i r w) = cw_asserts w" "cw_log (write_ref i r w) = cw_log w"
  by (auto simp: write_ref_def tab_def)

lemma pve_pvp_tab: "cw_pve w = tab w False" "cw_pvp w = tab w True"
  by (auto simp: tab_def)

lemma deref_eq: "cw_refs w i = Some r \<Longrightarrow> deref w i = r"
  by (simp add: deref_def)

lemma HasCombat_tab:
  "HasCombat w u \<longleftrightarrow> (\<exists>p g i. (g, i) \<in> set (tab w p u) \<and> \<not> IsSuppressedFor (deref w i) u)"
  by (auto simp: HasCombat_def HasPvECombat_def HasPvPCombat_def list_ex_iff tab_def)

lemma HasCombat_cong:
  "cw_refs w = cw_refs v \<Longrightarrow> tab w = tab v \<Longrightarrow> HasCombat w = HasCombat v"
  by (auto simp: HasCombat_tab deref_def fun_eq_iff)

lemma refs_ok_cong:
  "cw_refs w = cw_refs v \<Longrightarrow> tab w = tab v \<Longrightarrow> cw_next w = cw_next v \<Longrightarrow> refs_ok w = refs_ok v"
  by (simp add: refs_ok_def pve_pvp_tab)

lemma refs_ok_get:
  assumes "refs_ok w"
  shows "om_get (tab w p u) g = Some i
     \<longleftrightarrow> (\<exists>r. cw_refs w i = Some r \<and> cr_pvp r = p \<and> joins r u g)"
proof -
  have "\<forall>p u g i. om_get (tab w p u) g = Some i
     \<longleftrightarrow> (\<exists>r. cw_refs w i = Some r \<and> cr_pvp r = p \<and> joins r u g)"
    using assms unfolding refs_ok_def by (elim conjE)
  then show ?thesis by (simp only:)
qed

lemma refs_ok_om: "refs_ok w \<Longrightarrow> om_ok (tab w p u)"
  unfolding refs_ok_def by simp

lemma refs_ok_ref: "refs_ok w \<Longrightarrow> cw_refs w i = Some r \<Longrightarrow> cr_first r \<noteq> cr_second r \<and> i < cw_next w"
  unfolding refs_ok_def by simp

lemma refs_ok_in:
  assumes "refs_ok w"
  shows "(g, i) \<in> set (tab w p u)
     \<longleftrightarrow> (\<exists>r. cw_refs w i = Some r \<and> cr_pvp r = p \<and> joins r u g)"
  using refs_ok_get [OF assms] om_ok_get_iff [OF refs_ok_om [OF assms]] by simp

lemma HasCombat_iff:
  assumes "refs_ok w"
  shows "HasCombat w u = in_combat (cw_refs w) u"
proof
  assume "HasCombat w u"
  then obtain p g i r where "cw_refs w i = Some r" "joins r u g"
    "\<not> IsSuppressedFor (deref w i) u"
    unfolding HasCombat_tab refs_ok_in [OF assms] by blast
  then show "in_combat (cw_refs w) u"
    unfolding in_combat_def by (auto simp: joins_def side_of_def deref_def)
next
  assume "in_combat (cw_refs w) u"
  then obtain i r where r: "cw_refs w i = Some r" "side_of r u" "\<not> IsSuppressedFor r u"
    by (auto simp: in_combat_def)
  then have "(GetOther r u, i) \<in> set (tab w (cr_pvp r) u)"
    unfolding refs_ok_in [OF assms] by (auto simp: joins_def side_of_def GetOther_def)
  with r show "HasCombat w u" unfolding HasCombat_tab by (force simp: deref_def)
qed

subsection \<open>The combat state update\<close>

lemma UpdatePet_fields [simp]:
  "cw_refs (UpdatePetCombatState e m w) = cw_refs w"
  "cw_next (UpdatePetCombatState e m w) = cw_next w"
  "tab (UpdatePetCombatState e m w) = tab w"
  "cw_flag (UpdatePetCombatState e m w) = cw_flag w"
  "cw_log (UpdatePetCombatState e m w) = cw_log w"
  "cw_asserts (UpdatePetCombatState e m w) = cw_asserts w"
  by (auto simp: UpdatePetCombatState_def Let_def tab_def)

lemma set_combat_flags_fields [simp]:
  "cw_refs (set_combat_flags u b w) = cw_refs w" "cw_next (set_combat_flags u b w) = cw_next w"
  "tab (set_combat_flags u b w) = tab w" "cw_log (set_combat_flags u b w) = cw_log w"
  "cw_flag (set_combat_flags u b w) = (cw_flag w)(u := b)"
  "cw_asserts (set_combat_flags u b w) = cw_asserts w"
  by (auto simp: set_combat_flags_def tab_def)

lemma Update_fields [simp]:
  "cw_refs (fst (UpdateOwnerCombatState e u w)) = cw_refs w"
  "cw_next (fst (UpdateOwnerCombatState e u w)) = cw_next w"
  "tab (fst (UpdateOwnerCombatState e u w)) = tab w"
  "cw_flag (fst (UpdateOwnerCombatState e u w)) = (cw_flag w)(u := HasCombat w u)"
  "cw_asserts (fst (UpdateOwnerCombatState e u w)) = cw_asserts w"
  "snd (UpdateOwnerCombatState e u w) = (HasCombat w u \<noteq> cw_flag w u)"
  by (auto simp: UpdateOwnerCombatState_def Let_def split: option.splits)

lemma HasCombat_Update [simp]: "HasCombat (fst (UpdateOwnerCombatState e u w)) = HasCombat w"
  by (rule HasCombat_cong) simp_all

subsection \<open>Ending one reference\<close>

text \<open>
  \<open>drop_ref\<close> is what \<open>EndCombat\<close> does to the registration: the two entries and the heap
  cell.  The code frees the cell last; it is reachable from no map by then, so nothing that
  runs in between sees the difference.
\<close>

definition drop_ref :: "nat \<Rightarrow> combat_world \<Rightarrow> combat_world" where
  "drop_ref i w = (let r = deref w i in
     PurgeReference (cr_second r) (cr_first r) (cr_pvp r)
       (PurgeReference (cr_first r) (cr_second r) (cr_pvp r) (w\<lparr>cw_refs := (cw_refs w)(i := None)\<rparr>)))"

lemma Purge_fields [simp]:
  "cw_refs (PurgeReference u g p w) = cw_refs w" "cw_next (PurgeReference u g p w) = cw_next w"
  "tab (PurgeReference u g p w) q v =
     (if q = p \<and> v = u then om_erase g (tab w q v) else tab w q v)"
  "cw_flag (PurgeReference u g p w) = cw_flag w"
  "cw_asserts (PurgeReference u g p w) = cw_asserts w"
  by (auto simp: PurgeReference_def tab_def)

lemma om_erase_idem [simp]: "om_erase k (om_erase k m) = om_erase k m"
  by (simp add: om_erase_def)

lemma refs_upd_fields [simp]:
  "tab (w\<lparr>cw_refs := x\<rparr>) = tab w"
  by (auto simp: tab_def fun_eq_iff)

lemma drop_fields [simp]:
  "cw_refs (drop_ref i w) = (cw_refs w)(i := None)" "cw_next (drop_ref i w) = cw_next w"
  "cw_flag (drop_ref i w) = cw_flag w" "cw_asserts (drop_ref i w) = cw_asserts w"
  by (auto simp: drop_ref_def Let_def)

lemma tab_drop:
  "cw_refs w i = Some r \<Longrightarrow> tab (drop_ref i w) p u =
     (if p = cr_pvp r \<and> u = cr_second r then om_erase (cr_first r) else id)
       ((if p = cr_pvp r \<and> u = cr_first r then om_erase (cr_second r) else id) (tab w p u))"
  by (simp add: drop_ref_def deref_def Let_def)

lemma get_drop:
  "cw_refs w i = Some r \<Longrightarrow> om_get (tab (drop_ref i w) p u) g =
     (if p = cr_pvp r \<and> joins r u g then None else om_get (tab w p u) g)"
  by (auto simp: tab_drop joins_def)

lemma joins_unique:
  assumes ok: "refs_ok w" and r: "cw_refs w i = Some r" "cw_refs w j = Some s"
    and j: "joins r u g" "joins s u g" and p: "cr_pvp r = cr_pvp s"
  shows "i = j"
proof -
  have "om_get (tab w (cr_pvp r) u) g = Some i" using refs_ok_get [OF ok] r j by blast
  moreover have "om_get (tab w (cr_pvp r) u) g = Some j" using refs_ok_get [OF ok] r j p by metis
  ultimately show ?thesis by simp
qed

lemma refs_ok_drop:
  assumes ok: "refs_ok w" and r: "cw_refs w i = Some r"
  shows "refs_ok (drop_ref i w)"
  unfolding refs_ok_def
proof (intro conjI allI)
  fix p u show "om_ok (tab (drop_ref i w) p u)"
    using refs_ok_om [OF ok] by (simp add: tab_drop [OF r])
next
  fix p u g j
  show "(om_get (tab (drop_ref i w) p u) g = Some j) =
    (\<exists>s. cw_refs (drop_ref i w) j = Some s \<and> cr_pvp s = p \<and> joins s u g)"
  proof (cases "p = cr_pvp r \<and> joins r u g")
    case True
    then have "\<not> (\<exists>s. cw_refs (drop_ref i w) j = Some s \<and> cr_pvp s = p \<and> joins s u g)"
      using joins_unique [OF ok r] by auto
    with True show ?thesis by (simp add: get_drop [OF r])
  next
    case False
    then show ?thesis using r by (auto simp: get_drop [OF r] refs_ok_get [OF ok])
  qed
next
  fix j s show "cw_refs (drop_ref i w) j = Some s \<longrightarrow>
      cr_first s \<noteq> cr_second s \<and> j < cw_next (drop_ref i w)"
    using refs_ok_ref [OF ok] by auto
next
  fix u g
  have "om_get (tab w False u) g = None \<or> om_get (tab w True u) g = None"
    using ok by (simp add: refs_ok_def pve_pvp_tab)
  then show "om_get (cw_pve (drop_ref i w) u) g = None \<or> om_get (cw_pvp (drop_ref i w) u) g = None"
    by (auto simp: pve_pvp_tab get_drop [OF r])
qed

text \<open>The purged world of the code and \<open>drop_ref\<close> agree on every query.\<close>

lemma HasCombat_purged:
  assumes ok: "refs_ok w" and r: "cw_refs w i = Some r"
    and v: "cw_refs v = cw_refs w" "tab v = tab (drop_ref i w)"
  shows "HasCombat v = HasCombat (drop_ref i w)"
proof -
  have "deref v j = deref (drop_ref i w) j" if "(g, j) \<in> set (tab (drop_ref i w) p u)" for p g j u
  proof -
    have "cw_refs (drop_ref i w) j \<noteq> None"
      using that refs_ok_in [OF refs_ok_drop [OF ok r]] by auto
    then have "j \<noteq> i" by auto
    then show ?thesis by (simp add: deref_def v)
  qed
  then show ?thesis unfolding HasCombat_tab fun_eq_iff v by metis
qed

lemma EndCombat_fields:
  assumes ok: "refs_ok w" and r: "cw_refs w i = Some r"
  shows "cw_refs (EndCombat e i w) = (cw_refs w)(i := None)"
    "cw_next (EndCombat e i w) = cw_next w"
    "tab (EndCombat e i w) = tab (drop_ref i w)"
    "cw_flag (EndCombat e i w) = (cw_flag w)
       (cr_first r := in_combat ((cw_refs w)(i := None)) (cr_first r),
        cr_second r := in_combat ((cw_refs w)(i := None)) (cr_second r))"
    "cw_asserts (EndCombat e i w) = cw_asserts w"
proof -
  let ?w2 = "PurgeReference (cr_second r) (cr_first r) (cr_pvp r)
    (PurgeReference (cr_first r) (cr_second r) (cr_pvp r)
      (call (CallClearThreat (cr_second r) (cr_first r)) (call (CallClearThreat (cr_first r) (cr_second r)) w)))"
  have t: "tab ?w2 = tab (drop_ref i w)"
    by (auto simp: fun_eq_iff tab_drop [OF r])
  have h: "HasCombat ?w2 u = in_combat ((cw_refs w)(i := None)) u" for u
    using HasCombat_purged [OF ok r _ t] HasCombat_iff [OF refs_ok_drop [OF ok r]] by simp
  note d = deref_eq [OF r]
  have ne: "cr_first r \<noteq> cr_second r" "cr_second r \<noteq> cr_first r"
    using refs_ok_ref [OF ok r] by auto
  show "cw_refs (EndCombat e i w) = (cw_refs w)(i := None)"
    by (simp add: EndCombat_def Let_def d split_beta)
  show "cw_next (EndCombat e i w) = cw_next w"
    by (simp add: EndCombat_def Let_def d split_beta)
  show "tab (EndCombat e i w) = tab (drop_ref i w)"
  proof -
    have "tab (EndCombat e i w) = tab ?w2" by (simp add: EndCombat_def Let_def d split_beta del: Purge_fields(3))
    then show ?thesis by (simp only: t)
  qed
  show "cw_flag (EndCombat e i w) = (cw_flag w)
       (cr_first r := in_combat ((cw_refs w)(i := None)) (cr_first r),
        cr_second r := in_combat ((cw_refs w)(i := None)) (cr_second r))"
    by (simp add: EndCombat_def Let_def d split_beta h ne)
  show "cw_asserts (EndCombat e i w) = cw_asserts w"
    by (simp add: EndCombat_def Let_def d split_beta)
qed

lemma in_combat_drop:
  assumes "refs i = Some r" "\<not> side_of r u"
  shows "in_combat (refs(i := None)) u = in_combat refs u"
  unfolding in_combat_def fun_upd_apply using assms by (metis option.inject option.distinct(1))

lemma EndCombat_inv:
  assumes inv: "combat_inv w" and r: "cw_refs w i = Some r"
  shows "combat_inv (EndCombat e i w)"
proof -
  have ok: "refs_ok w" using inv by (simp add: combat_inv_def)
  note f = EndCombat_fields [OF ok r, of e]
  have "refs_ok (EndCombat e i w) = refs_ok (drop_ref i w)"
    by (rule refs_ok_cong) (simp_all add: f)
  then show ?thesis using inv refs_ok_drop [OF ok r] f in_combat_drop [of "cw_refs w" i r]
    by (auto simp: combat_inv_def r side_of_def)
qed

subsection \<open>Beginning and refreshing combat\<close>

lemma in_combat_refs_cong:
  assumes "refs i = Some r" "side_of s u \<longleftrightarrow> side_of r u" "IsSuppressedFor s u = IsSuppressedFor r u"
  shows "in_combat (refs(i \<mapsto> s)) u = in_combat refs u"
  unfolding in_combat_def fun_upd_apply using assms by (metis option.inject)

lemma refs_ok_write:
  assumes ok: "refs_ok w" and r: "cw_refs w i = Some r"
    and s: "cr_first s = cr_first r" "cr_second s = cr_second r" "cr_pvp s = cr_pvp r"
  shows "refs_ok (write_ref i s w)"
proof -
  have j: "joins s u g = joins r u g" for u g by (simp add: joins_def s)
  show ?thesis unfolding refs_ok_def
  proof (intro conjI allI)
    fix p u show "om_ok (tab (write_ref i s w) p u)" using refs_ok_om [OF ok] by simp
  next
    fix p u g k
    show "(om_get (tab (write_ref i s w) p u) g = Some k) =
      (\<exists>t. cw_refs (write_ref i s w) k = Some t \<and> cr_pvp t = p \<and> joins t u g)"
      using refs_ok_get [OF ok] r s j by (cases "k = i") auto
  next
    fix k t show "cw_refs (write_ref i s w) k = Some t \<longrightarrow>
      cr_first t \<noteq> cr_second t \<and> k < cw_next (write_ref i s w)"
      using refs_ok_ref [OF ok] refs_ok_ref [OF ok r] s by (cases "k = i") auto
  next
    fix u g show "om_get (cw_pve (write_ref i s w) u) g = None \<or>
      om_get (cw_pvp (write_ref i s w) u) g = None"
      using ok by (simp add: refs_ok_def pve_pvp_tab)
  qed
qed

text \<open>An update of a reference's flags followed by the state update of the affected unit.\<close>

lemma set_suppressed_inv:
  assumes inv: "combat_inv w" and r: "cw_refs w i = Some r"
    and s: "cr_first s = cr_first r" "cr_second s = cr_second r" "cr_pvp s = cr_pvp r"
    and other: "\<And>v. v \<noteq> u \<Longrightarrow> side_of r v \<Longrightarrow> IsSuppressedFor s v = IsSuppressedFor r v"
  shows "combat_inv (fst (UpdateOwnerCombatState e u (write_ref i s w)))"
proof -
  have ok: "refs_ok w" using inv by (simp add: combat_inv_def)
  note ok' = refs_ok_write [OF ok r s]
  have "refs_ok (fst (UpdateOwnerCombatState e u (write_ref i s w)))"
    using ok' refs_ok_cong [of "fst (UpdateOwnerCombatState e u (write_ref i s w))" "write_ref i s w"] by simp
  moreover have "in_combat ((cw_refs w)(i \<mapsto> s)) v = in_combat (cw_refs w) v" if "v \<noteq> u" for v
  proof (cases "side_of r v")
    case True
    then show ?thesis using in_combat_refs_cong [where refs = "cw_refs w", OF r] other [OF that] s by (simp add: side_of_def)
  next
    case False
    then have "\<not> side_of s v" by (simp add: side_of_def s)
    with False show ?thesis unfolding in_combat_def fun_upd_apply using r by (metis option.inject)
  qed
  ultimately show ?thesis using inv HasCombat_iff [OF ok']
    by (auto simp: combat_inv_def)
qed

lemma combat_inv_cong:
  "cw_refs v = cw_refs w \<Longrightarrow> tab v = tab w \<Longrightarrow> cw_next v = cw_next w \<Longrightarrow> cw_flag v = cw_flag w
    \<Longrightarrow> cw_asserts v = cw_asserts w \<Longrightarrow> combat_inv v = combat_inv w"
  using refs_ok_cong [of v w] by (simp add: combat_inv_def)

lemma notify_inv [simp]:
  "combat_inv (NotifyAICombat e a b w) = combat_inv w"
  "combat_inv (notify_exit e a w) = combat_inv w" "combat_inv (call c w) = combat_inv w"
  by (rule combat_inv_cong; simp)+

lemma same_ref_inv:
  assumes inv: "combat_inv w" and r: "cw_refs w i = Some r"
    and s: "cr_first s = cr_first r" "cr_second s = cr_second r" "cr_pvp s = cr_pvp r"
      "cr_suppress_first s = cr_suppress_first r" "cr_suppress_second s = cr_suppress_second r"
  shows "combat_inv (write_ref i s w)"
proof -
  have "in_combat ((cw_refs w)(i \<mapsto> s)) = in_combat (cw_refs w)"
    by (rule ext, rule in_combat_refs_cong [where refs = "cw_refs w", OF r]) (simp_all add: side_of_def IsSuppressedFor_def s)
  then show ?thesis using inv refs_ok_write [OF _ r s(1,2,3)] by (auto simp: combat_inv_def)
qed

lemma SuppressFor_inv:
  assumes inv: "combat_inv w" and r: "cw_refs w i = Some r"
    and u: "side_of r u"
  shows "combat_inv (SuppressFor e i u w)"
proof -
  have "cr_first r \<noteq> cr_second r" using inv r by (auto simp: combat_inv_def dest: refs_ok_ref)
  then have "combat_inv (fst (UpdateOwnerCombatState e u (write_ref i (Suppress u r) w)))"
    using u by (intro set_suppressed_inv [OF inv r])
      (auto simp: Suppress_def IsSuppressedFor_def side_of_def)
  then show ?thesis by (simp add: SuppressFor_def Let_def split_beta deref_eq [OF r])
qed

definition refreshed :: "combat_ref \<Rightarrow> combat_ref" where
  "refreshed r = r\<lparr>cr_suppress_first := False, cr_suppress_second := False\<rparr>"

lemma Refresh_spec:
  assumes inv: "combat_inv w" and r: "cw_refs w i = Some r"
  shows "combat_inv (Refresh e i w)"
    and "cw_refs (Refresh e i w) = (cw_refs w)(i \<mapsto> refreshed r)"
    and "tab (Refresh e i w) = tab w"
proof -
  have ne: "cr_first r \<noteq> cr_second r" using inv r by (auto simp: combat_inv_def dest: refs_ok_ref)
  define r1 where "r1 = r\<lparr>cr_suppress_first := False\<rparr>"
  define q1 where "q1 = (if cr_suppress_first r
     then UpdateOwnerCombatState e (cr_first r) (write_ref i r1 w) else (w, False))"
  define w1 where "w1 = fst q1"
  have w1: "combat_inv w1" unfolding w1_def q1_def
    using inv by (simp add: r1_def set_suppressed_inv [OF inv r] IsSuppressedFor_def)
  have r1: "cw_refs w1 i = Some r1" "tab w1 = tab w" "cw_refs w1 = (cw_refs w)(i \<mapsto> r1)"
    by (auto simp: w1_def q1_def r r1_def)
  define r2 where "r2 = r1\<lparr>cr_suppress_second := False\<rparr>"
  define q2 where "q2 = (if cr_suppress_second r1
     then UpdateOwnerCombatState e (cr_second r) (write_ref i r2 w1) else (w1, False))"
  define w2 where "w2 = fst q2"
  have w2: "combat_inv w2" unfolding w2_def q2_def
    using w1 ne by (auto simp: r2_def r1_def side_of_def intro!: set_suppressed_inv [OF w1 r1(1)] simp: IsSuppressedFor_def)
  have r2: "tab w2 = tab w" "cw_refs w2 = (cw_refs w)(i \<mapsto> r2)"
    by (auto simp: w2_def q2_def r1 r2_def)
  define w3 where "w3 = (if snd q1 then NotifyAICombat e (cr_first r) (cr_second r) w2 else w2)"
  have eq: "Refresh e i w = (if snd q2 then NotifyAICombat e (cr_second r) (cr_first r) w3 else w3)"
    unfolding Refresh_def Let_def split_beta deref_eq [OF r] r1_def [symmetric] q1_def [symmetric]
      w1_def [symmetric] deref_eq [OF r1(1)] r2_def [symmetric] q2_def [symmetric]
      w2_def [symmetric] w3_def [symmetric] ..
  have w3: "combat_inv w3" "cw_refs w3 = cw_refs w2" "tab w3 = tab w2"
    using w2 by (auto simp: w3_def)
  show "combat_inv (Refresh e i w)" using eq w3 by auto
  show "cw_refs (Refresh e i w) = (cw_refs w)(i \<mapsto> refreshed r)"
    using eq w3 r2 by (auto simp: refreshed_def r2_def r1_def)
  show "tab (Refresh e i w) = tab w" using eq w3 r2 by auto
qed

lemma refs_ok_sym:
  assumes "refs_ok w"
  shows "om_get (tab w p u) g = om_get (tab w p g) u"
proof -
  have "om_get (tab w p u) g = Some i \<longleftrightarrow> om_get (tab w p g) u = Some i" for i
    unfolding refs_ok_get [OF assms] by (auto simp: joins_def)
  then show ?thesis by (metis option.exhaust)
qed

lemma Put_fields [simp]:
  "cw_refs (PutReference u g i w) = cw_refs w" "cw_next (PutReference u g i w) = cw_next w"
  "cw_flag (PutReference u g i w) = cw_flag w"
  "tab (PutReference u g i w) p v =
     (if p = cr_pvp (deref w i) \<and> v = u then om_put g i (tab w p v) else tab w p v)"
  "cw_asserts (PutReference u g i w) =
     (cw_asserts w \<and> om_get (tab w (cr_pvp (deref w i)) u) g = None)"
  by (auto simp: PutReference_def tab_def)

definition register :: "combat_ref \<Rightarrow> combat_world \<Rightarrow> combat_world" where
  "register r w = (let i = cw_next w in
     PutReference (cr_second r) (cr_first r) i (PutReference (cr_first r) (cr_second r) i
       (write_ref i r (w\<lparr>cw_next := Suc i\<rparr>))))"

lemma next_upd_fields [simp]: "tab (w\<lparr>cw_next := n\<rparr>) = tab w"
  by (auto simp: tab_def fun_eq_iff)

lemma register_fields:
  assumes ok: "refs_ok w" and ne: "cr_first r \<noteq> cr_second r"
    and free: "om_get (tab w False (cr_first r)) (cr_second r) = None"
      "om_get (tab w True (cr_first r)) (cr_second r) = None"
  shows "cw_refs (register r w) = (cw_refs w)(cw_next w \<mapsto> r)"
    "cw_flag (register r w) = cw_flag w" "cw_asserts (register r w) = cw_asserts w"
    "refs_ok (register r w)"
    "om_get (tab (register r w) p u) g =
       (if p = cr_pvp r \<and> joins r u g then Some (cw_next w) else om_get (tab w p u) g)"
proof -
  have free': "om_get (tab w p (cr_first r)) (cr_second r) = None" for p
    using free by (cases p) auto
  show refs: "cw_refs (register r w) = (cw_refs w)(cw_next w \<mapsto> r)"
    by (simp add: register_def Let_def)
  show "cw_flag (register r w) = cw_flag w" by (simp add: register_def Let_def)
  show "cw_asserts (register r w) = cw_asserts w"
    using ne free' free' [unfolded refs_ok_sym [OF ok, of _ "cr_first r"]]
    by (simp add: register_def Let_def deref_def)
  show get: "om_get (tab (register r w) p u) g =
       (if p = cr_pvp r \<and> joins r u g then Some (cw_next w) else om_get (tab w p u) g)" for p u g
    using ne by (auto simp: register_def Let_def deref_def joins_def)
  have fresh: "cw_refs w (cw_next w) = None"
    using refs_ok_ref [OF ok] by (cases "cw_refs w (cw_next w)") auto
  have nojoin: "\<not> joins r u g" if "om_get (tab w p u) g = Some j" for p u g j
    using that free' refs_ok_sym [OF ok, of p u g] by (auto simp: joins_def)
  show "refs_ok (register r w)" unfolding refs_ok_def
  proof (intro conjI allI)
    fix p u show "om_ok (tab (register r w) p u)"
      using refs_ok_om [OF ok] by (simp add: register_def Let_def)
  next
    fix p u g j
    show "(om_get (tab (register r w) p u) g = Some j) =
      (\<exists>t. cw_refs (register r w) j = Some t \<and> cr_pvp t = p \<and> joins t u g)"
    proof (cases "j = cw_next w")
      case True
      have "om_get (tab w p u) g \<noteq> Some j"
        using refs_ok_get [OF ok, of p u g j] fresh True by simp
      with True show ?thesis by (auto simp: get refs)
    next
      case False
      then show ?thesis using refs_ok_get [OF ok, of p u g j] nojoin [of p u g j]
        by (auto simp: get refs)
    qed
  next
    fix k t show "cw_refs (register r w) k = Some t \<longrightarrow>
      cr_first t \<noteq> cr_second t \<and> k < cw_next (register r w)"
      using refs_ok_ref [OF ok] ne by (auto simp: refs register_def Let_def less_Suc_eq)
  next
    fix u g
    have "om_get (tab w False u) g = None \<or> om_get (tab w True u) g = None"
      using ok by (simp add: refs_ok_def pve_pvp_tab)
    moreover have "om_get (tab w p u) g = None" if "joins r u g" for p
      using nojoin that by (cases "om_get (tab w p u) g") auto
    ultimately show "om_get (cw_pve (register r w) u) g = None \<or> om_get (cw_pvp (register r w) u) g = None"
      unfolding pve_pvp_tab get by auto
  qed
qed

lemma Update_two_inv:
  assumes ok: "refs_ok w" and a: "cw_asserts w"
    and rest: "\<And>v. v \<noteq> x \<Longrightarrow> v \<noteq> y \<Longrightarrow> cw_flag w v = in_combat (cw_refs w) v"
  shows "combat_inv (fst (UpdateOwnerCombatState e y (fst (UpdateOwnerCombatState e x w))))"
proof -
  have "refs_ok (fst (UpdateOwnerCombatState e y (fst (UpdateOwnerCombatState e x w))))"
    using ok refs_ok_cong [of "fst (UpdateOwnerCombatState e y (fst (UpdateOwnerCombatState e x w)))" w]
    by simp
  then show ?thesis using a rest HasCombat_iff [OF ok] by (auto simp: combat_inv_def)
qed

lemma IsInCombatWith_tab:
  "IsInCombatWith w u g \<longleftrightarrow> (\<exists>p. om_get (tab w p u) g \<noteq> None)"
  by (auto simp: IsInCombatWith_def tab_def ex_bool_eq)

lemma IsInCombatWith_iff:
  "refs_ok w \<Longrightarrow> IsInCombatWith w u g \<longleftrightarrow> (\<exists>i r. cw_refs w i = Some r \<and> joins r u g)"
  by (auto simp: IsInCombatWith_tab refs_ok_get)

definition started :: "combat_env \<Rightarrow> guid \<Rightarrow> guid \<Rightarrow> bool \<Rightarrow> combat_ref" where
  "started e u who suppressed =
     \<lparr>cr_first = u, cr_second = who, cr_pvp = (cu_by_player (ce_unit e u) \<and> cu_by_player (ce_unit e who)),
      cr_suppress_first = False, cr_suppress_second = suppressed, cr_timer = PVP_COMBAT_TIMEOUT\<rparr>"

lemma CanBeginCombat_ne: "CanBeginCombat e u v \<Longrightarrow> u \<noteq> v"
  by (auto simp: CanBeginCombat_def Let_def)

lemma Set_new:
  assumes inv: "combat_inv w" and free: "\<not> IsInCombatWith w u who" and ok: "CanBeginCombat e u who"
  shows "combat_inv (fst (SetInCombatWith e u who b w))"
    and "cw_refs (fst (SetInCombatWith e u who b w)) = (cw_refs w)(cw_next w \<mapsto> started e u who b)"
    and "snd (SetInCombatWith e u who b w)"
proof -
  have refs: "refs_ok w" using inv by (simp add: combat_inv_def)
  note ne = CanBeginCombat_ne [OF ok]
  let ?r = "started e u who b"
  have r: "cr_first ?r \<noteq> cr_second ?r" "om_get (tab w False (cr_first ?r)) (cr_second ?r) = None"
    "om_get (tab w True (cr_first ?r)) (cr_second ?r) = None"
    using ne free by (auto simp: started_def IsInCombatWith_tab)
  note reg = register_fields [OF refs r]
  define q1 where "q1 = UpdateOwnerCombatState e u (register ?r w)"
  define q2 where "q2 = UpdateOwnerCombatState e who (fst q1)"
  define w5 where "w5 = (if snd q1 then NotifyAICombat e u who (fst q2) else fst q2)"
  define w6 where "w6 = (if snd q2 then NotifyAICombat e who u w5 else w5)"
  have none: "om_get (cw_pvp w u) who = None" "om_get (cw_pve w u) who = None"
    using free by (auto simp: IsInCombatWith_def)
  have ref: "(if b then Suppress who \<lparr>cr_first = u, cr_second = who,
      cr_pvp = (cu_by_player (ce_unit e u) \<and> cu_by_player (ce_unit e who)), cr_suppress_first = False,
      cr_suppress_second = False, cr_timer = PVP_COMBAT_TIMEOUT\<rparr> else \<lparr>cr_first = u, cr_second = who,
      cr_pvp = (cu_by_player (ce_unit e u) \<and> cu_by_player (ce_unit e who)), cr_suppress_first = False,
      cr_suppress_second = False, cr_timer = PVP_COMBAT_TIMEOUT\<rparr>) = ?r"
    using ne by (simp add: started_def Suppress_def)
  have reg_eq: "PutReference who u (cw_next w) (PutReference u who (cw_next w)
      (write_ref (cw_next w) ?r (w\<lparr>cw_next := Suc (cw_next w)\<rparr>))) = register ?r w"
    by (simp add: register_def Let_def started_def)
  have eq: "SetInCombatWith e u who b w = (w6, IsInCombatWith w6 u who)"
    unfolding SetInCombatWith_def none option.case Let_def split_beta ref reg_eq q1_def [symmetric]
      q2_def [symmetric] w5_def [symmetric] w6_def [symmetric] using ok by simp
  have "combat_inv (fst q2)" unfolding q2_def q1_def
  proof (rule Update_two_inv)
    show "refs_ok (register ?r w)" "cw_asserts (register ?r w)"
      using reg(3,4) inv by (simp_all add: combat_inv_def)
    fix v assume v: "v \<noteq> u" "v \<noteq> who"
    have fresh: "cw_refs w (cw_next w) = None"
      using refs_ok_ref [OF refs] by (cases "cw_refs w (cw_next w)") auto
    have "\<not> side_of ?r v" using v by (simp add: side_of_def started_def)
    then have "in_combat ((cw_refs w)(cw_next w \<mapsto> ?r)) v = in_combat (cw_refs w) v"
      unfolding in_combat_def fun_upd_apply using fresh by (metis option.inject option.distinct(1))
    then show "cw_flag (register ?r w) v = in_combat (cw_refs (register ?r w)) v"
      using inv by (simp add: reg combat_inv_def)
  qed
  then show inv6: "combat_inv (fst (SetInCombatWith e u who b w))"
    by (simp add: eq w6_def w5_def)
  show refs6: "cw_refs (fst (SetInCombatWith e u who b w)) = (cw_refs w)(cw_next w \<mapsto> ?r)"
    using ne by (simp add: eq w6_def w5_def q2_def q1_def reg(1) if_distrib [of cw_refs] cong: if_cong)
  have "joins ?r u who" by (simp add: joins_def started_def)
  then have "\<exists>i r. cw_refs w6 i = Some r \<and> joins r u who"
    using refs6 by (intro exI [of _ "cw_next w"] exI [of _ ?r]) (simp add: eq)
  moreover have "refs_ok w6" using inv6 by (simp add: eq combat_inv_def)
  ultimately show "snd (SetInCombatWith e u who b w)"
    by (simp add: eq IsInCombatWith_iff)
qed

subsection \<open>Loops over a manager's references\<close>

lemma ids_distinct:
  assumes ok: "refs_ok w"
  shows "distinct (map snd (tab w p u))"
  unfolding distinct_map
proof
  show "distinct (tab w p u)"
    using om_ok_distinct [OF refs_ok_om [OF ok]] by (simp add: distinct_map)
  show "inj_on snd (set (tab w p u))"
  proof (rule inj_onI)
    fix x y assume x: "x \<in> set (tab w p u)" and y: "y \<in> set (tab w p u)" and s: "snd x = snd y"
    obtain g i where xi: "x = (g, i)" by fastforce
    obtain h where yh: "y = (h, i)" using s xi by (cases y) auto
    obtain r where r: "cw_refs w i = Some r" "joins r u g"
      using x unfolding xi refs_ok_in [OF ok] by blast
    have "joins r u h" using y r(1) unfolding yh refs_ok_in [OF ok] by auto
    with r refs_ok_ref [OF ok r(1)] have "g = h" by (auto simp: joins_def)
    then show "x = y" by (simp add: xi yh)
  qed
qed

lemma entries_live:
  assumes "refs_ok w" and "(g, i) \<in> set (tab w p u)"
  shows "\<exists>r. cw_refs w i = Some r \<and> cr_pvp r = p \<and> joins r u g"
  using assms refs_ok_in by blast

lemma EndCombat_refs:
  "combat_inv w \<Longrightarrow> cw_refs w i = Some r \<Longrightarrow> cw_refs (EndCombat e i w) = (cw_refs w)(i := None)"
  by (simp add: EndCombat_fields combat_inv_def)

lemma end_all_spec:
  assumes "combat_inv w" "distinct ids" "\<forall>i \<in> set ids. cw_refs w i \<noteq> None"
  shows "combat_inv (end_all e ids w)
    \<and> cw_refs (end_all e ids w) = (\<lambda>i. if i \<in> set ids then None else cw_refs w i)"
  using assms unfolding end_all_def
proof (induction ids arbitrary: w)
  case Nil
  then show ?case by simp
next
  case (Cons i ids)
  then obtain r where r: "cw_refs w i = Some r" by auto
  note r1 = EndCombat_refs [OF Cons.prems(1) r, of e] EndCombat_inv [OF Cons.prems(1) r, of e]
  have "combat_inv (fold (EndCombat e) ids (EndCombat e i w)) \<and>
    cw_refs (fold (EndCombat e) ids (EndCombat e i w)) =
      (\<lambda>j. if j \<in> set ids then None else cw_refs (EndCombat e i w) j)"
    using Cons.prems by (intro Cons.IH) (auto simp: r1)
  then show ?case by (auto simp: r1 fun_eq_iff)
qed

lemma Purge_call: "PurgeReference u g p (call c w) = call c (PurgeReference u g p w)"
  by (simp add: PurgeReference_def call_def)

lemma Purge_twice: "PurgeReference u g p (PurgeReference u g p w) = PurgeReference u g p w"
  by (simp add: PurgeReference_def)

lemma Purge_commute:
  "PurgeReference u g p (PurgeReference v h p w) = PurgeReference v h p (PurgeReference u g p w)"
  by (cases "u = v") (auto simp: PurgeReference_def fun_upd_twist om_erase_def conj_commute)

lemma EndCombat_purged:
  assumes r: "cw_refs w i = Some r" "joins r u g" "cr_pvp r = p"
  shows "EndCombat e i (PurgeReference u g p w) = EndCombat e i w"
proof -
  have d: "deref (PurgeReference u g p w) i = deref w i" by (simp add: deref_def)
  have *: "PurgeReference (cr_second r) (cr_first r) p (PurgeReference (cr_first r) (cr_second r) p
      (PurgeReference u g p w)) =
    PurgeReference (cr_second r) (cr_first r) p (PurgeReference (cr_first r) (cr_second r) p w)"
  proof (cases "cr_first r = u \<and> cr_second r = g")
    case True
    then show ?thesis by (simp add: Purge_twice)
  next
    case False
    with r(2) have "cr_first r = g" "cr_second r = u" by (auto simp: joins_def)
    then show ?thesis
      by (simp only: Purge_commute [of g u p u g w] Purge_twice)
  qed
  show ?thesis
    unfolding EndCombat_def d deref_eq [OF r(1)] Let_def r(3) Purge_call * ..
qed

lemma end_where_eq:
  assumes "combat_inv w" "distinct (map snd es)"
    "\<forall>(g, i) \<in> set es. \<exists>r. cw_refs w i = Some r \<and> cr_pvp r = p \<and> joins r u g"
  shows "end_where e P u p es w = end_all e (map snd (filter (\<lambda>(g, i). P (deref w i)) es)) w"
  using assms
proof (induction es arbitrary: w)
  case Nil
  then show ?case by (simp add: end_all_def)
next
  case (Cons x es)
  obtain g i where x: "x = (g, i)" by fastforce
  obtain r where r: "cw_refs w i = Some r" "cr_pvp r = p" "joins r u g"
    using Cons.prems(3) by (auto simp: x)
  show ?case
  proof (cases "P (deref w i)")
    case True
    let ?v = "EndCombat e i w"
    note v = EndCombat_refs [OF Cons.prems(1) r(1), of e] EndCombat_inv [OF Cons.prems(1) r(1), of e]
    have "i \<notin> snd ` set es" using Cons.prems(2) by (simp add: x)
    then have i: "j \<noteq> i" if "(h, j) \<in> set es" for h j using that by force
    have same: "filter (\<lambda>(g, i). P (deref ?v i)) es = filter (\<lambda>(g, i). P (deref w i)) es"
      using i by (intro filter_cong) (auto simp: deref_def v)
    have "end_where e P u p es ?v = end_all e (map snd (filter (\<lambda>(g, i). P (deref ?v i)) es)) ?v"
      using Cons.prems i by (intro Cons.IH) (auto simp: v x)
    then show ?thesis using True by (simp add: x EndCombat_purged [OF r(1,3,2)] same end_all_def)
  next
    case False
    with Cons show ?thesis by (simp add: x)
  qed
qed

lemma end_where_spec:
  assumes inv: "combat_inv w"
  shows "combat_inv (end_where e P u p (tab w p u) w)"
    and "cw_refs (end_where e P u p (tab w p u) w) = (\<lambda>i. case cw_refs w i of None \<Rightarrow> None
      | Some r \<Rightarrow> if cr_pvp r = p \<and> side_of r u \<and> P r then None else Some r)"
proof -
  have ok: "refs_ok w" using inv by (simp add: combat_inv_def)
  let ?ids = "map snd (filter (\<lambda>(g, i). P (deref w i)) (tab w p u))"
  have eq: "end_where e P u p (tab w p u) w = end_all e ?ids w"
    using entries_live [OF ok] by (intro end_where_eq [OF inv ids_distinct [OF ok]]) auto
  have ids: "i \<in> set ?ids \<longleftrightarrow> (\<exists>r. cw_refs w i = Some r \<and> cr_pvp r = p \<and> side_of r u \<and> P r)" for i
  proof
    assume "i \<in> set ?ids"
    then obtain g where "(g, i) \<in> set (tab w p u)" "P (deref w i)" by auto
    with entries_live [OF ok] show "\<exists>r. cw_refs w i = Some r \<and> cr_pvp r = p \<and> side_of r u \<and> P r"
      by (fastforce simp: joins_def side_of_def deref_def)
  next
    assume "\<exists>r. cw_refs w i = Some r \<and> cr_pvp r = p \<and> side_of r u \<and> P r"
    then obtain r where r: "cw_refs w i = Some r" "cr_pvp r = p" "side_of r u" "P r" by blast
    then have "(GetOther r u, i) \<in> set (tab w p u)"
      unfolding refs_ok_in [OF ok] by (auto simp: joins_def side_of_def GetOther_def)
    with r show "i \<in> set ?ids" by (force simp: deref_def)
  qed
  have d: "distinct ?ids"
    using ids_distinct [OF ok] by (rule distinct_map_filter)
  have l: "\<forall>i \<in> set ?ids. cw_refs w i \<noteq> None" using ids by fastforce
  note spec = end_all_spec [OF inv d l, of e]
  show "combat_inv (end_where e P u p (tab w p u) w)" using spec eq by simp
  have "cw_refs (end_all e ?ids w) i = (case cw_refs w i of None \<Rightarrow> None
      | Some r \<Rightarrow> if cr_pvp r = p \<and> side_of r u \<and> P r then None else Some r)" for i
    using spec ids [of i] by (simp split: option.split) 
  then show "cw_refs (end_where e P u p (tab w p u) w) = (\<lambda>i. case cw_refs w i of None \<Rightarrow> None
      | Some r \<Rightarrow> if cr_pvp r = p \<and> side_of r u \<and> P r then None else Some r)"
    unfolding eq by (rule ext)
qed

definition aged :: "u32 \<Rightarrow> combat_ref \<Rightarrow> combat_ref option" where
  "aged tdiff r = (if cr_timer r \<le> tdiff then None else Some (r\<lparr>cr_timer := cr_timer r - tdiff\<rparr>))"

lemma write_same: "cw_refs w i = Some r \<Longrightarrow> write_ref i r w = w"
  by (simp add: write_ref_def map_upd_triv)

lemma update_loop_spec:
  assumes "combat_inv w" "distinct (map snd es)"
    "\<forall>(g, i) \<in> set es. \<exists>r. cw_refs w i = Some r \<and> cr_pvp r \<and> joins r u g"
  shows "combat_inv (update_loop e u tdiff es w)
    \<and> cw_refs (update_loop e u tdiff es w) = (\<lambda>i. case cw_refs w i of None \<Rightarrow> None
        | Some r \<Rightarrow> if i \<in> snd ` set es \<and> cr_first r = u then aged tdiff r else Some r)"
  using assms
proof (induction es arbitrary: w)
  case Nil
  then show ?case by (auto simp: fun_eq_iff split: option.split)
next
  case (Cons x es)
  obtain g i where x: "x = (g, i)" by fastforce
  obtain r where r: "cw_refs w i = Some r" "cr_pvp r" "joins r u g"
    using Cons.prems(3) by (auto simp: x)
  have "i \<notin> snd ` set es" using Cons.prems(2) by (simp add: x)
  then have i: "j \<noteq> i" if "(h, j) \<in> set es" for h j using that by force
  have ni: "i \<notin> snd ` set es" by fact
  consider (other) "cr_first r \<noteq> u" | (ends) "cr_first r = u" "cr_timer r \<le> tdiff"
    | (stays) "cr_first r = u" "\<not> cr_timer r \<le> tdiff" by blast
  then show ?case
  proof cases
    case other
    have "combat_inv (update_loop e u tdiff es w) \<and>
      cw_refs (update_loop e u tdiff es w) = (\<lambda>i. case cw_refs w i of None \<Rightarrow> None
        | Some r \<Rightarrow> if i \<in> snd ` set es \<and> cr_first r = u then aged tdiff r else Some r)"
      using Cons.prems by (intro Cons.IH) auto
    then show ?thesis using other r ni
      by (auto simp: x deref_eq [OF r(1)] fun_eq_iff split: option.split)
  next
    case ends
    let ?v = "EndCombat e i w"
    note v = EndCombat_refs [OF Cons.prems(1) r(1), of e] EndCombat_inv [OF Cons.prems(1) r(1), of e]
    have "combat_inv (update_loop e u tdiff es ?v) \<and>
      cw_refs (update_loop e u tdiff es ?v) = (\<lambda>i. case cw_refs ?v i of None \<Rightarrow> None
        | Some r \<Rightarrow> if i \<in> snd ` set es \<and> cr_first r = u then aged tdiff r else Some r)"
      using Cons.prems i by (intro Cons.IH) (auto simp: v x)
    moreover have "update_loop e u tdiff (x # es) w = update_loop e u tdiff es ?v"
      using ends r EndCombat_purged [OF r(1,3), of True e]
      by (simp add: x deref_eq [OF r(1)] PvP_Update_def write_same [OF r(1)])
    ultimately show ?thesis using ends r ni
      by (auto simp: x v aged_def fun_eq_iff split: option.split)
  next
    case stays
    let ?s = "r\<lparr>cr_timer := cr_timer r - tdiff\<rparr>"
    let ?v = "write_ref i ?s w"
    have inv: "combat_inv ?v" by (rule same_ref_inv [OF Cons.prems(1) r(1)]) simp_all
    have "combat_inv (update_loop e u tdiff es ?v) \<and>
      cw_refs (update_loop e u tdiff es ?v) = (\<lambda>i. case cw_refs ?v i of None \<Rightarrow> None
        | Some r \<Rightarrow> if i \<in> snd ` set es \<and> cr_first r = u then aged tdiff r else Some r)"
      using Cons.prems i inv by (intro Cons.IH) (auto simp: x)
    then show ?thesis using stays r ni
      by (auto simp: x deref_eq [OF r(1)] PvP_Update_def aged_def fun_eq_iff split: option.split)
  qed
qed

lemma Combat_Update_refs:
  assumes inv: "combat_inv w"
  shows "combat_inv (Combat_Update e u tdiff w)"
    and "cw_refs (Combat_Update e u tdiff w) = (\<lambda>i. case cw_refs w i of None \<Rightarrow> None
        | Some r \<Rightarrow> if cr_pvp r \<and> cr_first r = u then aged tdiff r else Some r)"
proof -
  have ok: "refs_ok w" using inv by (simp add: combat_inv_def)
  have live: "\<forall>(g, i) \<in> set (tab w True u). \<exists>r. cw_refs w i = Some r \<and> cr_pvp r \<and> joins r u g"
    using entries_live [OF ok] by fastforce
  note spec = update_loop_spec [OF inv ids_distinct [OF ok] live, of e tdiff]
  show "combat_inv (Combat_Update e u tdiff w)"
    using spec by (simp add: Combat_Update_def pve_pvp_tab)
  have in_tab: "i \<in> snd ` set (tab w True u)" if "cw_refs w i = Some r" "cr_pvp r" "cr_first r = u" for i r
  proof -
    have "(cr_second r, i) \<in> set (tab w True u)"
      unfolding refs_ok_in [OF ok] using that by (auto simp: joins_def)
    then show ?thesis by force
  qed
  have pvp: "cr_pvp r" if "cw_refs w i = Some r" "i \<in> snd ` set (tab w True u)" for i r
    using that live by fastforce
  show "cw_refs (Combat_Update e u tdiff w) = (\<lambda>i. case cw_refs w i of None \<Rightarrow> None
        | Some r \<Rightarrow> if cr_pvp r \<and> cr_first r = u then aged tdiff r else Some r)"
  proof (rule ext)
    fix i
    have eq: "cw_refs (Combat_Update e u tdiff w) i = (case cw_refs w i of None \<Rightarrow> None
        | Some r \<Rightarrow> if i \<in> snd ` set (tab w True u) \<and> cr_first r = u then aged tdiff r else Some r)"
      using spec by (simp add: Combat_Update_def pve_pvp_tab)
    show "cw_refs (Combat_Update e u tdiff w) i = (case cw_refs w i of None \<Rightarrow> None
        | Some r \<Rightarrow> if cr_pvp r \<and> cr_first r = u then aged tdiff r else Some r)"
    proof (cases "cw_refs w i")
      case None
      then show ?thesis by (simp add: eq)
    next
      case (Some r)
      have "i \<in> snd ` set (tab w True u) \<and> cr_first r = u \<longleftrightarrow> cr_pvp r \<and> cr_first r = u"
        using in_tab [OF Some] pvp [OF Some] by blast
      then show ?thesis by (simp add: eq Some)
    qed
  qed
qed

definition settled_but :: "guid \<Rightarrow> combat_world \<Rightarrow> bool" where
  "settled_but u w \<longleftrightarrow> refs_ok w \<and> cw_asserts w
     \<and> (\<forall>v. v \<noteq> u \<longrightarrow> cw_flag w v = in_combat (cw_refs w) v)"

lemma settle:
  assumes "settled_but u w"
  shows "combat_inv (fst (UpdateOwnerCombatState e u w))"
proof -
  have ok: "refs_ok w" using assms by (simp add: settled_but_def)
  have "refs_ok (fst (UpdateOwnerCombatState e u w))"
    using ok refs_ok_cong [of "fst (UpdateOwnerCombatState e u w)" w] by simp
  then show ?thesis using assms HasCombat_iff [OF ok] by (auto simp: combat_inv_def settled_but_def)
qed

lemma in_combat_write:
  assumes "refs i = Some r" "side_of s v = side_of r v"
    and "side_of r v \<Longrightarrow> IsSuppressedFor s v = IsSuppressedFor r v"
  shows "in_combat (refs(i \<mapsto> s)) v = in_combat refs v"
proof -
  have "(\<exists>k t. (refs(i \<mapsto> s)) k = Some t \<and> side_of t v \<and> \<not> IsSuppressedFor t v) =
    (\<exists>k t. refs k = Some t \<and> side_of t v \<and> \<not> IsSuppressedFor t v)"
    using assms by (metis fun_upd_apply option.inject)
  then show ?thesis by (simp only: in_combat_def)
qed

lemma Suppress_fields [simp]:
  "cr_first (Suppress u r) = cr_first r" "cr_second (Suppress u r) = cr_second r"
  "cr_pvp (Suppress u r) = cr_pvp r" "joins (Suppress u r) = joins r" "side_of (Suppress u r) = side_of r"
  "cr_timer (Suppress u r) = cr_timer r"
  by (auto simp: Suppress_def joins_def side_of_def fun_eq_iff)

lemma settled_suppress:
  assumes w: "settled_but u w" and r: "cw_refs w i = Some r" "side_of r u"
  shows "settled_but u (write_ref i (Suppress u r) w)"
proof -
  have "cr_first r \<noteq> cr_second r" using w r by (auto simp: settled_but_def dest: refs_ok_ref)
  then have "IsSuppressedFor (Suppress u r) v = IsSuppressedFor r v" if "v \<noteq> u" "side_of r v" for v
    using that r(2) by (auto simp: Suppress_def IsSuppressedFor_def side_of_def)
  then have "in_combat ((cw_refs w)(i \<mapsto> Suppress u r)) v = in_combat (cw_refs w) v" if "v \<noteq> u" for v
    using that by (intro in_combat_write [where refs = "cw_refs w", OF r(1)]) simp_all
  then show ?thesis using w refs_ok_write [OF _ r(1), of "Suppress u r"]
    by (auto simp: settled_but_def)
qed

lemma suppress_refs_spec:
  assumes "settled_but u w" "distinct (map snd es)"
    "\<forall>(g, i) \<in> set es. \<exists>r. cw_refs w i = Some r \<and> joins r u g"
  shows "settled_but u (suppress_refs f u es w)
    \<and> cw_refs (suppress_refs f u es w) = (\<lambda>i. case cw_refs w i of None \<Rightarrow> None
        | Some r \<Rightarrow> if i \<in> snd ` set es \<and> passes f (GetOther r u) then Some (Suppress u r) else Some r)"
  using assms
proof (induction es arbitrary: w)
  case Nil
  then show ?case by (auto simp: fun_eq_iff split: option.split)
next
  case (Cons x es)
  obtain g i where x: "x = (g, i)" by fastforce
  obtain r where r: "cw_refs w i = Some r" "joins r u g"
    using Cons.prems(3) by (auto simp: x)
  have ni: "i \<notin> snd ` set es" using Cons.prems(2) by (simp add: x)
  then have i: "j \<noteq> i" if "(h, j) \<in> set es" for h j using that by force
  show ?case
  proof (cases "passes f (GetOther r u)")
    case True
    let ?v = "write_ref i (Suppress u r) w"
    have "side_of r u" using r(2) by (auto simp: joins_def side_of_def)
    note inv = settled_suppress [OF Cons.prems(1) r(1) this]
    have "settled_but u (suppress_refs f u es ?v) \<and>
      cw_refs (suppress_refs f u es ?v) = (\<lambda>i. case cw_refs ?v i of None \<Rightarrow> None
        | Some r \<Rightarrow> if i \<in> snd ` set es \<and> passes f (GetOther r u) then Some (Suppress u r) else Some r)"
      using Cons.prems i inv by (intro Cons.IH) (auto simp: x)
    then show ?thesis using True r ni
      by (auto simp: x deref_eq [OF r(1)] fun_eq_iff split: option.split)
  next
    case False
    have "settled_but u (suppress_refs f u es w) \<and>
      cw_refs (suppress_refs f u es w) = (\<lambda>i. case cw_refs w i of None \<Rightarrow> None
        | Some r \<Rightarrow> if i \<in> snd ` set es \<and> passes f (GetOther r u) then Some (Suppress u r) else Some r)"
      using Cons.prems by (intro Cons.IH) auto
    then show ?thesis using False r ni
      by (auto simp: x deref_eq [OF r(1)] fun_eq_iff split: option.split)
  qed
qed

lemma SuppressPvP_spec:
  assumes inv: "combat_inv w"
  shows "combat_inv (SuppressPvPCombat e u f w)"
    and "cw_refs (SuppressPvPCombat e u f w) = (\<lambda>i. case cw_refs w i of None \<Rightarrow> None
      | Some r \<Rightarrow> if cr_pvp r \<and> side_of r u \<and> passes f (GetOther r u) then Some (Suppress u r) else Some r)"
proof -
  have ok: "refs_ok w" using inv by (simp add: combat_inv_def)
  have "settled_but u w" using inv by (simp add: combat_inv_def settled_but_def)
  moreover have live: "\<forall>(g, i) \<in> set (tab w True u). \<exists>r. cw_refs w i = Some r \<and> joins r u g"
    using entries_live [OF ok] by fastforce
  ultimately have spec: "settled_but u (suppress_refs f u (tab w True u) w)
    \<and> cw_refs (suppress_refs f u (tab w True u) w) = (\<lambda>i. case cw_refs w i of None \<Rightarrow> None
        | Some r \<Rightarrow> if i \<in> snd ` set (tab w True u) \<and> passes f (GetOther r u) then Some (Suppress u r) else Some r)"
    by (intro suppress_refs_spec ids_distinct [OF ok])
  have in_tab: "i \<in> snd ` set (tab w True u) \<longleftrightarrow> cr_pvp r \<and> side_of r u" if "cw_refs w i = Some r" for i r
  proof
    assume "i \<in> snd ` set (tab w True u)"
    then show "cr_pvp r \<and> side_of r u"
      using that entries_live [OF ok] by (fastforce simp: joins_def side_of_def)
  next
    assume "cr_pvp r \<and> side_of r u"
    then have "(GetOther r u, i) \<in> set (tab w True u)"
      unfolding refs_ok_in [OF ok] using that by (auto simp: joins_def side_of_def GetOther_def)
    then show "i \<in> snd ` set (tab w True u)" by force
  qed
  show "combat_inv (SuppressPvPCombat e u f w)"
    using settle spec by (simp add: SuppressPvPCombat_def pve_pvp_tab Let_def split_beta)
  show "cw_refs (SuppressPvPCombat e u f w) = (\<lambda>i. case cw_refs w i of None \<Rightarrow> None
      | Some r \<Rightarrow> if cr_pvp r \<and> side_of r u \<and> passes f (GetOther r u) then Some (Suppress u r) else Some r)"
    using spec in_tab
    by (auto simp: SuppressPvPCombat_def pve_pvp_tab Let_def split_beta fun_eq_iff split: option.split)
qed

subsection \<open>Every operation keeps the invariant\<close>

lemma CanBegin_False_Set:
  "\<not> IsInCombatWith w u who \<Longrightarrow> \<not> CanBeginCombat e u who \<Longrightarrow> SetInCombatWith e u who b w = (w, False)"
  by (auto simp: SetInCombatWith_def IsInCombatWith_def)

lemma Set_existing:
  assumes inv: "combat_inv w" and there: "IsInCombatWith w u who"
  shows "combat_inv (fst (SetInCombatWith e u who b w))"
    and "tab (fst (SetInCombatWith e u who b w)) = tab w"
    and "snd (SetInCombatWith e u who b w)"
    and "\<exists>i r s. cw_refs w i = Some r \<and> joins r u who \<and> (s = refreshed r \<or> s = refreshed (RefreshTimer r))
      \<and> (cr_pvp r \<longrightarrow> cr_timer s = PVP_COMBAT_TIMEOUT)
      \<and> cw_refs (fst (SetInCombatWith e u who b w)) = (cw_refs w)(i \<mapsto> s)"
proof -
  have ok: "refs_ok w" using inv by (simp add: combat_inv_def)
  have "combat_inv (fst (SetInCombatWith e u who b w))
    \<and> tab (fst (SetInCombatWith e u who b w)) = tab w \<and> snd (SetInCombatWith e u who b w)
    \<and> (\<exists>i r s. cw_refs w i = Some r \<and> joins r u who \<and> (s = refreshed r \<or> s = refreshed (RefreshTimer r))
      \<and> (cr_pvp r \<longrightarrow> cr_timer s = PVP_COMBAT_TIMEOUT)
      \<and> cw_refs (fst (SetInCombatWith e u who b w)) = (cw_refs w)(i \<mapsto> s))"
  proof (cases "om_get (cw_pvp w u) who")
    case (Some i)
    then obtain r where r: "cw_refs w i = Some r" "cr_pvp r" "joins r u who"
      using refs_ok_get [OF ok, of True u who i] by (auto simp: pve_pvp_tab)
    let ?v = "write_ref i (RefreshTimer r) w"
    have v: "combat_inv ?v"
      by (rule same_ref_inv [OF inv r(1)]) (simp_all add: RefreshTimer_def)
    have vi: "cw_refs ?v i = Some (RefreshTimer r)" by simp
    note spec = Refresh_spec [OF v vi, of e]
    have "cr_timer (refreshed (RefreshTimer r)) = PVP_COMBAT_TIMEOUT"
      by (simp add: refreshed_def RefreshTimer_def)
    then show ?thesis using Some spec r
      by (auto simp: SetInCombatWith_def deref_eq [OF r(1)] intro!: exI [of _ i])
  next
    case None
    then obtain i where i: "om_get (cw_pve w u) who = Some i"
      using there by (auto simp: IsInCombatWith_def)
    then obtain r where r: "cw_refs w i = Some r" "\<not> cr_pvp r" "joins r u who"
      using refs_ok_get [OF ok, of False u who i] by (auto simp: pve_pvp_tab)
    show ?thesis using None i Refresh_spec [OF inv r(1), of e] r
      by (auto simp: SetInCombatWith_def intro!: exI [of _ i])
  qed
  then show "combat_inv (fst (SetInCombatWith e u who b w))"
    "tab (fst (SetInCombatWith e u who b w)) = tab w" "snd (SetInCombatWith e u who b w)"
    "\<exists>i r s. cw_refs w i = Some r \<and> joins r u who \<and> (s = refreshed r \<or> s = refreshed (RefreshTimer r))
      \<and> (cr_pvp r \<longrightarrow> cr_timer s = PVP_COMBAT_TIMEOUT)
      \<and> cw_refs (fst (SetInCombatWith e u who b w)) = (cw_refs w)(i \<mapsto> s)"
    by blast+
qed

lemma Set_inv:
  assumes inv: "combat_inv w"
  shows "combat_inv (fst (SetInCombatWith e u who b w))"
proof (cases "IsInCombatWith w u who")
  case True
  then show ?thesis by (rule Set_existing [OF inv])
next
  case False
  then show ?thesis using Set_new(1) [OF inv False] CanBegin_False_Set [OF False] inv
    by (cases "CanBeginCombat e u who") simp_all
qed

lemma Set_pairs:
  assumes inv: "combat_inv w"
  shows "IsInCombatWith (fst (SetInCombatWith e u who b w)) x y \<longleftrightarrow>
    IsInCombatWith w x y \<or> CanBeginCombat e u who \<and> (x = u \<and> y = who \<or> x = who \<and> y = u)"
proof (cases "IsInCombatWith w u who")
  case True
  have "refs_ok w" using inv by (simp add: combat_inv_def)
  then have "IsInCombatWith w who u" using True by (simp add: IsInCombatWith_tab refs_ok_sym [of w _ who])
  with True show ?thesis by (auto simp: IsInCombatWith_tab Set_existing(2) [OF inv True])
next
  case False
  show ?thesis
  proof (cases "CanBeginCombat e u who")
    case True
    let ?w = "fst (SetInCombatWith e u who b w)"
    note new = Set_new [OF inv False True, of b]
    have ok: "refs_ok w" "refs_ok ?w" using inv new(1) by (simp_all add: combat_inv_def)
    have fresh: "cw_refs w (cw_next w) = None"
      using refs_ok_ref [OF ok(1)] by (cases "cw_refs w (cw_next w)") auto
    have "joins (started e u who b) x y \<longleftrightarrow> x = u \<and> y = who \<or> x = who \<and> y = u"
      by (auto simp: joins_def started_def)
    then show ?thesis using True fresh unfolding IsInCombatWith_iff [OF ok(1)] IsInCombatWith_iff [OF ok(2)] new(2)
      fun_upd_apply by (metis option.distinct(1) option.inject)
  next
    case no: False
    then show ?thesis by (simp add: CanBegin_False_Set [OF False no])
  qed
qed

lemma inherit_inv: "combat_inv w \<Longrightarrow> combat_inv (inherit_loop e u who es w)"
  by (induction e u who es w rule: inherit_loop.induct) (auto simp: Let_def intro: Set_inv)

lemma Inherit_inv: "combat_inv w \<Longrightarrow> combat_inv (InheritCombatStatesFrom e u who w)"
  by (simp add: InheritCombatStatesFrom_def Let_def inherit_inv)

lemma EndAll_one:
  assumes inv: "combat_inv w"
  shows "combat_inv (end_all e (collect_refs f u w (tab w p u)) w)"
    and "cw_refs (end_all e (collect_refs f u w (tab w p u)) w) = (\<lambda>i. case cw_refs w i of None \<Rightarrow> None
      | Some r \<Rightarrow> if cr_pvp r = p \<and> side_of r u \<and> passes f (GetOther r u) then None else Some r)"
proof -
  have ok: "refs_ok w" using inv by (simp add: combat_inv_def)
  have "end_all e (collect_refs f u w (tab w p u)) w
    = end_where e (\<lambda>r. passes f (GetOther r u)) u p (tab w p u) w"
    unfolding collect_refs_def using entries_live [OF ok]
    by (intro end_where_eq [OF inv ids_distinct [OF ok], symmetric]) auto
  then show "combat_inv (end_all e (collect_refs f u w (tab w p u)) w)"
    "cw_refs (end_all e (collect_refs f u w (tab w p u)) w) = (\<lambda>i. case cw_refs w i of None \<Rightarrow> None
      | Some r \<Rightarrow> if cr_pvp r = p \<and> side_of r u \<and> passes f (GetOther r u) then None else Some r)"
    using end_where_spec [OF inv] by simp_all
qed

datatype combat_op =
    OpSet guid guid bool
  | OpUpdate guid u32
  | OpInherit guid guid
  | OpBeyondRange guid float32 bool
  | OpRevalidate guid
  | OpSuppressPvP guid unit_filter
  | OpEndPvE guid unit_filter
  | OpEndPvP guid unit_filter
  | OpEndAll guid unit_filter
  | OpSuppressFor bool guid guid \<comment> \<open>through the reference that the first unit's manager holds\<close>
  | OpEndOne bool guid guid

fun combat_step :: "combat_world \<Rightarrow> combat_env \<times> combat_op \<Rightarrow> combat_world" where
  "combat_step w (e, OpSet u who b) = fst (SetInCombatWith e u who b w)"
| "combat_step w (e, OpUpdate u t) = Combat_Update e u t w"
| "combat_step w (e, OpInherit u who) = InheritCombatStatesFrom e u who w"
| "combat_step w (e, OpBeyondRange u d b) = EndCombatBeyondRange e u d b w"
| "combat_step w (e, OpRevalidate u) = RevalidateCombat e u w"
| "combat_step w (e, OpSuppressPvP u f) = SuppressPvPCombat e u f w"
| "combat_step w (e, OpEndPvE u f) = EndAllPvECombat e u f w"
| "combat_step w (e, OpEndPvP u f) = EndAllPvPCombat e u f w"
| "combat_step w (e, OpEndAll u f) = EndAllCombat e u f w"
| "combat_step w (e, OpSuppressFor p u g) =
     (case om_get (tab w p u) g of None \<Rightarrow> w | Some i \<Rightarrow> SuppressFor e i u w)"
| "combat_step w (e, OpEndOne p u g) =
     (case om_get (tab w p u) g of None \<Rightarrow> w | Some i \<Rightarrow> EndCombat e i w)"

lemma EndPvE_inv: "combat_inv w \<Longrightarrow> combat_inv (EndAllPvECombat e u f w)"
  using EndAll_one(1) [of "call (CallClearAllThreat u) (call (CallRemoveFromThreatLists u f) w)" e f u False]
  by (simp add: EndAllPvECombat_def Let_def pve_pvp_tab)

lemma EndPvP_inv: "combat_inv w \<Longrightarrow> combat_inv (EndAllPvPCombat e u f w)"
  using EndAll_one(1) [of w e f u True] by (simp add: EndAllPvPCombat_def pve_pvp_tab)

lemma Beyond_inv: "combat_inv w \<Longrightarrow> combat_inv (EndCombatBeyondRange e u d b w)"
  by (simp add: EndCombatBeyondRange_def Let_def pve_pvp_tab end_where_spec(1))

lemma Revalidate_inv: "combat_inv w \<Longrightarrow> combat_inv (RevalidateCombat e u w)"
  by (simp add: RevalidateCombat_def Let_def pve_pvp_tab end_where_spec(1))

lemma tab_live:
  "combat_inv w \<Longrightarrow> om_get (tab w p u) g = Some i
    \<Longrightarrow> \<exists>r. cw_refs w i = Some r \<and> cr_pvp r = p \<and> joins r u g"
  by (simp add: combat_inv_def refs_ok_get)

lemma joins_party: "joins r u g \<Longrightarrow> side_of r u"
  by (auto simp: joins_def side_of_def)

lemma combat_step_inv: "combat_inv w \<Longrightarrow> combat_inv (combat_step w x)"
proof (induction w x rule: combat_step.induct)
  case (10 w e p u g)
  then show ?case
    using SuppressFor_inv [OF _ _ joins_party] tab_live
    by (cases "om_get (tab w p u) g") (simp, fastforce)
next
  case (11 w e p u g)
  then show ?case
    using EndCombat_inv tab_live by (cases "om_get (tab w p u) g") (simp, fastforce)
qed (simp_all add: Set_inv Combat_Update_refs(1) Inherit_inv Beyond_inv Revalidate_inv
    SuppressPvP_spec(1) EndPvE_inv EndPvP_inv EndAllCombat_def)

lemma Combat_init_inv: "combat_inv Combat_init"
  by (simp add: combat_inv_def refs_ok_def Combat_init_def tab_def in_combat_def)

interpretation combat: op_machine Combat_init combat_step combat_inv
  by unfold_locales (simp_all add: Combat_init_inv combat_step_inv)

section \<open>Properties\<close>

definition combat_run :: "(combat_env \<times> combat_op) list \<Rightarrow> combat_world" where
  "combat_run ops = foldl combat_step Combat_init ops"

lemma combat_run_inv: "combat_inv (combat_run ops)"
  unfolding combat_run_def by (rule combat.run_inv)

lemma combat_inv_ok: "combat_inv w \<Longrightarrow> refs_ok w"
  by (simp add: combat_inv_def)

text \<open>C2: After any sequence of the manager's operations, with the units' positions, factions
  and life changing freely in between, a unit carries the combat flag exactly when one of its
  references is not suppressed for it; being in combat is symmetric and never reflexive; a pair
  is in one kind of combat at most; every pointer a manager holds leads to a live reference of
  that pair; and the duplicate registration assertion has never failed.\<close>

theorem Combat_flag_and_symmetry:
  "cw_flag (combat_run ops) u = HasCombat (combat_run ops) u
   \<and> IsInCombatWith (combat_run ops) u v = IsInCombatWith (combat_run ops) v u
   \<and> \<not> IsInCombatWith (combat_run ops) u u
   \<and> (om_get (cw_pve (combat_run ops) u) v = None \<or> om_get (cw_pvp (combat_run ops) u) v = None)
   \<and> list_all (\<lambda>(g, i). \<exists>r. cw_refs (combat_run ops) i = Some r \<and> GetOther r u = g
        \<and> (cr_first r = u \<or> cr_second r = u)) (cw_pve (combat_run ops) u @ cw_pvp (combat_run ops) u)
   \<and> cw_asserts (combat_run ops)"
proof -
  let ?w = "combat_run ops"
  have inv: "combat_inv ?w" by (rule combat_run_inv)
  note ok = combat_inv_ok [OF inv]
  have "cw_flag ?w u = HasCombat ?w u" using inv HasCombat_iff [OF ok] by (simp add: combat_inv_def)
  moreover have "IsInCombatWith ?w u v = IsInCombatWith ?w v u"
    by (simp add: IsInCombatWith_tab refs_ok_sym [OF ok, of _ u v])
  moreover have "\<not> IsInCombatWith ?w u u"
    unfolding IsInCombatWith_iff [OF ok] joins_def using refs_ok_ref [OF ok] by metis
  moreover have "om_get (cw_pve ?w u) v = None \<or> om_get (cw_pvp ?w u) v = None"
    using ok by (simp add: refs_ok_def)
  moreover have "\<exists>r. cw_refs ?w i = Some r \<and> GetOther r u = g \<and> (cr_first r = u \<or> cr_second r = u)"
    if "(g, i) \<in> set (tab ?w p u)" for g i p
    using entries_live [OF ok that] by (auto simp: joins_def GetOther_def)
  then have "list_all (\<lambda>(g, i). \<exists>r. cw_refs ?w i = Some r \<and> GetOther r u = g
        \<and> (cr_first r = u \<or> cr_second r = u)) (cw_pve ?w u @ cw_pvp ?w u)"
    unfolding pve_pvp_tab list_all_iff by auto
  ultimately show ?thesis using inv by (simp add: combat_inv_def)
qed

text \<open>\<open>SetInCombatWith\<close> returns what \<open>IsInCombatWith\<close> says right afterwards, namely whether
  the pair was in combat already or may begin it; it changes no other pair.\<close>

theorem SetInCombatWith_result:
  "snd (SetInCombatWith e u who b (combat_run ops))
     = IsInCombatWith (fst (SetInCombatWith e u who b (combat_run ops))) u who
   \<and> snd (SetInCombatWith e u who b (combat_run ops))
     = (IsInCombatWith (combat_run ops) u who \<or> CanBeginCombat e u who)
   \<and> IsInCombatWith (fst (SetInCombatWith e u who b (combat_run ops))) x y
     = (IsInCombatWith (combat_run ops) x y
        \<or> CanBeginCombat e u who \<and> (x = u \<and> y = who \<or> x = who \<and> y = u))"
proof -
  let ?w = "combat_run ops"
  note inv = combat_run_inv [of ops]
  have "snd (SetInCombatWith e u who b ?w) = (IsInCombatWith ?w u who \<or> CanBeginCombat e u who)"
    using Set_existing(3) [OF inv] Set_new(3) [OF inv] CanBegin_False_Set [of ?w u who e b]
    by (metis snd_conv)
  then show ?thesis using Set_pairs [OF inv, of e u who b] by blast
qed

lemma removed_pairs:
  assumes "refs_ok w" "refs_ok v"
    and "cw_refs v = (\<lambda>i. case cw_refs w i of None \<Rightarrow> None | Some r \<Rightarrow> if D r then None else Some r)"
    and "\<And>r. joins r x y \<Longrightarrow> cr_first r \<noteq> cr_second r \<Longrightarrow> D r \<longleftrightarrow> E"
  shows "IsInCombatWith v x y \<longleftrightarrow> IsInCombatWith w x y \<and> \<not> E"
proof -
  have "cw_refs v i = Some r \<longleftrightarrow> cw_refs w i = Some r \<and> \<not> D r" for i r
    by (auto simp: assms(3) split: option.splits)
  moreover have "D r \<longleftrightarrow> E" if "cw_refs w i = Some r" "joins r x y" for i r
    using assms(4) refs_ok_ref [OF assms(1)] that by blast
  ultimately show ?thesis
    unfolding IsInCombatWith_iff [OF assms(1)] IsInCombatWith_iff [OF assms(2)] by blast
qed

lemma EndAll_refs:
  assumes inv: "combat_inv w"
  shows "combat_inv (EndAllCombat e u f w)"
    and "cw_refs (EndAllCombat e u f w) = (\<lambda>i. case cw_refs w i of None \<Rightarrow> None
      | Some r \<Rightarrow> if side_of r u \<and> passes f (GetOther r u) then None else Some r)"
    and "IsInCombatWith (EndAllCombat e u f w) x y
      = (IsInCombatWith w x y \<and> \<not> (x = u \<and> passes f y \<or> y = u \<and> passes f x))"
proof -
  let ?start = "call (CallClearAllThreat u) (call (CallRemoveFromThreatLists u f) w)"
  let ?v = "EndAllPvECombat e u f w" and ?z = "EndAllCombat e u f w"
  have inv': "combat_inv ?v" using EndPvE_inv [OF inv] .
  show z: "combat_inv ?z" using EndPvP_inv [OF inv'] by (simp add: EndAllCombat_def)
  have v: "cw_refs ?v = (\<lambda>i. case cw_refs w i of None \<Rightarrow> None
      | Some r \<Rightarrow> if \<not> cr_pvp r \<and> side_of r u \<and> passes f (GetOther r u) then None else Some r)"
    using EndAll_one(2) [of ?start e f u False] inv
    by (simp add: EndAllPvECombat_def Let_def pve_pvp_tab cong: option.case_cong)
  have "cw_refs ?z = (\<lambda>i. case cw_refs ?v i of None \<Rightarrow> None
      | Some r \<Rightarrow> if cr_pvp r \<and> side_of r u \<and> passes f (GetOther r u) then None else Some r)"
    using EndAll_one(2) [OF inv', of e f u True]
    by (simp add: EndAllCombat_def EndAllPvPCombat_def pve_pvp_tab cong: option.case_cong)
  then show refs: "cw_refs ?z = (\<lambda>i. case cw_refs w i of None \<Rightarrow> None
      | Some r \<Rightarrow> if side_of r u \<and> passes f (GetOther r u) then None else Some r)"
    by (auto simp: v fun_eq_iff split: option.split)
  show "IsInCombatWith ?z x y = (IsInCombatWith w x y \<and> \<not> (x = u \<and> passes f y \<or> y = u \<and> passes f x))"
    by (rule removed_pairs [OF combat_inv_ok combat_inv_ok refs])
      (auto simp: inv z joins_def side_of_def GetOther_def)
qed

text \<open>\<open>EndAllCombat\<close> ends exactly the combat of the unit with the units that pass the
  filter, on both sides, and leaves every other pair alone.  With no filter the unit is in
  combat with nobody and its combat flag is clear.\<close>

theorem EndAllCombat_exact:
  "IsInCombatWith (EndAllCombat e u f (combat_run ops)) x y
     = (IsInCombatWith (combat_run ops) x y \<and> \<not> (x = u \<and> passes f y) \<and> \<not> (y = u \<and> passes f x))
   \<and> \<not> cw_flag (EndAllCombat e u None (combat_run ops)) u"
proof -
  note all = EndAll_refs [OF combat_run_inv [of ops], where e = e and u = u]
  have "\<not> in_combat (cw_refs (EndAllCombat e u None (combat_run ops))) u"
    by (auto simp: in_combat_def all(2) passes_def split: option.splits if_splits)
  then show ?thesis using all(1) [of None] all(3) [of f x y] by (auto simp: combat_inv_def)
qed

lemma RevalidateCombat_exact:
  "IsInCombatWith (RevalidateCombat e u (combat_run ops)) x y
     = (IsInCombatWith (combat_run ops) x y
        \<and> \<not> (x = u \<and> \<not> CanBeginCombat e u y) \<and> \<not> (y = u \<and> \<not> CanBeginCombat e u x))"
proof -
  let ?w = "combat_run ops" and ?P = "\<lambda>r. \<not> CanBeginCombat e u (GetOther r u)"
  let ?v = "end_where e ?P u False (tab ?w False u) ?w"
  let ?z = "RevalidateCombat e u ?w"
  have inv: "combat_inv ?w" "combat_inv ?v" "combat_inv ?z"
    by (simp_all add: combat_run_inv end_where_spec(1) Revalidate_inv)
  have "cw_refs ?z = (\<lambda>i. case cw_refs ?v i of None \<Rightarrow> None
      | Some r \<Rightarrow> if cr_pvp r \<and> side_of r u \<and> ?P r then None else Some r)"
    using end_where_spec(2) [OF inv(2), of e ?P u True]
    by (simp add: RevalidateCombat_def pve_pvp_tab Let_def cong: option.case_cong)
  then have z: "cw_refs ?z = (\<lambda>i. case cw_refs ?w i of None \<Rightarrow> None
      | Some r \<Rightarrow> if side_of r u \<and> ?P r then None else Some r)"
    using end_where_spec(2) [OF inv(1), of e ?P u False] by (auto simp: fun_eq_iff split: option.split)
  have "IsInCombatWith ?z x y \<longleftrightarrow> IsInCombatWith ?w x y
      \<and> \<not> (x = u \<and> \<not> CanBeginCombat e u y \<or> y = u \<and> \<not> CanBeginCombat e u x)"
    by (rule removed_pairs [OF combat_inv_ok combat_inv_ok z])
      (auto simp: inv joins_def side_of_def GetOther_def)
  then show ?thesis by blast
qed

subsection \<open>The PvP timer\<close>

definition pvp_tick :: "combat_env \<Rightarrow> guid \<Rightarrow> guid \<Rightarrow> combat_world \<Rightarrow> bool \<times> u32 \<Rightarrow> combat_world" where
  "pvp_tick e u who w x = Combat_Update e (if fst x then u else who) (snd x) w"

definition own_time :: "(bool \<times> u32) list \<Rightarrow> nat" where
  "own_time ticks = sum_list (map (\<lambda>(own, t). if own then unat t else 0) ticks)"

lemma refs_ok_one: "refs_ok w \<Longrightarrow> om_get (cw_pve w u) g = None \<or> om_get (tab w True u) g = None"
  by (simp add: refs_ok_def pve_pvp_tab)

lemma pvp_tick_inv: "combat_inv w \<Longrightarrow> combat_inv (pvp_tick e u who w x)"
  by (simp add: pvp_tick_def Combat_Update_refs(1))

lemma pvp_ticks_apart:
  assumes "combat_inv w" "\<not> IsInCombatWith w u who"
  shows "\<not> IsInCombatWith (foldl (pvp_tick e u who) w ticks) u who"
  using assms
proof (induction ticks arbitrary: w)
  case Nil
  then show ?case by simp
next
  case (Cons x ticks)
  note inv = pvp_tick_inv [OF Cons.prems(1), of e u who x]
  have old: "\<exists>s. cw_refs w i = Some s \<and> joins s = joins r"
    if "cw_refs (pvp_tick e u who w x) i = Some r" for i r
    using that by (auto simp: pvp_tick_def Combat_Update_refs(2) [OF Cons.prems(1)] aged_def
        joins_def fun_eq_iff split: option.splits if_splits)
  have "\<not> IsInCombatWith (pvp_tick e u who w x) u who"
    using Cons.prems(2) old
    unfolding IsInCombatWith_iff [OF combat_inv_ok [OF inv]]
      IsInCombatWith_iff [OF combat_inv_ok [OF Cons.prems(1)]] by metis
  with Cons.IH [OF inv] show ?case by simp
qed

lemma pvp_ticks_together:
  assumes "combat_inv w" "cw_refs w i = Some r" "cr_pvp r" "cr_first r = u" "cr_second r = who"
    "0 < unat (cr_timer r)"
  shows "IsInCombatWith (foldl (pvp_tick e u who) w ticks) u who \<longleftrightarrow> own_time ticks < unat (cr_timer r)"
  using assms
proof (induction ticks arbitrary: w r)
  case Nil
  then show ?case
    using IsInCombatWith_iff [OF combat_inv_ok [OF Nil.prems(1)]] by (auto simp: own_time_def joins_def)
next
  case (Cons x ticks)
  obtain own t where x: "x = (own, t)" by fastforce
  note ok = combat_inv_ok [OF Cons.prems(1)]
  have ne: "u \<noteq> who" using refs_ok_ref [OF ok Cons.prems(2)] Cons.prems by auto
  let ?v = "pvp_tick e u who w x"
  note inv = pvp_tick_inv [OF Cons.prems(1), of e u who x]
  have v: "cw_refs ?v i = (if own then aged t r else Some r)"
    using Cons.prems ne by (auto simp: pvp_tick_def x Combat_Update_refs(2) [OF Cons.prems(1)])
  show ?case
  proof (cases "own \<and> cr_timer r \<le> t")
    case True
    have jr: "joins r u who" using Cons.prems by (simp add: joins_def)
    have "\<not> joins s u who" if s: "cw_refs ?v j = Some s" for j s
    proof
      assume js: "joins s u who"
      obtain s0 where s0: "cw_refs w j = Some s0" "joins s0 = joins s"
        using s by (auto simp: pvp_tick_def Combat_Update_refs(2) [OF Cons.prems(1)] aged_def
            joins_def fun_eq_iff split: option.splits if_splits)
      have "om_get (cw_pve w u) who = None"
        using refs_ok_get [OF ok, of True u who i] Cons.prems jr refs_ok_one [OF ok, of u who] by auto
      then have "cr_pvp s0" using refs_ok_get [OF ok, of False u who j] s0 js
        by (auto simp: pve_pvp_tab)
      then have "j = i" using joins_unique [OF ok s0(1) Cons.prems(2)] s0(2) js jr Cons.prems(3) by auto
      with s v True show False by (simp add: aged_def)
    qed
    then have "\<not> IsInCombatWith ?v u who"
      unfolding IsInCombatWith_iff [OF combat_inv_ok [OF inv]] by blast
    then have "\<not> IsInCombatWith (foldl (pvp_tick e u who) w (x # ticks)) u who"
      using pvp_ticks_apart [OF inv] by simp
    then show ?thesis using True by (simp add: own_time_def x word_le_nat_alt)
  next
    case False
    define s where "s = (if own then r\<lparr>cr_timer := cr_timer r - t\<rparr> else r)"
    have s: "cw_refs ?v i = Some s" using False v by (auto simp: aged_def s_def)
    have tm: "unat (cr_timer s) = unat (cr_timer r) - (if own then unat t else 0)"
      "(if own then unat t else 0) < unat (cr_timer r)"
      using False Cons.prems by (auto simp: s_def unat_sub_if' word_le_nat_alt)
    have "IsInCombatWith (foldl (pvp_tick e u who) ?v ticks) u who \<longleftrightarrow> own_time ticks < unat (cr_timer s)"
      using Cons.prems tm by (intro Cons.IH inv s) (auto simp: s_def)
    then show ?thesis using tm by (auto simp: own_time_def x)
  qed
qed

text \<open>C35: A PvP combat that \<open>SetInCombatWith\<close> has just begun lasts until the initiator's
  manager has been updated with five seconds in all.  Updates of the other side's manager do
  not count, however many there are.\<close>

theorem PvP_combat_times_out:
  assumes "\<not> IsInCombatWith (combat_run ops) u who" and "CanBeginCombat e u who"
    and "cu_by_player (ce_unit e u)" and "cu_by_player (ce_unit e who)"
  shows "IsInCombatWith (foldl (pvp_tick e u who) (fst (SetInCombatWith e u who b (combat_run ops))) ticks) u who
    \<longleftrightarrow> own_time ticks < 5000"
proof -
  note new = Set_new [OF combat_run_inv assms(1,2), of b]
  let ?r = "started e u who b"
  have "cw_refs (fst (SetInCombatWith e u who b (combat_run ops))) (cw_next (combat_run ops)) = Some ?r"
    by (simp add: new(2))
  from pvp_ticks_together [OF new(1) this, of u who e ticks] assms(3,4) show ?thesis
    by (simp add: started_def PVP_COMBAT_TIMEOUT_def)
qed

definition sample_unit :: combat_unit where
  "sample_unit = \<lparr>cu_in_world = True, cu_alive = True, cu_map = 1, cu_evade = False, cu_in_flight = False,
     cu_player_gm = Some False, cu_by_player = True, cu_flag_player_controlled = True, cu_is_player = True,
     cu_is_creature = False, cu_is_pet = False, cu_immune_pc = False, cu_immune_npc = False,
     cu_has_ai = True, cu_master = None, cu_controlled = []\<rparr>"

definition sample_units :: combat_env where
  "sample_units = \<lparr>ce_unit = (\<lambda>_. sample_unit), ce_friendly = (\<lambda>_ _. False), ce_in_phase = (\<lambda>_ _. True),
     ce_within = (\<lambda>_ _ _. True)\<rparr>"

lemma sample_apart: "\<not> IsInCombatWith (combat_run []) 1 2" "CanBeginCombat sample_units 1 2"
  "cu_by_player (ce_unit sample_units 1)" "cu_by_player (ce_unit sample_units 2)"
  by (simp_all add: combat_run_def Combat_init_def IsInCombatWith_def CanBeginCombat_def Let_def
      sample_units_def sample_unit_def)

lemma PvP_combat_times_out_witness:
  "IsInCombatWith (foldl (pvp_tick sample_units 1 2)
      (fst (SetInCombatWith sample_units 1 2 False (combat_run []))) [(True, 4999), (False, 9000)]) 1 2
   \<and> \<not> IsInCombatWith (foldl (pvp_tick sample_units 1 2)
      (fst (SetInCombatWith sample_units 1 2 False (combat_run []))) [(True, 4999), (False, 9000), (True, 1)]) 1 2"
  using PvP_combat_times_out [OF sample_apart, of False "[(True, 4999), (False, 9000)]"]
    PvP_combat_times_out [OF sample_apart, of False "[(True, 4999), (False, 9000), (True, 1)]"]
  by (simp add: own_time_def)

subsection \<open>Inherited combat\<close>

definition inherits :: "combat_env \<Rightarrow> guid \<Rightarrow> guid \<Rightarrow> bool" where
  "inherits e u g \<longleftrightarrow>
     \<not> (cu_immune_pc (ce_unit e u) \<and> cu_flag_player_controlled (ce_unit e g))
     \<and> \<not> (cu_immune_npc (ce_unit e u) \<and> \<not> cu_flag_player_controlled (ce_unit e g))
     \<and> CanBeginCombat e u g"

lemma Set_keeps_joins:
  assumes inv: "combat_inv w" and r: "cw_refs w i = Some r" "joins r x y"
  shows "\<exists>s. cw_refs (fst (SetInCombatWith e u who b w)) i = Some s \<and> joins s x y \<and> cr_pvp s = cr_pvp r"
proof (cases "IsInCombatWith w u who")
  case True
  from Set_existing(4) [OF inv True, of e b] r show ?thesis
    by (auto simp: refreshed_def RefreshTimer_def joins_def)
next
  case False
  have "i \<noteq> cw_next w" using refs_ok_ref [OF combat_inv_ok [OF inv] r(1)] by simp
  then show ?thesis
    using Set_new(2) [OF inv False] CanBegin_False_Set [OF False] r
    by (cases "CanBeginCombat e u who") auto
qed

lemma inherit_loop_pairs:
  assumes "combat_inv w" "\<forall>(g, i) \<in> set es. \<exists>r. cw_refs w i = Some r \<and> joins r who g"
  shows "IsInCombatWith (inherit_loop e u who es w) x y \<longleftrightarrow> IsInCombatWith w x y
    \<or> (x = u \<and> y \<in> fst ` set es \<and> inherits e u y) \<or> (y = u \<and> x \<in> fst ` set es \<and> inherits e u x)"
  using assms
proof (induction es arbitrary: w)
  case Nil
  then show ?case by simp
next
  case (Cons z es)
  obtain g i where z: "z = (g, i)" by fastforce
  obtain r where r: "cw_refs w i = Some r" "joins r who g" using Cons.prems(2) by (auto simp: z)
  have ok: "refs_ok w" using Cons.prems(1) by (rule combat_inv_ok)
  have other: "GetOther (deref w i) who = g"
    using r refs_ok_ref [OF ok r(1)] by (auto simp: deref_def GetOther_def joins_def)
  have sym: "IsInCombatWith w u g = IsInCombatWith w g u"
    by (simp add: IsInCombatWith_tab refs_ok_sym [OF ok, of _ u g])
  let ?v = "fst (SetInCombatWith e u g False w)"
  have IH: "IsInCombatWith (inherit_loop e u who es v) x y \<longleftrightarrow> IsInCombatWith v x y
      \<or> (x = u \<and> y \<in> fst ` set es \<and> inherits e u y) \<or> (y = u \<and> x \<in> fst ` set es \<and> inherits e u x)"
    if "v = w \<or> v = ?v" for v
  proof (rule Cons.IH)
    show "combat_inv v" using that Cons.prems(1) Set_inv by blast
    show "\<forall>(h, j) \<in> set es. \<exists>r. cw_refs v j = Some r \<and> joins r who h"
      using that Cons.prems Set_keeps_joins [OF Cons.prems(1)] by fastforce
  qed
  consider (there) "IsInCombatWith w u g" | (blocked) "\<not> IsInCombatWith w u g"
      "(cu_immune_pc (ce_unit e u) \<and> cu_flag_player_controlled (ce_unit e g))
       \<or> (cu_immune_npc (ce_unit e u) \<and> \<not> cu_flag_player_controlled (ce_unit e g))"
    | (set) "\<not> IsInCombatWith w u g"
      "\<not> ((cu_immune_pc (ce_unit e u) \<and> cu_flag_player_controlled (ce_unit e g))
       \<or> (cu_immune_npc (ce_unit e u) \<and> \<not> cu_flag_player_controlled (ce_unit e g)))" by blast
  then show ?case
  proof cases
    case there
    then show ?thesis using IH [of w] sym by (auto simp: z)
  next
    case blocked
    then have "inherit_loop e u who (z # es) w = inherit_loop e u who es w" by (simp add: z other)
    moreover have "\<not> inherits e u g" using blocked(2) by (auto simp: inherits_def)
    ultimately show ?thesis using IH [of w] by (auto simp: z)
  next
    case set
    then have "inherit_loop e u who (z # es) w = inherit_loop e u who es ?v"
      by (auto simp: z other Let_def)
    moreover have "inherits e u g = CanBeginCombat e u g" using set(2) by (auto simp: inherits_def)
    ultimately show ?thesis
      using IH [of ?v] Set_pairs [OF Cons.prems(1), of e u g False x y] by (auto simp: z)
  qed
qed

lemma inherit_keeps_joins:
  assumes "combat_inv w" "cw_refs w i = Some r" "joins r x y"
  shows "\<exists>s. cw_refs (inherit_loop e u who es w) i = Some s \<and> joins s x y \<and> cr_pvp s = cr_pvp r"
  using assms
proof (induction es arbitrary: w r)
  case Nil
  then show ?case by simp
next
  case (Cons z es)
  obtain g j where z: "z = (g, j)" by fastforce
  consider "inherit_loop e u who (z # es) w = inherit_loop e u who es w"
    | t where "inherit_loop e u who (z # es) w = inherit_loop e u who es (fst (SetInCombatWith e u t False w))"
    unfolding z inherit_loop.simps Let_def by (metis (full_types))
  then show ?case
  proof cases
    case 1
    then show ?thesis using Cons by simp
  next
    case 2
    let ?v = "fst (SetInCombatWith e u t False w)"
    obtain s where s: "cw_refs ?v i = Some s" "joins s x y" "cr_pvp s = cr_pvp r"
      using Set_keeps_joins [OF Cons.prems] by blast
    show ?thesis using Cons.IH [OF Set_inv [OF Cons.prems(1)] s(1,2)] 2 s(3) by metis
  qed
qed

text \<open>\<open>InheritCombatStatesFrom\<close> puts the unit in combat with exactly those units that the
  other one fights, that the unit is not immune to and that it may fight; no other pair
  changes.\<close>

theorem InheritCombatStates_exact:
  "IsInCombatWith (InheritCombatStatesFrom e u who (combat_run ops)) x y
   \<longleftrightarrow> IsInCombatWith (combat_run ops) x y
     \<or> (x = u \<and> IsInCombatWith (combat_run ops) who y \<and> inherits e u y)
     \<or> (y = u \<and> IsInCombatWith (combat_run ops) who x \<and> inherits e u x)"
proof -
  let ?w = "combat_run ops"
  note inv = combat_run_inv [of ops]
  let ?v = "inherit_loop e u who (tab ?w False who) ?w"
  have vinv: "combat_inv ?v" by (rule inherit_inv [OF inv])
  have live: "\<forall>(g, i) \<in> set (tab v p who). \<exists>r. cw_refs v i = Some r \<and> joins r who g" if "combat_inv v" for v p
    using entries_live [OF combat_inv_ok [OF that]] by fastforce
  have keys: "g \<in> fst ` set (tab v p who) \<longleftrightarrow> om_get (tab v p who) g \<noteq> None" for v p g
    using om_get_None_iff by metis
  have eq: "IsInCombatWith ?v x y \<longleftrightarrow> IsInCombatWith ?w x y
      \<or> (x = u \<and> om_get (tab ?w False who) y \<noteq> None \<and> inherits e u y)
      \<or> (y = u \<and> om_get (tab ?w False who) x \<noteq> None \<and> inherits e u x)" for x y
    using inherit_loop_pairs [OF inv live [OF inv], of e u False x y] by (simp add: keys)
  have "IsInCombatWith (InheritCombatStatesFrom e u who ?w) x y \<longleftrightarrow> IsInCombatWith ?v x y
      \<or> (x = u \<and> om_get (tab ?v True who) y \<noteq> None \<and> inherits e u y)
      \<or> (y = u \<and> om_get (tab ?v True who) x \<noteq> None \<and> inherits e u x)"
    using inherit_loop_pairs [OF vinv live [OF vinv], of e u True x y]
    by (simp add: keys InheritCombatStatesFrom_def pve_pvp_tab Let_def)
  moreover have "om_get (tab ?w False who) g \<noteq> None \<or> om_get (tab ?v True who) g \<noteq> None
      \<longleftrightarrow> IsInCombatWith ?w who g" for g
  proof
    have irrefl: "om_get (tab ?w p h) h = None" for p h
      using refs_ok_get [OF combat_inv_ok [OF inv]] refs_ok_ref [OF combat_inv_ok [OF inv]]
      by (metis joins_def option.exhaust)
    assume "om_get (tab ?w False who) g \<noteq> None \<or> om_get (tab ?v True who) g \<noteq> None"
    then have "IsInCombatWith ?w who g \<or> IsInCombatWith ?v who g"
      by (auto simp: IsInCombatWith_tab)
    then show "IsInCombatWith ?w who g" using eq [of who g] irrefl by (auto simp: IsInCombatWith_tab)
  next
    assume "IsInCombatWith ?w who g"
    then obtain p where p: "om_get (tab ?w p who) g \<noteq> None" by (auto simp: IsInCombatWith_tab)
    show "om_get (tab ?w False who) g \<noteq> None \<or> om_get (tab ?v True who) g \<noteq> None"
    proof (cases p)
      case True
      then obtain i r where "cw_refs ?w i = Some r" "cr_pvp r" "joins r who g"
        using p tab_live [OF inv] by (metis option.exhaust)
      then have "\<exists>s. cw_refs ?v i = Some s \<and> joins s who g \<and> cr_pvp s"
        using inherit_keeps_joins [OF inv] by metis
      then show ?thesis using refs_ok_get [OF combat_inv_ok [OF vinv], of True who g i] by auto
    next
      case False
      with p show ?thesis by simp
    qed
  qed
  ultimately show ?thesis unfolding eq by blast
qed
end
