(* ===== verification/Lfg_Roles.thy ===== *)
theory Lfg_Roles
  imports Prelude
begin

text \<open>
  Roles in the dungeon finder: the role masks of \<^verbatim>\<open>server/game/DungeonFinding/LFG.h\<close>, a dungeon's
  needs, and the role check \<^verbatim>\<open>LFGMgr::CheckGroupRoles\<close> of \<^verbatim>\<open>LFGMgr.cpp\<close>, which both the role
  check of a party and the matching of the queue run.  A \<^verbatim>\<open>LfgRolesMap\<close> is a list in key order.
\<close>

section \<open>Roles\<close>

definition ROLE_LEADER :: u8 where "ROLE_LEADER = 0x01"
definition ROLE_TANK :: u8 where "ROLE_TANK = 0x02"
definition ROLE_HEALER :: u8 where "ROLE_HEALER = 0x04"
definition ROLE_DAMAGE :: u8 where "ROLE_DAMAGE = 0x08"

type_synonym roles_map = "(guid, u8) omap"

record lfg_dungeon =
  requiredTanks :: u32
  requiredHealers :: u32
  requiredDamageDealers :: u32

definition GetMaxGroupSize :: "lfg_dungeon \<Rightarrow> u32" where
  "GetMaxGroupSize d = requiredTanks d + requiredHealers d + requiredDamageDealers d"

lemma ROLE_bits: "ROLE_LEADER = 2 ^ 0" "ROLE_TANK = 2 ^ 1" "ROLE_HEALER = 2 ^ 2" "ROLE_DAMAGE = 2 ^ 3"
  by (simp_all add: ROLE_LEADER_def ROLE_TANK_def ROLE_HEALER_def ROLE_DAMAGE_def)

lemma and_bit: "bit (x :: 'a::len word) n \<Longrightarrow> x AND 2 ^ n = 2 ^ n"
  by (rule bit_word_eqI) (auto simp: bit_and_iff bit_exp_iff)

lemma and_bit_iff: "(x :: 'a::len word) AND 2 ^ n \<noteq> 0 \<longleftrightarrow> bit x n"
  by (simp add: and_exp_eq_0_iff_not_bit)

lemma minus_bit_less: "bit (x :: 'a::len word) n \<Longrightarrow> unat (x - 2 ^ n) < unat x"
proof -
  assume b: "bit x n"
  have "x AND 2 ^ n \<le> x" by (rule word_and_le2)
  then have "(2 :: 'a word) ^ n \<le> x" unfolding and_bit [OF b] .
  then have le: "unat ((2 :: 'a word) ^ n) \<le> unat x" and sub: "unat (x - 2 ^ n) = unat x - unat ((2 :: 'a word) ^ n)"
    by (simp_all only: word_le_nat_alt unat_sub)
  have "(2 :: 'a word) ^ n \<noteq> 0"
  proof
    assume "(2 :: 'a word) ^ n = 0"
    then have "x AND 2 ^ n = 0" by (simp only: and_zero_eq)
    with b show False using and_bit_iff by blast
  qed
  then have "0 < unat ((2 :: 'a word) ^ n)" by (simp only: unat_gt_0 not_False_eq_True)
  from diff_less [OF this order.strict_trans2 [OF this le]] show "unat (x - 2 ^ n) < unat x"
    unfolding sub .
qed

lemma role_minus:
  assumes "(r AND NOT ROLE_LEADER) AND k \<noteq> 0" and "k = ROLE_DAMAGE \<or> k = ROLE_HEALER \<or> k = ROLE_TANK"
  shows "unat (r - k) < unat r"
  using assms unfolding ROLE_bits
  by (auto simp only: and_bit_iff bit_and_iff intro: minus_bit_less)

text \<open>
  \<open>role_loop d before rest\<close> is the loop of \<^verbatim>\<open>CheckGroupRoles\<close> with the iterator at the head of
  \<open>rest\<close>.  The nested calls of the code see the whole map with one role taken from the current
  player; a call that fails undoes that before it goes on, so a failing call leaves the map as it
  was and returns \<open>None\<close> here, and a successful one returns the map it leaves behind.
\<close>

function role_loop :: "lfg_dungeon \<Rightarrow> roles_map \<Rightarrow> roles_map \<Rightarrow> u8 \<Rightarrow> u8 \<Rightarrow> u8 \<Rightarrow> roles_map option" where
  "role_loop d before [] damage healer tank =
     (if unat tank + unat healer + unat damage = unat (of_nat (length before) :: u8)
      then Some before else None)"
| "role_loop d before ((g, r) # rest) damage healer tank =
     (let role = r AND NOT ROLE_LEADER in
      if role = 0 then None
      else case (if role AND ROLE_DAMAGE \<noteq> 0 \<and> role \<noteq> ROLE_DAMAGE
                 then role_loop d [] (before @ (g, r - ROLE_DAMAGE) # rest) 0 0 0 else None) of
        Some m \<Rightarrow> Some m
      | None \<Rightarrow>
      if role = ROLE_DAMAGE \<and> ucast damage = requiredDamageDealers d then None
      else case (if role AND ROLE_HEALER \<noteq> 0 \<and> role \<noteq> ROLE_HEALER
                 then role_loop d [] (before @ (g, r - ROLE_HEALER) # rest) 0 0 0 else None) of
        Some m \<Rightarrow> Some m
      | None \<Rightarrow>
      if role = ROLE_HEALER \<and> ucast healer = requiredHealers d then None
      else case (if role AND ROLE_TANK \<noteq> 0 \<and> role \<noteq> ROLE_TANK
                 then role_loop d [] (before @ (g, r - ROLE_TANK) # rest) 0 0 0 else None) of
        Some m \<Rightarrow> Some m
      | None \<Rightarrow>
      if role = ROLE_TANK \<and> ucast tank = requiredTanks d then None
      else role_loop d (before @ [(g, r)]) rest
             (if role = ROLE_DAMAGE then damage + 1 else damage)
             (if role = ROLE_HEALER then healer + 1 else healer)
             (if role = ROLE_TANK then tank + 1 else tank))"
  by pat_completeness auto

termination
  by (relation "measures [\<lambda>(d, before, rest, _). sum_list (map (unat \<circ> snd) (before @ rest)),
      \<lambda>(d, before, rest, _). length rest]")
    (auto intro: role_minus)

definition CheckGroupRoles :: "lfg_dungeon \<Rightarrow> roles_map \<Rightarrow> roles_map option" where
  "CheckGroupRoles d groles = (if groles = [] then None else role_loop d [] groles 0 0 0)"

section \<open>The role check\<close>

definition plays :: "u8 \<Rightarrow> u8 \<Rightarrow> bool" where
  "plays r c \<longleftrightarrow> c \<in> {ROLE_TANK, ROLE_HEALER, ROLE_DAMAGE} \<and> r AND c \<noteq> 0"

definition assignment :: "lfg_dungeon \<Rightarrow> roles_map \<Rightarrow> u8 list \<Rightarrow> bool" where
  "assignment d m cs \<longleftrightarrow> list_all2 (\<lambda>x c. plays (snd x) c) m cs
     \<and> count_list cs ROLE_TANK \<le> unat (requiredTanks d)
     \<and> count_list cs ROLE_HEALER \<le> unat (requiredHealers d)
     \<and> count_list cs ROLE_DAMAGE \<le> unat (requiredDamageDealers d)"

definition assign :: "roles_map \<Rightarrow> u8 list \<Rightarrow> roles_map" where
  "assign m cs = map2 (\<lambda>x c. (fst x, (snd x AND ROLE_LEADER) OR c)) m cs"

definition valid_roles :: "roles_map \<Rightarrow> bool" where
  "valid_roles m \<longleftrightarrow> (\<forall>x \<in> set m. snd x < 16) \<and> length m < 256"

definition role_of :: "guid \<times> u8 \<Rightarrow> u8" where
  "role_of x = snd x AND NOT ROLE_LEADER"

lemmas role_values = ROLE_LEADER_def ROLE_TANK_def ROLE_HEALER_def ROLE_DAMAGE_def

lemma role_cases:
  assumes "(r :: u8) < 16"
  shows "r \<in> {0, 1, 2, 3, 4, 5, 6, 7, 8, 9, 10, 11, 12, 13, 14, 15}"
proof -
  have l: "[0..<16] = [0, 1, 2, 3, 4, 5, 6, 7, 8, 9, 10, 11, 12, 13, 14, 15]" by code_simp
  have "unat r < 16" using assms by (simp add: word_less_nat_alt)
  then have "unat r \<in> set [0..<16]" by simp
  then have "(of_nat (unat r) :: u8) \<in> of_nat ` set [0..<16]" by (rule imageI)
  then show ?thesis unfolding l by simp
qed

lemma role_zero: "r < 16 \<Longrightarrow> r AND NOT ROLE_LEADER = 0 \<Longrightarrow> \<not> plays r c"
  by (drule role_cases) (auto simp: plays_def role_values)

lemma role_remove:
  assumes "r < 16" "k \<in> {ROLE_TANK, ROLE_HEALER, ROLE_DAMAGE}" "(r AND NOT ROLE_LEADER) AND k \<noteq> 0"
  shows "plays (r - k) c \<longleftrightarrow> plays r c \<and> c \<noteq> k"
    and "(r - k) AND ROLE_LEADER = r AND ROLE_LEADER" and "r - k < 16"
  using role_cases [OF assms(1)] assms(2,3) by (auto simp: plays_def role_values)

lemma role_single:
  assumes "r < 16" "r AND NOT ROLE_LEADER = k" "k \<in> {ROLE_TANK, ROLE_HEALER, ROLE_DAMAGE}"
  shows "plays r c \<longleftrightarrow> c = k" and "(r AND ROLE_LEADER) OR k = r"
  using role_cases [OF assms(1)] assms(2,3) by (auto simp: plays_def role_values)

lemma role_multi:
  assumes "r < 16" "plays r c" "r AND NOT ROLE_LEADER \<noteq> c"
  shows "\<exists>k \<in> {ROLE_TANK, ROLE_HEALER, ROLE_DAMAGE}. k \<noteq> c \<and> (r AND NOT ROLE_LEADER) AND k \<noteq> 0
    \<and> r AND NOT ROLE_LEADER \<noteq> k"
proof -
  have "c = ROLE_TANK \<or> c = ROLE_HEALER \<or> c = ROLE_DAMAGE" using assms(2) by (auto simp: plays_def)
  then show ?thesis
  proof (elim disjE)
    assume c: "c = ROLE_TANK"
    show ?thesis using role_cases [OF assms(1)] assms(2,3) unfolding c plays_def
      by (elim insertE emptyE) (simp_all add: role_values)
  next
    assume c: "c = ROLE_HEALER"
    show ?thesis using role_cases [OF assms(1)] assms(2,3) unfolding c plays_def
      by (elim insertE emptyE) (simp_all add: role_values)
  next
    assume c: "c = ROLE_DAMAGE"
    show ?thesis using role_cases [OF assms(1)] assms(2,3) unfolding c plays_def
      by (elim insertE emptyE) (simp_all add: role_values)
  qed
qed

definition settled :: "roles_map \<Rightarrow> bool" where
  "settled m \<longleftrightarrow> (\<forall>x \<in> set m. role_of x \<in> {ROLE_TANK, ROLE_HEALER, ROLE_DAMAGE})"

definition tally :: "u8 \<Rightarrow> roles_map \<Rightarrow> nat" where
  "tally k m = length (filter (\<lambda>x. role_of x = k) m)"

definition tallies :: "roles_map \<Rightarrow> u8 \<Rightarrow> u8 \<Rightarrow> u8 \<Rightarrow> bool" where
  "tallies m damage healer tank \<longleftrightarrow> unat damage = tally ROLE_DAMAGE m
     \<and> unat healer = tally ROLE_HEALER m \<and> unat tank = tally ROLE_TANK m"

definition fits :: "lfg_dungeon \<Rightarrow> roles_map \<Rightarrow> bool" where
  "fits d m \<longleftrightarrow> tally ROLE_TANK m \<le> unat (requiredTanks d)
     \<and> tally ROLE_HEALER m \<le> unat (requiredHealers d)
     \<and> tally ROLE_DAMAGE m \<le> unat (requiredDamageDealers d)"

definition solves :: "lfg_dungeon \<Rightarrow> roles_map \<Rightarrow> roles_map \<Rightarrow> bool" where
  "solves d m m' \<longleftrightarrow> (\<exists>cs. assignment d m cs \<and> m' = assign m cs)"

lemma role_values_ne:
  "ROLE_TANK \<noteq> ROLE_HEALER" "ROLE_TANK \<noteq> ROLE_DAMAGE" "ROLE_HEALER \<noteq> ROLE_DAMAGE"
  "ROLE_HEALER \<noteq> ROLE_TANK" "ROLE_DAMAGE \<noteq> ROLE_TANK" "ROLE_DAMAGE \<noteq> ROLE_HEALER"
  "ROLE_TANK \<noteq> 0" "ROLE_HEALER \<noteq> 0" "ROLE_DAMAGE \<noteq> 0"
  by (simp_all add: role_values)

lemma tally_sum:
  "tally ROLE_TANK m + tally ROLE_HEALER m + tally ROLE_DAMAGE m \<le> length m"
  "tally ROLE_TANK m + tally ROLE_HEALER m + tally ROLE_DAMAGE m = length m \<longleftrightarrow> settled m"
proof (induction m)
  case Nil
  case 1 show ?case by (simp add: tally_def)
  case 2 show ?case by (simp add: tally_def settled_def)
next
  case (Cons x m)
  case 1 show ?case using Cons by (auto simp: tally_def role_values_ne)
  case 2 show ?case using Cons by (auto simp: tally_def settled_def role_values_ne)
qed

lemma settled_assignment:
  assumes "valid_roles m" "settled m" "fits d m"
  shows "solves d m m"
proof -
  have "list_all2 (\<lambda>x c. plays (snd x) c) m (map role_of m)
    \<and> assign m (map role_of m) = m \<and> (\<forall>k. count_list (map role_of m) k = tally k m)"
    using assms(1,2)
  proof (induction m)
    case Nil
    then show ?case by (simp add: assign_def tally_def)
  next
    case (Cons x m)
    then have x: "snd x < 16" "snd x AND NOT ROLE_LEADER = role_of x" 
      "role_of x \<in> {ROLE_TANK, ROLE_HEALER, ROLE_DAMAGE}"
      by (auto simp: valid_roles_def settled_def role_of_def)
    have "valid_roles m" "settled m" using Cons.prems by (auto simp: valid_roles_def settled_def)
    with Cons.IH role_single [OF x] show ?case by (auto simp: assign_def tally_def prod_eq_iff)
  qed
  then show ?thesis using assms(3) by (auto simp: solves_def assignment_def fits_def intro!: exI [of _ "map role_of m"])
qed

lemma solves_weaken:
  assumes "solves d (before @ (g, r - k) # rest) m" and "r < 16"
    and "k \<in> {ROLE_TANK, ROLE_HEALER, ROLE_DAMAGE}" "(r AND NOT ROLE_LEADER) AND k \<noteq> 0"
  shows "solves d (before @ (g, r) # rest) m"
proof -
  obtain cs where cs: "assignment d (before @ (g, r - k) # rest) cs" "m = assign (before @ (g, r - k) # rest) cs"
    using assms(1) by (auto simp: solves_def)
  then obtain as c bs where split: "cs = as @ c # bs" "length as = length before"
    by (auto simp: assignment_def list_all2_append1 list_all2_Cons1 dest: list_all2_lengthD)
  note rem = role_remove [OF assms(2-4)]
  have "assignment d (before @ (g, r) # rest) cs"
    using cs(1) split(2) rem(1) [of c] by (auto simp: assignment_def split(1) list_all2_append)
  moreover have "assign (before @ (g, r) # rest) cs = m"
    using cs(2) split(2) rem(2) by (simp add: assign_def split(1))
  ultimately show ?thesis by (auto simp: solves_def)
qed

lemma valid_remove:
  assumes "valid_roles (before @ (g, r) # rest)"
    and "k \<in> {ROLE_TANK, ROLE_HEALER, ROLE_DAMAGE}" "(r AND NOT ROLE_LEADER) AND k \<noteq> 0"
  shows "valid_roles (before @ (g, r - k) # rest)"
  using assms role_remove(3) [of r k] by (auto simp: valid_roles_def)

lemma tallies_step:
  assumes t: "tallies before damage healer tank" and len: "length before < 255"
  shows "tallies (before @ [x])
    (if role_of x = ROLE_DAMAGE then damage + 1 else damage)
    (if role_of x = ROLE_HEALER then healer + 1 else healer)
    (if role_of x = ROLE_TANK then tank + 1 else tank)"
proof -
  have inc: "unat (c + 1) = Suc (unat c)" if "unat c < 255" for c :: u8
    using that by (simp add: unat_word_ariths)
  have "unat damage < 255" "unat healer < 255" "unat tank < 255"
    using t len tally_sum(1) [of before] by (auto simp: tallies_def)
  with t inc show ?thesis by (auto simp: tallies_def tally_def)
qed

lemma ucast_eq_unat: "(ucast (c :: u8) :: u32) = n \<longleftrightarrow> unat c = unat n"
proof -
  have "unat c < 2 ^ 8" using unsigned_less [of c] by simp
  then have "unat (ucast c :: u32) = unat c" by (simp add: unsigned_ucast_eq take_bit_nat_eq_self)
  then show ?thesis by (metis word_unat_eq_iff)
qed

abbreviation three_roles :: "u8 set" where
  "three_roles \<equiv> {ROLE_TANK, ROLE_HEALER, ROLE_DAMAGE}"

definition step_damage :: "u8 \<Rightarrow> guid \<times> u8 \<Rightarrow> u8 \<Rightarrow> u8" where
  "step_damage k x c = (if role_of x = k then c + 1 else c)"

lemma role_loop_Cons:
  assumes "role_loop d before ((g, r) # rest) damage healer tank = res"
  obtains (none) "r AND NOT ROLE_LEADER = 0" "res = None"
  | (sub) k m where "k \<in> three_roles" "(r AND NOT ROLE_LEADER) AND k \<noteq> 0"
      "role_loop d [] (before @ (g, r - k) # rest) 0 0 0 = Some m" "res = Some m"
  | (full) k where "k \<in> three_roles" "r AND NOT ROLE_LEADER = k" "res = None"
      "(k = ROLE_DAMAGE \<and> ucast damage = requiredDamageDealers d)
       \<or> (k = ROLE_HEALER \<and> ucast healer = requiredHealers d)
       \<or> (k = ROLE_TANK \<and> ucast tank = requiredTanks d)"
  | (on) "r AND NOT ROLE_LEADER \<noteq> 0"
      "\<And>k. k \<in> three_roles \<Longrightarrow> (r AND NOT ROLE_LEADER) AND k \<noteq> 0 \<Longrightarrow> r AND NOT ROLE_LEADER \<noteq> k
         \<Longrightarrow> role_loop d [] (before @ (g, r - k) # rest) 0 0 0 = None"
      "r AND NOT ROLE_LEADER = ROLE_DAMAGE \<Longrightarrow> ucast damage \<noteq> requiredDamageDealers d"
      "r AND NOT ROLE_LEADER = ROLE_HEALER \<Longrightarrow> ucast healer \<noteq> requiredHealers d"
      "r AND NOT ROLE_LEADER = ROLE_TANK \<Longrightarrow> ucast tank \<noteq> requiredTanks d"
      "res = role_loop d (before @ [(g, r)]) rest
         (step_damage ROLE_DAMAGE (g, r) damage) (step_damage ROLE_HEALER (g, r) healer)
         (step_damage ROLE_TANK (g, r) tank)"
proof -
  let ?role = "r AND NOT ROLE_LEADER"
  define T where "T k = (if ?role AND k \<noteq> 0 \<and> ?role \<noteq> k
    then role_loop d [] (before @ (g, r - k) # rest) 0 0 0 else None)" for k
  have eq: "res = (if ?role = 0 then None else case T ROLE_DAMAGE of Some m \<Rightarrow> Some m | None \<Rightarrow>
      if ?role = ROLE_DAMAGE \<and> ucast damage = requiredDamageDealers d then None
      else case T ROLE_HEALER of Some m \<Rightarrow> Some m | None \<Rightarrow>
      if ?role = ROLE_HEALER \<and> ucast healer = requiredHealers d then None
      else case T ROLE_TANK of Some m \<Rightarrow> Some m | None \<Rightarrow>
      if ?role = ROLE_TANK \<and> ucast tank = requiredTanks d then None
      else role_loop d (before @ [(g, r)]) rest
         (step_damage ROLE_DAMAGE (g, r) damage) (step_damage ROLE_HEALER (g, r) healer)
         (step_damage ROLE_TANK (g, r) tank))"
    unfolding assms [symmetric] T_def
    by (subst role_loop.simps(2)) (simp only: Let_def step_damage_def role_of_def snd_conv)
  have hit: "?role AND k \<noteq> 0 \<and> role_loop d [] (before @ (g, r - k) # rest) 0 0 0 = Some m" if "T k = Some m" for k m
    using that by (auto simp: T_def split: if_splits)
  have miss: "role_loop d [] (before @ (g, r - k) # rest) 0 0 0 = None"
    if "T k = None" "?role AND k \<noteq> 0" "?role \<noteq> k" for k
    using that by (simp add: T_def)
  show thesis
  proof (cases "?role = 0")
    case True
    then show thesis using eq none by simp
  next
    case nz: False
    show thesis
    proof (cases "\<exists>k \<in> three_roles. T k \<noteq> None \<and> res = T k")
      case True
      then obtain k m where "k \<in> three_roles" "T k = Some m" "res = Some m" by auto
      with hit sub show thesis by blast
    next
      case nosub: False
      have d: "T ROLE_DAMAGE = None" using nosub eq nz by (cases "T ROLE_DAMAGE") simp_all
      show thesis
      proof (cases "?role = ROLE_DAMAGE \<and> ucast damage = requiredDamageDealers d")
        case True
        then have "res = None" using eq nz d by simp
        with True full show thesis by blast
      next
        case fd: False
        then have h: "T ROLE_HEALER = None" using nosub eq nz d by (cases "T ROLE_HEALER") auto
        show thesis
        proof (cases "?role = ROLE_HEALER \<and> ucast healer = requiredHealers d")
          case True
          then have "res = None" using eq nz d h by simp
          with True full show thesis by blast
        next
          case fh: False
          then have t: "T ROLE_TANK = None" using nosub eq nz d h fd by (cases "T ROLE_TANK") auto
          show thesis
          proof (cases "?role = ROLE_TANK \<and> ucast tank = requiredTanks d")
            case True
            then have "res = None" using eq nz d h t by simp
            with True full show thesis by blast
          next
            case ft: False
            then have "res = role_loop d (before @ [(g, r)]) rest
               (step_damage ROLE_DAMAGE (g, r) damage) (step_damage ROLE_HEALER (g, r) healer)
               (step_damage ROLE_TANK (g, r) tank)" using eq nz d h t fd fh by auto
            with nz miss d h t fd fh ft show thesis by (intro on) auto
          qed
        qed
      qed
    qed
  qed
qed

lemma role_loop_induct:
  assumes base: "\<And>before damage healer tank. P before [] damage healer tank"
    and step: "\<And>before g r rest damage healer tank.
      (\<And>k. k \<in> three_roles \<Longrightarrow> (r AND NOT ROLE_LEADER) AND k \<noteq> 0 \<Longrightarrow> P [] (before @ (g, r - k) # rest) 0 0 0)
      \<Longrightarrow> (\<And>damage healer tank. P (before @ [(g, r)]) rest damage healer tank)
      \<Longrightarrow> P before ((g, r) # rest) damage healer tank"
  shows "P before rest damage healer tank"
proof (induction "sum_list (map (unat \<circ> snd) (before @ rest))" arbitrary: before rest damage healer tank
    rule: less_induct)
  case less
  have outer: "P b t x y z" if "sum_list (map (unat \<circ> snd) (b @ t)) < sum_list (map (unat \<circ> snd) (before @ rest))" for b t x y z
    using less that by blast
  have "P b t x y z" if "sum_list (map (unat \<circ> snd) (b @ t)) = sum_list (map (unat \<circ> snd) (before @ rest))" for b t x y z
    using that
  proof (induction t arbitrary: b x y z)
    case Nil
    show ?case by (rule base)
  next
    case (Cons e t)
    obtain g r where e: "e = (g, r)" by fastforce
    show ?case unfolding e
    proof (rule step)
      fix k assume k: "k \<in> three_roles" "(r AND NOT ROLE_LEADER) AND k \<noteq> 0"
      have "unat (r - k) < unat r" using k by (intro role_minus) auto
      then show "P [] (b @ (g, r - k) # t) 0 0 0"
        using Cons.prems by (intro outer) (simp add: e comp_def)
    next
      fix x y z show "P (b @ [(g, r)]) t x y z" using Cons by (simp add: e)
    qed
  qed
  then show ?case by simp
qed

lemma role_loop_sound:
  "role_loop d before rest damage healer tank = Some m \<Longrightarrow> valid_roles (before @ rest)
    \<Longrightarrow> tallies before damage healer tank \<Longrightarrow> fits d before \<Longrightarrow> solves d (before @ rest) m"
proof (induction before rest damage healer tank arbitrary: m rule: role_loop_induct)
  case (1 before damage healer tank)
  have len: "unat (of_nat (length before) :: u8) = length before"
    using 1(2) by (simp add: valid_roles_def unat_of_nat)
  from 1 len have "tally ROLE_TANK before + tally ROLE_HEALER before + tally ROLE_DAMAGE before = length before"
    "m = before" by (auto simp: tallies_def split: if_splits)
  with 1 settled_assignment tally_sum(2) show ?case by simp
next
  case (2 before g r rest damage healer tank)
  have r: "r < 16" and len: "length before < 255" using 2(4) by (auto simp: valid_roles_def)
  have start: "tallies [] 0 0 0" "fits d []" by (simp_all add: tallies_def tally_def fits_def)
  from 2(3) show ?case
  proof (cases rule: role_loop_Cons)
    case (sub k m')
    have "solves d ([] @ before @ (g, r - k) # rest) m'"
      using 2(1) [OF sub(1,2,3)] valid_remove [OF 2(4) sub(1,2)] start by simp
    then show ?thesis using solves_weaken [of d before g r k rest m'] r sub by simp
  next
    case on
    have "fits d (before @ [(g, r)])"
      using 2(5,6) on(3-5) by (auto simp: fits_def tally_def tallies_def role_of_def ucast_eq_unat)
    moreover have "tallies (before @ [(g, r)]) (step_damage ROLE_DAMAGE (g, r) damage)
        (step_damage ROLE_HEALER (g, r) healer) (step_damage ROLE_TANK (g, r) tank)"
      using tallies_step [OF 2(5) len, of "(g, r)"] by (simp add: step_damage_def)
    ultimately show ?thesis using 2(2) [OF on(6) [symmetric]] 2(4) by simp
  qed simp_all
qed

lemma count_role_of: "count_list (map role_of m) k = tally k m"
  by (induction m) (auto simp: tally_def)

lemma settled_choice:
  assumes "settled m" "\<forall>x \<in> set m. snd x < 16" "list_all2 (\<lambda>x c. plays (snd x) c) m cs"
  shows "cs = map role_of m"
  using assms
proof (induction m arbitrary: cs)
  case (Cons x m)
  then obtain c cs' where cs: "cs = c # cs'" "plays (snd x) c" "list_all2 (\<lambda>x c. plays (snd x) c) m cs'"
    by (auto simp: list_all2_Cons1)
  have "c = role_of x"
    using role_single(1) [of "snd x" "role_of x" c] Cons.prems cs(2) by (auto simp: settled_def role_of_def)
  with cs Cons show ?case by (auto simp: settled_def)
qed simp

lemma assignment_middle:
  assumes "assignment d (before @ (g, r) # rest) cs" "settled before" "\<forall>x \<in> set before. snd x < 16"
  obtains c bs where "cs = map role_of before @ c # bs" "plays r c"
proof -
  from assms(1) obtain as c bs where cs: "cs = as @ c # bs" "plays r c"
    "list_all2 (\<lambda>x c. plays (snd x) c) before as"
    by (auto simp: assignment_def list_all2_append1 list_all2_Cons1)
  with settled_choice [OF assms(2,3)] that show thesis by auto
qed

lemma assignment_remove:
  assumes "assignment d (before @ (g, r) # rest) cs" "length as = length before" "cs = as @ c # bs" "c \<noteq> k"
    and "r < 16" "k \<in> three_roles" "(r AND NOT ROLE_LEADER) AND k \<noteq> 0"
  shows "assignment d (before @ (g, r - k) # rest) cs"
  using assms role_remove(1) [OF assms(5-7), of c] by (auto simp: assignment_def list_all2_append)

lemma role_loop_complete:
  "role_loop d before rest damage healer tank = None \<Longrightarrow> valid_roles (before @ rest)
    \<Longrightarrow> tallies before damage healer tank \<Longrightarrow> settled before \<Longrightarrow> \<not> assignment d (before @ rest) cs"
proof (induction before rest damage healer tank arbitrary: cs rule: role_loop_induct)
  case (1 before damage healer tank)
  have len: "unat (of_nat (length before) :: u8) = length before"
    using 1(2) by (simp add: valid_roles_def unat_of_nat)
  have "tally ROLE_TANK before + tally ROLE_HEALER before + tally ROLE_DAMAGE before = length before"
    using tally_sum(2) 1(4) by blast
  then have "unat tank + unat healer + unat damage = length before" using 1(3) by (simp add: tallies_def)
  with 1(1) len show ?case by simp
next
  case (2 before g r rest damage healer tank)
  have r: "r < 16" and len: "length before < 255" and small: "\<forall>x \<in> set before. snd x < 16"
    using 2(4) by (auto simp: valid_roles_def)
  show ?case
  proof
    assume a: "assignment d (before @ (g, r) # rest) cs"
    obtain c bs where cs: "cs = map role_of before @ c # bs" "plays r c"
      using assignment_middle [OF a 2(6) small] .
    have count: "count_list cs k = tally k before + count_list (c # bs) k" for k
      by (simp add: cs(1) count_role_of)
    from 2(3) show False
    proof (cases rule: role_loop_Cons)
      case none
      then show False using role_zero [OF r] cs(2) by blast
    next
      case (full k)
      then have "c = k" using role_single(1) [OF r full(2,1)] cs(2) by blast
      then show False using full(4) 2(5) a count [of k]
        by (auto simp: assignment_def tallies_def ucast_eq_unat)
    next
      case on
      show False
      proof (cases "r AND NOT ROLE_LEADER = c")
        case True
        have c3: "c \<in> three_roles" using cs(2) by (simp add: plays_def)
        have "settled (before @ [(g, r)])" using 2(6) True c3 by (simp add: settled_def role_of_def)
        moreover have "tallies (before @ [(g, r)]) (step_damage ROLE_DAMAGE (g, r) damage)
            (step_damage ROLE_HEALER (g, r) healer) (step_damage ROLE_TANK (g, r) tank)"
          using tallies_step [OF 2(5) len, of "(g, r)"] by (simp add: step_damage_def)
        ultimately show False using 2(2) [OF on(6) [symmetric]] 2(4) a by simp
      next
        case False
        from role_multi [OF r cs(2) this] obtain k where k: "k \<in> three_roles" "c \<noteq> k"
          "(r AND NOT ROLE_LEADER) AND k \<noteq> 0" "r AND NOT ROLE_LEADER \<noteq> k" by blast
        have "assignment d (before @ (g, r - k) # rest) cs"
          using assignment_remove [OF a _ cs(1) k(2) r k(1,3)] by simp
        then show False
          using 2(1) [OF k(1,3) on(2) [OF k(1,3,4)]] valid_remove [OF 2(4) k(1,3)]
          by (simp add: tallies_def tally_def settled_def)
      qed
    qed auto
  qed
qed

lemma CheckGroupRoles_Some:
  assumes "valid_roles m" "CheckGroupRoles d m = Some m'"
  obtains cs where "assignment d m cs" "m' = assign m cs"
  using assms role_loop_sound [of d "[]" m 0 0 0 m'] that
  by (auto simp: CheckGroupRoles_def solves_def tallies_def tally_def fits_def split: if_splits)

lemma CheckGroupRoles_None:
  "valid_roles m \<Longrightarrow> m \<noteq> [] \<Longrightarrow> CheckGroupRoles d m = None \<Longrightarrow> \<not> assignment d m cs"
  using role_loop_complete [of d "[]" m 0 0 0]
  by (auto simp: CheckGroupRoles_def tallies_def tally_def settled_def)

lemma assigned_role: "r < 16 \<Longrightarrow> plays r c \<Longrightarrow> ((r AND ROLE_LEADER) OR c) AND NOT ROLE_LEADER = c"
  by (drule role_cases) (auto simp: plays_def role_values)

lemma assign_simps [simp]:
  "assign [] cs = []"
  "assign (x # m) (c # cs) = (fst x, (snd x AND ROLE_LEADER) OR c) # assign m cs"
  by (simp_all add: assign_def)

lemma assign_fst: "assignment d m cs \<Longrightarrow> map fst (assign m cs) = map fst m"
proof -
  assume "assignment d m cs"
  then have "list_all2 (\<lambda>x c. plays (snd x) c) m cs" by (simp add: assignment_def)
  then show ?thesis by (induction rule: list_all2_induct) simp_all
qed

lemma assign_roles:
  assumes "assignment d m cs" "\<forall>x \<in> set m. snd x < 16"
  shows "map (\<lambda>x. snd x AND NOT ROLE_LEADER) (assign m cs) = cs"
proof -
  have "list_all2 (\<lambda>x c. plays (snd x) c) m cs" using assms(1) by (simp add: assignment_def)
  then show ?thesis using assms(2) by (induction rule: list_all2_induct) (auto simp: assigned_role)
qed

lemma assign_origin:
  assumes "assignment d m cs" "\<forall>x \<in> set m. snd x < 16" "(a, r') \<in> set (assign m cs)"
  shows "\<exists>r. (a, r) \<in> set m \<and> plays r (r' AND NOT ROLE_LEADER)"
proof -
  have "list_all2 (\<lambda>x c. plays (snd x) c) m cs" using assms(1) by (simp add: assignment_def)
  then show ?thesis using assms(2,3)
    by (induction rule: list_all2_induct) (auto simp: assigned_role)
qed

text \<open>A party that fills the dungeon exactly fills every role exactly.\<close>

lemma assignment_full:
  assumes "assignment d m cs"
    and "length m = unat (requiredTanks d) + unat (requiredHealers d) + unat (requiredDamageDealers d)"
  shows "count_list cs ROLE_TANK = unat (requiredTanks d)"
    and "count_list cs ROLE_HEALER = unat (requiredHealers d)"
    and "count_list cs ROLE_DAMAGE = unat (requiredDamageDealers d)"
proof -
  have "list_all2 (\<lambda>x c. plays (snd x) c) m cs" using assms(1) by (simp add: assignment_def)
  then have "count_list cs ROLE_TANK + count_list cs ROLE_HEALER + count_list cs ROLE_DAMAGE = length m"
    by (induction rule: list_all2_induct) (auto simp: plays_def role_values_ne)
  with assms show "count_list cs ROLE_TANK = unat (requiredTanks d)"
    and "count_list cs ROLE_HEALER = unat (requiredHealers d)"
    and "count_list cs ROLE_DAMAGE = unat (requiredDamageDealers d)"
    by (auto simp: assignment_def)
qed

text \<open>
  C22: the role check is right. For a party of fewer than 256 members with valid masks
  \<^verbatim>\<open>CheckGroupRoles\<close> succeeds exactly if every member can be given one of the roles it chose
  without exceeding what the dungeon takes of each; and then the map it leaves behind gives every
  member such a role and keeps who leads.
\<close>

theorem CheckGroupRoles_correct:
  assumes "valid_roles m" and "m \<noteq> []"
  shows "case CheckGroupRoles d m of
      None \<Rightarrow> \<not> (\<exists>cs. assignment d m cs)
    | Some m' \<Rightarrow> \<exists>cs. assignment d m cs \<and> m' = assign m cs"
proof (cases "CheckGroupRoles d m")
  case None
  then show ?thesis using CheckGroupRoles_None [OF assms] by auto
next
  case (Some m')
  then obtain cs where "assignment d m cs" "m' = assign m cs" by (rule CheckGroupRoles_Some [OF assms(1)])
  with Some show ?thesis by auto
qed

definition sample_dungeon :: lfg_dungeon where
  "sample_dungeon = \<lparr>requiredTanks = 1, requiredHealers = 1, requiredDamageDealers = 3\<rparr>"

theorem CheckGroupRoles_correct_witness:
  "(\<exists>cs. assignment sample_dungeon [(1, 15), (2, 10), (3, 2)] cs
      \<and> [(1, 5), (2, 8), (3, 2)] = assign [(1, 15), (2, 10), (3, 2)] cs)
   \<and> \<not> (\<exists>cs. assignment sample_dungeon [(1, 2), (2, 3), (3, 8)] cs)"
proof
  have "CheckGroupRoles sample_dungeon [(1, 15), (2, 10), (3, 2)] = Some [(1, 5), (2, 8), (3, 2)]" by code_simp
  with CheckGroupRoles_correct [of "[(1, 15), (2, 10), (3, 2)]" sample_dungeon]
  show "\<exists>cs. assignment sample_dungeon [(1, 15), (2, 10), (3, 2)] cs
      \<and> [(1, 5), (2, 8), (3, 2)] = assign [(1, 15), (2, 10), (3, 2)] cs"
    by (simp add: valid_roles_def)
next
  have "CheckGroupRoles sample_dungeon [(1, 2), (2, 3), (3, 8)] = None" by code_simp
  with CheckGroupRoles_correct [of "[(1, 2), (2, 3), (3, 8)]" sample_dungeon]
  show "\<not> (\<exists>cs. assignment sample_dungeon [(1, 2), (2, 3), (3, 8)] cs)"
    by (simp add: valid_roles_def)
qed

end
