(* ===== verification/Lfg_Queue.thy ===== *)
theory Lfg_Queue
  imports Lfg_Roles "HOL-Library.Sublist"
begin

text \<open>
  The dungeon finder's queue, \<^verbatim>\<open>server/game/DungeonFinding/LFGQueue.{h,cpp}\<close>.  A queue holds
  players and groups by GUID, the cache of compatible combinations under the concatenation of
  their GUIDs, and the average waiting times.  \<open>FindGroups\<close> tries every newcomer against those
  already waiting and hands complete groups to the manager as proposals.

  What the queue asks \<^verbatim>\<open>sLFGMgr\<close> and the clock is the argument \<open>e\<close>; the two random choices
  (\<^verbatim>\<open>SelectRandomContainerElement\<close> and \<^verbatim>\<open>urand(0, 1)\<close>) are arbitrary functions there.  No
  state the manager keeps changes while \<^verbatim>\<open>FindGroups\<close> runs: \<^verbatim>\<open>AddProposal\<close> only stores the
  proposal.  Sets and maps are lists in key order.  Logging and the dump functions are left out.
\<close>

section \<open>Data of the queue\<close>

datatype compatibility = CompatPending | IncompatWrongGroupSize | IncompatTooMuchPlayers
  | IncompatMultipleLfgGroups | IncompatHasIgnores | IncompatNoRoles | IncompatNoDungeons
  | CompatWithLessPlayers | CompatBadStates | CompatMatch

fun compat_num :: "compatibility \<Rightarrow> nat" where
  "compat_num CompatPending = 0"
| "compat_num IncompatWrongGroupSize = 1"
| "compat_num IncompatTooMuchPlayers = 2"
| "compat_num IncompatMultipleLfgGroups = 3"
| "compat_num IncompatHasIgnores = 4"
| "compat_num IncompatNoRoles = 5"
| "compat_num IncompatNoDungeons = 6"
| "compat_num CompatWithLessPlayers = 7"
| "compat_num CompatBadStates = 8"
| "compat_num CompatMatch = 9"

record compat_data =
  compatOf :: compatibility
  compatRoles :: roles_map

record queue_data =
  joinTime :: int
  tanksNeeded :: u8
  healersNeeded :: u8
  dpsNeeded :: u8
  queueDungeons :: "u32 list" \<comment> \<open>a set, in order\<close>
  queueRoles :: roles_map
  bestCompatible :: string

record wait_time =
  waitTime :: i32
  waitNumber :: u32

record proposal_player =
  propRole :: u8
  propAgreed :: bool
  propGroup :: guid

record proposal =
  propDungeon :: u32
  propGroupGuid :: guid
  propLeader :: guid
  propCancel :: int
  propIsNew :: bool
  propQueues :: "guid list"
  propPlayers :: "(guid, proposal_player) omap"

record lfg_queue =
  QueueDataStore :: "(guid, queue_data) omap"
  CompatibleMapStore :: "(string, compat_data) omap"
  waitTimesAvg :: "(u32, wait_time) omap"
  waitTimesTank :: "(u32, wait_time) omap"
  waitTimesHealer :: "(u32, wait_time) omap"
  waitTimesDps :: "(u32, wait_time) omap"
  currentQueue :: "guid list"
  newToQueue :: "guid list"
  addedProposals :: "proposal list" \<comment> \<open>the calls of \<^verbatim>\<open>sLFGMgr->AddProposal\<close>, in order\<close>

definition LFGQueue_init :: lfg_queue where
  "LFGQueue_init = \<lparr>QueueDataStore = [], CompatibleMapStore = [], waitTimesAvg = [], waitTimesTank = [],
     waitTimesHealer = [], waitTimesDps = [], currentQueue = [], newToQueue = [], addedProposals = []\<rparr>"

record lfg_env =
  le_dungeon :: "u32 \<rightharpoonup> lfg_dungeon"
  le_queued :: "guid \<Rightarrow> bool" \<comment> \<open>\<^verbatim>\<open>GetState(guid) == LFG_STATE_QUEUED\<close>\<close>
  le_is_group :: "guid \<Rightarrow> bool"
  le_lfg_group :: "guid \<Rightarrow> bool"
  le_old_dungeon :: "guid \<Rightarrow> bool" \<comment> \<open>\<^verbatim>\<open>GetOldState(guid) == LFG_STATE_DUNGEON\<close>\<close>
  le_connected :: "guid \<Rightarrow> bool"
  le_ignores :: "guid \<Rightarrow> guid \<Rightarrow> bool"
  le_draw :: "u32 list \<Rightarrow> nat"
  le_coin :: "guid \<Rightarrow> bool"
  le_now :: int

definition AllQueued :: "lfg_env \<Rightarrow> guid list \<Rightarrow> bool" where
  "AllQueued e check = (check \<noteq> [] \<and> list_all (le_queued e) check)"

definition IsLfgGroup :: "lfg_env \<Rightarrow> guid \<Rightarrow> bool" where
  "IsLfgGroup e g = (g \<noteq> 0 \<and> le_is_group e g \<and> le_lfg_group e g)"

definition HasIgnore :: "lfg_env \<Rightarrow> guid \<Rightarrow> guid \<Rightarrow> bool" where
  "HasIgnore e a b = (le_connected e a \<and> le_connected e b \<and> (le_ignores e a b \<or> le_ignores e b a))"

section \<open>Keys of the compatibility cache\<close>

definition guid_string :: "guid \<Rightarrow> string" where
  "guid_string g = raw_string (unat g)"

fun join_bar :: "string list \<Rightarrow> string" where
  "join_bar [] = []"
| "join_bar [s] = s"
| "join_bar (s # t # ss) = s @ ''|'' @ join_bar (t # ss)"

definition ConcatenateGuids :: "guid list \<Rightarrow> string" where
  "ConcatenateGuids check =
     (if check = [] then [] else join_bar (map guid_string (sort (remdups check))))"

fun contains :: "string \<Rightarrow> string \<Rightarrow> bool" where
  "contains [] t = (t = [])"
| "contains (c # s) t = (take (length t) (c # s) = t \<or> contains s t)"

definition members :: "string \<Rightarrow> u8" where
  "members key = of_nat (length (filter (\<lambda>c. c = CHR ''|'') key)) + 1"

section \<open>Queue entries\<close>

definition InitializeGroupSetup :: "lfg_env \<Rightarrow> queue_data \<Rightarrow> queue_data" where
  "InitializeGroupSetup e q =
     (let q0 = q\<lparr>tanksNeeded := 0, healersNeeded := 0, dpsNeeded := 0\<rparr> in
      case queueDungeons q of [] \<Rightarrow> q0
      | dg # _ \<Rightarrow>
        (case le_dungeon e dg of None \<Rightarrow> q0
         | Some d \<Rightarrow> q0\<lparr>tanksNeeded := ucast (requiredTanks d), healersNeeded := ucast (requiredHealers d),
             dpsNeeded := ucast (requiredDamageDealers d)\<rparr>))"

definition new_queue_data :: "lfg_env \<Rightarrow> int \<Rightarrow> u32 list \<Rightarrow> roles_map \<Rightarrow> queue_data" where
  "new_queue_data e t dungeons roles = InitializeGroupSetup e
     \<lparr>joinTime = t, tanksNeeded = 0, healersNeeded = 0, dpsNeeded = 0, queueDungeons = dungeons,
      queueRoles = roles, bestCompatible = []\<rparr>"

text \<open>\<^verbatim>\<open>QueueDataStore[guid]\<close>: a missing entry is created with the default constructor.\<close>

definition data_at :: "lfg_env \<Rightarrow> guid \<Rightarrow> lfg_queue \<Rightarrow> lfg_queue \<times> queue_data" where
  "data_at e g s = (case om_get (QueueDataStore s) g of
       Some q \<Rightarrow> (s, q)
     | None \<Rightarrow> (let q = new_queue_data e (le_now e) [] [] in
         (s\<lparr>QueueDataStore := om_put g q (QueueDataStore s)\<rparr>, q)))"

definition UpdateBestCompatible :: "lfg_env \<Rightarrow> string \<Rightarrow> roles_map \<Rightarrow> queue_data \<Rightarrow> queue_data" where
  "UpdateBestCompatible e key roles q =
     (let storedSize = (if bestCompatible q = [] then 0 else members (bestCompatible q)) in
      if members key \<le> storedSize then q
      else
        foldl (\<lambda>q (g, role).
            if role AND ROLE_TANK \<noteq> 0 then q\<lparr>tanksNeeded := tanksNeeded q - 1\<rparr>
            else if role AND ROLE_HEALER \<noteq> 0 then q\<lparr>healersNeeded := healersNeeded q - 1\<rparr>
            else q\<lparr>dpsNeeded := dpsNeeded q - 1\<rparr>)
          (InitializeGroupSetup e (q\<lparr>bestCompatible := key\<rparr>)) roles)"

definition UpdateBestCompatibleInQueue :: "lfg_env \<Rightarrow> guid \<Rightarrow> string \<Rightarrow> roles_map \<Rightarrow> lfg_queue \<Rightarrow> lfg_queue" where
  "UpdateBestCompatibleInQueue e g key roles s = (case om_get (QueueDataStore s) g of None \<Rightarrow> s
     | Some q \<Rightarrow> s\<lparr>QueueDataStore := om_put g (UpdateBestCompatible e key roles q) (QueueDataStore s)\<rparr>)"

text \<open>\<^verbatim>\<open>FindBestCompatibleInQueue\<close> on the entry \<open>q\<close> of \<open>g\<close>.\<close>

definition FindBestCompatible :: "lfg_env \<Rightarrow> (string, compat_data) omap \<Rightarrow> guid \<Rightarrow> queue_data \<Rightarrow> queue_data" where
  "FindBestCompatible e cache g q = foldl (\<lambda>q (key, c).
       if compatOf c = CompatWithLessPlayers \<and> contains key (guid_string g)
       then UpdateBestCompatible e key (compatRoles c) q else q) q cache"

section \<open>Joining and leaving\<close>

definition AddToQueue :: "guid \<Rightarrow> bool \<Rightarrow> lfg_queue \<Rightarrow> lfg_queue" where
  "AddToQueue g reAdd s =
     (if om_get (QueueDataStore s) g = None then s
      else if reAdd then s\<lparr>currentQueue := g # currentQueue s\<rparr>
      else s\<lparr>newToQueue := newToQueue s @ [g]\<rparr>)"

definition RemoveFromNewQueue :: "guid \<Rightarrow> lfg_queue \<Rightarrow> lfg_queue" where
  "RemoveFromNewQueue g s = s\<lparr>newToQueue := removeAll g (newToQueue s)\<rparr>"

definition RemoveFromCurrentQueue :: "guid \<Rightarrow> lfg_queue \<Rightarrow> lfg_queue" where
  "RemoveFromCurrentQueue g s = s\<lparr>currentQueue := removeAll g (currentQueue s)\<rparr>"

definition AddToCurrentQueue :: "guid \<Rightarrow> lfg_queue \<Rightarrow> lfg_queue" where
  "AddToCurrentQueue g s = s\<lparr>currentQueue := currentQueue s @ [g]\<rparr>"

definition RemoveFromCompatibles :: "guid \<Rightarrow> lfg_queue \<Rightarrow> lfg_queue" where
  "RemoveFromCompatibles g s =
     s\<lparr>CompatibleMapStore := filter (\<lambda>(key, c). \<not> contains key (guid_string g)) (CompatibleMapStore s)\<rparr>"

definition RemoveFromQueue :: "lfg_env \<Rightarrow> guid \<Rightarrow> lfg_queue \<Rightarrow> lfg_queue" where
  "RemoveFromQueue e g s =
     (let s1 = RemoveFromCompatibles g (RemoveFromCurrentQueue g (RemoveFromNewQueue g s));
          data = map (\<lambda>(h, q). (h,
              if h \<noteq> g \<and> contains (bestCompatible q) (guid_string g)
              then FindBestCompatible e (CompatibleMapStore s1) h (q\<lparr>bestCompatible := []\<rparr>)
              else q)) (QueueDataStore s1)
      in s1\<lparr>QueueDataStore := om_erase g data\<rparr>)"

definition AddQueueData :: "lfg_env \<Rightarrow> guid \<Rightarrow> int \<Rightarrow> u32 list \<Rightarrow> roles_map \<Rightarrow> lfg_queue \<Rightarrow> lfg_queue" where
  "AddQueueData e g t dungeons roles s = AddToQueue g False
     (s\<lparr>QueueDataStore := om_put g (new_queue_data e t dungeons roles) (QueueDataStore s)\<rparr>)"

definition RemoveQueueData :: "guid \<Rightarrow> lfg_queue \<Rightarrow> lfg_queue" where
  "RemoveQueueData g s = s\<lparr>QueueDataStore := om_erase g (QueueDataStore s)\<rparr>"

definition GetJoinTime :: "guid \<Rightarrow> lfg_queue \<Rightarrow> int" where
  "GetJoinTime g s = (case om_get (QueueDataStore s) g of Some q \<Rightarrow> joinTime q | None \<Rightarrow> 0)"

section \<open>Waiting times\<close>

definition default_wait :: wait_time where
  "default_wait = \<lparr>waitTime = - 1, waitNumber = 0\<rparr>"

definition wait_at :: "(u32, wait_time) omap \<Rightarrow> u32 \<Rightarrow> wait_time" where
  "wait_at m dg = (case om_get m dg of None \<Rightarrow> default_wait | Some w \<Rightarrow> w)"

text \<open>The product and the quotient are unsigned, since \<^verbatim>\<open>old_number\<close> is.\<close>

definition wait_update :: "i32 \<Rightarrow> u32 \<Rightarrow> (u32, wait_time) omap \<Rightarrow> (u32, wait_time) omap" where
  "wait_update t dg m = (let wt = wait_at m dg; old_number = waitNumber wt; n = old_number + 1 in
     om_put dg \<lparr>waitTime = (waitTime wt * old_number + t) div n, waitNumber = n\<rparr> m)"

definition UpdateWaitTimeAvg :: "i32 \<Rightarrow> u32 \<Rightarrow> lfg_queue \<Rightarrow> lfg_queue" where
  "UpdateWaitTimeAvg t dg s = s\<lparr>waitTimesAvg := wait_update t dg (waitTimesAvg s)\<rparr>"

definition UpdateWaitTimeTank :: "i32 \<Rightarrow> u32 \<Rightarrow> lfg_queue \<Rightarrow> lfg_queue" where
  "UpdateWaitTimeTank t dg s = s\<lparr>waitTimesTank := wait_update t dg (waitTimesTank s)\<rparr>"

definition UpdateWaitTimeHealer :: "i32 \<Rightarrow> u32 \<Rightarrow> lfg_queue \<Rightarrow> lfg_queue" where
  "UpdateWaitTimeHealer t dg s = s\<lparr>waitTimesHealer := wait_update t dg (waitTimesHealer s)\<rparr>"

definition UpdateWaitTimeDps :: "i32 \<Rightarrow> u32 \<Rightarrow> lfg_queue \<Rightarrow> lfg_queue" where
  "UpdateWaitTimeDps t dg s = s\<lparr>waitTimesDps := wait_update t dg (waitTimesDps s)\<rparr>"

section \<open>The compatibility check\<close>

definition SetCompatibilityData :: "string \<Rightarrow> compat_data \<Rightarrow> lfg_queue \<Rightarrow> lfg_queue" where
  "SetCompatibilityData key c s = s\<lparr>CompatibleMapStore := om_put key c (CompatibleMapStore s)\<rparr>"

definition SetCompatibles :: "string \<Rightarrow> compatibility \<Rightarrow> lfg_queue \<Rightarrow> lfg_queue" where
  "SetCompatibles key c s =
     (let roles = (case om_get (CompatibleMapStore s) key of None \<Rightarrow> [] | Some d \<Rightarrow> compatRoles d)
      in SetCompatibilityData key \<lparr>compatOf = c, compatRoles = roles\<rparr> s)"

definition GetCompatibles :: "string \<Rightarrow> lfg_queue \<Rightarrow> compatibility" where
  "GetCompatibles key s = (case om_get (CompatibleMapStore s) key of
     None \<Rightarrow> CompatPending | Some d \<Rightarrow> compatOf d)"

fun meet_dungeons :: "lfg_env \<Rightarrow> u32 list \<Rightarrow> guid list \<Rightarrow> lfg_queue \<Rightarrow> lfg_queue \<times> u32 list" where
  "meet_dungeons e ds [] s = (s, ds)"
| "meet_dungeons e ds (g # gs) s =
     (let (s1, q) = data_at e g s
      in meet_dungeons e (filter (\<lambda>x. x \<in> set (queueDungeons q)) ds) gs s1)"

definition common_dungeons :: "lfg_env \<Rightarrow> guid list \<Rightarrow> lfg_queue \<Rightarrow> lfg_queue \<times> u32 list" where
  "common_dungeons e check s =
     (let (s1, q) = data_at e (hd check) s in meet_dungeons e (queueDungeons q) (tl check) s1)"

function draw_dungeon :: "lfg_env \<Rightarrow> u32 list \<Rightarrow> (u32 \<times> lfg_dungeon) option" where
  "draw_dungeon e ds =
     (if ds = [] then None
      else let dg = ds ! (le_draw e ds mod length ds) in
        case le_dungeon e dg of None \<Rightarrow> draw_dungeon e (removeAll dg ds) | Some d \<Rightarrow> Some (dg, d))"
  by auto
termination
  by (relation "measure (\<lambda>(e, ds). length ds)") (auto intro!: length_removeAll_less)

declare draw_dungeon.simps [simp del]

fun count_loop :: "lfg_env \<Rightarrow> lfg_dungeon \<Rightarrow> guid list \<Rightarrow> u8 \<times> u8 \<times> guid \<times> (guid, guid) omap \<Rightarrow> lfg_queue
    \<Rightarrow> guid + u8 \<times> u8 \<times> guid \<times> (guid, guid) omap" where
  "count_loop e d [] acc s = Inr acc"
| "count_loop e d (g # gs) (numPlayers, numLfgGroups, grp, groups) s =
     (if \<not> (numLfgGroups < 1 \<and> ucast numPlayers \<le> GetMaxGroupSize d)
      then Inr (numPlayers, numLfgGroups, grp, groups)
      else case om_get (QueueDataStore s) g of None \<Rightarrow> Inl g
      | Some q \<Rightarrow>
        let groups' = foldl (\<lambda>m (p, r). om_put p (if le_is_group e g then g else 0) m) groups (queueRoles q);
            numPlayers' = numPlayers + of_nat (length (queueRoles q))
        in if IsLfgGroup e g
           then count_loop e d gs (numPlayers', numLfgGroups + 1, if numLfgGroups = 0 then g else grp, groups') s
           else count_loop e d gs (numPlayers', numLfgGroups, grp, groups') s)"

definition add_role :: "lfg_env \<Rightarrow> roles_map \<Rightarrow> guid \<times> u8 \<Rightarrow> roles_map" where
  "add_role e m x = (case x of (p, r) \<Rightarrow>
     if list_ex (\<lambda>(p', r'). p' \<noteq> p \<and> HasIgnore e p p') m then m else om_put p r m)"

fun collect_roles :: "lfg_env \<Rightarrow> guid list \<Rightarrow> roles_map \<Rightarrow> lfg_queue \<Rightarrow> lfg_queue \<times> roles_map" where
  "collect_roles e [] m s = (s, m)"
| "collect_roles e (g # gs) m s =
     (let (s1, q) = data_at e g s in collect_roles e gs (foldl (add_role e) m (queueRoles q)) s1)"

text \<open>The choice of the leader: \<^verbatim>\<open>leader\<close> and \<^verbatim>\<open>proposal.leader\<close> through the loop.\<close>

fun choose_leader :: "lfg_env \<Rightarrow> roles_map \<Rightarrow> bool \<Rightarrow> guid \<Rightarrow> guid" where
  "choose_leader e [] leader lg = lg"
| "choose_leader e ((p, r) # m) leader lg =
     (if r AND ROLE_LEADER \<noteq> 0
      then choose_leader e m True (if \<not> leader \<or> lg = 0 \<or> le_coin e p then p else lg)
      else choose_leader e m leader (if \<not> leader \<and> (lg = 0 \<or> le_coin e p) then p else lg))"

definition LFG_TIME_PROPOSAL :: int where "LFG_TIME_PROPOSAL = 45"

definition make_proposal :: "lfg_env \<Rightarrow> guid list \<Rightarrow> u32 \<Rightarrow> guid \<Rightarrow> bool \<Rightarrow> (guid, guid) omap \<Rightarrow> roles_map \<Rightarrow> proposal"
where
  "make_proposal e check dg grp isNew groups roles =
     \<lparr>propDungeon = dg, propGroupGuid = grp, propLeader = choose_leader e roles False 0,
      propCancel = le_now e + LFG_TIME_PROPOSAL, propIsNew = isNew, propQueues = check,
      propPlayers = map (\<lambda>(p, r). (p,
         let g = (case om_get groups p of Some g \<Rightarrow> g | None \<Rightarrow> 0)
         in \<lparr>propRole = r, propAgreed = (\<not> isNew \<and> g \<noteq> 0 \<and> g = grp), propGroup = g\<rparr>)) roles\<rparr>"

definition leave_queues :: "guid list \<Rightarrow> lfg_queue \<Rightarrow> lfg_queue" where
  "leave_queues gs s = foldl (\<lambda>s g. RemoveFromCurrentQueue g (RemoveFromNewQueue g s)) s gs"

text \<open>From \<open>// Enough players?\<close> to the end.\<close>

definition finish_match :: "lfg_env \<Rightarrow> guid list \<Rightarrow> u32 \<Rightarrow> lfg_dungeon \<Rightarrow> u8 \<times> u8 \<times> guid \<times> (guid, guid) omap
    \<Rightarrow> roles_map \<Rightarrow> lfg_queue \<Rightarrow> lfg_queue \<times> compatibility" where
  "finish_match e check dg d cnt roles s =
     (case cnt of (numPlayers, numLfgGroups, grp, groups) \<Rightarrow>
      let key = ConcatenateGuids check in
      if ucast numPlayers \<noteq> GetMaxGroupSize d then
        (SetCompatibilityData key \<lparr>compatOf = CompatWithLessPlayers, compatRoles = roles\<rparr>
           (foldl (\<lambda>s g. UpdateBestCompatibleInQueue e g key roles s) s check), CompatWithLessPlayers)
      else if \<not> AllQueued e check then (SetCompatibles key CompatBadStates s, CompatBadStates)
      else
        let isNew = (numLfgGroups \<noteq> 1 \<or> \<not> le_old_dungeon e (hd check));
            p = make_proposal e check dg grp isNew groups roles;
            s1 = leave_queues check s
        in (SetCompatibles key CompatMatch (s1\<lparr>addedProposals := addedProposals s1 @ [p]\<rparr>), CompatMatch))"

text \<open>From the counting loop to the role check.\<close>

definition check_players :: "lfg_env \<Rightarrow> guid list \<Rightarrow> u32 \<Rightarrow> lfg_dungeon \<Rightarrow> lfg_queue \<Rightarrow> lfg_queue \<times> compatibility" where
  "check_players e check dg d s =
     (let key = ConcatenateGuids check in
      case count_loop e d check (0, 0, 0, []) s of
        Inl g \<Rightarrow> (RemoveFromQueue e g s, CompatPending)
      | Inr (numPlayers, numLfgGroups, grp, groups) \<Rightarrow>
        if 1 < numLfgGroups then (SetCompatibles key IncompatMultipleLfgGroups s, IncompatMultipleLfgGroups)
        else if GetMaxGroupSize d < ucast numPlayers then (SetCompatibles key IncompatTooMuchPlayers s, IncompatTooMuchPlayers)
        else if 1 < length check then
          (case collect_roles e check [] s of (s1, roles) \<Rightarrow>
             if numPlayers - of_nat (length roles) \<noteq> 0
             then (SetCompatibles key IncompatHasIgnores s1, IncompatHasIgnores)
             else case CheckGroupRoles d roles of
                 None \<Rightarrow> (SetCompatibles key IncompatNoRoles s1, IncompatNoRoles)
               | Some roles' \<Rightarrow> finish_match e check dg d (numPlayers, numLfgGroups, grp, groups) roles' s1)
        else
          (case data_at e (hd check) s of (s1, q) \<Rightarrow>
             let roles' = (case CheckGroupRoles d (queueRoles q) of None \<Rightarrow> queueRoles q | Some m \<Rightarrow> m)
             in finish_match e check dg d (numPlayers, numLfgGroups, grp, groups) roles' s1))"

definition check_self :: "lfg_env \<Rightarrow> guid list \<Rightarrow> lfg_queue \<Rightarrow> lfg_queue \<times> compatibility" where
  "check_self e check s =
     (case common_dungeons e check s of (s1, ds) \<Rightarrow>
        case draw_dungeon e ds of
          None \<Rightarrow> (SetCompatibles (ConcatenateGuids check) IncompatNoDungeons s1, IncompatNoDungeons)
        | Some (dg, d) \<Rightarrow>
          if unat (GetMaxGroupSize d) < length check then (s1, IncompatWrongGroupSize)
          else check_players e check dg d s1)"

fun CheckCompatibility :: "lfg_env \<Rightarrow> guid list \<Rightarrow> lfg_queue \<Rightarrow> lfg_queue \<times> compatibility" where
  "CheckCompatibility e [] s = (s, IncompatWrongGroupSize)"
| "CheckCompatibility e (g # rest) s =
     (if 2 < length (g # rest) then
        (case CheckCompatibility e rest s of (s1, c) \<Rightarrow>
           if compat_num c < compat_num CompatWithLessPlayers
           then (SetCompatibles (ConcatenateGuids (g # rest)) c s1, c)
           else check_self e (g # rest) s1)
      else check_self e (g # rest) s)"

section \<open>Searching for a group\<close>

text \<open>
  \<^verbatim>\<open>FindNewGroups\<close> takes both lists by reference: \<open>all\<close> is shared by the nested calls, and
  whatever a nested call takes out of it stays out.  The test \<open>length rest' \<le> length rest\<close> in
  the loop is always true (lemma \<open>FindNewGroups_shrinks\<close>); it is there for termination.
\<close>

function FindNewGroups :: "lfg_env \<Rightarrow> guid list \<Rightarrow> guid list \<Rightarrow> lfg_queue \<Rightarrow> lfg_queue \<times> guid list \<times> compatibility"
  and match_loop :: "lfg_env \<Rightarrow> guid list \<Rightarrow> compatibility \<Rightarrow> guid list \<Rightarrow> lfg_queue \<Rightarrow> lfg_queue \<times> guid list \<times> compatibility"
where
  "FindNewGroups e check all s =
     (let key = ConcatenateGuids check; c0 = GetCompatibles key s in
      case (if c0 = CompatPending then CheckCompatibility e check s else (s, c0)) of (s1, c) \<Rightarrow>
      if c = CompatBadStates \<and> AllQueued e check then (SetCompatibles key CompatMatch s1, all, CompatMatch)
      else if c \<noteq> CompatWithLessPlayers then (s1, all, c)
      else match_loop e check c all s1)"
| "match_loop e check c [] s = (s, [], c)"
| "match_loop e check c (x # rest) s =
     (case FindNewGroups e (check @ [x]) rest s of (s1, rest', sub) \<Rightarrow>
      if sub = CompatMatch then (s1, rest', CompatMatch)
      else if length rest' \<le> length rest then match_loop e check c rest' s1
      else (s1, rest', c))"
  by pat_completeness auto
termination
  by (relation "measure (\<lambda>x. case x of Inl (e, check, all, s) \<Rightarrow> 2 * length all + 1
      | Inr (e, check, c, all, s) \<Rightarrow> 2 * length all)") auto

declare FindNewGroups.simps [simp del]

lemma FindNewGroups_shrinks:
  "length (fst (snd (FindNewGroups e check all s))) \<le> length all"
  "length (fst (snd (match_loop e check c all s))) \<le> length all"
proof (induction e check all s and e check c all s rule: FindNewGroups_match_loop.induct)
  case (1 e check all s)
  then show ?case unfolding FindNewGroups.simps [of e check all s]
    by (simp add: Let_def split: prod.split)
next
  case (2 e check c s)
  then show ?case by simp
next
  case (3 e check c x rest s)
  obtain s1 rest' sub where f: "FindNewGroups e (check @ [x]) rest s = (s1, rest', sub)"
    by (metis surj_pair)
  show ?case using 3(1) 3(2) [OF f [symmetric] refl] by (auto simp: f)
qed

lemma match_loop_Cons:
  "match_loop e check c (x # rest) s =
     (case FindNewGroups e (check @ [x]) rest s of (s1, rest', sub) \<Rightarrow>
      if sub = CompatMatch then (s1, rest', CompatMatch) else match_loop e check c rest' s1)"
  using FindNewGroups_shrinks(1) [of e "check @ [x]" rest s] by (auto split: prod.splits)

subsection \<open>The loop over the newcomers\<close>

lemma data_at_newToQueue [simp]: "newToQueue (fst (data_at e g s)) = newToQueue s"
  by (auto simp: data_at_def Let_def split: option.split)

lemma meet_dungeons_newToQueue [simp]: "newToQueue (fst (meet_dungeons e ds gs s)) = newToQueue s"
  by (induction e ds gs s rule: meet_dungeons.induct) (simp_all add: split_beta)

lemma collect_roles_newToQueue [simp]: "newToQueue (fst (collect_roles e gs m s)) = newToQueue s"
  by (induction e gs m s rule: collect_roles.induct) (simp_all add: split_beta)

lemma Set_newToQueue [simp]: "newToQueue (SetCompatibilityData key d s) = newToQueue s"
  "newToQueue (SetCompatibles key c s) = newToQueue s"
  by (simp_all add: SetCompatibles_def SetCompatibilityData_def Let_def)

lemma Best_newToQueue [simp]: "newToQueue (UpdateBestCompatibleInQueue e g key roles s) = newToQueue s"
  by (simp add: UpdateBestCompatibleInQueue_def split: option.split)

lemma fold_Best_newToQueue [simp]:
  "newToQueue (foldl (\<lambda>s g. UpdateBestCompatibleInQueue e g key roles s) s gs) = newToQueue s"
  by (induction gs arbitrary: s) simp_all

lemma leave_queues_lists:
  "newToQueue (leave_queues gs s) = filter (\<lambda>g. g \<notin> set gs) (newToQueue s)"
  "currentQueue (leave_queues gs s) = filter (\<lambda>g. g \<notin> set gs) (currentQueue s)"
  unfolding leave_queues_def
  by (induction gs arbitrary: s)
    (auto simp: RemoveFromCurrentQueue_def RemoveFromNewQueue_def removeAll_filter_not_eq
      intro: filter_cong)

lemma Remove_newToQueue: "newToQueue (RemoveFromQueue e g s) = removeAll g (newToQueue s)"
  by (simp add: RemoveFromQueue_def Let_def RemoveFromCompatibles_def RemoveFromCurrentQueue_def
      RemoveFromNewQueue_def)

lemma finish_match_new:
  "length (newToQueue (fst (finish_match e check dg d cnt roles s))) \<le> length (newToQueue s)"
  by (simp add: finish_match_def Let_def leave_queues_lists split: prod.split)

lemma check_players_new:
  "length (newToQueue (fst (check_players e check dg d s))) \<le> length (newToQueue s)"
proof -
  have f: "length (newToQueue (fst (finish_match e check dg d cnt roles (fst (collect_roles e check [] s)))))
      \<le> length (newToQueue s)"
    "length (newToQueue (fst (finish_match e check dg d cnt roles (fst (data_at e (hd check) s)))))
      \<le> length (newToQueue s)" for cnt roles
    using finish_match_new [of e check dg d cnt roles "fst (collect_roles e check [] s)"]
      finish_match_new [of e check dg d cnt roles "fst (data_at e (hd check) s)"] by simp_all
  show ?thesis unfolding check_players_def Let_def
    using f by (auto simp: Remove_newToQueue split_beta split: sum.split option.split)
qed

lemma check_self_new: "length (newToQueue (fst (check_self e check s))) \<le> length (newToQueue s)"
proof -
  have c: "newToQueue (fst (common_dungeons e check s)) = newToQueue s"
    by (simp add: common_dungeons_def split_beta)
  show ?thesis
    using check_players_new [of e check _ _ "fst (common_dungeons e check s)"] c
    by (auto simp: check_self_def split_beta split: option.split)
qed

lemma CheckCompatibility_new:
  "length (newToQueue (fst (CheckCompatibility e check s))) \<le> length (newToQueue s)"
proof (induction e check s rule: CheckCompatibility.induct)
  case (1 e s)
  then show ?case by simp
next
  case (2 e g rest s)
  show ?case using 2 check_self_new [of e "g # rest" s]
      check_self_new [of e "g # rest" "fst (CheckCompatibility e rest s)"]
    by (auto simp: split_beta)
qed

lemma FindNewGroups_new:
  "length (newToQueue (fst (FindNewGroups e check all s))) \<le> length (newToQueue s)"
  "length (newToQueue (fst (match_loop e check c all s))) \<le> length (newToQueue s)"
proof (induction e check all s and e check c all s rule: FindNewGroups_match_loop.induct)
  case (1 e check all s)
  let ?r = "if GetCompatibles (ConcatenateGuids check) s = CompatPending then CheckCompatibility e check s
    else (s, GetCompatibles (ConcatenateGuids check) s)"
  obtain s1 c where r: "?r = (s1, c)" by fastforce
  have le: "length (newToQueue s1) \<le> length (newToQueue s)"
    using r CheckCompatibility_new [of e check s] by (auto split: if_splits)
  have "length (newToQueue (fst (match_loop e check c all s1))) \<le> length (newToQueue s1)"
    if "\<not> (c = CompatBadStates \<and> AllQueued e check)" "c = CompatWithLessPlayers"
    using 1 [OF refl refl r [symmetric]] that by simp
  then show ?case unfolding FindNewGroups.simps [of e check all s] Let_def r
    using le by auto
next
  case (2 e check c s)
  then show ?case by simp
next
  case (3 e check c x rest s)
  obtain s1 rest' sub where f: "FindNewGroups e (check @ [x]) rest s = (s1, rest', sub)"
    by (metis surj_pair)
  show ?case using 3(1) 3(2) [OF f [symmetric] refl] by (auto simp: f)
qed

lemma RemoveFromNewQueue_less:
  "newToQueue s \<noteq> [] \<Longrightarrow> length (newToQueue (RemoveFromNewQueue (hd (newToQueue s)) s)) < length (newToQueue s)"
  by (simp add: RemoveFromNewQueue_def length_removeAll_less)

function find_groups_loop :: "lfg_env \<Rightarrow> lfg_queue \<Rightarrow> u8 \<Rightarrow> lfg_queue \<times> u8" where
  "find_groups_loop e s proposals =
     (if newToQueue s = [] then (s, proposals)
      else let frontguid = hd (newToQueue s); s1 = RemoveFromNewQueue frontguid s in
        (let (s2, all, compatibles) = FindNewGroups e [frontguid] (currentQueue s1) s1 in
         if compatibles = CompatMatch then find_groups_loop e s2 (proposals + 1)
         else find_groups_loop e (AddToCurrentQueue frontguid s2) proposals))"
  by auto

termination
proof (relation "measure (\<lambda>(e, s, proposals). length (newToQueue s))", goal_cases)
  case 1
  then show ?case by simp
next
  case (2 e s proposals g s1 r s2 q all c)
  then have "length (newToQueue s2) \<le> length (newToQueue s1)"
    using FindNewGroups_new(1) [of e "[g]" "currentQueue s1" s1] by (metis fst_conv)
  with 2 RemoveFromNewQueue_less [of s] show ?case by simp
next
  case (3 e s proposals g s1 r s2 q all c)
  then have "length (newToQueue s2) \<le> length (newToQueue s1)"
    using FindNewGroups_new(1) [of e "[g]" "currentQueue s1" s1] by (metis fst_conv)
  with 3 RemoveFromNewQueue_less [of s] show ?case by (simp add: AddToCurrentQueue_def)
qed

definition FindGroups :: "lfg_env \<Rightarrow> lfg_queue \<Rightarrow> lfg_queue \<times> u8" where
  "FindGroups e s = find_groups_loop e s 0"

section \<open>Status updates\<close>

record role_count =
  currentDps :: u32
  currentHealers :: u32
  currentTanks :: u32

record queue_status =
  stQueueId :: u8
  stDungeon :: u32
  stWait :: i32
  stAvg :: i32
  stTank :: i32
  stHealer :: i32
  stDps :: i32
  stQueuedTime :: u32
  stTanks :: u8
  stHealers :: u8
  stDpsNeeded :: u8

definition touch_wait :: "u32 \<Rightarrow> (u32, wait_time) omap \<Rightarrow> (u32, wait_time) omap" where
  "touch_wait dg m = (if om_get m dg = None then om_put dg default_wait m else m)"

definition party_role :: "roles_map \<Rightarrow> u8" where
  "party_role roles = foldl (\<lambda>acc (p, r). acc OR r) 0 roles AND NOT ROLE_LEADER"

definition count_role :: "u8 \<Rightarrow> role_count \<Rightarrow> role_count" where
  "count_role role c =
     (let c1 = (if role AND ROLE_TANK \<noteq> 0 then c\<lparr>currentTanks := currentTanks c + 1\<rparr> else c);
          c2 = (if role AND ROLE_HEALER \<noteq> 0 then c1\<lparr>currentHealers := currentHealers c1 + 1\<rparr> else c1)
      in if role AND ROLE_DAMAGE \<noteq> 0 then c2\<lparr>currentDps := currentDps c2 + 1\<rparr> else c2)"

definition role_wait :: "u8 \<Rightarrow> i32 \<Rightarrow> i32 \<Rightarrow> i32 \<Rightarrow> i32 \<Rightarrow> i32" where
  "role_wait role wtTank wtHealer wtDps wtAvg =
     (if role = 0 then - 1 else if role = ROLE_TANK then wtTank else if role = ROLE_HEALER then wtHealer
      else if role = ROLE_DAMAGE then wtDps else wtAvg)"

text \<open>
  One entry of the loop of \<^verbatim>\<open>UpdateQueueTimers\<close>; \<open>sent\<close> are the calls of
  \<^verbatim>\<open>SendLfgQueueStatus\<close>.  \<^verbatim>\<open>*dungeons.begin()\<close> of an empty set is undefined in the code.
\<close>

definition timers_entry :: "lfg_env \<Rightarrow> u8 \<Rightarrow> int \<Rightarrow> guid \<times> queue_data
    \<Rightarrow> lfg_queue \<times> (u32, role_count) omap \<times> (guid \<times> queue_status) list
    \<Rightarrow> lfg_queue \<times> (u32, role_count) omap \<times> (guid \<times> queue_status) list" where
  "timers_entry e queueId currTime x acc =
     (case x of (g, q) \<Rightarrow> case acc of (s, counts, sent) \<Rightarrow>
      let dg = hd (queueDungeons q);
          s1 = s\<lparr>waitTimesTank := touch_wait dg (waitTimesTank s), waitTimesHealer := touch_wait dg (waitTimesHealer s),
                 waitTimesDps := touch_wait dg (waitTimesDps s), waitTimesAvg := touch_wait dg (waitTimesAvg s)\<rparr>;
          wtTank = waitTime (wait_at (waitTimesTank s1) dg);
          wtHealer = waitTime (wait_at (waitTimesHealer s1) dg);
          wtDps = waitTime (wait_at (waitTimesDps s1) dg);
          wtAvg = waitTime (wait_at (waitTimesAvg s1) dg);
          role = party_role (queueRoles q);
          c = (case om_get counts dg of None \<Rightarrow> \<lparr>currentDps = 0, currentHealers = 0, currentTanks = 0\<rparr> | Some c \<Rightarrow> c);
          counts' = (if role AND (ROLE_TANK OR ROLE_HEALER OR ROLE_DAMAGE) = 0 then counts
                     else om_put dg (count_role role c) counts);
          q' = (if bestCompatible q = [] then FindBestCompatible e (CompatibleMapStore s1) g q else q);
          status = \<lparr>stQueueId = queueId, stDungeon = dg, stWait = role_wait role wtTank wtHealer wtDps wtAvg,
             stAvg = wtAvg, stTank = wtTank, stHealer = wtHealer, stDps = wtDps,
             stQueuedTime = of_int (currTime - joinTime q), stTanks = tanksNeeded q',
             stHealers = healersNeeded q', stDpsNeeded = dpsNeeded q'\<rparr>
      in (s1\<lparr>QueueDataStore := om_put g q' (QueueDataStore s1)\<rparr>, counts',
          sent @ map (\<lambda>(p, r). (p, status)) (queueRoles q)))"

definition UpdateQueueTimers :: "lfg_env \<Rightarrow> u8 \<Rightarrow> int \<Rightarrow> (u32, role_count) omap \<Rightarrow> lfg_queue
    \<Rightarrow> lfg_queue \<times> (u32, role_count) omap \<times> (guid \<times> queue_status) list" where
  "UpdateQueueTimers e queueId currTime counts s =
     fold (timers_entry e queueId currTime) (QueueDataStore s) (s, counts, [])"

end
