(* ===== verification/Lfg_Matching.thy ===== *)
theory Lfg_Matching
  imports Lfg_Queue
begin

text \<open>
  What \<^verbatim>\<open>LFGQueue::FindGroups\<close> does to a queue as a whole.  The relation \<open>evolves\<close> collects what
  every step of the search keeps: the entries' dungeons and parties, soundness of what is proposed,
  and that nobody disappears from the lists but into a proposal.  It is reflexive and transitive,
  so it is shown for each function along the call graph.
\<close>

section \<open>What the search reads of a queue\<close>

definition wants :: "lfg_queue \<Rightarrow> guid \<Rightarrow> u32 list" where
  "wants s g = (case om_get (QueueDataStore s) g of None \<Rightarrow> [] | Some q \<Rightarrow> queueDungeons q)"

definition party :: "lfg_queue \<Rightarrow> guid \<Rightarrow> roles_map" where
  "party s g = (case om_get (QueueDataStore s) g of None \<Rightarrow> [] | Some q \<Rightarrow> queueRoles q)"

definition has_data :: "lfg_queue \<Rightarrow> guid \<Rightarrow> bool" where
  "has_data s g \<longleftrightarrow> om_get (QueueDataStore s) g \<noteq> None"

definition listed :: "lfg_queue \<Rightarrow> guid \<Rightarrow> bool" where
  "listed s g \<longleftrightarrow> g \<in> set (newToQueue s) \<union> set (currentQueue s)"

lemmas view_defs = wants_def party_def has_data_def listed_def

text \<open>Steps that touch only the bookkeeping of an entry.\<close>

definition quiet :: "lfg_queue \<Rightarrow> lfg_queue \<Rightarrow> bool" where
  "quiet s s' \<longleftrightarrow> wants s' = wants s \<and> party s' = party s \<and> (\<forall>g. has_data s g \<longrightarrow> has_data s' g)
     \<and> newToQueue s' = newToQueue s \<and> currentQueue s' = currentQueue s
     \<and> addedProposals s' = addedProposals s \<and> CompatibleMapStore s' = CompatibleMapStore s"

lemma quiet_refl [simp]: "quiet s s"
  by (simp add: quiet_def)

lemma quiet_trans [trans]: "quiet s t \<Longrightarrow> quiet t u \<Longrightarrow> quiet s u"
  by (simp add: quiet_def)

lemma Setup_fields [simp]:
  "queueDungeons (InitializeGroupSetup e q) = queueDungeons q"
  "queueRoles (InitializeGroupSetup e q) = queueRoles q"
  by (simp_all add: InitializeGroupSetup_def Let_def split: list.split option.split)

lemma needs_fold_fields [simp]:
  fixes q :: queue_data
  defines "step \<equiv> \<lambda>q (g :: guid, role :: u8). if role AND ROLE_TANK \<noteq> 0 then q\<lparr>tanksNeeded := tanksNeeded q - 1\<rparr>
            else if role AND ROLE_HEALER \<noteq> 0 then q\<lparr>healersNeeded := healersNeeded q - 1\<rparr>
            else q\<lparr>dpsNeeded := dpsNeeded q - 1\<rparr>"
  shows "queueDungeons (foldl step q roles) = queueDungeons q"
    and "queueRoles (foldl step q roles) = queueRoles q"
  unfolding step_def by (induction roles arbitrary: q) (auto split: prod.split)

lemma UpdateBest_fields [simp]:
  "queueDungeons (UpdateBestCompatible e key roles q) = queueDungeons q"
  "queueRoles (UpdateBestCompatible e key roles q) = queueRoles q"
  by (simp_all add: UpdateBestCompatible_def Let_def)

lemma FindBest_fields [simp]:
  "queueDungeons (FindBestCompatible e cache g q) = queueDungeons q"
  "queueRoles (FindBestCompatible e cache g q) = queueRoles q"
  unfolding FindBestCompatible_def by (induction cache arbitrary: q) (auto split: prod.split)

lemma quiet_data_at: "quiet s (fst (data_at e g s))"
  by (auto simp: quiet_def data_at_def view_defs Let_def new_queue_data_def fun_eq_iff split: option.split)

lemma snd_data_at [simp]:
  "queueDungeons (snd (data_at e g s)) = wants s g" "queueRoles (snd (data_at e g s)) = party s g"
  by (auto simp: data_at_def view_defs Let_def new_queue_data_def split: option.split)

lemma quiet_meet: "quiet s (fst (meet_dungeons e ds gs s))"
proof (induction gs arbitrary: ds s)
  case (Cons g gs)
  show ?case using quiet_trans [OF quiet_data_at Cons] by (simp add: split_beta)
qed simp

lemma quiet_common: "quiet s (fst (common_dungeons e check s))"
  unfolding common_dungeons_def using quiet_trans [OF quiet_data_at quiet_meet] by (simp add: split_beta)

lemma quiet_collect: "quiet s (fst (collect_roles e gs m s))"
proof (induction gs arbitrary: m s)
  case (Cons g gs)
  show ?case using quiet_trans [OF quiet_data_at Cons] by (simp add: split_beta)
qed simp

lemma quiet_UpdateBest: "quiet s (UpdateBestCompatibleInQueue e g key roles s)"
  by (auto simp: quiet_def UpdateBestCompatibleInQueue_def view_defs fun_eq_iff split: option.split)

lemma quiet_fold_UpdateBest:
  "quiet s (foldl (\<lambda>s g. UpdateBestCompatibleInQueue e g key roles s) s gs)"
  by (induction gs arbitrary: s) (auto intro: quiet_trans quiet_UpdateBest)

section \<open>Keys of the cache determine the combination\<close>

lemma digit_not_bar: "n < 10 \<Longrightarrow> digit n \<noteq> CHR ''|''"
  by (auto simp: digit_def dest!: arg_cong [of _ _ "of_char :: char \<Rightarrow> nat"])

lemma guid_string_inj: "guid_string g = guid_string h \<Longrightarrow> g = h"
  unfolding guid_string_def by (drule raw_string_inj) (simp add: word_unat_eq_iff)

lemma guid_string_ne [simp]: "guid_string g \<noteq> []"
  by (simp add: guid_string_def)

lemma guid_string_no_bar: "CHR ''|'' \<notin> set (guid_string g)"
  using raw_string_digits [of "CHR ''|''" "unat g"] digit_not_bar unfolding guid_string_def by metis

lemma bar_free_split:
  assumes "a @ CHR ''|'' # xs = b @ CHR ''|'' # ys" "CHR ''|'' \<notin> set a" "CHR ''|'' \<notin> set b"
  shows "a = b \<and> xs = ys"
  using assms by (induction a arbitrary: b) (auto simp: Cons_eq_append_conv)

lemma join_bar_inj:
  assumes "join_bar ss = join_bar ts" "\<forall>s \<in> set ss \<union> set ts. s \<noteq> [] \<and> CHR ''|'' \<notin> set s"
  shows "ss = ts"
  using assms
proof (induction ss arbitrary: ts rule: join_bar.induct)
  case 1
  then show ?case by (cases ts rule: join_bar.cases) auto
next
  case (2 s)
  then show ?case by (cases ts rule: join_bar.cases) auto
next
  case (3 s t ss)
  then obtain u v us where ts: "ts = u # v # us"
    by (cases ts rule: join_bar.cases) auto
  with 3(2) have "s @ CHR ''|'' # join_bar (t # ss) = u @ CHR ''|'' # join_bar (v # us)" by simp
  with bar_free_split [OF this] 3(3) ts have "s = u" "join_bar (t # ss) = join_bar (v # us)" by auto
  with 3(1) [of "v # us"] 3(3) ts show ?case by auto
qed

lemma Concatenate_inj:
  assumes "ConcatenateGuids xs = ConcatenateGuids ys"
  shows "set xs = set ys"
proof -
  have key: "ConcatenateGuids zs = join_bar (map guid_string (sort (remdups zs)))" for zs
    by (simp add: ConcatenateGuids_def)
  have "map guid_string (sort (remdups xs)) = map guid_string (sort (remdups ys))"
    using assms unfolding key
    by (rule join_bar_inj) (auto simp: guid_string_no_bar)
  then have "sort (remdups xs) = sort (remdups ys)"
    by (rule map_injective) (auto intro: injI guid_string_inj)
  then have "set (sort (remdups xs)) = set (sort (remdups ys))" by simp
  then show ?thesis by simp
qed

section \<open>What every step of the search keeps\<close>

text \<open>
  The cache never holds a combination back that could be proposed now: a cached \<open>CompatBadStates\<close>
  belongs to a combination with an entry that is not queued, and a cached \<open>CompatMatch\<close> to one of
  the proposals from the \<open>k\<close>-th on.
\<close>

definition cache_ok :: "lfg_env \<Rightarrow> nat \<Rightarrow> lfg_queue \<Rightarrow> bool" where
  "cache_ok e k s \<longleftrightarrow> (\<forall>check.
     (GetCompatibles (ConcatenateGuids check) s = CompatBadStates \<longrightarrow> \<not> AllQueued e check) \<and>
     (GetCompatibles (ConcatenateGuids check) s = CompatMatch \<longrightarrow>
        (\<exists>p \<in> set (drop k (addedProposals s)). set (propQueues p) = set check)))"

definition plays_role :: "u8 \<Rightarrow> guid \<times> proposal_player \<Rightarrow> bool" where
  "plays_role k x \<longleftrightarrow> propRole (snd x) AND NOT ROLE_LEADER = k"

definition team_ok :: "lfg_env \<Rightarrow> lfg_dungeon \<Rightarrow> (guid \<Rightarrow> roles_map) \<Rightarrow> proposal \<Rightarrow> bool" where
  "team_ok e d pt p \<longleftrightarrow>
     (\<forall>(a, x) \<in> set (propPlayers p). \<forall>(b, y) \<in> set (propPlayers p). a \<noteq> b \<longrightarrow> \<not> HasIgnore e a b) \<and>
     (\<forall>(a, x) \<in> set (propPlayers p). \<exists>g \<in> set (propQueues p). \<exists>r. (a, r) \<in> set (pt g)
        \<and> plays r (propRole x AND NOT ROLE_LEADER)) \<and>
     length (filter (plays_role ROLE_TANK) (propPlayers p)) = unat (requiredTanks d) \<and>
     length (filter (plays_role ROLE_HEALER) (propPlayers p)) = unat (requiredHealers d) \<and>
     length (filter (plays_role ROLE_DAMAGE) (propPlayers p)) = unat (requiredDamageDealers d) \<and>
     ((\<forall>g \<in> set (butlast (propQueues p)). \<not> IsLfgGroup e g) \<longrightarrow>
        (\<forall>g \<in> set (propQueues p). fst ` set (pt g) \<subseteq> fst ` set (propPlayers p)))"

definition leader_ok :: "proposal \<Rightarrow> bool" where
  "leader_ok p \<longleftrightarrow> (\<exists>x. (propLeader p, x) \<in> set (propPlayers p) \<and>
     (list_ex (\<lambda>(a, y). propRole y AND ROLE_LEADER \<noteq> 0) (propPlayers p) \<longrightarrow> propRole x AND ROLE_LEADER \<noteq> 0))"

definition proposal_sound :: "lfg_env \<Rightarrow> (guid \<Rightarrow> u32 list) \<Rightarrow> (guid \<Rightarrow> roles_map) \<Rightarrow> proposal \<Rightarrow> bool" where
  "proposal_sound e w pt p \<longleftrightarrow> (\<exists>d. le_dungeon e (propDungeon p) = Some d \<and>
     length (propPlayers p) = unat (GetMaxGroupSize d) \<and> AllQueued e (propQueues p) \<and>
     (\<forall>g \<in> set (propQueues p). propDungeon p \<in> set (w g)) \<and> leader_ok p \<and>
     (1 < length (propQueues p) \<longrightarrow> team_ok e d pt p))"

text \<open>
  What the rest of the server promises: parties of at most five members with distinct guids and
  masks of the four roles, and dungeons for at most 40 players, of each role at most 30.
\<close>

definition setup_ok :: "lfg_env \<Rightarrow> (guid \<Rightarrow> roles_map) \<Rightarrow> bool" where
  "setup_ok e pt \<longleftrightarrow> (\<forall>g. om_ok (pt g) \<and> length (pt g) \<le> 5 \<and> (\<forall>x \<in> set (pt g). snd x < 16)) \<and>
     (\<forall>dg d. le_dungeon e dg = Some d \<longrightarrow> requiredTanks d \<le> 30 \<and> requiredHealers d \<le> 30
        \<and> requiredDamageDealers d \<le> 30 \<and> 0 < GetMaxGroupSize d \<and> GetMaxGroupSize d \<le> 40)"

definition evolves :: "lfg_env \<Rightarrow> nat \<Rightarrow> lfg_queue \<Rightarrow> lfg_queue \<Rightarrow> bool" where
  "evolves e k s s' \<longleftrightarrow> wants s' = wants s \<and> party s' = party s \<and> (\<forall>g. has_data s g \<longrightarrow> has_data s' g)
     \<and> (\<exists>ps. addedProposals s' = addedProposals s @ ps
          \<and> (setup_ok e (party s) \<longrightarrow> (\<forall>p \<in> set ps. proposal_sound e (wants s) (party s) p)))
     \<and> (cache_ok e k s \<longrightarrow> cache_ok e k s')
     \<and> (cache_ok e k s \<longrightarrow> (\<forall>g. listed s g \<longrightarrow> listed s' g \<or> \<not> has_data s g \<or>
          (\<exists>p \<in> set (drop k (addedProposals s')). g \<in> set (propQueues p))))"

lemma evolves_refl [simp]: "evolves e k s s"
  by (simp add: evolves_def)

lemma drop_append_subset: "set (drop k xs) \<subseteq> set (drop k (xs @ ys))"
  by auto

lemma evolves_trans [trans]:
  assumes "evolves e k s t" "evolves e k t u"
  shows "evolves e k s u"
proof -
  obtain ps where ps: "addedProposals t = addedProposals s @ ps"
    "setup_ok e (party s) \<longrightarrow> (\<forall>p \<in> set ps. proposal_sound e (wants s) (party s) p)"
    using assms(1) by (auto simp: evolves_def)
  obtain qs where qs: "addedProposals u = addedProposals t @ qs"
    "setup_ok e (party t) \<longrightarrow> (\<forall>p \<in> set qs. proposal_sound e (wants t) (party t) p)"
    using assms(2) by (auto simp: evolves_def)
  have same: "wants t = wants s" "party t = party s" using assms(1) by (auto simp: evolves_def)
  have "\<exists>rs. addedProposals u = addedProposals s @ rs
      \<and> (setup_ok e (party s) \<longrightarrow> (\<forall>p \<in> set rs. proposal_sound e (wants s) (party s) p))"
    using ps qs unfolding same by (intro exI [of _ "ps @ qs"]) auto
  moreover have "listed u g \<or> \<not> has_data s g \<or> (\<exists>p \<in> set (drop k (addedProposals u)). g \<in> set (propQueues p))"
    if g: "cache_ok e k s" "listed s g" for g
  proof -
    have s: "listed t g \<or> \<not> has_data s g \<or> (\<exists>p \<in> set (drop k (addedProposals t)). g \<in> set (propQueues p))"
      "has_data s g \<longrightarrow> has_data t g" "cache_ok e k t"
      using assms(1) g by (auto simp: evolves_def)
    then have t: "listed t g \<longrightarrow> listed u g \<or> \<not> has_data t g
        \<or> (\<exists>p \<in> set (drop k (addedProposals u)). g \<in> set (propQueues p))"
      using assms(2) by (auto simp: evolves_def)
    show ?thesis using s t drop_append_subset [of k "addedProposals t" qs] unfolding qs(1) by blast
  qed
  ultimately show ?thesis using assms unfolding evolves_def by simp
qed

lemma quiet_evolves: "quiet s t \<Longrightarrow> evolves e k s t"
  by (auto simp: quiet_def evolves_def listed_def cache_ok_def GetCompatibles_def)

lemma GetCompatibles_Set [simp]:
  "GetCompatibles key (SetCompatibilityData key' d s) = (if key = key' then compatOf d else GetCompatibles key s)"
  "GetCompatibles key (SetCompatibles key' c s) = (if key = key' then c else GetCompatibles key s)"
  by (simp_all add: SetCompatibles_def SetCompatibilityData_def GetCompatibles_def Let_def)

lemma Set_view [simp]:
  "wants (SetCompatibilityData key d s) = wants s" "wants (SetCompatibles key c s) = wants s"
  "party (SetCompatibilityData key d s) = party s" "party (SetCompatibles key c s) = party s"
  "has_data (SetCompatibilityData key d s) = has_data s" "has_data (SetCompatibles key c s) = has_data s"
  "listed (SetCompatibilityData key d s) = listed s" "listed (SetCompatibles key c s) = listed s"
  "addedProposals (SetCompatibilityData key d s) = addedProposals s"
  "addedProposals (SetCompatibles key c s) = addedProposals s"
  by (auto simp: SetCompatibilityData_def SetCompatibles_def view_defs fun_eq_iff Let_def)

lemma AllQueued_set: "set xs = set ys \<Longrightarrow> AllQueued e xs = AllQueued e ys"
  by (auto simp: AllQueued_def list_all_iff)

lemma evolves_Set:
  assumes "c = CompatBadStates \<Longrightarrow> cache_ok e k s \<Longrightarrow> \<not> AllQueued e check"
    and "c = CompatMatch \<Longrightarrow> cache_ok e k s \<Longrightarrow>
      \<exists>p \<in> set (drop k (addedProposals s)). set (propQueues p) = set check"
  shows "evolves e k s (SetCompatibles (ConcatenateGuids check) c s)"
    and "compatOf d = c \<Longrightarrow> evolves e k s (SetCompatibilityData (ConcatenateGuids check) d s)"
proof -
  have cache: "cache_ok e k t" if ok: "cache_ok e k s"
    and get: "\<And>key. GetCompatibles key t = (if key = ConcatenateGuids check then c else GetCompatibles key s)"
    and props: "addedProposals t = addedProposals s" for t
    unfolding cache_ok_def
  proof (intro allI)
    fix check'
    show "(GetCompatibles (ConcatenateGuids check') t = CompatBadStates \<longrightarrow> \<not> AllQueued e check') \<and>
      (GetCompatibles (ConcatenateGuids check') t = CompatMatch \<longrightarrow>
        (\<exists>p \<in> set (drop k (addedProposals t)). set (propQueues p) = set check'))"
    proof (cases "ConcatenateGuids check' = ConcatenateGuids check")
      case True
      then have "set check' = set check" by (rule Concatenate_inj)
      with True ok assms AllQueued_set [of check' check e] show ?thesis by (simp add: get props)
    next
      case False
      with ok show ?thesis by (simp add: get props cache_ok_def)
    qed
  qed
  show "evolves e k s (SetCompatibles (ConcatenateGuids check) c s)"
    using cache by (auto simp: evolves_def)
  show "compatOf d = c \<Longrightarrow> evolves e k s (SetCompatibilityData (ConcatenateGuids check) d s)"
    using cache by (auto simp: evolves_def)
qed

lemma om_get_map_entries: "om_get (map (\<lambda>(h, q). (h, f h q)) m) g = map_option (f g) (om_get m g)"
  by (induction m) (auto simp: om_get_def)

lemma om_get_filter_keys: "om_get (filter (\<lambda>(a, b). P a) m) a = (if P a then om_get m a else None)"
  by (induction m) (auto simp: om_get_def)

lemma RemoveFromQueue_view:
  "om_get (QueueDataStore (RemoveFromQueue e g s)) h = (if h = g then None else
     map_option (\<lambda>q. if h \<noteq> g \<and> contains (bestCompatible q) (guid_string g)
       then FindBestCompatible e (CompatibleMapStore (RemoveFromCompatibles g s)) h (q\<lparr>bestCompatible := []\<rparr>)
       else q) (om_get (QueueDataStore s) h))"
  "GetCompatibles key (RemoveFromQueue e g s) =
     (if contains key (guid_string g) then CompatPending else GetCompatibles key s)"
  "newToQueue (RemoveFromQueue e g s) = removeAll g (newToQueue s)"
  "currentQueue (RemoveFromQueue e g s) = removeAll g (currentQueue s)"
  "addedProposals (RemoveFromQueue e g s) = addedProposals s"
  by (simp_all add: RemoveFromQueue_def RemoveFromCompatibles_def RemoveFromCurrentQueue_def
      RemoveFromNewQueue_def GetCompatibles_def Let_def om_get_map_entries om_get_filter_keys cong: if_cong)

lemma evolves_Remove: "\<not> has_data s g \<Longrightarrow> evolves e k s (RemoveFromQueue e g s)"
  by (auto simp: evolves_def view_defs RemoveFromQueue_view cache_ok_def fun_eq_iff split: option.split)

lemma leave_queues_fields [simp]:
  "QueueDataStore (leave_queues gs s) = QueueDataStore s"
  "addedProposals (leave_queues gs s) = addedProposals s"
  "CompatibleMapStore (leave_queues gs s) = CompatibleMapStore s"
  unfolding leave_queues_def
  by (induction gs arbitrary: s) (simp_all add: RemoveFromCurrentQueue_def RemoveFromNewQueue_def)

definition good_result :: "lfg_env \<Rightarrow> nat \<Rightarrow> guid list \<Rightarrow> lfg_queue \<times> compatibility \<Rightarrow> bool" where
  "good_result e k check r \<longleftrightarrow>
     (snd r = CompatMatch \<longrightarrow> (\<exists>p \<in> set (drop k (addedProposals (fst r))). set (propQueues p) = set check)) \<and>
     (snd r = CompatBadStates \<longrightarrow> \<not> AllQueued e check)"

lemma propose_evolves:
  assumes "k \<le> length (addedProposals s)" and "propQueues p = check"
    and "setup_ok e (party s) \<Longrightarrow> proposal_sound e (wants s) (party s) p"
  shows "evolves e k s ((leave_queues check s)\<lparr>addedProposals := addedProposals s @ [p]\<rparr>)"
proof -
  let ?t = "(leave_queues check s)\<lparr>addedProposals := addedProposals s @ [p]\<rparr>"
  have p: "p \<in> set (drop k (addedProposals s @ [p]))" using assms(1) by simp
  have "cache_ok e k s \<longrightarrow> cache_ok e k ?t"
    using drop_append_subset [of k "addedProposals s" "[p]"] by (auto simp: cache_ok_def GetCompatibles_def)
  moreover have "listed s g \<longrightarrow> listed ?t g \<or> g \<in> set (propQueues p)" for g
    using assms(2) by (auto simp: listed_def leave_queues_lists)
  ultimately show ?thesis using p assms(3) by (auto simp: evolves_def wants_def party_def has_data_def fun_eq_iff)
qed

lemma finish_match_evolves:
  assumes k: "k \<le> length (addedProposals s)"
    and sound: "\<And>isNew. setup_ok e (party s) \<Longrightarrow> ucast n = GetMaxGroupSize d \<Longrightarrow> AllQueued e check
      \<Longrightarrow> proposal_sound e (wants s) (party s) (make_proposal e check dg grp isNew groups roles)"
  shows "evolves e k s (fst (finish_match e check dg d (n, lg, grp, groups) roles s))"
    and "good_result e k check (finish_match e check dg d (n, lg, grp, groups) roles s)"
proof -
  let ?key = "ConcatenateGuids check"
  let ?r = "finish_match e check dg d (n, lg, grp, groups) roles s"
  have "evolves e k s (fst ?r) \<and> good_result e k check ?r"
  proof (cases "ucast n = GetMaxGroupSize d")
    case False
    let ?t = "foldl (\<lambda>s g. UpdateBestCompatibleInQueue e g ?key roles s) s check"
    have "evolves e k s ?t" by (rule quiet_evolves [OF quiet_fold_UpdateBest])
    also have "evolves e k ?t (SetCompatibilityData ?key \<lparr>compatOf = CompatWithLessPlayers, compatRoles = roles\<rparr> ?t)"
      by (rule evolves_Set(2) [of CompatWithLessPlayers]) simp_all
    finally show ?thesis using False by (simp add: finish_match_def Let_def good_result_def)
  next
    case full: True
    show ?thesis
    proof (cases "AllQueued e check")
      case False
      then show ?thesis using full evolves_Set(1) [of CompatBadStates e k s check]
        by (simp add: finish_match_def Let_def good_result_def)
    next
      case True
      define p where "p = make_proposal e check dg grp (lg \<noteq> 1 \<or> \<not> le_old_dungeon e (hd check)) groups roles"
      let ?t = "(leave_queues check s)\<lparr>addedProposals := addedProposals s @ [p]\<rparr>"
      have pq: "propQueues p = check" by (simp add: p_def make_proposal_def)
      have r: "?r = (SetCompatibles ?key CompatMatch ?t, CompatMatch)"
        using full True by (simp add: finish_match_def Let_def p_def)
      have new: "\<exists>p \<in> set (drop k (addedProposals ?t)). set (propQueues p) = set check"
        using k pq by auto
      have "evolves e k s ?t"
        using k pq sound [OF _ full True] unfolding p_def by (rule propose_evolves)
      also have "evolves e k ?t (SetCompatibles ?key CompatMatch ?t)"
        by (rule evolves_Set(1)) (use new in simp_all)
      finally show ?thesis unfolding r good_result_def using new by simp
    qed
  qed
  then show "evolves e k s (fst ?r)" and "good_result e k check ?r" by blast+
qed

section \<open>The players of a combination\<close>

definition gather :: "lfg_env \<Rightarrow> (guid \<Rightarrow> roles_map) \<Rightarrow> guid list \<Rightarrow> roles_map \<Rightarrow> roles_map" where
  "gather e pt gs m = foldl (add_role e) m (concat (map pt gs))"

lemma gather_simps [simp]:
  "gather e pt [] m = m" "gather e pt (g # gs) m = gather e pt gs (foldl (add_role e) m (pt g))"
  by (simp_all add: gather_def)

lemma quiet_party: "quiet s t \<Longrightarrow> party t = party s" and quiet_wants: "quiet s t \<Longrightarrow> wants t = wants s"
  by (simp_all add: quiet_def)

lemma collect_gather: "snd (collect_roles e gs m s) = gather e (party s) gs m"
proof (induction gs arbitrary: m s)
  case (Cons g gs)
  then show ?case using quiet_party [OF quiet_data_at, of e g s] by (simp add: split_beta)
qed simp

definition friends :: "lfg_env \<Rightarrow> roles_map \<Rightarrow> bool" where
  "friends e m \<longleftrightarrow> (\<forall>a \<in> fst ` set m. \<forall>b \<in> fst ` set m. a \<noteq> b \<longrightarrow> \<not> HasIgnore e a b)"

lemma HasIgnore_sym: "HasIgnore e a b = HasIgnore e b a"
  by (auto simp: HasIgnore_def)

lemma set_om_put: "set (om_put k v m) \<subseteq> insert (k, v) (set m)"
  by (induction k v m rule: om_put.induct) auto

lemma add_role_facts:
  assumes "om_ok m"
  shows "om_ok (add_role e m x)" and "set (add_role e m x) \<subseteq> insert x (set m)"
    and "friends e m \<Longrightarrow> friends e (add_role e m x)"
    and "length (add_role e m x) \<le> Suc (length m)"
    and "length (add_role e m x) = Suc (length m) \<Longrightarrow> fst x \<in> fst ` set (add_role e m x)"
    and "fst ` set m \<subseteq> fst ` set (add_role e m x)"
proof -
  obtain p r where x: "x = (p, r)" by fastforce
  show "om_ok (add_role e m x)" "set (add_role e m x) \<subseteq> insert x (set m)"
    "fst ` set m \<subseteq> fst ` set (add_role e m x)"
    using assms set_om_put [of p r m] by (auto simp: add_role_def x set_fst_om_put)
  show "length (add_role e m x) \<le> Suc (length m)"
    using length_om_put [OF assms, of p r] by (auto simp: add_role_def x)
  show "fst x \<in> fst ` set (add_role e m x)" if "length (add_role e m x) = Suc (length m)"
    using that by (auto simp: add_role_def x set_fst_om_put split: if_splits)
  show "friends e (add_role e m x)" if "friends e m"
  proof (cases "list_ex (\<lambda>(p', r'). p' \<noteq> p \<and> HasIgnore e p p') m")
    case True
    with that show ?thesis by (simp add: add_role_def x)
  next
    case False
    then have "\<forall>a \<in> fst ` set m. a \<noteq> p \<longrightarrow> \<not> HasIgnore e p a" by (auto simp: list_ex_iff)
    with that False HasIgnore_sym show ?thesis
      by (simp add: friends_def add_role_def x set_fst_om_put)
  qed
qed

lemma add_roles_facts:
  assumes "om_ok m"
  shows "om_ok (foldl (add_role e) m xs)" and "set (foldl (add_role e) m xs) \<subseteq> set m \<union> set xs"
    and "friends e m \<Longrightarrow> friends e (foldl (add_role e) m xs)"
    and "length (foldl (add_role e) m xs) \<le> length m + length xs"
    and "length (foldl (add_role e) m xs) = length m + length xs \<Longrightarrow>
      fst ` set xs \<subseteq> fst ` set (foldl (add_role e) m xs)"
    and "fst ` set m \<subseteq> fst ` set (foldl (add_role e) m xs)"
  using assms
proof (induction xs arbitrary: m)
  case Nil
  { case 1 then show ?case by simp }
  { case 2 then show ?case by simp }
  { case 3 then show ?case by simp }
  { case 4 then show ?case by simp }
  { case 5 then show ?case by simp }
  { case 6 then show ?case by simp }
next
  case (Cons x xs)
  { case 1 note f = add_role_facts [OF this(1), of e x] from 1 show ?case using Cons(1) [OF f(1)] by simp }
  { case 2 note f = add_role_facts [OF this(1), of e x] from 2 show ?case using Cons(2) [OF f(1)] f(2) by auto }
  { case 3 note f = add_role_facts [OF this(2), of e x] from 3 show ?case using Cons(3) [OF f(3,1)] by simp }
  { case 4 note f = add_role_facts [OF this(1), of e x] from 4 show ?case using Cons(4) [OF f(1)] f(4) by fastforce }
  { case 5
    note f = add_role_facts [OF this(2), of e x]
    from 5 have l: "length (foldl (add_role e) (add_role e m x) xs) \<le> length (add_role e m x) + length xs"
      "length (add_role e m x) \<le> Suc (length m)" using Cons(4) [OF f(1)] f(4) by auto
    have len: "length (add_role e m x) = Suc (length m)"
      "length (foldl (add_role e) (add_role e m x) xs) = length (add_role e m x) + length xs"
      using 5(1) l by simp_all
    have "fst x \<in> fst ` set (foldl (add_role e) (add_role e m x) xs)"
      using f(5) [OF len(1)] Cons(6) [OF f(1)] by blast
    with Cons(5) [OF len(2) f(1)]
    have "fst ` set (x # xs) \<subseteq> fst ` set (foldl (add_role e) (add_role e m x) xs)" by auto
    then show ?case unfolding foldl_Cons . }
  { case 6 note f = add_role_facts [OF this(1), of e x] show ?case using subset_trans [OF f(6) Cons(6) [OF f(1)]] by simp }
qed

lemma gather_facts:
  shows "om_ok (gather e pt gs [])" and "set (gather e pt gs []) \<subseteq> (\<Union>g \<in> set gs. set (pt g))"
    and "friends e (gather e pt gs [])"
    and "length (gather e pt gs []) \<le> sum_list (map (length \<circ> pt) gs)"
    and "length (gather e pt gs []) = sum_list (map (length \<circ> pt) gs) \<Longrightarrow> g \<in> set gs \<Longrightarrow>
      fst ` set (pt g) \<subseteq> fst ` set (gather e pt gs [])"
proof -
  note f = add_roles_facts [of "[]" e "concat (map pt gs)", folded gather_def]
  show "om_ok (gather e pt gs [])" "set (gather e pt gs []) \<subseteq> (\<Union>g \<in> set gs. set (pt g))"
    "friends e (gather e pt gs [])" "length (gather e pt gs []) \<le> sum_list (map (length \<circ> pt) gs)"
    using f(1-4) by (auto simp: friends_def length_concat)
  show "fst ` set (pt g) \<subseteq> fst ` set (gather e pt gs [])"
    if "length (gather e pt gs []) = sum_list (map (length \<circ> pt) gs)" "g \<in> set gs"
  proof -
    have "fst ` set (concat (map pt gs)) \<subseteq> fst ` set (gather e pt gs [])"
      using f(5) that(1) by (simp add: length_concat)
    moreover have "fst ` set (pt g) \<subseteq> fst ` set (concat (map pt gs))" using that(2) by auto
    ultimately show ?thesis by simp
  qed
qed

text \<open>How many players the counting loop sees.\<close>

definition headcount :: "(guid \<Rightarrow> roles_map) \<Rightarrow> guid list \<Rightarrow> nat" where
  "headcount pt gs = sum_list (map (length \<circ> pt) gs)"

lemma headcount_bound: "setup_ok e pt \<Longrightarrow> headcount pt gs \<le> 5 * length gs"
  unfolding headcount_def setup_ok_def
  by (induction gs) (auto intro: add_mono)

lemma count_loop_count:
  assumes "count_loop e d gs (n, 0, grp, groups) s = Inr (n', lg', grp', groups')"
    and "\<forall>g \<in> set (butlast gs). \<not> IsLfgGroup e g" and "unat n + headcount (party s) gs < 256"
  shows "unat n' = unat n + headcount (party s) gs \<or> GetMaxGroupSize d < ucast n'"
  using assms
proof (induction gs arbitrary: n grp groups)
  case Nil
  then show ?case by (simp add: headcount_def)
next
  case (Cons g gs)
  show ?case
  proof (cases "ucast n \<le> GetMaxGroupSize d")
    case False
    with Cons.prems show ?thesis by auto
  next
    case True
    with Cons.prems(1) obtain q where q: "om_get (QueueDataStore s) g = Some q"
      by (auto split: option.splits)
    have p: "party s g = queueRoles q" by (simp add: party_def q)
    let ?n = "n + of_nat (length (queueRoles q))"
    have n: "unat ?n = unat n + length (party s g)" and le: "unat ?n + headcount (party s) gs < 256"
      using Cons.prems(3) by (simp_all add: headcount_def p unat_word_ariths unat_of_nat)
    show ?thesis
    proof (cases "IsLfgGroup e g")
      case True
      then have "gs = []" using Cons.prems(2) by (cases gs) auto
      with True \<open>ucast n \<le> _\<close> Cons.prems(1) q n show ?thesis by (auto simp: headcount_def Let_def)
    next
      case False
      with \<open>ucast n \<le> _\<close> Cons.prems(1) q obtain grp2 groups2 where
        "count_loop e d gs (?n, 0, grp2, groups2) s = Inr (n', lg', grp', groups')"
        by (auto simp: Let_def)
      from Cons.IH [OF this _ le] Cons.prems(2) n show ?thesis
        by (auto simp: headcount_def split: if_splits)
    qed
  qed
qed

section \<open>Proposals are sound\<close>

lemma draw_dungeon_in: "draw_dungeon e ds = Some (dg, d) \<Longrightarrow> dg \<in> set ds \<and> le_dungeon e dg = Some d"
proof (induction e ds rule: draw_dungeon.induct)
  case (1 e ds)
  then show ?case
    by (subst (asm) (2) draw_dungeon.simps)
      (auto simp: Let_def split: if_splits option.splits)
qed

lemma meet_dungeons_wants: "set (snd (meet_dungeons e ds gs s)) \<subseteq> set ds \<inter> (\<Inter>g \<in> set gs. set (wants s g))"
proof (induction gs arbitrary: ds s)
  case (Cons g gs)
  show ?case
    using Cons [of "filter (\<lambda>x. x \<in> set (wants s g)) ds" "fst (data_at e g s)"]
      quiet_wants [OF quiet_data_at, of e g s] by (auto simp: split_beta)
qed simp

lemma common_dungeons_wants:
  assumes "check \<noteq> []" "dg \<in> set (snd (common_dungeons e check s))" "g \<in> set check"
  shows "dg \<in> set (wants s g)"
proof -
  have "set (snd (common_dungeons e check s)) \<subseteq> set (wants s (hd check)) \<inter> (\<Inter>g \<in> set (tl check). set (wants s g))"
    using meet_dungeons_wants [of e "wants s (hd check)" "tl check" "fst (data_at e (hd check) s)"]
      quiet_wants [OF quiet_data_at, of e "hd check" s]
    by (simp add: common_dungeons_def split_beta)
  moreover have "g = hd check \<or> g \<in> set (tl check)" using assms(1,3) by (cases check) auto
  ultimately show ?thesis using assms(2) by auto
qed

lemma choose_leader_member:
  "fst ` set m \<subseteq> K \<Longrightarrow> lg \<in> K \<or> (\<not> leader \<and> lg = 0 \<and> m \<noteq> []) \<Longrightarrow> choose_leader e m leader lg \<in> K"
  by (induction e m leader lg rule: choose_leader.induct) auto

lemma choose_leader_volunteer:
  "\<forall>x \<in> set m. snd x AND ROLE_LEADER \<noteq> 0 \<longrightarrow> fst x \<in> L \<Longrightarrow> (leader \<longrightarrow> lg \<in> L) \<Longrightarrow>
   leader \<or> (\<exists>x \<in> set m. snd x AND ROLE_LEADER \<noteq> 0) \<Longrightarrow> choose_leader e m leader lg \<in> L"
  by (induction e m leader lg rule: choose_leader.induct) auto

lemma make_proposal_fields [simp]:
  "propDungeon (make_proposal e check dg grp isNew groups roles) = dg"
  "propQueues (make_proposal e check dg grp isNew groups roles) = check"
  "map fst (propPlayers (make_proposal e check dg grp isNew groups roles)) = map fst roles"
  "map (propRole \<circ> snd) (propPlayers (make_proposal e check dg grp isNew groups roles)) = map snd roles"
  "length (propPlayers (make_proposal e check dg grp isNew groups roles)) = length roles"
  by (simp_all add: make_proposal_def split_beta comp_def Let_def)

lemma make_proposal_players:
  "(a, x) \<in> set (propPlayers (make_proposal e check dg grp isNew groups roles)) \<Longrightarrow> (a, propRole x) \<in> set roles"
  "(a, r) \<in> set roles \<Longrightarrow>
     \<exists>x. (a, x) \<in> set (propPlayers (make_proposal e check dg grp isNew groups roles)) \<and> propRole x = r"
  by (auto simp: make_proposal_def Let_def image_iff) (force simp: image_iff)

lemma make_proposal_leader:
  assumes "roles \<noteq> []"
  shows "leader_ok (make_proposal e check dg grp isNew groups roles)"
proof -
  let ?p = "make_proposal e check dg grp isNew groups roles"
  have lg: "propLeader ?p = choose_leader e roles False 0" by (simp add: make_proposal_def)
  show ?thesis
  proof (cases "\<exists>x \<in> set roles. snd x AND ROLE_LEADER \<noteq> 0")
    case True
    then have "propLeader ?p \<in> {a. \<exists>r. (a, r) \<in> set roles \<and> r AND ROLE_LEADER \<noteq> 0}"
      unfolding lg by (intro choose_leader_volunteer) auto
    then show ?thesis using make_proposal_players(2) [of _ _ roles] unfolding leader_ok_def by fastforce
  next
    case False
    then have "\<not> list_ex (\<lambda>(a, y). propRole y AND ROLE_LEADER \<noteq> 0) (propPlayers ?p)"
      using make_proposal_players(1) by (fastforce simp: list_ex_iff)
    moreover have "propLeader ?p \<in> fst ` set roles"
      unfolding lg using assms by (intro choose_leader_member) auto
    ultimately show ?thesis using make_proposal_players(2) [of _ _ roles] unfolding leader_ok_def by fastforce
  qed
qed

lemma count_players:
  assumes "map (\<lambda>x. snd x AND NOT ROLE_LEADER) roles = cs"
  shows "length (filter (plays_role k) (propPlayers (make_proposal e check dg grp isNew groups roles))) = count_list cs k"
proof -
  let ?ps = "propPlayers (make_proposal e check dg grp isNew groups roles)"
  have "map (\<lambda>x. propRole (snd x) AND NOT ROLE_LEADER) ?ps = map (\<lambda>r. r AND NOT ROLE_LEADER) (map (propRole \<circ> snd) ?ps)"
    by (simp only: map_map comp_def)
  also have "\<dots> = cs" unfolding make_proposal_fields(4) using assms by (simp add: comp_def)
  finally have "map (\<lambda>x. propRole (snd x) AND NOT ROLE_LEADER) ?ps = cs" .
  moreover have "length (filter (plays_role k) ps) = count_list (map (\<lambda>x. propRole (snd x) AND NOT ROLE_LEADER) ps) k" for ps
    by (induction ps) (auto simp: plays_role_def)
  ultimately show ?thesis by simp
qed

lemma setup_dungeon:
  assumes "setup_ok e pt" "le_dungeon e dg = Some d"
  shows "unat (GetMaxGroupSize d) = unat (requiredTanks d) + unat (requiredHealers d) + unat (requiredDamageDealers d)"
    and "0 < unat (GetMaxGroupSize d)" and "unat (GetMaxGroupSize d) \<le> 40"
proof -
  have "requiredTanks d \<le> 30" "requiredHealers d \<le> 30" "requiredDamageDealers d \<le> 30"
    "0 < GetMaxGroupSize d" "GetMaxGroupSize d \<le> 40"
    using assms unfolding setup_ok_def by blast+
  then show "unat (GetMaxGroupSize d) = unat (requiredTanks d) + unat (requiredHealers d) + unat (requiredDamageDealers d)"
    and "0 < unat (GetMaxGroupSize d)" and "unat (GetMaxGroupSize d) \<le> 40"
    by (simp_all add: GetMaxGroupSize_def unat_word_ariths word_le_nat_alt word_less_nat_alt)
qed

lemma friends_fst: "map fst m = map fst m' \<Longrightarrow> friends e m = friends e m'"
proof -
  assume "map fst m = map fst m'"
  then have "fst ` set m = fst ` set m'" by (metis set_map)
  then show ?thesis by (simp add: friends_def)
qed

lemma team_sound:
  assumes ok: "setup_ok e (party s)" and d: "le_dungeon e dg = Some d"
    and size: "length check \<le> unat (GetMaxGroupSize d)"
    and count: "count_loop e d check (0, 0, 0, []) s = Inr (n, lg, grp, groups)"
    and mdef: "m = gather e (party s) check []" and len: "n - of_nat (length m) = 0"
    and roles: "CheckGroupRoles d m = Some roles" and full: "ucast n = GetMaxGroupSize d"
  shows "length roles = unat (GetMaxGroupSize d)"
    and "team_ok e d (party s) (make_proposal e check dg grp isNew groups roles)"
proof -
  let ?p = "make_proposal e check dg grp isNew groups roles"
  note gf = gather_facts [where e = e and pt = "party s" and gs = check, folded mdef]
  note dung = setup_dungeon [OF ok d]
  have head: "headcount (party s) check \<le> 200"
    using headcount_bound [OF ok, of check] size dung(3) by simp
  have small: "length m < 256" using gf(4) head by (simp add: headcount_def)
  have n: "unat n = length m" using len small by (simp add: unat_of_nat)
  have "unat n = unat (GetMaxGroupSize d)" using full by (simp add: ucast_eq_unat)
  with n have lm: "length m = unat (GetMaxGroupSize d)" by simp
  have masks: "\<forall>x \<in> set m. snd x < 16" using gf(2) ok unfolding setup_ok_def by blast
  then have "valid_roles m" using small by (simp add: valid_roles_def)
  then obtain cs where cs: "assignment d m cs" "roles = assign m cs" by (rule CheckGroupRoles_Some [OF _ roles])
  have fsts: "map fst roles = map fst m" using assign_fst [OF cs(1)] cs(2) by simp
  then show lr: "length roles = unat (GetMaxGroupSize d)" using lm by (metis length_map)
  have pfst: "fst ` set (propPlayers ?p) = fst ` set m"
    using fsts make_proposal_fields(3) [of e check dg grp isNew groups roles] by (metis set_map)
  have ignore: "\<forall>(a, x) \<in> set (propPlayers ?p). \<forall>(b, y) \<in> set (propPlayers ?p). a \<noteq> b \<longrightarrow> \<not> HasIgnore e a b"
  proof clarify
    fix a x b y
    assume "(a, x) \<in> set (propPlayers ?p)" "(b, y) \<in> set (propPlayers ?p)" and ig: "a \<noteq> b" "HasIgnore e a b"
    then have "a \<in> fst ` set m" "b \<in> fst ` set m" unfolding pfst [symmetric] by force+
    with gf(3) ig show False unfolding friends_def by blast
  qed
  have origin: "\<forall>(a, x) \<in> set (propPlayers ?p). \<exists>g \<in> set check. \<exists>r. (a, r) \<in> set (party s g)
      \<and> plays r (propRole x AND NOT ROLE_LEADER)"
  proof clarify
    fix a x assume "(a, x) \<in> set (propPlayers ?p)"
    then have "(a, propRole x) \<in> set (assign m cs)" using make_proposal_players(1) cs(2) by metis
    from assign_origin [OF cs(1) masks this] obtain r where "(a, r) \<in> set m"
      "plays r (propRole x AND NOT ROLE_LEADER)" by blast
    with gf(2) show "\<exists>g \<in> set check. \<exists>r. (a, r) \<in> set (party s g) \<and> plays r (propRole x AND NOT ROLE_LEADER)"
      by blast
  qed
  have counts: "length (filter (plays_role k) (propPlayers ?p)) = count_list cs k" for k
    using assign_roles [OF cs(1) masks] unfolding cs(2) [symmetric] by (rule count_players)
  have everyone: "fst ` set (party s g) \<subseteq> fst ` set (propPlayers ?p)"
    if lfg: "\<forall>g \<in> set (butlast check). \<not> IsLfgGroup e g" and g: "g \<in> set check" for g
  proof -
    have "unat n = headcount (party s) check"
      using count_loop_count [OF count lfg] head full by simp
    then show ?thesis using gf(5) [OF _ g] n pfst by (simp add: headcount_def)
  qed
  show "team_ok e d (party s) ?p"
    unfolding team_ok_def counts make_proposal_fields(2)
    using ignore origin everyone assignment_full [OF cs(1)] lm dung(1) by simp
qed

lemma own_party_sound:
  assumes ok: "setup_ok e (party s)" and d: "le_dungeon e dg = Some d"
    and n: "n = (of_nat (length (party s g)) :: u8)" and full: "ucast n = GetMaxGroupSize d"
    and roles: "roles = (case CheckGroupRoles d (party s g) of None \<Rightarrow> party s g | Some m \<Rightarrow> m)"
  shows "length roles = unat (GetMaxGroupSize d)"
proof -
  have len: "length (party s g) \<le> 5" and masks: "\<forall>x \<in> set (party s g). snd x < 16"
    using ok unfolding setup_ok_def by blast+
  have "unat n = length (party s g)" using n len by (simp add: unat_of_nat)
  moreover have "unat n = unat (GetMaxGroupSize d)" using full by (simp add: ucast_eq_unat)
  moreover have "length roles = length (party s g)"
  proof (cases "CheckGroupRoles d (party s g)")
    case (Some m)
    have "valid_roles (party s g)" using len masks by (simp add: valid_roles_def)
    then obtain cs where "assignment d (party s g) cs" "m = assign (party s g) cs"
      by (rule CheckGroupRoles_Some [OF _ Some])
    with assign_fst [of d "party s g" cs] roles Some show ?thesis by (metis length_map option.simps(5))
  qed (simp add: roles)
  ultimately show ?thesis by simp
qed

lemma quiet_proposals: "quiet s t \<Longrightarrow> addedProposals t = addedProposals s"
  by (simp add: quiet_def)

lemma count_loop_missing:
  "count_loop e d gs acc s = Inl g \<Longrightarrow> \<not> has_data s g"
  by (induction e d gs acc s rule: count_loop.induct)
    (auto simp: has_data_def Let_def split: if_splits option.splits)

lemma check_players_evolves:
  assumes k: "k \<le> length (addedProposals s)" and ne: "check \<noteq> []" and d: "le_dungeon e dg = Some d"
    and size: "length check \<le> unat (GetMaxGroupSize d)"
    and dungeon: "\<forall>g \<in> set check. dg \<in> set (wants s g)"
  shows "evolves e k s (fst (check_players e check dg d s)) \<and> good_result e k check (check_players e check dg d s)"
proof (cases "count_loop e d check (0, 0, 0, []) s")
  case (Inl g)
  then show ?thesis using evolves_Remove [OF count_loop_missing [OF Inl]]
    by (simp add: check_players_def Let_def good_result_def)
next
  case (Inr acc)
  obtain n lg grp groups where acc: "acc = (n, lg, grp, groups)" by (metis surj_pair)
  note count = Inr [unfolded acc]
  have refuse: "evolves e k t (SetCompatibles (ConcatenateGuids check) c t) \<and>
      good_result e k check (SetCompatibles (ConcatenateGuids check) c t, c)"
    if "c \<noteq> CompatMatch" "c \<noteq> CompatBadStates" for c t
    using that evolves_Set(1) [of c e k t check] by (simp add: good_result_def)
  have same: "wants t = wants s" "party t = party s" "k \<le> length (addedProposals t)" if "quiet s t" for t
    using quiet_wants [OF that] quiet_party [OF that] quiet_proposals [OF that] k by simp_all
  consider (many) "1 < lg" | (over) "\<not> 1 < lg" "GetMaxGroupSize d < ucast n"
    | (several) "\<not> 1 < lg" "\<not> GetMaxGroupSize d < ucast n" "1 < length check"
    | (alone) "\<not> 1 < lg" "\<not> GetMaxGroupSize d < ucast n" "\<not> 1 < length check" by blast
  then show ?thesis
  proof cases
    case many
    then show ?thesis using refuse [of IncompatMultipleLfgGroups s] by (simp add: check_players_def Let_def count)
  next
    case over
    then show ?thesis using refuse [of IncompatTooMuchPlayers s] by (simp add: check_players_def Let_def count)
  next
    case several
    obtain t m where cr: "collect_roles e check [] s = (t, m)" by fastforce
    have q: "quiet s t" using quiet_collect [of s e check "[]"] cr by simp
    have m: "m = gather e (party s) check []" using collect_gather [of e check "[]" s] cr by simp
    have r: "check_players e check dg d s =
       (if n - of_nat (length m) \<noteq> 0 then (SetCompatibles (ConcatenateGuids check) IncompatHasIgnores t, IncompatHasIgnores)
        else case CheckGroupRoles d m of None \<Rightarrow> (SetCompatibles (ConcatenateGuids check) IncompatNoRoles t, IncompatNoRoles)
        | Some roles \<Rightarrow> finish_match e check dg d (n, lg, grp, groups) roles t)"
      using several cr by (simp add: check_players_def Let_def count)
    have fin: "evolves e k t (fst (finish_match e check dg d (n, lg, grp, groups) roles t)) \<and>
        good_result e k check (finish_match e check dg d (n, lg, grp, groups) roles t)"
      if len: "n - of_nat (length m) = 0" and roles: "CheckGroupRoles d m = Some roles" for roles
    proof -
      have "proposal_sound e (wants t) (party t) (make_proposal e check dg grp isNew groups roles)"
        if "setup_ok e (party t)" "ucast n = GetMaxGroupSize d" "AllQueued e check" for isNew
      proof -
        note ok = that(1) [unfolded same(2) [OF q]]
        note team = team_sound [OF ok d size count m len roles that(2)]
        have "roles \<noteq> []" using team(1) setup_dungeon(2) [OF ok d] by auto
        then show ?thesis unfolding proposal_sound_def same(1,2) [OF q]
          using d team dungeon that(3) by (auto simp: make_proposal_leader)
      qed
      then show ?thesis using finish_match_evolves [OF same(3) [OF q], of e n d check dg grp groups roles lg] by blast
    qed
    have step: "evolves e k s t" by (rule quiet_evolves [OF q])
    show ?thesis unfolding r
      using refuse [of IncompatHasIgnores t] refuse [of IncompatNoRoles t] fin
      by (auto split: option.split intro: evolves_trans [OF step])
  next
    case alone
    then obtain g where g: "check = [g]" using ne by (cases check) auto
    then have hd: "hd check = g" by simp
    obtain t q where da: "data_at e g s = (t, q)" by fastforce
    have qt: "quiet s t" using quiet_data_at [of s e g] da by simp
    have pq: "queueRoles q = party s g" using snd_data_at(2) [of e g s] da by simp
    define roles where "roles = (case CheckGroupRoles d (party s g) of None \<Rightarrow> party s g | Some m \<Rightarrow> m)"
    have r: "check_players e check dg d s = finish_match e check dg d (n, lg, grp, groups) roles t"
      using alone da pq hd by (simp add: check_players_def Let_def count roles_def cong: option.case_cong)
    have "proposal_sound e (wants t) (party t) (make_proposal e check dg grp isNew groups roles)"
      if "setup_ok e (party t)" "ucast n = GetMaxGroupSize d" "AllQueued e check" for isNew
    proof -
      note ok = that(1) [unfolded same(2) [OF qt]]
      have "n = of_nat (length (party s g))"
        using count by (auto simp: g Let_def party_def split: if_splits option.splits)
      from own_party_sound [OF ok d this that(2) roles_def] have len: "length roles = unat (GetMaxGroupSize d)" .
      then have "roles \<noteq> []" using setup_dungeon(2) [OF ok d] by auto
      then show ?thesis unfolding proposal_sound_def same(1,2) [OF qt]
        using d len dungeon that(3) g by (auto simp: make_proposal_leader)
    qed
    then show ?thesis unfolding r
      using finish_match_evolves [OF same(3) [OF qt], of e n d check dg grp groups roles lg]
        evolves_trans [OF quiet_evolves [OF qt]] by blast
  qed
qed

section \<open>The search as a whole\<close>

lemma evolves_length: "evolves e k s t \<Longrightarrow> k \<le> length (addedProposals s) \<Longrightarrow> k \<le> length (addedProposals t)"
  by (auto simp: evolves_def)

lemma evolves_cache: "evolves e k s t \<Longrightarrow> cache_ok e k s \<Longrightarrow> cache_ok e k t"
  by (simp add: evolves_def)

lemma good_resultI: "c \<noteq> CompatMatch \<Longrightarrow> c \<noteq> CompatBadStates \<Longrightarrow> good_result e k check (t, c)"
  by (simp add: good_result_def)

lemma check_self_evolves:
  assumes k: "k \<le> length (addedProposals s)" and ne: "check \<noteq> []"
  shows "evolves e k s (fst (check_self e check s)) \<and> good_result e k check (check_self e check s)"
proof -
  obtain t ds where cd: "common_dungeons e check s = (t, ds)" by fastforce
  have q: "quiet s t" using quiet_common [of s e check] cd by simp
  have step: "evolves e k s t" by (rule quiet_evolves [OF q])
  show ?thesis
  proof (cases "draw_dungeon e ds")
    case None
    then show ?thesis
      using evolves_trans [OF step evolves_Set(1) [of IncompatNoDungeons]] by (simp add: check_self_def cd good_resultI)
  next
    case (Some x)
    obtain dg d where x: "x = (dg, d)" by fastforce
    show ?thesis
    proof (cases "unat (GetMaxGroupSize d) < length check")
      case True
      then show ?thesis using step by (simp add: check_self_def cd Some x good_resultI)
    next
      case False
      have "dg \<in> set ds" and d: "le_dungeon e dg = Some d" using draw_dungeon_in Some x by auto
      then have "\<forall>g \<in> set check. dg \<in> set (wants t g)"
        using common_dungeons_wants [OF ne, of dg e s] cd quiet_wants [OF q] by simp
      from check_players_evolves [OF evolves_length [OF step k] ne d _ this] False
      have "evolves e k t (fst (check_players e check dg d t)) \<and> good_result e k check (check_players e check dg d t)"
        by simp
      then show ?thesis using False evolves_trans [OF step] by (simp add: check_self_def cd Some x)
    qed
  qed
qed

lemma CheckCompatibility_evolves:
  assumes "k \<le> length (addedProposals s)" "check \<noteq> []"
  shows "evolves e k s (fst (CheckCompatibility e check s)) \<and> good_result e k check (CheckCompatibility e check s)"
  using assms
proof (induction e check s rule: CheckCompatibility.induct)
  case (1 e s)
  then show ?case by simp
next
  case (2 e g rest s)
  show ?case
  proof (cases "2 < length (g # rest)")
    case False
    then show ?thesis using check_self_evolves [OF 2(2,3)] by simp
  next
    case True
    then have "rest \<noteq> []" by auto
    obtain t c where r: "CheckCompatibility e rest s = (t, c)" by fastforce
    have step: "evolves e k s t" using 2(1) [OF True 2(2) \<open>rest \<noteq> []\<close>] r by simp
    show ?thesis
    proof (cases "compat_num c < compat_num CompatWithLessPlayers")
      case less: True
      then have "c \<noteq> CompatMatch" "c \<noteq> CompatBadStates" by auto
      with evolves_trans [OF step evolves_Set(1) [of c e k t "g # rest"]] less True r
      show ?thesis by (simp add: good_resultI)
    next
      case False
      with check_self_evolves [OF evolves_length [OF step 2(2)], of "g # rest" e] True r
        evolves_trans [OF step] show ?thesis by auto
    qed
  qed
qed

text \<open>A combination reported as a match is inside a proposal.\<close>

definition matched :: "nat \<Rightarrow> guid list \<Rightarrow> lfg_queue \<Rightarrow> bool" where
  "matched k check t \<longleftrightarrow> (\<exists>p \<in> set (drop k (addedProposals t)). set check \<subseteq> set (propQueues p))"

lemma FindNewGroups_evolves:
  assumes "k \<le> length (addedProposals s)" "check \<noteq> []"
  shows "FindNewGroups e check all s = (t, r, c) \<Longrightarrow>
      evolves e k s t \<and> (cache_ok e k s \<longrightarrow> c = CompatMatch \<longrightarrow> matched k check t)"
    and "c0 \<noteq> CompatMatch \<Longrightarrow> match_loop e check c0 all s = (t, r, c) \<Longrightarrow>
      evolves e k s t \<and> (cache_ok e k s \<longrightarrow> c = CompatMatch \<longrightarrow> matched k check t)"
  using assms
proof (induction e check all s and e check c0 all s arbitrary: t r c and t r c rule: FindNewGroups_match_loop.induct)
  case (1 e check all s)
  let ?key = "ConcatenateGuids check"
  obtain s1 c1 where r1: "(if GetCompatibles ?key s = CompatPending then CheckCompatibility e check s
      else (s, GetCompatibles ?key s)) = (s1, c1)" by fastforce
  have step: "evolves e k s s1"
    using r1 CheckCompatibility_evolves [OF 1(3,4), of e] by (auto split: if_splits)
  have good: "cache_ok e k s \<Longrightarrow> good_result e k check (s1, c1)"
  proof (cases "GetCompatibles ?key s = CompatPending")
    case True
    then show ?thesis using r1 CheckCompatibility_evolves [OF 1(3,4), of e] by simp
  next
    case False
    assume "cache_ok e k s"
    with False r1 show ?thesis unfolding cache_ok_def good_result_def by auto
  qed
  note k1 = evolves_length [OF step 1(3)]
  show ?case
  proof (cases "c1 = CompatBadStates \<and> AllQueued e check")
    case True
    then have res: "t = SetCompatibles ?key CompatMatch s1" "c = CompatMatch"
      using 1(2) r1 by (auto simp: FindNewGroups.simps [of e check all s] Let_def)
    have "\<not> cache_ok e k s" using good True by (auto simp: good_result_def)
    moreover from this have "evolves e k s t" using step by (simp add: evolves_def res)
    ultimately show ?thesis by simp
  next
    case not_cached: False
    show ?thesis
    proof (cases "c1 = CompatWithLessPlayers")
      case False
      then have "t = s1" "c = c1"
        using 1(2) r1 not_cached by (auto simp: FindNewGroups.simps [of e check all s] Let_def)
      with step good show ?thesis by (auto simp: good_result_def matched_def)
    next
      case True
      then have ml: "match_loop e check c1 all s1 = (t, r, c)"
        using 1(2) r1 not_cached by (auto simp: FindNewGroups.simps [of e check all s] Let_def)
      have "evolves e k s1 t \<and> (cache_ok e k s1 \<longrightarrow> c = CompatMatch \<longrightarrow> matched k check t)"
        using 1(1) [OF refl refl r1 [symmetric] not_cached _ _ ml k1 1(4)] True by simp
      with evolves_trans [OF step] evolves_cache [OF step] show ?thesis by blast
    qed
  qed
next
  case (2 e check c0 s)
  then show ?case by simp
next
  case (3 e check c0 x rest s)
  obtain s1 rest' sub where f: "FindNewGroups e (check @ [x]) rest s = (s1, rest', sub)"
    by (metis surj_pair)
  have sub: "evolves e k s s1" "cache_ok e k s \<Longrightarrow> sub = CompatMatch \<Longrightarrow> matched k (check @ [x]) s1"
    using 3(1) [OF f 3(5)] by simp_all
  show ?case
  proof (cases "sub = CompatMatch")
    case True
    then have "t = s1" "c = CompatMatch" using 3(4) by (simp_all add: match_loop_Cons f)
    with sub True show ?thesis by (auto simp: matched_def)
  next
    case False
    then have "match_loop e check c0 rest' s1 = (t, r, c)"
      using 3(4) unfolding match_loop_Cons f by (simp only: prod.case if_False)
    with 3(2) [OF f [symmetric] refl False _ 3(3) _ evolves_length [OF sub(1) 3(5)] 3(6)]
    have "evolves e k s1 t \<and> (cache_ok e k s1 \<longrightarrow> c = CompatMatch \<longrightarrow> matched k check t)"
      using FindNewGroups_shrinks(1) [of e "check @ [x]" rest s] by (simp add: f)
    with evolves_trans [OF sub(1)] evolves_cache [OF sub(1)] show ?thesis by blast
  qed
qed

lemma newcomer_evolves:
  assumes k: "k \<le> length (addedProposals s)"
    and find: "FindNewGroups e [g] (currentQueue s) (RemoveFromNewQueue g s) = (t, r, c)"
  shows "evolves e k s (if c = CompatMatch then t else AddToCurrentQueue g t)"
proof -
  let ?s1 = "RemoveFromNewQueue g s" and ?u = "if c = CompatMatch then t else AddToCurrentQueue g t"
  have s1: "wants ?s1 = wants s" "party ?s1 = party s" "has_data ?s1 = has_data s"
    "addedProposals ?s1 = addedProposals s" "cache_ok e k ?s1 = cache_ok e k s"
    "listed s h \<Longrightarrow> h = g \<or> listed ?s1 h" for h
    by (auto simp: RemoveFromNewQueue_def view_defs cache_ok_def GetCompatibles_def fun_eq_iff)
  have u: "wants ?u = wants t" "party ?u = party t" "has_data ?u = has_data t"
    "addedProposals ?u = addedProposals t" "cache_ok e k ?u = cache_ok e k t"
    "listed t h \<Longrightarrow> listed ?u h" "c \<noteq> CompatMatch \<Longrightarrow> listed ?u g" for h
    by (auto simp: AddToCurrentQueue_def view_defs cache_ok_def GetCompatibles_def fun_eq_iff)
  have ev: "evolves e k ?s1 t" and hit: "cache_ok e k s \<Longrightarrow> c = CompatMatch \<Longrightarrow> matched k [g] t"
    using FindNewGroups_evolves(1) [OF _ _ find] k s1 by simp_all
  have "listed ?u h \<or> \<not> has_data s h \<or> (\<exists>p \<in> set (drop k (addedProposals ?u)). h \<in> set (propQueues p))"
    if "cache_ok e k s" "listed s h" for h
  proof (cases "h = g")
    case True
    then show ?thesis using hit that(1) u(4,7) by (auto simp: matched_def)
  next
    case False
    with that have "listed ?s1 h" "cache_ok e k ?s1" using s1(5) s1(6) [of h] by simp_all
    with ev have "listed t h \<or> \<not> has_data ?s1 h \<or> (\<exists>p \<in> set (drop k (addedProposals t)). h \<in> set (propQueues p))"
      unfolding evolves_def by simp
    then show ?thesis using u(6) [of h] unfolding u(4) s1(3) by blast
  qed
  then have kept: "cache_ok e k s \<longrightarrow> (\<forall>h. listed s h \<longrightarrow> listed ?u h \<or> \<not> has_data s h
      \<or> (\<exists>p \<in> set (drop k (addedProposals t)). h \<in> set (propQueues p)))"
    unfolding u(4) by (intro impI allI)
  have rest: "wants t = wants s" "party t = party s" "\<forall>h. has_data s h \<longrightarrow> has_data t h"
    "\<exists>ps. addedProposals t = addedProposals s @ ps
       \<and> (setup_ok e (party s) \<longrightarrow> (\<forall>p \<in> set ps. proposal_sound e (wants s) (party s) p))"
    "cache_ok e k s \<longrightarrow> cache_ok e k t"
    using ev unfolding evolves_def s1(1-5) by simp_all
  show ?thesis unfolding evolves_def u(1-5) by (intro conjI rest kept)
qed

lemma find_groups_loop_evolves:
  "find_groups_loop e s n = (t, n') \<Longrightarrow> k \<le> length (addedProposals s) \<Longrightarrow>
     evolves e k s t \<and> newToQueue t = []"
proof (induction e s n arbitrary: t n' rule: find_groups_loop.induct)
  case (1 e s n)
  show ?case
  proof (cases "newToQueue s = []")
    case True
    then show ?thesis using 1(3) by (subst (asm) find_groups_loop.simps) simp
  next
    case False
    let ?g = "hd (newToQueue s)"
    let ?s1 = "RemoveFromNewQueue ?g s"
    obtain s2 r c where find: "FindNewGroups e [?g] (currentQueue s) ?s1 = (s2, r, c)" by (metis surj_pair)
    have find1: "FindNewGroups e [?g] (currentQueue ?s1) ?s1 = (s2, r, c)"
      using find by (simp add: RemoveFromNewQueue_def)
    note step = newcomer_evolves [OF 1(4) find]
    show ?thesis
    proof (cases "c = CompatMatch")
      case True
      have "find_groups_loop e s2 (n + 1) = (t, n')"
        using 1(3) False find1 True by (subst (asm) find_groups_loop.simps) (simp add: Let_def)
      from 1(1) [OF False refl refl refl find1 [symmetric] refl True this] step True
      show ?thesis using evolves_length [OF _ 1(4)] evolves_trans by (metis (full_types))
    next
      case no: False
      have "find_groups_loop e (AddToCurrentQueue ?g s2) n = (t, n')"
        using 1(3) False find1 no by (subst (asm) find_groups_loop.simps) (simp add: Let_def)
      from 1(2) [OF False refl refl refl find1 [symmetric] refl no this] step no
      show ?thesis using evolves_length [OF _ 1(4)] evolves_trans by (metis (full_types))
    qed
  qed
qed

section \<open>Properties\<close>

text \<open>
  C12: everything \<^verbatim>\<open>FindGroups\<close> proposes is sound. Each new proposal is for a dungeon that every
  one of its entries asked for and that exists, has exactly as many players as the dungeon takes,
  all entries queued, and a leader among the players, who volunteered if anybody did. If it joins
  several entries, no two of its players ignore each other, each plays a role it chose in an entry
  of the proposal, and tanks, healers and damage dealers are exactly those the dungeon needs; and
  every player of every entry is in it, unless an LFG group comes before the last entry.
\<close>

theorem FindGroups_proposals_sound:
  assumes "FindGroups e s = (s', n)" and "setup_ok e (party s)"
  shows "\<exists>ps. addedProposals s' = addedProposals s @ ps \<and> (\<forall>p \<in> set ps. proposal_sound e (wants s) (party s) p)"
proof -
  have "evolves e 0 s s'" using assms(1) find_groups_loop_evolves [of e s 0 s' n 0] by (simp add: FindGroups_def)
  with assms(2) show ?thesis by (auto simp: evolves_def)
qed

text \<open>
  C26: the search loses nobody. \<^verbatim>\<open>FindGroups\<close> returns with no newcomer left, and every listed entry
  that has queue data is afterwards in the current queue or in a proposal of this run. (Before
  the run the cache must hold no match, and \<open>bad states\<close> only for combinations that are not all
  queued: otherwise the cached verdict is returned as a match without a proposal.)
\<close>

theorem FindGroups_loses_nobody:
  assumes "FindGroups e s = (s', n)" and "cache_ok e (length (addedProposals s)) s"
  shows "newToQueue s' = [] \<and> (\<forall>g. listed s g \<and> has_data s g \<longrightarrow> g \<in> set (currentQueue s') \<or>
    (\<exists>p \<in> set (drop (length (addedProposals s)) (addedProposals s')). g \<in> set (propQueues p)))"
proof -
  have "evolves e (length (addedProposals s)) s s'" "newToQueue s' = []"
    using assms(1) find_groups_loop_evolves [of e s 0 s' n "length (addedProposals s)"]
    by (simp_all add: FindGroups_def)
  with assms(2) show ?thesis by (auto simp: evolves_def listed_def)
qed

text \<open>The outer loop with a bound on its rounds; \<open>None\<close> when the bound is not enough.\<close>

fun find_groups_rounds :: "nat \<Rightarrow> lfg_env \<Rightarrow> lfg_queue \<Rightarrow> u8 \<Rightarrow> (lfg_queue \<times> u8) option" where
  "find_groups_rounds rounds e s n =
     (if newToQueue s = [] then Some (s, n)
      else case rounds of 0 \<Rightarrow> None
      | Suc r \<Rightarrow>
        (case FindNewGroups e [hd (newToQueue s)] (currentQueue s) (RemoveFromNewQueue (hd (newToQueue s)) s) of
           (t, rest, c) \<Rightarrow>
             if c = CompatMatch then find_groups_rounds r e t (n + 1)
             else find_groups_rounds r e (AddToCurrentQueue (hd (newToQueue s)) t) n))"

declare find_groups_rounds.simps [simp del] find_groups_loop.simps [simp del]

lemma find_groups_rounds_enough:
  "length (newToQueue s) \<le> rounds \<Longrightarrow> find_groups_rounds rounds e s n = Some (find_groups_loop e s n)"
proof (induction rounds arbitrary: s n)
  case 0
  then show ?case by (simp add: find_groups_rounds.simps [of 0 e s n] find_groups_loop.simps [of e s n])
next
  case (Suc r)
  show ?case
  proof (cases "newToQueue s = []")
    case True
    then show ?thesis by (simp add: find_groups_rounds.simps [of "Suc r" e s n] find_groups_loop.simps [of e s n])
  next
    case False
    let ?g = "hd (newToQueue s)"
    obtain t rest c where f: "FindNewGroups e [?g] (currentQueue s) (RemoveFromNewQueue ?g s) = (t, rest, c)"
      by (metis surj_pair)
    have cur: "currentQueue (RemoveFromNewQueue ?g s) = currentQueue s" by (simp add: RemoveFromNewQueue_def)
    have "length (newToQueue t) \<le> r"
      using FindNewGroups_new(1) [of e "[?g]" "currentQueue s" "RemoveFromNewQueue ?g s"] f
        RemoveFromNewQueue_less [OF False] Suc.prems by simp
    then have "find_groups_rounds r e t (n + 1) = Some (find_groups_loop e t (n + 1))"
      "find_groups_rounds r e (AddToCurrentQueue ?g t) n = Some (find_groups_loop e (AddToCurrentQueue ?g t) n)"
      by (simp_all add: Suc.IH AddToCurrentQueue_def)
    then show ?thesis
      using False f by (simp add: find_groups_rounds.simps [of "Suc r" e s n] find_groups_loop.simps [of e s n] cur Let_def)
  qed
qed

text \<open>
  C27: \<^verbatim>\<open>FindGroups\<close> terminates, although each round may call the nested search, add the newcomer
  to another list and remove entries: as many rounds as there are newcomers are enough.
\<close>

theorem FindGroups_terminates:
  "find_groups_rounds (length (newToQueue s)) e s 0 = Some (FindGroups e s)"
  unfolding FindGroups_def by (rule find_groups_rounds_enough) simp

lemma UpdateBest_key: "bestCompatible (UpdateBestCompatible e key roles q) \<in> {bestCompatible q, key}"
proof -
  have "bestCompatible (foldl (\<lambda>q (g :: guid, role :: u8). if role AND ROLE_TANK \<noteq> 0 then q\<lparr>tanksNeeded := tanksNeeded q - 1\<rparr>
            else if role AND ROLE_HEALER \<noteq> 0 then q\<lparr>healersNeeded := healersNeeded q - 1\<rparr>
            else q\<lparr>dpsNeeded := dpsNeeded q - 1\<rparr>) q roles) = bestCompatible q" for q :: queue_data
    by (induction roles arbitrary: q) (auto split: prod.split)
  moreover have "bestCompatible (InitializeGroupSetup e q) = bestCompatible q" for q
    by (simp add: InitializeGroupSetup_def Let_def split: list.split option.split)
  ultimately show ?thesis by (simp add: UpdateBestCompatible_def Let_def)
qed

lemma FindBest_key: "bestCompatible (FindBestCompatible e cache g q) \<in> insert (bestCompatible q) (fst ` set cache)"
  unfolding FindBestCompatible_def
proof (induction cache arbitrary: q)
  case (Cons x cache)
  obtain key c where x: "x = (key, c)" by fastforce
  show ?case using Cons [of q] Cons [of "UpdateBestCompatible e key (compatRoles c) q"]
      UpdateBest_key [of e key "compatRoles c" q] by (auto simp: x)
qed simp

lemma contains_append: "contains (a @ t @ b) t"
proof (induction a)
  case Nil
  show ?case by (cases t) (auto, cases b, auto)
qed simp

lemma join_bar_contains: "s \<in> set ss \<Longrightarrow> \<exists>a b. join_bar ss = a @ s @ b"
proof (induction ss rule: join_bar.induct)
  case (2 t)
  then show ?case by (intro exI [of _ "[]"]) simp
next
  case (3 s' t ss)
  show ?case
  proof (cases "s = s'")
    case True
    then show ?thesis by (intro exI [of _ "[]"] exI) simp
  next
    case False
    with 3 obtain a b where "join_bar (t # ss) = a @ s @ b" by auto
    then show ?thesis by (intro exI [of _ "s' @ ''|'' @ a"] exI [of _ b]) simp
  qed
qed simp

lemma Concatenate_contains: "g \<in> set check \<Longrightarrow> contains (ConcatenateGuids check) (guid_string g)"
proof -
  assume "g \<in> set check"
  then have "guid_string g \<in> set (map guid_string (sort (remdups check)))" by simp
  from join_bar_contains [OF this] obtain a b where
    "join_bar (map guid_string (sort (remdups check))) = a @ guid_string g @ b" by blast
  then show ?thesis using contains_append by (auto simp: ConcatenateGuids_def)
qed

lemma UpdateBest_keeps:
  "joinTime (UpdateBestCompatible e key roles q) = joinTime q \<and> queueDungeons (UpdateBestCompatible e key roles q) = queueDungeons q
   \<and> queueRoles (UpdateBestCompatible e key roles q) = queueRoles q"
proof -
  let ?f = "\<lambda>q (g :: guid, role :: u8). if role AND ROLE_TANK \<noteq> 0 then q\<lparr>tanksNeeded := tanksNeeded q - 1\<rparr>
            else if role AND ROLE_HEALER \<noteq> 0 then q\<lparr>healersNeeded := healersNeeded q - 1\<rparr>
            else q\<lparr>dpsNeeded := dpsNeeded q - 1\<rparr>"
  have "joinTime (foldl ?f q roles) = joinTime q \<and> queueDungeons (foldl ?f q roles) = queueDungeons q
      \<and> queueRoles (foldl ?f q roles) = queueRoles q" for q :: queue_data
    by (induction roles arbitrary: q) (auto split: prod.split)
  moreover have "joinTime (InitializeGroupSetup e q) = joinTime q \<and> queueDungeons (InitializeGroupSetup e q) = queueDungeons q
      \<and> queueRoles (InitializeGroupSetup e q) = queueRoles q" for q
    by (simp add: InitializeGroupSetup_def Let_def split: list.split option.split)
  ultimately show ?thesis by (simp add: UpdateBestCompatible_def Let_def)
qed

lemma FindBest_keeps:
  "joinTime (FindBestCompatible e cache g q) = joinTime q \<and> queueDungeons (FindBestCompatible e cache g q) = queueDungeons q
   \<and> queueRoles (FindBestCompatible e cache g q) = queueRoles q"
  unfolding FindBestCompatible_def
  by (induction cache arbitrary: q) (auto simp: UpdateBest_keeps split: prod.split)

text \<open>
  C28: leaving the queue leaves no trace, and disturbs nobody else. After \<^verbatim>\<open>RemoveFromQueue\<close> the guid
  is in no list and has no data, no combination with it is cached, and nobody's best combination
  names it. The others stay in the list they were in, in the same order; each keeps its data with its
  join time, dungeons and roles, and keeps all of it unless its best combination named the one who
  left; and what is cached under a key that does not contain the digits of the guid stays cached.
\<close>

theorem RemoveFromQueue_forgets:
  shows "newToQueue (RemoveFromQueue e g s) = filter (\<lambda>h. h \<noteq> g) (newToQueue s) \<and>
    currentQueue (RemoveFromQueue e g s) = filter (\<lambda>h. h \<noteq> g) (currentQueue s) \<and>
    om_get (QueueDataStore (RemoveFromQueue e g s)) g = None \<and>
    (\<forall>check. g \<in> set check \<longrightarrow> GetCompatibles (ConcatenateGuids check) (RemoveFromQueue e g s) = CompatPending) \<and>
    (\<forall>h q. om_get (QueueDataStore (RemoveFromQueue e g s)) h = Some q \<longrightarrow> \<not> contains (bestCompatible q) (guid_string g)) \<and>
    (\<forall>h. h \<noteq> g \<longrightarrow> (case om_get (QueueDataStore s) h of
        None \<Rightarrow> om_get (QueueDataStore (RemoveFromQueue e g s)) h = None
      | Some q \<Rightarrow> (\<exists>q'. om_get (QueueDataStore (RemoveFromQueue e g s)) h = Some q' \<and> joinTime q' = joinTime q \<and>
          queueDungeons q' = queueDungeons q \<and> queueRoles q' = queueRoles q \<and>
          (\<not> contains (bestCompatible q) (guid_string g) \<longrightarrow> q' = q)))) \<and>
    (\<forall>key. \<not> contains key (guid_string g) \<longrightarrow> GetCompatibles key (RemoveFromQueue e g s) = GetCompatibles key s)"
proof -
  have "\<not> contains (bestCompatible q) (guid_string g)"
    if q: "om_get (QueueDataStore (RemoveFromQueue e g s)) h = Some q" for h q
  proof -
    obtain q0 where h: "h \<noteq> g" "om_get (QueueDataStore s) h = Some q0"
      "q = (if contains (bestCompatible q0) (guid_string g)
        then FindBestCompatible e (CompatibleMapStore (RemoveFromCompatibles g s)) h (q0\<lparr>bestCompatible := []\<rparr>) else q0)"
      using q unfolding RemoveFromQueue_view(1) by (cases "h = g") auto
    have none: "\<not> contains [] (guid_string g)" by simp
    show ?thesis
    proof (cases "contains (bestCompatible q0) (guid_string g)")
      case True
      then have "bestCompatible q = [] \<or> bestCompatible q \<in> fst ` set (CompatibleMapStore (RemoveFromCompatibles g s))"
        using h(3) FindBest_key [of e "CompatibleMapStore (RemoveFromCompatibles g s)" h "q0\<lparr>bestCompatible := []\<rparr>"] by simp
      then show ?thesis using none by (auto simp: RemoveFromCompatibles_def)
    qed (use h in simp)
  qed
  moreover have "case om_get (QueueDataStore s) h of
        None \<Rightarrow> om_get (QueueDataStore (RemoveFromQueue e g s)) h = None
      | Some q \<Rightarrow> (\<exists>q'. om_get (QueueDataStore (RemoveFromQueue e g s)) h = Some q' \<and> joinTime q' = joinTime q \<and>
          queueDungeons q' = queueDungeons q \<and> queueRoles q' = queueRoles q \<and>
          (\<not> contains (bestCompatible q) (guid_string g) \<longrightarrow> q' = q))" if "h \<noteq> g" for h
    using that by (cases "om_get (QueueDataStore s) h") (simp_all add: RemoveFromQueue_view(1) FindBest_keeps)
  moreover have "om_get (QueueDataStore (RemoveFromQueue e g s)) g = None" by (simp add: RemoveFromQueue_view(1))
  moreover have "newToQueue (RemoveFromQueue e g s) = filter (\<lambda>h. h \<noteq> g) (newToQueue s)"
    "currentQueue (RemoveFromQueue e g s) = filter (\<lambda>h. h \<noteq> g) (currentQueue s)"
    by (simp_all add: RemoveFromQueue_view(3,4) removeAll_filter_not_eq eq_commute)
  moreover have "g \<in> set check \<Longrightarrow> GetCompatibles (ConcatenateGuids check) (RemoveFromQueue e g s) = CompatPending" for check
    using Concatenate_contains by (simp add: RemoveFromQueue_view(2))
  moreover have "\<not> contains key (guid_string g) \<Longrightarrow>
      GetCompatibles key (RemoveFromQueue e g s) = GetCompatibles key s" for key by (simp add: RemoveFromQueue_view(2))
  ultimately show ?thesis by blast
qed

section \<open>A small queue\<close>

text \<open>A tank, a healer and a damage dealer who join for a dungeon of three.\<close>

definition three_env :: lfg_env where
  "three_env = \<lparr>le_dungeon = [7 \<mapsto> \<lparr>requiredTanks = 1, requiredHealers = 1, requiredDamageDealers = 1\<rparr>],
     le_queued = (\<lambda>g. True), le_is_group = (\<lambda>g. False), le_lfg_group = (\<lambda>g. False),
     le_old_dungeon = (\<lambda>g. False), le_connected = (\<lambda>g. True), le_ignores = (\<lambda>a b. False),
     le_draw = (\<lambda>ds. 0), le_coin = (\<lambda>g. False), le_now = 100\<rparr>"

definition three_queue :: lfg_queue where
  "three_queue = AddQueueData three_env 3 90 [7] [(3, 9)]
     (AddQueueData three_env 2 80 [7] [(2, 6)] (AddQueueData three_env 1 70 [7] [(1, 2)] LFGQueue_init))"

lemma three_views:
  "newToQueue three_queue = [1, 2, 3]" "currentQueue three_queue = []" "addedProposals three_queue = []"
  "CompatibleMapStore three_queue = []"
  "party three_queue g = (if g = 1 then [(1, 2)] else if g = 2 then [(2, 6)] else if g = 3 then [(3, 9)] else [])"
  "has_data three_queue g \<longleftrightarrow> g \<in> {1, 2, 3}"
  by (auto simp: three_queue_def AddQueueData_def AddToQueue_def LFGQueue_init_def party_def has_data_def
      new_queue_data_def om_get_Cons)

lemma three_setup: "setup_ok three_env (party three_queue)"
  by (auto simp: setup_ok_def three_views three_env_def om_ok_def GetMaxGroupSize_def)

lemma three_cache: "cache_ok three_env 0 three_queue"
  by (simp add: cache_ok_def GetCompatibles_def three_views)

theorem FindGroups_proposals_sound_witness:
  "\<exists>p. addedProposals (fst (FindGroups three_env three_queue)) = [p] \<and> propLeader p = 3 \<and>
     proposal_sound three_env (wants three_queue) (party three_queue) p"
proof -
  obtain s' n where run: "FindGroups three_env three_queue = (s', n)" by fastforce
  have "length (addedProposals (fst (FindGroups three_env three_queue))) = 1 \<and>
    propLeader (hd (addedProposals (fst (FindGroups three_env three_queue)))) = 3" by code_simp
  then obtain p where p: "addedProposals s' = [p]" "propLeader p = 3" by (auto simp: run length_Suc_conv)
  with FindGroups_proposals_sound [OF run three_setup]
  have "proposal_sound three_env (wants three_queue) (party three_queue) p" by (auto simp: three_views)
  with p show ?thesis by (simp add: run)
qed

theorem FindGroups_loses_nobody_witness:
  "newToQueue (fst (FindGroups three_env three_queue)) = [] \<and>
   (\<exists>p \<in> set (addedProposals (fst (FindGroups three_env three_queue))). 2 \<in> set (propQueues p))"
proof -
  obtain s' n where run: "FindGroups three_env three_queue = (s', n)" by fastforce
  have "currentQueue (fst (FindGroups three_env three_queue)) = []" by code_simp
  moreover have "listed three_queue 2 \<and> has_data three_queue 2" by (simp add: listed_def three_views)
  ultimately show ?thesis using FindGroups_loses_nobody [OF run] three_cache by (auto simp: run three_views)
qed

theorem RemoveFromQueue_forgets_witness:
  "newToQueue (RemoveFromQueue three_env 2 three_queue) = [1, 3] \<and>
   (\<exists>q. om_get (QueueDataStore (RemoveFromQueue three_env 2 three_queue)) 3 = Some q \<and> queueRoles q = [(3, 9)]) \<and>
   GetCompatibles ''1|2'' (RemoveFromQueue three_env 2 three_queue) = CompatPending"
proof -
  have key: "ConcatenateGuids [2, 1] = ''1|2''" by code_simp
  obtain q where q: "om_get (QueueDataStore three_queue) 3 = Some q" "queueRoles q = [(3, 9)]"
    by (simp add: three_queue_def AddQueueData_def AddToQueue_def LFGQueue_init_def new_queue_data_def om_get_Cons)
  have "case om_get (QueueDataStore three_queue) 3 of
        None \<Rightarrow> om_get (QueueDataStore (RemoveFromQueue three_env 2 three_queue)) 3 = None
      | Some q \<Rightarrow> (\<exists>q'. om_get (QueueDataStore (RemoveFromQueue three_env 2 three_queue)) 3 = Some q' \<and> joinTime q' = joinTime q \<and>
          queueDungeons q' = queueDungeons q \<and> queueRoles q' = queueRoles q \<and>
          (\<not> contains (bestCompatible q) (guid_string 2) \<longrightarrow> q' = q))"
    using RemoveFromQueue_forgets [of three_env 2 three_queue] by simp
  with q have data: "\<exists>q. om_get (QueueDataStore (RemoveFromQueue three_env 2 three_queue)) 3 = Some q \<and> queueRoles q = [(3, 9)]"
    by auto
  have "newToQueue (RemoveFromQueue three_env 2 three_queue) = [1, 3]"
    using RemoveFromQueue_forgets [of three_env 2 three_queue] by (simp add: three_views)
  moreover have "GetCompatibles ''1|2'' (RemoveFromQueue three_env 2 three_queue) = CompatPending"
    using RemoveFromQueue_forgets [of three_env 2 three_queue] unfolding key [symmetric] by auto
  ultimately show ?thesis using data by blast
qed

end
