(* ===== verification/Lfg_Manager.thy ===== *)
theory Lfg_Manager
  imports Lfg_Matching "HOL-Library.Signed_Division"
begin

text \<open>
  The dungeon finder's manager, \<^verbatim>\<open>server/game/DungeonFinding/LFGMgr.{h,cpp}\<close> with
  \<^verbatim>\<open>LFGPlayerData\<close> and \<^verbatim>\<open>LFGGroupData\<close>: the states of players and groups, role checks, proposals,
  kick votes, and one queue of \<open>Lfg_Queue\<close> for each team.  This theory holds the data, role checks,
  proposals and leaving; \<open>Lfg_Manager_Ops\<close> the rest.

  Two of the stores, \<^verbatim>\<open>PlayersStore\<close> and \<^verbatim>\<open>GroupsStore\<close>, are total functions: the code reads them
  with \<^verbatim>\<open>operator[]\<close>, which makes a missing entry with the default constructor.  Messages to
  clients and calls of the group and player code are written to \<open>lw_log\<close>.  What the manager asks
  of players, groups and client data tables, and the clock, is the argument \<open>e\<close>.
\<close>

section \<open>Players and groups\<close>

datatype lfg_state = LFG_STATE_NONE | LFG_STATE_ROLECHECK | LFG_STATE_QUEUED | LFG_STATE_PROPOSAL
  | LFG_STATE_DUNGEON | LFG_STATE_FINISHED_DUNGEON | LFG_STATE_RAIDBROWSER

datatype ride_type = RideNone | RideBattlegrounds | RideLfg

record ride_ticket =
  tk_time :: i32
  tk_type :: ride_type
  tk_id :: u32
  tk_requester :: guid

definition RideTicket_init :: ride_ticket where
  "RideTicket_init = \<lparr>tk_time = 0, tk_type = RideNone, tk_id = 0, tk_requester = 0\<rparr>"

record player_data =
  pd_State :: lfg_state
  pd_OldState :: lfg_state
  pd_Team :: u8
  pd_Group :: guid
  pd_Roles :: u8
  pd_Comment :: string
  pd_Dungeons :: "u32 list" \<comment> \<open>a set, in order\<close>
  pd_Ticket :: ride_ticket
  pd_Shortage :: bool

definition LfgPlayerData_init :: player_data where
  "LfgPlayerData_init = \<lparr>pd_State = LFG_STATE_NONE, pd_OldState = LFG_STATE_NONE, pd_Team = 0,
     pd_Group = 0, pd_Roles = 0, pd_Comment = [], pd_Dungeons = [], pd_Ticket = RideTicket_init,
     pd_Shortage = False\<rparr>"

definition Player_SetState :: "lfg_state \<Rightarrow> player_data \<Rightarrow> player_data" where
  "Player_SetState state d =
     (let d1 = (if state = LFG_STATE_NONE \<or> state = LFG_STATE_FINISHED_DUNGEON
                then d\<lparr>pd_Roles := 0, pd_Dungeons := [], pd_Comment := []\<rparr> else d);
          d2 = (if state = LFG_STATE_NONE \<or> state = LFG_STATE_FINISHED_DUNGEON \<or> state = LFG_STATE_DUNGEON
                then d1\<lparr>pd_OldState := state\<rparr> else d1)
      in d2\<lparr>pd_State := state\<rparr>)"

definition Player_RestoreState :: "player_data \<Rightarrow> player_data" where
  "Player_RestoreState d =
     (let d1 = (if pd_OldState d = LFG_STATE_NONE then d\<lparr>pd_Dungeons := [], pd_Roles := 0\<rparr> else d)
      in d1\<lparr>pd_State := pd_OldState d1\<rparr>)"

record lfg_group_data =
  gd_State :: lfg_state
  gd_OldState :: lfg_state
  gd_Leader :: guid
  gd_Players :: "guid list" \<comment> \<open>a set, in order\<close>
  gd_Dungeon :: u32
  gd_KicksLeft :: u8
  gd_VoteKick :: bool

definition LFG_GROUP_MAX_KICKS :: u8 where "LFG_GROUP_MAX_KICKS = 3"

definition LfgGroupData_init :: lfg_group_data where
  "LfgGroupData_init = \<lparr>gd_State = LFG_STATE_NONE, gd_OldState = LFG_STATE_NONE, gd_Leader = 0,
     gd_Players = [], gd_Dungeon = 0, gd_KicksLeft = LFG_GROUP_MAX_KICKS, gd_VoteKick = False\<rparr>"

definition Group_SetState :: "lfg_state \<Rightarrow> lfg_group_data \<Rightarrow> lfg_group_data" where
  "Group_SetState state d =
     (let d1 = (if state = LFG_STATE_NONE
                then d\<lparr>gd_Dungeon := 0, gd_KicksLeft := LFG_GROUP_MAX_KICKS\<rparr> else d);
          d2 = (if state = LFG_STATE_NONE \<or> state = LFG_STATE_FINISHED_DUNGEON \<or> state = LFG_STATE_DUNGEON
                then d1\<lparr>gd_OldState := state\<rparr> else d1)
      in d2\<lparr>gd_State := state\<rparr>)"

definition Group_RestoreState :: "lfg_group_data \<Rightarrow> lfg_group_data" where
  "Group_RestoreState d = d\<lparr>gd_State := gd_OldState d\<rparr>"

definition Group_AddPlayer :: "guid \<Rightarrow> lfg_group_data \<Rightarrow> lfg_group_data" where
  "Group_AddPlayer g d = d\<lparr>gd_Players := insort_insert g (gd_Players d)\<rparr>"

definition Group_RemovePlayer :: "guid \<Rightarrow> lfg_group_data \<Rightarrow> lfg_group_data" where
  "Group_RemovePlayer g d = d\<lparr>gd_Players := removeAll g (gd_Players d)\<rparr>"

definition Group_DecreaseKicksLeft :: "lfg_group_data \<Rightarrow> lfg_group_data" where
  "Group_DecreaseKicksLeft d = (if gd_KicksLeft d \<noteq> 0 then d\<lparr>gd_KicksLeft := gd_KicksLeft d - 1\<rparr> else d)"

definition Group_GetDungeon :: "bool \<Rightarrow> lfg_group_data \<Rightarrow> u32" where
  "Group_GetDungeon asId d = (if asId then gd_Dungeon d AND 0x00FFFFFF else gd_Dungeon d)"

section \<open>Role checks, proposals, votes\<close>

datatype rolecheck_state = LFG_ROLECHECK_DEFAULT | LFG_ROLECHECK_FINISHED | LFG_ROLECHECK_INITIALITING
  | LFG_ROLECHECK_MISSING_ROLE | LFG_ROLECHECK_WRONG_ROLES | LFG_ROLECHECK_ABORTED | LFG_ROLECHECK_NO_ROLE

record role_check =
  rc_cancelTime :: int
  rc_roles :: roles_map
  rc_state :: rolecheck_state
  rc_dungeons :: "u32 list"
  rc_rDungeonId :: u32
  rc_leader :: guid

datatype lfg_answer = LFG_ANSWER_PENDING | LFG_ANSWER_DENY | LFG_ANSWER_AGREE

datatype proposal_state = LFG_PROPOSAL_INITIATING | LFG_PROPOSAL_FAILED | LFG_PROPOSAL_SUCCESS

record lfg_player =
  lp_role :: u8
  lp_accept :: lfg_answer
  lp_group :: guid

record lfg_proposal =
  lp_dungeonId :: u32
  lp_state :: proposal_state
  lp_groupGuid :: guid
  lp_leader :: guid
  lp_cancelTime :: int
  lp_isNew :: bool
  lp_queues :: "guid list"
  lp_players :: "(guid, lfg_player) omap"

text \<open>A proposal as the queue hands it over (\<open>proposal\<close> of \<open>Lfg_Queue\<close>).\<close>

definition of_queue :: "proposal \<Rightarrow> lfg_proposal" where
  "of_queue p = \<lparr>lp_dungeonId = propDungeon p, lp_state = LFG_PROPOSAL_INITIATING,
     lp_groupGuid = propGroupGuid p, lp_leader = propLeader p, lp_cancelTime = propCancel p,
     lp_isNew = propIsNew p, lp_queues = propQueues p,
     lp_players = map (\<lambda>(g, d). (g, \<lparr>lp_role = propRole d,
        lp_accept = (if propAgreed d then LFG_ANSWER_AGREE else LFG_ANSWER_PENDING),
        lp_group = propGroup d\<rparr>)) (propPlayers p)\<rparr>"

record player_boot =
  pb_cancelTime :: int
  pb_inProgress :: bool
  pb_votes :: "(guid, lfg_answer) omap"
  pb_victim :: guid
  pb_reason :: string

definition LFG_TIME_ROLECHECK :: int where "LFG_TIME_ROLECHECK = 45 * 1000"
definition LFG_TIME_BOOT :: int where "LFG_TIME_BOOT = 120"
definition LFG_QUEUEUPDATE_INTERVAL :: u32 where "LFG_QUEUEUPDATE_INTERVAL = 15 * 1000"
definition LFG_GROUP_KICK_VOTES_NEEDED :: u8 where "LFG_GROUP_KICK_VOTES_NEEDED = 4"
definition LFR_GROUP_KICK_VOTES_NEEDED :: u8 where "LFR_GROUP_KICK_VOTES_NEEDED = 15"

section \<open>The world of the manager\<close>

datatype update_type = LFG_UPDATETYPE_DEFAULT | LFG_UPDATETYPE_LEADER_UNK1 | LFG_UPDATETYPE_LEAVE_RAIDBROWSER
  | LFG_UPDATETYPE_JOIN_RAIDBROWSER | LFG_UPDATETYPE_ROLECHECK_ABORTED | LFG_UPDATETYPE_JOIN_QUEUE
  | LFG_UPDATETYPE_ROLECHECK_FAILED | LFG_UPDATETYPE_REMOVED_FROM_QUEUE | LFG_UPDATETYPE_PROPOSAL_FAILED
  | LFG_UPDATETYPE_PROPOSAL_DECLINED | LFG_UPDATETYPE_GROUP_FOUND | LFG_UPDATETYPE_ADDED_TO_QUEUE
  | LFG_UPDATETYPE_PROPOSAL_BEGIN | LFG_UPDATETYPE_UPDATE_STATUS | LFG_UPDATETYPE_GROUP_MEMBER_OFFLINE
  | LFG_UPDATETYPE_GROUP_DISBAND_UNK16 | LFG_UPDATETYPE_JOIN_QUEUE_INITIAL | LFG_UPDATETYPE_DUNGEON_FINISHED
  | LFG_UPDATETYPE_PARTY_ROLE_NOT_AVAILABLE | LFG_UPDATETYPE_JOIN_LFG_OBJECT_FAILED

datatype join_result = LFG_JOIN_OK | LFG_JOIN_FAILED | LFG_JOIN_GROUPFULL | LFG_JOIN_INTERNAL_ERROR
  | LFG_JOIN_NOT_MEET_REQS | LFG_JOIN_MIXED_RAID_DUNGEON | LFG_JOIN_MULTI_REALM | LFG_JOIN_DISCONNECTED
  | LFG_JOIN_PARTY_INFO_FAILED | LFG_JOIN_DUNGEON_INVALID | LFG_JOIN_DESERTER
  | LFG_JOIN_PARTY_DESERTER | LFG_JOIN_RANDOM_COOLDOWN | LFG_JOIN_PARTY_RANDOM_COOLDOWN
  | LFG_JOIN_TOO_MUCH_MEMBERS | LFG_JOIN_USING_BG_SYSTEM | LFG_JOIN_ROLE_CHECK_FAILED

type_synonym lock_map = "(guid, (u32, u32) omap) omap" \<comment> \<open>player, dungeon, \<^verbatim>\<open>lockStatus\<close>\<close>

datatype lfg_call =
    SendUpdateStatus guid update_type "u32 list" string bool
  | SendJoinResult guid join_result rolecheck_state lock_map
  | SendRoleChosen guid guid u8
  | SendRoleCheckUpdate guid role_check
  | SendBootUpdate guid player_boot
  | SendProposalUpdate guid lfg_proposal
  | SendQueueStatus guid queue_status
  | SendOfferContinue guid u32
  | SendPlayerReward guid u32 u32 bool u32 u32
  | CallCreateGroup guid guid bool \<comment> \<open>the new group, its leader, raid or party\<close>
  | CallAddMember guid guid
  | CallRemoveMember guid guid
  | CallSetLfgRoles guid guid u8
  | CallSetDifficulty guid u8
  | CallSendUpdate guid
  | CallCastCooldown guid
  | CallCastDeserter guid
  | CallRemoveCooldown guid
  | CallTeleport guid bool
  | CallKickFromGroup guid guid
  | CallAchievement guid
  | CallSetRewardStatus guid u32 bool
  | CallRewardQuest guid u32
  | CallLuck guid bool \<comment> \<open>the aura of the random dungeon: cast or removed\<close>
  | CallHomebind guid
  | CallDisband guid

datatype remove_method = GROUP_REMOVEMETHOD_DEFAULT | GROUP_REMOVEMETHOD_KICK
  | GROUP_REMOVEMETHOD_LEAVE | GROUP_REMOVEMETHOD_KICK_LFG

text \<open>What the group code calls back (\<^verbatim>\<open>LFGGroupScript\<close>), with what the hook reads of the group.\<close>

datatype group_hook =
    HookAddMember guid guid guid \<comment> \<open>group, its leader, new member\<close>
  | HookRemoveMember guid bool guid remove_method guid string \<comment> \<open>group, is it an LFG group, member, method, kicker, reason\<close>
  | HookDisband guid
  | HookChangeLeader guid guid
  | HookInviteMember guid guid \<comment> \<open>group, its leader\<close>

definition LFG_TYPE_NONE :: u8 where "LFG_TYPE_NONE = 0"
definition LFG_TYPE_DUNGEON :: u8 where "LFG_TYPE_DUNGEON = 1"
definition LFG_TYPE_RAID :: u8 where "LFG_TYPE_RAID = 2"
definition LFG_TYPE_HEROIC :: u8 where "LFG_TYPE_HEROIC = 5"
definition LFG_TYPE_RANDOM :: u8 where "LFG_TYPE_RANDOM = 6"

record dungeon_info =
  di_id :: u32
  di_type :: u8
  di_raid :: bool \<comment> \<open>\<^verbatim>\<open>IsRaid()\<close>\<close>
  di_map :: u32
  di_group :: u8
  di_difficulty :: u8
  di_seasonal :: bool

definition Entry :: "dungeon_info \<Rightarrow> u32" where
  "Entry d = di_id d + push_bit 24 (ucast (di_type d))"

record lfg_reward =
  rw_maxLevel :: u32
  rw_firstQuest :: u32
  rw_otherQuest :: u32
  rw_shortageQuest :: u32
  rw_completions :: u8
  rw_daily :: bool

record finish_facts =
  ff_in_world :: bool
  ff_same_map :: bool
  ff_map_id :: u32
  ff_level :: u8
  ff_can_reward :: "u32 \<Rightarrow> bool"
  ff_satisfies :: "u32 \<Rightarrow> u8 \<Rightarrow> bool"

record mgr_env =
  me_now :: int
  me_dungeon :: "u32 \<rightharpoonup> lfg_dungeon"
  me_info :: "u32 \<Rightarrow> dungeon_info"
  me_cached :: "u8 \<Rightarrow> u32 list" \<comment> \<open>\<^verbatim>\<open>CachedDungeonMapStore\<close>\<close>
  me_store :: "(u32 \<times> u8) list" \<comment> \<open>\<^verbatim>\<open>sLFGDungeonStore\<close>, ids with \<^verbatim>\<open>TypeID\<close>, in order\<close>
  me_rewards :: "u32 \<Rightarrow> lfg_reward list" \<comment> \<open>\<^verbatim>\<open>RewardMapStore.equal_range\<close>\<close>
  me_quest :: "u32 \<Rightarrow> bool"
  me_connected :: "guid \<Rightarrow> bool"
  me_ignores :: "guid \<Rightarrow> guid \<Rightarrow> bool"
  me_draw :: "u32 list \<Rightarrow> nat"
  me_coin :: "guid \<Rightarrow> bool"
  me_two_side :: bool
  me_lfg_group :: "guid \<Rightarrow> bool" \<comment> \<open>\<^verbatim>\<open>GetGroupByGUID\<close> finds it and it is an LFG group\<close>
  me_lfr_group :: "guid \<Rightarrow> bool"
  me_group_exists :: "guid \<Rightarrow> bool"
  me_new_group :: guid
  me_player_group :: "lfg_call list \<Rightarrow> guid \<Rightarrow> guid option"
    \<comment> \<open>\<^verbatim>\<open>player->GetGroup()\<close> after the calls made so far\<close>
  me_hooks :: "lfg_call list \<Rightarrow> group_hook list" \<comment> \<open>the hooks that the last of these calls runs\<close>
  me_in_world :: "guid \<Rightarrow> bool"
  me_in_dungeon_map :: "guid \<Rightarrow> bool"
  me_locked :: "guid \<Rightarrow> (u32, u32) omap" \<comment> \<open>\<^verbatim>\<open>GetLockedDungeons\<close>\<close>
  me_bound :: "guid \<Rightarrow> u32 \<Rightarrow> u32 option" \<comment> \<open>the instance the player is bound to for a dungeon\<close>
  me_finish :: "guid \<Rightarrow> finish_facts"

record lfg_world =
  PlayersStore :: "guid \<Rightarrow> player_data"
  GroupsStore :: "guid \<Rightarrow> lfg_group_data"
  QueuesStore :: "(u8, lfg_queue) omap"
  RoleChecksStore :: "(guid, role_check) omap"
  ProposalsStore :: "(u32, lfg_proposal) omap"
  BootsStore :: "(guid, player_boot) omap"
  lfgProposalId :: u32
  QueueTimer :: u32
  ShortageRoleMaskStore :: "u32 \<Rightarrow> u32"
  lfgOptions :: u32
  lw_log :: "lfg_call list"
  lw_asserts :: bool

definition LFGMgr_init :: "u32 \<Rightarrow> lfg_world" where
  "LFGMgr_init options = \<lparr>PlayersStore = (\<lambda>_. LfgPlayerData_init), GroupsStore = (\<lambda>_. LfgGroupData_init),
     QueuesStore = [], RoleChecksStore = [], ProposalsStore = [], BootsStore = [], lfgProposalId = 1,
     QueueTimer = 0, ShortageRoleMaskStore = (\<lambda>_. 0), lfgOptions = options, lw_log = [], lw_asserts = True\<rparr>"

definition lcall :: "lfg_call \<Rightarrow> lfg_world \<Rightarrow> lfg_world" where
  "lcall c w = w\<lparr>lw_log := lw_log w @ [c]\<rparr>"

definition lassert :: "bool \<Rightarrow> lfg_world \<Rightarrow> lfg_world" where
  "lassert b w = w\<lparr>lw_asserts := lw_asserts w \<and> b\<rparr>"

text \<open>A message goes out if the player is connected.\<close>

definition send :: "mgr_env \<Rightarrow> guid \<Rightarrow> lfg_call \<Rightarrow> lfg_world \<Rightarrow> lfg_world" where
  "send e g c w = (if me_connected e g then lcall c w else w)"

definition upd_player :: "guid \<Rightarrow> (player_data \<Rightarrow> player_data) \<Rightarrow> lfg_world \<Rightarrow> lfg_world" where
  "upd_player g f w = w\<lparr>PlayersStore := (PlayersStore w)(g := f (PlayersStore w g))\<rparr>"

definition upd_group :: "guid \<Rightarrow> (lfg_group_data \<Rightarrow> lfg_group_data) \<Rightarrow> lfg_world \<Rightarrow> lfg_world" where
  "upd_group g f w = w\<lparr>GroupsStore := (GroupsStore w)(g := f (GroupsStore w g))\<rparr>"

definition GetHigh :: "guid \<Rightarrow> u32" where
  "GetHigh g = (let temp = ucast (drop_bit 48 g AND 0xFFFF) :: u32 in
     if temp = 0xF101 \<or> temp = 0xF102 then temp else drop_bit 4 temp AND 0xFFF)"

definition dungeon_at :: "mgr_env \<Rightarrow> u32 \<Rightarrow> dungeon_info option" where
  "dungeon_at e i = (if me_dungeon e i = None then None else Some (me_info e i))"

definition IsGroup :: "guid \<Rightarrow> bool" where
  "IsGroup g \<longleftrightarrow> GetHigh g = 0x1F5"

section \<open>Reading and writing the stores\<close>

definition GetState :: "lfg_world \<Rightarrow> guid \<Rightarrow> lfg_state" where
  "GetState w g = (if IsGroup g then gd_State (GroupsStore w g) else pd_State (PlayersStore w g))"

definition GetOldState :: "lfg_world \<Rightarrow> guid \<Rightarrow> lfg_state" where
  "GetOldState w g = (if IsGroup g then gd_OldState (GroupsStore w g) else pd_OldState (PlayersStore w g))"

definition SetState :: "guid \<Rightarrow> lfg_state \<Rightarrow> lfg_world \<Rightarrow> lfg_world" where
  "SetState g state w = (if IsGroup g then upd_group g (Group_SetState state) w
     else upd_player g (Player_SetState state) w)"

definition RestoreState :: "guid \<Rightarrow> lfg_world \<Rightarrow> lfg_world" where
  "RestoreState g w = (if IsGroup g then upd_group g Group_RestoreState w
     else upd_player g Player_RestoreState w)"

definition SetVoteKick :: "guid \<Rightarrow> bool \<Rightarrow> lfg_world \<Rightarrow> lfg_world" where
  "SetVoteKick g active w = upd_group g (\<lambda>d. d\<lparr>gd_VoteKick := active\<rparr>) (lassert (IsGroup g) w)"

definition IsVoteKickActive :: "lfg_world \<Rightarrow> guid \<Rightarrow> bool" where
  "IsVoteKickActive w g = gd_VoteKick (GroupsStore w g)"

definition SetLfgDungeon :: "guid \<Rightarrow> u32 \<Rightarrow> lfg_world \<Rightarrow> lfg_world" where
  "SetLfgDungeon g d = upd_group g (\<lambda>x. x\<lparr>gd_Dungeon := d\<rparr>)"

definition GetLfgDungeon :: "lfg_world \<Rightarrow> guid \<Rightarrow> bool \<Rightarrow> u32" where
  "GetLfgDungeon w g asId = Group_GetDungeon asId (GroupsStore w g)"

definition SetRoles :: "guid \<Rightarrow> u8 \<Rightarrow> lfg_world \<Rightarrow> lfg_world" where
  "SetRoles g roles = upd_player g (\<lambda>d. d\<lparr>pd_Roles := roles\<rparr>)"

definition GetRoles :: "lfg_world \<Rightarrow> guid \<Rightarrow> u8" where
  "GetRoles w g = pd_Roles (PlayersStore w g)"

definition SetComment :: "guid \<Rightarrow> string \<Rightarrow> lfg_world \<Rightarrow> lfg_world" where
  "SetComment g c = upd_player g (\<lambda>d. d\<lparr>pd_Comment := c\<rparr>)"

definition GetComment :: "lfg_world \<Rightarrow> guid \<Rightarrow> string" where
  "GetComment w g = pd_Comment (PlayersStore w g)"

definition SetSelectedDungeons :: "guid \<Rightarrow> u32 list \<Rightarrow> lfg_world \<Rightarrow> lfg_world" where
  "SetSelectedDungeons g ds = upd_player g (\<lambda>d. d\<lparr>pd_Dungeons := ds\<rparr>)"

definition GetSelectedDungeons :: "lfg_world \<Rightarrow> guid \<Rightarrow> u32 list" where
  "GetSelectedDungeons w g = pd_Dungeons (PlayersStore w g)"

definition DecreaseKicksLeft :: "guid \<Rightarrow> lfg_world \<Rightarrow> lfg_world" where
  "DecreaseKicksLeft g = upd_group g Group_DecreaseKicksLeft"

definition GetKicksLeft :: "lfg_world \<Rightarrow> guid \<Rightarrow> u8" where
  "GetKicksLeft w g = gd_KicksLeft (GroupsStore w g)"

definition SetTicket :: "guid \<Rightarrow> ride_ticket \<Rightarrow> lfg_world \<Rightarrow> lfg_world" where
  "SetTicket g t = upd_player g (\<lambda>d. d\<lparr>pd_Ticket := t\<rparr>)"

definition SetTeam :: "mgr_env \<Rightarrow> guid \<Rightarrow> u8 \<Rightarrow> lfg_world \<Rightarrow> lfg_world" where
  "SetTeam e g team = upd_player g (\<lambda>d. d\<lparr>pd_Team := (if me_two_side e then 0 else team)\<rparr>)"

definition GetTeam :: "lfg_world \<Rightarrow> guid \<Rightarrow> u8" where
  "GetTeam w g = pd_Team (PlayersStore w g)"

definition SetGroup :: "guid \<Rightarrow> guid \<Rightarrow> lfg_world \<Rightarrow> lfg_world" where
  "SetGroup g gg = upd_player g (\<lambda>d. d\<lparr>pd_Group := gg\<rparr>)"

definition GetGroup :: "lfg_world \<Rightarrow> guid \<Rightarrow> guid" where
  "GetGroup w g = pd_Group (PlayersStore w g)"

definition SetLeader :: "guid \<Rightarrow> guid \<Rightarrow> lfg_world \<Rightarrow> lfg_world" where
  "SetLeader gg leader = upd_group gg (\<lambda>d. d\<lparr>gd_Leader := leader\<rparr>)"

definition GetLeader :: "lfg_world \<Rightarrow> guid \<Rightarrow> guid" where
  "GetLeader w gg = gd_Leader (GroupsStore w gg)"

definition AddPlayerToGroup :: "guid \<Rightarrow> guid \<Rightarrow> lfg_world \<Rightarrow> lfg_world" where
  "AddPlayerToGroup gg g = upd_group gg (Group_AddPlayer g)"

definition RemovePlayerFromGroup :: "guid \<Rightarrow> guid \<Rightarrow> lfg_world \<Rightarrow> lfg_world \<times> u8" where
  "RemovePlayerFromGroup gg g w = (let w1 = upd_group gg (Group_RemovePlayer g) w
     in (w1, of_nat (length (gd_Players (GroupsStore w1 gg)))))"

definition GetPlayers :: "lfg_world \<Rightarrow> guid \<Rightarrow> guid list" where
  "GetPlayers w gg = gd_Players (GroupsStore w gg)"

definition SetShortage :: "guid \<Rightarrow> bool \<Rightarrow> lfg_world \<Rightarrow> lfg_world" where
  "SetShortage g b = upd_player g (\<lambda>d. d\<lparr>pd_Shortage := b\<rparr>)"

definition SetShortageRoleMask :: "u32 \<Rightarrow> u8 \<Rightarrow> lfg_world \<Rightarrow> lfg_world" where
  "SetShortageRoleMask dg role w =
     w\<lparr>ShortageRoleMaskStore := (ShortageRoleMaskStore w)(dg := ucast role)\<rparr>"

section \<open>The queues\<close>

definition GetQueueId :: "lfg_world \<Rightarrow> guid \<Rightarrow> u8" where
  "GetQueueId w g =
     (if IsGroup g then
        (case GetPlayers w g of
           [] \<Rightarrow> GetTeam w g
         | p # _ \<Rightarrow> if p \<noteq> 0 then GetTeam w p else GetTeam w g)
      else GetTeam w g)"

definition queue_at :: "lfg_world \<Rightarrow> u8 \<Rightarrow> lfg_queue" where
  "queue_at w q = (case om_get (QueuesStore w) q of Some s \<Rightarrow> s | None \<Rightarrow> LFGQueue_init)"

definition upd_queue :: "u8 \<Rightarrow> (lfg_queue \<Rightarrow> lfg_queue) \<Rightarrow> lfg_world \<Rightarrow> lfg_world" where
  "upd_queue q f w = w\<lparr>QueuesStore := om_put q (f (queue_at w q)) (QueuesStore w)\<rparr>"

text \<open>What the queue asks the manager.\<close>

definition queue_env :: "mgr_env \<Rightarrow> lfg_world \<Rightarrow> lfg_env" where
  "queue_env e w = \<lparr>le_dungeon = me_dungeon e, le_queued = (\<lambda>g. GetState w g = LFG_STATE_QUEUED),
     le_is_group = IsGroup, le_lfg_group = (\<lambda>g. gd_OldState (GroupsStore w g) \<noteq> LFG_STATE_NONE),
     le_old_dungeon = (\<lambda>g. GetOldState w g = LFG_STATE_DUNGEON), le_connected = me_connected e,
     le_ignores = me_ignores e, le_draw = me_draw e, le_coin = me_coin e, le_now = me_now e\<rparr>"

definition LeaveQueue :: "mgr_env \<Rightarrow> u8 \<Rightarrow> guid \<Rightarrow> lfg_world \<Rightarrow> lfg_world" where
  "LeaveQueue e q g w = upd_queue q (RemoveFromQueue (queue_env e w) g) w"

section \<open>The role check\<close>

text \<open>The new state of the check after the answer of \<open>guid\<close> (0: the check is aborted).\<close>

definition answer_rolecheck :: "mgr_env \<Rightarrow> guid \<Rightarrow> u8 \<Rightarrow> role_check \<Rightarrow> role_check" where
  "answer_rolecheck e g roles rc =
     (let dungeons = (if rc_rDungeonId rc \<noteq> 0 then [rc_rDungeonId rc] else rc_dungeons rc);
          dungeon = (case dungeons of [] \<Rightarrow> None | d # _ \<Rightarrow> me_dungeon e d) in
      if g = 0 then rc\<lparr>rc_state := LFG_ROLECHECK_ABORTED\<rparr>
      else if roles < ROLE_TANK then rc\<lparr>rc_state := LFG_ROLECHECK_NO_ROLE\<rparr>
      else
        let rc1 = rc\<lparr>rc_roles := om_put g roles (rc_roles rc)\<rparr> in
        if list_all (\<lambda>(p, r). r \<noteq> 0) (rc_roles rc1)
        then rc1\<lparr>rc_state := (case dungeon of
               None \<Rightarrow> LFG_ROLECHECK_WRONG_ROLES
             | Some d \<Rightarrow> if CheckGroupRoles d (rc_roles rc1) \<noteq> None then LFG_ROLECHECK_FINISHED
                         else LFG_ROLECHECK_WRONG_ROLES)\<rparr>
        else rc1)"

text \<open>What one player of the check gets to hear, and the player's new state.\<close>

definition rolecheck_member :: "mgr_env \<Rightarrow> role_check \<Rightarrow> u32 list \<Rightarrow> (guid \<times> u8) option \<Rightarrow> guid \<times> u8
    \<Rightarrow> lfg_world \<Rightarrow> lfg_world" where
  "rolecheck_member e rc dungeons chosen x w =
     (case x of (pguid, r) \<Rightarrow>
      let w1 = (case chosen of Some (g, roles) \<Rightarrow> send e pguid (SendRoleChosen pguid g roles) w | None \<Rightarrow> w);
          w2 = send e pguid (SendRoleCheckUpdate pguid rc) w1
      in if rc_state rc = LFG_ROLECHECK_INITIALITING then w2
         else if rc_state rc = LFG_ROLECHECK_FINISHED then
           (let w3 = SetRoles pguid r (SetState pguid LFG_STATE_QUEUED w2)
            in send e pguid (SendUpdateStatus pguid LFG_UPDATETYPE_ADDED_TO_QUEUE dungeons (GetComment w3 pguid) True) w3)
         else
           (let w3 = (if rc_leader rc = pguid
                      then send e pguid (SendJoinResult pguid LFG_JOIN_ROLE_CHECK_FAILED (rc_state rc) []) w2 else w2)
            in RestoreState pguid
                 (send e pguid (SendUpdateStatus pguid LFG_UPDATETYPE_ROLECHECK_FAILED [] [] True) w3)))"

definition UpdateRoleCheck :: "mgr_env \<Rightarrow> guid \<Rightarrow> guid \<Rightarrow> u8 \<Rightarrow> lfg_world \<Rightarrow> lfg_world" where
  "UpdateRoleCheck e gguid g roles w =
     (if gguid = 0 then w
      else
      (case om_get (RoleChecksStore w) gguid of
         None \<Rightarrow> w
       | Some rc \<Rightarrow>
         let chosen = (if rc_state rc \<noteq> LFG_ROLECHECK_DEFAULT \<and> g \<noteq> 0 then Some (g, roles) else None);
             dungeons = (if rc_rDungeonId rc \<noteq> 0 then [rc_rDungeonId rc] else rc_dungeons rc);
             rc' = answer_rolecheck e g roles rc;
             w1 = fold (rolecheck_member e rc' dungeons chosen) (rc_roles rc')
                    (w\<lparr>RoleChecksStore := om_put gguid rc' (RoleChecksStore w)\<rparr>)
         in if rc_state rc' = LFG_ROLECHECK_FINISHED then
              (let w2 = SetState gguid LFG_STATE_QUEUED w1;
                   w3 = upd_queue (GetQueueId w2 gguid)
                          (AddQueueData (queue_env e w2) gguid (me_now e) (rc_dungeons rc') (rc_roles rc')) w2
               in w3\<lparr>RoleChecksStore := om_erase gguid (RoleChecksStore w3)\<rparr>)
            else if rc_state rc' \<noteq> LFG_ROLECHECK_INITIALITING then
              (let w2 = RestoreState gguid w1
               in w2\<lparr>RoleChecksStore := om_erase gguid (RoleChecksStore w2)\<rparr>)
            else w1))"

section \<open>Proposals\<close>

definition AddProposal :: "proposal \<Rightarrow> lfg_world \<Rightarrow> lfg_world" where
  "AddProposal p w = (let i = lfgProposalId w + 1 in
     w\<lparr>lfgProposalId := i, ProposalsStore := om_put i (of_queue p) (ProposalsStore w)\<rparr>)"

text \<open>The two loops that mark those who did not accept.\<close>

definition mark_players :: "update_type \<Rightarrow> (guid, lfg_player) omap \<Rightarrow> (guid, lfg_player) omap" where
  "mark_players type ps = map (\<lambda>(g, d). (g,
     if type = LFG_UPDATETYPE_PROPOSAL_FAILED \<and> lp_accept d = LFG_ANSWER_PENDING
     then d\<lparr>lp_accept := LFG_ANSWER_DENY\<rparr> else d)) ps"

fun to_remove :: "update_type \<Rightarrow> (guid \<times> lfg_player) list \<Rightarrow> guid list \<Rightarrow> guid list" where
  "to_remove type [] gs = gs"
| "to_remove type ((g, d) # rest) gs =
     (if lp_accept d = LFG_ANSWER_AGREE then to_remove type rest gs
      else if lp_accept d = LFG_ANSWER_DENY \<or> type = LFG_UPDATETYPE_PROPOSAL_FAILED
      then to_remove type rest (insort_insert (if lp_group d \<noteq> 0 then lp_group d else g) gs)
      else to_remove type rest gs)"

definition notify_player :: "mgr_env \<Rightarrow> lfg_proposal \<Rightarrow> update_type \<Rightarrow> guid list \<Rightarrow> guid \<times> lfg_player
    \<Rightarrow> lfg_world \<Rightarrow> lfg_world" where
  "notify_player e p type removed x w =
     (case x of (g, d) \<Rightarrow>
      let gg = (if lp_group d \<noteq> 0 then lp_group d else g);
          w1 = send e g (SendProposalUpdate g p) w
      in if gg \<in> set removed then
           (let upd = (if lp_accept d = LFG_ANSWER_DENY then type else LFG_UPDATETYPE_REMOVED_FROM_QUEUE);
                w2 = RestoreState g w1
            in if gg \<noteq> g
               then send e g (SendUpdateStatus g upd [] [] True) (RestoreState (lp_group d) w2)
               else send e g (SendUpdateStatus g upd [] [] False) w2)
         else
           (let w2 = SetState g LFG_STATE_QUEUED w1
            in if gg \<noteq> g
               then (let w3 = SetState gg LFG_STATE_QUEUED w2 in send e g (SendUpdateStatus g
                       LFG_UPDATETYPE_ADDED_TO_QUEUE (GetSelectedDungeons w3 g) (GetComment w3 g) True) w3)
               else send e g (SendUpdateStatus g
                       LFG_UPDATETYPE_ADDED_TO_QUEUE (GetSelectedDungeons w2 g) (GetComment w2 g) False) w2))"

definition RemoveProposal :: "mgr_env \<Rightarrow> u32 \<Rightarrow> lfg_proposal \<Rightarrow> update_type \<Rightarrow> lfg_world \<Rightarrow> lfg_world" where
  "RemoveProposal e i p type w =
     (let ps = mark_players type (lp_players p);
          p1 = p\<lparr>lp_state := LFG_PROPOSAL_FAILED, lp_players := ps\<rparr>;
          removed = to_remove type ps [];
          w1 = fold (notify_player e p1 type removed) ps w;
          q = GetQueueId w1 (fst (hd ps));
          w2 = fold (LeaveQueue e q) removed w1;
          w3 = upd_queue q (fold (\<lambda>g. AddToQueue g True) (filter (\<lambda>g. g \<notin> set removed) (lp_queues p))) w2
      in w3\<lparr>ProposalsStore := om_erase i (ProposalsStore w3)\<rparr>)"

section \<open>Leaving\<close>

definition find_proposal :: "lfg_world \<Rightarrow> guid \<Rightarrow> (u32 \<times> lfg_proposal) option" where
  "find_proposal w g = find (\<lambda>(i, p). om_get (lp_players p) g \<noteq> None) (ProposalsStore w)"

definition set_accept :: "guid \<Rightarrow> lfg_answer \<Rightarrow> lfg_proposal \<Rightarrow> lfg_proposal" where
  "set_accept g a p = (case om_get (lp_players p) g of None \<Rightarrow> p
     | Some d \<Rightarrow> p\<lparr>lp_players := om_put g (d\<lparr>lp_accept := a\<rparr>) (lp_players p)\<rparr>)"

definition leave_member :: "mgr_env \<Rightarrow> lfg_state \<Rightarrow> update_type \<Rightarrow> guid \<Rightarrow> lfg_world \<Rightarrow> lfg_world" where
  "leave_member e newState type g w = send e g (SendUpdateStatus g type [] [] True) (SetState g newState w)"

text \<open>The state a group that leaves the queue goes back to.\<close>

definition queue_exit_state :: "mgr_env \<Rightarrow> guid \<Rightarrow> lfg_world \<Rightarrow> lfg_state" where
  "queue_exit_state e gguid w =
     (let oldState = GetOldState w gguid in
      if me_lfg_group e gguid \<and> GetLfgDungeon w gguid True \<noteq> 0
         \<and> (oldState = LFG_STATE_DUNGEON \<or> oldState = LFG_STATE_FINISHED_DUNGEON)
      then oldState else LFG_STATE_NONE)"

definition leave_queued :: "mgr_env \<Rightarrow> guid \<Rightarrow> guid \<Rightarrow> update_type \<Rightarrow> lfg_world \<Rightarrow> lfg_world" where
  "leave_queued e g gguid type w =
     (if gguid \<noteq> 0 then
        (let newState = queue_exit_state e gguid w;
             w1 = SetState gguid newState (LeaveQueue e (GetQueueId w gguid) gguid w)
         in fold (leave_member e newState type) (GetPlayers w1 gguid) w1)
      else
        (let w1 = LeaveQueue e (GetQueueId w g) g w
         in SetState g LFG_STATE_NONE (send e g (SendUpdateStatus g type [] [] False) w1)))"

definition leave_proposal :: "mgr_env \<Rightarrow> guid \<Rightarrow> guid \<Rightarrow> lfg_world \<Rightarrow> lfg_world" where
  "leave_proposal e g gguid w =
     (let pguid = (if gguid = g then GetLeader w gguid else g) in
      case find_proposal w pguid of
        None \<Rightarrow> w
      | Some (i, p) \<Rightarrow> RemoveProposal e i (set_accept pguid LFG_ANSWER_DENY p) LFG_UPDATETYPE_PROPOSAL_DECLINED w)"

definition LeaveLfg :: "mgr_env \<Rightarrow> guid \<Rightarrow> bool \<Rightarrow> lfg_world \<Rightarrow> lfg_world" where
  "LeaveLfg e g disconnected w =
     (let gguid = (if IsGroup g then g else GetGroup w g) in
      SetShortage g False
       (case GetState w g of
          LFG_STATE_QUEUED \<Rightarrow> leave_queued e g gguid LFG_UPDATETYPE_REMOVED_FROM_QUEUE w
        | LFG_STATE_RAIDBROWSER \<Rightarrow> leave_queued e g gguid LFG_UPDATETYPE_LEAVE_RAIDBROWSER w
        | LFG_STATE_ROLECHECK \<Rightarrow> if gguid \<noteq> 0 then UpdateRoleCheck e gguid 0 0 w else w
        | LFG_STATE_PROPOSAL \<Rightarrow> leave_proposal e g gguid w
        | LFG_STATE_NONE \<Rightarrow> w
        | LFG_STATE_DUNGEON \<Rightarrow> if g \<noteq> gguid \<and> \<not> disconnected then SetState g LFG_STATE_NONE w else w
        | LFG_STATE_FINISHED_DUNGEON \<Rightarrow> if g \<noteq> gguid \<and> \<not> disconnected then SetState g LFG_STATE_NONE w else w))"

end
