(* ===== verification/Lfg_Manager_Ops.thy ===== *)
theory Lfg_Manager_Ops
  imports Lfg_Manager
begin

text \<open>
  The operations of the dungeon finder's manager that reach other parts of the server: kick votes,
  the hooks the group and player code runs (\<^verbatim>\<open>LFGScripts.cpp\<close>), making a group out of a proposal,
  the periodic update, joining, the reward at the end of a dungeon, and the client handlers of
  \<^verbatim>\<open>LFGHandler.cpp\<close>.  \<open>lfg_op\<close> lists them and \<open>lfg_step\<close> runs one.
\<close>

unbundle bit_operations_syntax

section \<open>Options\<close>

definition LFG_OPTION_ENABLE_DUNGEON_FINDER :: u32 where "LFG_OPTION_ENABLE_DUNGEON_FINDER = 0x1"
definition LFG_OPTION_ENABLE_RAID_BROWSER :: u32 where "LFG_OPTION_ENABLE_RAID_BROWSER = 0x2"
definition LFG_OPTION_ENABLE_SHORTAGE_REWARDS :: u32 where "LFG_OPTION_ENABLE_SHORTAGE_REWARDS = 0x4"

definition isOptionEnabled :: "lfg_world \<Rightarrow> u32 \<Rightarrow> bool" where
  "isOptionEnabled w option \<longleftrightarrow> lfgOptions w AND option \<noteq> 0"

definition finder_enabled :: "lfg_world \<Rightarrow> bool" where
  "finder_enabled w = isOptionEnabled w (LFG_OPTION_ENABLE_DUNGEON_FINDER OR LFG_OPTION_ENABLE_RAID_BROWSER)"

definition SetOptions :: "u32 \<Rightarrow> lfg_world \<Rightarrow> lfg_world" where
  "SetOptions options w = w\<lparr>lfgOptions := options\<rparr>"

definition Clean :: "lfg_world \<Rightarrow> lfg_world" where
  "Clean w = w\<lparr>QueuesStore := []\<rparr>"

definition RemovePlayerData :: "guid \<Rightarrow> lfg_world \<Rightarrow> lfg_world" where
  "RemovePlayerData g w = w\<lparr>PlayersStore := (PlayersStore w)(g := LfgPlayerData_init)\<rparr>"

section \<open>Group data\<close>

definition SetupGroupMember :: "guid \<Rightarrow> guid \<Rightarrow> lfg_world \<Rightarrow> lfg_world" where
  "SetupGroupMember g gg w =
     (let w1 = SetSelectedDungeons g [GetLfgDungeon w gg True] w;
          w2 = SetState g (GetState w1 gg) w1
      in AddPlayerToGroup gg g (SetGroup g gg w2))"

definition remove_member :: "mgr_env \<Rightarrow> bool \<Rightarrow> guid \<Rightarrow> lfg_world \<Rightarrow> lfg_world" where
  "remove_member e forming p w =
     (let w1 = SetGroup p 0 w in
      if forming then w1
      else send e p (SendUpdateStatus p LFG_UPDATETYPE_REMOVED_FROM_QUEUE [] [] True)
             (SetState p LFG_STATE_NONE w1))"

definition RemoveGroupData :: "mgr_env \<Rightarrow> guid \<Rightarrow> lfg_world \<Rightarrow> lfg_world" where
  "RemoveGroupData e g w =
     (let w1 = fold (remove_member e (GetState w g = LFG_STATE_PROPOSAL)) (GetPlayers w g) w
      in w1\<lparr>GroupsStore := (GroupsStore w1)(g := LfgGroupData_init)\<rparr>)"

section \<open>Kick votes\<close>

definition boot_init :: player_boot where
  "boot_init = \<lparr>pb_cancelTime = 0, pb_inProgress = False, pb_votes = [], pb_victim = 0, pb_reason = []\<rparr>"

definition send_boot :: "mgr_env \<Rightarrow> player_boot \<Rightarrow> guid list \<Rightarrow> lfg_world \<Rightarrow> lfg_world" where
  "send_boot e b gs = fold (\<lambda>g. send e g (SendBootUpdate g b)) gs"

text \<open>Everyone in the vote but the victim hears of its end.\<close>

definition close_boot :: "mgr_env \<Rightarrow> player_boot \<Rightarrow> lfg_world \<Rightarrow> lfg_world" where
  "close_boot e b = send_boot e b (filter (\<lambda>g. g \<noteq> pb_victim b) (map fst (pb_votes b)))"

definition InitBoot :: "mgr_env \<Rightarrow> guid \<Rightarrow> guid \<Rightarrow> guid \<Rightarrow> string \<Rightarrow> lfg_world \<Rightarrow> lfg_world" where
  "InitBoot e gguid kicker victim reason w =
     (let w1 = SetVoteKick gguid True w;
          b = (case om_get (BootsStore w1) gguid of Some b \<Rightarrow> b | None \<Rightarrow> boot_init);
          votes = fold (\<lambda>g. om_put g LFG_ANSWER_PENDING) (GetPlayers w1 gguid) (pb_votes b);
          b' = b\<lparr>pb_inProgress := True, pb_cancelTime := me_now e + LFG_TIME_BOOT, pb_reason := reason,
                 pb_victim := victim,
                 pb_votes := om_put kicker LFG_ANSWER_AGREE (om_put victim LFG_ANSWER_DENY votes)\<rparr>
      in send_boot e b' (GetPlayers w1 gguid) (w1\<lparr>BootsStore := om_put gguid b' (BootsStore w1)\<rparr>))"

definition kick_quorum :: "mgr_env \<Rightarrow> guid \<Rightarrow> u8" where
  "kick_quorum e gguid = (if me_lfr_group e gguid then LFR_GROUP_KICK_VOTES_NEEDED
     else LFG_GROUP_KICK_VOTES_NEEDED)"

definition votesNum :: "(guid, lfg_answer) omap \<Rightarrow> u8" where
  "votesNum votes = of_nat (length (filter (\<lambda>(g, a). a \<noteq> LFG_ANSWER_PENDING) votes))"

definition agreeNum :: "(guid, lfg_answer) omap \<Rightarrow> u8" where
  "agreeNum votes = of_nat (length (filter (\<lambda>(g, a). a = LFG_ANSWER_AGREE) votes))"

section \<open>Hooks of the group and player code\<close>

definition OnAddMember :: "mgr_env \<Rightarrow> guid \<Rightarrow> guid \<Rightarrow> guid \<Rightarrow> lfg_world \<Rightarrow> lfg_world" where
  "OnAddMember e gguid leader g w =
     (if \<not> finder_enabled w then w
      else
        let w1 = (if leader = g then SetLeader gguid g w
                  else
                    let gstate = GetState w gguid; state = GetState w g;
                        w' = (if state = LFG_STATE_QUEUED then LeaveLfg e g False w else w)
                    in if gstate = LFG_STATE_QUEUED then LeaveLfg e gguid False w' else w')
        in AddPlayerToGroup gguid g (SetGroup g gguid w1))"

definition OnRemoveMember :: "mgr_env \<Rightarrow> guid \<Rightarrow> bool \<Rightarrow> guid \<Rightarrow> remove_method \<Rightarrow> guid \<Rightarrow> string
    \<Rightarrow> lfg_world \<Rightarrow> lfg_world" where
  "OnRemoveMember e gguid isLFG g method kicker reason w =
     (if \<not> finder_enabled w then w
      else if isLFG \<and> method = GROUP_REMOVEMETHOD_KICK then InitBoot e gguid kicker g reason w
      else
        let state = GetState w gguid in
        if state = LFG_STATE_PROPOSAL \<and> method = GROUP_REMOVEMETHOD_DEFAULT
        then fst (RemovePlayerFromGroup gguid g (SetGroup g 0 w))
        else
          let (w1, players) = RemovePlayerFromGroup gguid g (SetGroup g 0 (LeaveLfg e g False w));
              w2 = (if me_in_world e g then
                      let w' = (if method = GROUP_REMOVEMETHOD_LEAVE \<and> state = LFG_STATE_DUNGEON
                                   \<and> players \<ge> LFG_GROUP_KICK_VOTES_NEEDED
                                then lcall (CallCastDeserter g) w1
                                else if method = GROUP_REMOVEMETHOD_KICK_LFG then lcall (CallRemoveCooldown g) w1
                                else w1);
                          w'' = lcall (SendUpdateStatus g LFG_UPDATETYPE_LEADER_UNK1 [] [] True) w'
                      in if isLFG \<and> me_in_dungeon_map e g then lcall (CallTeleport g True) w'' else w''
                    else w1)
          in if isLFG \<and> state \<noteq> LFG_STATE_FINISHED_DUNGEON
             then send e (GetLeader w2 gguid)
                    (SendOfferContinue (GetLeader w2 gguid) (GetLfgDungeon w2 gguid False)) w2
             else w2)"

definition OnDisband :: "mgr_env \<Rightarrow> guid \<Rightarrow> lfg_world \<Rightarrow> lfg_world" where
  "OnDisband e gguid w = (if finder_enabled w then RemoveGroupData e gguid w else w)"

definition OnChangeLeader :: "guid \<Rightarrow> guid \<Rightarrow> lfg_world \<Rightarrow> lfg_world" where
  "OnChangeLeader gguid newLeader w = (if finder_enabled w then SetLeader gguid newLeader w else w)"

definition OnInviteMember :: "mgr_env \<Rightarrow> guid \<Rightarrow> guid \<Rightarrow> lfg_world \<Rightarrow> lfg_world" where
  "OnInviteMember e gguid leader w =
     (if finder_enabled w \<and> leader \<noteq> 0 \<and> gguid = 0 then LeaveLfg e leader False w else w)"

fun run_hook :: "mgr_env \<Rightarrow> group_hook \<Rightarrow> lfg_world \<Rightarrow> lfg_world" where
  "run_hook e (HookAddMember gg leader g) w = OnAddMember e gg leader g w"
| "run_hook e (HookRemoveMember gg isLFG g method kicker reason) w = OnRemoveMember e gg isLFG g method kicker reason w"
| "run_hook e (HookDisband gg) w = OnDisband e gg w"
| "run_hook e (HookChangeLeader gg leader) w = OnChangeLeader gg leader w"
| "run_hook e (HookInviteMember gg leader) w = OnInviteMember e gg leader w"

text \<open>A call of the group code, with the hooks it runs before it returns.\<close>

definition group_call :: "mgr_env \<Rightarrow> lfg_call \<Rightarrow> lfg_world \<Rightarrow> lfg_world" where
  "group_call e c w = (let w1 = lcall c w in fold (run_hook e) (me_hooks e (lw_log w1)) w1)"

definition OnLogout :: "mgr_env \<Rightarrow> guid \<Rightarrow> guid option \<Rightarrow> bool \<Rightarrow> lfg_world \<Rightarrow> lfg_world" where
  "OnLogout e g pgroup disconnected w =
     (if \<not> finder_enabled w then w
      else if pgroup = None then LeaveLfg e g False w
      else if disconnected then LeaveLfg e g True w else w)"

definition OnLogin :: "mgr_env \<Rightarrow> guid \<Rightarrow> guid option \<Rightarrow> u8 \<Rightarrow> lfg_world \<Rightarrow> lfg_world" where
  "OnLogin e g pgroup team w =
     (if \<not> finder_enabled w then w
      else SetTeam e g team (case pgroup of None \<Rightarrow> w
             | Some gg \<Rightarrow> if GetGroup w g \<noteq> gg then SetupGroupMember g gg w else w))"

section \<open>The kick vote's answers\<close>

text \<open>The vote is decided: the members are told, the victim is kicked if it passed.\<close>

definition end_boot :: "mgr_env \<Rightarrow> guid \<Rightarrow> player_boot \<Rightarrow> bool \<Rightarrow> lfg_world \<Rightarrow> lfg_world" where
  "end_boot e gguid b passed w =
     (let b1 = b\<lparr>pb_inProgress := False\<rparr>;
          w1 = SetVoteKick gguid False (close_boot e b1 (w\<lparr>BootsStore := om_put gguid b1 (BootsStore w)\<rparr>));
          w2 = (if passed then
                  DecreaseKicksLeft gguid
                    (if me_group_exists e gguid then group_call e (CallKickFromGroup gguid (pb_victim b)) w1 else w1)
                else w1)
      in w2\<lparr>BootsStore := om_erase gguid (BootsStore w2)\<rparr>)"

definition UpdateBoot :: "mgr_env \<Rightarrow> guid \<Rightarrow> bool \<Rightarrow> lfg_world \<Rightarrow> lfg_world" where
  "UpdateBoot e g accept w =
     (let gguid = GetGroup w g in
      if gguid = 0 then w
      else case om_get (BootsStore w) gguid of None \<Rightarrow> w
       | Some b \<Rightarrow>
        (case om_get (pb_votes b) g of
           None \<Rightarrow> \<comment> \<open>\<^verbatim>\<open>operator[]\<close> makes the entry, with the value 0\<close>
             w\<lparr>BootsStore := om_put gguid (b\<lparr>pb_votes := om_put g LFG_ANSWER_DENY (pb_votes b)\<rparr>) (BootsStore w)\<rparr>
         | Some a \<Rightarrow>
           if a \<noteq> LFG_ANSWER_PENDING then w
           else
             let votes = om_put g (if accept then LFG_ANSWER_AGREE else LFG_ANSWER_DENY) (pb_votes b);
                 b1 = b\<lparr>pb_votes := votes\<rparr>;
                 w1 = w\<lparr>BootsStore := om_put gguid b1 (BootsStore w)\<rparr>;
                 needed = kick_quorum e gguid
             in if agreeNum votes < needed \<and> votesNum votes - agreeNum votes < needed then w1
                else end_boot e gguid b1 (agreeNum votes = needed) w1))"

section \<open>Players inside dungeons\<close>

definition selectedRandomLfgDungeon :: "mgr_env \<Rightarrow> lfg_world \<Rightarrow> guid \<Rightarrow> bool" where
  "selectedRandomLfgDungeon e w g \<longleftrightarrow> GetState w g \<noteq> LFG_STATE_NONE \<and>
     (case GetSelectedDungeons w g of [] \<Rightarrow> False
      | d # _ \<Rightarrow> (case dungeon_at e d of None \<Rightarrow> False
         | Some i \<Rightarrow> di_type i = LFG_TYPE_RANDOM \<or> di_seasonal i))"

definition inLfgDungeonMap :: "mgr_env \<Rightarrow> lfg_world \<Rightarrow> guid \<Rightarrow> u32 \<Rightarrow> u8 \<Rightarrow> bool" where
  "inLfgDungeonMap e w g mapId difficulty =
     (let gg = (if IsGroup g then g else GetGroup w g); dungeonId = GetLfgDungeon w gg True in
      dungeonId \<noteq> 0 \<and> (case dungeon_at e dungeonId of None \<Rightarrow> False
        | Some i \<Rightarrow> di_map i = mapId \<and> di_difficulty i = difficulty))"

text \<open>\<open>pgroup\<close>: the player's group, with \<^verbatim>\<open>isLFGGroup\<close> and the number of its members.\<close>

definition OnMapChanged :: "mgr_env \<Rightarrow> guid \<Rightarrow> u32 \<Rightarrow> u8 \<Rightarrow> (guid \<times> bool \<times> u32) option \<Rightarrow> lfg_world \<Rightarrow> lfg_world" where
  "OnMapChanged e g mapId difficulty pgroup w =
     (if inLfgDungeonMap e w g mapId difficulty then
        (case pgroup of
           None \<Rightarrow> lcall (CallHomebind g) (lcall (CallLuck g False) (LeaveLfg e g False w))
         | Some _ \<Rightarrow> if selectedRandomLfgDungeon e w g then lcall (CallLuck g True) w else w)
      else
        lcall (CallLuck g False)
          (case pgroup of None \<Rightarrow> w
           | Some (gg, isLFG, memberNum) \<Rightarrow>
               if isLFG \<and> memberNum = 1 then group_call e (CallDisband gg) (LeaveLfg e gg False w) else w))"

section \<open>A group out of a proposal\<close>

definition plain_role :: "u8 \<Rightarrow> u8" where "plain_role r = r AND NOT ROLE_LEADER"

text \<open>The leader, then tanks, healers and damage dealers.\<close>

definition formation :: "lfg_proposal \<Rightarrow> guid list" where
  "formation p = (let ps = lp_players p; others = filter (\<lambda>(g, d). g \<noteq> lp_leader p) ps;
       with = (\<lambda>r. map fst (filter (\<lambda>(g, d). plain_role (lp_role d) = r) others))
     in map fst (filter (\<lambda>(g, d). g = lp_leader p) ps) @ with ROLE_TANK @ with ROLE_HEALER @ with ROLE_DAMAGE)"

definition roles_valid :: "lfg_proposal \<Rightarrow> bool" where
  "roles_valid p = list_all (\<lambda>(g, d). g = lp_leader p \<or>
     plain_role (lp_role d) \<in> {ROLE_TANK, ROLE_HEALER, ROLE_DAMAGE}) (lp_players p)"

definition to_teleport :: "lfg_world \<Rightarrow> lfg_proposal \<Rightarrow> guid list" where
  "to_teleport w p = map fst (filter (\<lambda>(g, d). lp_isNew p \<or> GetGroup w g \<noteq> lp_groupGuid p) (lp_players p))"

definition queued_at_random :: "mgr_env \<Rightarrow> lfg_world \<Rightarrow> guid \<Rightarrow> bool" where
  "queued_at_random e w g = (case GetSelectedDungeons w g of [] \<Rightarrow> False
     | d # _ \<Rightarrow> map_of (me_store e) d = Some LFG_TYPE_RANDOM)"

text \<open>One player of the new group; \<open>grp\<close> is the group made or continued so far.\<close>

definition group_player :: "mgr_env \<Rightarrow> bool \<Rightarrow> u8 \<Rightarrow> guid \<Rightarrow> guid option \<times> lfg_world \<Rightarrow> guid option \<times> lfg_world" where
  "group_player e raid role g acc =
     (case acc of (grp, w) \<Rightarrow>
      if \<not> me_connected e g then (grp, w)
      else
        let pgroup = me_player_group e (lw_log w) g;
            w1 = (case pgroup of None \<Rightarrow> w
                  | Some gg \<Rightarrow> if pgroup \<noteq> grp then group_call e (CallRemoveMember gg g) w else w);
            (grp', w2) = (case grp of
                None \<Rightarrow> (Some (me_new_group e), SetState (me_new_group e) LFG_STATE_PROPOSAL
                           (group_call e (CallCreateGroup (me_new_group e) g raid) w1))
              | Some gg \<Rightarrow> (grp, if pgroup \<noteq> grp then group_call e (CallAddMember gg g) w1 else w1));
            w3 = lcall (CallSetLfgRoles (the grp') g role) w2
        in (grp', if queued_at_random e w3 g then lcall (CallCastCooldown g) w3 else w3))"

definition role_in :: "lfg_proposal \<Rightarrow> guid \<Rightarrow> u8" where
  "role_in p g = (case om_get (lp_players p) g of Some d \<Rightarrow> lp_role d | None \<Rightarrow> 0)"

definition MakeNewGroup :: "mgr_env \<Rightarrow> lfg_proposal \<Rightarrow> lfg_world \<Rightarrow> lfg_world" where
  "MakeNewGroup e p w =
     (let teleport = to_teleport w p;
          w1 = lassert (roles_valid p) w
      in case dungeon_at e (lp_dungeonId p) of None \<Rightarrow> lassert False w1
       | Some d \<Rightarrow>
         let grp0 = (if lp_groupGuid p \<noteq> 0 \<and> me_group_exists e (lp_groupGuid p) then Some (lp_groupGuid p) else None);
             (grp, w2) = fold (\<lambda>g. group_player e (di_raid d) (role_in p g) g) (formation p) (grp0, w1)
         in case grp of None \<Rightarrow> lassert False w2
          | Some gg \<Rightarrow>
            let w3 = lcall (CallSetDifficulty gg (di_difficulty d)) w2;
                w4 = SetState gg LFG_STATE_DUNGEON (SetLfgDungeon gg (Entry d) w3);
                w5 = lcall (CallSendUpdate gg) w4
            in fold (\<lambda>g w. if me_in_world e g then lcall (CallTeleport g False) w else w) teleport w5)"

section \<open>Answers to a proposal\<close>

definition wait_secs :: "int \<Rightarrow> int \<Rightarrow> i32" where
  "wait_secs now joined = of_int ((now - joined) sdiv 1000)"

definition count_wait :: "u8 \<Rightarrow> i32 \<Rightarrow> u32 \<Rightarrow> lfg_queue \<Rightarrow> lfg_queue" where
  "count_wait role t dg =
     (if plain_role role = ROLE_DAMAGE then UpdateWaitTimeDps t dg
      else if plain_role role = ROLE_HEALER then UpdateWaitTimeHealer t dg
      else if plain_role role = ROLE_TANK then UpdateWaitTimeTank t dg
      else UpdateWaitTimeAvg t dg)"

text \<open>The loop over the players once all have accepted; \<^verbatim>\<open>*begin()\<close> needs a selected dungeon.\<close>

definition found_player :: "mgr_env \<Rightarrow> u8 \<Rightarrow> lfg_proposal \<Rightarrow> bool \<Rightarrow> u32 list \<Rightarrow> string \<Rightarrow> guid \<times> lfg_player
    \<Rightarrow> lfg_world \<Rightarrow> lfg_world" where
  "found_player e q p sendUpdate dungeons comment x w =
     (case x of (g, d) \<Rightarrow>
      let dungeonId = hd (GetSelectedDungeons w g);
          w1 = lassert (GetSelectedDungeons w g \<noteq> []) w;
          w2 = (if sendUpdate then send e g (SendProposalUpdate g p) w1 else w1);
          party = lp_group d \<noteq> 0;
          t = wait_secs (me_now e) (GetJoinTime (if party then lp_group d else g) (queue_at w2 q));
          w3 = send e g (SendUpdateStatus g LFG_UPDATETYPE_GROUP_FOUND dungeons comment party) w2
      in SetState g LFG_STATE_DUNGEON (upd_queue q (count_wait (GetRoles w3 g) t dungeonId) w3))"

definition UpdateProposal :: "mgr_env \<Rightarrow> u32 \<Rightarrow> guid \<Rightarrow> bool \<Rightarrow> lfg_world \<Rightarrow> lfg_world" where
  "UpdateProposal e i g accept w =
     (case om_get (ProposalsStore w) i of None \<Rightarrow> w
      | Some p \<Rightarrow>
        if om_get (lp_players p) g = None then w
        else
          let p1 = set_accept g (if accept then LFG_ANSWER_AGREE else LFG_ANSWER_DENY) p;
              w1 = w\<lparr>ProposalsStore := om_put i p1 (ProposalsStore w)\<rparr>
          in if \<not> accept then RemoveProposal e i p1 LFG_UPDATETYPE_PROPOSAL_DECLINED w1
             else if \<not> list_all (\<lambda>(a, d). lp_accept d = LFG_ANSWER_AGREE) (lp_players p1)
             then fold (\<lambda>(a, d). send e a (SendProposalUpdate a p1)) (lp_players p1) w1
             else
               let sendUpdate = (lp_state p1 \<noteq> LFG_PROPOSAL_SUCCESS);
                   p2 = p1\<lparr>lp_state := LFG_PROPOSAL_SUCCESS\<rparr>;
                   w2 = w1\<lparr>ProposalsStore := om_put i p2 (ProposalsStore w1)\<rparr>;
                   q = GetQueueId w2 g;
                   w3 = fold (found_player e q p2 sendUpdate (GetSelectedDungeons w2 g) (GetComment w2 g)) (lp_players p2) w2;
                   w4 = fold (LeaveQueue e q) (lp_queues p2) w3;
                   w5 = MakeNewGroup e p2 w4
               in w5\<lparr>ProposalsStore := om_erase i (ProposalsStore w5)\<rparr>)"

section \<open>The periodic update\<close>

definition expire_rolecheck :: "mgr_env \<Rightarrow> guid \<times> role_check \<Rightarrow> lfg_world \<Rightarrow> lfg_world" where
  "expire_rolecheck e x w =
     (case x of (gg, rc) \<Rightarrow>
      if me_now e < rc_cancelTime rc then w
      else
        let rc' = rc\<lparr>rc_state := LFG_ROLECHECK_MISSING_ROLE\<rparr>;
            w1 = fold (\<lambda>(g, r) w.
                   let w' = send e g (SendRoleCheckUpdate g rc') (RestoreState g w)
                   in if g = rc_leader rc
                      then send e g (SendJoinResult g LFG_JOIN_ROLE_CHECK_FAILED LFG_ROLECHECK_MISSING_ROLE []) w'
                      else w') (rc_roles rc) w;
            w2 = RestoreState gg w1
        in w2\<lparr>RoleChecksStore := om_erase gg (RoleChecksStore w2)\<rparr>)"

definition expire_proposal :: "mgr_env \<Rightarrow> u32 \<times> lfg_proposal \<Rightarrow> lfg_world \<Rightarrow> lfg_world" where
  "expire_proposal e x w = (case x of (i, p) \<Rightarrow>
     if lp_cancelTime p < me_now e then RemoveProposal e i p LFG_UPDATETYPE_PROPOSAL_FAILED w else w)"

definition expire_boot :: "mgr_env \<Rightarrow> guid \<times> player_boot \<Rightarrow> lfg_world \<Rightarrow> lfg_world" where
  "expire_boot e x w = (case x of (gg, b) \<Rightarrow>
     if pb_cancelTime b < me_now e then
       (let w1 = SetVoteKick gg False (close_boot e (b\<lparr>pb_inProgress := False\<rparr>) w)
        in w1\<lparr>BootsStore := om_erase gg (BootsStore w1)\<rparr>)
     else w)"

text \<open>One queue: the groups it forms, and the proposals it hands over meanwhile.\<close>

definition find_in_queue :: "mgr_env \<Rightarrow> u8 \<Rightarrow> lfg_world \<Rightarrow> lfg_world" where
  "find_in_queue e q w =
     (let s = fst (FindGroups (queue_env e w) ((queue_at w q)\<lparr>addedProposals := []\<rparr>));
          w1 = w\<lparr>QueuesStore := om_put q (s\<lparr>addedProposals := []\<rparr>) (QueuesStore w)\<rparr>
      in fold AddProposal (addedProposals s) w1)"

definition begin_player :: "mgr_env \<Rightarrow> lfg_proposal \<Rightarrow> guid \<Rightarrow> lfg_world \<Rightarrow> lfg_world" where
  "begin_player e p g w =
     (let w1 = SetState g LFG_STATE_PROPOSAL w;
          gg = GetGroup w1 g;
          w2 = (if gg \<noteq> 0 then SetState gg LFG_STATE_PROPOSAL w1 else w1);
          w3 = send e g (SendUpdateStatus g LFG_UPDATETYPE_PROPOSAL_BEGIN (GetSelectedDungeons w2 g)
                 (GetComment w2 g) (gg \<noteq> 0)) w2
      in send e g (SendProposalUpdate g p) w3)"

definition begin_proposal :: "mgr_env \<Rightarrow> u32 \<Rightarrow> lfg_world \<Rightarrow> lfg_world" where
  "begin_proposal e i w =
     (case om_get (ProposalsStore w) i of None \<Rightarrow> w
      | Some p \<Rightarrow>
        let w1 = fold (begin_player e p) (map fst (lp_players p)) w
        in if lp_state p = LFG_PROPOSAL_SUCCESS
           then UpdateProposal e i (if lp_players p = [] then 0 else fst (last (lp_players p))) True w1
           else w1)"

text \<open>From \<^verbatim>\<open>ProposalsStore.find(m_lfgProposalId)\<close> to the end.\<close>

definition new_proposals :: "lfg_world \<Rightarrow> u32 list" where
  "new_proposals w = (if om_get (ProposalsStore w) (lfgProposalId w) = None then []
     else filter (\<lambda>i. lfgProposalId w \<le> i) (map fst (ProposalsStore w)))"

definition queue_timers :: "mgr_env \<Rightarrow> u8 \<Rightarrow> lfg_world \<times> (u32, role_count) omap \<Rightarrow> lfg_world \<times> (u32, role_count) omap" where
  "queue_timers e q acc =
     (case acc of (w, counts) \<Rightarrow>
      let (s, counts', sent) = UpdateQueueTimers (queue_env e w) q (me_now e) counts (queue_at w q)
      in (fold (\<lambda>(g, st). send e g (SendQueueStatus g st)) sent
            (w\<lparr>QueuesStore := om_put q s (QueuesStore w)\<rparr>), counts'))"

definition shortage_mask :: "(u32, role_count) omap \<Rightarrow> u32" where
  "shortage_mask counts =
     (let dps = sum_list (map (\<lambda>(d, c). currentDps c) counts);
          healers = sum_list (map (\<lambda>(d, c). currentHealers c) counts);
          tanks = sum_list (map (\<lambda>(d, c). currentTanks c) counts);
          dps3 = (if dps \<noteq> 0 then dps div 3 else 0)
      in (if dps3 \<ge> tanks \<or> healers \<ge> tanks then ucast ROLE_TANK else 0)
         OR (if dps3 \<ge> healers \<or> tanks \<ge> healers then ucast ROLE_HEALER else 0)
         OR (if dps3 < tanks \<and> dps3 < healers then ucast ROLE_DAMAGE else 0))"

definition Update_queues :: "mgr_env \<Rightarrow> lfg_world \<Rightarrow> lfg_world" where
  "Update_queues e w =
     (let (w1, counts) = fold (queue_timers e) (map fst (QueuesStore w)) (w\<lparr>QueueTimer := 0\<rparr>, [])
      in if isOptionEnabled w1 LFG_OPTION_ENABLE_SHORTAGE_REWARDS
         then fold (\<lambda>(d, t) w. if t = LFG_TYPE_RANDOM then SetShortageRoleMask d (ucast (shortage_mask counts)) w
                else w) (me_store e) w1
         else w1)"

definition Update_find :: "mgr_env \<Rightarrow> lfg_world \<Rightarrow> lfg_world" where
  "Update_find e w =
     (let w1 = fold (find_in_queue e) (map fst (QueuesStore w)) w
      in if lfgProposalId w1 \<noteq> lfgProposalId w then fold (begin_proposal e) (new_proposals w1) w1 else w1)"

definition Update_expire :: "mgr_env \<Rightarrow> lfg_world \<Rightarrow> lfg_world" where
  "Update_expire e w =
     (let w1 = fold (expire_rolecheck e) (RoleChecksStore w) w;
          w2 = fold (expire_proposal e) (ProposalsStore w1) w1
      in fold (expire_boot e) (BootsStore w2) w2)"

definition LFGMgr_Update :: "mgr_env \<Rightarrow> u32 \<Rightarrow> lfg_world \<Rightarrow> lfg_world" where
  "LFGMgr_Update e diff w =
     (if \<not> finder_enabled w then w
      else
        let w1 = Update_find e (Update_expire e w)
        in if QueueTimer w1 > LFG_QUEUEUPDATE_INTERVAL then Update_queues e w1
           else w1\<lparr>QueueTimer := QueueTimer w1 + diff\<rparr>)"

section \<open>The end of a dungeon\<close>

definition GetDungeonsByRandom :: "mgr_env \<Rightarrow> u32 \<Rightarrow> u32 list" where
  "GetDungeonsByRandom e i = me_cached e (case dungeon_at e i of None \<Rightarrow> 0 | Some d \<Rightarrow> di_group d)"

fun reward_scan :: "u8 \<Rightarrow> lfg_reward option \<Rightarrow> lfg_reward list \<Rightarrow> lfg_reward option" where
  "reward_scan level rew [] = rew"
| "reward_scan level rew (r # rs) = (if rw_maxLevel r \<ge> ucast level then Some r else reward_scan level (Some r) rs)"

definition GetRandomDungeonReward :: "mgr_env \<Rightarrow> u32 \<Rightarrow> u8 \<Rightarrow> lfg_reward option" where
  "GetRandomDungeonReward e dungeon level = reward_scan level None (me_rewards e (dungeon AND 0x00FFFFFF))"

definition DUNGEON_DIFFICULTY_HEROIC :: u8 where "DUNGEON_DIFFICULTY_HEROIC = 1"

definition reward_quests :: "mgr_env \<Rightarrow> guid \<Rightarrow> guid \<Rightarrow> u32 \<Rightarrow> dungeon_info \<Rightarrow> lfg_reward \<Rightarrow> lfg_world \<Rightarrow> lfg_world" where
  "reward_quests e gguid g rDungeonId d r w =
     (let f = me_finish e g in
      if \<not> me_quest e (rw_firstQuest r) then w
      else
        let firstReward = (ff_can_reward f (rw_firstQuest r) \<and> ff_satisfies f rDungeonId (rw_completions r));
            quest = (if firstReward then rw_firstQuest r else rw_otherQuest r)
        in if \<not> firstReward \<and> \<not> me_quest e (rw_otherQuest r) then w
           else
             let w1 = (if firstReward \<and> rw_completions r \<noteq> 0
                       then lcall (CallSetRewardStatus g rDungeonId (rw_daily r)) w else w);
                 w2 = lcall (CallRewardQuest g quest) w1;
                 shortage = (pd_Shortage (PlayersStore w2 g) \<and> me_quest e (rw_shortageQuest r));
                 w3 = (if shortage then SetShortage g False (lcall (CallRewardQuest g (rw_shortageQuest r)) w2) else w2)
             in lcall (SendPlayerReward g (Entry d) (GetLfgDungeon w3 gguid False) (\<not> firstReward) quest
                        (if shortage then rw_shortageQuest r else 0)) w3)"

definition finish_player :: "mgr_env \<Rightarrow> guid \<Rightarrow> u32 \<Rightarrow> guid \<Rightarrow> lfg_world \<Rightarrow> lfg_world" where
  "finish_player e gguid dungeonId g w =
     (if GetState w g = LFG_STATE_FINISHED_DUNGEON then w
      else
        let rDungeonId = (case GetSelectedDungeons w g of [] \<Rightarrow> 0 | d # _ \<Rightarrow> d);
            w1 = SetState g LFG_STATE_FINISHED_DUNGEON w;
            w2 = send e g (SendUpdateStatus g LFG_UPDATETYPE_DUNGEON_FINISHED (GetSelectedDungeons w1 g)
                   (GetComment w1 g) True) w1;
            f = me_finish e g
        in case dungeon_at e rDungeonId of None \<Rightarrow> w2
         | Some d \<Rightarrow>
           if di_type d \<noteq> LFG_TYPE_RANDOM \<and> \<not> di_seasonal d then w2
           else if \<not> ff_in_world f \<or> \<not> ff_same_map f then w2
           else
             let w3 = lcall (CallRemoveCooldown g) w2;
                 mapId = (case dungeon_at e dungeonId of None \<Rightarrow> 0 | Some x \<Rightarrow> di_map x)
             in if ff_map_id f \<noteq> mapId then w3
                else
                  let w4 = (if di_difficulty d = DUNGEON_DIFFICULTY_HEROIC then lcall (CallAchievement g) w3 else w3)
                  in case GetRandomDungeonReward e rDungeonId (ff_level f) of None \<Rightarrow> w4
                   | Some r \<Rightarrow> reward_quests e gguid g rDungeonId d r w4)"

definition FinishDungeon :: "mgr_env \<Rightarrow> guid \<Rightarrow> u32 \<Rightarrow> lfg_world \<Rightarrow> lfg_world" where
  "FinishDungeon e gguid dungeonId w =
     (if GetLfgDungeon w gguid True \<noteq> dungeonId then w
      else if GetState w gguid = LFG_STATE_FINISHED_DUNGEON then w
      else
        let w1 = SetState gguid LFG_STATE_FINISHED_DUNGEON w
        in fold (finish_player e gguid dungeonId) (GetPlayers w1 gguid) w1)"

section \<open>Joining\<close>

definition CLASS_WARRIOR :: u8 where "CLASS_WARRIOR = 1"
definition CLASS_PALADIN :: u8 where "CLASS_PALADIN = 2"
definition CLASS_PRIEST :: u8 where "CLASS_PRIEST = 5"
definition CLASS_DEATH_KNIGHT :: u8 where "CLASS_DEATH_KNIGHT = 6"
definition CLASS_SHAMAN :: u8 where "CLASS_SHAMAN = 7"
definition CLASS_DRUID :: u8 where "CLASS_DRUID = 11"

definition CanPerformSelectedRoles :: "u8 \<Rightarrow> u8 \<Rightarrow> bool" where
  "CanPerformSelectedRoles playerClass roles =
     (if roles AND ROLE_TANK \<noteq> 0 \<and> (playerClass \<noteq> CLASS_DEATH_KNIGHT \<and> playerClass \<noteq> CLASS_DRUID
          \<and> playerClass \<noteq> CLASS_PALADIN \<and> playerClass \<noteq> CLASS_WARRIOR) then False
      else if roles AND ROLE_HEALER \<noteq> 0 \<and> (playerClass \<noteq> CLASS_PALADIN \<and> playerClass \<noteq> CLASS_DRUID
          \<and> playerClass \<noteq> CLASS_PRIEST \<and> playerClass \<noteq> CLASS_SHAMAN) then False
      else True)"

text \<open>What \<^verbatim>\<open>JoinLfg\<close> reads of a player and of the player's group.\<close>

record join_member =
  jm_guid :: guid
  jm_permission :: bool
  jm_battleground :: bool
  jm_deserter :: bool
  jm_cooldown :: bool

record join_group =
  jg_guid :: guid
  jg_leader :: guid
  jg_lfg :: bool
  jg_count :: u32 \<comment> \<open>\<^verbatim>\<open>GetMembersCount()\<close>, with those offline\<close>
  jg_members :: "join_member list" \<comment> \<open>the members online, from \<^verbatim>\<open>GetFirstMember()\<close>\<close>

record join_player =
  jp_self :: join_member
  jp_frozen :: bool
  jp_class :: u8
  jp_group :: "join_group option"

definition MAXGROUPSIZE :: u32 where "MAXGROUPSIZE = 5"

definition member_result :: "bool \<Rightarrow> join_member \<Rightarrow> join_result \<Rightarrow> join_result" where
  "member_result isContinue m r =
     (let r1 = (if \<not> jm_permission m then LFG_JOIN_INTERNAL_ERROR else r) in
      if jm_deserter m then LFG_JOIN_PARTY_DESERTER
      else if \<not> isContinue \<and> jm_cooldown m then LFG_JOIN_PARTY_RANDOM_COOLDOWN
      else if jm_battleground m then LFG_JOIN_USING_BG_SYSTEM
      else r1)"

fun members_loop :: "bool \<Rightarrow> join_member list \<Rightarrow> join_result \<times> u8 \<times> guid list \<Rightarrow> join_result \<times> u8 \<times> guid list" where
  "members_loop isContinue [] acc = acc"
| "members_loop isContinue (m # ms) (r, memberCount, players) =
     (if r \<noteq> LFG_JOIN_OK then (r, memberCount, players)
      else members_loop isContinue ms (member_result isContinue m r, memberCount + 1, insort_insert (jm_guid m) players))"

definition join_restrictions :: "join_player \<Rightarrow> u8 \<Rightarrow> bool \<Rightarrow> u32 list \<Rightarrow> join_result \<times> guid list" where
  "join_restrictions j roles isContinue dungeons =
     (let m = jp_self j in
      if \<not> jm_permission m then (LFG_JOIN_NOT_MEET_REQS, [])
      else if jm_battleground m then (LFG_JOIN_USING_BG_SYSTEM, [])
      else if jm_deserter m then (LFG_JOIN_DESERTER, [])
      else if \<not> isContinue \<and> jm_cooldown m then (LFG_JOIN_RANDOM_COOLDOWN, [])
      else if dungeons = [] then (LFG_JOIN_NOT_MEET_REQS, [])
      else if jp_frozen j then (LFG_JOIN_NOT_MEET_REQS, [])
      else if \<not> CanPerformSelectedRoles (jp_class j) roles then (LFG_JOIN_INTERNAL_ERROR, [])
      else case jp_group j of
        None \<Rightarrow> (LFG_JOIN_OK, [jm_guid m])
      | Some gr \<Rightarrow>
          if jg_count gr > MAXGROUPSIZE then (LFG_JOIN_TOO_MUCH_MEMBERS, [])
          else
            let (r, memberCount, players) = members_loop isContinue (jg_members gr) (LFG_JOIN_OK, 0, []) in
            if r = LFG_JOIN_OK \<and> ucast memberCount \<noteq> jg_count gr then (LFG_JOIN_DISCONNECTED, players)
            else (r, players))"

definition GetDungeonType :: "mgr_env \<Rightarrow> u32 \<Rightarrow> u8" where
  "GetDungeonType e i = (case dungeon_at e i of None \<Rightarrow> LFG_TYPE_NONE | Some d \<Rightarrow> di_type d)"

text \<open>The state of the loop: the result, \<^verbatim>\<open>isDungeon\<close>, \<^verbatim>\<open>isRaid\<close> and \<^verbatim>\<open>rDungeonId\<close>.\<close>

fun types_loop :: "mgr_env \<Rightarrow> u32 list \<Rightarrow> u32 list \<Rightarrow> join_result \<times> bool \<times> bool \<times> u32
    \<Rightarrow> join_result \<times> bool \<times> bool \<times> u32" where
  "types_loop e dungeons [] acc = acc"
| "types_loop e dungeons (d # ds) (r, isDungeon, isRaid, rId) =
     (if r \<noteq> LFG_JOIN_OK then (r, isDungeon, isRaid, rId)
      else
        let type = GetDungeonType e d in
        types_loop e dungeons ds
          (if type = LFG_TYPE_RAID then (if isDungeon then LFG_JOIN_MIXED_RAID_DUNGEON else r, isDungeon, True, rId)
           else if type = LFG_TYPE_RANDOM \<or> type = LFG_TYPE_HEROIC \<or> type = LFG_TYPE_DUNGEON then
             (let (r', rId') = (if type = LFG_TYPE_RANDOM
                  then if length dungeons > 1 then (LFG_JOIN_DUNGEON_INVALID, rId) else (r, hd dungeons)
                  else (r, rId))
              in (if isRaid then LFG_JOIN_MIXED_RAID_DUNGEON else r', True, isRaid, rId'))
           else (LFG_JOIN_DUNGEON_INVALID, isDungeon, isRaid, rId)))"

definition LFG_LOCKSTATUS_RAID_LOCKED :: u32 where "LFG_LOCKSTATUS_RAID_LOCKED = 6"

text \<open>
  The locks of one player: the dungeons left, the instance seen for each locked dungeon, the lock
  map, and whether the code's assertions hold.
\<close>

type_synonym compat_acc = "u32 list \<times> (u32, u32) omap \<times> lock_map \<times> bool"

fun player_locks :: "mgr_env \<Rightarrow> bool \<Rightarrow> guid \<Rightarrow> (u32 \<times> u32) list \<Rightarrow> compat_acc \<Rightarrow> compat_acc" where
  "player_locks e isContinue g [] acc = acc"
| "player_locks e isContinue g ((key, status) # locks) (dungeons, instances, lockmap, ok) =
     (if dungeons = [] then (dungeons, instances, lockmap, ok)
      else
        let dungeonId = key AND 0x00FFFFFF in
        if dungeonId \<notin> set dungeons then player_locks e isContinue g locks (dungeons, instances, lockmap, ok)
        else
          let exempt = (status = LFG_LOCKSTATUS_RAID_LOCKED \<and> isContinue);
              bound = (if exempt then me_bound e g dungeonId else None);
              keep = (case bound of None \<Rightarrow> False
                      | Some i \<Rightarrow> om_get instances dungeonId \<in> {None, Some i});
              instances' = (case bound of None \<Rightarrow> instances | Some i \<Rightarrow> om_put dungeonId i instances);
              mine = (case om_get lockmap g of None \<Rightarrow> [] | Some l \<Rightarrow> l)
          in player_locks e isContinue g locks
               (if keep then dungeons else removeAll dungeonId dungeons, instances',
                om_put g (om_put dungeonId status mine) lockmap,
                ok \<and> (exempt \<longrightarrow> dungeon_at e dungeonId \<noteq> None \<and> me_connected e g)))"

fun compatible_loop :: "mgr_env \<Rightarrow> bool \<Rightarrow> guid list \<Rightarrow> compat_acc \<Rightarrow> compat_acc" where
  "compatible_loop e isContinue [] acc = acc"
| "compatible_loop e isContinue (g # gs) acc =
     (if fst acc = [] then acc else compatible_loop e isContinue gs (player_locks e isContinue g (me_locked e g) acc))"

definition GetCompatibleDungeons :: "mgr_env \<Rightarrow> u32 list \<Rightarrow> guid list \<Rightarrow> bool \<Rightarrow> u32 list \<times> lock_map \<times> bool" where
  "GetCompatibleDungeons e dungeons players isContinue =
     (let (left, instances, lockmap, ok) = compatible_loop e isContinue players (dungeons, [], [], True)
      in (left, if left \<noteq> [] then [] else lockmap, ok))"

record join_check =
  jc_result :: join_result
  jc_dungeons :: "u32 list"
  jc_random :: u32
  jc_raid :: bool
  jc_locks :: lock_map
  jc_asserts :: bool

definition join_checks :: "mgr_env \<Rightarrow> join_player \<Rightarrow> u8 \<Rightarrow> bool \<Rightarrow> u32 list \<Rightarrow> join_check" where
  "join_checks e j roles isContinue dungeons =
     (let (r, players) = join_restrictions j roles isContinue dungeons in
      if r \<noteq> LFG_JOIN_OK then \<lparr>jc_result = r, jc_dungeons = dungeons, jc_random = 0, jc_raid = False, jc_locks = [],
        jc_asserts = True\<rparr>
      else
        let (r1, isDungeon, isRaid, rId) = types_loop e dungeons dungeons (LFG_JOIN_OK, False, False, 0) in
        if r1 \<noteq> LFG_JOIN_OK then \<lparr>jc_result = r1, jc_dungeons = dungeons, jc_random = rId, jc_raid = isRaid,
          jc_locks = [], jc_asserts = True\<rparr>
        else
          let ds = (if rId \<noteq> 0 then GetDungeonsByRandom e rId else dungeons);
              (left, locks, ok) = GetCompatibleDungeons e ds players isContinue
          in \<lparr>jc_result = (if left \<noteq> [] then LFG_JOIN_OK
                           else if jp_group j \<noteq> None then LFG_JOIN_INTERNAL_ERROR else LFG_JOIN_NOT_MEET_REQS),
              jc_dungeons = left, jc_random = rId, jc_raid = isRaid, jc_locks = locks, jc_asserts = ok\<rparr>)"

definition rolecheck_init :: role_check where
  "rolecheck_init = \<lparr>rc_cancelTime = 0, rc_roles = [], rc_state = LFG_ROLECHECK_DEFAULT, rc_dungeons = [],
     rc_rDungeonId = 0, rc_leader = 0\<rparr>"

definition invite_member :: "bool \<Rightarrow> u32 list \<Rightarrow> string \<Rightarrow> ride_ticket \<Rightarrow> guid \<Rightarrow> lfg_world \<Rightarrow> lfg_world" where
  "invite_member isContinue dungeons comment ticket g w =
     (let w1 = SetTicket g ticket (SetState g LFG_STATE_ROLECHECK
                 (lcall (SendUpdateStatus g LFG_UPDATETYPE_JOIN_QUEUE dungeons comment True) w))
      in if isContinue then w1 else SetSelectedDungeons g dungeons w1)"

definition join_party :: "mgr_env \<Rightarrow> join_group \<Rightarrow> guid \<Rightarrow> u8 \<Rightarrow> bool \<Rightarrow> join_check \<Rightarrow> string \<Rightarrow> ride_ticket
    \<Rightarrow> lfg_world \<Rightarrow> lfg_world" where
  "join_party e gr g roles isContinue c comment ticket w =
     (let gguid = jg_guid gr;
          rc0 = (case om_get (RoleChecksStore w) gguid of Some rc \<Rightarrow> rc | None \<Rightarrow> rolecheck_init);
          members = map jm_guid (jg_members gr);
          rc = rc0\<lparr>rc_cancelTime := me_now e + LFG_TIME_ROLECHECK, rc_state := LFG_ROLECHECK_INITIALITING,
                   rc_leader := g, rc_dungeons := jc_dungeons c, rc_rDungeonId := jc_random c,
                   rc_roles := fold (\<lambda>p. om_put p 0) members (rc_roles rc0)\<rparr>;
          dungeons = (if jc_random c \<noteq> 0 then [jc_random c] else jc_dungeons c);
          w1 = SetState gguid LFG_STATE_ROLECHECK w;
          w2 = fold (invite_member isContinue dungeons comment ticket) members w1;
          w3 = w2\<lparr>RoleChecksStore := om_put gguid rc (RoleChecksStore w2)\<rparr>
      in UpdateRoleCheck e gguid g roles w3)"

definition join_alone :: "mgr_env \<Rightarrow> guid \<Rightarrow> u8 \<Rightarrow> bool \<Rightarrow> join_check \<Rightarrow> string \<Rightarrow> ride_ticket \<Rightarrow> lfg_world \<Rightarrow> lfg_world" where
  "join_alone e g roles isContinue c comment ticket w =
     (let w1 = upd_queue (GetQueueId w g) (AddQueueData (queue_env e w) g (me_now e) (jc_dungeons c) [(g, roles)]) w;
          dungeons = (if \<not> isContinue \<and> jc_random c \<noteq> 0 then [jc_random c] else jc_dungeons c);
          w2 = (if isContinue then w1 else SetSelectedDungeons g dungeons w1);
          w3 = SetRoles g roles (SetTicket g ticket w2);
          w4 = lcall (SendUpdateStatus g LFG_UPDATETYPE_JOIN_QUEUE_INITIAL dungeons comment False) w3;
          w5 = SetState g (if jc_raid c then LFG_STATE_RAIDBROWSER else LFG_STATE_QUEUED) w4;
          w6 = lcall (SendUpdateStatus g (if jc_raid c then LFG_UPDATETYPE_JOIN_RAIDBROWSER
                        else LFG_UPDATETYPE_ADDED_TO_QUEUE) dungeons comment False) w5
      in lcall (SendJoinResult g LFG_JOIN_OK LFG_ROLECHECK_DEFAULT []) w6)"

text \<open>The party of a player who joins, whether it continues its dungeon, and the checks passed.\<close>

definition join_guid :: "join_player \<Rightarrow> guid" where
  "join_guid j = (case jp_group j of None \<Rightarrow> jm_guid (jp_self j) | Some gr \<Rightarrow> jg_guid gr)"

definition continues :: "lfg_world \<Rightarrow> join_player \<Rightarrow> bool" where
  "continues w j = (case jp_group j of None \<Rightarrow> False
     | Some gr \<Rightarrow> jg_lfg gr \<and> GetState w (jg_guid gr) \<noteq> LFG_STATE_FINISHED_DUNGEON)"

definition join_accept :: "mgr_env \<Rightarrow> join_player \<Rightarrow> u8 \<Rightarrow> bool \<Rightarrow> join_check \<Rightarrow> string \<Rightarrow> lfg_world \<Rightarrow> lfg_world" where
  "join_accept e j roles isContinue c comment w =
     (let g = jm_guid (jp_self j);
          w1 = SetComment g comment w;
          w2 = (if jc_random c \<noteq> 0 \<and> jp_group j = None
                   \<and> ShortageRoleMaskStore w1 (jc_random c) AND ucast roles \<noteq> 0
                then SetShortage g True w1 else w1);
          ticket = \<lparr>tk_time = of_int (me_now e), tk_type = RideLfg, tk_id = ucast (GetQueueId w2 (join_guid j)),
                    tk_requester = g\<rparr>
      in case jp_group j of
           Some gr \<Rightarrow> join_party e gr g roles isContinue c comment ticket w2
         | None \<Rightarrow> join_alone e g roles isContinue c comment ticket w2)"

definition JoinLfg :: "mgr_env \<Rightarrow> join_player \<Rightarrow> u8 \<Rightarrow> u32 list \<Rightarrow> string \<Rightarrow> lfg_world \<Rightarrow> lfg_world" where
  "JoinLfg e j roles dungeons0 comment w =
     (if dungeons0 = [] then w
      else
        let gguid = join_guid j;
            isContinue = continues w j;
            dungeons = (if isContinue then [GetLfgDungeon w gguid True] else dungeons0);
            w1 = (if GetState w gguid = LFG_STATE_QUEUED then LeaveQueue e (GetQueueId w gguid) gguid w else w);
            c = join_checks e j roles isContinue dungeons;
            w2 = lassert (jc_asserts c) w1
        in if jc_result c \<noteq> LFG_JOIN_OK
           then lcall (SendJoinResult (jm_guid (jp_self j)) (jc_result c) LFG_ROLECHECK_DEFAULT
                  (if jc_dungeons c \<noteq> [] then [] else jc_locks c)) w2
           else join_accept e j roles isContinue c comment w2)"

section \<open>The client's requests\<close>

definition HandleLfgJoin :: "mgr_env \<Rightarrow> join_player \<Rightarrow> u8 \<Rightarrow> u32 list \<Rightarrow> string \<Rightarrow> lfg_world \<Rightarrow> lfg_world" where
  "HandleLfgJoin e j roles slots comment w =
     (if \<not> finder_enabled w
        \<or> (case jp_group j of None \<Rightarrow> False
           | Some gr \<Rightarrow> jg_leader gr \<noteq> jm_guid (jp_self j) \<and> (jg_count gr = MAXGROUPSIZE \<or> \<not> jg_lfg gr))
      then w
      else if slots = [] then w
      else
        let ids = filter (\<lambda>d. map_of (me_store e) d \<noteq> None) (map (\<lambda>s. s AND 0x00FFFFFF) slots)
        in JoinLfg e j roles (fold insort_insert ids []) comment w)"

text \<open>\<open>leader\<close>: the leader of the sender's group; \<open>requester\<close> comes from the packet.\<close>

definition HandleLfgLeave :: "mgr_env \<Rightarrow> guid option \<Rightarrow> guid \<Rightarrow> lfg_world \<Rightarrow> lfg_world" where
  "HandleLfgLeave e leader requester w =
     (if leader = None \<or> leader = Some requester then LeaveLfg e requester False w else w)"

definition HandleLfgSetRoles :: "mgr_env \<Rightarrow> guid \<Rightarrow> u8 \<Rightarrow> guid option \<Rightarrow> u8 \<Rightarrow> lfg_world \<Rightarrow> lfg_world" where
  "HandleLfgSetRoles e g playerClass pgroup roles w =
     (case pgroup of None \<Rightarrow> w
      | Some gg \<Rightarrow> UpdateRoleCheck e gg g (if CanPerformSelectedRoles playerClass roles then roles else 0) w)"

section \<open>Every operation\<close>

datatype lfg_op =
    OpUpdate u32
  | OpJoin join_player u8 "u32 list" string
  | OpLeave "guid option" guid
  | OpProposal u32 guid bool
  | OpSetRoles guid u8 "guid option" u8
  | OpComment guid string
  | OpBootVote guid bool
  | OpHook group_hook
  | OpLogout guid "guid option" bool
  | OpLogin guid "guid option" u8
  | OpMapChanged guid u32 u8 "(guid \<times> bool \<times> u32) option"
  | OpSetupMember guid guid
  | OpFinish guid u32
  | OpRemovePlayer guid
  | OpClean
  | OpSetOptions u32

fun lfg_step :: "lfg_world \<Rightarrow> mgr_env \<times> lfg_op \<Rightarrow> lfg_world" where
  "lfg_step w (e, OpUpdate diff) = LFGMgr_Update e diff w"
| "lfg_step w (e, OpJoin j roles slots comment) = HandleLfgJoin e j roles slots comment w"
| "lfg_step w (e, OpLeave leader requester) = HandleLfgLeave e leader requester w"
| "lfg_step w (e, OpProposal i g accept) = UpdateProposal e i g accept w"
| "lfg_step w (e, OpSetRoles g c gg roles) = HandleLfgSetRoles e g c gg roles w"
| "lfg_step w (e, OpComment g c) = SetComment g c w"
| "lfg_step w (e, OpBootVote g accept) = UpdateBoot e g accept w"
| "lfg_step w (e, OpHook h) = run_hook e h w"
| "lfg_step w (e, OpLogout g gg d) = OnLogout e g gg d w"
| "lfg_step w (e, OpLogin g gg t) = OnLogin e g gg t w"
| "lfg_step w (e, OpMapChanged g m d gg) = OnMapChanged e g m d gg w"
| "lfg_step w (e, OpSetupMember g gg) = SetupGroupMember g gg w"
| "lfg_step w (e, OpFinish gg d) = FinishDungeon e gg d w"
| "lfg_step w (e, OpRemovePlayer g) = RemovePlayerData g w"
| "lfg_step w (e, OpClean) = Clean w"
| "lfg_step w (e, OpSetOptions options) = SetOptions options w"

end
