(* ===== verification/Lfg_Manager_Inv.thy ===== *)
theory Lfg_Manager_Inv
  imports Lfg_Manager_Ops
begin

text \<open>
  What every operation of the dungeon finder's manager keeps: the states that may be stored for
  players and groups, for role checks, for proposals and for kick votes.
\<close>

section \<open>The invariant\<close>

definition settled_state :: "lfg_state \<Rightarrow> bool" where
  "settled_state s \<longleftrightarrow> s \<in> {LFG_STATE_NONE, LFG_STATE_DUNGEON, LFG_STATE_FINISHED_DUNGEON}"

definition player_fine :: "player_data \<Rightarrow> bool" where
  "player_fine d \<longleftrightarrow> settled_state (pd_OldState d) \<and>
     (settled_state (pd_State d) \<longrightarrow> pd_State d = pd_OldState d) \<and>
     (pd_State d = LFG_STATE_NONE \<longrightarrow> pd_Roles d = 0 \<and> pd_Dungeons d = [])"

definition group_fine :: "lfg_group_data \<Rightarrow> bool" where
  "group_fine d \<longleftrightarrow> settled_state (gd_OldState d) \<and>
     (settled_state (gd_State d) \<longrightarrow> gd_State d = gd_OldState d) \<and>
     (gd_OldState d = LFG_STATE_NONE \<longrightarrow> gd_Dungeon d = 0) \<and> gd_KicksLeft d \<le> LFG_GROUP_MAX_KICKS"

definition check_fine :: "role_check \<Rightarrow> bool" where
  "check_fine rc \<longleftrightarrow> rc_state rc = LFG_ROLECHECK_INITIALITING"

definition proposal_fine :: "lfg_proposal \<Rightarrow> bool" where
  "proposal_fine p \<longleftrightarrow> lp_state p = LFG_PROPOSAL_INITIATING \<and>
     (\<forall>g d. om_get (lp_players p) g = Some d \<longrightarrow> lp_accept d \<noteq> LFG_ANSWER_DENY)"

definition data_fine :: "lfg_world \<Rightarrow> bool" where
  "data_fine w \<longleftrightarrow> (\<forall>g. \<not> IsGroup g \<longrightarrow> player_fine (PlayersStore w g)) \<and> (\<forall>g. IsGroup g \<longrightarrow> group_fine (GroupsStore w g))"

definition boots_fine :: "lfg_world \<Rightarrow> bool" where
  "boots_fine w \<longleftrightarrow> (\<forall>g. gd_VoteKick (GroupsStore w g) \<longrightarrow> om_get (BootsStore w) g \<noteq> None) \<and>
     (\<forall>g b. om_get (BootsStore w) g = Some b \<longrightarrow> pb_inProgress b)"

text \<open>
  \<open>good C I v w\<close>: \<open>w\<close> is fine, but for the role checks of \<open>C\<close> and the proposals of \<open>I\<close>, and since
  \<open>v\<close> no kick vote has begun or ended.
\<close>

definition good :: "guid set \<Rightarrow> u32 set \<Rightarrow> lfg_world \<Rightarrow> lfg_world \<Rightarrow> bool" where
  "good C I v w \<longleftrightarrow> data_fine w \<and>
     (\<forall>g rc. g \<notin> C \<longrightarrow> om_get (RoleChecksStore w) g = Some rc \<longrightarrow> check_fine rc) \<and>
     (\<forall>i p. i \<notin> I \<longrightarrow> om_get (ProposalsStore w) i = Some p \<longrightarrow> proposal_fine p) \<and>
     BootsStore w = BootsStore v \<and>
     (\<forall>g. gd_VoteKick (GroupsStore w g) \<longrightarrow> gd_VoteKick (GroupsStore v g))"

definition lfg_inv :: "lfg_world \<Rightarrow> bool" where
  "lfg_inv w \<longleftrightarrow> good {} {} w w \<and> boots_fine w"

lemma good_inv: "lfg_inv v \<Longrightarrow> good {} {} v w \<Longrightarrow> lfg_inv w"
  unfolding lfg_inv_def good_def boots_fine_def by metis

lemma inv_good: "lfg_inv w \<Longrightarrow> good {} {} w w"
  by (simp add: lfg_inv_def)

section \<open>Players and groups\<close>

lemma word_pred_le: "(k :: 'a::len word) \<noteq> 0 \<Longrightarrow> k \<le> m \<Longrightarrow> k - 1 \<le> m"
  by (simp add: word_le_nat_alt unat_minus_one)

lemmas world_defs = lcall_def lassert_def send_def upd_player_def upd_group_def upd_queue_def

lemma player_fine_SetState: "player_fine d \<Longrightarrow> player_fine (Player_SetState s d)"
  by (auto simp: player_fine_def Player_SetState_def settled_state_def Let_def)

lemma player_fine_RestoreState: "player_fine d \<Longrightarrow> player_fine (Player_RestoreState d)"
  by (auto simp: player_fine_def Player_RestoreState_def settled_state_def Let_def)

lemma group_fine_SetState: "group_fine d \<Longrightarrow> group_fine (Group_SetState s d)"
  by (auto simp: group_fine_def Group_SetState_def settled_state_def Let_def)

lemma group_fine_RestoreState: "group_fine d \<Longrightarrow> group_fine (Group_RestoreState d)"
  by (auto simp: group_fine_def Group_RestoreState_def settled_state_def Let_def)

lemma group_vote_state [simp]:
  "gd_VoteKick (Group_SetState s d) = gd_VoteKick d" "gd_VoteKick (Group_RestoreState d) = gd_VoteKick d"
  by (simp_all add: Group_SetState_def Group_RestoreState_def Let_def)

lemma player_fine_init: "player_fine LfgPlayerData_init"
  by (simp add: player_fine_def LfgPlayerData_init_def settled_state_def)

lemma group_fine_init: "group_fine LfgGroupData_init" "\<not> gd_VoteKick LfgGroupData_init"
  by (simp_all add: group_fine_def LfgGroupData_init_def settled_state_def)

lemma group_fine_DecreaseKicksLeft: "group_fine d \<Longrightarrow> group_fine (Group_DecreaseKicksLeft d)"
  by (simp add: group_fine_def Group_DecreaseKicksLeft_def word_pred_le)

lemma vote_DecreaseKicksLeft [simp]: "gd_VoteKick (Group_DecreaseKicksLeft d) = gd_VoteKick d"
  by (simp add: Group_DecreaseKicksLeft_def)

text \<open>A change to a player that the manager makes keeps the player fine, one to a group too.\<close>

lemma good_upd_player: "good C I v w \<Longrightarrow> (\<And>d. player_fine d \<Longrightarrow> player_fine (f d)) \<Longrightarrow> good C I v (upd_player g f w)"
  by (auto simp: good_def upd_player_def data_fine_def)

lemma good_upd_group: "good C I v w \<Longrightarrow> (\<And>d. group_fine d \<Longrightarrow> group_fine (f d)) \<Longrightarrow>
    (\<And>d. gd_VoteKick (f d) \<longrightarrow> gd_VoteKick d) \<Longrightarrow> good C I v (upd_group g f w)"
  by (auto simp: good_def upd_group_def data_fine_def)

lemma good_lcall [intro!]: "good C I v w \<Longrightarrow> good C I v (lcall c w)"
  by (simp add: good_def lcall_def data_fine_def)

lemma good_send [intro!]: "good C I v w \<Longrightarrow> good C I v (send e g c w)"
  by (simp add: send_def good_lcall)

lemma good_lassert [intro!]: "good C I v w \<Longrightarrow> good C I v (lassert b w)"
  by (simp add: good_def lassert_def data_fine_def)

lemma good_SetState [intro!]: "good C I v w \<Longrightarrow> good C I v (SetState g s w)"
  by (auto simp: SetState_def player_fine_SetState group_fine_SetState intro!: good_upd_player good_upd_group)

lemma good_RestoreState [intro!]: "good C I v w \<Longrightarrow> good C I v (RestoreState g w)"
  by (auto simp: RestoreState_def player_fine_RestoreState group_fine_RestoreState
      intro!: good_upd_player good_upd_group)

lemma good_DecreaseKicksLeft [intro!]: "good C I v w \<Longrightarrow> good C I v (DecreaseKicksLeft gg w)"
  by (simp add: DecreaseKicksLeft_def good_upd_group group_fine_DecreaseKicksLeft)

lemma good_small [intro!]:
  assumes "good C I v w"
  shows "good C I v (SetComment g c w)" "good C I v (SetTicket g t w)" "good C I v (SetTeam e g tm w)"
    "good C I v (SetGroup g gg w)" "good C I v (SetShortage g b w)"
    "good C I v (SetLeader gg g w)" "good C I v (AddPlayerToGroup gg g w)"
    "good C I v (fst (RemovePlayerFromGroup gg g w))"
  using assms
  by (auto simp: SetComment_def SetTicket_def SetTeam_def SetGroup_def SetLeader_def AddPlayerToGroup_def
      RemovePlayerFromGroup_def SetShortage_def player_fine_def group_fine_def
      Group_AddPlayer_def Group_RemovePlayer_def Let_def
      intro!: good_upd_player good_upd_group)

lemma good_stores [intro!]:
  assumes "good C I v w"
  shows "good C I v (SetShortageRoleMask dg r w)"
    "good C I v (upd_queue q f w)" "good C I v (LeaveQueue e q g w)" "good C I v (SetOptions o' w)"
    "good C I v (Clean w)" "good C I v (w\<lparr>QueuesStore := qs\<rparr>)" "good C I v (w\<lparr>QueueTimer := t'\<rparr>)"
  using assms by (auto simp: good_def data_fine_def SetShortageRoleMask_def upd_queue_def LeaveQueue_def
      SetOptions_def Clean_def)

lemma good_fold [intro!]: "good C I v w \<Longrightarrow> (\<And>x w. good C I v w \<Longrightarrow> good C I v (f x w)) \<Longrightarrow> good C I v (fold f xs w)"
  by (induction xs arbitrary: w) auto

text \<open>A role that is set goes with a state that is not \<^verbatim>\<open>LFG_STATE_NONE\<close>.\<close>

lemma good_SetRoles_queued [intro!]:
  "good C I v w \<Longrightarrow> good C I v (SetRoles g r (SetState g LFG_STATE_QUEUED w))"
  by (auto simp: good_def data_fine_def SetRoles_def SetState_def upd_player_def upd_group_def
      Player_SetState_def player_fine_def settled_state_def Group_SetState_def group_fine_def)

lemma good_rolecheck_member [intro!]: "good C I v w \<Longrightarrow> good C I v (rolecheck_member e rc ds chosen x w)"
  by (auto simp: rolecheck_member_def Let_def good_SetRoles_queued split: prod.splits option.splits)

lemma good_put_check:
  "good C I v w \<Longrightarrow> (g \<notin> C \<Longrightarrow> check_fine rc) \<Longrightarrow> good C I v (w\<lparr>RoleChecksStore := om_put g rc (RoleChecksStore w)\<rparr>)"
  by (auto simp: good_def data_fine_def)

lemma good_erase_check:
  "good (insert g C) I v w \<Longrightarrow> good C I v (w\<lparr>RoleChecksStore := om_erase g (RoleChecksStore w)\<rparr>)"
  by (auto simp: good_def data_fine_def)

lemma good_put_proposal:
  "good C I v w \<Longrightarrow> (i \<notin> I \<Longrightarrow> proposal_fine p) \<Longrightarrow> good C I v (w\<lparr>ProposalsStore := om_put i p (ProposalsStore w)\<rparr>)"
  by (auto simp: good_def data_fine_def)

lemma good_erase_proposal:
  "good C (insert i I) v w \<Longrightarrow> good C I v (w\<lparr>ProposalsStore := om_erase i (ProposalsStore w)\<rparr>)"
  by (auto simp: good_def data_fine_def)

lemma good_weaken: "good C I v w \<Longrightarrow> C \<subseteq> C' \<Longrightarrow> I \<subseteq> I' \<Longrightarrow> good C' I' v w"
  by (auto simp: good_def)

section \<open>Role checks, proposals, leaving\<close>

lemma good_UpdateRoleCheck [intro!]:
  assumes "good C I v w"
  shows "good C I v (UpdateRoleCheck e gg g roles w)"
proof (cases "gg = 0 \<or> om_get (RoleChecksStore w) gg = None")
  case True
  with assms show ?thesis by (auto simp: UpdateRoleCheck_def)
next
  case False
  then obtain rc where rc: "om_get (RoleChecksStore w) gg = Some rc" and nz: "gg \<noteq> 0" by auto
  let ?w0 = "\<lambda>rc. w\<lparr>RoleChecksStore := om_put gg rc (RoleChecksStore w)\<rparr>"
  have "good (insert gg C) I v w" using assms by (rule good_weaken) auto
  then have step: "good (insert gg C) I v (fold (rolecheck_member e rc ds chosen) ps (?w0 rc))" for rc ds chosen ps
    by (intro good_fold good_rolecheck_member good_put_check) auto
  have keep: "rc_state rc = LFG_ROLECHECK_INITIALITING \<Longrightarrow> good C I v (fold (rolecheck_member e rc ds chosen) ps (?w0 rc))"
    for rc ds chosen ps
    using assms by (intro good_fold good_rolecheck_member good_put_check) (simp_all add: check_fine_def)
  note parts = good_erase_check good_stores(2) good_SetState good_RestoreState step keep
  show ?thesis
    by (cases "rc_state (answer_rolecheck e g roles rc)") (auto simp: UpdateRoleCheck_def Let_def rc nz intro!: parts)
qed

lemma good_notify_player [intro!]: "good C I v w \<Longrightarrow> good C I v (notify_player e p type removed x w)"
  by (auto simp: notify_player_def Let_def split: prod.splits)

lemma good_RemoveProposal_at:
  assumes "good C (insert i I) v w"
  shows "good C I v (RemoveProposal e i p type w)"
  using assms unfolding RemoveProposal_def Let_def by (intro good_erase_proposal) auto

lemma good_insert: "good C I v w \<Longrightarrow> good C (insert i I) v w"
  by (rule good_weaken) auto

lemma good_RemoveProposal [intro!]: "good C I v w \<Longrightarrow> good C I v (RemoveProposal e i p type w)"
  by (intro good_RemoveProposal_at good_insert)

lemma good_leave_member [intro!]: "good C I v w \<Longrightarrow> good C I v (leave_member e s type g w)"
  by (auto simp: leave_member_def)

lemma good_leave_queued [intro!]: "good C I v w \<Longrightarrow> good C I v (leave_queued e g gg type w)"
  by (auto simp: leave_queued_def Let_def)

lemma good_leave_proposal [intro!]: "good C I v w \<Longrightarrow> good C I v (leave_proposal e g gg w)"
  by (auto simp: leave_proposal_def Let_def split: option.split)

lemma good_LeaveLfg [intro!]: "good C I v w \<Longrightarrow> good C I v (LeaveLfg e g disconnected w)"
  unfolding LeaveLfg_def Let_def by (intro good_small(5)) (auto split: lfg_state.split)

section \<open>Hooks\<close>

lemma good_RemovePlayerData: "good C I v w \<Longrightarrow> good C I v (RemovePlayerData g w)"
  by (auto simp: good_def data_fine_def RemovePlayerData_def player_fine_init)

lemma good_SetupGroupMember [intro!]:
  assumes w: "good C I v w"
  shows "good C I v (SetupGroupMember g gg w)"
proof -
  have "player_fine d \<Longrightarrow> player_fine (Player_SetState s (d\<lparr>pd_Dungeons := ds\<rparr>))" for d s ds
    by (auto simp: player_fine_def Player_SetState_def settled_state_def Let_def)
  then have "good C I v (SetState g s (SetSelectedDungeons g ds w))" for s ds
    using w by (auto simp: good_def data_fine_def SetSelectedDungeons_def SetState_def upd_player_def upd_group_def
        group_fine_SetState)
  then show ?thesis
    unfolding SetupGroupMember_def Let_def by (intro good_small)
qed

lemma good_remove_member [intro!]: "good C I v w \<Longrightarrow> good C I v (remove_member e forming g w)"
  by (auto simp: remove_member_def Let_def)

lemma good_RemoveGroupData [intro!]:
  assumes "good C I v w"
  shows "good C I v (RemoveGroupData e g w)"
proof -
  have "good C I v (fold (remove_member e b) ps w)" for b ps
    using assms by auto
  then show ?thesis
    by (auto simp: RemoveGroupData_def Let_def good_def data_fine_def group_fine_init)
qed

fun starts_vote :: "group_hook \<Rightarrow> bool" where
  "starts_vote (HookRemoveMember gg isLFG g method kicker reason) = (isLFG \<and> method = GROUP_REMOVEMETHOD_KICK)"
| "starts_vote _ = False"

text \<open>The group code begins no kick vote while it carries out a call of the manager.\<close>

definition quiet_hooks :: "mgr_env \<Rightarrow> bool" where
  "quiet_hooks e \<longleftrightarrow> (\<forall>log. \<forall>h \<in> set (me_hooks e log). \<not> starts_vote h)"

lemma good_OnRemoveMember:
  "good C I v w \<Longrightarrow> \<not> (isLFG \<and> method = GROUP_REMOVEMETHOD_KICK) \<Longrightarrow>
    good C I v (OnRemoveMember e gg isLFG g method kicker reason w)"
  by (auto simp: OnRemoveMember_def Let_def case_prod_unfold)

lemma good_run_hook: "good C I v w \<Longrightarrow> \<not> starts_vote h \<Longrightarrow> good C I v (run_hook e h w)"
  by (cases h) (auto simp: OnAddMember_def OnDisband_def OnChangeLeader_def OnInviteMember_def Let_def
      intro: good_OnRemoveMember)

lemma good_run_hooks:
  "good C I v w \<Longrightarrow> \<forall>h \<in> set hs. \<not> starts_vote h \<Longrightarrow> good C I v (fold (run_hook e) hs w)"
  by (induction hs arbitrary: w) (simp_all add: good_run_hook)

lemma good_group_call [intro!]: "quiet_hooks e \<Longrightarrow> good C I v w \<Longrightarrow> good C I v (group_call e c w)"
  unfolding group_call_def Let_def by (intro good_run_hooks) (auto simp: quiet_hooks_def)

lemma good_OnLogout [intro!]: "good C I v w \<Longrightarrow> good C I v (OnLogout e g gg d w)"
  by (auto simp: OnLogout_def)

lemma good_OnLogin [intro!]: "good C I v w \<Longrightarrow> good C I v (OnLogin e g gg t w)"
  by (auto simp: OnLogin_def split: option.splits)

lemma good_OnMapChanged [intro!]: "quiet_hooks e \<Longrightarrow> good C I v w \<Longrightarrow> good C I v (OnMapChanged e g m d gg w)"
  by (auto simp: OnMapChanged_def split: option.splits)

section \<open>Making a group\<close>

lemma good_group_player [intro!]:
  "quiet_hooks e \<Longrightarrow> good C I v (snd acc) \<Longrightarrow> good C I v (snd (group_player e raid role g acc))"
  by (cases acc) (auto simp: group_player_def Let_def split: option.splits prod.splits)

lemma good_group_players:
  "quiet_hooks e \<Longrightarrow> good C I v (snd acc) \<Longrightarrow> good C I v (snd (fold (\<lambda>g. group_player e raid (f g) g) gs acc))"
proof (induction gs arbitrary: acc)
  case (Cons g gs)
  show ?case using Cons.IH [OF Cons.prems(1) good_group_player [OF Cons.prems]] by simp
qed simp

text \<open>The new group's dungeon is set together with the state that keeps it.\<close>

lemma good_SetDungeon: "IsGroup g \<Longrightarrow> good C I v w \<Longrightarrow> good C I v (SetState g LFG_STATE_DUNGEON (SetLfgDungeon g d w))"
  by (auto simp: good_def data_fine_def SetLfgDungeon_def SetState_def upd_group_def Group_SetState_def
      group_fine_def settled_state_def)

text \<open>The new group has the guid of a group, and so has the one a proposal continues.\<close>

definition group_guids :: "mgr_env \<Rightarrow> bool" where
  "group_guids e \<longleftrightarrow> IsGroup (me_new_group e) \<and> (\<forall>g. me_group_exists e g \<longrightarrow> IsGroup g)"

lemma group_player_guid:
  "(\<And>gg. fst acc = Some gg \<Longrightarrow> IsGroup gg) \<Longrightarrow> group_guids e \<Longrightarrow>
    fst (group_player e raid role g acc) = Some gg \<Longrightarrow> IsGroup gg"
  by (cases acc) (auto simp: group_player_def group_guids_def Let_def split: option.splits prod.splits if_splits)

lemma group_players_guid:
  "(\<And>gg. fst acc = Some gg \<Longrightarrow> IsGroup gg) \<Longrightarrow> group_guids e \<Longrightarrow>
    fst (fold (\<lambda>g. group_player e raid (f g) g) gs acc) = Some gg \<Longrightarrow> IsGroup gg"
proof (induction gs arbitrary: acc)
  case (Cons g gs)
  have "IsGroup gg'" if "fst (group_player e raid (f g) g acc) = Some gg'" for gg'
    using group_player_guid [OF Cons.prems(1,2)] that by blast
  from Cons.IH [OF this Cons.prems(2)] Cons.prems(3) show ?case by simp
qed simp

lemma good_MakeNewGroup [intro!]:
  assumes e: "quiet_hooks e" "group_guids e" and w: "good C I v w"
  shows "good C I v (MakeNewGroup e p w)"
proof (cases "dungeon_at e (lp_dungeonId p)")
  case None
  with w show ?thesis by (auto simp: MakeNewGroup_def Let_def)
next
  case (Some d)
  let ?grp0 = "if lp_groupGuid p \<noteq> 0 \<and> me_group_exists e (lp_groupGuid p) then Some (lp_groupGuid p) else None"
  obtain grp w2 where f: "fold (\<lambda>g. group_player e (di_raid d) (role_in p g) g) (formation p)
      (?grp0, lassert (roles_valid p) w) = (grp, w2)" by fastforce
  have g2: "good C I v w2"
    using good_group_players [of e C I v "(?grp0, lassert (roles_valid p) w)" "di_raid d" "role_in p" "formation p"]
      e(1) w f by auto
  have guid: "IsGroup gg" if "grp = Some gg" for gg
    using group_players_guid [of "(?grp0, lassert (roles_valid p) w)" e "di_raid d" "role_in p" "formation p" gg]
      e(2) f that by (auto simp: group_guids_def split: if_splits)
  have last: "good C I v (fold (\<lambda>g w. if me_in_world e g then lcall (CallTeleport g False) w else w) gs
      (lcall c (SetState gg LFG_STATE_DUNGEON (SetLfgDungeon gg x w'))))" if "IsGroup gg" "good C I v w'" for gg gs c x w'
    using good_SetDungeon [OF that] by (intro good_fold good_lcall) auto
  show ?thesis
  proof (cases grp)
    case None
    with g2 show ?thesis by (auto simp: MakeNewGroup_def Let_def Some f)
  next
    case g: (Some gg)
    show ?thesis
      unfolding MakeNewGroup_def Let_def Some f g option.case prod.case
      by (rule last [OF guid [OF g]]) (rule good_lcall [OF g2])
  qed
qed

section \<open>Answers to a proposal\<close>

lemma good_found_player [intro!]: "good C I v w \<Longrightarrow> good C I v (found_player e q p b ds c x w)"
  by (auto simp: found_player_def Let_def split: prod.splits)

lemma proposal_fine_agree:
  "proposal_fine p \<Longrightarrow> proposal_fine (set_accept g LFG_ANSWER_AGREE p)"
  by (auto simp: proposal_fine_def set_accept_def split: option.splits)

lemma good_UpdateProposal [intro!]:
  assumes e: "quiet_hooks e" "group_guids e" and w: "good C I v w"
  shows "good C I v (UpdateProposal e i g accept w)"
proof (cases "om_get (ProposalsStore w) i")
  case None
  with w show ?thesis by (simp add: UpdateProposal_def)
next
  case (Some p)
  have fine: "i \<notin> I \<Longrightarrow> proposal_fine p" using w Some by (simp add: good_def)
  have at: "good C (insert i I) v (w\<lparr>ProposalsStore := om_put i p' (ProposalsStore w)\<rparr>)" for p'
    using good_insert [OF w] by (rule good_put_proposal) simp
  have at2: "good C (insert i I) v (w\<lparr>ProposalsStore := om_put i p'' (om_put i p' (ProposalsStore w))\<rparr>)" for p' p''
    using good_put_proposal [OF at, of i p''] by simp
  have kept: "good C I v (w\<lparr>ProposalsStore := om_put i (set_accept g LFG_ANSWER_AGREE p) (ProposalsStore w)\<rparr>)"
    using w fine by (auto intro!: good_put_proposal proposal_fine_agree)
  show ?thesis
  proof (cases accept)
    case True
    have kept': "good C I v (fold (\<lambda>(a, d). send e a (c a d))  xs
        (w\<lparr>ProposalsStore := om_put i (set_accept g LFG_ANSWER_AGREE p) (ProposalsStore w)\<rparr>))" for xs c
      using kept by (auto simp: case_prod_unfold)
    show ?thesis
      using w True
      by (auto simp: UpdateProposal_def Let_def Some intro!: kept' at2 good_erase_proposal good_MakeNewGroup e)
  next
    case False
    show ?thesis
      using w False by (auto simp: UpdateProposal_def Let_def Some intro!: good_RemoveProposal_at at)
  qed
qed

section \<open>The update\<close>

lemma good_expire_rolecheck [intro!]: "good C I v w \<Longrightarrow> good C I v (expire_rolecheck e x w)"
proof -
  assume w: "good C I v w"
  obtain gg rc where x: "x = (gg, rc)" by fastforce
  have "good (insert gg C) I v w" using w by (rule good_weaken) auto
  with w show ?thesis
    unfolding expire_rolecheck_def x prod.case Let_def by (auto intro!: good_erase_check)
qed

lemma good_expire_proposal [intro!]: "good C I v w \<Longrightarrow> good C I v (expire_proposal e x w)"
  by (auto simp: expire_proposal_def split: prod.splits)

lemma proposal_fine_of_queue: "proposal_fine (of_queue p)"
  by (auto simp: proposal_fine_def of_queue_def om_get_def dest!: map_of_SomeD split: if_splits)

lemma good_AddProposal [intro!]: "good C I v w \<Longrightarrow> good C I v (AddProposal p w)"
  by (auto simp: AddProposal_def Let_def good_def data_fine_def proposal_fine_of_queue)

lemma good_find_in_queue [intro!]: "good C I v w \<Longrightarrow> good C I v (find_in_queue e q w)"
  by (auto simp: find_in_queue_def Let_def)

lemma good_begin_player [intro!]: "good C I v w \<Longrightarrow> good C I v (begin_player e p g w)"
  by (auto simp: begin_player_def Let_def)

lemma good_begin_proposal [intro!]:
  "quiet_hooks e \<Longrightarrow> group_guids e \<Longrightarrow> good C I v w \<Longrightarrow> good C I v (begin_proposal e i w)"
  by (auto simp: begin_proposal_def Let_def split: option.splits)

lemma good_Update_find [intro!]:
  "quiet_hooks e \<Longrightarrow> group_guids e \<Longrightarrow> good C I v w \<Longrightarrow> good C I v (Update_find e w)"
  by (auto simp: Update_find_def Let_def)

lemma good_queue_timers: "good C I v (fst acc) \<Longrightarrow> good C I v (fst (queue_timers e q acc))"
  by (cases acc) (auto simp: queue_timers_def Let_def split: prod.splits)

lemma good_queue_timers_fold: "good C I v (fst acc) \<Longrightarrow> good C I v (fst (fold (queue_timers e) qs acc))"
proof (induction qs arbitrary: acc)
  case (Cons q qs)
  show ?case using Cons.IH [OF good_queue_timers [OF Cons.prems]] by simp
qed simp

lemma good_Update_queues [intro!]:
  assumes "good C I v w"
  shows "good C I v (Update_queues e w)"
proof -
  obtain w1 counts where f: "fold (queue_timers e) (map fst (QueuesStore w)) (w\<lparr>QueueTimer := 0\<rparr>, []) = (w1, counts)"
    by fastforce
  have "good C I v w1"
    using good_queue_timers_fold [of C I v "(w\<lparr>QueueTimer := 0\<rparr>, [])" e "map fst (QueuesStore w)"] assms f by auto
  then show ?thesis
    by (auto simp: Update_queues_def f Let_def case_prod_unfold)
qed

section \<open>The end of a dungeon\<close>

lemma good_reward_quests [intro!]: "good C I v w \<Longrightarrow> good C I v (reward_quests e gg g r d rw w)"
  by (auto simp: reward_quests_def Let_def)

lemma good_finish_player [intro!]: "good C I v w \<Longrightarrow> good C I v (finish_player e gg d g w)"
  by (auto simp: finish_player_def Let_def split: option.splits)

lemma good_FinishDungeon [intro!]: "good C I v w \<Longrightarrow> good C I v (FinishDungeon e gg d w)"
  by (auto simp: FinishDungeon_def Let_def)

section \<open>Joining\<close>

lemma good_invite_member [intro!]: "good C I v w \<Longrightarrow> good C I v (invite_member b ds c t g w)"
proof -
  assume w: "good C I v w"
  have "player_fine d \<Longrightarrow> player_fine (Player_SetState LFG_STATE_ROLECHECK d\<lparr>pd_Ticket := t, pd_Dungeons := ds\<rparr>)" for d
    by (auto simp: player_fine_def Player_SetState_def settled_state_def)
  then have "good C I v (SetSelectedDungeons g ds (SetTicket g t (SetState g LFG_STATE_ROLECHECK w')))" if "good C I v w'" for w'
    using that by (auto simp: good_def data_fine_def SetSelectedDungeons_def SetTicket_def SetState_def upd_player_def
        upd_group_def group_fine_SetState)
  then show ?thesis
    using w by (auto simp: invite_member_def Let_def)
qed

lemma good_join_party [intro!]: "good C I v w \<Longrightarrow> good C I v (join_party e gr g roles b c comment t w)"
  unfolding join_party_def Let_def
  by (intro good_UpdateRoleCheck good_put_check) (auto simp: check_fine_def)

lemma upd_player_twice: "upd_player g f (upd_player g h w) = upd_player g (f \<circ> h) w"
  by (simp add: upd_player_def)

lemma lcall_upd_player: "lcall m (upd_player g f w) = upd_player g f (lcall m w)"
  by (simp add: upd_player_def lcall_def)

lemma good_upd_any: "IsGroup g \<Longrightarrow> good C I v w \<Longrightarrow> good C I v (upd_player g f w)"
  by (auto simp: good_def upd_player_def data_fine_def)

text \<open>A player's data may change freely on the way to a state other than the settled ones.\<close>

lemma good_enter:
  assumes "good C I v w" and s: "\<not> settled_state s"
    and f: "\<And>d. pd_OldState (f d) = pd_OldState d"
  shows "good C I v (SetState g s (lcall m (upd_player g f w)))"
proof (cases "IsGroup g")
  case True
  with assms(1) show ?thesis by (intro good_SetState good_lcall good_upd_any)
next
  case False
  have fine: "player_fine (Player_SetState s (f d))" if "player_fine d" for d
    using that s f [of d] by (auto simp: player_fine_def Player_SetState_def settled_state_def)
  from False have "SetState g s (lcall m (upd_player g f w)) = upd_player g (Player_SetState s \<circ> f) (lcall m w)"
    by (simp add: SetState_def lcall_upd_player upd_player_twice)
  then show ?thesis using assms(1) fine by (simp add: good_upd_player good_lcall)
qed

lemma good_join_alone [intro!]:
  assumes w: "good C I v w"
  shows "good C I v (join_alone e g roles b c comment t w)"
proof -
  have s: "\<not> settled_state (if raid then LFG_STATE_RAIDBROWSER else LFG_STATE_QUEUED)" for raid
    by (simp add: settled_state_def)
  note enter = good_enter [OF good_stores(2) [OF w] s]
  show ?thesis
    unfolding join_alone_def Let_def SetRoles_def SetTicket_def SetSelectedDungeons_def
    by (cases b) (simp_all add: upd_player_twice good_lcall enter)
qed

lemma good_join_accept [intro!]: "good C I v w \<Longrightarrow> good C I v (join_accept e j roles b c comment w)"
  by (auto simp: join_accept_def Let_def split: option.split)

lemma good_JoinLfg [intro!]: "good C I v w \<Longrightarrow> good C I v (JoinLfg e j roles ds comment w)"
  by (auto simp: JoinLfg_def Let_def)

lemma good_HandleLfgJoin [intro!]: "good C I v w \<Longrightarrow> good C I v (HandleLfgJoin e j roles slots comment w)"
  by (auto simp: HandleLfgJoin_def Let_def)

section \<open>Kick votes\<close>

text \<open>\<open>fine\<close> without the votes: what the operations on votes keep.\<close>

abbreviation stores_fine :: "lfg_world \<Rightarrow> bool" where
  "stores_fine w \<equiv> good {} {} w w"

lemma lfg_inv_iff: "lfg_inv w \<longleftrightarrow> stores_fine w \<and> boots_fine w"
  by (simp add: lfg_inv_def)

lemma stores_fine_boots [simp]: "stores_fine (w\<lparr>BootsStore := bs\<rparr>) = stores_fine w"
  by (simp add: good_def data_fine_def)

lemma stores_fine_SetVoteKick: "stores_fine w \<Longrightarrow> stores_fine (SetVoteKick g b w)"
  by (auto simp: good_def data_fine_def SetVoteKick_def upd_group_def lassert_def group_fine_def)

lemma stores_fine_send: "stores_fine w \<Longrightarrow> stores_fine (send e g c w)"
  by (auto simp: good_def data_fine_def send_def lcall_def)

lemma send_fields [simp]:
  "GroupsStore (send e g c w) = GroupsStore w" "BootsStore (send e g c w) = BootsStore w"
  "PlayersStore (send e g c w) = PlayersStore w"
  by (simp_all add: send_def lcall_def)

lemma send_boot_fields [simp]:
  "GroupsStore (send_boot e b gs w) = GroupsStore w" "BootsStore (send_boot e b gs w) = BootsStore w"
  "stores_fine w \<Longrightarrow> stores_fine (send_boot e b gs w)"
  unfolding send_boot_def by (induction gs arbitrary: w) (auto simp: stores_fine_send)

lemma close_boot_fields [simp]:
  "GroupsStore (close_boot e b w) = GroupsStore w" "BootsStore (close_boot e b w) = BootsStore w"
  "stores_fine w \<Longrightarrow> stores_fine (close_boot e b w)"
  by (simp_all add: close_boot_def)

lemma SetVoteKick_fields [simp]:
  "BootsStore (SetVoteKick g b w) = BootsStore w"
  "gd_VoteKick (GroupsStore (SetVoteKick g b w) h) = (if h = g then b else gd_VoteKick (GroupsStore w h))"
  by (simp_all add: SetVoteKick_def upd_group_def lassert_def)

lemma inv_InitBoot: "lfg_inv w \<Longrightarrow> lfg_inv (InitBoot e gg kicker victim reason w)"
  by (auto simp: lfg_inv_iff InitBoot_def Let_def stores_fine_SetVoteKick boots_fine_def split: if_splits)

lemma good_trans: "good C I u v \<Longrightarrow> good C I v w \<Longrightarrow> good C I u w"
  by (auto simp: good_def)

text \<open>The end of a vote: the flag is cleared, calls are made, the vote is erased.\<close>

lemma inv_end_vote:
  assumes "boots_fine w0" "stores_fine w"
    and v: "good {} {} v w" "\<not> gd_VoteKick (GroupsStore v gg)"
      "\<And>g. g \<noteq> gg \<Longrightarrow> gd_VoteKick (GroupsStore v g) = gd_VoteKick (GroupsStore w0 g)"
      "\<And>g. g \<noteq> gg \<Longrightarrow> om_get (BootsStore v) g = om_get (BootsStore w0) g"
  shows "lfg_inv (w\<lparr>BootsStore := om_erase gg (BootsStore w)\<rparr>)"
proof -
  have b: "BootsStore w = BootsStore v" and k: "\<And>g. gd_VoteKick (GroupsStore w g) \<Longrightarrow> gd_VoteKick (GroupsStore v g)"
    using v(1) by (auto simp: good_def)
  have "boots_fine (w\<lparr>BootsStore := om_erase gg (BootsStore w)\<rparr>)"
    using assms(1) v(2,3,4) k unfolding boots_fine_def by (auto simp: b split: if_splits) metis
  with assms(2) show ?thesis by (simp add: lfg_inv_iff)
qed

lemma good_self: "good C I v w \<Longrightarrow> good C I w w"
  by (auto simp: good_def)

lemma inv_expire_boot: "lfg_inv w \<Longrightarrow> lfg_inv (expire_boot e x w)"
proof -
  assume w: "lfg_inv w"
  obtain gg b where x: "x = (gg, b)" by fastforce
  let ?w1 = "SetVoteKick gg False (close_boot e (b\<lparr>pb_inProgress := False\<rparr>) w)"
  have s: "stores_fine ?w1" using w by (simp add: lfg_inv_iff stores_fine_SetVoteKick)
  from w have bf: "boots_fine w" by (simp add: lfg_inv_iff)
  have "lfg_inv (?w1\<lparr>BootsStore := om_erase gg (BootsStore ?w1)\<rparr>)"
    by (rule inv_end_vote [OF bf s s]) simp_all
  with w show ?thesis unfolding expire_boot_def x prod.case Let_def by auto
qed

lemma inv_UpdateBoot:
  assumes e: "quiet_hooks e" and w: "lfg_inv w"
  shows "lfg_inv (UpdateBoot e g accept w)"
proof -
  let ?gg = "GetGroup w g"
  from w have bf: "boots_fine w" and sf: "stores_fine w" by (simp_all add: lfg_inv_iff)
  have put: "lfg_inv (w\<lparr>BootsStore := om_put ?gg (b\<lparr>pb_votes := vs\<rparr>) (BootsStore w)\<rparr>)"
    if "om_get (BootsStore w) ?gg = Some b" for b vs
    using bf sf that by (auto simp: lfg_inv_iff boots_fine_def)
  have fin: "lfg_inv (end_boot e ?gg b passed w')"
    if w': "stores_fine w'" "GroupsStore w' = GroupsStore w"
      "\<And>h. h \<noteq> ?gg \<Longrightarrow> om_get (BootsStore w') h = om_get (BootsStore w) h" for b passed w'
  proof -
    let ?b = "b\<lparr>pb_inProgress := False\<rparr>"
    let ?v = "SetVoteKick ?gg False (close_boot e ?b (w'\<lparr>BootsStore := om_put ?gg ?b (BootsStore w')\<rparr>))"
    have v: "stores_fine ?v" using w'(1) by (simp add: stores_fine_SetVoteKick)
    have erase: "lfg_inv (u\<lparr>BootsStore := om_erase ?gg (BootsStore u)\<rparr>)" if u: "good {} {} ?v u" for u
      by (rule inv_end_vote [OF bf good_self [OF u] u]) (simp_all add: w'(2,3))
    show ?thesis
      unfolding end_boot_def Let_def by (rule erase) (use v e in auto)
  qed
  show ?thesis
  proof (cases "?gg = 0 \<or> om_get (BootsStore w) ?gg = None")
    case True
    with w show ?thesis by (auto simp: UpdateBoot_def Let_def)
  next
    case False
    then obtain b where b: "om_get (BootsStore w) ?gg = Some b" and nz: "?gg \<noteq> 0" by auto
    show ?thesis
      unfolding UpdateBoot_def Let_def b option.case
      using sf by (auto simp: nz w put [OF b] split: option.split intro!: fin)
  qed
qed

section \<open>The operations as a machine\<close>

definition step_env_ok :: "mgr_env \<times> lfg_op \<Rightarrow> bool" where
  "step_env_ok x \<longleftrightarrow> quiet_hooks (fst x) \<and> group_guids (fst x)"

lemma fold_inv: "lfg_inv w \<Longrightarrow> (\<And>x w. lfg_inv w \<Longrightarrow> lfg_inv (f x w)) \<Longrightarrow> lfg_inv (fold f xs w)"
  by (induction xs arbitrary: w) auto

lemma inv_Update:
  assumes e: "quiet_hooks e" "group_guids e" and w: "lfg_inv w"
  shows "lfg_inv (LFGMgr_Update e diff w)"
proof -
  have "lfg_inv (fold (expire_proposal e) ps (fold (expire_rolecheck e) rs w))" for ps rs
    by (rule good_inv [OF w]) (use inv_good [OF w] in auto)
  then have x: "lfg_inv (Update_expire e w)"
    unfolding Update_expire_def Let_def by (rule fold_inv) (rule inv_expire_boot)
  then have y: "lfg_inv (Update_find e (Update_expire e w))"
    by (rule good_inv) (use inv_good [OF x] e in auto)
  show ?thesis
    unfolding LFGMgr_Update_def Let_def using w good_inv [OF y] inv_good [OF y] by auto
qed

lemma inv_OnRemoveMember: "lfg_inv w \<Longrightarrow> lfg_inv (OnRemoveMember e gg isLFG g method kicker reason w)"
proof (cases "isLFG \<and> method = GROUP_REMOVEMETHOD_KICK")
  case True
  assume "lfg_inv w"
  with True show ?thesis by (auto simp: OnRemoveMember_def inv_InitBoot)
next
  case False
  assume w: "lfg_inv w"
  show ?thesis by (rule good_inv [OF w good_OnRemoveMember [OF inv_good [OF w] False]])
qed

lemma inv_run_hook: "lfg_inv w \<Longrightarrow> lfg_inv (run_hook e h w)"
proof (cases "starts_vote h")
  case True
  assume "lfg_inv w"
  with True show ?thesis by (cases h) (auto simp: inv_OnRemoveMember)
next
  case False
  assume w: "lfg_inv w"
  show ?thesis by (rule good_inv [OF w good_run_hook [OF inv_good [OF w] False]])
qed

lemma inv_step:
  assumes x: "step_env_ok x" and w: "lfg_inv w"
  shows "lfg_inv (lfg_step w x)"
proof -
  obtain e c where xc: "x = (e, c)" by fastforce
  have e: "quiet_hooks e" "group_guids e" using x by (simp_all add: step_env_ok_def xc)
  note g = inv_good [OF w]
  show ?thesis
    unfolding xc
    by (cases c) (use e w g in \<open>auto simp: inv_Update inv_UpdateBoot inv_run_hook HandleLfgLeave_def
        HandleLfgSetRoles_def good_RemovePlayerData split: option.split intro!: good_inv [OF w]\<close>)
qed

lemma inv_init: "lfg_inv (LFGMgr_init options)"
  by (auto simp: lfg_inv_def good_def data_fine_def boots_fine_def LFGMgr_init_def player_fine_init group_fine_init)

interpretation lfg_manager: guarded_machine "LFGMgr_init options" lfg_step lfg_inv step_env_ok
  by unfold_locales (auto simp: inv_init inv_step)

section \<open>A small world\<close>

definition demo_group :: guid where "demo_group = 0x1F50000000000001"

definition demo_env :: mgr_env where
  "demo_env = \<lparr>me_now = 100,
     me_dungeon = (\<lambda>d. if d = 7 then Some \<lparr>requiredTanks = 1, requiredHealers = 1, requiredDamageDealers = 1\<rparr> else None),
     me_info = (\<lambda>d. \<lparr>di_id = d, di_type = LFG_TYPE_DUNGEON, di_raid = False, di_map = 33, di_group = 0,
        di_difficulty = 0, di_seasonal = False\<rparr>),
     me_cached = (\<lambda>_. []), me_store = [(7, 1)], me_rewards = (\<lambda>_. []), me_quest = (\<lambda>_. False),
     me_connected = (\<lambda>_. True), me_ignores = (\<lambda>_ _. False), me_draw = (\<lambda>_. 0), me_coin = (\<lambda>_. False),
     me_two_side = False, me_lfg_group = (\<lambda>_. False), me_lfr_group = (\<lambda>_. False),
     me_group_exists = (\<lambda>g. g = demo_group), me_new_group = demo_group, me_player_group = (\<lambda>_ _. None),
     me_hooks = (\<lambda>_. []), me_in_world = (\<lambda>_. True), me_in_dungeon_map = (\<lambda>_. False), me_locked = (\<lambda>_. []),
     me_bound = (\<lambda>_ _. None),
     me_finish = (\<lambda>_. \<lparr>ff_in_world = True, ff_same_map = True, ff_map_id = 33, ff_level = 85,
        ff_can_reward = (\<lambda>_. True), ff_satisfies = (\<lambda>_ _. True)\<rparr>)\<rparr>"

lemma demo_guids: "IsGroup demo_group" "\<not> IsGroup 1" "\<not> IsGroup 2" "\<not> IsGroup 3" "\<not> IsGroup 4" "\<not> IsGroup 5"
  by code_simp+

lemma demo_env_ok: "quiet_hooks demo_env" "group_guids demo_env"
  by (simp_all add: quiet_hooks_def group_guids_def demo_env_def demo_guids)

text \<open>A party of five players, led by the first.\<close>

definition demo_party :: lfg_world where
  "demo_party = (LFGMgr_init 1)\<lparr>
     PlayersStore := (\<lambda>g. LfgPlayerData_init\<lparr>pd_Group := if g \<in> {1, 2, 3, 4, 5} then demo_group else 0\<rparr>),
     GroupsStore := (\<lambda>_. LfgGroupData_init)(demo_group := LfgGroupData_init\<lparr>gd_Leader := 1, gd_Players := [1, 2, 3, 4, 5]\<rparr>)\<rparr>"

definition demo_ops :: "(mgr_env \<times> lfg_op) list" where
  "demo_ops = [(demo_env, OpHook (HookAddMember demo_group 1 1)), (demo_env, OpHook (HookAddMember demo_group 1 2)),
     (demo_env, OpHook (HookRemoveMember demo_group True 2 GROUP_REMOVEMETHOD_KICK 1 []))]"

definition demo_join :: "guid \<Rightarrow> join_player" where
  "demo_join g = \<lparr>jp_self = \<lparr>jm_guid = g, jm_permission = True, jm_battleground = False, jm_deserter = False,
     jm_cooldown = False\<rparr>, jp_frozen = False, jp_class = CLASS_PALADIN, jp_group = None\<rparr>"

text \<open>Three players alone, queued for a dungeon of three.\<close>

definition demo_queued :: lfg_world where
  "demo_queued = (LFGMgr_init 1)\<lparr>PlayersStore := (\<lambda>_. LfgPlayerData_init\<lparr>pd_State := LFG_STATE_QUEUED\<rparr>),
     QueuesStore := [(0, three_queue)]\<rparr>"

end
