(* ===== verification/Lfg_Manager_Rules.thy ===== *)
theory Lfg_Manager_Rules
  imports Lfg_Manager_Inv
begin

text \<open>
  What the dungeon finder's manager does: the outcome of kick votes against a plain count of the
  answers, of role checks, of failed proposals and of refused requests to join, and the proposals
  the update stores.
\<close>

section \<open>Kick votes\<close>













definition store_boot :: "guid \<Rightarrow> player_boot \<Rightarrow> lfg_world \<Rightarrow> lfg_world" where
  "store_boot gguid b w = w\<lparr>BootsStore := om_put gguid b (BootsStore w)\<rparr>"

lemma om_put_again [simp]: "om_put k v (om_put k u m) = om_put k v m"
  by (induction k u m rule: om_put.induct) auto

lemma store_boot_twice [simp]: "store_boot gg b (store_boot gg b' w) = store_boot gg b w"
  by (simp add: store_boot_def)

lemma store_boot_fields [simp]: "GetGroup (store_boot gg b w) g = GetGroup w g"
    "om_get (BootsStore (store_boot gg b w)) gg = Some b"
  by (simp_all add: store_boot_def GetGroup_def)


















section \<open>Proposals that fail\<close>

definition party_of :: "guid \<Rightarrow> lfg_player \<Rightarrow> guid" where
  "party_of g d = (if lp_group d \<noteq> 0 then lp_group d else g)"

definition refuses :: "update_type \<Rightarrow> lfg_player \<Rightarrow> bool" where
  "refuses type d \<longleftrightarrow> lp_accept d = LFG_ANSWER_DENY \<or> type = LFG_UPDATETYPE_PROPOSAL_FAILED \<and> lp_accept d \<noteq> LFG_ANSWER_AGREE"

text \<open>The parties with a member who refused, or did not answer in time.\<close>

definition refusing :: "update_type \<Rightarrow> lfg_proposal \<Rightarrow> guid set" where
  "refusing type p = {party_of g d |g d. (g, d) \<in> set (lp_players p) \<and> refuses type d}"

lemma refusing_code: "refusing type p = set (map (\<lambda>(g, d). party_of g d) (filter (\<lambda>(g, d). refuses type d) (lp_players p)))"
  by (auto simp: refusing_def)

lemma set_to_remove:
  "set (to_remove type ps gs) = set gs \<union> {party_of g d |g d. (g, d) \<in> set ps \<and> refuses type d}"
proof (induction ps arbitrary: gs)
  case (Cons x ps)
  obtain g d where x: "x = (g, d)" by fastforce
  let ?S = "\<lambda>ps. {party_of g d |g d. (g, d) \<in> set ps \<and> refuses type d}"
  have S: "?S (x # ps) = (if refuses type d then insert (party_of g d) (?S ps) else ?S ps)" by (auto simp: x)
  have "to_remove type (x # ps) gs = to_remove type ps (if refuses type d then insort_insert (party_of g d) gs else gs)"
    by (cases "lp_accept d") (simp_all add: x refuses_def party_of_def)
  then show ?case unfolding S by (simp add: Cons.IH set_insort_insert)
qed simp

definition marked :: "update_type \<Rightarrow> lfg_player \<Rightarrow> lfg_player" where
  "marked type d = (if type = LFG_UPDATETYPE_PROPOSAL_FAILED \<and> lp_accept d = LFG_ANSWER_PENDING
     then d\<lparr>lp_accept := LFG_ANSWER_DENY\<rparr> else d)"

lemma marked_fields [simp]:
  "refuses type (marked type d) = refuses type d" "party_of g (marked type d) = party_of g d"
  "lp_group (marked type d) = lp_group d"
  by (auto simp: marked_def refuses_def party_of_def)

lemma mark_players_eq: "mark_players type ps = map (\<lambda>(g, d). (g, marked type d)) ps"
  by (simp add: mark_players_def marked_def)

lemma in_marked: "(g, d) \<in> set ps \<Longrightarrow> (g, marked type d) \<in> set (mark_players type ps)"
  by (force simp: mark_players_eq)

lemma refusing_marked:
  "set (to_remove type (mark_players type (lp_players p)) []) = refusing type p"
proof
  show "set (to_remove type (mark_players type (lp_players p)) []) \<subseteq> refusing type p"
    unfolding set_to_remove refusing_def mark_players_eq by fastforce
  show "refusing type p \<subseteq> set (to_remove type (mark_players type (lp_players p)) [])"
  proof
    fix x
    assume "x \<in> refusing type p"
    then obtain g d where d: "(g, d) \<in> set (lp_players p)" "refuses type d" "x = party_of g d" by (auto simp: refusing_def)
    from in_marked [OF d(1), where type = type] d(2,3)
    show "x \<in> set (to_remove type (mark_players type (lp_players p)) [])"
      unfolding set_to_remove by (intro UnI2 CollectI exI [of _ g] exI [of _ "marked type d"]) simp
  qed
qed

text \<open>Guids of players and of groups are told apart by their type.\<close>

definition guids_fine :: "lfg_proposal \<Rightarrow> bool" where
  "guids_fine p \<longleftrightarrow> (\<forall>(g, d) \<in> set (lp_players p). \<not> IsGroup g \<and> (lp_group d \<noteq> 0 \<longrightarrow> IsGroup (lp_group d)))"

lemma not_group_0 [simp]: "\<not> IsGroup 0"
  by (simp add: IsGroup_def GetHigh_def)

lemma notify_player_players:
  assumes "\<not> IsGroup g" "lp_group d \<noteq> 0 \<longrightarrow> IsGroup (lp_group d)"
  shows "PlayersStore (notify_player e p type removed (g, d) w) a =
    (if a = g then (if party_of g d \<in> set removed then Player_RestoreState else Player_SetState LFG_STATE_QUEUED) (PlayersStore w g)
     else PlayersStore w a)"
  using assms by (auto simp: notify_player_def Let_def party_of_def SetState_def RestoreState_def upd_player_def upd_group_def)

lemma notify_player_groups:
  assumes "\<not> IsGroup g" "lp_group d \<noteq> 0 \<longrightarrow> IsGroup (lp_group d)"
  shows "GroupsStore (notify_player e p type removed (g, d) w) a =
    (if a = lp_group d \<and> lp_group d \<noteq> 0
     then (if a \<in> set removed then Group_RestoreState else Group_SetState LFG_STATE_QUEUED) (GroupsStore w a)
     else GroupsStore w a)"
  using assms by (auto simp: notify_player_def Let_def SetState_def RestoreState_def upd_player_def upd_group_def)

lemma notify_player_queues [simp]:
  "QueuesStore (notify_player e p type removed x w) = QueuesStore w"
  "ProposalsStore (notify_player e p type removed x w) = ProposalsStore w"
  by (cases x, simp add: notify_player_def Let_def SetState_def RestoreState_def upd_player_def upd_group_def send_def lcall_def)+

lemma notify_fold_queues [simp]:
  "QueuesStore (fold (notify_player e p type removed) ps w) = QueuesStore w"
  "ProposalsStore (fold (notify_player e p type removed) ps w) = ProposalsStore w"
  by (induction ps arbitrary: w) auto

text \<open>What the loop of messages does to a player and to a group.\<close>

lemma notify_fold_other:
  assumes "\<forall>(g, d) \<in> set ps. \<not> IsGroup g \<and> (lp_group d \<noteq> 0 \<longrightarrow> IsGroup (lp_group d))" "a \<notin> fst ` set ps"
  shows "PlayersStore (fold (notify_player e p type removed) ps w) a = PlayersStore w a"
  using assms by (induction ps arbitrary: w) (auto simp: notify_player_players)

lemma notify_fold_player:
  assumes "\<forall>(g, d) \<in> set ps. \<not> IsGroup g \<and> (lp_group d \<noteq> 0 \<longrightarrow> IsGroup (lp_group d))" "distinct (map fst ps)"
    and "(g, d) \<in> set ps"
  shows "PlayersStore (fold (notify_player e p type removed) ps w) g =
    (if party_of g d \<in> set removed then Player_RestoreState else Player_SetState LFG_STATE_QUEUED) (PlayersStore w g)"
  using assms
proof (induction ps arbitrary: w)
  case (Cons x ps)
  obtain h d' where x: "x = (h, d')" by fastforce
  show ?case
  proof (cases "h = g")
    case True
    then have "d' = d" "g \<notin> fst ` set ps" using Cons.prems x by (auto simp: image_iff)
    with True Cons.prems(1) x show ?thesis by (simp add: notify_fold_other notify_player_players)
  next
    case False
    with Cons x show ?thesis by (auto simp: notify_player_players)
  qed
qed simp

lemma notify_fold_old:
  assumes "\<forall>(g, d) \<in> set ps. \<not> IsGroup g \<and> (lp_group d \<noteq> 0 \<longrightarrow> IsGroup (lp_group d))"
  shows "gd_OldState (GroupsStore (fold (notify_player e p type removed) ps w) a) = gd_OldState (GroupsStore w a)"
  using assms
  by (induction ps arbitrary: w) (auto simp: notify_player_groups Group_RestoreState_def Group_SetState_def)

lemma notify_fold_group:
  assumes "\<forall>(g, d) \<in> set ps. \<not> IsGroup g \<and> (lp_group d \<noteq> 0 \<longrightarrow> IsGroup (lp_group d))"
    and "(\<exists>(g, d) \<in> set ps. lp_group d = a \<and> a \<noteq> 0) \<or>
        gd_State (GroupsStore w a) = (if a \<in> set removed then gd_OldState (GroupsStore w a) else LFG_STATE_QUEUED)"
  shows "gd_State (GroupsStore (fold (notify_player e p type removed) ps w) a) =
        (if a \<in> set removed then gd_OldState (GroupsStore w a) else LFG_STATE_QUEUED)"
  using assms
proof (induction ps arbitrary: w)
  case (Cons x ps)
  obtain h d where x: "x = (h, d)" by fastforce
  let ?w = "notify_player e p type removed (h, d) w"
  have gr: "GroupsStore ?w a = (if a = lp_group d \<and> lp_group d \<noteq> 0
     then (if a \<in> set removed then Group_RestoreState else Group_SetState LFG_STATE_QUEUED) (GroupsStore w a)
     else GroupsStore w a)"
    using Cons.prems(1) x by (intro notify_player_groups) auto
  then have old: "gd_OldState (GroupsStore ?w a) = gd_OldState (GroupsStore w a)"
    by (simp add: Group_RestoreState_def Group_SetState_def)
  have "(\<exists>(g, d) \<in> set ps. lp_group d = a \<and> a \<noteq> 0) \<or>
      gd_State (GroupsStore ?w a) = (if a \<in> set removed then gd_OldState (GroupsStore ?w a) else LFG_STATE_QUEUED)"
    using Cons.prems(2) gr old by (auto simp: x Group_RestoreState_def Group_SetState_def)
  then show ?case using Cons.IH [of ?w] Cons.prems(1) old by (simp add: x)
qed auto

lemma queue_at_upd [simp]: "queue_at (upd_queue q f w) q' = (if q' = q then f (queue_at w q) else queue_at w q')"
  by (simp add: queue_at_def upd_queue_def)

lemma queue_at_stores [simp]: "queue_at (w\<lparr>ProposalsStore := ps\<rparr>) q = queue_at w q"
    "queue_at (w\<lparr>RoleChecksStore := rs\<rparr>) q = queue_at w q"
  by (simp_all add: queue_at_def)

lemma queue_fields [simp]:
  "PlayersStore (upd_queue q f w) = PlayersStore w" "GroupsStore (upd_queue q f w) = GroupsStore w"
  "ProposalsStore (upd_queue q f w) = ProposalsStore w" "PlayersStore (LeaveQueue e q g w) = PlayersStore w"
  "GroupsStore (LeaveQueue e q g w) = GroupsStore w" "ProposalsStore (LeaveQueue e q g w) = ProposalsStore w"
  by (simp_all add: upd_queue_def LeaveQueue_def)

lemma leave_fold_fields [simp]:
  "PlayersStore (fold (LeaveQueue e q) gs w) = PlayersStore w" "GroupsStore (fold (LeaveQueue e q) gs w) = GroupsStore w"
  "ProposalsStore (fold (LeaveQueue e q) gs w) = ProposalsStore w"
  by (induction gs arbitrary: w) simp_all

lemma has_data_leave: "has_data (RemoveFromQueue e g s) h \<longleftrightarrow> h \<noteq> g \<and> has_data s h"
  by (simp add: has_data_def RemoveFromQueue_view(1))

lemma leave_fold_queue:
  "currentQueue (queue_at (fold (LeaveQueue e q) gs w) q) = filter (\<lambda>h. h \<notin> set gs) (currentQueue (queue_at w q))"
  "newToQueue (queue_at (fold (LeaveQueue e q) gs w) q) = filter (\<lambda>h. h \<notin> set gs) (newToQueue (queue_at w q))"
  "has_data (queue_at (fold (LeaveQueue e q) gs w) q) h \<longleftrightarrow> h \<notin> set gs \<and> has_data (queue_at w q) h"
  by (induction gs arbitrary: w)
    (auto simp: LeaveQueue_def RemoveFromQueue_view(3,4) has_data_leave removeAll_filter_not_eq
       intro!: filter_cong)

lemma readd_queue:
  "currentQueue (fold (\<lambda>g. AddToQueue g True) gs s) = rev (filter (has_data s) gs) @ currentQueue s"
  "newToQueue (fold (\<lambda>g. AddToQueue g True) gs s) = newToQueue s"
  "QueueDataStore (fold (\<lambda>g. AddToQueue g True) gs s) = QueueDataStore s"
proof -
  have "currentQueue (fold (\<lambda>g. AddToQueue g True) gs s) = rev (filter (has_data s) gs) @ currentQueue s \<and>
    newToQueue (fold (\<lambda>g. AddToQueue g True) gs s) = newToQueue s \<and>
    QueueDataStore (fold (\<lambda>g. AddToQueue g True) gs s) = QueueDataStore s"
  proof (induction gs arbitrary: s)
    case (Cons g gs)
    have "has_data (AddToQueue g True s) = has_data s" by (auto simp: has_data_def AddToQueue_def fun_eq_iff)
    with Cons.IH [of "AddToQueue g True s"] show ?case by (auto simp: AddToQueue_def has_data_def)
  qed simp
  then show "currentQueue (fold (\<lambda>g. AddToQueue g True) gs s) = rev (filter (has_data s) gs) @ currentQueue s"
    "newToQueue (fold (\<lambda>g. AddToQueue g True) gs s) = newToQueue s"
    "QueueDataStore (fold (\<lambda>g. AddToQueue g True) gs s) = QueueDataStore s" by simp_all
qed

lemma readd_has_data: "has_data (fold (\<lambda>g. AddToQueue g True) gs s) h = has_data s h"
  by (simp add: has_data_def readd_queue)

text \<open>
  C8: A proposal that fails, by a refusal or because it timed out, is dropped and no other one is touched.
  Every player of a party that refused goes back to the state before the search, and so does the
  party's group; every other player and group is in the queue again. The parties that refused
  leave the queue, the others that have data go to its front, in reverse order of the proposal's list,
  and nobody else is moved.
\<close>

theorem RemoveProposal_outcome:
  assumes players: "lp_players p \<noteq> []" "distinct (map fst (lp_players p))" and guids: "guids_fine p"
  shows "let w' = RemoveProposal e i p type w; R = refusing type p; q = GetQueueId w (fst (hd (lp_players p))) in
    (\<forall>k. om_get (ProposalsStore w') k = (if k = i then None else om_get (ProposalsStore w) k)) \<and>
    (\<forall>(g, d) \<in> set (lp_players p). GetState w' g = (if party_of g d \<in> R then GetOldState w g else LFG_STATE_QUEUED) \<and>
       (lp_group d \<noteq> 0 \<longrightarrow> GetState w' (lp_group d) =
          (if lp_group d \<in> R then GetOldState w (lp_group d) else LFG_STATE_QUEUED))) \<and>
    currentQueue (queue_at w' q) =
      rev (filter (\<lambda>g. g \<notin> R \<and> has_data (queue_at w q) g) (lp_queues p)) @
      filter (\<lambda>g. g \<notin> R) (currentQueue (queue_at w q)) \<and>
    newToQueue (queue_at w' q) = filter (\<lambda>g. g \<notin> R) (newToQueue (queue_at w q)) \<and>
    (\<forall>g. has_data (queue_at w' q) g \<longleftrightarrow> g \<notin> R \<and> has_data (queue_at w q) g)"
proof -
  let ?R = "refusing type p"
  let ?ps = "mark_players type (lp_players p)"
  let ?removed = "to_remove type ?ps []"
  let ?p1 = "p\<lparr>lp_state := LFG_PROPOSAL_FAILED, lp_players := ?ps\<rparr>"
  let ?w1 = "fold (notify_player e ?p1 type ?removed) ?ps w"
  have R: "set ?removed = ?R" by (rule refusing_marked)
  have fst_ps: "map fst ?ps = map fst (lp_players p)" by (induction "lp_players p") (simp_all add: mark_players_eq case_prod_unfold)
  have ok: "\<forall>(g, d) \<in> set ?ps. \<not> IsGroup g \<and> (lp_group d \<noteq> 0 \<longrightarrow> IsGroup (lp_group d))"
    using guids by (fastforce simp: guids_fine_def mark_players_eq)
  have hd_ps: "fst (hd ?ps) = fst (hd (lp_players p))"
    using players(1) by (cases "lp_players p") (auto simp: mark_players_eq)
  obtain a d0 where a: "(a, d0) \<in> set (lp_players p)" "fst (hd (lp_players p)) = a"
    using players(1) by (cases "lp_players p") (auto, metis)
  have na: "\<not> IsGroup a" using guids a by (auto simp: guids_fine_def)
  have pl: "PlayersStore ?w1 g = (if party_of g d \<in> ?R then Player_RestoreState else Player_SetState LFG_STATE_QUEUED) (PlayersStore w g)"
    if "(g, d) \<in> set (lp_players p)" for g d
    using notify_fold_player [OF ok _ in_marked [OF that], where e = e and p = ?p1 and type = type and removed = ?removed and w = w] players(2) by (simp add: fst_ps R)
  have "pd_Team (PlayersStore ?w1 a) = pd_Team (PlayersStore w a)"
    using pl [OF a(1)] by (simp add: Player_RestoreState_def Player_SetState_def Let_def)
  then have q: "GetQueueId ?w1 (fst (hd ?ps)) = GetQueueId w (fst (hd (lp_players p)))"
    using na by (simp add: hd_ps a(2) GetQueueId_def GetTeam_def)
  have gr: "gd_State (GroupsStore ?w1 (lp_group d)) =
      (if lp_group d \<in> ?R then gd_OldState (GroupsStore w (lp_group d)) else LFG_STATE_QUEUED)"
    if "(g, d) \<in> set (lp_players p)" "lp_group d \<noteq> 0" for g d
    using notify_fold_group [OF ok, where a = "lp_group d" and w = w and removed = ?removed and e = e and p = ?p1 and type = type] that in_marked [OF that(1), where type = type]
    by (force simp: R)
  have st: "(\<forall>(g, d) \<in> set (lp_players p). GetState (RemoveProposal e i p type w) g = (if party_of g d \<in> ?R then GetOldState w g else LFG_STATE_QUEUED) \<and>
       (lp_group d \<noteq> 0 \<longrightarrow> GetState (RemoveProposal e i p type w) (lp_group d) =
          (if lp_group d \<in> ?R then GetOldState w (lp_group d) else LFG_STATE_QUEUED)))"
    using guids pl gr
    by (auto simp: guids_fine_def RemoveProposal_def Let_def GetState_def GetOldState_def Player_RestoreState_def Player_SetState_def)
  have q0: "queue_at ?w1 = queue_at w" by (simp add: queue_at_def fun_eq_iff)
  show ?thesis
    using st unfolding Let_def
    by (simp add: RemoveProposal_def Let_def q q0 leave_fold_queue readd_queue readd_has_data R)
qed

section \<open>Role checks\<close>

definition check_cancelled :: "guid \<Rightarrow> roles_map \<Rightarrow> lfg_world \<Rightarrow> lfg_world \<Rightarrow> bool" where
  "check_cancelled gg rs w w' \<longleftrightarrow> om_get (RoleChecksStore w') gg = None \<and> GetState w' gg = GetOldState w gg \<and>
     (\<forall>(p, r) \<in> set rs. GetState w' p = GetOldState w p) \<and> QueuesStore w' = QueuesStore w"

definition check_waits :: "guid \<Rightarrow> role_check \<Rightarrow> roles_map \<Rightarrow> lfg_world \<Rightarrow> lfg_world \<Rightarrow> bool" where
  "check_waits gg rc rs w w' \<longleftrightarrow> om_get (RoleChecksStore w') gg = Some (rc\<lparr>rc_roles := rs\<rparr>) \<and>
     PlayersStore w' = PlayersStore w \<and> GroupsStore w' = GroupsStore w \<and> QueuesStore w' = QueuesStore w"

definition check_queued :: "mgr_env \<Rightarrow> guid \<Rightarrow> role_check \<Rightarrow> roles_map \<Rightarrow> lfg_world \<Rightarrow> lfg_world \<Rightarrow> bool" where
  "check_queued e gg rc rs w w' \<longleftrightarrow> om_get (RoleChecksStore w') gg = None \<and> GetState w' gg = LFG_STATE_QUEUED \<and>
     (\<forall>(p, r) \<in> set rs. GetState w' p = LFG_STATE_QUEUED \<and> GetRoles w' p = r) \<and>
     (let q = GetQueueId w gg; s = queue_at w q; s' = queue_at w' q in
        party s' gg = rs \<and> wants s' gg = rc_dungeons rc \<and> GetJoinTime gg s' = me_now e \<and>
        newToQueue s' = newToQueue s @ [gg] \<and> currentQueue s' = currentQueue s)"

lemma rolecheck_member_players:
  assumes "\<not> IsGroup g"
  shows "PlayersStore (rolecheck_member e rc ds chosen (g, r) w) a =
    (if a = g then
       (if rc_state rc = LFG_ROLECHECK_INITIALITING then PlayersStore w g
        else if rc_state rc = LFG_ROLECHECK_FINISHED
        then (Player_SetState LFG_STATE_QUEUED (PlayersStore w g))\<lparr>pd_Roles := r\<rparr>
        else Player_RestoreState (PlayersStore w g))
     else PlayersStore w a)"
  using assms by (auto simp: rolecheck_member_def Let_def SetState_def RestoreState_def SetRoles_def upd_player_def
      split: option.split)

lemma rolecheck_member_other [simp]:
  "\<not> IsGroup (fst x) \<Longrightarrow> GroupsStore (rolecheck_member e rc ds chosen x w) = GroupsStore w"
  "QueuesStore (rolecheck_member e rc ds chosen x w) = QueuesStore w"
  "RoleChecksStore (rolecheck_member e rc ds chosen x w) = RoleChecksStore w"
  by (cases x, auto simp: rolecheck_member_def Let_def SetState_def RestoreState_def SetRoles_def upd_player_def
      upd_group_def send_def lcall_def split: option.split)+

lemma rolecheck_fold_other:
  "\<forall>x \<in> set ps. \<not> IsGroup (fst x) \<Longrightarrow> GroupsStore (fold (rolecheck_member e rc ds chosen) ps w) = GroupsStore w"
  "QueuesStore (fold (rolecheck_member e rc ds chosen) ps w) = QueuesStore w"
  "RoleChecksStore (fold (rolecheck_member e rc ds chosen) ps w) = RoleChecksStore w"
  by (induction ps arbitrary: w) auto

lemma rolecheck_fold_outside:
  "\<forall>x \<in> set ps. \<not> IsGroup (fst x) \<Longrightarrow> a \<notin> fst ` set ps \<Longrightarrow>
    PlayersStore (fold (rolecheck_member e rc ds chosen) ps w) a = PlayersStore w a"
  by (induction ps arbitrary: w) (auto simp: rolecheck_member_players)

lemma rolecheck_fold_player:
  assumes "\<forall>x \<in> set ps. \<not> IsGroup (fst x)" "distinct (map fst ps)" "(g, r) \<in> set ps"
  shows "PlayersStore (fold (rolecheck_member e rc ds chosen) ps w) g =
    (if rc_state rc = LFG_ROLECHECK_INITIALITING then PlayersStore w g
     else if rc_state rc = LFG_ROLECHECK_FINISHED
     then (Player_SetState LFG_STATE_QUEUED (PlayersStore w g))\<lparr>pd_Roles := r\<rparr>
     else Player_RestoreState (PlayersStore w g))"
  using assms
proof (induction ps arbitrary: w)
  case (Cons x ps)
  obtain h r' where x: "x = (h, r')" by fastforce
  show ?case
  proof (cases "h = g")
    case True
    then have "r' = r" "g \<notin> fst ` set ps" using Cons.prems x by (auto simp: image_iff)
    with True Cons.prems(1) x show ?thesis by (simp add: rolecheck_fold_outside rolecheck_member_players)
  next
    case False
    with Cons x show ?thesis by (auto simp: rolecheck_member_players)
  qed
qed simp

lemma rolecheck_fold_waiting:
  assumes "\<forall>x \<in> set ps. \<not> IsGroup (fst x)" "distinct (map fst ps)" "rc_state rc = LFG_ROLECHECK_INITIALITING"
  shows "PlayersStore (fold (rolecheck_member e rc ds chosen) ps w) = PlayersStore w"
proof
  fix a
  show "PlayersStore (fold (rolecheck_member e rc ds chosen) ps w) a = PlayersStore w a"
  proof (cases "a \<in> fst ` set ps")
    case True
    then obtain r where "(a, r) \<in> set ps" by auto
    with assms show ?thesis by (simp add: rolecheck_fold_player)
  next
    case False
    with assms(1) show ?thesis by (simp add: rolecheck_fold_outside)
  qed
qed

lemma team_kept:
  assumes "\<forall>x \<in> set ps. \<not> IsGroup (fst x)" "distinct (map fst ps)"
  shows "GetTeam (fold (rolecheck_member e rc ds chosen) ps w) a = GetTeam w a"
proof (cases "a \<in> fst ` set ps")
  case True
  then obtain r where "(a, r) \<in> set ps" by auto
  with assms show ?thesis
    by (simp add: GetTeam_def rolecheck_fold_player Player_SetState_def Player_RestoreState_def Let_def)
next
  case False
  with assms(1) show ?thesis by (simp add: GetTeam_def rolecheck_fold_outside)
qed

lemma AddQueueData_view:
  "party (AddQueueData le g t ds rs s) g = rs" "wants (AddQueueData le g t ds rs s) g = ds"
  "GetJoinTime g (AddQueueData le g t ds rs s) = t"
  "newToQueue (AddQueueData le g t ds rs s) = newToQueue s @ [g]"
  "currentQueue (AddQueueData le g t ds rs s) = currentQueue s"
  by (simp_all add: AddQueueData_def AddToQueue_def party_def wants_def GetJoinTime_def new_queue_data_def
      InitializeGroupSetup_def Let_def split: list.split option.split)

text \<open>The three ways a check goes on, given its new state.\<close>

lemma UpdateRoleCheck_cancel:
  assumes rc: "om_get (RoleChecksStore w) gg = Some rc" and gg: "IsGroup gg"
    and a: "answer_rolecheck e g roles rc = rc'" "rc_state rc' \<noteq> LFG_ROLECHECK_FINISHED" "rc_state rc' \<noteq> LFG_ROLECHECK_INITIALITING"
    and ps: "\<forall>x \<in> set (rc_roles rc'). \<not> IsGroup (fst x)" "distinct (map fst (rc_roles rc'))"
  shows "check_cancelled gg (rc_roles rc') w (UpdateRoleCheck e gg g roles w)"
proof -
  have ng: "(a, b) \<in> set (rc_roles rc') \<Longrightarrow> \<not> IsGroup a" for a b using ps(1) by auto
  have "gg \<noteq> 0" using gg by auto
  then show ?thesis
    using gg ps ng unfolding check_cancelled_def UpdateRoleCheck_def Let_def rc option.case a(1)
    by (auto simp: a(2,3) GetState_def GetOldState_def RestoreState_def upd_group_def rolecheck_fold_player
        rolecheck_fold_other Player_RestoreState_def Group_RestoreState_def Let_def)
qed

lemma UpdateRoleCheck_wait:
  assumes rc: "om_get (RoleChecksStore w) gg = Some rc" and gg: "IsGroup gg"
    and a: "answer_rolecheck e g roles rc = rc\<lparr>rc_roles := rs\<rparr>" "rc_state rc = LFG_ROLECHECK_INITIALITING"
    and ps: "\<forall>x \<in> set rs. \<not> IsGroup (fst x)" "distinct (map fst rs)"
  shows "check_waits gg rc rs w (UpdateRoleCheck e gg g roles w)"
proof -
  have "gg \<noteq> 0" using gg by auto
  then show ?thesis
    using gg ps unfolding check_waits_def UpdateRoleCheck_def Let_def rc option.case a(1)
    by (auto simp: a(2) rolecheck_fold_waiting rolecheck_fold_other)
qed

lemma UpdateRoleCheck_queue:
  assumes rc: "om_get (RoleChecksStore w) gg = Some rc" and gg: "IsGroup gg"
    and a: "answer_rolecheck e g roles rc = rc'" "rc_state rc' = LFG_ROLECHECK_FINISHED" "rc_dungeons rc' = rc_dungeons rc"
    and ps: "\<forall>x \<in> set (rc_roles rc'). \<not> IsGroup (fst x)" "distinct (map fst (rc_roles rc'))"
  shows "check_queued e gg rc (rc_roles rc') w (UpdateRoleCheck e gg g roles w)"
proof -
  have nz: "gg \<noteq> 0" using gg by auto
  let ?ds = "if rc_rDungeonId rc \<noteq> 0 then [rc_rDungeonId rc] else rc_dungeons rc"
  let ?ch = "if rc_state rc \<noteq> LFG_ROLECHECK_DEFAULT \<and> g \<noteq> 0 then Some (g, roles) else None"
  let ?w1 = "fold (rolecheck_member e rc' ?ds ?ch) (rc_roles rc') (w\<lparr>RoleChecksStore := om_put gg rc' (RoleChecksStore w)\<rparr>)"
  let ?w2 = "SetState gg LFG_STATE_QUEUED ?w1"
  have q: "GetQueueId ?w2 gg = GetQueueId w gg"
  proof -
    have "GetPlayers ?w2 gg = GetPlayers w gg"
      using gg ps by (simp add: GetPlayers_def SetState_def upd_group_def Group_SetState_def Let_def rolecheck_fold_other)
    moreover have "GetTeam ?w2 h = GetTeam w h" for h
    proof -
      have "GetTeam ?w2 h = GetTeam ?w1 h" using gg by (simp add: GetTeam_def SetState_def upd_group_def)
      then show ?thesis by (simp only: team_kept [OF ps]) (simp add: GetTeam_def)
    qed
    ultimately show ?thesis unfolding GetQueueId_def by (simp only:)
  qed
  have s: "queue_at ?w2 = queue_at w"
    using gg by (simp add: queue_at_def fun_eq_iff SetState_def upd_group_def rolecheck_fold_other)
  have u: "UpdateRoleCheck e gg g roles w =
     (let w3 = upd_queue (GetQueueId ?w2 gg) (AddQueueData (queue_env e ?w2) gg (me_now e) (rc_dungeons rc) (rc_roles rc')) ?w2
      in w3\<lparr>RoleChecksStore := om_erase gg (RoleChecksStore w3)\<rparr>)"
    unfolding UpdateRoleCheck_def Let_def rc option.case a(1) by (simp add: nz a(2,3))
  have ng: "(a, b) \<in> set (rc_roles rc') \<Longrightarrow> \<not> IsGroup a" for a b using ps(1) by auto
  show ?thesis
    unfolding check_queued_def u Let_def queue_at_stores queue_at_upd s q AddQueueData_view
    using gg ps ng
    by (auto simp: GetState_def GetRoles_def rolecheck_fold_player rolecheck_fold_other a(2) SetState_def upd_group_def
        Player_SetState_def Group_SetState_def Let_def AddQueueData_view)
qed

text \<open>
  C7: The answer of a member decides a role check the way it should. An answer without a role, or
  an abort (\<open>g = 0\<close>), cancels the check; while a role is missing the check waits and nothing else
  changes; once all have chosen, the party enters the queue, with the chosen roles and the
  check's dungeons, exactly if the roles can be shared out within what the first dungeon takes,
  and otherwise the check is cancelled. A cancelled check puts its members and the party back
  into their former states.
\<close>

theorem UpdateRoleCheck_outcome:
  assumes rc: "om_get (RoleChecksStore w) gg = Some rc" "rc_state rc = LFG_ROLECHECK_INITIALITING" "IsGroup gg"
    and ps: "om_ok (rc_roles rc)" "\<forall>x \<in> set (rc_roles rc). \<not> IsGroup (fst x)" "\<not> IsGroup g"
    and valid: "valid_roles (om_put g roles (rc_roles rc))"
  shows "let w' = UpdateRoleCheck e gg g roles w; rs = om_put g roles (rc_roles rc);
      ds = (if rc_rDungeonId rc \<noteq> 0 then [rc_rDungeonId rc] else rc_dungeons rc) in
    if g = 0 \<or> roles < ROLE_TANK then check_cancelled gg (rc_roles rc) w w'
    else if (\<exists>p. (p, 0) \<in> set rs) then check_waits gg rc rs w w'
    else if (\<exists>dg ds' d cs. ds = dg # ds' \<and> me_dungeon e dg = Some d \<and> assignment d rs cs)
    then check_queued e gg rc rs w w' else check_cancelled gg rs w w'"
proof -
  let ?rs = "om_put g roles (rc_roles rc)"
  let ?ds = "if rc_rDungeonId rc \<noteq> 0 then [rc_rDungeonId rc] else rc_dungeons rc"
  have d0: "distinct (map fst (rc_roles rc))" using ps(1) by (rule om_ok_distinct)
  have d1: "distinct (map fst ?rs)" using ps(1) by (intro om_ok_distinct om_ok_put)
  have n1: "\<forall>x \<in> set ?rs. \<not> IsGroup (fst x)"
  proof
    fix x assume "x \<in> set ?rs"
    then have "fst x \<in> insert g (fst ` set (rc_roles rc))" using set_fst_om_put [of g roles "rc_roles rc"] by blast
    then show "\<not> IsGroup (fst x)" using ps(2,3) by auto
  qed
  have ne: "?rs \<noteq> []" using set_fst_om_put [of g roles "rc_roles rc"] by auto
  have fits: "CheckGroupRoles d ?rs = None \<longleftrightarrow> \<not> (\<exists>cs. assignment d ?rs cs)" for d
  proof (cases "CheckGroupRoles d ?rs")
    case None
    with CheckGroupRoles_None [OF valid ne] show ?thesis by simp
  next
    case (Some m)
    obtain cs where "assignment d ?rs cs" by (rule CheckGroupRoles_Some [OF valid Some])
    with Some show ?thesis by auto
  qed
  consider "g = 0 \<or> roles < ROLE_TANK" | (wait) "g \<noteq> 0" "\<not> roles < ROLE_TANK" "\<exists>p. (p, 0) \<in> set ?rs"
    | (all) "g \<noteq> 0" "\<not> roles < ROLE_TANK" "\<not> (\<exists>p. (p, 0) \<in> set ?rs)" by blast
  then show ?thesis
  proof cases
    case 1
    let ?rc = "answer_rolecheck e g roles rc"
    have "rc_roles ?rc = rc_roles rc" "rc_state ?rc \<in> {LFG_ROLECHECK_ABORTED, LFG_ROLECHECK_NO_ROLE}"
      using 1 by (auto simp: answer_rolecheck_def Let_def)
    with UpdateRoleCheck_cancel [OF rc(1,3) refl, of e g roles] ps(2) d0 1 show ?thesis by (auto simp: Let_def)
  next
    case wait
    then have "\<not> list_all (\<lambda>(p, r). r \<noteq> 0) ?rs" by (auto simp: list_all_iff)
    then have "answer_rolecheck e g roles rc = rc\<lparr>rc_roles := ?rs\<rparr>" using wait(1,2) by (simp add: answer_rolecheck_def Let_def)
    from UpdateRoleCheck_wait [OF rc(1,3) this rc(2) n1 d1] wait show ?thesis by (simp add: Let_def)
  next
    case all
    let ?rc = "answer_rolecheck e g roles rc"
    let ?good = "\<exists>dg ds' d cs. ?ds = dg # ds' \<and> me_dungeon e dg = Some d \<and> assignment d ?rs cs"
    have "list_all (\<lambda>(p, r). r \<noteq> 0) ?rs" using all(3) by (auto simp: list_all_iff)
    then have r: "rc_roles ?rc = ?rs" "rc_dungeons ?rc = rc_dungeons rc"
      and s: "rc_state ?rc = (if ?good then LFG_ROLECHECK_FINISHED else LFG_ROLECHECK_WRONG_ROLES)"
      using all(1,2) fits by (auto simp: answer_rolecheck_def Let_def split: list.splits option.splits)
    show ?thesis
    proof (cases ?good)
      case True
      then have "rc_state ?rc = LFG_ROLECHECK_FINISHED" using s by simp
      from UpdateRoleCheck_queue [OF rc(1,3) refl this r(2)] n1 d1 r(1) all True show ?thesis by (simp add: Let_def)
    next
      case False
      then have "rc_state ?rc = LFG_ROLECHECK_WRONG_ROLES" using s by simp
      with UpdateRoleCheck_cancel [OF rc(1,3) refl, of e g roles] n1 d1 r(1) all
      show ?thesis unfolding Let_def if_not_P [OF False] by simp
    qed
  qed
qed

section \<open>The proposals of an update\<close>

lemma find_in_queue_frame:
  "PlayersStore (find_in_queue e q w) = PlayersStore w" "GroupsStore (find_in_queue e q w) = GroupsStore w"
  "q' \<noteq> q \<Longrightarrow> queue_at (find_in_queue e q w) q' = queue_at w q'"
proof -
  have f: "PlayersStore (fold AddProposal ps v) = PlayersStore v \<and> GroupsStore (fold AddProposal ps v) = GroupsStore v \<and>
      QueuesStore (fold AddProposal ps v) = QueuesStore v" for ps v
    by (induction ps arbitrary: v) (auto simp: AddProposal_def Let_def)
  show "PlayersStore (find_in_queue e q w) = PlayersStore w" "GroupsStore (find_in_queue e q w) = GroupsStore w"
    by (simp_all add: find_in_queue_def Let_def f)
  show "q' \<noteq> q \<Longrightarrow> queue_at (find_in_queue e q w) q' = queue_at w q'"
    by (simp add: find_in_queue_def Let_def queue_at_def f)
qed

lemma queue_env_cong: "PlayersStore v = PlayersStore w \<Longrightarrow> GroupsStore v = GroupsStore w \<Longrightarrow> queue_env e v = queue_env e w"
  by (simp add: queue_env_def GetState_def GetOldState_def fun_eq_iff)

text \<open>Storing proposals gives each the next id, and touches no other entry.\<close>

definition stored_under :: "lfg_world \<Rightarrow> lfg_proposal list \<Rightarrow> lfg_world \<Rightarrow> bool" where
  "stored_under w ps w' \<longleftrightarrow> lfgProposalId w' = lfgProposalId w + of_nat (length ps) \<and>
     (length ps < 2 ^ 32 \<longrightarrow>
       (\<forall>k < length ps. om_get (ProposalsStore w') (lfgProposalId w + of_nat (Suc k)) = Some (ps ! k)) \<and>
       (\<forall>i. (\<forall>k < length ps. i \<noteq> lfgProposalId w + of_nat (Suc k)) \<longrightarrow>
          om_get (ProposalsStore w') i = om_get (ProposalsStore w) i))"

lemma small_of_nat: "a < 2 ^ 32 \<Longrightarrow> b < 2 ^ 32 \<Longrightarrow> (of_nat a :: u32) = of_nat b \<longleftrightarrow> a = b"
  by (simp add: word_of_nat_eq_iff take_bit_nat_eq_self)

lemma stored_under_append:
  assumes "stored_under w ps v" "stored_under v qs u"
  shows "stored_under w (ps @ qs) u"
proof (cases "length (ps @ qs) < 2 ^ 32")
  case False
  then show ?thesis using assms by (simp add: stored_under_def)
next
  case True
  have id: "lfgProposalId v = lfgProposalId w + of_nat (length ps)" using assms(1) by (simp add: stored_under_def)
  have v: "om_get (ProposalsStore v) (lfgProposalId w + of_nat (Suc k)) = Some (ps ! k)" if "k < length ps" for k
    using assms(1) True that by (simp add: stored_under_def)
  have v': "om_get (ProposalsStore v) i = om_get (ProposalsStore w) i"
    if "\<forall>k < length ps. i \<noteq> lfgProposalId w + of_nat (Suc k)" for i
    using assms(1) True that by (simp add: stored_under_def)
  have next_id: "lfgProposalId v + of_nat (Suc k) = lfgProposalId w + of_nat (Suc (length ps + k))" for k
    by (simp add: id)
  have u: "om_get (ProposalsStore u) (lfgProposalId w + of_nat (Suc (length ps + k))) = Some (qs ! k)"
    if "k < length qs" for k
    using assms(2) True that unfolding stored_under_def next_id by simp
  have u': "om_get (ProposalsStore u) i = om_get (ProposalsStore v) i"
    if "\<forall>k < length qs. i \<noteq> lfgProposalId w + of_nat (Suc (length ps + k))" for i
    using assms(2) True that unfolding stored_under_def next_id by simp
  have apart: "lfgProposalId w + of_nat (Suc k) \<noteq> lfgProposalId w + of_nat (Suc (length ps + j))"
    if "k < length ps" "j < length qs" for k j
    using True that small_of_nat [of "Suc k" "Suc (length ps + j)"] by (simp del: of_nat_Suc)
  have "om_get (ProposalsStore u) (lfgProposalId w + of_nat (Suc k)) = Some ((ps @ qs) ! k)"
    if "k < length (ps @ qs)" for k
  proof (cases "k < length ps")
    case True
    then show ?thesis using u' [of "lfgProposalId w + of_nat (Suc k)"] apart v by (simp add: nth_append del: of_nat_Suc)
  next
    case False
    then show ?thesis using u [of "k - length ps"] that by (simp add: nth_append del: of_nat_Suc)
  qed
  moreover have "om_get (ProposalsStore u) i = om_get (ProposalsStore w) i"
    if "\<forall>k < length (ps @ qs). i \<noteq> lfgProposalId w + of_nat (Suc k)" for i
    using u' [of i] v' [of i] that by (simp del: of_nat_Suc)
  moreover have "lfgProposalId u = lfgProposalId w + of_nat (length (ps @ qs))"
    using assms(2) by (simp add: stored_under_def id)
  ultimately show ?thesis by (simp add: stored_under_def)
qed

lemma AddProposal_stored: "stored_under w [of_queue pr] (AddProposal pr w)"
  by (auto simp: stored_under_def AddProposal_def Let_def)

lemma AddProposal_fold_stored: "stored_under w (map of_queue prs) (fold AddProposal prs w)"
proof (induction prs arbitrary: w)
  case (Cons pr prs)
  show ?case using stored_under_append [OF AddProposal_stored Cons.IH] by simp
qed (simp add: stored_under_def)

text \<open>What the search of one queue hands over, and that it is sound.\<close>

definition handed_over :: "mgr_env \<Rightarrow> lfg_world \<Rightarrow> u8 \<Rightarrow> proposal list" where
  "handed_over e w q = addedProposals (fst (FindGroups (queue_env e w) ((queue_at w q)\<lparr>addedProposals := []\<rparr>)))"

lemma handed_over_sound:
  assumes "setup_ok (queue_env e w) (party (queue_at w q))" "pr \<in> set (handed_over e w q)"
  shows "proposal_sound (queue_env e w) (wants (queue_at w q)) (party (queue_at w q)) pr"
proof -
  let ?s0 = "(queue_at w q)\<lparr>addedProposals := []\<rparr>"
  obtain s n where f: "FindGroups (queue_env e w) ?s0 = (s, n)" by fastforce
  have view: "party ?s0 = party (queue_at w q)" "wants ?s0 = wants (queue_at w q)"
    by (simp_all add: party_def wants_def fun_eq_iff)
  have "evolves (queue_env e w) 0 ?s0 s"
    using f find_groups_loop_evolves [of "queue_env e w" ?s0 0 s n 0] by (simp add: FindGroups_def)
  then show ?thesis using assms by (auto simp: evolves_def view handed_over_def f)
qed

lemma find_in_queue_stored: "stored_under w (map of_queue (handed_over e w q)) (find_in_queue e q w)"
proof -
  let ?s = "fst (FindGroups (queue_env e w) ((queue_at w q)\<lparr>addedProposals := []\<rparr>))"
  let ?w1 = "w\<lparr>QueuesStore := om_put q (?s\<lparr>addedProposals := []\<rparr>) (QueuesStore w)\<rparr>"
  have "find_in_queue e q w = fold AddProposal (handed_over e w q) ?w1"
    by (simp add: find_in_queue_def handed_over_def Let_def)
  then show ?thesis using AddProposal_fold_stored [of ?w1 "handed_over e w q"] by (simp add: stored_under_def)
qed

lemma handed_over_cong: "queue_env e v = queue_env e w \<Longrightarrow> queue_at v q = queue_at w q \<Longrightarrow> handed_over e v q = handed_over e w q"
  by (simp add: handed_over_def)

text \<open>
  C13: The search of an update stores exactly the proposals the queues hand over, and each is sound.
  A proposal handed over by the search of a queue is for a dungeon that exists and that each of its
  parties asked for, with as many players as the dungeon takes, all its parties queued, and the
  roles shared out as the dungeon needs them (\<open>proposal_sound\<close> of \<open>Lfg_Matching\<close>).  In the order of
  the queues each of them is stored under an id of its own, the next one of the manager's 32-bit
  counter, and no other entry of the manager's proposals changes.
\<close>

theorem Update_proposals_sound:
  assumes "distinct qs" and "\<forall>q \<in> set qs. setup_ok (queue_env e w) (party (queue_at w q))"
    and "prs = concat (map (handed_over e w) qs)" and "w' = fold (find_in_queue e) qs w"
  shows "(\<forall>q \<in> set qs. \<forall>pr \<in> set (handed_over e w q).
       proposal_sound (queue_env e w) (wants (queue_at w q)) (party (queue_at w q)) pr)
    \<and> lfgProposalId w' = lfgProposalId w + of_nat (length prs)
    \<and> (length prs < 2 ^ 32 \<longrightarrow>
        (\<forall>k < length prs. om_get (ProposalsStore w') (lfgProposalId w + of_nat (Suc k)) = Some (of_queue (prs ! k))) \<and>
        (\<forall>i. (\<forall>k < length prs. i \<noteq> lfgProposalId w + of_nat (Suc k)) \<longrightarrow>
           om_get (ProposalsStore w') i = om_get (ProposalsStore w) i))"
proof -
  have "stored_under w (map of_queue (concat (map (handed_over e w) qs))) (fold (find_in_queue e) qs w)"
    using assms(1)
  proof (induction qs arbitrary: w)
    case (Cons q qs)
    let ?v = "find_in_queue e q w"
    have "queue_env e ?v = queue_env e w" by (rule queue_env_cong) (simp_all add: find_in_queue_frame)
    then have "handed_over e ?v q' = handed_over e w q'" if "q' \<in> set qs" for q'
      using Cons.prems that by (intro handed_over_cong find_in_queue_frame) auto
    then have same: "map (handed_over e ?v) qs = map (handed_over e w) qs" by simp
    have "stored_under ?v (map of_queue (concat (map (handed_over e ?v) qs))) (fold (find_in_queue e) qs ?v)"
      using Cons.prems by (intro Cons.IH) simp
    then have "stored_under w (map of_queue (handed_over e w q) @ map of_queue (concat (map (handed_over e w) qs)))
        (fold (find_in_queue e) qs ?v)"
      unfolding same by (rule stored_under_append [OF find_in_queue_stored])
    then show ?case by simp
  qed (simp add: stored_under_def)
  then have "stored_under w (map of_queue prs) w'" by (simp add: assms(3,4))
  then show ?thesis using assms(2) handed_over_sound unfolding stored_under_def by (simp del: of_nat_Suc)
qed

section \<open>What is stored\<close>

text \<open>
  C6: Whatever is asked of the manager, in any order: a stored role check is open and a stored
  proposal waits for answers, none of them a refusal; a stored kick vote is in progress, and a group
  is only marked as voting while its vote is stored; a group has at most three kicks left and
  remembers no dungeon unless it is in one or has finished it; the state a player or group goes back
  to is none, in a dungeon, or finished, and a player with no state has no roles and no dungeons.
\<close>

theorem lfg_manager_states:
  assumes "\<forall>x \<in> set ops. step_env_ok x"
  shows "let w = foldl lfg_step (LFGMgr_init options) ops; settled = {LFG_STATE_NONE, LFG_STATE_DUNGEON, LFG_STATE_FINISHED_DUNGEON} in
    (\<forall>g rc. om_get (RoleChecksStore w) g = Some rc \<longrightarrow> rc_state rc = LFG_ROLECHECK_INITIALITING) \<and>
    (\<forall>i p. om_get (ProposalsStore w) i = Some p \<longrightarrow> lp_state p = LFG_PROPOSAL_INITIATING \<and>
       (\<forall>g d. om_get (lp_players p) g = Some d \<longrightarrow> lp_accept d \<noteq> LFG_ANSWER_DENY)) \<and>
    (\<forall>g b. om_get (BootsStore w) g = Some b \<longrightarrow> pb_inProgress b) \<and>
    (\<forall>g. IsVoteKickActive w g \<longrightarrow> om_get (BootsStore w) g \<noteq> None) \<and>
    (\<forall>g. IsGroup g \<longrightarrow> GetKicksLeft w g \<le> LFG_GROUP_MAX_KICKS \<and>
       (GetOldState w g = LFG_STATE_NONE \<longrightarrow> GetLfgDungeon w g False = 0)) \<and>
    (\<forall>g. GetOldState w g \<in> settled \<and> (GetState w g \<in> settled \<longrightarrow> GetState w g = GetOldState w g)) \<and>
    (\<forall>g. \<not> IsGroup g \<longrightarrow> GetState w g = LFG_STATE_NONE \<longrightarrow> GetRoles w g = 0 \<and> GetSelectedDungeons w g = [])"
proof -
  have "lfg_inv (foldl lfg_step (LFGMgr_init options) ops)" using assms by (rule lfg_manager.guarded_run)
  then show ?thesis
    unfolding Let_def lfg_inv_def good_def data_fine_def boots_fine_def player_fine_def group_fine_def check_fine_def
      proposal_fine_def settled_state_def IsVoteKickActive_def GetKicksLeft_def GetOldState_def GetState_def
      GetLfgDungeon_def GetRoles_def GetSelectedDungeons_def Group_GetDungeon_def
    by auto
qed

theorem lfg_manager_states_witness:
  "let w = foldl lfg_step (LFGMgr_init 1) demo_ops in
    IsVoteKickActive w demo_group \<and> om_get (BootsStore w) demo_group \<noteq> None \<and> GetKicksLeft w demo_group \<le> LFG_GROUP_MAX_KICKS"
proof -
  have "\<forall>x \<in> set demo_ops. step_env_ok x" by (simp add: demo_ops_def step_env_ok_def demo_env_ok)
  note s = lfg_manager_states [OF this, of 1, unfolded Let_def]
  have "IsVoteKickActive (foldl lfg_step (LFGMgr_init 1) demo_ops) demo_group"
    by (simp add: demo_ops_def OnAddMember_def OnRemoveMember_def finder_enabled_def isOptionEnabled_def
        LFGMgr_init_def LFG_OPTION_ENABLE_DUNGEON_FINDER_def LFG_OPTION_ENABLE_RAID_BROWSER_def InitBoot_def Let_def
        IsVoteKickActive_def SetLeader_def AddPlayerToGroup_def SetGroup_def upd_group_def upd_player_def
        GetState_def demo_guids LfgGroupData_init_def LfgPlayerData_init_def Group_AddPlayer_def)
  with s demo_guids(1) show ?thesis unfolding Let_def by blast
qed


definition demo_entry :: "guid \<Rightarrow> queue_data" where
  "demo_entry g = \<lparr>joinTime = 90, tanksNeeded = 0, healersNeeded = 0, dpsNeeded = 0, queueDungeons = [7],
     queueRoles = [(g, 2)], bestCompatible = []\<rparr>"

definition demo_queue :: lfg_world where
  "demo_queue = (LFGMgr_init 1)\<lparr>QueuesStore := [(0, LFGQueue_init\<lparr>QueueDataStore := [(1, demo_entry 1), (2, demo_entry 2), (3, demo_entry 3)],
     newToQueue := [2]\<rparr>)]\<rparr>"

definition demo_proposal :: lfg_proposal where
  "demo_proposal = \<lparr>lp_dungeonId = 7, lp_state = LFG_PROPOSAL_INITIATING, lp_groupGuid = 0, lp_leader = 1, lp_cancelTime = 145,
     lp_isNew = True, lp_queues = [1, 2, 3],
     lp_players = [(1, \<lparr>lp_role = 3, lp_accept = LFG_ANSWER_AGREE, lp_group = 0\<rparr>), (2, \<lparr>lp_role = 4, lp_accept = LFG_ANSWER_DENY, lp_group = 0\<rparr>),
       (3, \<lparr>lp_role = 8, lp_accept = LFG_ANSWER_PENDING, lp_group = 0\<rparr>)]\<rparr>"

theorem RemoveProposal_outcome_witness:
  "let w' = RemoveProposal demo_env 2 demo_proposal LFG_UPDATETYPE_PROPOSAL_DECLINED demo_queue in
    GetState w' 1 = LFG_STATE_QUEUED \<and> GetState w' 2 = LFG_STATE_NONE \<and> GetState w' 3 = LFG_STATE_QUEUED \<and>
    currentQueue (queue_at w' 0) = [3, 1] \<and> newToQueue (queue_at w' 0) = [] \<and> \<not> has_data (queue_at w' 0) 2"
proof -
  have p: "lp_players demo_proposal \<noteq> []" "distinct (map fst (lp_players demo_proposal))" "guids_fine demo_proposal"
    by (simp_all add: demo_proposal_def guids_fine_def demo_guids)
  have R: "refusing LFG_UPDATETYPE_PROPOSAL_DECLINED demo_proposal = {2}"
    by (simp add: refusing_code refuses_def party_of_def demo_proposal_def)
  have q: "GetQueueId demo_queue (fst (hd (lp_players demo_proposal))) = 0"
    by (simp add: GetQueueId_def demo_proposal_def demo_guids GetTeam_def demo_queue_def LFGMgr_init_def LfgPlayerData_init_def)
  have d: "queue_at demo_queue 0 = LFGQueue_init\<lparr>QueueDataStore := [(1, demo_entry 1), (2, demo_entry 2), (3, demo_entry 3)],
     newToQueue := [2]\<rparr>" by (simp add: queue_at_def demo_queue_def om_get_def)
  have h: "has_data (queue_at demo_queue 0) g \<longleftrightarrow> g \<in> {1, 2, 3}" for g by (auto simp: d has_data_def om_get_def)
  have o: "GetOldState demo_queue 2 = LFG_STATE_NONE"
    by (simp add: GetOldState_def demo_guids demo_queue_def LFGMgr_init_def LfgPlayerData_init_def)
  note out = RemoveProposal_outcome [OF p, of demo_env 2 LFG_UPDATETYPE_PROPOSAL_DECLINED demo_queue, unfolded Let_def q R h]
  show ?thesis
    unfolding Let_def using out by (simp add: demo_proposal_def party_of_def o d LFGQueue_init_def)
qed

definition demo_check :: role_check where
  "demo_check = \<lparr>rc_cancelTime = 145, rc_roles = [(1, ROLE_TANK), (2, 0)], rc_state = LFG_ROLECHECK_INITIALITING,
     rc_dungeons = [7], rc_rDungeonId = 0, rc_leader = 1\<rparr>"

definition demo_asked :: lfg_world where
  "demo_asked = demo_party\<lparr>RoleChecksStore := [(demo_group, demo_check)]\<rparr>"

theorem UpdateRoleCheck_outcome_witness:
  "check_queued demo_env demo_group demo_check [(1, ROLE_TANK), (2, ROLE_HEALER)] demo_asked
     (UpdateRoleCheck demo_env demo_group 2 ROLE_HEALER demo_asked) \<and>
   check_cancelled demo_group [(1, ROLE_TANK), (2, ROLE_TANK)] demo_asked (UpdateRoleCheck demo_env demo_group 2 ROLE_TANK demo_asked)"
proof -
  have rc: "om_get (RoleChecksStore demo_asked) demo_group = Some demo_check" "rc_state demo_check = LFG_ROLECHECK_INITIALITING"
    "IsGroup demo_group" by (simp_all add: demo_asked_def demo_check_def demo_guids om_get_def)
  have ps: "om_ok (rc_roles demo_check)" "\<forall>x \<in> set (rc_roles demo_check). \<not> IsGroup (fst x)" "\<not> IsGroup 2"
    by (simp_all add: demo_check_def demo_guids om_ok_def)
  have put: "om_put 2 r (rc_roles demo_check) = [(1, ROLE_TANK), (2, r)]" for r by (simp add: demo_check_def)
  have v: "valid_roles (om_put 2 ROLE_HEALER (rc_roles demo_check))" "valid_roles (om_put 2 ROLE_TANK (rc_roles demo_check))"
    unfolding put by (simp_all add: valid_roles_def ROLE_TANK_def ROLE_HEALER_def)
  let ?d = "\<lparr>requiredTanks = 1, requiredHealers = 1, requiredDamageDealers = 1\<rparr> :: lfg_dungeon"
  have d: "me_dungeon demo_env 7 = Some ?d" by (simp add: demo_env_def)
  have f: "assignment ?d [(1, ROLE_TANK), (2, ROLE_HEALER)] [ROLE_TANK, ROLE_HEALER]"
    by (simp add: assignment_def plays_def role_values)
  have nf: "\<not> assignment ?d [(1, ROLE_TANK), (2, ROLE_TANK)] cs" for cs
  proof
    assume "assignment ?d [(1, ROLE_TANK), (2, ROLE_TANK)] cs"
    then show False by (auto simp: assignment_def list_all2_Cons1 plays_def role_values)
  qed
  have ex: "Ex (assignment ?d [(1, ROLE_TANK), (2, ROLE_HEALER)])" "\<not> Ex (assignment ?d [(1, ROLE_TANK), (2, ROLE_TANK)])"
    using f nf by blast+
  have dc: "rc_rDungeonId demo_check = 0" "rc_dungeons demo_check = [7]" by (simp_all add: demo_check_def)
  have t: "\<not> ROLE_HEALER < ROLE_TANK" "\<not> ROLE_TANK < ROLE_TANK" "ROLE_HEALER \<noteq> 0" "ROLE_TANK \<noteq> 0"
    by (simp_all add: role_values)
  show ?thesis
    using UpdateRoleCheck_outcome [OF rc ps v(1), of demo_env] UpdateRoleCheck_outcome [OF rc ps v(2), of demo_env]
    unfolding put by (simp add: Let_def t dc d ex)
qed

theorem Update_proposals_sound_witness:
  "\<exists>pr. om_get (ProposalsStore (fold (find_in_queue demo_env) [0] demo_queued)) 2 = Some (of_queue pr) \<and>
     proposal_sound (queue_env demo_env demo_queued) (wants three_queue) (party three_queue) pr"
proof -
  have q: "queue_at demo_queued 0 = three_queue" by (simp add: demo_queued_def queue_at_def om_get_def)
  have su: "\<forall>q \<in> set [0]. setup_ok (queue_env demo_env demo_queued) (party (queue_at demo_queued q))"
    by (auto simp: q setup_ok_def three_views queue_env_def demo_env_def om_ok_def GetMaxGroupSize_def)
  have n: "length (handed_over demo_env demo_queued 0) = 1" "lfgProposalId demo_queued = 1" by code_simp+
  from Update_proposals_sound [OF _ su refl refl] n q
  have "om_get (ProposalsStore (fold (find_in_queue demo_env) [0] demo_queued)) 2
      = Some (of_queue (handed_over demo_env demo_queued 0 ! 0))"
    "proposal_sound (queue_env demo_env demo_queued) (wants three_queue) (party three_queue)
      (handed_over demo_env demo_queued 0 ! 0)"
    by auto
  then show ?thesis by blast
qed

end
