(* ===== verification/Lfg_Manager_Join.thy ===== *)
theory Lfg_Manager_Join
  imports Lfg_Manager_Inv
begin

text \<open>
  Requests to join the dungeon finder: who is admitted, for what, and what a refused request leaves
  behind.
\<close>

section \<open>Joining\<close>

definition member_ok :: "bool \<Rightarrow> join_member \<Rightarrow> bool" where
  "member_ok isContinue m \<longleftrightarrow> jm_permission m \<and> \<not> jm_deserter m \<and> \<not> jm_battleground m \<and>
     (isContinue \<or> \<not> jm_cooldown m)"

lemma member_result_OK [simp]: "member_result isContinue m LFG_JOIN_OK = LFG_JOIN_OK \<longleftrightarrow> member_ok isContinue m"
  by (auto simp: member_result_def member_ok_def Let_def)

lemma member_result_ok [simp]: "member_ok isContinue m \<Longrightarrow> member_result isContinue m LFG_JOIN_OK = LFG_JOIN_OK"
  by simp

lemma members_loop_stop: "r \<noteq> LFG_JOIN_OK \<Longrightarrow> members_loop b ms (r, n, ps) = (r, n, ps)"
  by (cases ms) auto

lemma members_loop_OK:
  "fst (members_loop b ms (LFG_JOIN_OK, n, ps)) = LFG_JOIN_OK \<longleftrightarrow> (\<forall>m \<in> set ms. member_ok b m)"
  "\<forall>m \<in> set ms. member_ok b m \<Longrightarrow>
    members_loop b ms (LFG_JOIN_OK, n, ps) = (LFG_JOIN_OK, n + of_nat (length ms), fold insort_insert (map jm_guid ms) ps)"
proof -
  show "fst (members_loop b ms (LFG_JOIN_OK, n, ps)) = LFG_JOIN_OK \<longleftrightarrow> (\<forall>m \<in> set ms. member_ok b m)"
  proof (induction ms arbitrary: n ps)
    case (Cons m ms)
    then show ?case by (cases "member_ok b m") (auto simp: members_loop_stop)
  qed simp
  show "\<forall>m \<in> set ms. member_ok b m \<Longrightarrow>
    members_loop b ms (LFG_JOIN_OK, n, ps) = (LFG_JOIN_OK, n + of_nat (length ms), fold insort_insert (map jm_guid ms) ps)"
    by (induction ms arbitrary: n ps) (auto simp: add.assoc)
qed

lemma set_insort_fold: "set (fold insort_insert gs ps) = set gs \<union> set ps"
  by (induction gs arbitrary: ps) (auto simp: set_insort_insert)

text \<open>Who may ask: the player, and every member of the party, who all must be online.\<close>

definition party_may_join :: "join_player \<Rightarrow> u8 \<Rightarrow> bool \<Rightarrow> bool" where
  "party_may_join j roles isContinue \<longleftrightarrow> member_ok isContinue (jp_self j) \<and> \<not> jp_frozen j \<and>
     CanPerformSelectedRoles (jp_class j) roles \<and>
     (case jp_group j of None \<Rightarrow> True
      | Some gr \<Rightarrow> jg_count gr \<le> MAXGROUPSIZE \<and> (\<forall>m \<in> set (jg_members gr). member_ok isContinue m) \<and>
          ucast (of_nat (length (jg_members gr)) :: u8) = jg_count gr)"

definition join_party_guids :: "join_player \<Rightarrow> guid set" where
  "join_party_guids j = (case jp_group j of None \<Rightarrow> {jm_guid (jp_self j)} | Some gr \<Rightarrow> jm_guid ` set (jg_members gr))"

lemma join_restrictions_OK:
  "fst (join_restrictions j roles b ds) = LFG_JOIN_OK \<longleftrightarrow> ds \<noteq> [] \<and> party_may_join j roles b"
proof (cases "jp_group j")
  case None
  then show ?thesis by (auto simp: join_restrictions_def party_may_join_def member_ok_def Let_def)
next
  case (Some gr)
  obtain r n ps where m: "members_loop b (jg_members gr) (LFG_JOIN_OK, 0, []) = (r, n, ps)" by (metis prod_cases3)
  have r: "r = LFG_JOIN_OK \<longleftrightarrow> (\<forall>m \<in> set (jg_members gr). member_ok b m)"
    using members_loop_OK(1) [of b "jg_members gr" 0 "[]"] by (simp add: m)
  have n: "n = of_nat (length (jg_members gr))" if "\<forall>m \<in> set (jg_members gr). member_ok b m"
    using members_loop_OK(2) [OF that, of 0 "[]"] by (simp add: m)
  show ?thesis
    unfolding join_restrictions_def Let_def Some option.case m prod.case
    using r n by (auto simp: party_may_join_def Some not_less member_ok_def [of _ "jp_self j"])
qed

lemma join_restrictions_players:
  assumes "fst (join_restrictions j roles b ds) = LFG_JOIN_OK"
  shows "set (snd (join_restrictions j roles b ds)) = join_party_guids j"
proof (cases "jp_group j")
  case None
  with assms show ?thesis by (auto simp: join_restrictions_def join_party_guids_def Let_def split: if_splits)
next
  case (Some gr)
  have ok: "\<forall>m \<in> set (jg_members gr). member_ok b m"
    using assms Some unfolding join_restrictions_OK by (simp add: party_may_join_def)
  have "party_may_join j roles b" "ds \<noteq> []" using assms unfolding join_restrictions_OK by auto
  then have "join_restrictions j roles b ds = (LFG_JOIN_OK, fold insort_insert (map jm_guid (jg_members gr)) [])"
    using ok by (auto simp: join_restrictions_def party_may_join_def Let_def Some members_loop_OK(2)
        member_ok_def [of _ "jp_self j"])
  then show ?thesis by (simp add: join_party_guids_def Some set_insort_fold)
qed

text \<open>What may be asked for: only raids, or only dungeons, a random one on its own.\<close>

definition kinds_ok :: "mgr_env \<Rightarrow> nat \<Rightarrow> u32 list \<Rightarrow> bool" where
  "kinds_ok e n ds \<longleftrightarrow> (\<forall>d \<in> set ds. GetDungeonType e d = LFG_TYPE_RAID) \<or>
     (\<forall>d \<in> set ds. GetDungeonType e d \<in> {LFG_TYPE_DUNGEON, LFG_TYPE_HEROIC} \<or> GetDungeonType e d = LFG_TYPE_RANDOM \<and> n \<le> 1)"

lemmas type_values = LFG_TYPE_RAID_def LFG_TYPE_RANDOM_def LFG_TYPE_HEROIC_def LFG_TYPE_DUNGEON_def LFG_TYPE_NONE_def

lemma types_loop_stop: "r \<noteq> LFG_JOIN_OK \<Longrightarrow> types_loop e all ds (r, x) = (r, x)"
  by (cases ds; cases x) auto

lemma types_loop_OK:
  "fst (types_loop e all ds (LFG_JOIN_OK, isD, isR, rId)) = LFG_JOIN_OK \<longleftrightarrow> ds = [] \<or>
     (\<forall>d \<in> set ds. GetDungeonType e d = LFG_TYPE_RAID) \<and> \<not> isD \<or>
     (\<forall>d \<in> set ds. GetDungeonType e d \<in> {LFG_TYPE_DUNGEON, LFG_TYPE_HEROIC} \<or>
        GetDungeonType e d = LFG_TYPE_RANDOM \<and> length all \<le> 1) \<and> \<not> isR"
proof (induction ds arbitrary: isD isR rId)
  case (Cons d ds)
  consider "GetDungeonType e d = LFG_TYPE_RAID" | "GetDungeonType e d = LFG_TYPE_RANDOM"
    | "GetDungeonType e d \<in> {LFG_TYPE_DUNGEON, LFG_TYPE_HEROIC}"
    | "GetDungeonType e d \<notin> {LFG_TYPE_RAID, LFG_TYPE_RANDOM, LFG_TYPE_DUNGEON, LFG_TYPE_HEROIC}" by blast
  then show ?case
    by cases (auto simp: Let_def types_loop_stop Cons.IH type_values)
qed simp

lemma types_loop_random:
  assumes "fst (types_loop e all ds (LFG_JOIN_OK, isD, isR, rId)) = LFG_JOIN_OK"
  shows "snd (snd (snd (types_loop e all ds (LFG_JOIN_OK, isD, isR, rId)))) =
    (if \<exists>d \<in> set ds. GetDungeonType e d = LFG_TYPE_RANDOM then hd all else rId)"
  using assms
proof (induction ds arbitrary: isD isR rId)
  case (Cons d ds)
  consider "GetDungeonType e d = LFG_TYPE_RAID" | "GetDungeonType e d = LFG_TYPE_RANDOM"
    | "GetDungeonType e d \<in> {LFG_TYPE_DUNGEON, LFG_TYPE_HEROIC}"
    | "GetDungeonType e d \<notin> {LFG_TYPE_RAID, LFG_TYPE_RANDOM, LFG_TYPE_DUNGEON, LFG_TYPE_HEROIC}" by blast
  then show ?case
    by cases (use Cons in \<open>auto simp: Let_def types_loop_stop type_values split: if_splits\<close>)
qed simp

section \<open>Compatible dungeons\<close>

definition locked_ids :: "(u32 \<times> u32) list \<Rightarrow> u32 set" where
  "locked_ids locks = (\<lambda>(key, status). key AND 0x00FFFFFF) ` set locks"

lemma player_locks_left:
  "fst (player_locks e False g locks (ds, instances, lockmap, ok)) = filter (\<lambda>d. d \<notin> locked_ids locks) ds"
proof (induction locks arbitrary: ds instances lockmap ok)
  case (Cons x locks)
  obtain key status where x: "x = (key, status)" by fastforce
  show ?case
    by (auto simp: x Let_def Cons.IH locked_ids_def removeAll_filter_not_eq intro!: filter_cong)
qed (simp add: locked_ids_def)

lemma compatible_loop_left:
  "fst (compatible_loop e False gs acc) = filter (\<lambda>d. \<forall>g \<in> set gs. d \<notin> locked_ids (me_locked e g)) (fst acc)"
proof (induction gs arbitrary: acc)
  case (Cons g gs)
  obtain ds i l k where acc: "acc = (ds, i, l, k)" by (metis prod_cases4)
  show ?case
    by (auto simp: acc Cons.IH player_locks_left)
qed simp

section \<open>Properties\<close>

text \<open>The dungeons asked for, a random one replaced by those it stands for.\<close>

definition wanted :: "mgr_env \<Rightarrow> u32 list \<Rightarrow> u32 list" where
  "wanted e ds = (if \<exists>d \<in> set ds. GetDungeonType e d = LFG_TYPE_RANDOM \<and> hd ds \<noteq> 0 then GetDungeonsByRandom e (hd ds) else ds)"

text \<open>
  C14: A request of a party that does not continue its dungeon is admitted exactly if everyone may
  join, the dungeons are all raids or all dungeons with a random one only on its own, and one of
  the dungeons wanted is locked for nobody in the party; and those are the dungeons it queues for.
\<close>

theorem JoinLfg_admission:
  shows "let c = join_checks e j roles False ds;
      free = filter (\<lambda>d. \<forall>g \<in> join_party_guids j. d \<notin> locked_ids (me_locked e g)) (wanted e ds) in
    (jc_result c = LFG_JOIN_OK \<longleftrightarrow> ds \<noteq> [] \<and> party_may_join j roles False \<and> kinds_ok e (length ds) ds \<and> free \<noteq> []) \<and>
    (jc_result c = LFG_JOIN_OK \<longrightarrow> jc_dungeons c = free)"
proof -
  obtain r ps where jr: "join_restrictions j roles False ds = (r, ps)" by fastforce
  obtain t isD isR rId where tl: "types_loop e ds ds (LFG_JOIN_OK, False, False, 0) = (t, isD, isR, rId)"
    by (metis prod_cases4)
  have r: "r = LFG_JOIN_OK \<longleftrightarrow> ds \<noteq> [] \<and> party_may_join j roles False"
    using join_restrictions_OK [of j roles False ds] by (simp add: jr)
  have t: "t = LFG_JOIN_OK \<longleftrightarrow> kinds_ok e (length ds) ds"
    using types_loop_OK [of e ds ds False False 0] by (auto simp: tl kinds_ok_def)
  show ?thesis
  proof (cases "r = LFG_JOIN_OK \<and> t = LFG_JOIN_OK")
    case True
    have ps: "set ps = join_party_guids j" using join_restrictions_players [of j roles False ds] True by (simp add: jr)
    have "rId = (if \<exists>d \<in> set ds. GetDungeonType e d = LFG_TYPE_RANDOM then hd ds else 0)"
      using types_loop_random [of e ds ds False False 0] True by (simp add: tl)
    then have ds: "(if rId \<noteq> 0 then GetDungeonsByRandom e rId else ds) = wanted e ds" by (auto simp: wanted_def)
    obtain left i l k where cl: "compatible_loop e False ps (wanted e ds, [], [], True) = (left, i, l, k)" by (metis prod_cases4)
    have left: "left = filter (\<lambda>d. \<forall>g \<in> join_party_guids j. d \<notin> locked_ids (me_locked e g)) (wanted e ds)"
      using compatible_loop_left [of e ps "(wanted e ds, [], [], True)"] by (simp add: cl ps)
    have "join_checks e j roles False ds = \<lparr>jc_result = (if left \<noteq> [] then LFG_JOIN_OK
                           else if jp_group j \<noteq> None then LFG_JOIN_INTERNAL_ERROR else LFG_JOIN_NOT_MEET_REQS),
              jc_dungeons = left, jc_random = rId, jc_raid = isR, jc_locks = (if left \<noteq> [] then [] else l), jc_asserts = k\<rparr>"
      unfolding join_checks_def jr prod.case tl Let_def ds GetCompatibleDungeons_def cl using True by simp
    with r t True left show ?thesis by (auto simp: Let_def)
  next
    case False
    then have "jc_result (join_checks e j roles False ds) \<noteq> LFG_JOIN_OK"
      by (auto simp: join_checks_def jr tl)
    with r t False show ?thesis by (auto simp: Let_def)
  qed
qed

lemma LeaveQueue_gone:
  "\<not> listed (queue_at (LeaveQueue e q g w) q) g" "\<not> has_data (queue_at (LeaveQueue e q g w) q) g"
  by (simp_all add: LeaveQueue_def queue_at_def upd_queue_def listed_def has_data_def RemoveFromQueue_view)

text \<open>
  C15: A refused request answers the player and leaves every player, group, role check, proposal and
  vote as it was. The queues stay the same too unless the party was queued: then it has left its
  queue while its state still says it is queued.
\<close>

theorem JoinLfg_refused:
  assumes "ds \<noteq> []"
    and "jc_result (join_checks e j roles (continues w j)
      (if continues w j then [GetLfgDungeon w (join_guid j) True] else ds)) \<noteq> LFG_JOIN_OK"
  shows "let w' = JoinLfg e j roles ds comment w; gg = join_guid j; q = queue_at w' (GetQueueId w gg) in
    PlayersStore w' = PlayersStore w \<and> GroupsStore w' = GroupsStore w \<and> RoleChecksStore w' = RoleChecksStore w \<and>
    ProposalsStore w' = ProposalsStore w \<and> BootsStore w' = BootsStore w \<and> GetState w' gg = GetState w gg \<and>
    (\<exists>r locks. r \<noteq> LFG_JOIN_OK \<and> lw_log w' = lw_log w @ [SendJoinResult (jm_guid (jp_self j)) r LFG_ROLECHECK_DEFAULT locks]) \<and>
    (if GetState w gg = LFG_STATE_QUEUED then \<not> listed q gg \<and> \<not> has_data q gg else QueuesStore w' = QueuesStore w)"
proof -
  have leave: "PlayersStore (LeaveQueue e q g w) = PlayersStore w" "GroupsStore (LeaveQueue e q g w) = GroupsStore w"
    "RoleChecksStore (LeaveQueue e q g w) = RoleChecksStore w" "ProposalsStore (LeaveQueue e q g w) = ProposalsStore w"
    "BootsStore (LeaveQueue e q g w) = BootsStore w" "lw_log (LeaveQueue e q g w) = lw_log w" for q g
    by (simp_all add: LeaveQueue_def upd_queue_def)
  have same: "queue_at (lcall c (lassert b v)) q = queue_at v q" for c b v q
    by (simp add: queue_at_def lcall_def lassert_def)
  have flat: "PlayersStore (lcall c (lassert b v)) = PlayersStore v" "GroupsStore (lcall c (lassert b v)) = GroupsStore v"
    "RoleChecksStore (lcall c (lassert b v)) = RoleChecksStore v" "ProposalsStore (lcall c (lassert b v)) = ProposalsStore v"
    "BootsStore (lcall c (lassert b v)) = BootsStore v" "lw_log (lcall c (lassert b v)) = lw_log v @ [c]"
    "QueuesStore (lcall c (lassert b v)) = QueuesStore v" for c b v
    by (simp_all add: lcall_def lassert_def)
  show ?thesis
    using assms
    by (simp add: JoinLfg_def Let_def flat leave same LeaveQueue_gone GetState_def)
qed

theorem JoinLfg_admission_witness:
  "jc_result (join_checks demo_env (demo_join 1) ROLE_TANK False [7]) = LFG_JOIN_OK \<and>
   jc_dungeons (join_checks demo_env (demo_join 1) ROLE_TANK False [7]) = [7]"
proof -
  have "kinds_ok demo_env (length [7]) [7]" "wanted demo_env [7] = [7]"
    by (auto simp: kinds_ok_def wanted_def GetDungeonType_def dungeon_at_def demo_env_def type_values)
  moreover have "party_may_join (demo_join 1) ROLE_TANK False"
    by (simp add: party_may_join_def demo_join_def member_ok_def CanPerformSelectedRoles_def role_values
        CLASS_PALADIN_def CLASS_DEATH_KNIGHT_def CLASS_DRUID_def CLASS_PRIEST_def CLASS_SHAMAN_def)
  moreover have "7 \<notin> locked_ids (me_locked demo_env g)" for g by (simp add: demo_env_def locked_ids_def)
  ultimately show ?thesis
    using JoinLfg_admission [of demo_env "demo_join 1" ROLE_TANK "[7]"] by (simp add: Let_def)
qed

text \<open>A rogue who is queued asks to be a tank: refused, out of the queue, and still in its state.\<close>

theorem JoinLfg_refused_witness:
  "let j = (demo_join 1)\<lparr>jp_class := 4\<rparr>; w' = JoinLfg demo_env j ROLE_TANK [7] [] demo_queued in
    GetState w' 1 = LFG_STATE_QUEUED \<and> listed (queue_at demo_queued 0) 1 \<and> \<not> listed (queue_at w' 0) 1"
proof -
  let ?j = "(demo_join 1)\<lparr>jp_class := 4\<rparr>"
  have c: "\<not> continues demo_queued ?j" "join_guid ?j = 1" by (simp_all add: continues_def join_guid_def demo_join_def)
  have "\<not> party_may_join ?j ROLE_TANK False"
    by (simp add: party_may_join_def CanPerformSelectedRoles_def role_values
        CLASS_PALADIN_def CLASS_DEATH_KNIGHT_def CLASS_DRUID_def CLASS_WARRIOR_def)
  then have "fst (join_restrictions ?j ROLE_TANK False [7]) \<noteq> LFG_JOIN_OK" by (simp add: join_restrictions_OK)
  then have r: "jc_result (join_checks demo_env ?j ROLE_TANK (continues demo_queued ?j)
      (if continues demo_queued ?j then [GetLfgDungeon demo_queued (join_guid ?j) True] else [7])) \<noteq> LFG_JOIN_OK"
    using c by (auto simp: join_checks_def split: prod.split)
  have q: "GetQueueId demo_queued 1 = 0" "GetState demo_queued 1 = LFG_STATE_QUEUED" "queue_at demo_queued 0 = three_queue"
    by (simp_all add: GetQueueId_def demo_guids GetTeam_def demo_queued_def LfgPlayerData_init_def GetState_def queue_at_def om_get_def)
  have "listed three_queue 1" by (simp add: listed_def three_views)
  then show ?thesis
    using JoinLfg_refused [OF _ r, of "[]"] by (simp add: Let_def c q)
qed

end
