(* ===== verification/Threat_Manager.thy ===== *)
theory Threat_Manager
  imports Prelude
begin

text \<open>
  The threat manager, \<^verbatim>\<open>src/server/game/Combat/ThreatManager.{h,cpp}\<close>: whom a creature
  attacks.  A threat reference is a cell of the store \<open>tw_refs\<close>; the owner's sorted and unsorted
  lists and the victim's list of those it threatens hold its address, as the pointers of the code
  do.  Units are named by their GUID.  An \<^verbatim>\<open>unordered_map\<close> is kept in key order, so its loops run
  in key order.

  The sorted list is a \<^verbatim>\<open>boost\<close> heap.  Its contents are \<open>tm_sorted\<close>; what \<^verbatim>\<open>top\<close> and the ordered
  iteration return is the argument \<open>te_top\<close>, \<open>te_ordered\<close>, under the laws \<open>heap_members\<close> (an
  element, and all elements) and \<open>heap_sorts\<close> (the greatest, and from the greatest down, whatever
  the order among equals) of the library's documentation.  The second law is promised only while
  every change of a key has been reported in the right direction; \<open>tw_heap_ok\<close> remembers that, is
  written by the two notifications only, and is the first argument of \<open>te_top\<close> and \<open>te_ordered\<close>.

  What the operations read of units, auras and spells is the argument \<open>e\<close>.  The combat manager is
  the argument \<open>te_set_combat\<close>, \<open>te_in_combat\<close> on a state of any type.  Packets and AI hooks
  are written to \<open>tw_log\<close>; the bodies of the hooks are not run.  A failed \<^verbatim>\<open>ASSERT\<close> clears
  \<open>tw_asserts\<close>, or \<open>tw_ai_asserts\<close> for \<^verbatim>\<open>ASSERT_NOTNULL\<close> of the owner as a creature.
\<close>

section \<open>States of a reference\<close>

datatype online_state = ONLINE_STATE_OFFLINE | ONLINE_STATE_SUPPRESSED | ONLINE_STATE_ONLINE

fun online_value :: "online_state \<Rightarrow> nat" where
  "online_value ONLINE_STATE_OFFLINE = 0"
| "online_value ONLINE_STATE_SUPPRESSED = 1"
| "online_value ONLINE_STATE_ONLINE = 2"

instantiation online_state :: linorder
begin

definition less_eq_online_state :: "online_state \<Rightarrow> online_state \<Rightarrow> bool" where
  "less_eq_online_state a b \<longleftrightarrow> online_value a \<le> online_value b"

definition less_online_state :: "online_state \<Rightarrow> online_state \<Rightarrow> bool" where
  "less_online_state a b \<longleftrightarrow> online_value a < online_value b"

instance
proof
  fix a b :: online_state
  assume "a \<le> b" "b \<le> a"
  then show "a = b" by (cases a; cases b) (simp_all add: less_eq_online_state_def)
qed (auto simp: less_eq_online_state_def less_online_state_def)

end

definition TAUNT_STATE_DETAUNT :: u32 where "TAUNT_STATE_DETAUNT = 0"
definition TAUNT_STATE_NONE :: u32 where "TAUNT_STATE_NONE = 1"
definition TAUNT_STATE_TAUNT :: u32 where "TAUNT_STATE_TAUNT = 2"

record threat_ref =
  tr_owner :: guid
  tr_victim :: guid
  tr_online :: online_state
  tr_base :: float32
  tr_temp :: i32
  tr_taunted :: u32

definition GetThreat :: "threat_ref \<Rightarrow> float32" where
  "GetThreat r = max (tr_base r + of_int (sint (tr_temp r))) 0"

definition IsOnline :: "threat_ref \<Rightarrow> bool" where
  "IsOnline r \<longleftrightarrow> tr_online r \<ge> ONLINE_STATE_ONLINE"

definition IsAvailable :: "threat_ref \<Rightarrow> bool" where
  "IsAvailable r \<longleftrightarrow> tr_online r > ONLINE_STATE_OFFLINE"

definition Ref_IsSuppressed :: "threat_ref \<Rightarrow> bool" where
  "Ref_IsSuppressed r \<longleftrightarrow> tr_online r = ONLINE_STATE_SUPPRESSED"

definition IsOffline :: "threat_ref \<Rightarrow> bool" where
  "IsOffline r \<longleftrightarrow> tr_online r \<le> ONLINE_STATE_OFFLINE"

definition IsTaunting :: "threat_ref \<Rightarrow> bool" where
  "IsTaunting r \<longleftrightarrow> tr_taunted r \<ge> TAUNT_STATE_TAUNT"

definition IsDetaunted :: "threat_ref \<Rightarrow> bool" where
  "IsDetaunted r \<longleftrightarrow> tr_taunted r = TAUNT_STATE_DETAUNT"

definition GetTauntState :: "threat_ref \<Rightarrow> u32" where
  "GetTauntState r = (if IsTaunting r then TAUNT_STATE_TAUNT else tr_taunted r)"

text \<open>\<open>CompareReferencesLT a b weight\<close>: \<open>a\<close> is lower on the list than \<open>b\<close>.\<close>

definition CompareReferencesLT :: "threat_ref \<Rightarrow> threat_ref \<Rightarrow> float32 \<Rightarrow> bool" where
  "CompareReferencesLT a b aWeight =
     (if tr_online a \<noteq> tr_online b then tr_online a < tr_online b
      else if tr_taunted a \<noteq> tr_taunted b then tr_taunted a < tr_taunted b
      else GetThreat a * aWeight < GetThreat b)"

section \<open>What the manager reads, and its state\<close>

record threat_unit =
  tu_creature :: bool
  tu_pet :: bool
  tu_totem :: bool
  tu_trigger :: bool
  tu_minion_or_guardian :: bool
  tu_summoner_is_player :: "bool option" \<comment> \<open>None: not a temporary summon\<close>
  tu_accessory :: bool
  tu_player_controlled :: bool
  tu_immune_pc :: bool
  tu_immune_npc :: bool
  tu_confused :: bool
  tu_breakable_stun :: bool
  tu_engaged :: bool
  tu_controlled :: bool
  tu_feedback_disabled :: bool
  tu_has_ai :: bool
  tu_taunts :: "guid list" \<comment> \<open>the casters of the taunt auras, in list order\<close>
  tu_total_threat :: "i32 list" \<comment> \<open>the amounts of the total threat auras\<close>

record threat_spell =
  ts_no_threat :: bool
  ts_no_initial_threat :: bool
  ts_no_helpful_threat :: bool
  ts_school_mask :: u32
  ts_pct_mod :: "float32 option" \<comment> \<open>the entry of the spell threat table\<close>

record 'c threat_env =
  te_unit :: "guid \<Rightarrow> threat_unit"
  te_can_see :: "guid \<Rightarrow> guid \<Rightarrow> bool"
  te_acceptable :: "guid \<Rightarrow> guid \<Rightarrow> bool"
  te_can_attack :: "guid \<Rightarrow> guid \<Rightarrow> bool"
  te_immune_to :: "guid \<Rightarrow> guid \<Rightarrow> bool" \<comment> \<open>the victim to the owner's melee school\<close>
  te_detaunted :: "guid \<Rightarrow> guid \<Rightarrow> bool" \<comment> \<open>the victim by an aura of the owner\<close>
  te_melee :: "guid \<Rightarrow> guid \<Rightarrow> bool"
  te_exists :: "guid \<Rightarrow> guid \<Rightarrow> bool" \<comment> \<open>\<^verbatim>\<open>ObjectAccessor::GetUnit\<close> finds it\<close>
  te_school_mult :: "guid \<Rightarrow> u32 \<Rightarrow> float32"
  te_spell_mod :: "guid \<Rightarrow> threat_spell \<Rightarrow> float32 \<Rightarrow> float32"
  te_set_combat :: "guid \<Rightarrow> guid \<Rightarrow> 'c \<Rightarrow> 'c \<times> bool"
  te_in_combat :: "'c \<Rightarrow> guid \<Rightarrow> guid \<Rightarrow> bool"
  te_top :: "bool \<Rightarrow> (nat \<times> threat_ref) list \<Rightarrow> nat"
  te_ordered :: "bool \<Rightarrow> (nat \<times> threat_ref) list \<Rightarrow> nat list"

record threat_mgr =
  tm_can :: bool
  tm_need_client :: bool
  tm_need_clear :: bool
  tm_timer :: u32
  tm_sorted :: "nat list"
  tm_my :: "(guid, nat) omap"
  tm_ai :: "guid list"
  tm_current :: "nat option"
  tm_fixate :: "nat option"
  tm_by_me :: "(guid, nat) omap"
  tm_single :: "float32 list"
  tm_multi :: "(u32, float32) omap"
  tm_redirect :: "(guid \<times> u32) list"
  tm_registry :: "(u32, (guid, u32) omap) omap"

datatype threat_call =
    SendClearAllThreat guid
  | SendRemove guid guid
  | SendHighest guid guid "(guid \<times> int) list"
  | SendThreatUpdate guid "(guid \<times> int) list"
  | JustStartedThreateningMe guid guid

record 'c threat_world =
  tw_refs :: "nat \<rightharpoonup> threat_ref"
  tw_next :: nat
  tw_mgr :: "guid \<Rightarrow> threat_mgr"
  tw_combat :: 'c
  tw_log :: "threat_call list"
  tw_asserts :: bool
  tw_ai_asserts :: bool
  tw_heap_ok :: "guid \<Rightarrow> bool"

definition THREAT_UPDATE_INTERVAL :: u32 where
  "THREAT_UPDATE_INTERVAL = 1000"

definition MAX_SPELL_SCHOOL :: nat where
  "MAX_SPELL_SCHOOL = 7"

definition new_mgr :: threat_mgr where
  "new_mgr = \<lparr>tm_can = False, tm_need_client = False, tm_need_clear = False,
     tm_timer = THREAT_UPDATE_INTERVAL, tm_sorted = [], tm_my = [], tm_ai = [], tm_current = None,
     tm_fixate = None, tm_by_me = [], tm_single = replicate MAX_SPELL_SCHOOL 1, tm_multi = [],
     tm_redirect = [], tm_registry = []\<rparr>"

definition Threat_init :: "'c \<Rightarrow> 'c threat_world" where
  "Threat_init c = \<lparr>tw_refs = Map.empty, tw_next = 0, tw_mgr = (\<lambda>_. new_mgr), tw_combat = c,
     tw_log = [], tw_asserts = True, tw_ai_asserts = True, tw_heap_ok = (\<lambda>_. True)\<rparr>"

definition tref :: "'c threat_world \<Rightarrow> nat \<Rightarrow> threat_ref" where
  "tref w i = the (tw_refs w i)"

definition write_tref :: "nat \<Rightarrow> threat_ref \<Rightarrow> 'c threat_world \<Rightarrow> 'c threat_world" where
  "write_tref i r w = w\<lparr>tw_refs := (tw_refs w)(i \<mapsto> r)\<rparr>"

definition upd_mgr :: "guid \<Rightarrow> (threat_mgr \<Rightarrow> threat_mgr) \<Rightarrow> 'c threat_world \<Rightarrow> 'c threat_world" where
  "upd_mgr u f w = w\<lparr>tw_mgr := (tw_mgr w)(u := f (tw_mgr w u))\<rparr>"

definition tlog :: "threat_call \<Rightarrow> 'c threat_world \<Rightarrow> 'c threat_world" where
  "tlog c w = w\<lparr>tw_log := tw_log w @ [c]\<rparr>"

definition heap_view :: "'c threat_world \<Rightarrow> guid \<Rightarrow> (nat \<times> threat_ref) list" where
  "heap_view w u = map (\<lambda>i. (i, tref w i)) (tm_sorted (tw_mgr w u))"

definition heap_top :: "'c threat_env \<Rightarrow> 'c threat_world \<Rightarrow> guid \<Rightarrow> nat" where
  "heap_top e w u = te_top e (tw_heap_ok w u) (heap_view w u)"

definition heap_ordered :: "'c threat_env \<Rightarrow> 'c threat_world \<Rightarrow> guid \<Rightarrow> nat list" where
  "heap_ordered e w u = te_ordered e (tw_heap_ok w u) (heap_view w u)"

section \<open>Packets\<close>

definition SendClearAllThreatToClients ::
  "'c threat_env \<Rightarrow> guid \<Rightarrow> 'c threat_world \<Rightarrow> 'c threat_world" where
  "SendClearAllThreatToClients e u w =
     (if tu_creature (te_unit e u) \<and> tu_feedback_disabled (te_unit e u) then w
      else tlog (SendClearAllThreat u) w)"

definition SendRemoveToClients ::
  "'c threat_env \<Rightarrow> guid \<Rightarrow> guid \<Rightarrow> 'c threat_world \<Rightarrow> 'c threat_world" where
  "SendRemoveToClients e u victim w =
     (if tu_creature (te_unit e u) \<and> tu_feedback_disabled (te_unit e u) then w
      else tlog (SendRemove u victim) w)"

definition packet_list :: "'c threat_world \<Rightarrow> guid \<Rightarrow> (guid \<times> int) list" where
  "packet_list w u = map (\<lambda>i. (tr_victim (tref w i), \<lfloor>GetThreat (tref w i) * 100\<rfloor>))
     (filter (\<lambda>i. IsAvailable (tref w i)) (tm_sorted (tw_mgr w u)))"

definition SendThreatListToClients ::
  "'c threat_env \<Rightarrow> guid \<Rightarrow> bool \<Rightarrow> 'c threat_world \<Rightarrow> 'c threat_world" where
  "SendThreatListToClients e u newHighest w =
     (if tu_creature (te_unit e u) \<and> tu_feedback_disabled (te_unit e u) then w
      else if newHighest
      then tlog (SendHighest u (tr_victim (tref w (the (tm_current (tw_mgr w u))))) (packet_list w u)) w
      else tlog (SendThreatUpdate u (packet_list w u)) w)"

section \<open>Operations of a reference\<close>

text \<open>
  The two notifications of the heap.  The argument \<open>old\<close> is the reference before the change; it
  only serves to remember whether the direction reported is the right one.
\<close>

definition HeapNotifyIncreased :: "threat_ref \<Rightarrow> nat \<Rightarrow> 'c threat_world \<Rightarrow> 'c threat_world" where
  "HeapNotifyIncreased old i w = (let u = tr_owner (tref w i) in
     w\<lparr>tw_heap_ok := (tw_heap_ok w)(u := tw_heap_ok w u \<and> \<not> CompareReferencesLT (tref w i) old 1)\<rparr>)"

definition HeapNotifyDecreased :: "threat_ref \<Rightarrow> nat \<Rightarrow> 'c threat_world \<Rightarrow> 'c threat_world" where
  "HeapNotifyDecreased old i w = (let u = tr_owner (tref w i) in
     w\<lparr>tw_heap_ok := (tw_heap_ok w)(u := tw_heap_ok w u \<and> \<not> CompareReferencesLT old (tref w i) 1)\<rparr>)"

definition need_client_update :: "guid \<Rightarrow> 'c threat_world \<Rightarrow> 'c threat_world" where
  "need_client_update u = upd_mgr u (\<lambda>m. m\<lparr>tm_need_client := True\<rparr>)"

definition Ref_AddThreat :: "nat \<Rightarrow> float32 \<Rightarrow> 'c threat_world \<Rightarrow> 'c threat_world" where
  "Ref_AddThreat i amount w =
     (if amount = 0 then w
      else let r = tref w i;
        w1 = write_tref i (r\<lparr>tr_base := max (tr_base r + amount) 0\<rparr>) w;
        w2 = (if amount > 0 then HeapNotifyIncreased r i w1 else HeapNotifyDecreased r i w1)
      in need_client_update (tr_owner r) w2)"

definition Ref_ScaleThreat :: "nat \<Rightarrow> float32 \<Rightarrow> 'c threat_world \<Rightarrow> 'c threat_world" where
  "Ref_ScaleThreat i factor w =
     (if factor = 1 then w
      else let r = tref w i;
        w1 = write_tref i (r\<lparr>tr_base := tr_base r * factor\<rparr>) w;
        w2 = (if factor > 1 then HeapNotifyIncreased r i w1 else HeapNotifyDecreased r i w1)
      in need_client_update (tr_owner r) w2)"

text \<open>\<^verbatim>\<open>0.01f * float(100 + percent)\<close>, with the constant's binary value.\<close>

definition percent_factor :: "i32 \<Rightarrow> float32" where
  "percent_factor percent = (5368709 / 536870912) * of_int (sint (100 + percent))"

definition Ref_ModifyThreatByPercent :: "nat \<Rightarrow> i32 \<Rightarrow> 'c threat_world \<Rightarrow> 'c threat_world" where
  "Ref_ModifyThreatByPercent i percent w =
     (if percent \<noteq> 0 then Ref_ScaleThreat i (percent_factor percent) w else w)"

definition FlagsAllowFighting :: "'c threat_env \<Rightarrow> guid \<Rightarrow> guid \<Rightarrow> bool" where
  "FlagsAllowFighting e a b =
     (if tu_creature (te_unit e a) \<and> tu_trigger (te_unit e a) then False
      else if tu_player_controlled (te_unit e a) then \<not> tu_immune_pc (te_unit e b)
      else \<not> tu_immune_npc (te_unit e b))"

definition ShouldBeOffline :: "'c threat_env \<Rightarrow> threat_ref \<Rightarrow> bool" where
  "ShouldBeOffline e r = (let owner = tr_owner r; victim = tr_victim r in
     if \<not> te_can_see e owner victim then True
     else if \<not> te_acceptable e owner victim \<or> \<not> te_can_attack e owner victim then True
     else if \<not> FlagsAllowFighting e owner victim \<or> \<not> FlagsAllowFighting e victim owner then True
     else False)"

definition ShouldBeSuppressed :: "'c threat_env \<Rightarrow> threat_ref \<Rightarrow> bool" where
  "ShouldBeSuppressed e r =
     (if IsTaunting r then False
      else if te_immune_to e (tr_victim r) (tr_owner r) then True
      else if tu_confused (te_unit e (tr_victim r)) then True
      else if tu_breakable_stun (te_unit e (tr_victim r)) then True
      else False)"

definition RegisterForAIUpdate :: "guid \<Rightarrow> guid \<Rightarrow> 'c threat_world \<Rightarrow> 'c threat_world" where
  "RegisterForAIUpdate u g = upd_mgr u (\<lambda>m. m\<lparr>tm_ai := tm_ai m @ [g]\<rparr>)"

definition UpdateOffline :: "'c threat_env \<Rightarrow> nat \<Rightarrow> 'c threat_world \<Rightarrow> 'c threat_world" where
  "UpdateOffline e i w = (let r = tref w i; shouldBeOffline = ShouldBeOffline e r in
     if shouldBeOffline = IsOffline r then w
     else if shouldBeOffline
     then SendRemoveToClients e (tr_owner r) (tr_victim r)
            (HeapNotifyDecreased r i (write_tref i (r\<lparr>tr_online := ONLINE_STATE_OFFLINE\<rparr>) w))
     else RegisterForAIUpdate (tr_owner r) (tr_victim r)
            (HeapNotifyIncreased r i (write_tref i
              (r\<lparr>tr_online := (if ShouldBeSuppressed e r then ONLINE_STATE_SUPPRESSED
                               else ONLINE_STATE_ONLINE)\<rparr>) w)))"

definition UpdateTauntState ::
  "'c threat_env \<Rightarrow> nat \<Rightarrow> u32 \<Rightarrow> 'c threat_world \<Rightarrow> 'c threat_world" where
  "UpdateTauntState e i state w = (let r = tref w i;
       state' = (if state < TAUNT_STATE_TAUNT \<and> te_detaunted e (tr_victim r) (tr_owner r)
                 then TAUNT_STATE_DETAUNT else state) in
     if state' = tr_taunted r then w
     else let w1 = write_tref i (r\<lparr>tr_taunted := state'\<rparr>) w;
              w2 = (if state' < tr_taunted r then HeapNotifyDecreased r i w1
                    else HeapNotifyIncreased r i w1)
       in need_client_update (tr_owner r) w2)"

section \<open>The lists\<close>

definition PutThreatListRef :: "guid \<Rightarrow> guid \<Rightarrow> nat \<Rightarrow> 'c threat_world \<Rightarrow> 'c threat_world" where
  "PutThreatListRef u g i w =
     upd_mgr u (\<lambda>m. m\<lparr>tm_need_client := True, tm_my := om_put g i (tm_my m),
                      tm_sorted := tm_sorted m @ [i]\<rparr>)
       (w\<lparr>tw_asserts := tw_asserts w \<and> om_get (tm_my (tw_mgr w u)) g = None\<rparr>)"

definition PurgeThreatListRef :: "guid \<Rightarrow> guid \<Rightarrow> 'c threat_world \<Rightarrow> 'c threat_world" where
  "PurgeThreatListRef u g w =
     (case om_get (tm_my (tw_mgr w u)) g of
        None \<Rightarrow> w
      | Some i \<Rightarrow> upd_mgr u (\<lambda>m. m\<lparr>tm_my := om_erase g (tm_my m),
            tm_sorted := removeAll i (tm_sorted m),
            tm_fixate := (if tm_fixate m = Some i then None else tm_fixate m),
            tm_current := (if tm_current m = Some i then None else tm_current m)\<rparr>) w)"

definition PutThreatenedByMeRef :: "guid \<Rightarrow> guid \<Rightarrow> nat \<Rightarrow> 'c threat_world \<Rightarrow> 'c threat_world" where
  "PutThreatenedByMeRef u g i w =
     upd_mgr u (\<lambda>m. m\<lparr>tm_by_me := om_put g i (tm_by_me m)\<rparr>)
       (w\<lparr>tw_asserts := tw_asserts w \<and> om_get (tm_by_me (tw_mgr w u)) g = None\<rparr>)"

definition PurgeThreatenedByMeRef :: "guid \<Rightarrow> guid \<Rightarrow> 'c threat_world \<Rightarrow> 'c threat_world" where
  "PurgeThreatenedByMeRef u g = upd_mgr u (\<lambda>m. m\<lparr>tm_by_me := om_erase g (tm_by_me m)\<rparr>)"

definition UnregisterAndFree :: "nat \<Rightarrow> 'c threat_world \<Rightarrow> 'c threat_world" where
  "UnregisterAndFree i w = (let r = tref w i;
       w1 = PurgeThreatListRef (tr_owner r) (tr_victim r) w;
       w2 = PurgeThreatenedByMeRef (tr_victim r) (tr_owner r) w1
     in w2\<lparr>tw_refs := (tw_refs w2)(i := None)\<rparr>)"

section \<open>Queries\<close>

definition IsThreatListEmpty :: "'c threat_world \<Rightarrow> guid \<Rightarrow> bool \<Rightarrow> bool" where
  "IsThreatListEmpty w u includeOffline =
     (if includeOffline then tm_sorted (tw_mgr w u) = []
      else \<not> list_ex (\<lambda>i. IsAvailable (tref w i)) (tm_sorted (tw_mgr w u)))"

definition IsThreatenedBy :: "'c threat_world \<Rightarrow> guid \<Rightarrow> guid \<Rightarrow> bool \<Rightarrow> bool" where
  "IsThreatenedBy w u who includeOffline =
     (case om_get (tm_my (tw_mgr w u)) who of
        None \<Rightarrow> False
      | Some i \<Rightarrow> includeOffline \<or> IsAvailable (tref w i))"

definition Threat_GetThreat :: "'c threat_world \<Rightarrow> guid \<Rightarrow> guid \<Rightarrow> bool \<Rightarrow> float32" where
  "Threat_GetThreat w u who includeOffline =
     (case om_get (tm_my (tw_mgr w u)) who of
        None \<Rightarrow> 0
      | Some i \<Rightarrow> if includeOffline \<or> IsAvailable (tref w i) then GetThreat (tref w i) else 0)"

definition GetThreatListSize :: "'c threat_world \<Rightarrow> guid \<Rightarrow> nat" where
  "GetThreatListSize w u = length (tm_sorted (tw_mgr w u))"

definition GetUnsortedThreatList :: "'c threat_world \<Rightarrow> guid \<Rightarrow> nat list" where
  "GetUnsortedThreatList w u = map snd (tm_my (tw_mgr w u))"

definition GetSortedThreatList :: "'c threat_env \<Rightarrow> 'c threat_world \<Rightarrow> guid \<Rightarrow> nat list" where
  "GetSortedThreatList e w u = heap_ordered e w u"

definition GetModifiableThreatList :: "'c threat_env \<Rightarrow> 'c threat_world \<Rightarrow> guid \<Rightarrow> nat list" where
  "GetModifiableThreatList e w u = heap_ordered e w u"

definition GetLastVictim :: "'c threat_env \<Rightarrow> 'c threat_world \<Rightarrow> guid \<Rightarrow> guid option" where
  "GetLastVictim e w u = (case tm_current (tw_mgr w u) of
     Some i \<Rightarrow> if \<not> ShouldBeOffline e (tref w i) then Some (tr_victim (tref w i)) else None
   | None \<Rightarrow> None)"

definition Threat_GetAnyTarget :: "'c threat_world \<Rightarrow> guid \<Rightarrow> guid option" where
  "Threat_GetAnyTarget w u =
     (case find (\<lambda>i. \<not> IsOffline (tref w i)) (tm_sorted (tw_mgr w u)) of
        Some i \<Rightarrow> Some (tr_victim (tref w i))
      | None \<Rightarrow> None)"

definition IsThreateningAnyone :: "'c threat_world \<Rightarrow> guid \<Rightarrow> bool \<Rightarrow> bool" where
  "IsThreateningAnyone w u includeOffline =
     (if includeOffline then tm_by_me (tw_mgr w u) \<noteq> []
      else list_ex (\<lambda>(g, i). IsAvailable (tref w i)) (tm_by_me (tw_mgr w u)))"

definition IsThreateningTo :: "'c threat_world \<Rightarrow> guid \<Rightarrow> guid \<Rightarrow> bool \<Rightarrow> bool" where
  "IsThreateningTo w u who includeOffline =
     (case om_get (tm_by_me (tw_mgr w u)) who of
        None \<Rightarrow> False
      | Some i \<Rightarrow> includeOffline \<or> IsAvailable (tref w i))"

definition GetFixateTarget :: "'c threat_world \<Rightarrow> guid \<Rightarrow> guid option" where
  "GetFixateTarget w u = map_option (\<lambda>i. tr_victim (tref w i)) (tm_fixate (tw_mgr w u))"

section \<open>Choosing a victim\<close>

fun update_offline_loop ::
  "'c threat_env \<Rightarrow> (guid \<times> nat) list \<Rightarrow> 'c threat_world \<Rightarrow> 'c threat_world" where
  "update_offline_loop e [] w = w"
| "update_offline_loop e ((g, i) # rest) w = update_offline_loop e rest (UpdateOffline e i w)"

text \<open>The weights are the binary values of \<^verbatim>\<open>1.1f\<close> and \<^verbatim>\<open>1.3f\<close>.\<close>

definition weight_110 :: float32 where "weight_110 = 9227469 / 8388608"
definition weight_130 :: float32 where "weight_130 = 5452595 / 4194304"

text \<open>The second component is false where the scan runs into the failing \<^verbatim>\<open>ASSERT\<close>.\<close>

fun reselect_scan ::
  "'c threat_env \<Rightarrow> 'c threat_world \<Rightarrow> guid \<Rightarrow> nat \<Rightarrow> nat list \<Rightarrow> nat option \<times> bool" where
  "reselect_scan e w u oldVictimRef [] = (None, False)"
| "reselect_scan e w u oldVictimRef (next # rest) =
     (if next = oldVictimRef then (Some next, True)
      else if \<not> CompareReferencesLT (tref w oldVictimRef) (tref w next) weight_110
      then (Some oldVictimRef, True)
      else if te_melee e u (tr_victim (tref w next)) then (Some next, True)
      else reselect_scan e w u oldVictimRef rest)"

definition select_victim ::
  "'c threat_env \<Rightarrow> 'c threat_world \<Rightarrow> guid \<Rightarrow> nat option \<times> bool" where
  "select_victim e w u =
     (let m = tw_mgr w u in
      if (case tm_fixate m of Some f \<Rightarrow> IsAvailable (tref w f) | None \<Rightarrow> False)
      then (tm_fixate m, True)
      else
        let highest = heap_top e w u in
        if \<not> IsAvailable (tref w highest) then (None, True)
        else
        (case tm_current m of
           None \<Rightarrow> (Some highest, True)
         | Some old \<Rightarrow>
             if IsOffline (tref w old) \<or> highest = old then (Some highest, True)
             else if \<not> CompareReferencesLT (tref w old) (tref w highest) weight_110
             then (Some old, True)
             else if CompareReferencesLT (tref w old) (tref w highest) weight_130
             then (Some highest, True)
             else if te_melee e u (tr_victim (tref w highest)) then (Some highest, True)
             else reselect_scan e w u old (heap_ordered e w u)))"

definition ReselectVictim ::
  "'c threat_env \<Rightarrow> guid \<Rightarrow> 'c threat_world \<Rightarrow> nat option \<times> 'c threat_world" where
  "ReselectVictim e u w =
     (if tm_sorted (tw_mgr w u) = [] then (None, w)
      else let w1 = update_offline_loop e (tm_my (tw_mgr w u)) w;
               (victim, ok) = select_victim e w1 u
        in (victim, w1\<lparr>tw_asserts := tw_asserts w1 \<and> ok\<rparr>))"

fun notify_ai :: "guid \<Rightarrow> guid list \<Rightarrow> 'c threat_world \<Rightarrow> 'c threat_world" where
  "notify_ai u [] w = w"
| "notify_ai u (g # rest) w =
     (case om_get (tm_my (tw_mgr w u)) g of
        Some i \<Rightarrow> notify_ai u rest (tlog (JustStartedThreateningMe u (tr_victim (tref w i))) w)
      | None \<Rightarrow> notify_ai u rest w)"

definition ProcessAIUpdates :: "'c threat_env \<Rightarrow> guid \<Rightarrow> 'c threat_world \<Rightarrow> 'c threat_world" where
  "ProcessAIUpdates e u w =
     (let v = tm_ai (tw_mgr w u);
          w1 = w\<lparr>tw_ai_asserts := tw_ai_asserts w \<and> tu_creature (te_unit e u)\<rparr>;
          w2 = upd_mgr u (\<lambda>m. m\<lparr>tm_ai := []\<rparr>) w1
      in if \<not> tu_has_ai (te_unit e u) then w2 else notify_ai u v w2)"

definition UpdateVictim :: "'c threat_env \<Rightarrow> guid \<Rightarrow> 'c threat_world \<Rightarrow> 'c threat_world" where
  "UpdateVictim e u w =
     (let (newVictim, w1) = ReselectVictim e u w;
          newHighest = (newVictim \<noteq> None \<and> newVictim \<noteq> tm_current (tw_mgr w1 u));
          w2 = upd_mgr u (\<lambda>m. m\<lparr>tm_current := newVictim\<rparr>) w1;
          w3 = (if newHighest \<or> tm_need_client (tw_mgr w2 u)
                then upd_mgr u (\<lambda>m. m\<lparr>tm_need_client := False\<rparr>)
                       (SendThreatListToClients e u newHighest w2)
                else w2)
      in ProcessAIUpdates e u w3)"

definition GetCurrentVictim ::
  "'c threat_env \<Rightarrow> guid \<Rightarrow> 'c threat_world \<Rightarrow> guid option \<times> 'c threat_world" where
  "GetCurrentVictim e u w =
     (let w1 = (case tm_current (tw_mgr w u) of
                  None \<Rightarrow> UpdateVictim e u w
                | Some i \<Rightarrow> if ShouldBeOffline e (tref w i) then UpdateVictim e u w else w)
      in case tm_current (tw_mgr w1 u) of
           None \<Rightarrow> (None, w1)
         | Some i \<Rightarrow> (Some (tr_victim (tref w1 i)),
             w1\<lparr>tw_asserts := tw_asserts w1 \<and> IsAvailable (tref w1 i)\<rparr>))"

definition CanHaveThreatList :: "'c threat_env \<Rightarrow> guid \<Rightarrow> bool" where
  "CanHaveThreatList e who = (let c = te_unit e who in
     if \<not> tu_creature c then False
     else if tu_pet c \<or> tu_totem c \<or> tu_trigger c then False
     else if tu_minion_or_guardian c \<and> tu_summoner_is_player c = Some True then False
     else if tu_accessory c then False
     else True)"

definition Threat_Initialize :: "'c threat_env \<Rightarrow> guid \<Rightarrow> 'c threat_world \<Rightarrow> 'c threat_world" where
  "Threat_Initialize e u = upd_mgr u (\<lambda>m. m\<lparr>tm_can := CanHaveThreatList e u\<rparr>)"

definition ResetUpdateTimer :: "guid \<Rightarrow> 'c threat_world \<Rightarrow> 'c threat_world" where
  "ResetUpdateTimer u = upd_mgr u (\<lambda>m. m\<lparr>tm_timer := THREAT_UPDATE_INTERVAL\<rparr>)"

definition Threat_Update ::
  "'c threat_env \<Rightarrow> guid \<Rightarrow> u32 \<Rightarrow> 'c threat_world \<Rightarrow> 'c threat_world" where
  "Threat_Update e u tdiff w =
     (if \<not> tm_can (tw_mgr w u) then w
      else if tm_timer (tw_mgr w u) \<le> tdiff
      then
        let w1 = (if tm_need_clear (tw_mgr w u)
                  then upd_mgr u (\<lambda>m. m\<lparr>tm_need_clear := False\<rparr>) (SendClearAllThreatToClients e u w)
                  else w);
            w2 = (if \<not> IsThreatListEmpty w1 u True then UpdateVictim e u w1 else w1)
        in ResetUpdateTimer u w2
      else upd_mgr u (\<lambda>m. m\<lparr>tm_timer := tm_timer m - tdiff\<rparr>) w)"

end
