(* ===== verification/Threat_Ops.thy ===== *)
theory Threat_Ops
  imports Threat_Manager
begin

text \<open>
  The operations of the threat manager that add, scale, redirect and remove threat
  (\<^verbatim>\<open>src/server/game/Combat/ThreatManager.{h,cpp}\<close>), over the state of \<open>Threat_Manager\<close>.  A
  nested \<^verbatim>\<open>AddThreat\<close> always ignores modifiers and redirections, so it is the operation
  \<open>AddThreat_redirected\<close> without recursion.
\<close>

section \<open>Adding threat\<close>

definition school_index :: "u32 \<Rightarrow> nat option" where
  "school_index schoolMask =
     (if schoolMask = 1 then Some 0 else if schoolMask = 2 then Some 1 else if schoolMask = 4 then Some 2
      else if schoolMask = 8 then Some 3 else if schoolMask = 16 then Some 4 else if schoolMask = 32 then Some 5
      else if schoolMask = 64 then Some 6 else None)"

definition spell_modified ::
  "'c threat_env \<Rightarrow> guid \<Rightarrow> threat_spell option \<Rightarrow> float32 \<Rightarrow> float32" where
  "spell_modified e victim spell threat =
     (case spell of
        None \<Rightarrow> threat
      | Some s \<Rightarrow> te_spell_mod e victim s
          (case ts_pct_mod s of
             Some p \<Rightarrow> if p \<noteq> 1 then threat * p else threat
           | None \<Rightarrow> threat))"

definition CalculateModifiedThreat ::
  "'c threat_env \<Rightarrow> float32 \<Rightarrow> guid \<Rightarrow> threat_spell option \<Rightarrow> 'c threat_world
    \<Rightarrow> float32 \<times> 'c threat_world" where
  "CalculateModifiedThreat e threat victim spell w =
     (let threat1 = spell_modified e victim spell threat;
          m = tw_mgr w victim;
          schoolMask = (case spell of Some s \<Rightarrow> ts_school_mask s | None \<Rightarrow> 1)
      in case school_index schoolMask of
           Some k \<Rightarrow> (threat1 * tm_single m ! k, w)
         | None \<Rightarrow>
        (case om_get (tm_multi m) schoolMask of
           Some x \<Rightarrow> (threat1 * x, w)
         | None \<Rightarrow> let x = te_school_mult e victim schoolMask in
             (threat1 * x, upd_mgr victim (\<lambda>m. m\<lparr>tm_multi := om_put schoolMask x (tm_multi m)\<rparr>) w)))"

definition spell_adds_nothing :: "'c threat_env \<Rightarrow> guid \<Rightarrow> threat_spell option \<Rightarrow> bool" where
  "spell_adds_nothing e u spell =
     (case spell of
        None \<Rightarrow> False
      | Some s \<Rightarrow> ts_no_threat s \<or> (\<not> tu_engaged (te_unit e u) \<and> ts_no_initial_threat s))"

definition new_tref :: "guid \<Rightarrow> guid \<Rightarrow> threat_ref" where
  "new_tref owner victim = \<lparr>tr_owner = owner, tr_victim = victim,
     tr_online = ONLINE_STATE_OFFLINE, tr_base = 0, tr_temp = 0, tr_taunted = TAUNT_STATE_NONE\<rparr>"

definition register_tref :: "guid \<Rightarrow> guid \<Rightarrow> 'c threat_world \<Rightarrow> nat \<times> 'c threat_world" where
  "register_tref u target w = (let i = tw_next w;
       w1 = write_tref i (new_tref u target) (w\<lparr>tw_next := Suc i\<rparr>)
     in (i, PutThreatenedByMeRef target u i (PutThreatListRef u target i w1)))"

text \<open>The last part of \<^verbatim>\<open>AddThreat\<close>: combat, and then the reference.\<close>

definition apply_threat ::
  "'c threat_env \<Rightarrow> guid \<Rightarrow> guid \<Rightarrow> float32 \<Rightarrow> 'c threat_world \<Rightarrow> 'c threat_world" where
  "apply_threat e u target amount w =
     (case te_set_combat e u target (tw_combat w) of (c, inCombat) \<Rightarrow>
      let w1 = w\<lparr>tw_combat := c\<rparr> in
      if \<not> inCombat then w1
      else
      (case om_get (tm_my (tw_mgr w1 u)) target of
         Some i \<Rightarrow>
           let r = tref w1 i;
               w2 = (if Ref_IsSuppressed r \<and> \<not> ShouldBeSuppressed e r
                     then HeapNotifyIncreased r i
                            (write_tref i (r\<lparr>tr_online := ONLINE_STATE_ONLINE\<rparr>) w1)
                     else w1)
           in if IsOnline (tref w2 i) then Ref_AddThreat i amount w2 else w2
       | None \<Rightarrow>
           let (i, w2) = register_tref u target w1;
               w3 = UpdateOffline e i w2;
               w4 = (if IsOnline (tref w3 i) then Ref_AddThreat i amount w3 else w3)
           in if tm_current (tw_mgr w4 u) = None then UpdateVictim e u w4
              else ProcessAIUpdates e u w4))"

definition AddThreat_redirected ::
  "'c threat_env \<Rightarrow> guid \<Rightarrow> guid \<Rightarrow> float32 \<Rightarrow> threat_spell option \<Rightarrow> 'c threat_world \<Rightarrow> 'c threat_world"
where
  "AddThreat_redirected e u target amount spell w =
     (if spell_adds_nothing e u spell then w
      else if \<not> tm_can (tw_mgr w u) then w
      else apply_threat e u target amount w)"

definition CalculatePct :: "float32 \<Rightarrow> u32 \<Rightarrow> float32" where
  "CalculatePct base pct = base * of_nat (unat pct) / 100"

definition redirect_target :: "'c threat_env \<Rightarrow> guid \<Rightarrow> guid \<Rightarrow> 'c threat_world \<Rightarrow> guid option" where
  "redirect_target e u g w =
     (case om_get (tm_my (tw_mgr w u)) g of
        Some i \<Rightarrow> Some (tr_victim (tref w i))
      | None \<Rightarrow> if te_exists e u g then Some g else None)"

fun redirect_loop ::
  "'c threat_env \<Rightarrow> guid \<Rightarrow> threat_spell option \<Rightarrow> float32 \<Rightarrow> (guid \<times> u32) list
    \<Rightarrow> float32 \<Rightarrow> 'c threat_world \<Rightarrow> float32 \<times> 'c threat_world" where
  "redirect_loop e u spell origAmount [] amount w = (amount, w)"
| "redirect_loop e u spell origAmount ((g, pct) # rest) amount w =
     (case redirect_target e u g w of
        Some redirTarget \<Rightarrow>
          let amountRedirected = CalculatePct origAmount pct in
          redirect_loop e u spell origAmount rest (amount - amountRedirected)
            (AddThreat_redirected e u redirTarget amountRedirected spell w)
      | None \<Rightarrow> redirect_loop e u spell origAmount rest amount w)"

fun combat_redirects ::
  "'c threat_env \<Rightarrow> guid \<Rightarrow> (guid \<times> u32) list \<Rightarrow> 'c \<Rightarrow> 'c" where
  "combat_redirects e u [] c = c"
| "combat_redirects e u ((g, pct) # rest) c =
     combat_redirects e u rest
       (if \<not> te_in_combat e c u g \<and> te_exists e u g then fst (te_set_combat e u g c) else c)"

definition AddThreat ::
  "'c threat_env \<Rightarrow> guid \<Rightarrow> guid \<Rightarrow> float32 \<Rightarrow> threat_spell option \<Rightarrow> bool \<Rightarrow> bool
    \<Rightarrow> 'c threat_world \<Rightarrow> 'c threat_world" where
  "AddThreat e u target amount spell ignoreModifiers ignoreRedirects w =
     (if spell_adds_nothing e u spell then w
      else if \<not> tm_can (tw_mgr w u)
      then
        (if ignoreRedirects then w
         else case te_set_combat e u target (tw_combat w) of (c, inCombat) \<Rightarrow>
           if \<not> inCombat then w\<lparr>tw_combat := c\<rparr>
           else w\<lparr>tw_combat := combat_redirects e u (tm_redirect (tw_mgr w target)) c\<rparr>)
      else
        let (amount1, w1) = (if \<not> ignoreModifiers then CalculateModifiedThreat e amount target spell w
                             else (amount, w));
            (amount2, w2) = (if \<not> ignoreRedirects \<and> amount1 > 0
               then redirect_loop e u spell amount1 (tm_redirect (tw_mgr w1 target)) amount1 w1
               else (amount1, w1))
        in apply_threat e u target amount2 w2)"

section \<open>Changing threat\<close>

definition Threat_ScaleThreat :: "guid \<Rightarrow> guid \<Rightarrow> float32 \<Rightarrow> 'c threat_world \<Rightarrow> 'c threat_world" where
  "Threat_ScaleThreat u target factor w =
     (case om_get (tm_my (tw_mgr w u)) target of
        Some i \<Rightarrow> Ref_ScaleThreat i (max factor 0) w
      | None \<Rightarrow> w)"

definition ModifyThreatByPercent :: "guid \<Rightarrow> guid \<Rightarrow> i32 \<Rightarrow> 'c threat_world \<Rightarrow> 'c threat_world" where
  "ModifyThreatByPercent u target percent w =
     (if percent \<noteq> 0 then Threat_ScaleThreat u target (percent_factor percent) w else w)"

definition ResetThreat :: "guid \<Rightarrow> guid \<Rightarrow> 'c threat_world \<Rightarrow> 'c threat_world" where
  "ResetThreat u target = Threat_ScaleThreat u target 0"

definition MatchUnitThreatToHighestThreat ::
  "'c threat_env \<Rightarrow> guid \<Rightarrow> guid \<Rightarrow> 'c threat_world \<Rightarrow> 'c threat_world" where
  "MatchUnitThreatToHighestThreat e u target w =
     (case heap_ordered e w u of
        [] \<Rightarrow> w
      | first # rest \<Rightarrow>
          if \<not> IsAvailable (tref w first) then w
          else
            let highest =
              (case rest of
                 [] \<Rightarrow> first
               | a # _ \<Rightarrow> if IsTaunting (tref w first) \<and> IsAvailable (tref w a)
                             \<and> GetThreat (tref w a) > GetThreat (tref w first)
                          then a else first)
            in AddThreat e u target (GetThreat (tref w highest) - Threat_GetThreat w u target True)
                 None True True w)"

fun reset_loop :: "(guid \<times> nat) list \<Rightarrow> 'c threat_world \<Rightarrow> 'c threat_world" where
  "reset_loop [] w = w"
| "reset_loop ((g, i) # rest) w = reset_loop rest (Ref_ScaleThreat i 0 w)"

definition ResetAllThreat :: "guid \<Rightarrow> 'c threat_world \<Rightarrow> 'c threat_world" where
  "ResetAllThreat u w = reset_loop (tm_my (tw_mgr w u)) w"

fun evaluate_loop ::
  "'c threat_env \<Rightarrow> bool \<Rightarrow> (guid \<times> nat) list \<Rightarrow> 'c threat_world \<Rightarrow> 'c threat_world" where
  "evaluate_loop e canExpire [] w = w"
| "evaluate_loop e canExpire ((g, i) # rest) w =
     (let r = tref w i; shouldBeSuppressed = ShouldBeSuppressed e r in
      if IsOnline r \<and> shouldBeSuppressed
      then evaluate_loop e canExpire rest
             (HeapNotifyDecreased r i (write_tref i (r\<lparr>tr_online := ONLINE_STATE_SUPPRESSED\<rparr>) w))
      else if canExpire \<and> Ref_IsSuppressed r \<and> \<not> shouldBeSuppressed
      then evaluate_loop e canExpire rest
             (HeapNotifyIncreased r i (write_tref i (r\<lparr>tr_online := ONLINE_STATE_ONLINE\<rparr>) w))
      else evaluate_loop e canExpire rest w)"

definition EvaluateSuppressed ::
  "'c threat_env \<Rightarrow> guid \<Rightarrow> bool \<Rightarrow> 'c threat_world \<Rightarrow> 'c threat_world" where
  "EvaluateSuppressed e u canExpire w = evaluate_loop e canExpire (tm_by_me (tw_mgr w u)) w"

text \<open>The priority of each caster: later auras of a caster overwrite earlier ones.\<close>

fun taunt_states :: "guid list \<Rightarrow> u32 \<Rightarrow> (guid, u32) omap \<Rightarrow> (guid, u32) omap" where
  "taunt_states [] tauntPriority m = m"
| "taunt_states (caster # rest) tauntPriority m =
     taunt_states rest (tauntPriority + 1) (om_put caster (tauntPriority + 1) m)"

text \<open>The new state is computed at 64 bits and truncated to the enumeration's 32.\<close>

definition taunt_state_of :: "(guid, u32) omap \<Rightarrow> u32 \<Rightarrow> u32" where
  "taunt_state_of states priority =
     ucast (ucast TAUNT_STATE_TAUNT + of_nat (length states) - ucast priority :: u64)"

fun taunt_loop ::
  "'c threat_env \<Rightarrow> (guid, u32) omap \<Rightarrow> (guid \<times> nat) list \<Rightarrow> 'c threat_world \<Rightarrow> 'c threat_world" where
  "taunt_loop e states [] w = w"
| "taunt_loop e states ((g, i) # rest) w =
     taunt_loop e states rest
       (case om_get states g of
          Some priority \<Rightarrow> UpdateTauntState e i (taunt_state_of states priority) w
        | None \<Rightarrow> UpdateTauntState e i TAUNT_STATE_NONE w)"

definition TauntUpdate :: "'c threat_env \<Rightarrow> guid \<Rightarrow> 'c threat_world \<Rightarrow> 'c threat_world" where
  "TauntUpdate e u w =
     (let states = taunt_states (tu_taunts (te_unit e u)) 0 []
      in EvaluateSuppressed e u True (taunt_loop e states (tm_my (tw_mgr w u)) w))"

definition sum_i32 :: "i32 list \<Rightarrow> i32" where
  "sum_i32 xs = foldl (+) 0 xs"

fun temp_loop :: "i32 \<Rightarrow> bool \<Rightarrow> (guid \<times> nat) list \<Rightarrow> 'c threat_world \<Rightarrow> 'c threat_world" where
  "temp_loop mod_amount isIncrease [] w = w"
| "temp_loop mod_amount isIncrease ((g, i) # rest) w =
     (let r = tref w i; w1 = write_tref i (r\<lparr>tr_temp := mod_amount\<rparr>) w in
      temp_loop mod_amount isIncrease rest
        (if isIncrease then HeapNotifyIncreased r i w1 else HeapNotifyDecreased r i w1))"

definition UpdateMyTempModifiers ::
  "'c threat_env \<Rightarrow> guid \<Rightarrow> 'c threat_world \<Rightarrow> 'c threat_world" where
  "UpdateMyTempModifiers e u w =
     (let mod_amount = sum_i32 (tu_total_threat (te_unit e u)) in
      case tm_by_me (tw_mgr w u) of
        [] \<Rightarrow> w
      | (g, i) # rest \<Rightarrow>
          temp_loop mod_amount (sint (tr_temp (tref w i)) < sint mod_amount) ((g, i) # rest) w)"

definition UpdateMySpellSchoolModifiers ::
  "'c threat_env \<Rightarrow> guid \<Rightarrow> 'c threat_world \<Rightarrow> 'c threat_world" where
  "UpdateMySpellSchoolModifiers e u =
     upd_mgr u (\<lambda>m. m\<lparr>tm_single := map (\<lambda>k. te_school_mult e u (push_bit k 1)) [0..<MAX_SPELL_SCHOOL],
                      tm_multi := []\<rparr>)"

section \<open>Removing threat\<close>

definition ClearThreat_ref ::
  "'c threat_env \<Rightarrow> guid \<Rightarrow> nat \<Rightarrow> 'c threat_world \<Rightarrow> 'c threat_world" where
  "ClearThreat_ref e u i w =
     (let w1 = UnregisterAndFree i (SendRemoveToClients e u (tr_victim (tref w i)) w)
      in if tm_current (tw_mgr w1 u) = None then UpdateVictim e u w1 else w1)"

definition ClearThreat ::
  "'c threat_env \<Rightarrow> guid \<Rightarrow> guid \<Rightarrow> 'c threat_world \<Rightarrow> 'c threat_world" where
  "ClearThreat e u target w =
     (case om_get (tm_my (tw_mgr w u)) target of
        Some i \<Rightarrow> ClearThreat_ref e u i w
      | None \<Rightarrow> w)"

text \<open>\<open>do \<dots> while (!_myThreatListEntries.empty())\<close>, with a bound on the number of turns.\<close>

fun clear_all_loop :: "nat \<Rightarrow> guid \<Rightarrow> 'c threat_world \<Rightarrow> 'c threat_world" where
  "clear_all_loop 0 u w = w"
| "clear_all_loop (Suc n) u w =
     (case tm_my (tw_mgr w u) of
        [] \<Rightarrow> w
      | (g, i) # _ \<Rightarrow> clear_all_loop n u (UnregisterAndFree i w))"

definition ClearAllThreat :: "guid \<Rightarrow> 'c threat_world \<Rightarrow> 'c threat_world" where
  "ClearAllThreat u w =
     (if tm_my (tw_mgr w u) \<noteq> []
      then clear_all_loop (length (tm_my (tw_mgr w u))) u
             (upd_mgr u (\<lambda>m. m\<lparr>tm_need_clear := True\<rparr>) w)
      else w)"

definition FixateTarget :: "guid \<Rightarrow> guid option \<Rightarrow> 'c threat_world \<Rightarrow> 'c threat_world" where
  "FixateTarget u target w =
     upd_mgr u (\<lambda>m. m\<lparr>tm_fixate :=
       (case target of Some g \<Rightarrow> om_get (tm_my m) g | None \<Rightarrow> None)\<rparr>) w"

fun remove_me_loop ::
  "'c threat_env \<Rightarrow> guid \<Rightarrow> nat list \<Rightarrow> 'c threat_world \<Rightarrow> 'c threat_world" where
  "remove_me_loop e u [] w = w"
| "remove_me_loop e u (i # rest) w =
     remove_me_loop e u rest (ClearThreat e (tr_owner (tref w i)) u w)"

definition RemoveMeFromThreatLists ::
  "'c threat_env \<Rightarrow> guid \<Rightarrow> (guid \<Rightarrow> bool) option \<Rightarrow> 'c threat_world \<Rightarrow> 'c threat_world" where
  "RemoveMeFromThreatLists e u unitFilter w =
     remove_me_loop e u
       (map snd (filter (\<lambda>(g, i). case unitFilter of None \<Rightarrow> True | Some p \<Rightarrow> p (tr_owner (tref w i)))
          (tm_by_me (tw_mgr w u)))) w"

section \<open>Threat on others' lists\<close>

fun forward_loop ::
  "'c threat_env \<Rightarrow> guid \<Rightarrow> float32 \<Rightarrow> threat_spell option \<Rightarrow> bool \<Rightarrow> guid list
    \<Rightarrow> 'c threat_world \<Rightarrow> 'c threat_world" where
  "forward_loop e assistant amount spell ignoreModifiers [] w = w"
| "forward_loop e assistant amount spell ignoreModifiers (owner # rest) w =
     forward_loop e assistant amount spell ignoreModifiers rest
       (AddThreat e owner assistant amount spell ignoreModifiers False w)"

definition ForwardThreatForAssistingMe ::
  "'c threat_env \<Rightarrow> guid \<Rightarrow> guid \<Rightarrow> float32 \<Rightarrow> threat_spell option \<Rightarrow> bool
    \<Rightarrow> 'c threat_world \<Rightarrow> 'c threat_world" where
  "ForwardThreatForAssistingMe e u assistant baseAmount spell ignoreModifiers w =
     (if (case spell of Some s \<Rightarrow> ts_no_threat s \<or> ts_no_helpful_threat s | None \<Rightarrow> False) then w
      else if tm_by_me (tw_mgr w u) = [] then w
      else
        let owners = map (\<lambda>(g, i). tr_owner (tref w i)) (tm_by_me (tw_mgr w u));
            canBeThreatened = filter (\<lambda>o'. \<not> tu_controlled (te_unit e o')) owners;
            cannotBeThreatened = filter (\<lambda>o'. tu_controlled (te_unit e o')) owners;
            w1 = (if canBeThreatened \<noteq> []
                  then forward_loop e assistant (baseAmount / of_nat (length canBeThreatened)) spell
                         ignoreModifiers canBeThreatened w
                  else w)
        in forward_loop e assistant 0 spell True cannotBeThreatened w1)"

section \<open>Redirection\<close>

text \<open>The second loop of \<^verbatim>\<open>UpdateRedirectInfo\<close>; the flag tells that it has returned.\<close>

fun redirect_victims ::
  "(guid \<times> u32) list \<Rightarrow> (guid \<times> u32) list \<times> u32 \<times> bool \<Rightarrow> (guid \<times> u32) list \<times> u32 \<times> bool" where
  "redirect_victims [] s = s"
| "redirect_victims ((victim, pct) # rest) (info, totalPct, ok) =
     (let thisPct = min (100 - totalPct) pct in
      if thisPct > 0 then
        let totalPct' = totalPct + thisPct; info' = info @ [(victim, thisPct)];
            ok' = (ok \<and> totalPct' \<le> 100) in
        if totalPct' = 100 then (info', totalPct', ok')
        else redirect_victims rest (info', totalPct', ok')
      else redirect_victims rest (info, totalPct, ok))"

fun redirect_spells ::
  "(u32 \<times> (guid, u32) omap) list \<Rightarrow> (guid \<times> u32) list \<times> u32 \<times> bool \<Rightarrow> (guid \<times> u32) list \<times> u32 \<times> bool"
where
  "redirect_spells [] s = s"
| "redirect_spells ((spellId, victims) # rest) s =
     (let s' = redirect_victims victims s in
      if fst (snd s') = 100 then s' else redirect_spells rest s')"

definition UpdateRedirectInfo :: "guid \<Rightarrow> 'c threat_world \<Rightarrow> 'c threat_world" where
  "UpdateRedirectInfo u w =
     (let (info, totalPct, ok) = redirect_spells (tm_registry (tw_mgr w u)) ([], 0, True)
      in upd_mgr u (\<lambda>m. m\<lparr>tm_redirect := info\<rparr>) (w\<lparr>tw_asserts := tw_asserts w \<and> ok\<rparr>))"

definition RegisterRedirectThreat ::
  "guid \<Rightarrow> u32 \<Rightarrow> guid \<Rightarrow> u32 \<Rightarrow> 'c threat_world \<Rightarrow> 'c threat_world" where
  "RegisterRedirectThreat u spellId victim pct w =
     UpdateRedirectInfo u (upd_mgr u (\<lambda>m. m\<lparr>tm_registry :=
       om_put spellId (om_put victim pct
         (case om_get (tm_registry m) spellId of Some v \<Rightarrow> v | None \<Rightarrow> [])) (tm_registry m)\<rparr>) w)"

definition GetRegisteredRedirectThreatPercent :: "'c threat_world \<Rightarrow> guid \<Rightarrow> u32 \<Rightarrow> guid \<Rightarrow> u32" where
  "GetRegisteredRedirectThreatPercent w u spellId victim =
     (case om_get (tm_registry (tw_mgr w u)) spellId of
        None \<Rightarrow> 0
      | Some victims \<Rightarrow> (case om_get victims victim of None \<Rightarrow> 0 | Some pct \<Rightarrow> pct))"

definition UnregisterRedirectThreat :: "guid \<Rightarrow> u32 \<Rightarrow> 'c threat_world \<Rightarrow> 'c threat_world" where
  "UnregisterRedirectThreat u spellId w =
     (case om_get (tm_registry (tw_mgr w u)) spellId of
        None \<Rightarrow> w
      | Some _ \<Rightarrow> UpdateRedirectInfo u
          (upd_mgr u (\<lambda>m. m\<lparr>tm_registry := om_erase spellId (tm_registry m)\<rparr>) w))"

definition UnregisterRedirectThreat_victim ::
  "guid \<Rightarrow> u32 \<Rightarrow> guid \<Rightarrow> 'c threat_world \<Rightarrow> 'c threat_world" where
  "UnregisterRedirectThreat_victim u spellId victim w =
     (case om_get (tm_registry (tw_mgr w u)) spellId of
        None \<Rightarrow> w
      | Some victims \<Rightarrow>
          if om_get victims victim = None then w
          else UpdateRedirectInfo u (upd_mgr u (\<lambda>m. m\<lparr>tm_registry :=
                 om_put spellId (om_erase victim victims) (tm_registry m)\<rparr>) w))"

section \<open>Sequences of operations\<close>

datatype threat_op =
    OpInitialize guid
  | OpThreatUpdate guid u32
  | OpResetUpdateTimer guid
  | OpGetCurrentVictim guid
  | OpEvaluateSuppressed guid bool
  | OpAddThreat guid guid float32 "threat_spell option" bool bool
  | OpScaleThreat guid guid float32
  | OpModifyThreatByPercent guid guid i32
  | OpMatchThreat guid guid
  | OpTauntUpdate guid
  | OpResetAllThreat guid
  | OpClearThreat guid guid
  | OpClearAllThreat guid
  | OpFixateTarget guid "guid option"
  | OpForwardThreat guid guid float32 "threat_spell option" bool
  | OpRemoveMe guid "(guid \<Rightarrow> bool) option"
  | OpUpdateMyTempModifiers guid
  | OpUpdateMySpellSchoolModifiers guid
  | OpRegisterRedirect guid u32 guid u32
  | OpUnregisterRedirect guid u32
  | OpUnregisterRedirectVictim guid u32 guid
  | OpRefAddThreat guid guid float32
  | OpRefScaleThreat guid guid float32

definition on_ref ::
  "guid \<Rightarrow> guid \<Rightarrow> (nat \<Rightarrow> 'c threat_world \<Rightarrow> 'c threat_world) \<Rightarrow> 'c threat_world \<Rightarrow> 'c threat_world"
where
  "on_ref u g f w = (case om_get (tm_my (tw_mgr w u)) g of Some i \<Rightarrow> f i w | None \<Rightarrow> w)"

fun threat_step :: "'c threat_world \<Rightarrow> 'c threat_env \<times> threat_op \<Rightarrow> 'c threat_world" where
  "threat_step w (e, OpInitialize u) = Threat_Initialize e u w"
| "threat_step w (e, OpThreatUpdate u tdiff) = Threat_Update e u tdiff w"
| "threat_step w (e, OpResetUpdateTimer u) = ResetUpdateTimer u w"
| "threat_step w (e, OpGetCurrentVictim u) = snd (GetCurrentVictim e u w)"
| "threat_step w (e, OpEvaluateSuppressed u b) = EvaluateSuppressed e u b w"
| "threat_step w (e, OpAddThreat u t a s im ir) = AddThreat e u t a s im ir w"
| "threat_step w (e, OpScaleThreat u t f) = Threat_ScaleThreat u t f w"
| "threat_step w (e, OpModifyThreatByPercent u t p) = ModifyThreatByPercent u t p w"
| "threat_step w (e, OpMatchThreat u t) = MatchUnitThreatToHighestThreat e u t w"
| "threat_step w (e, OpTauntUpdate u) = TauntUpdate e u w"
| "threat_step w (e, OpResetAllThreat u) = ResetAllThreat u w"
| "threat_step w (e, OpClearThreat u t) = ClearThreat e u t w"
| "threat_step w (e, OpClearAllThreat u) = ClearAllThreat u w"
| "threat_step w (e, OpFixateTarget u t) = FixateTarget u t w"
| "threat_step w (e, OpForwardThreat u t a s im) = ForwardThreatForAssistingMe e u t a s im w"
| "threat_step w (e, OpRemoveMe u f) = RemoveMeFromThreatLists e u f w"
| "threat_step w (e, OpUpdateMyTempModifiers u) = UpdateMyTempModifiers e u w"
| "threat_step w (e, OpUpdateMySpellSchoolModifiers u) = UpdateMySpellSchoolModifiers e u w"
| "threat_step w (e, OpRegisterRedirect u s v p) = RegisterRedirectThreat u s v p w"
| "threat_step w (e, OpUnregisterRedirect u s) = UnregisterRedirectThreat u s w"
| "threat_step w (e, OpUnregisterRedirectVictim u s v) = UnregisterRedirectThreat_victim u s v w"
| "threat_step w (e, OpRefAddThreat u g a) = on_ref u g (\<lambda>i. Ref_AddThreat i a) w"
| "threat_step w (e, OpRefScaleThreat u g f) = on_ref u g (\<lambda>i. Ref_ScaleThreat i f) w"

end
