(* ===== verification/Threat_Select.thy ===== *)
theory Threat_Select
  imports Threat_Ops
begin

text \<open>
  The list of a threat manager and the choice of a victim: the order of the references, the
  invariant on the three places a reference is stored in (\<open>links_ok\<close>, \<open>threat_inv\<close>), changes that
  leave those places alone (\<open>same_links\<close>, and \<open>steady\<close> when the victims stay in place), the laws of the
  heap (\<open>heap_members\<close>, \<open>heap_sorts\<close>), and what \<open>select_victim\<close> chooses (\<open>chosen\<close>).
\<close>

section \<open>The order of the list\<close>

lemma online_le_iff: "a \<le> b \<longleftrightarrow> online_value a \<le> online_value b"
  and online_less_iff: "a < b \<longleftrightarrow> online_value a < online_value b"
  by (simp_all add: less_eq_online_state_def less_online_state_def)

lemma online_value_inj [simp]: "online_value a = online_value b \<longleftrightarrow> a = b"
  by (cases a; cases b) simp_all

lemma GetThreat_nonneg [simp]: "0 \<le> GetThreat r"
  by (simp add: GetThreat_def)

lemma CompareLT_iff:
  "CompareReferencesLT a b x \<longleftrightarrow> tr_online a < tr_online b
     \<or> (tr_online a = tr_online b \<and> (tr_taunted a < tr_taunted b
        \<or> (tr_taunted a = tr_taunted b \<and> GetThreat a * x < GetThreat b)))"
  by (auto simp: CompareReferencesLT_def)

interpretation threat_order: strict_weak_order "\<lambda>a b. CompareReferencesLT a b 1"
  by unfold_locales (auto simp: CompareLT_iff not_less)

interpretation threat_descending: strict_weak_order
  "\<lambda>a b :: nat \<times> threat_ref. CompareReferencesLT (snd b) (snd a) 1"
  by unfold_locales
    (auto intro: threat_order.lt_irrefl dest: threat_order.lt_trans threat_order.lt_negtrans
      simp: threat_order.lt_irrefl)

lemma CompareLT_mono:
  "CompareReferencesLT a b x \<Longrightarrow> \<not> CompareReferencesLT c b 1 \<Longrightarrow> CompareReferencesLT a c x"
  by (auto simp: CompareLT_iff not_less)

lemma CompareLT_weight:
  assumes "CompareReferencesLT a b x" "1 \<le> x"
  shows "CompareReferencesLT a b 1"
proof -
  have "GetThreat a \<le> GetThreat a * x"
    using assms(2) GetThreat_nonneg [of a] by (metis mult.right_neutral mult_left_mono)
  then show ?thesis using assms(1) by (auto simp: CompareLT_iff)
qed

lemma weights: "1 \<le> weight_110" "1 \<le> weight_130" "weight_110 \<le> weight_130"
  by (simp_all add: weight_110_def weight_130_def)

lemma CompareLT_available:
  "CompareReferencesLT a b x \<Longrightarrow> IsAvailable a \<Longrightarrow> IsAvailable b"
  by (auto simp: CompareLT_iff IsAvailable_def)

lemma available_iff: "IsAvailable r \<longleftrightarrow> \<not> IsOffline r"
  by (auto simp: IsAvailable_def IsOffline_def)

lemma online_available: "IsOnline r \<Longrightarrow> IsAvailable r" "Ref_IsSuppressed r \<Longrightarrow> IsAvailable r"
  by (auto simp: IsOnline_def IsAvailable_def Ref_IsSuppressed_def online_le_iff online_less_iff)

lemma states_available [simp]:
  "IsAvailable (r\<lparr>tr_online := ONLINE_STATE_SUPPRESSED\<rparr>)"
  "IsAvailable (r\<lparr>tr_online := ONLINE_STATE_ONLINE\<rparr>)"
  "\<not> IsAvailable (r\<lparr>tr_online := ONLINE_STATE_OFFLINE\<rparr>)"
  by (simp_all add: IsAvailable_def online_less_iff)


section \<open>Links: the three places of a reference\<close>

definition ends :: "'c threat_world \<Rightarrow> nat \<Rightarrow> (guid \<times> guid) option" where
  "ends w i = map_option (\<lambda>r. (tr_owner r, tr_victim r)) (tw_refs w i)"

definition links_ok :: "'c threat_world \<Rightarrow> bool" where
  "links_ok w \<longleftrightarrow>
     (\<forall>u. om_ok (tm_my (tw_mgr w u)) \<and> om_ok (tm_by_me (tw_mgr w u)))
     \<and> (\<forall>u g i. om_get (tm_my (tw_mgr w u)) g = Some i \<longleftrightarrow> ends w i = Some (u, g))
     \<and> (\<forall>u g i. om_get (tm_by_me (tw_mgr w u)) g = Some i \<longleftrightarrow> ends w i = Some (g, u))
     \<and> (\<forall>u. distinct (tm_sorted (tw_mgr w u)))
     \<and> (\<forall>u i. i \<in> set (tm_sorted (tw_mgr w u)) \<longleftrightarrow> (\<exists>g. ends w i = Some (u, g)))
     \<and> (\<forall>i. ends w i \<noteq> None \<longrightarrow> i < tw_next w)"

definition available :: "'c threat_world \<Rightarrow> nat \<Rightarrow> bool" where
  "available w i \<longleftrightarrow> (\<exists>r. tw_refs w i = Some r \<and> IsAvailable r)"

definition owned :: "'c threat_world \<Rightarrow> guid \<Rightarrow> nat \<Rightarrow> bool" where
  "owned w u i \<longleftrightarrow> (\<exists>g. ends w i = Some (u, g))"

definition fixes_ok :: "'c threat_world \<Rightarrow> bool" where
  "fixes_ok w \<longleftrightarrow> (\<forall>u i. tm_fixate (tw_mgr w u) = Some i \<longrightarrow> owned w u i)"

definition victim_ok :: "'c threat_world \<Rightarrow> guid \<Rightarrow> bool" where
  "victim_ok w u \<longleftrightarrow> (\<forall>i. tm_current (tw_mgr w u) = Some i \<longrightarrow> owned w u i \<and> available w i)"

definition threat_inv :: "'c threat_world \<Rightarrow> bool" where
  "threat_inv w \<longleftrightarrow> links_ok w \<and> fixes_ok w \<and> (\<forall>u. victim_ok w u) \<and> tw_asserts w"

text \<open>Changes that leave all links alone, with the victims in place.\<close>

definition same_mgr :: "threat_mgr \<Rightarrow> threat_mgr \<Rightarrow> bool" where
  "same_mgr m m' \<longleftrightarrow> tm_my m' = tm_my m \<and> tm_by_me m' = tm_by_me m \<and> tm_sorted m' = tm_sorted m
     \<and> tm_current m' = tm_current m \<and> tm_fixate m' = tm_fixate m"

definition same_links :: "'c threat_world \<Rightarrow> 'c threat_world \<Rightarrow> bool" where
  "same_links w w' \<longleftrightarrow> ends w' = ends w \<and> tw_next w' = tw_next w
     \<and> (\<forall>u. same_mgr (tw_mgr w u) (tw_mgr w' u)) \<and> tw_asserts w' = tw_asserts w"

definition steady :: "'c threat_world \<Rightarrow> 'c threat_world \<Rightarrow> bool" where
  "steady w w' \<longleftrightarrow> same_links w w' \<and> (\<forall>i. available w i \<longrightarrow> available w' i)"

lemma same_mgr_refl [simp]: "same_mgr m m"
  by (simp add: same_mgr_def)

lemma same_links_refl [simp, intro]: "same_links w w" and steady_refl [simp, intro]: "steady w w"
  by (simp_all add: same_links_def steady_def)

lemma same_links_trans [trans]: "same_links a b \<Longrightarrow> same_links b c \<Longrightarrow> same_links a c"
  by (auto simp: same_links_def same_mgr_def)

lemma steady_trans [trans]: "steady a b \<Longrightarrow> steady b c \<Longrightarrow> steady a c"
  by (auto simp: steady_def intro: same_links_trans)

lemma steady_quiet: "steady w w' \<Longrightarrow> same_links w w'"
  by (simp add: steady_def)

lemma same_links_links: "same_links w w' \<Longrightarrow> links_ok w' = links_ok w"
  by (simp add: same_links_def links_ok_def same_mgr_def)

lemma links_ok_cong:
  "ends w' = ends w \<Longrightarrow> tw_next w' = tw_next w \<Longrightarrow> (\<And>u. tm_my (tw_mgr w' u) = tm_my (tw_mgr w u))
    \<Longrightarrow> (\<And>u. tm_by_me (tw_mgr w' u) = tm_by_me (tw_mgr w u))
    \<Longrightarrow> (\<And>u. tm_sorted (tw_mgr w' u) = tm_sorted (tw_mgr w u)) \<Longrightarrow> links_ok w' = links_ok w"
  by (simp add: links_ok_def)

lemma fixes_ok_cong:
  "ends w' = ends w \<Longrightarrow> (\<And>u. tm_fixate (tw_mgr w' u) = tm_fixate (tw_mgr w u)) \<Longrightarrow> fixes_ok w' = fixes_ok w"
  by (simp add: fixes_ok_def owned_def)

lemma same_links_owned: "same_links w w' \<Longrightarrow> owned w' = owned w"
  by (simp add: same_links_def owned_def fun_eq_iff)

lemma same_links_fixes: "same_links w w' \<Longrightarrow> fixes_ok w' = fixes_ok w"
  using same_links_owned [of w w'] by (simp add: fixes_ok_def same_links_def same_mgr_def)

lemma steady_victim: "steady w w' \<Longrightarrow> victim_ok w u \<Longrightarrow> victim_ok w' u"
  using same_links_owned [of w w'] by (auto simp: victim_ok_def steady_def same_links_def same_mgr_def)

lemma steady_inv: "steady w w' \<Longrightarrow> threat_inv w \<Longrightarrow> threat_inv w'"
  using steady_victim [of w w'] same_links_links [of w w'] same_links_fixes [of w w']
  by (auto simp: threat_inv_def steady_def same_links_def)

lemma live_ends: "ends w i \<noteq> None \<longleftrightarrow> (\<exists>r. tw_refs w i = Some r)"
  by (auto simp: ends_def)

lemma ends_live: "ends w i = Some x \<Longrightarrow> \<exists>r. tw_refs w i = Some r"
  by (auto simp: ends_def)

lemma tref_eq: "tw_refs w i = Some r \<Longrightarrow> tref w i = r"
  by (simp add: tref_def)

lemma same_links_live: "same_links w w' \<Longrightarrow> (ends w' i = None) = (ends w i = None)"
  by (simp add: same_links_def)

subsection \<open>The steps that are steady\<close>

lemma upd_mgr_fields [simp]:
  "tw_refs (upd_mgr u f w) = tw_refs w" "tw_next (upd_mgr u f w) = tw_next w"
  "tw_mgr (upd_mgr u f w) v = (if v = u then f (tw_mgr w u) else tw_mgr w v)"
  "tw_combat (upd_mgr u f w) = tw_combat w" "tw_log (upd_mgr u f w) = tw_log w"
  "tw_asserts (upd_mgr u f w) = tw_asserts w" "tw_ai_asserts (upd_mgr u f w) = tw_ai_asserts w"
  "tw_heap_ok (upd_mgr u f w) = tw_heap_ok w" "tref (upd_mgr u f w) = tref w"
  "ends (upd_mgr u f w) = ends w"
  by (auto simp: upd_mgr_def tref_def ends_def fun_eq_iff)

lemma tlog_fields [simp]:
  "tw_refs (tlog c w) = tw_refs w" "tw_next (tlog c w) = tw_next w" "tw_mgr (tlog c w) = tw_mgr w"
  "tw_combat (tlog c w) = tw_combat w" "tw_asserts (tlog c w) = tw_asserts w"
  "tw_heap_ok (tlog c w) = tw_heap_ok w" "tref (tlog c w) = tref w" "ends (tlog c w) = ends w"
  by (auto simp: tlog_def tref_def ends_def fun_eq_iff)

lemma notify_heap_fields [simp]:
  "tw_refs (HeapNotifyIncreased r i w) = tw_refs w" "tw_refs (HeapNotifyDecreased r i w) = tw_refs w"
  "tw_next (HeapNotifyIncreased r i w) = tw_next w" "tw_next (HeapNotifyDecreased r i w) = tw_next w"
  "tw_mgr (HeapNotifyIncreased r i w) = tw_mgr w" "tw_mgr (HeapNotifyDecreased r i w) = tw_mgr w"
  "tw_combat (HeapNotifyIncreased r i w) = tw_combat w" "tw_combat (HeapNotifyDecreased r i w) = tw_combat w"
  "tw_asserts (HeapNotifyIncreased r i w) = tw_asserts w" "tw_asserts (HeapNotifyDecreased r i w) = tw_asserts w"
  "tref (HeapNotifyIncreased r i w) = tref w" "tref (HeapNotifyDecreased r i w) = tref w"
  "ends (HeapNotifyIncreased r i w) = ends w" "ends (HeapNotifyDecreased r i w) = ends w"
  by (auto simp: HeapNotifyIncreased_def HeapNotifyDecreased_def Let_def tref_def ends_def fun_eq_iff)

lemma write_tref_fields [simp]:
  "tw_refs (write_tref i r w) = (tw_refs w)(i \<mapsto> r)" "tw_next (write_tref i r w) = tw_next w"
  "tw_mgr (write_tref i r w) = tw_mgr w" "tw_combat (write_tref i r w) = tw_combat w"
  "tw_asserts (write_tref i r w) = tw_asserts w" "tw_heap_ok (write_tref i r w) = tw_heap_ok w"
  "tref (write_tref i r w) j = (if j = i then r else tref w j)"
  by (auto simp: write_tref_def tref_def)

lemma ends_write:
  "tw_refs w i = Some r \<Longrightarrow> tr_owner r' = tr_owner r \<Longrightarrow> tr_victim r' = tr_victim r
    \<Longrightarrow> ends (write_tref i r' w) = ends w"
  by (auto simp: ends_def fun_eq_iff)

lemma steady_upd_mgr:
  "(\<And>m. same_mgr m (f m)) \<Longrightarrow> steady w (upd_mgr u f w)"
  by (simp add: steady_def same_links_def available_def)

lemma steady_same:
  "tw_refs w' = tw_refs w \<Longrightarrow> tw_next w' = tw_next w \<Longrightarrow> tw_mgr w' = tw_mgr w
    \<Longrightarrow> tw_asserts w' = tw_asserts w \<Longrightarrow> steady w w'"
  by (simp add: steady_def same_links_def available_def ends_def [abs_def])

lemma steady_small [simp]:
  "steady w (tlog c w)" "steady w (HeapNotifyIncreased r i w)" "steady w (HeapNotifyDecreased r i w)"
  "steady w (need_client_update u w)" "steady w (RegisterForAIUpdate u g w)"
  "steady w (SendClearAllThreatToClients e u w)" "steady w (SendRemoveToClients e u v w)"
  "steady w (SendThreatListToClients e u b w)" "steady w (w\<lparr>tw_combat := c'\<rparr>)"
  "steady w (ResetUpdateTimer u w)" "steady w (Threat_Initialize e u w)"
  "steady w (UpdateMySpellSchoolModifiers e u w)" "steady w (w\<lparr>tw_ai_asserts := b\<rparr>)"
  by (auto intro!: steady_same steady_upd_mgr simp: need_client_update_def RegisterForAIUpdate_def
      SendClearAllThreatToClients_def SendRemoveToClients_def SendThreatListToClients_def
      ResetUpdateTimer_def Threat_Initialize_def UpdateMySpellSchoolModifiers_def same_mgr_def)

text \<open>A change of one cell that keeps its ends and, for \<open>steady\<close>, its availability.\<close>

lemma same_links_write:
  "tw_refs w i = Some r \<Longrightarrow> tr_owner r' = tr_owner r \<Longrightarrow> tr_victim r' = tr_victim r
    \<Longrightarrow> same_links w (write_tref i r' w)"
  by (simp add: same_links_def ends_write)

lemma steady_write:
  "tw_refs w i = Some r \<Longrightarrow> tr_owner r' = tr_owner r \<Longrightarrow> tr_victim r' = tr_victim r
    \<Longrightarrow> (IsAvailable r \<Longrightarrow> IsAvailable r') \<Longrightarrow> steady w (write_tref i r' w)"
  by (auto simp: steady_def same_links_write available_def)

lemma IsAvailable_other [simp]:
  "IsAvailable (r\<lparr>tr_base := x\<rparr>) = IsAvailable r" "IsAvailable (r\<lparr>tr_temp := y\<rparr>) = IsAvailable r"
  "IsAvailable (r\<lparr>tr_taunted := z\<rparr>) = IsAvailable r"
  by (simp_all add: IsAvailable_def)


text \<open>Such steps can be appended to a steady run.\<close>

lemma steady_then:
  "steady w v \<Longrightarrow> steady w (tlog c v)"
  "steady w v \<Longrightarrow> steady w (HeapNotifyIncreased r i v)"
  "steady w v \<Longrightarrow> steady w (HeapNotifyDecreased r i v)"
  "steady w v \<Longrightarrow> steady w (need_client_update u v)"
  "steady w v \<Longrightarrow> steady w (RegisterForAIUpdate u g v)"
  "steady w v \<Longrightarrow> steady w (SendRemoveToClients e u g v)"
  "steady w v \<Longrightarrow> steady w (SendThreatListToClients e u b v)"
  by (blast intro: steady_trans steady_small)+

lemma same_links_then:
  "same_links w v \<Longrightarrow> same_links w (HeapNotifyIncreased r i v)"
  "same_links w v \<Longrightarrow> same_links w (HeapNotifyDecreased r i v)"
  "same_links w v \<Longrightarrow> same_links w (RegisterForAIUpdate u g v)"
  "same_links w v \<Longrightarrow> same_links w (SendRemoveToClients e u g v)"
  by (blast intro: same_links_trans steady_quiet steady_small)+

lemma steady_AddThreat: "tw_refs w i = Some r \<Longrightarrow> steady w (Ref_AddThreat i a w)"
  unfolding Ref_AddThreat_def Let_def
  by (auto simp: tref_eq intro!: steady_then steady_write)

lemma steady_ScaleThreat: "tw_refs w i = Some r \<Longrightarrow> steady w (Ref_ScaleThreat i f w)"
  unfolding Ref_ScaleThreat_def Let_def
  by (auto simp: tref_eq intro!: steady_then steady_write)

lemma steady_Taunt: "tw_refs w i = Some r \<Longrightarrow> steady w (UpdateTauntState e i s w)"
  unfolding UpdateTauntState_def Let_def
  by (auto simp: tref_eq intro!: steady_then steady_write)

definition evaluated :: "'c threat_env \<Rightarrow> threat_ref \<Rightarrow> threat_ref" where
  "evaluated e r = (if ShouldBeOffline e r = IsOffline r then r
     else if ShouldBeOffline e r then r\<lparr>tr_online := ONLINE_STATE_OFFLINE\<rparr>
     else r\<lparr>tr_online := (if ShouldBeSuppressed e r then ONLINE_STATE_SUPPRESSED
                            else ONLINE_STATE_ONLINE)\<rparr>)"

lemma evaluated_fields [simp]:
  "tr_owner (evaluated e r) = tr_owner r" "tr_victim (evaluated e r) = tr_victim r"
  "tr_base (evaluated e r) = tr_base r" "tr_temp (evaluated e r) = tr_temp r"
  "tr_taunted (evaluated e r) = tr_taunted r" "GetThreat (evaluated e r) = GetThreat r"
  by (simp_all add: evaluated_def GetThreat_def)

lemma IsOffline_states [simp]:
  "IsOffline (r\<lparr>tr_online := ONLINE_STATE_OFFLINE\<rparr>)"
  "\<not> IsOffline (r\<lparr>tr_online := ONLINE_STATE_SUPPRESSED\<rparr>)"
  "\<not> IsOffline (r\<lparr>tr_online := ONLINE_STATE_ONLINE\<rparr>)"
  by (simp_all add: IsOffline_def online_le_iff)

lemma IsOffline_evaluated [simp]: "IsOffline (evaluated e r) = ShouldBeOffline e r"
  by (simp add: evaluated_def)

lemma send_register_fields [simp]:
  "tw_refs (SendRemoveToClients e u g w) = tw_refs w" "tw_refs (RegisterForAIUpdate u g w) = tw_refs w"
  "tw_combat (SendRemoveToClients e u g w) = tw_combat w"
  "tw_combat (RegisterForAIUpdate u g w) = tw_combat w"
  "tw_heap_ok (SendRemoveToClients e u g w) = tw_heap_ok w"
  "tw_heap_ok (RegisterForAIUpdate u g w) = tw_heap_ok w"
  "tw_heap_ok (need_client_update u w) = tw_heap_ok w"
  "tw_refs (need_client_update u w) = tw_refs w"
  "tw_combat (need_client_update u w) = tw_combat w"
  by (simp_all add: SendRemoveToClients_def RegisterForAIUpdate_def need_client_update_def)

lemma UpdateOffline_refs:
  assumes r: "tw_refs w i = Some r"
  shows "tw_refs (UpdateOffline e i w) = (tw_refs w)(i \<mapsto> evaluated e r)"
    and "tw_combat (UpdateOffline e i w) = tw_combat w"
    and "same_links w (UpdateOffline e i w)"
proof -
  show "tw_refs (UpdateOffline e i w) = (tw_refs w)(i \<mapsto> evaluated e r)"
    using r by (auto simp: UpdateOffline_def Let_def tref_eq [OF r] evaluated_def)
  show "tw_combat (UpdateOffline e i w) = tw_combat w"
    by (simp add: UpdateOffline_def Let_def)
  show "same_links w (UpdateOffline e i w)"
    using r by (auto simp: UpdateOffline_def Let_def tref_eq [OF r] intro!: same_links_then same_links_write)
qed

text \<open>Re-evaluating references by a list of entries, each at most once.\<close>

lemma update_offline_loop_spec:
  assumes "\<forall>(g, i) \<in> set es. tw_refs w i \<noteq> None" "distinct (map snd es)"
  shows "same_links w (update_offline_loop e es w)
    \<and> tw_combat (update_offline_loop e es w) = tw_combat w
    \<and> (\<forall>i. tw_refs (update_offline_loop e es w) i =
           (if i \<in> snd ` set es then map_option (evaluated e) (tw_refs w i) else tw_refs w i))"
  using assms
proof (induction es arbitrary: w)
  case (Cons x rest)
  obtain g i where x: "x = (g, i)" by fastforce
  with Cons.prems obtain r where r: "tw_refs w i = Some r" by auto
  note u = UpdateOffline_refs [OF r, of e]
  have "\<forall>(h, j) \<in> set rest. tw_refs (UpdateOffline e i w) j \<noteq> None"
    using Cons.prems by (auto simp: u(1))
  then have IH: "same_links (UpdateOffline e i w) (update_offline_loop e rest (UpdateOffline e i w))"
      "tw_combat (update_offline_loop e rest (UpdateOffline e i w)) = tw_combat (UpdateOffline e i w)"
      "tw_refs (update_offline_loop e rest (UpdateOffline e i w)) j =
           (if j \<in> snd ` set rest then map_option (evaluated e) (tw_refs (UpdateOffline e i w) j)
            else tw_refs (UpdateOffline e i w) j)" for j
    using Cons.IH [of "UpdateOffline e i w"] Cons.prems(2) by auto
  have i: "i \<notin> snd ` set rest" using Cons.prems(2) x by auto
  show ?case using IH u same_links_trans [OF u(3) IH(1)] r i by (auto simp: x)
qed simp

text \<open>What the invariant says of one manager.\<close>

lemma links_my: "links_ok w \<Longrightarrow> om_get (tm_my (tw_mgr w u)) g = Some i \<longleftrightarrow> ends w i = Some (u, g)"
  and links_by_me: "links_ok w \<Longrightarrow> om_get (tm_by_me (tw_mgr w u)) g = Some i \<longleftrightarrow> ends w i = Some (g, u)"
  and links_sorted: "links_ok w \<Longrightarrow> i \<in> set (tm_sorted (tw_mgr w u)) \<longleftrightarrow> owned w u i"
  and links_om: "links_ok w \<Longrightarrow> om_ok (tm_my (tw_mgr w u))" "links_ok w \<Longrightarrow> om_ok (tm_by_me (tw_mgr w u))"
  and links_distinct: "links_ok w \<Longrightarrow> distinct (tm_sorted (tw_mgr w u))"
  and links_next: "links_ok w \<Longrightarrow> ends w i \<noteq> None \<Longrightarrow> i < tw_next w"
  by (simp_all add: links_ok_def owned_def)

lemma links_my_in: "links_ok w \<Longrightarrow> (g, i) \<in> set (tm_my (tw_mgr w u)) \<longleftrightarrow> ends w i = Some (u, g)"
  by (metis links_my links_om(1) om_ok_get_iff)

lemma links_by_me_in: "links_ok w \<Longrightarrow> (g, i) \<in> set (tm_by_me (tw_mgr w u)) \<longleftrightarrow> ends w i = Some (g, u)"
  by (metis links_by_me links_om(2) om_ok_get_iff)

lemma distinct_addresses:
  assumes "om_ok m" "\<And>g h i. (g, i) \<in> set m \<Longrightarrow> (h, i) \<in> set m \<Longrightarrow> g = h"
  shows "distinct (map snd m)"
proof -
  have "distinct m" using om_ok_distinct [OF assms(1)] by (simp add: distinct_map)
  moreover have "inj_on snd (set m)" using assms(2) by (auto simp: inj_on_def)
  ultimately show ?thesis by (simp add: distinct_map)
qed

lemma links_my_distinct: "links_ok w \<Longrightarrow> distinct (map snd (tm_my (tw_mgr w u)))"
  by (rule distinct_addresses [OF links_om(1)]) (auto simp: links_my_in)

lemma links_by_me_distinct: "links_ok w \<Longrightarrow> distinct (map snd (tm_by_me (tw_mgr w u)))"
  by (rule distinct_addresses [OF links_om(2)]) (auto simp: links_by_me_in)

lemma links_my_snd: "links_ok w \<Longrightarrow> i \<in> snd ` set (tm_my (tw_mgr w u)) \<longleftrightarrow> owned w u i"
proof -
  assume ok: "links_ok w"
  have "i \<in> snd ` set (tm_my (tw_mgr w u)) \<longleftrightarrow> (\<exists>g. (g, i) \<in> set (tm_my (tw_mgr w u)))" by force
  then show ?thesis by (simp add: links_my_in [OF ok] owned_def)
qed

lemma owned_tref: "owned w u i \<Longrightarrow> \<exists>r. tw_refs w i = Some r \<and> tref w i = r \<and> tr_owner r = u"
  by (auto simp: owned_def ends_def tref_def)

lemma available_tref: "owned w u i \<Longrightarrow> available w i = IsAvailable (tref w i)"
  by (auto simp: owned_def ends_def tref_def available_def)

section \<open>Choosing a victim\<close>

definition heap_members :: "'c threat_env \<Rightarrow> bool" where
  "heap_members e \<longleftrightarrow> (\<forall>b h. distinct (map fst h) \<longrightarrow>
     (h \<noteq> [] \<longrightarrow> te_top e b h \<in> fst ` set h) \<and> mset (te_ordered e b h) = mset (map fst h))"

definition heap_sorts :: "'c threat_env \<Rightarrow> bool" where
  "heap_sorts e \<longleftrightarrow> (\<forall>h. distinct (map fst h) \<longrightarrow>
     (\<forall>x \<in> set h. \<not> CompareReferencesLT (the (map_of h (te_top e True h))) (snd x) 1)
     \<and> in_order (\<lambda>i j. CompareReferencesLT (the (map_of h j)) (the (map_of h i)) 1)
         (te_ordered e True h))"

lemma heap_view_fst [simp]: "map fst (heap_view w u) = tm_sorted (tw_mgr w u)"
  by (simp add: heap_view_def comp_def)

lemma heap_view_map_of: "i \<in> set (tm_sorted (tw_mgr w u)) \<Longrightarrow> map_of (heap_view w u) i = Some (tref w i)"
  by (simp add: heap_view_def map_of_map_restrict)

lemma heap_top_in:
  assumes "heap_members e" "links_ok w" "tm_sorted (tw_mgr w u) \<noteq> []"
  shows "owned w u (heap_top e w u)"
proof -
  have "heap_view w u \<noteq> []" using assms(3) by (simp add: heap_view_def)
  then have "heap_top e w u \<in> fst ` set (heap_view w u)"
    using assms(1) links_distinct [OF assms(2), of u] unfolding heap_members_def heap_top_def
    by (metis heap_view_fst)
  also have "fst ` set (heap_view w u) = set (tm_sorted (tw_mgr w u))"
    by (metis heap_view_fst list.set_map)
  finally show ?thesis using links_sorted [OF assms(2)] by simp
qed

lemma heap_ordered_set:
  assumes "heap_members e" "links_ok w"
  shows "set (heap_ordered e w u) = set (tm_sorted (tw_mgr w u))"
    and "distinct (heap_ordered e w u)"
proof -
  have m: "mset (heap_ordered e w u) = mset (tm_sorted (tw_mgr w u))"
    using assms(1) links_distinct [OF assms(2), of u] unfolding heap_members_def heap_ordered_def
    by (metis heap_view_fst)
  show "set (heap_ordered e w u) = set (tm_sorted (tw_mgr w u))" using m by (rule mset_eq_setD)
  show "distinct (heap_ordered e w u)"
    using m links_distinct [OF assms(2)] mset_eq_imp_distinct_iff by blast
qed

lemma heap_top_greatest:
  assumes "heap_members e" "heap_sorts e" "links_ok w" "tw_heap_ok w u"
    and i: "i \<in> set (tm_sorted (tw_mgr w u))"
  shows "\<not> CompareReferencesLT (tref w (heap_top e w u)) (tref w i) 1"
proof -
  have ne: "tm_sorted (tw_mgr w u) \<noteq> []" using i by auto
  have t: "heap_top e w u \<in> set (tm_sorted (tw_mgr w u))"
    using heap_top_in [OF assms(1,3) ne] links_sorted [OF assms(3)] by simp
  have "(i, tref w i) \<in> set (heap_view w u)" using i by (simp add: heap_view_def)
  then have "\<not> CompareReferencesLT (the (map_of (heap_view w u) (heap_top e w u))) (tref w i) 1"
    using assms(2,4) links_distinct [OF assms(3), of u] unfolding heap_sorts_def heap_top_def
    by (metis heap_view_fst snd_conv)
  then show ?thesis by (simp add: heap_view_map_of [OF t])
qed

lemma heap_ordered_descending:
  assumes "heap_members e" "heap_sorts e" "links_ok w" "tw_heap_ok w u"
  shows "sorted_wrt (\<lambda>i j. \<not> CompareReferencesLT (tref w i) (tref w j) 1) (heap_ordered e w u)"
proof -
  have "sorted_wrt (\<lambda>i j. \<not> CompareReferencesLT (the (map_of (heap_view w u) i))
      (the (map_of (heap_view w u) j)) 1) (heap_ordered e w u)"
    using assms(2,4) links_distinct [OF assms(3)]
    by (simp add: heap_sorts_def heap_ordered_def in_order_def)
  then show ?thesis
    by (rule sorted_wrt_mono_rel [rotated])
      (simp add: heap_view_map_of heap_ordered_set [OF assms(1,3)])
qed


lemma reselect_scan_ok:
  "old \<in> set xs \<Longrightarrow> IsAvailable (tref w old) \<Longrightarrow>
    \<exists>j. reselect_scan e w u old xs = (Some j, True) \<and> j \<in> set xs \<and> IsAvailable (tref w j)"
proof (induction xs)
  case (Cons n rest)
  show ?case
  proof (cases "n = old \<or> \<not> CompareReferencesLT (tref w old) (tref w n) weight_110")
    case True
    with Cons.prems show ?thesis by auto
  next
    case False
    then have "IsAvailable (tref w n)" using CompareLT_available Cons.prems(2) by blast
    with False Cons show ?thesis by auto
  qed
qed simp

text \<open>The victims that may replace \<open>old\<close>: 110\% of its threat in melee range, 130\% anywhere.\<close>

definition breaks :: "'c threat_env \<Rightarrow> 'c threat_world \<Rightarrow> guid \<Rightarrow> nat \<Rightarrow> nat \<Rightarrow> bool" where
  "breaks e w u old j \<longleftrightarrow> CompareReferencesLT (tref w old) (tref w j) weight_110
     \<and> (te_melee e u (tr_victim (tref w j)) \<or> CompareReferencesLT (tref w old) (tref w j) weight_130)"

definition greatest_in :: "'c threat_world \<Rightarrow> (nat \<Rightarrow> bool) \<Rightarrow> guid \<Rightarrow> nat \<Rightarrow> bool" where
  "greatest_in w P u j \<longleftrightarrow> j \<in> set (tm_sorted (tw_mgr w u)) \<and> P j
     \<and> (\<forall>k \<in> set (tm_sorted (tw_mgr w u)). P k \<longrightarrow> \<not> CompareReferencesLT (tref w j) (tref w k) 1)"

lemma reselect_scan_spec:
  fixes e :: "'c threat_env" and u :: guid
  assumes "sorted_wrt (\<lambda>i j. \<not> CompareReferencesLT (tref w i) (tref w j) 1) xs" "old \<in> set xs"
  defines "C \<equiv> \<lambda>k. CompareReferencesLT (tref w old) (tref w k) weight_110 \<and> te_melee e u (tr_victim (tref w k))"
  shows "case reselect_scan e w u old xs of (v, ok) \<Rightarrow> ok \<and>
    ((v = Some old \<and> (\<forall>k \<in> set xs. \<not> C k)) \<or>
     (\<exists>j \<in> set xs. v = Some j \<and> C j \<and> (\<forall>k \<in> set xs. C k \<longrightarrow> \<not> CompareReferencesLT (tref w j) (tref w k) 1)))"
  using assms(1,2)
proof (induction xs)
  case (Cons n rest)
  have top: "\<not> CompareReferencesLT (tref w n) (tref w k) 1" if "k \<in> set (n # rest)" for k
    using Cons.prems(1) that threat_order.lt_irrefl by auto
  consider "n = old" | "n \<noteq> old" "\<not> CompareReferencesLT (tref w old) (tref w n) weight_110"
    | "n \<noteq> old" "C n" | "n \<noteq> old" "CompareReferencesLT (tref w old) (tref w n) weight_110" "\<not> C n"
    by (auto simp: C_def)
  then show ?case
  proof cases
    case 1
    then have "\<not> C k" if "k \<in> set (n # rest)" for k
      using top [OF that] CompareLT_weight [OF _ weights(1)] by (auto simp: C_def)
    with 1 show ?thesis by auto
  next
    case 2
    then have "\<not> C k" if "k \<in> set (n # rest)" for k
      using top [OF that] CompareLT_mono by (auto simp: C_def)
    with 2 show ?thesis by auto
  next
    case 3
    with top show ?thesis by (auto simp: C_def)
  next
    case 4
    with Cons show ?thesis by (auto simp: C_def split: prod.splits)
  qed
qed simp

lemma select_victim_ok:
  assumes mem: "heap_members e" and ok: "links_ok w" "fixes_ok w" and ne: "tm_sorted (tw_mgr w u) \<noteq> []"
    and cur: "\<And>i. tm_current (tw_mgr w u) = Some i \<Longrightarrow> owned w u i"
  shows "\<exists>v. select_victim e w u = (v, True) \<and> (\<forall>j. v = Some j \<longrightarrow> owned w u j \<and> available w j)"
proof -
  note top = heap_top_in [OF mem ok(1) ne]
  have scan: "\<exists>j. reselect_scan e w u i (heap_ordered e w u) = (Some j, True) \<and> owned w u j \<and> IsAvailable (tref w j)"
    if "tm_current (tw_mgr w u) = Some i" "\<not> IsOffline (tref w i)" for i
  proof -
    have "i \<in> set (heap_ordered e w u)"
      using heap_ordered_set [OF mem ok(1)] cur [OF that(1)] links_sorted [OF ok(1)] by simp
    from reselect_scan_ok [OF this, where w = w and e = e and u = u] that(2) obtain j
      where "reselect_scan e w u i (heap_ordered e w u) = (Some j, True)"
        "j \<in> set (heap_ordered e w u)" "IsAvailable (tref w j)"
      by (auto simp: available_iff)
    then show ?thesis using heap_ordered_set [OF mem ok(1)] links_sorted [OF ok(1)] by metis
  qed
  have fx: "owned w u f" if "tm_fixate (tw_mgr w u) = Some f" for f
    using that ok(2) by (simp add: fixes_ok_def)
  have "\<exists>v. select_victim e w u = (v, True) \<and> (\<forall>j. v = Some j \<longrightarrow> owned w u j \<and> IsAvailable (tref w j))"
  proof (cases "\<exists>f. tm_fixate (tw_mgr w u) = Some f \<and> IsAvailable (tref w f)")
    case True
    with fx show ?thesis by (auto simp: select_victim_def Let_def)
  next
    case False
    then have nofix: "\<not> (case tm_fixate (tw_mgr w u) of Some f \<Rightarrow> IsAvailable (tref w f) | None \<Rightarrow> False)"
      by (auto split: option.splits)
    show ?thesis
    proof (cases "tm_current (tw_mgr w u)")
      case None
      with nofix top show ?thesis by (simp add: select_victim_def Let_def)
    next
      case (Some old)
      with nofix top cur [OF Some] scan [OF Some] show ?thesis
        by (simp add: select_victim_def Let_def available_iff) blast
    qed
  qed
  then show ?thesis using available_tref by metis
qed

lemma top_offline:
  assumes "\<And>i. i \<in> L \<Longrightarrow> \<not> CompareReferencesLT (tref w h) (tref w i) 1" "\<not> IsAvailable (tref w h)" "i \<in> L"
  shows "IsOffline (tref w i)"
  using assms by (metis CompareLT_iff IsAvailable_def IsOffline_def linorder_not_less order_less_le_trans)

lemma no_breaks:
  assumes "\<not> CompareReferencesLT (tref w h) (tref w k) 1"
    and "h = old \<or> \<not> CompareReferencesLT (tref w old) (tref w h) weight_110"
  shows "\<not> breaks e w u old k"
proof -
  have "\<not> CompareReferencesLT (tref w old) (tref w old) weight_110"
    using threat_order.lt_irrefl CompareLT_weight [OF _ weights(1)] by blast
  then show ?thesis using assms CompareLT_mono by (auto simp: breaks_def)
qed

lemma scan_greatest:
  assumes mem: "heap_members e" and sorts: "heap_sorts e" and ok: "links_ok w" "tw_heap_ok w u"
    and old: "owned w u old" "IsAvailable (tref w old)"
    and far: "\<And>k. k \<in> set (tm_sorted (tw_mgr w u)) \<Longrightarrow>
      \<not> CompareReferencesLT (tref w old) (tref w k) weight_130"
  shows "\<exists>j. fst (reselect_scan e w u old (heap_ordered e w u)) = Some j \<and> IsAvailable (tref w j)
    \<and> (if \<exists>k \<in> set (tm_sorted (tw_mgr w u)). breaks e w u old k
       then greatest_in w (breaks e w u old) u j else j = old)"
proof -
  note L = heap_ordered_set(1) [OF mem ok(1), of u]
  have inL: "old \<in> set (heap_ordered e w u)" using old(1) links_sorted [OF ok(1)] L by simp
  from reselect_scan_ok [OF inL old(2), of e u] obtain j where
    j: "reselect_scan e w u old (heap_ordered e w u) = (Some j, True)" "IsAvailable (tref w j)" by auto
  have C: "breaks e w u old k \<longleftrightarrow> CompareReferencesLT (tref w old) (tref w k) weight_110
      \<and> te_melee e u (tr_victim (tref w k))" if "k \<in> set (tm_sorted (tw_mgr w u))" for k
    using that far by (auto simp: breaks_def)
  show ?thesis
    using reselect_scan_spec [OF heap_ordered_descending [OF mem sorts ok] inL, where e = e and u = u] j C
    by (auto simp: L greatest_in_def)
qed

definition chosen ::
  "'c threat_env \<Rightarrow> 'c threat_world \<Rightarrow> guid \<Rightarrow> nat option \<Rightarrow> nat option \<Rightarrow> bool" where
  "chosen e w u current v \<longleftrightarrow>
     (case v of
        None \<Rightarrow> \<forall>i \<in> set (tm_sorted (tw_mgr w u)). IsOffline (tref w i)
      | Some j \<Rightarrow> IsAvailable (tref w j) \<and>
          (case current of
             None \<Rightarrow> greatest_in w (\<lambda>_. True) u j
           | Some old \<Rightarrow>
               if IsOffline (tref w old) then greatest_in w (\<lambda>_. True) u j
               else if \<exists>k \<in> set (tm_sorted (tw_mgr w u)). breaks e w u old k
               then greatest_in w (breaks e w u old) u j
               else j = old))"

lemma select_victim_spec:
  assumes mem: "heap_members e" and sorts: "heap_sorts e" and ok: "links_ok w" "tw_heap_ok w u"
    and ne: "tm_sorted (tw_mgr w u) \<noteq> []"
    and cur: "\<And>i. tm_current (tw_mgr w u) = Some i \<Longrightarrow> owned w u i"
    and fx: "\<not> (\<exists>f. tm_fixate (tw_mgr w u) = Some f \<and> IsAvailable (tref w f))"
  shows "chosen e w u (tm_current (tw_mgr w u)) (fst (select_victim e w u))"
proof -
  let ?h = "heap_top e w u" and ?L = "set (tm_sorted (tw_mgr w u))"
  note top = heap_top_greatest [OF mem sorts ok]
  have h: "?h \<in> ?L" using heap_top_in [OF mem ok(1) ne] links_sorted [OF ok(1)] by simp
  have hg: "greatest_in w P u ?h" if "P ?h" for P using that h top by (simp add: greatest_in_def)
  have nofix: "\<not> (case tm_fixate (tw_mgr w u) of Some f \<Rightarrow> IsAvailable (tref w f) | None \<Rightarrow> False)"
    using fx by (auto split: option.splits)
  show ?thesis
  proof (cases "IsAvailable (tref w ?h)")
    case False
    then show ?thesis
      using top_offline [where L = ?L and h = ?h and w = w, OF top] nofix by (auto simp: select_victim_def Let_def chosen_def)
  next
    case True
    show ?thesis
    proof (cases "\<exists>old. tm_current (tw_mgr w u) = Some old \<and> IsAvailable (tref w old)")
      case False
      with True nofix hg show ?thesis
        by (auto simp: select_victim_def Let_def chosen_def available_iff split: option.splits)
    next
      case cur_av: True
      then obtain old where old: "tm_current (tw_mgr w u) = Some old" "IsAvailable (tref w old)" by blast
      let ?c110 = "CompareReferencesLT (tref w old) (tref w ?h) weight_110"
        and ?c130 = "CompareReferencesLT (tref w old) (tref w ?h) weight_130"
      consider "?h = old \<or> \<not> ?c110" | "?h \<noteq> old" "breaks e w u old ?h"
        | "?h \<noteq> old" "?c110" "\<not> breaks e w u old ?h" by blast
      then show ?thesis
      proof cases
        case 1
        have "\<not> breaks e w u old k" if "k \<in> ?L" for k by (rule no_breaks [OF top [OF that] 1])
        moreover have "fst (select_victim e w u) = Some old"
          using 1 True nofix old by (auto simp: select_victim_def Let_def available_iff)
        ultimately show ?thesis using old by (simp add: chosen_def available_iff)
      next
        case 2
        then have "fst (select_victim e w u) = Some ?h"
          using True nofix old by (auto simp: select_victim_def Let_def available_iff breaks_def)
        with 2 True old hg [of "breaks e w u old"] h show ?thesis by (auto simp: chosen_def available_iff)
      next
        case 3
        then have "fst (select_victim e w u) = fst (reselect_scan e w u old (heap_ordered e w u))"
          using True nofix old by (auto simp: select_victim_def Let_def available_iff breaks_def)
        moreover have "\<not> CompareReferencesLT (tref w old) (tref w k) weight_130" if "k \<in> ?L" for k
          using 3 top [OF that] CompareLT_mono by (auto simp: breaks_def)
        ultimately show ?thesis
          using scan_greatest [OF mem sorts ok cur [OF old(1)] old(2)] old
          by (fastforce simp: chosen_def available_iff)
      qed
    qed
  qed
qed

end
