(* ===== verification/Threat_Inv.thy ===== *)
theory Threat_Inv
  imports Threat_Select
begin

text \<open>
  Every operation of the threat manager keeps the invariant, and creates a reference only for a
  pair that the combat manager has accepted (\<open>grows\<close>); \<open>ok_step\<close> is both together, one lemma for
  each operation, and \<open>threat_step_ok\<close> sums them up.
\<close>

section \<open>Every operation keeps the invariant\<close>

lemma notify_ai_steady: "steady w (notify_ai u gs w)"
proof (induction u gs w rule: notify_ai.induct)
  case (2 u g rest w)
  then show ?case by (auto split: option.splits intro: steady_trans steady_small)
qed simp

lemma notify_ai_fields [simp]:
  "tw_refs (notify_ai u gs w) = tw_refs w" "tw_mgr (notify_ai u gs w) = tw_mgr w"
  "tw_combat (notify_ai u gs w) = tw_combat w" "tw_heap_ok (notify_ai u gs w) = tw_heap_ok w"
  by (induction u gs w rule: notify_ai.induct) (auto split: option.splits)

lemma ProcessAI_steady: "steady w (ProcessAIUpdates e u w)"
proof -
  let ?w1 = "w\<lparr>tw_ai_asserts := tw_ai_asserts w \<and> tu_creature (te_unit e u)\<rparr>"
  have "steady ?w1 (upd_mgr u (\<lambda>m. m\<lparr>tm_ai := []\<rparr>) ?w1)" by (rule steady_upd_mgr) (simp add: same_mgr_def)
  then have "steady w (upd_mgr u (\<lambda>m. m\<lparr>tm_ai := []\<rparr>) ?w1)" using steady_small(13) steady_trans by blast
  then show ?thesis by (auto simp: ProcessAIUpdates_def Let_def intro: steady_trans [OF _ notify_ai_steady])
qed

lemma ProcessAI_fields [simp]:
  "tw_refs (ProcessAIUpdates e u w) = tw_refs w"
  "tw_combat (ProcessAIUpdates e u w) = tw_combat w"
  "tw_heap_ok (ProcessAIUpdates e u w) = tw_heap_ok w"
  by (auto simp: ProcessAIUpdates_def Let_def)

lemma Reselect_facts:
  assumes mem: "heap_members e" and ok: "links_ok w" "fixes_ok w"
    and cur: "\<And>i. tm_current (tw_mgr w u) = Some i \<Longrightarrow> owned w u i"
  obtains v w' where "ReselectVictim e u w = (v, w')" "same_links w w'" "tw_combat w' = tw_combat w"
    "\<And>i. tw_refs w' i = (if owned w u i then map_option (evaluated e) (tw_refs w i) else tw_refs w i)"
    "\<And>j. v = Some j \<Longrightarrow> owned w u j \<and> available w' j"
    "tm_sorted (tw_mgr w u) \<noteq> [] \<Longrightarrow> v = fst (select_victim e w' u)"
    "tm_sorted (tw_mgr w u) = [] \<Longrightarrow> v = None"
proof (cases "tm_sorted (tw_mgr w u) = []")
  case True
  then have "\<not> owned w u i" for i using links_sorted [OF ok(1), of i u] by simp
  with True that [of None w] show ?thesis by (simp add: ReselectVictim_def)
next
  case False
  let ?w1 = "update_offline_loop e (tm_my (tw_mgr w u)) w"
  have "\<forall>(g, i) \<in> set (tm_my (tw_mgr w u)). tw_refs w i \<noteq> None"
    using links_my_in [OF ok(1)] by (auto simp: ends_def)
  note l = update_offline_loop_spec [OF this links_my_distinct [OF ok(1)], of e]
  have q: "same_links w ?w1" using l by blast
  have same: "same_mgr (tw_mgr w u) (tw_mgr ?w1 u)" using q by (simp add: same_links_def)
  have "links_ok ?w1" "fixes_ok ?w1" "tm_sorted (tw_mgr ?w1 u) \<noteq> []"
    "\<And>i. tm_current (tw_mgr ?w1 u) = Some i \<Longrightarrow> owned ?w1 u i"
    using same_links_links [OF q] same_links_fixes [OF q] same_links_owned [OF q] ok False same cur
    by (auto simp: same_mgr_def)
  from select_victim_ok [OF mem this] obtain v where
    v: "select_victim e ?w1 u = (v, True)" "\<And>j. v = Some j \<Longrightarrow> owned ?w1 u j \<and> available ?w1 j" by blast
  show ?thesis
    by (rule that [of v ?w1])
      (use False v l same_links_owned [OF q] links_my_snd [OF ok(1)] in \<open>auto simp: ReselectVictim_def Let_def\<close>)
qed

lemma owned_inj: "owned w u i \<Longrightarrow> owned w v i \<Longrightarrow> u = v"
  by (auto simp: owned_def)

lemma SendList_fields [simp]:
  "tw_refs (SendThreatListToClients e u b w) = tw_refs w"
  "tw_mgr (SendThreatListToClients e u b w) = tw_mgr w"
  "tw_next (SendThreatListToClients e u b w) = tw_next w"
  "tw_asserts (SendThreatListToClients e u b w) = tw_asserts w"
  "tw_combat (SendThreatListToClients e u b w) = tw_combat w"
  "tw_heap_ok (SendThreatListToClients e u b w) = tw_heap_ok w"
  "ends (SendThreatListToClients e u b w) = ends w"
  by (simp_all add: SendThreatListToClients_def)

text \<open>The last steps of \<open>UpdateVictim\<close>: store the choice, send packets, call the AI.\<close>

definition settle_victim ::
  "'c threat_env \<Rightarrow> guid \<Rightarrow> nat option \<Rightarrow> bool \<Rightarrow> 'c threat_world \<Rightarrow> 'c threat_world" where
  "settle_victim e u v newHighest w =
     (let w2 = upd_mgr u (\<lambda>m. m\<lparr>tm_current := v\<rparr>) w;
          w3 = (if newHighest \<or> tm_need_client (tw_mgr w2 u)
                then upd_mgr u (\<lambda>m. m\<lparr>tm_need_client := False\<rparr>) (SendThreatListToClients e u newHighest w2)
                else w2)
      in ProcessAIUpdates e u w3)"

lemma UpdateVictim_settle:
  "UpdateVictim e u w = (case ReselectVictim e u w of (v, w1) \<Rightarrow>
     settle_victim e u v (v \<noteq> None \<and> v \<noteq> tm_current (tw_mgr w1 u)) w1)"
  by (simp add: UpdateVictim_def settle_victim_def Let_def split: prod.split)

lemma settle_victim_steady:
  "steady (upd_mgr u (\<lambda>m. m\<lparr>tm_current := v\<rparr>) w) (settle_victim e u v b w)"
proof -
  let ?w2 = "upd_mgr u (\<lambda>m. m\<lparr>tm_current := v\<rparr>) w"
  have "steady (SendThreatListToClients e u b ?w2)
      (upd_mgr u (\<lambda>m. m\<lparr>tm_need_client := False\<rparr>) (SendThreatListToClients e u b ?w2))"
    by (rule steady_upd_mgr) (simp add: same_mgr_def)
  then have "steady ?w2 (upd_mgr u (\<lambda>m. m\<lparr>tm_need_client := False\<rparr>) (SendThreatListToClients e u b ?w2))"
    using steady_small(8) steady_trans by blast
  then show ?thesis unfolding settle_victim_def Let_def
    using ProcessAI_steady steady_trans by (smt (verit) steady_refl)
qed

lemma settle_victim_fields [simp]:
  "tw_refs (settle_victim e u v b w) = tw_refs w" "tw_combat (settle_victim e u v b w) = tw_combat w"
  "tw_heap_ok (settle_victim e u v b w) = tw_heap_ok w"
  by (simp_all add: settle_victim_def Let_def)

lemma current_upd:
  "links_ok (upd_mgr u (\<lambda>m. m\<lparr>tm_current := v\<rparr>) w) = links_ok w"
  "fixes_ok (upd_mgr u (\<lambda>m. m\<lparr>tm_current := v\<rparr>) w) = fixes_ok w"
  "owned (upd_mgr u (\<lambda>m. m\<lparr>tm_current := v\<rparr>) w) = owned w"
  "available (upd_mgr u (\<lambda>m. m\<lparr>tm_current := v\<rparr>) w) = available w"
proof -
  show "links_ok (upd_mgr u (\<lambda>m. m\<lparr>tm_current := v\<rparr>) w) = links_ok w" by (rule links_ok_cong) simp_all
  show o: "owned (upd_mgr u (\<lambda>m. m\<lparr>tm_current := v\<rparr>) w) = owned w"
    by (simp add: owned_def fun_eq_iff)
  show "fixes_ok (upd_mgr u (\<lambda>m. m\<lparr>tm_current := v\<rparr>) w) = fixes_ok w" by (rule fixes_ok_cong) simp_all
  show "available (upd_mgr u (\<lambda>m. m\<lparr>tm_current := v\<rparr>) w) = available w"
    by (simp add: available_def fun_eq_iff)
qed

lemma UpdateVictim_inv:
  assumes mem: "heap_members e" and ok: "links_ok w" "fixes_ok w" "tw_asserts w"
    and vict: "\<And>v. v \<noteq> u \<Longrightarrow> victim_ok w v"
    and cur: "\<And>i. tm_current (tw_mgr w u) = Some i \<Longrightarrow> owned w u i"
  shows "threat_inv (UpdateVictim e u w) \<and> ends (UpdateVictim e u w) = ends w
    \<and> tw_combat (UpdateVictim e u w) = tw_combat w"
proof -
  obtain v w' where r: "ReselectVictim e u w = (v, w')" "same_links w w'" "tw_combat w' = tw_combat w"
    "\<And>i. tw_refs w' i = (if owned w u i then map_option (evaluated e) (tw_refs w i) else tw_refs w i)"
    "\<And>j. v = Some j \<Longrightarrow> owned w u j \<and> available w' j"
    using Reselect_facts [OF mem ok(1,2) cur] by metis
  let ?w2 = "upd_mgr u (\<lambda>m. m\<lparr>tm_current := v\<rparr>) w'"
  have "threat_inv ?w2"
    unfolding threat_inv_def
  proof (intro conjI allI)
    show "links_ok ?w2" "fixes_ok ?w2" "tw_asserts ?w2"
      using same_links_links [OF r(2)] same_links_fixes [OF r(2)] ok r(2) by (simp_all add: current_upd same_links_def)
    fix x show "victim_ok ?w2 x"
    proof (cases "x = u")
      case True
      then show ?thesis unfolding victim_ok_def current_upd same_links_owned [OF r(2)] using r(5) by simp
    next
      case False
      have "available w' i" if "owned w x i" "available w i" for i
      proof -
        have "\<not> owned w u i" using owned_inj [OF that(1)] False by blast
        then show ?thesis using that(2) r(4) [of i] by (simp add: available_def)
      qed
      moreover have "tm_current (tw_mgr w' x) = tm_current (tw_mgr w x)"
        using r(2) by (simp add: same_links_def same_mgr_def)
      ultimately show ?thesis unfolding victim_ok_def current_upd same_links_owned [OF r(2)]
        using False vict [OF False] by (simp add: victim_ok_def)
    qed
  qed
  then have "threat_inv (settle_victim e u v b w')" for b
    using steady_inv [OF settle_victim_steady] by blast
  moreover have "ends (settle_victim e u v b w') = ends w" for b
    using settle_victim_steady [of u v w' e b] r(2) by (simp add: steady_def same_links_def)
  ultimately show ?thesis using r(1,3) by (simp add: UpdateVictim_settle)
qed

lemma UpdateVictim_keeps:
  "heap_members e \<Longrightarrow> threat_inv w \<Longrightarrow> threat_inv (UpdateVictim e u w)
     \<and> ends (UpdateVictim e u w) = ends w \<and> tw_combat (UpdateVictim e u w) = tw_combat w"
  by (rule UpdateVictim_inv) (auto simp: threat_inv_def victim_ok_def)


text \<open>Removing a reference.\<close>

lemma ends_unique: "links_ok w \<Longrightarrow> ends w i = Some p \<Longrightarrow> ends w j = Some p \<Longrightarrow> i = j"
  by (cases p) (metis links_my option.inject)

lemma links_sorted_ends:
  "links_ok w \<Longrightarrow> ends w i = Some (u, g) \<Longrightarrow> i \<in> set (tm_sorted (tw_mgr w v)) \<longleftrightarrow> v = u"
  by (auto simp: links_ok_def)

lemma Unregister_fields:
  assumes ok: "links_ok w" and i: "ends w i = Some (u, g)"
  shows "ends (UnregisterAndFree i w) = (ends w)(i := None)"
    and "tm_my (tw_mgr (UnregisterAndFree i w) v) =
      (if v = u then om_erase g (tm_my (tw_mgr w v)) else tm_my (tw_mgr w v))"
    and "tm_by_me (tw_mgr (UnregisterAndFree i w) v) =
      (if v = g then om_erase u (tm_by_me (tw_mgr w v)) else tm_by_me (tw_mgr w v))"
    and "tm_sorted (tw_mgr (UnregisterAndFree i w) v) = removeAll i (tm_sorted (tw_mgr w v))"
    and "tm_fixate (tw_mgr (UnregisterAndFree i w) v) =
      (if v = u \<and> tm_fixate (tw_mgr w v) = Some i then None else tm_fixate (tw_mgr w v))"
    and "tm_current (tw_mgr (UnregisterAndFree i w) v) =
      (if v = u \<and> tm_current (tw_mgr w v) = Some i then None else tm_current (tw_mgr w v))"
    and "tw_next (UnregisterAndFree i w) = tw_next w"
    and "tw_asserts (UnregisterAndFree i w) = tw_asserts w"
    and "tw_combat (UnregisterAndFree i w) = tw_combat w"
    and "tw_heap_ok (UnregisterAndFree i w) = tw_heap_ok w"
    and "tw_refs (UnregisterAndFree i w) = (tw_refs w)(i := None)"
proof -
  have my: "om_get (tm_my (tw_mgr w u)) g = Some i" using links_my [OF ok] i by simp
  have r: "tr_owner (tref w i) = u" "tr_victim (tref w i) = g" using i by (auto simp: ends_def tref_def)
  have other: "removeAll i (tm_sorted (tw_mgr w x)) = tm_sorted (tw_mgr w x)" if "x \<noteq> u" for x
    using that links_sorted_ends [OF ok i, of x] by simp
  define f where "f = (\<lambda>m :: threat_mgr. m\<lparr>tm_my := om_erase g (tm_my m), tm_sorted := removeAll i (tm_sorted m),
            tm_fixate := (if tm_fixate m = Some i then None else tm_fixate m),
            tm_current := (if tm_current m = Some i then None else tm_current m)\<rparr>)"
  define f' where "f' = (\<lambda>m :: threat_mgr. m\<lparr>tm_by_me := om_erase u (tm_by_me m)\<rparr>)"
  have eq: "UnregisterAndFree i w = (upd_mgr g f' (upd_mgr u f w))\<lparr>tw_refs := (tw_refs w)(i := None)\<rparr>"
    by (simp add: UnregisterAndFree_def PurgeThreatListRef_def PurgeThreatenedByMeRef_def Let_def r my f_def f'_def)
  show "ends (UnregisterAndFree i w) = (ends w)(i := None)" by (auto simp: eq ends_def)
  show "tm_sorted (tw_mgr (UnregisterAndFree i w) v) = removeAll i (tm_sorted (tw_mgr w v))"
    by (simp add: eq f_def f'_def other)
  show "tm_my (tw_mgr (UnregisterAndFree i w) v) =
      (if v = u then om_erase g (tm_my (tw_mgr w v)) else tm_my (tw_mgr w v))"
    and "tm_by_me (tw_mgr (UnregisterAndFree i w) v) =
      (if v = g then om_erase u (tm_by_me (tw_mgr w v)) else tm_by_me (tw_mgr w v))"
    and "tm_fixate (tw_mgr (UnregisterAndFree i w) v) =
      (if v = u \<and> tm_fixate (tw_mgr w v) = Some i then None else tm_fixate (tw_mgr w v))"
    and "tm_current (tw_mgr (UnregisterAndFree i w) v) =
      (if v = u \<and> tm_current (tw_mgr w v) = Some i then None else tm_current (tw_mgr w v))"
    by (simp_all add: eq f_def f'_def)
  show "tw_next (UnregisterAndFree i w) = tw_next w"
    and "tw_asserts (UnregisterAndFree i w) = tw_asserts w"
    and "tw_combat (UnregisterAndFree i w) = tw_combat w"
    and "tw_heap_ok (UnregisterAndFree i w) = tw_heap_ok w"
    and "tw_refs (UnregisterAndFree i w) = (tw_refs w)(i := None)"
    by (simp_all add: eq)
qed

lemma Unregister_inv:
  assumes inv: "threat_inv w" and i: "ends w i = Some (u, g)"
  shows "threat_inv (UnregisterAndFree i w)"
proof -
  have ok: "links_ok w" using inv by (simp add: threat_inv_def)
  note f = Unregister_fields [OF ok i]
  let ?w = "UnregisterAndFree i w"
  have uniq: "j = i" if "ends w j = Some (u, g)" for j
    using ends_unique [OF ok i that] by simp
  have "links_ok ?w"
    unfolding links_ok_def f
  proof (intro conjI allI)
    fix v h j
    show "om_ok (if v = u then om_erase g (tm_my (tw_mgr w v)) else tm_my (tw_mgr w v))"
      "om_ok (if v = g then om_erase u (tm_by_me (tw_mgr w v)) else tm_by_me (tw_mgr w v))"
      using links_om [OF ok] by simp_all
    show "om_get (if v = u then om_erase g (tm_my (tw_mgr w v)) else tm_my (tw_mgr w v)) h = Some j
        \<longleftrightarrow> ((ends w)(i := None)) j = Some (v, h)"
      using i uniq [of j] by (cases "j = i") (auto simp: links_my [OF ok])
    show "om_get (if v = g then om_erase u (tm_by_me (tw_mgr w v)) else tm_by_me (tw_mgr w v)) h = Some j
        \<longleftrightarrow> ((ends w)(i := None)) j = Some (h, v)"
      using i uniq [of j] by (cases "j = i") (auto simp: links_by_me [OF ok])
    show "distinct (removeAll i (tm_sorted (tw_mgr w v)))"
      using links_distinct [OF ok] by (simp add: distinct_removeAll)
    show "j \<in> set (removeAll i (tm_sorted (tw_mgr w v))) \<longleftrightarrow> (\<exists>h. ((ends w)(i := None)) j = Some (v, h))"
      using links_sorted [OF ok] by (auto simp: owned_def)
    show "((ends w)(i := None)) j \<noteq> None \<longrightarrow> j < tw_next w" using links_next [OF ok] by auto
  qed
  moreover have o: "owned ?w v j \<longleftrightarrow> owned w v j \<and> j \<noteq> i" for v j by (auto simp: owned_def f(1))
  moreover have "owned w u i" using i by (simp add: owned_def)
  then have "v = u" if "owned w v i" for v using that owned_inj by blast
  then have "v = u" if "tm_fixate (tw_mgr w v) = Some i \<or> tm_current (tw_mgr w v) = Some i" for v
    using that inv by (auto simp: threat_inv_def fixes_ok_def victim_ok_def)
  ultimately show ?thesis using inv f(5,6,8,11)
    by (fastforce simp: threat_inv_def fixes_ok_def victim_ok_def available_def)
qed

lemma Send_fields [simp]:
  "ends (SendRemoveToClients e u g w) = ends w" "ends (SendClearAllThreatToClients e u w) = ends w"
  "tw_mgr (SendRemoveToClients e u g w) = tw_mgr w" "tw_mgr (SendClearAllThreatToClients e u w) = tw_mgr w"
  "tw_combat (SendClearAllThreatToClients e u w) = tw_combat w"
  "tw_heap_ok (SendClearAllThreatToClients e u w) = tw_heap_ok w"
  "tw_refs (SendClearAllThreatToClients e u w) = tw_refs w"
  by (simp_all add: SendRemoveToClients_def SendClearAllThreatToClients_def)

lemma ClearThreat_ref_inv:
  assumes mem: "heap_members e" and inv: "threat_inv w" and i: "ends w i = Some (u, g)"
  shows "threat_inv (ClearThreat_ref e u i w) \<and> ends (ClearThreat_ref e u i w) = (ends w)(i := None)
    \<and> tw_combat (ClearThreat_ref e u i w) = tw_combat w"
proof -
  let ?s = "SendRemoveToClients e u (tr_victim (tref w i)) w"
  have s: "threat_inv ?s" "ends ?s i = Some (u, g)" using steady_inv [OF steady_small(7) inv] i by simp_all
  then have "links_ok ?s" by (simp add: threat_inv_def)
  note f = Unregister_fields [OF this s(2)] and n = Unregister_inv [OF s]
  show ?thesis
    using n UpdateVictim_keeps [OF mem n] f(1,9) by (simp add: ClearThreat_ref_def Let_def)
qed

lemma ClearThreat_inv:
  assumes "heap_members e" "threat_inv w"
  shows "threat_inv (ClearThreat e u g w)"
    and "ends (ClearThreat e u g w) i = (if ends w i = Some (u, g) then None else ends w i)"
    and "tw_combat (ClearThreat e u g w) = tw_combat w"
proof -
  have ok: "links_ok w" using assms(2) by (simp add: threat_inv_def)
  have uniq: "j = i" if "ends w i = Some (u, g)" "ends w j = Some (u, g)" for i j
    using ends_unique [OF ok] that by metis
  show "threat_inv (ClearThreat e u g w)"
    "ends (ClearThreat e u g w) i = (if ends w i = Some (u, g) then None else ends w i)"
    "tw_combat (ClearThreat e u g w) = tw_combat w"
    using assms ClearThreat_ref_inv [OF assms] uniq links_my [OF ok, of u g]
    by (auto simp: ClearThreat_def split: option.splits)
qed

lemma remove_me_inv:
  "heap_members e \<Longrightarrow> threat_inv w \<Longrightarrow> threat_inv (remove_me_loop e u is w)
    \<and> tw_combat (remove_me_loop e u is w) = tw_combat w
    \<and> (\<forall>i. ends (remove_me_loop e u is w) i = None \<or> ends (remove_me_loop e u is w) i = ends w i)"
proof (induction e u "is" w rule: remove_me_loop.induct)
  case (2 e u i rest w)
  note c = ClearThreat_inv [OF 2(2,3), of "tr_owner (tref w i)" u]
  note IH = 2(1) [OF 2(2) c(1)]
  have "ends (ClearThreat e (tr_owner (tref w i)) u w) j = None
      \<or> ends (ClearThreat e (tr_owner (tref w i)) u w) j = ends w j" for j
    by (simp add: c(2))
  with IH c(3) show ?case by (simp only: remove_me_loop.simps) metis
qed simp

text \<open>The bound of \<open>clear_all_loop\<close> is enough: afterwards the list is empty.\<close>

lemma clear_all_spec:
  "threat_inv w \<Longrightarrow> length (tm_my (tw_mgr w u)) \<le> n \<Longrightarrow>
    threat_inv (clear_all_loop n u w) \<and> tm_my (tw_mgr (clear_all_loop n u w) u) = []
    \<and> tw_combat (clear_all_loop n u w) = tw_combat w
    \<and> (\<forall>i. ends (clear_all_loop n u w) i = (if owned w u i then None else ends w i))
    \<and> (\<forall>v. v \<noteq> u \<longrightarrow> tm_my (tw_mgr (clear_all_loop n u w) v) = tm_my (tw_mgr w v))"
proof (induction n u w rule: clear_all_loop.induct)
  case (1 u w)
  then have "links_ok w" by (simp add: threat_inv_def)
  with 1 show ?case using links_my_in [of w _ _ u] by (auto simp: owned_def)
next
  case (2 n u w)
  have ok: "links_ok w" using 2(2) by (simp add: threat_inv_def)
  show ?case
  proof (cases "tm_my (tw_mgr w u)")
    case Nil
    then have "\<not> owned w u i" for i using links_my_in [OF ok, of _ i u] by (simp add: owned_def)
    with Nil 2(2) show ?thesis by simp
  next
    case (Cons x rest)
    obtain g i where x: "x = (g, i)" by fastforce
    then have i: "ends w i = Some (u, g)" using Cons links_my_in [OF ok, of g i u] by simp
    note f = Unregister_fields [OF ok i]
    have "om_get (tm_my (tw_mgr w u)) g = Some i" using links_my [OF ok] i by simp
    then have "length (tm_my (tw_mgr (UnregisterAndFree i w) u)) \<le> n"
      using length_om_erase [OF links_om(1) [OF ok], of u g] 2(3) by (simp add: f(2))
    note IH = 2(1) [OF Cons x [symmetric] Unregister_inv [OF 2(2) i] this]
    then show ?thesis using Cons x i f(1,2,9) by (auto simp: owned_def)
  qed
qed


text \<open>
  How an operation may change the world beyond the invariant: references disappear, or one appears
  for a pair that the combat manager has just accepted.
\<close>

inductive grows :: "'c threat_env \<Rightarrow> 'c threat_world \<Rightarrow> 'c threat_world \<Rightarrow> bool" for e where
  grows_same: "tw_combat w' = tw_combat w \<Longrightarrow> (\<And>i p. ends w' i = Some p \<Longrightarrow> ends w i = Some p)
    \<Longrightarrow> grows e w w'"
| grows_fight: "te_set_combat e u v (tw_combat w) = (tw_combat w', b)
    \<Longrightarrow> (\<And>i p. ends w' i = Some p \<Longrightarrow> ends w i = Some p \<or> (b \<and> p = (u, v))) \<Longrightarrow> grows e w w'"
| grows_trans: "grows e a b \<Longrightarrow> grows e b c \<Longrightarrow> grows e a c"

definition ok_step :: "'c threat_env \<Rightarrow> 'c threat_world \<Rightarrow> 'c threat_world \<Rightarrow> bool" where
  "ok_step e w w' \<longleftrightarrow> (threat_inv w \<longrightarrow> threat_inv w' \<and> grows e w w')"

lemma ok_step_refl [simp, intro]: "ok_step e w w"
  by (auto simp: ok_step_def intro: grows_same)

lemma ok_step_trans [trans]: "ok_step e a b \<Longrightarrow> ok_step e b c \<Longrightarrow> ok_step e a c"
  by (auto simp: ok_step_def intro: grows_trans)

lemma ok_step_steady: "steady w w' \<Longrightarrow> tw_combat w' = tw_combat w \<Longrightarrow> ok_step e w w'"
  using steady_inv by (auto simp: ok_step_def steady_def same_links_def intro!: grows_same)

lemma ok_stepI:
  "(threat_inv w \<Longrightarrow> threat_inv w' \<and> tw_combat w' = tw_combat w
     \<and> (\<forall>i p. ends w' i = Some p \<longrightarrow> ends w i = Some p)) \<Longrightarrow> ok_step e w w'"
  by (auto simp: ok_step_def intro!: grows_same)

lemma ok_UpdateVictim: "heap_members e \<Longrightarrow> ok_step e w (UpdateVictim e u w)"
  using UpdateVictim_keeps [of e w u] by (auto intro: ok_stepI)

lemma ok_ClearThreat: "heap_members e \<Longrightarrow> ok_step e w (ClearThreat e u g w)"
  using ClearThreat_inv [of e w u g] by (auto intro!: ok_stepI split: if_splits)

lemma shrinks_RemoveMe:
  assumes "heap_members e" "threat_inv w"
  shows "threat_inv (RemoveMeFromThreatLists e u f w)
    \<and> tw_combat (RemoveMeFromThreatLists e u f w) = tw_combat w
    \<and> (\<forall>i p. ends (RemoveMeFromThreatLists e u f w) i = Some p \<longrightarrow> ends w i = Some p)"
proof -
  have "threat_inv (remove_me_loop e u is w) \<and> tw_combat (remove_me_loop e u is w) = tw_combat w
        \<and> (\<forall>i p. ends (remove_me_loop e u is w) i = Some p \<longrightarrow> ends w i = Some p)" for "is"
    using remove_me_inv [OF assms, of u "is"]
    by (auto simp del: remove_me_loop.simps) (metis option.distinct(1))
  then show ?thesis by (simp add: RemoveMeFromThreatLists_def)
qed

lemma ok_RemoveMe: "heap_members e \<Longrightarrow> ok_step e w (RemoveMeFromThreatLists e u f w)"
  by (intro ok_stepI shrinks_RemoveMe)

lemma shrinks_ClearAll:
  assumes inv: "threat_inv w"
  shows "threat_inv (ClearAllThreat u w) \<and> tw_combat (ClearAllThreat u w) = tw_combat w
     \<and> (\<forall>i p. ends (ClearAllThreat u w) i = Some p \<longrightarrow> ends w i = Some p)"
proof -
  let ?w = "upd_mgr u (\<lambda>m. m\<lparr>tm_need_clear := True\<rparr>) w"
  have "steady w ?w" by (rule steady_upd_mgr) (simp add: same_mgr_def)
  then have "threat_inv ?w" using steady_inv inv by blast
  from clear_all_spec [OF this, of u "length (tm_my (tw_mgr w u))"]
  show ?thesis using inv by (auto simp: ClearAllThreat_def split: if_splits)
qed

lemma ClearAll_owned:
  assumes inv: "threat_inv w"
  shows "\<not> owned (ClearAllThreat u w) u i"
proof (cases "tm_my (tw_mgr w u) = []")
  case True
  then have "\<not> owned w u i" using links_my_snd [of w i u] inv by (simp add: threat_inv_def)
  with True show ?thesis by (simp add: ClearAllThreat_def)
next
  case False
  let ?w = "upd_mgr u (\<lambda>m. m\<lparr>tm_need_clear := True\<rparr>) w"
  have "steady w ?w" by (rule steady_upd_mgr) (simp add: same_mgr_def)
  then have "threat_inv ?w" using steady_inv inv by blast
  from clear_all_spec [OF this, of u "length (tm_my (tw_mgr w u))"] False
  show ?thesis by (auto simp: ClearAllThreat_def owned_def)
qed

lemma ok_ClearAll: "ok_step e w (ClearAllThreat u w)"
  by (intro ok_stepI shrinks_ClearAll)

text \<open>Creating a reference.\<close>

lemma tregister_fields:
  defines "R \<equiv> \<lambda>u g w. snd (register_tref u g w)"
  shows "fst (register_tref u g w) = tw_next w"
    and "tw_refs (R u g w) = (tw_refs w)(tw_next w \<mapsto> new_tref u g)"
    and "tw_next (R u g w) = Suc (tw_next w)" and "tw_combat (R u g w) = tw_combat w"
    and "tw_heap_ok (R u g w) = tw_heap_ok w"
    and "tm_my (tw_mgr (R u g w) v) = (if v = u then om_put g (tw_next w) (tm_my (tw_mgr w v)) else tm_my (tw_mgr w v))"
    and "tm_by_me (tw_mgr (R u g w) v) = (if v = g then om_put u (tw_next w) (tm_by_me (tw_mgr w v)) else tm_by_me (tw_mgr w v))"
    and "tm_sorted (tw_mgr (R u g w) v) = (if v = u then tm_sorted (tw_mgr w v) @ [tw_next w] else tm_sorted (tw_mgr w v))"
    and "tm_current (tw_mgr (R u g w) v) = tm_current (tw_mgr w v)"
    and "tm_fixate (tw_mgr (R u g w) v) = tm_fixate (tw_mgr w v)"
    and "tw_asserts (R u g w) \<longleftrightarrow> tw_asserts w \<and> om_get (tm_my (tw_mgr w u)) g = None
           \<and> om_get (tm_by_me (tw_mgr w g)) u = None"
    and "ends (R u g w) = (ends w)(tw_next w \<mapsto> (u, g))"
  by (auto simp: R_def register_tref_def Let_def PutThreatListRef_def PutThreatenedByMeRef_def
      ends_def new_tref_def)

lemma register_inv:
  assumes inv: "threat_inv w" and free: "om_get (tm_my (tw_mgr w u)) g = None"
  shows "threat_inv (snd (register_tref u g w))"
proof -
  have ok: "links_ok w" using inv by (simp add: threat_inv_def)
  note f = tregister_fields [of u g w]
  have free': "ends w i \<noteq> Some (u, g)" for i using links_my [OF ok, of u g i] free by simp
  then have byme: "om_get (tm_by_me (tw_mgr w g)) u = None"
    using links_by_me [OF ok, of g u] by (metis option.exhaust)
  have fresh: "ends w (tw_next w) = None" using links_next [OF ok, of "tw_next w"] by fastforce
  have fresh_sorted: "tw_next w \<notin> set (tm_sorted (tw_mgr w v))" for v
    using links_sorted [OF ok] fresh by (simp add: owned_def)
  let ?w = "snd (register_tref u g w)"
  have "links_ok ?w"
    unfolding links_ok_def f
  proof (intro conjI allI)
    fix v h j
    show "om_ok (if v = u then om_put g (tw_next w) (tm_my (tw_mgr w v)) else tm_my (tw_mgr w v))"
      "om_ok (if v = g then om_put u (tw_next w) (tm_by_me (tw_mgr w v)) else tm_by_me (tw_mgr w v))"
      using links_om [OF ok] by simp_all
    show "om_get (if v = u then om_put g (tw_next w) (tm_my (tw_mgr w v)) else tm_my (tw_mgr w v)) h = Some j
        \<longleftrightarrow> ((ends w)(tw_next w \<mapsto> (u, g))) j = Some (v, h)"
      using fresh free' [of j] by (cases "j = tw_next w") (auto simp: links_my [OF ok])
    show "om_get (if v = g then om_put u (tw_next w) (tm_by_me (tw_mgr w v)) else tm_by_me (tw_mgr w v)) h = Some j
        \<longleftrightarrow> ((ends w)(tw_next w \<mapsto> (u, g))) j = Some (h, v)"
      using fresh free' [of j] by (cases "j = tw_next w") (auto simp: links_by_me [OF ok])
    show "distinct (if v = u then tm_sorted (tw_mgr w v) @ [tw_next w] else tm_sorted (tw_mgr w v))"
      using links_distinct [OF ok] fresh_sorted by simp
    show "j \<in> set (if v = u then tm_sorted (tw_mgr w v) @ [tw_next w] else tm_sorted (tw_mgr w v))
        \<longleftrightarrow> (\<exists>h. ((ends w)(tw_next w \<mapsto> (u, g))) j = Some (v, h))"
      using fresh links_sorted [OF ok] by (cases "j = tw_next w") (auto simp: owned_def)
    show "((ends w)(tw_next w \<mapsto> (u, g))) j \<noteq> None \<longrightarrow> j < Suc (tw_next w)"
      using links_next [OF ok, of j] by auto
  qed
  moreover have o: "owned ?w v i" if "owned w v i" for v i
    using that fresh by (auto simp: owned_def f(12))
  moreover have "available ?w i" if "available w i" for i
    using that fresh by (auto simp: available_def f(2) ends_def)
  ultimately show ?thesis using inv free byme
    by (simp add: threat_inv_def fixes_ok_def victim_ok_def f(9,10,11))
qed


lemma UpdateOffline_inv:
  assumes inv: "threat_inv w" and r: "tw_refs w i = Some r" and cur: "\<And>u. tm_current (tw_mgr w u) \<noteq> Some i"
  shows "threat_inv (UpdateOffline e i w)"
proof -
  note q = UpdateOffline_refs [OF r, of e]
  have "victim_ok (UpdateOffline e i w) u" for u
  proof -
    have "tm_current (tw_mgr (UpdateOffline e i w) u) = tm_current (tw_mgr w u)"
      using q(3) by (simp add: same_links_def same_mgr_def)
    then show ?thesis using inv cur [of u] same_links_owned [OF q(3)]
      by (auto simp: threat_inv_def victim_ok_def available_def q(1))
  qed
  then show ?thesis using inv same_links_links [OF q(3)] same_links_fixes [OF q(3)] q(3)
    by (simp add: threat_inv_def same_links_def)
qed

lemma combat_field_inv [simp]: "threat_inv (w\<lparr>tw_combat := c\<rparr>) = threat_inv w"
  "ends (w\<lparr>tw_combat := c\<rparr>) = ends w"
proof -
  show e: "ends (w\<lparr>tw_combat := c\<rparr>) = ends w" for c by (simp add: ends_def fun_eq_iff)
  have "steady w (w\<lparr>tw_combat := c\<rparr>)" "steady (w\<lparr>tw_combat := c\<rparr>) w"
    by (rule steady_same; simp)+
  then show "threat_inv (w\<lparr>tw_combat := c\<rparr>) = threat_inv w" using steady_inv by blast
qed

lemma ok_combat: "te_set_combat e u v (tw_combat w) = (c, b) \<Longrightarrow> ok_step e w (w\<lparr>tw_combat := c\<rparr>)"
  by (auto simp: ok_step_def intro!: grows_fight)

lemma Ref_combat [simp]:
  "tw_combat (Ref_AddThreat i a w) = tw_combat w" "tw_combat (Ref_ScaleThreat i a w) = tw_combat w"
  "tw_combat (UpdateTauntState e i s w) = tw_combat w"
  by (simp_all add: Ref_AddThreat_def Ref_ScaleThreat_def UpdateTauntState_def Let_def)

lemma ok_Ref_AddThreat: "tw_refs w i = Some r \<Longrightarrow> ok_step e w (Ref_AddThreat i a w)"
  by (simp add: ok_step_steady steady_AddThreat)

lemma ok_existing:
  fixes e :: "'c threat_env"
  assumes r: "tw_refs w i = Some r"
  defines "w2 \<equiv> (if Ref_IsSuppressed (tref w i) \<and> \<not> ShouldBeSuppressed e (tref w i)
     then HeapNotifyIncreased (tref w i) i (write_tref i ((tref w i)\<lparr>tr_online := ONLINE_STATE_ONLINE\<rparr>) w)
     else w)"
  shows "ok_step e w (if IsOnline (tref w2 i) then Ref_AddThreat i a w2 else w2)"
proof -
  have "steady w w2" using r by (auto simp: w2_def tref_eq [OF r] intro!: steady_then steady_write)
  moreover have "tw_combat w2 = tw_combat w" by (simp add: w2_def)
  moreover have "\<exists>r'. tw_refs w2 i = Some r'" using r by (simp add: w2_def)
  ultimately show ?thesis using ok_step_steady ok_Ref_AddThreat ok_step_trans by (smt (verit))
qed

lemma ok_created:
  fixes a :: float32
  assumes mem: "heap_members e" and r: "tw_refs w i = Some r" and cur: "\<And>u. tm_current (tw_mgr w u) \<noteq> Some i"
  defines "w3 \<equiv> UpdateOffline e i w"
  defines "w4 \<equiv> (if IsOnline (tref w3 i) then Ref_AddThreat i a w3 else w3)"
  shows "ok_step e w (if tm_current (tw_mgr w4 u) = None then UpdateVictim e u w4 else ProcessAIUpdates e u w4)"
proof -
  note q = UpdateOffline_refs [OF r, of e]
  have "ok_step e w w3"
    using UpdateOffline_inv [OF _ r cur] q(2,3) by (intro ok_stepI) (auto simp: w3_def same_links_def)
  also have "ok_step e w3 w4" using ok_Ref_AddThreat [of w3 i] q(1) by (simp add: w4_def w3_def)
  also have "ok_step e w4 (if tm_current (tw_mgr w4 u) = None then UpdateVictim e u w4 else ProcessAIUpdates e u w4)"
    by (simp add: ok_UpdateVictim [OF mem] ok_step_steady ProcessAI_steady)
  finally show ?thesis .
qed

lemma fresh_ends: "threat_inv w \<Longrightarrow> ends w (tw_next w) = None"
  using links_next [of w "tw_next w"] unfolding threat_inv_def by blast

lemma current_not_fresh: "threat_inv w \<Longrightarrow> tm_current (tw_mgr w v) \<noteq> Some (tw_next w)"
  using fresh_ends [of w] by (metis option.distinct(1) owned_def threat_inv_def victim_ok_def)

lemma ok_apply_threat:
  assumes mem: "heap_members e"
  shows "ok_step e w (apply_threat e u target amount w)"
proof (cases "te_set_combat e u target (tw_combat w)")
  case (Pair c b)
  let ?w1 = "w\<lparr>tw_combat := c\<rparr>"
  have s: "ok_step e w ?w1" by (rule ok_combat [OF Pair])
  show ?thesis
  proof (cases b)
    case False
    with s Pair show ?thesis by (simp add: apply_threat_def)
  next
    case b: True
    show ?thesis
    proof (cases "om_get (tm_my (tw_mgr ?w1 u)) target")
      case (Some i)
      show ?thesis
      proof (cases "threat_inv w")
        case True
        then have "ends ?w1 i = Some (u, target)" using Some by (auto simp: threat_inv_def links_my)
        then obtain r where "tw_refs ?w1 i = Some r" using ends_live by blast
        from ok_existing [OF this, of e amount] s have "ok_step e w (apply_threat e u target amount w)"
          using Pair b Some by (auto simp: apply_threat_def Let_def intro: ok_step_trans)
        then show ?thesis .
      qed (simp add: ok_step_def)
    next
      case None
      let ?w2 = "snd (register_tref u target ?w1)"
      note f = tregister_fields [of u target ?w1]
      have reg: "ok_step e w ?w2" unfolding ok_step_def
      proof (intro impI conjI)
        assume "threat_inv w"
        then have i: "threat_inv ?w1" by simp
        show "threat_inv ?w2" by (rule register_inv [OF i None])
        have "ends w (tw_next w) = None" using fresh_ends i by simp
        then show "grows e w ?w2" using Pair b f(4,12)
          by (intro grows_fight [of e u target w ?w2 b]) (auto split: if_splits)
      qed
      show ?thesis
      proof (cases "threat_inv w")
        case True
        have "tm_current (tw_mgr ?w2 v) \<noteq> Some (tw_next w)" for v
          using current_not_fresh [OF True] f(9) by simp
        note cur = this
        have eq: "apply_threat e u target amount w =
            (let w3 = UpdateOffline e (tw_next w) ?w2;
                 w4 = (if IsOnline (tref w3 (tw_next w)) then Ref_AddThreat (tw_next w) amount w3 else w3)
             in if tm_current (tw_mgr w4 u) = None then UpdateVictim e u w4 else ProcessAIUpdates e u w4)"
          using Pair b None f(1) by (auto simp: apply_threat_def Let_def split_beta)
        have "ok_step e ?w2 (apply_threat e u target amount w)"
          unfolding eq Let_def using cur f(2)
          by (intro ok_created [OF mem, where r = "new_tref u target"]) simp_all
        with reg show ?thesis by (rule ok_step_trans)
      qed (simp add: ok_step_def)
    qed
  qed
qed


lemma ok_redirected: "heap_members e \<Longrightarrow> ok_step e w (AddThreat_redirected e u g a s w)"
  by (simp add: AddThreat_redirected_def ok_apply_threat)

lemma ok_redirect_loop:
  "heap_members e \<Longrightarrow> ok_step e w (snd (redirect_loop e u s orig rs a w))"
proof (induction e u s orig rs a w rule: redirect_loop.induct)
  case (2 e u s orig g pct rest a w)
  then show ?case
    by (auto simp: Let_def split: option.splits intro: ok_step_trans [OF ok_redirected [OF 2(3)]])
qed simp

lemma ok_combat_redirects: "ok_step e w (w\<lparr>tw_combat := combat_redirects e u rs (tw_combat w)\<rparr>)"
proof (induction rs arbitrary: w)
  case Nil
  then show ?case by simp
next
  case (Cons x rest)
  obtain g pct where x: "x = (g, pct)" by fastforce
  let ?c = "if \<not> te_in_combat e (tw_combat w) u g \<and> te_exists e u g
    then fst (te_set_combat e u g (tw_combat w)) else tw_combat w"
  have "ok_step e w (w\<lparr>tw_combat := ?c\<rparr>)"
    using ok_combat [of e u g w "fst (te_set_combat e u g (tw_combat w))"] by (simp add: prod_eq_iff)
  also have "ok_step e (w\<lparr>tw_combat := ?c\<rparr>)
      ((w\<lparr>tw_combat := ?c\<rparr>)\<lparr>tw_combat := combat_redirects e u rest (tw_combat (w\<lparr>tw_combat := ?c\<rparr>))\<rparr>)"
    by (rule Cons)
  finally show ?case by (simp add: x)
qed

lemma ok_Calculate: "ok_step e w (snd (CalculateModifiedThreat e a g s w))"
proof -
  have "steady w (upd_mgr g (\<lambda>m. m\<lparr>tm_multi := f m\<rparr>) w)" for f
    by (rule steady_upd_mgr) (simp add: same_mgr_def)
  then show ?thesis
    by (auto simp: CalculateModifiedThreat_def Let_def split: option.splits intro!: ok_step_steady)
qed

lemma ok_AddThreat:
  assumes mem: "heap_members e"
  shows "ok_step e w (AddThreat e u g a s im ir w)"
proof -
  obtain a1 w1 where c: "(if \<not> im then CalculateModifiedThreat e a g s w else (a, w)) = (a1, w1)"
    by fastforce
  then have 1: "ok_step e w w1" using ok_Calculate [of e w a g s] by (auto split: if_splits)
  obtain a2 w2 where r: "(if \<not> ir \<and> a1 > 0 then redirect_loop e u s a1 (tm_redirect (tw_mgr w1 g)) a1 w1
      else (a1, w1)) = (a2, w2)" by fastforce
  then have "ok_step e w1 w2"
    using ok_redirect_loop [OF mem, of w1 u s a1 "tm_redirect (tw_mgr w1 g)" a1] by (auto split: if_splits)
  with 1 ok_apply_threat [OF mem] have full: "ok_step e w (apply_threat e u g a2 w2)"
    using ok_step_trans by blast
  obtain c b where cb: "te_set_combat e u g (tw_combat w) = (c, b)" by fastforce
  have "ok_step e (w\<lparr>tw_combat := c\<rparr>) (w\<lparr>tw_combat := combat_redirects e u rs c\<rparr>)" for rs
    using ok_combat_redirects [of e "w\<lparr>tw_combat := c\<rparr>" u rs] by simp
  then have "ok_step e w (w\<lparr>tw_combat := combat_redirects e u rs c\<rparr>)" for rs
    using ok_combat [OF cb] ok_step_trans by blast
  then show ?thesis using full ok_combat [OF cb] c r
    by (simp add: AddThreat_def cb Let_def)
qed

lemma ok_forward_loop: "heap_members e \<Longrightarrow> ok_step e w (forward_loop e g a s im os w)"
  by (induction e g a s im os w rule: forward_loop.induct) (auto intro: ok_step_trans ok_AddThreat)

lemma ok_Forward: "heap_members e \<Longrightarrow> ok_step e w (ForwardThreatForAssistingMe e u g a s im w)"
  by (auto simp: ForwardThreatForAssistingMe_def Let_def split: option.splits
      intro: ok_step_trans [OF ok_forward_loop ok_forward_loop] ok_forward_loop)

lemma ok_Match: "heap_members e \<Longrightarrow> ok_step e w (MatchUnitThreatToHighestThreat e u g w)"
  by (auto simp: MatchUnitThreatToHighestThreat_def Let_def split: list.splits intro: ok_AddThreat)

text \<open>Loops over the entries of a list: each step finds its reference alive.\<close>

lemma steady_loop:
  assumes "\<And>w. L [] w = w" "\<And>x es w. L (x # es) w = L es (L [x] w)"
    and one: "\<And>g i w r. tw_refs w i = Some r \<Longrightarrow> steady w (L [(g, i)] w)"
    and "\<forall>(g, i) \<in> set es. ends w i \<noteq> None"
  shows "steady w (L es w)"
  using assms(4)
proof (induction es arbitrary: w)
  case Nil
  then show ?case by (simp add: assms(1))
next
  case (Cons x rest)
  obtain g i where x: "x = (g, i)" by fastforce
  then obtain r where "tw_refs w i = Some r" using Cons.prems live_ends [of w i] by auto
  then have s: "steady w (L [x] w)" unfolding x by (rule one)
  then have "\<forall>(g, i) \<in> set rest. ends (L [x] w) i \<noteq> None"
    using Cons.prems by (auto simp: steady_def same_links_def)
  then have "steady (L [x] w) (L rest (L [x] w))" by (rule Cons.IH)
  then show ?case by (subst assms(2)) (rule steady_trans [OF s])
qed

lemma loops_combat [simp]:
  "tw_combat (reset_loop es w) = tw_combat w" "tw_combat (evaluate_loop e b es w) = tw_combat w"
  "tw_combat (taunt_loop e st es w) = tw_combat w" "tw_combat (temp_loop m b' es w) = tw_combat w"
proof -
  show "tw_combat (reset_loop es w) = tw_combat w" by (induction es w rule: reset_loop.induct) simp_all
  show "tw_combat (evaluate_loop e b es w) = tw_combat w"
    by (induction e b es w rule: evaluate_loop.induct) (auto simp: Let_def)
  show "tw_combat (taunt_loop e st es w) = tw_combat w"
    by (induction e st es w rule: taunt_loop.induct) (simp_all split: option.split)
  show "tw_combat (temp_loop m b' es w) = tw_combat w"
    by (induction m b' es w rule: temp_loop.induct) (simp_all add: Let_def)
qed

lemma steady_reset_loop: "\<forall>(g, i) \<in> set es. ends w i \<noteq> None \<Longrightarrow> steady w (reset_loop es w)"
  by (rule steady_loop [where L = reset_loop]) (auto intro: steady_ScaleThreat)

lemma steady_evaluate_loop:
  "\<forall>(g, i) \<in> set es. ends w i \<noteq> None \<Longrightarrow> steady w (evaluate_loop e b es w)"
  by (rule steady_loop [where L = "evaluate_loop e b"])
    (auto simp: Let_def tref_eq intro!: steady_then steady_write)

lemma steady_taunt_loop:
  "\<forall>(g, i) \<in> set es. ends w i \<noteq> None \<Longrightarrow> steady w (taunt_loop e st es w)"
  by (rule steady_loop [where L = "taunt_loop e st"]) (auto intro: steady_Taunt split: option.split)

lemma steady_temp_loop: "\<forall>(g, i) \<in> set es. ends w i \<noteq> None \<Longrightarrow> steady w (temp_loop m b es w)"
  by (rule steady_loop [where L = "temp_loop m b"])
    (auto simp: Let_def tref_eq intro!: steady_then steady_write)

lemma entries_my: "threat_inv w \<Longrightarrow> \<forall>(g, i) \<in> set (tm_my (tw_mgr w u)). ends w i \<noteq> None"
  and entries_by_me: "threat_inv w \<Longrightarrow> \<forall>(g, i) \<in> set (tm_by_me (tw_mgr w u)). ends w i \<noteq> None"
  by (auto simp: threat_inv_def links_my_in links_by_me_in)

lemma steady_Evaluate: "threat_inv w \<Longrightarrow> steady w (EvaluateSuppressed e u b w)"
  unfolding EvaluateSuppressed_def by (rule steady_evaluate_loop) (rule entries_by_me)

lemma steady_ResetAll: "threat_inv w \<Longrightarrow> steady w (ResetAllThreat u w)"
  unfolding ResetAllThreat_def by (rule steady_reset_loop) (rule entries_my)

lemma steady_TauntUpdate: "threat_inv w \<Longrightarrow> steady w (TauntUpdate e u w)"
proof -
  assume inv: "threat_inv w"
  let ?v = "taunt_loop e (taunt_states (tu_taunts (te_unit e u)) 0 []) (tm_my (tw_mgr w u)) w"
  have s: "steady w ?v" by (rule steady_taunt_loop [OF entries_my [OF inv]])
  then have "steady ?v (EvaluateSuppressed e u True ?v)" using steady_inv inv steady_Evaluate by blast
  with s show ?thesis by (auto simp: TauntUpdate_def Let_def intro: steady_trans)
qed

lemma steady_Temp: "threat_inv w \<Longrightarrow> steady w (UpdateMyTempModifiers e u w)"
  using steady_temp_loop [OF entries_by_me [of w u]]
  by (auto simp: UpdateMyTempModifiers_def Let_def simp del: temp_loop.simps split: list.splits)

lemma ok_step_inv: "(threat_inv w \<Longrightarrow> ok_step e w w') \<Longrightarrow> ok_step e w w'"
  by (auto simp: ok_step_def)

lemma ok_step_steady_inv:
  "(threat_inv w \<Longrightarrow> steady w w') \<Longrightarrow> tw_combat w' = tw_combat w \<Longrightarrow> ok_step e w w'"
  by (rule ok_step_inv) (rule ok_step_steady)

lemma combat_kept [simp]:
  "tw_combat (EvaluateSuppressed e u b w) = tw_combat w" "tw_combat (TauntUpdate e u w) = tw_combat w"
  "tw_combat (UpdateMyTempModifiers e u w) = tw_combat w" "tw_combat (ResetAllThreat u w) = tw_combat w"
  by (auto simp: EvaluateSuppressed_def TauntUpdate_def UpdateMyTempModifiers_def ResetAllThreat_def
      Let_def simp del: temp_loop.simps split: list.splits)

lemma ok_lists:
  "ok_step e w (EvaluateSuppressed e u b w)" "ok_step e w (TauntUpdate e u w)"
  "ok_step e w (UpdateMyTempModifiers e u w)" "ok_step e w (ResetAllThreat u w)"
  by (rule ok_step_steady_inv; simp add: steady_Evaluate steady_TauntUpdate steady_Temp
      steady_ResetAll)+

text \<open>The remaining operations.\<close>

lemma ok_scale_by:
  "ok_step e w (on_ref u g (\<lambda>i. Ref_AddThreat i a) w)" "ok_step e w (on_ref u g (\<lambda>i. Ref_ScaleThreat i a) w)"
  "ok_step e w (Threat_ScaleThreat u g a w)"
proof -
  have "steady w (on_ref u g f w)" if "threat_inv w" "\<And>i r. tw_refs w i = Some r \<Longrightarrow> steady w (f i w)" for f
  proof (cases "om_get (tm_my (tw_mgr w u)) g")
    case (Some i)
    then have "ends w i = Some (u, g)" using that(1) by (simp add: threat_inv_def links_my)
    then obtain r where "tw_refs w i = Some r" using ends_live by blast
    then show ?thesis using Some that(2) by (simp add: on_ref_def)
  qed (simp add: on_ref_def)
  note st = this
  show "ok_step e w (on_ref u g (\<lambda>i. Ref_AddThreat i a) w)"
    by (rule ok_step_steady_inv, erule st, erule steady_AddThreat) (simp add: on_ref_def split: option.split)
  have s: "ok_step e w (on_ref u g (\<lambda>i. Ref_ScaleThreat i a) w)" for a
    by (rule ok_step_steady_inv, erule st, erule steady_ScaleThreat) (simp add: on_ref_def split: option.split)
  show "ok_step e w (on_ref u g (\<lambda>i. Ref_ScaleThreat i a) w)" by (rule s)
  show "ok_step e w (Threat_ScaleThreat u g a w)"
    using s [of "max a 0"] by (simp add: Threat_ScaleThreat_def on_ref_def)
qed

lemma ok_GetCurrentVictim:
  assumes mem: "heap_members e"
  shows "ok_step e w (snd (GetCurrentVictim e u w))"
proof (rule ok_step_inv)
  assume inv: "threat_inv w"
  let ?w1 = "case tm_current (tw_mgr w u) of None \<Rightarrow> UpdateVictim e u w
    | Some i \<Rightarrow> if ShouldBeOffline e (tref w i) then UpdateVictim e u w else w"
  have s: "ok_step e w ?w1" using ok_UpdateVictim [OF mem] by (auto split: option.split)
  then have i1: "threat_inv ?w1" using inv by (simp add: ok_step_def)
  have "IsAvailable (tref ?w1 i)" if "tm_current (tw_mgr ?w1 u) = Some i" for i
    using i1 that available_tref unfolding threat_inv_def victim_ok_def by blast
  then have "tw_asserts ?w1 \<Longrightarrow> snd (GetCurrentVictim e u w) = ?w1"
    by (auto simp: GetCurrentVictim_def Let_def split: option.split)
  then show "ok_step e w (snd (GetCurrentVictim e u w))" using s i1 by (simp add: threat_inv_def)
qed

lemma ok_Update: "heap_members e \<Longrightarrow> ok_step e w (Threat_Update e u d w)"
proof -
  assume mem: "heap_members e"
  have m: "steady w (upd_mgr u (\<lambda>m. m\<lparr>tm_timer := tm_timer m - d\<rparr>) w)"
    "\<And>w. steady w (upd_mgr u (\<lambda>m. m\<lparr>tm_need_clear := False\<rparr>) w)"
    by (rule steady_upd_mgr; simp add: same_mgr_def)+
  let ?w1 = "if tm_need_clear (tw_mgr w u)
    then upd_mgr u (\<lambda>m. m\<lparr>tm_need_clear := False\<rparr>) (SendClearAllThreatToClients e u w) else w"
  have "steady w ?w1" by (auto intro: steady_trans [OF steady_small(6) m(2)])
  then have "ok_step e w ?w1" by (simp add: ok_step_steady)
  also have "ok_step e ?w1 (if \<not> IsThreatListEmpty ?w1 u True then UpdateVictim e u ?w1 else ?w1)"
    using ok_UpdateVictim [OF mem] by simp
  also have "ok_step e v (ResetUpdateTimer u v)" for v
    by (rule ok_step_steady) (simp, simp add: ResetUpdateTimer_def)
  finally show ?thesis using m(1) by (auto simp: Threat_Update_def Let_def intro: ok_step_steady)
qed


subsection \<open>Redirections\<close>

definition shares :: "(guid \<times> u32) list \<Rightarrow> nat" where
  "shares info = sum_list (map (unat \<circ> snd) info)"

definition info_ok :: "(guid \<times> u32) list \<times> u32 \<times> bool \<Rightarrow> bool" where
  "info_ok s \<longleftrightarrow> (case s of (info, totalPct, ok) \<Rightarrow>
     ok \<and> totalPct \<le> 100 \<and> shares info = unat totalPct \<and> (\<forall>(g, p) \<in> set info. p > 0))"

lemma redirect_share:
  assumes "totalPct \<le> (100 :: u32)"
  shows "totalPct + min (100 - totalPct) pct \<le> 100"
    and "unat (totalPct + min (100 - totalPct) pct) = unat totalPct + unat (min (100 - totalPct) pct)"
proof -
  have t: "unat totalPct \<le> 100" using assms by (simp add: word_le_nat_alt)
  have d: "unat (100 - totalPct) = 100 - unat totalPct" using unat_sub [OF assms] by simp
  have "unat (min (100 - totalPct) pct) \<le> 100 - unat totalPct"
    by (metis d min.cobounded1 word_le_nat_alt)
  then have le: "unat totalPct + unat (min (100 - totalPct) pct) \<le> 100" using t by simp
  then show sum: "unat (totalPct + min (100 - totalPct) pct) = unat totalPct + unat (min (100 - totalPct) pct)"
    by (intro unat_add_lem [THEN iffD1] order.strict_trans1 [OF le]) simp
  show "totalPct + min (100 - totalPct) pct \<le> 100" using le by (simp add: word_le_nat_alt sum)
qed

lemma redirect_victims_ok: "info_ok s \<Longrightarrow> info_ok (redirect_victims es s)"
proof (induction es s rule: redirect_victims.induct)
  case (2 victim pct rest info totalPct ok)
  have le: "totalPct \<le> 100" using 2(3) by (simp add: info_ok_def)
  note sh = redirect_share [OF le, of pct]
  have "info_ok (info @ [(victim, min (100 - totalPct) pct)], totalPct + min (100 - totalPct) pct,
      ok \<and> totalPct + min (100 - totalPct) pct \<le> 100)" if "min (100 - totalPct) pct > 0"
    using 2(3) that sh by (auto simp: info_ok_def shares_def)
  then show ?case using 2 by (auto simp: Let_def)
qed simp

lemma redirect_spells_ok: "info_ok s \<Longrightarrow> info_ok (redirect_spells es s)"
  by (induction es s rule: redirect_spells.induct) (auto simp: Let_def redirect_victims_ok)

lemma UpdateRedirect_steady: "steady w (UpdateRedirectInfo u w)"
proof -
  obtain info t ok where s: "redirect_spells (tm_registry (tw_mgr w u)) ([], 0, True) = (info, t, ok)"
    by (metis prod_cases3)
  have "info_ok ([], 0, True)" by (simp add: info_ok_def shares_def)
  from redirect_spells_ok [OF this, of "tm_registry (tw_mgr w u)"] have ok by (simp add: s info_ok_def)
  moreover have "steady w (upd_mgr u (\<lambda>m. m\<lparr>tm_redirect := info\<rparr>) w)"
    by (rule steady_upd_mgr) (simp add: same_mgr_def)
  ultimately show ?thesis by (simp add: UpdateRedirectInfo_def s)
qed

lemma UpdateRedirect_combat [simp]: "tw_combat (UpdateRedirectInfo u w) = tw_combat w"
  by (simp add: UpdateRedirectInfo_def split: prod.split)

lemma steady_registry:
  "steady w (UpdateRedirectInfo u (upd_mgr u (\<lambda>m. m\<lparr>tm_registry := f m\<rparr>) w))"
  by (rule steady_trans [OF steady_upd_mgr UpdateRedirect_steady]) (simp add: same_mgr_def)

lemma ok_redirects:
  "ok_step e w (RegisterRedirectThreat u s v p w)" "ok_step e w (UnregisterRedirectThreat u s w)"
  "ok_step e w (UnregisterRedirectThreat_victim u s v w)"
  by (auto simp: RegisterRedirectThreat_def UnregisterRedirectThreat_def
      UnregisterRedirectThreat_victim_def steady_registry intro!: ok_step_steady split: option.split)

lemma ok_Fixate: "ok_step e w (FixateTarget u t w)"
proof (rule ok_stepI)
  assume inv: "threat_inv w"
  let ?w = "FixateTarget u t w"
  have e: "ends ?w = ends w" by (simp add: FixateTarget_def)
  have "links_ok ?w = links_ok w" by (rule links_ok_cong) (simp_all add: FixateTarget_def)
  moreover have "fixes_ok ?w"
    using inv by (auto simp: fixes_ok_def FixateTarget_def threat_inv_def links_my owned_def split: option.splits)
  moreover have "victim_ok ?w v = victim_ok w v" for v
    by (simp add: victim_ok_def owned_def available_def FixateTarget_def)
  ultimately show "threat_inv ?w \<and> tw_combat ?w = tw_combat w
      \<and> (\<forall>i p. ends ?w i = Some p \<longrightarrow> ends w i = Some p)"
    using inv e by (simp add: threat_inv_def) (simp add: FixateTarget_def)
qed

lemma threat_step_ok:
  assumes "heap_members e"
  shows "ok_step e w (threat_step w (e, a))"
proof (cases a)
  case (OpModifyThreatByPercent u g p)
  then show ?thesis using ok_scale_by(3) by (auto simp: ModifyThreatByPercent_def)
next
  case (OpInitialize u)
  then show ?thesis by (intro ok_step_steady) (simp, simp add: Threat_Initialize_def)
next
  case (OpResetUpdateTimer u)
  then show ?thesis by (intro ok_step_steady) (simp, simp add: ResetUpdateTimer_def)
next
  case (OpUpdateMySpellSchoolModifiers u)
  then show ?thesis by (intro ok_step_steady) (simp, simp add: UpdateMySpellSchoolModifiers_def)
qed (simp_all add: assms ok_Update ok_GetCurrentVictim ok_lists ok_AddThreat ok_scale_by ok_Match
    ok_ClearThreat ok_ClearAll ok_Fixate ok_Forward ok_RemoveMe ok_redirects)

end
