(* ===== verification/Threat_Heap.thy ===== *)
theory Threat_Heap
  imports Threat_Inv
begin

text \<open>
  The heap of the threat manager: which operations report every change of a key in the right
  direction, so that the library's promise about \<^verbatim>\<open>top\<close> and the ordered iteration holds, and what
  \<^verbatim>\<open>ReselectVictim\<close> then chooses.
\<close>

section \<open>Directions of the notifications\<close>

definition base_ok :: "'c threat_world \<Rightarrow> bool" where
  "base_ok w \<longleftrightarrow> (\<forall>i r. tw_refs w i = Some r \<longrightarrow> 0 \<le> tr_base r)"

definition calm :: "'c threat_world \<Rightarrow> 'c threat_world \<Rightarrow> bool" where
  "calm w w' \<longleftrightarrow> (base_ok w \<longrightarrow> base_ok w' \<and> tw_heap_ok w' = tw_heap_ok w)"

lemma calm_refl [simp, intro]: "calm w w"
  by (simp add: calm_def)

lemma calm_trans [trans]: "calm a b \<Longrightarrow> calm b c \<Longrightarrow> calm a c"
  by (simp add: calm_def)

lemma calm_same: "tw_refs w' = tw_refs w \<Longrightarrow> tw_heap_ok w' = tw_heap_ok w \<Longrightarrow> calm w w'"
  by (simp add: calm_def base_ok_def)

lemma notify_ok:
  "\<not> CompareReferencesLT (tref w i) old 1 \<Longrightarrow> tw_heap_ok (HeapNotifyIncreased old i w) = tw_heap_ok w"
  "\<not> CompareReferencesLT old (tref w i) 1 \<Longrightarrow> tw_heap_ok (HeapNotifyDecreased old i w) = tw_heap_ok w"
  by (auto simp: HeapNotifyIncreased_def HeapNotifyDecreased_def Let_def fun_eq_iff)

lemma calm_change:
  assumes "tw_refs w i = Some r" "0 \<le> tr_base r \<Longrightarrow> 0 \<le> tr_base r'"
  shows "(0 \<le> tr_base r \<Longrightarrow> \<not> CompareReferencesLT r' r 1) \<Longrightarrow> calm w (HeapNotifyIncreased r i (write_tref i r' w))"
    and "(0 \<le> tr_base r \<Longrightarrow> \<not> CompareReferencesLT r r' 1) \<Longrightarrow> calm w (HeapNotifyDecreased r i (write_tref i r' w))"
  using assms by (auto simp: calm_def base_ok_def notify_ok)

lemma calm_then:
  "calm w v \<Longrightarrow> calm w (need_client_update u v)" "calm w v \<Longrightarrow> calm w (RegisterForAIUpdate u g v)"
  "calm w v \<Longrightarrow> calm w (SendRemoveToClients e u g v)"
  by (erule calm_trans, rule calm_same, simp, simp)+

lemma base_order:
  "CompareReferencesLT (r\<lparr>tr_base := x\<rparr>) (r\<lparr>tr_base := y\<rparr>) 1 \<Longrightarrow> x < y"
  by (auto simp: CompareLT_iff GetThreat_def max_def split: if_splits)

lemma base_order':
  "CompareReferencesLT (r\<lparr>tr_base := x\<rparr>) r 1 \<Longrightarrow> x < tr_base r"
  "CompareReferencesLT r (r\<lparr>tr_base := x\<rparr>) 1 \<Longrightarrow> tr_base r < x"
  using base_order [where r = r and x = x and y = "tr_base r"] base_order [where r = r and x = "tr_base r" and y = x] by simp_all

lemma online_order:
  "a \<le> tr_online r \<Longrightarrow> \<not> CompareReferencesLT r (r\<lparr>tr_online := a\<rparr>) 1"
  "tr_online r \<le> a \<Longrightarrow> \<not> CompareReferencesLT (r\<lparr>tr_online := a\<rparr>) r 1"
  by (auto simp: CompareLT_iff GetThreat_def)

lemma online_bounds [simp]: "ONLINE_STATE_OFFLINE \<le> a" "a \<le> ONLINE_STATE_ONLINE"
  by (cases a; simp add: online_le_iff)+

lemma IsOffline_iff: "IsOffline r \<longleftrightarrow> tr_online r = ONLINE_STATE_OFFLINE"
  by (cases "tr_online r") (simp_all add: IsOffline_def online_le_iff)

lemma IsOnline_iff: "IsOnline r \<longleftrightarrow> tr_online r = ONLINE_STATE_ONLINE"
  by (cases "tr_online r") (simp_all add: IsOnline_def online_le_iff)

lemma calm_AddThreat:
  assumes r: "tw_refs w i = Some r"
  shows "calm w (Ref_AddThreat i a w)"
proof -
  have "\<not> CompareReferencesLT (r\<lparr>tr_base := max (tr_base r + a) 0\<rparr>) r 1" if "a > 0"
    using that by (auto dest: base_order'(1))
  moreover have "\<not> CompareReferencesLT r (r\<lparr>tr_base := max (tr_base r + a) 0\<rparr>) 1" if "\<not> a > 0" "0 \<le> tr_base r"
    using that by (auto dest: base_order'(2))
  ultimately show ?thesis using r
    by (auto simp: Ref_AddThreat_def Let_def tref_eq intro!: calm_then calm_change)
qed

lemma calm_ScaleThreat:
  assumes r: "tw_refs w i = Some r" and f: "0 \<le> f"
  shows "calm w (Ref_ScaleThreat i f w)"
proof -
  have "\<not> CompareReferencesLT (r\<lparr>tr_base := tr_base r * f\<rparr>) r 1" if "f > 1" "0 \<le> tr_base r"
  proof
    assume "CompareReferencesLT (r\<lparr>tr_base := tr_base r * f\<rparr>) r 1"
    then have "tr_base r * f < tr_base r * 1" using base_order'(1) by simp
    moreover have "tr_base r * 1 \<le> tr_base r * f" using that by (intro mult_left_mono) simp_all
    ultimately show False by simp
  qed
  moreover have "\<not> CompareReferencesLT r (r\<lparr>tr_base := tr_base r * f\<rparr>) 1" if "\<not> f > 1" "0 \<le> tr_base r"
  proof
    assume "CompareReferencesLT r (r\<lparr>tr_base := tr_base r * f\<rparr>) 1"
    then have "tr_base r * 1 < tr_base r * f" using base_order'(2) by simp
    moreover have "tr_base r * f \<le> tr_base r * 1" using that by (intro mult_left_mono) simp_all
    ultimately show False by simp
  qed
  ultimately show ?thesis using r f
    by (auto simp: Ref_ScaleThreat_def Let_def tref_eq intro!: calm_then calm_change)
qed

lemma calm_UpdateOffline: "tw_refs w i = Some r \<Longrightarrow> calm w (UpdateOffline e i w)"
  by (auto simp: UpdateOffline_def Let_def tref_eq IsOffline_iff online_order intro!: calm_then calm_change)

lemma calm_Taunt: "tw_refs w i = Some r \<Longrightarrow> calm w (UpdateTauntState e i s w)"
proof -
  assume r: "tw_refs w i = Some r"
  have "x < tr_taunted r \<Longrightarrow> \<not> CompareReferencesLT r (r\<lparr>tr_taunted := x\<rparr>) 1"
    "\<not> x < tr_taunted r \<Longrightarrow> \<not> CompareReferencesLT (r\<lparr>tr_taunted := x\<rparr>) r 1" for x
    by (auto simp: CompareLT_iff GetThreat_def)
  then show ?thesis using r
    by (auto simp: UpdateTauntState_def Let_def tref_eq intro!: calm_then calm_change)
qed

lemma calm_loop:
  assumes "\<And>w. L [] w = w" "\<And>x es w. L (x # es) w = L es (L [x] w)"
    and one: "\<And>g i w r. tw_refs w i = Some r \<Longrightarrow> same_links w (L [(g, i)] w) \<and> calm w (L [(g, i)] w)"
    and "\<forall>(g, i) \<in> set es. ends w i \<noteq> None"
  shows "calm w (L es w)"
  using assms(4)
proof (induction es arbitrary: w)
  case Nil
  then show ?case by (simp add: assms(1))
next
  case (Cons x rest)
  obtain g i where x: "x = (g, i)" by fastforce
  then obtain r where "tw_refs w i = Some r" using Cons.prems live_ends [of w i] by auto
  then have s: "same_links w (L [x] w)" "calm w (L [x] w)" unfolding x using one by blast+
  then have "\<forall>(g, i) \<in> set rest. ends (L [x] w) i \<noteq> None" using Cons.prems by (auto simp: same_links_def)
  then have "calm (L [x] w) (L rest (L [x] w))" by (rule Cons.IH)
  then show ?case by (subst assms(2)) (rule calm_trans [OF s(2)])
qed

lemma calm_offline_loop: "\<forall>(g, i) \<in> set es. ends w i \<noteq> None \<Longrightarrow> calm w (update_offline_loop e es w)"
  by (rule calm_loop [where L = "update_offline_loop e"])
    (auto intro: UpdateOffline_refs(3) calm_UpdateOffline)

text \<open>Taking references on and off line is always told in the right direction, also when the
  threat of a reference is negative.\<close>

lemma told_UpdateOffline: "tw_refs w i = Some r \<Longrightarrow> tw_heap_ok (UpdateOffline e i w) = tw_heap_ok w"
  by (auto simp: UpdateOffline_def Let_def tref_eq IsOffline_iff online_order notify_ok)

lemma told_offline_loop:
  "\<forall>(g, i) \<in> set es. ends w i \<noteq> None \<Longrightarrow> tw_heap_ok (update_offline_loop e es w) = tw_heap_ok w"
proof (induction es arbitrary: w)
  case (Cons x es)
  obtain g i where x: "x = (g, i)" by fastforce
  then obtain r where r: "tw_refs w i = Some r" using Cons.prems live_ends [of w i] by auto
  have "same_links w (UpdateOffline e i w)" using UpdateOffline_refs(3) [OF r] .
  then have "\<forall>(h, j) \<in> set es. ends (UpdateOffline e i w) j \<noteq> None"
    using Cons.prems by (auto simp: same_links_def)
  from Cons.IH [OF this] show ?case using x told_UpdateOffline [OF r] by simp
qed simp

lemma calm_reset_loop: "\<forall>(g, i) \<in> set es. ends w i \<noteq> None \<Longrightarrow> calm w (reset_loop es w)"
  by (rule calm_loop [where L = reset_loop])
    (auto intro: steady_quiet steady_ScaleThreat calm_ScaleThreat)

lemma calm_taunt_loop: "\<forall>(g, i) \<in> set es. ends w i \<noteq> None \<Longrightarrow> calm w (taunt_loop e st es w)"
  by (rule calm_loop [where L = "taunt_loop e st"])
    (auto intro: steady_quiet steady_Taunt calm_Taunt split: option.split)

lemma calm_evaluate_loop:
  fixes w :: "'c threat_world"
  shows "\<forall>(g, i) \<in> set es. ends w i \<noteq> None \<Longrightarrow> calm w (evaluate_loop e b es w)"
proof (rule calm_loop [where L = "evaluate_loop e b"])
  fix g :: guid and i and w :: "'c threat_world" and r
  assume r: "tw_refs w i = Some r"
  then have "\<forall>(g, i) \<in> set [(g, i)]. ends w i \<noteq> None" by (simp add: ends_def)
  then have "same_links w (evaluate_loop e b [(g, i)] w)" by (rule steady_quiet [OF steady_evaluate_loop])
  moreover have "calm w (evaluate_loop e b [(g, i)] w)"
    using r by (auto simp: Let_def tref_eq IsOnline_iff online_order intro!: calm_change)
  ultimately show "same_links w (evaluate_loop e b [(g, i)] w) \<and> calm w (evaluate_loop e b [(g, i)] w)" by blast
next
  fix x es and w :: "'c threat_world"
  show "evaluate_loop e b (x # es) w = evaluate_loop e b es (evaluate_loop e b [x] w)"
    by (cases x) (simp add: Let_def)
qed simp_all

section \<open>Operations\<close>

text \<open>Steps of a world that satisfies the invariant.\<close>

definition calm_step :: "'c threat_env \<Rightarrow> 'c threat_world \<Rightarrow> 'c threat_world \<Rightarrow> bool" where
  "calm_step e w w' \<longleftrightarrow> (threat_inv w \<longrightarrow> ok_step e w w' \<and> calm w w')"

lemma calm_step_refl [simp, intro]: "calm_step e w w"
  by (simp add: calm_step_def)

lemma calm_step_trans [trans]: "calm_step e a b \<Longrightarrow> calm_step e b c \<Longrightarrow> calm_step e a c"
  unfolding calm_step_def by (metis calm_trans ok_step_def ok_step_trans)

lemma calm_stepI: "ok_step e w w' \<Longrightarrow> (threat_inv w \<Longrightarrow> calm w w') \<Longrightarrow> calm_step e w w'"
  by (simp add: calm_step_def)

lemma live_of: "threat_inv w \<Longrightarrow> om_get (tm_my (tw_mgr w u)) g = Some i \<Longrightarrow> \<exists>r. tw_refs w i = Some r"
  by (metis ends_live links_my threat_inv_def)

lemma Reselect_calm:
  assumes "threat_inv w"
  shows "calm w (snd (ReselectVictim e u w))"
proof -
  have "calm w (update_offline_loop e (tm_my (tw_mgr w u)) w)"
    by (rule calm_offline_loop) (rule entries_my [OF assms])
  then show ?thesis
    by (auto simp: ReselectVictim_def Let_def split: prod.splits intro: calm_trans [OF _ calm_same])
qed

lemma Reselect_told:
  "threat_inv w \<Longrightarrow> tw_heap_ok (snd (ReselectVictim e u w)) = tw_heap_ok w"
  using told_offline_loop [OF entries_my]
  by (auto simp: ReselectVictim_def Let_def split: prod.splits)

lemma calm_UpdateVictim:
  assumes "heap_members e"
  shows "calm_step e w (UpdateVictim e u w)"
proof (rule calm_stepI [OF ok_UpdateVictim [OF assms]])
  assume "threat_inv w"
  then have "calm w (snd (ReselectVictim e u w))" by (rule Reselect_calm)
  then show "calm w (UpdateVictim e u w)"
    by (auto simp: UpdateVictim_settle split: prod.splits intro: calm_trans [OF _ calm_same])
qed

lemma calm_Unregister:
  assumes "threat_inv w" "ends w i = Some (u, g)"
  shows "calm w (UnregisterAndFree i w)"
proof -
  have "links_ok w" using assms(1) by (simp add: threat_inv_def)
  note f = Unregister_fields [OF this assms(2)]
  show ?thesis using f(10,11) by (simp add: calm_def base_ok_def)
qed

lemma calm_ClearThreat:
  assumes mem: "heap_members e"
  shows "calm_step e w (ClearThreat e u g w)"
proof (rule calm_stepI [OF ok_ClearThreat [OF mem]])
  assume inv: "threat_inv w"
  show "calm w (ClearThreat e u g w)"
  proof (cases "om_get (tm_my (tw_mgr w u)) g")
    case (Some i)
    let ?s = "SendRemoveToClients e u (tr_victim (tref w i)) w"
    have i: "ends w i = Some (u, g)" using Some inv by (simp add: threat_inv_def links_my)
    have s: "threat_inv ?s" "ends ?s i = Some (u, g)" using steady_inv [OF steady_small(7) inv] i by simp_all
    note n = Unregister_inv [OF s]
    have "calm w ?s" by (rule calm_same) simp_all
    also have "calm ?s (UnregisterAndFree i ?s)" by (rule calm_Unregister [OF s])
    also have "calm (UnregisterAndFree i ?s) (UpdateVictim e u (UnregisterAndFree i ?s))"
      using calm_UpdateVictim [OF mem] n by (simp add: calm_step_def)
    finally show ?thesis using Some calm_trans [OF \<open>calm w ?s\<close> calm_Unregister [OF s]]
      by (simp add: ClearThreat_def ClearThreat_ref_def Let_def)
  qed (simp add: ClearThreat_def)
qed

lemma calm_RemoveMe: "heap_members e \<Longrightarrow> calm_step e w (RemoveMeFromThreatLists e u f w)"
proof -
  assume mem: "heap_members e"
  have "calm_step e w (remove_me_loop e u is w)" for "is" w
    by (induction "is" arbitrary: w) (auto intro: calm_step_trans [OF calm_ClearThreat [OF mem]])
  then show ?thesis by (simp add: RemoveMeFromThreatLists_def)
qed

lemma calm_clear_all: "threat_inv w \<Longrightarrow> calm w (clear_all_loop n u w)"
proof (induction n u w rule: clear_all_loop.induct)
  case (2 n u w)
  show ?case
  proof (cases "tm_my (tw_mgr w u)")
    case (Cons x rest)
    obtain g i where x: "x = (g, i)" by fastforce
    then have i: "ends w i = Some (u, g)"
      using Cons links_my_in [of w g i u] 2(2) by (simp add: threat_inv_def)
    with Cons x 2(1) [OF Cons x [symmetric] Unregister_inv [OF 2(2) i]] show ?thesis
      using calm_Unregister [OF 2(2) i] by (auto intro: calm_trans)
  qed simp
qed simp

lemma calm_ClearAll: "calm_step e w (ClearAllThreat u w)"
proof (rule calm_stepI [OF ok_ClearAll])
  assume inv: "threat_inv w"
  let ?w = "upd_mgr u (\<lambda>m. m\<lparr>tm_need_clear := True\<rparr>) w"
  have "steady w ?w" by (rule steady_upd_mgr) (simp add: same_mgr_def)
  then have "calm ?w (clear_all_loop n u ?w)" for n using calm_clear_all steady_inv inv by blast
  moreover have "calm w ?w" by (rule calm_same) simp_all
  ultimately show "calm w (ClearAllThreat u w)"
    by (auto simp: ClearAllThreat_def simp del: clear_all_loop.simps intro: calm_trans)
qed

lemma calm_existing:
  assumes r: "tw_refs w i = Some r"
  shows "calm w (if Ref_IsSuppressed r \<and> b
     then HeapNotifyIncreased r i (write_tref i (r\<lparr>tr_online := ONLINE_STATE_ONLINE\<rparr>) w) else w)"
  using r by (auto intro!: calm_change simp: online_order)

lemma calm_apply_threat:
  assumes mem: "heap_members e"
  shows "calm_step e w (apply_threat e u target amount w)"
proof (rule calm_stepI [OF ok_apply_threat [OF mem]])
  assume inv: "threat_inv w"
  obtain c b where cb: "te_set_combat e u target (tw_combat w) = (c, b)" by fastforce
  let ?w1 = "w\<lparr>tw_combat := c\<rparr>"
  have c1: "calm w ?w1" by (rule calm_same) simp_all
  have inv1: "threat_inv ?w1" using inv by simp
  have add: "calm v (if q then Ref_AddThreat i amount v else v)" if "\<exists>r. tw_refs v i = Some r" for v i q
    using that calm_AddThreat by auto
  show "calm w (apply_threat e u target amount w)"
  proof (cases "b \<and> om_get (tm_my (tw_mgr ?w1 u)) target \<noteq> None")
    case True
    then obtain i where i: "om_get (tm_my (tw_mgr ?w1 u)) target = Some i" by blast
    with live_of inv1 obtain r where r: "tw_refs ?w1 i = Some r" by metis
    let ?w2 = "if Ref_IsSuppressed r \<and> \<not> ShouldBeSuppressed e r
      then HeapNotifyIncreased r i (write_tref i (r\<lparr>tr_online := ONLINE_STATE_ONLINE\<rparr>) ?w1) else ?w1"
    have eq: "apply_threat e u target amount w
        = (if IsOnline (tref ?w2 i) then Ref_AddThreat i amount ?w2 else ?w2)"
      using cb True i r by (simp add: apply_threat_def Let_def tref_eq)
    have "\<exists>r'. tw_refs ?w2 i = Some r'" using r by simp
    from calm_trans [OF calm_trans [OF c1 calm_existing [OF r]] add [OF this]] show ?thesis
      unfolding eq .
  next
    case no: False
    show ?thesis
    proof (cases b)
      case False
      with cb c1 show ?thesis by (simp add: apply_threat_def)
    next
      case b: True
      with no have None: "om_get (tm_my (tw_mgr ?w1 u)) target = None" by simp
      let ?w2 = "snd (register_tref u target ?w1)" and ?i = "tw_next w"
      note f = tregister_fields [of u target ?w1]
      let ?w3 = "UpdateOffline e ?i ?w2"
      let ?w4 = "if IsOnline (tref ?w3 ?i) then Ref_AddThreat ?i amount ?w3 else ?w3"
      have eq: "apply_threat e u target amount w = (if tm_current (tw_mgr ?w4 u) = None
          then UpdateVictim e u ?w4 else ProcessAIUpdates e u ?w4)"
        using cb b None f(1) by (auto simp: apply_threat_def Let_def split_beta)
      have r: "tw_refs ?w2 ?i = Some (new_tref u target)" using f(2) by simp
      have "calm w ?w2" using f(2,5) by (auto simp: calm_def base_ok_def new_tref_def)
      also have "calm ?w2 ?w3" by (rule calm_UpdateOffline [OF r])
      also have "calm ?w3 ?w4" by (rule add) (simp add: UpdateOffline_refs(1) [OF r])
      finally have c4: "calm w ?w4" .
      have inv2: "threat_inv ?w2" by (rule register_inv [OF inv1 None])
      have nc: "tm_current (tw_mgr ?w2 v) \<noteq> Some ?i" for v
        using current_not_fresh [OF inv] f(9) by simp
      have inv3: "threat_inv ?w3" by (rule UpdateOffline_inv [OF inv2 r nc])
      have inv4: "threat_inv ?w4"
        using inv3 steady_inv [OF steady_AddThreat [of ?w3 ?i "evaluated e (new_tref u target)"]]
        by (simp add: UpdateOffline_refs(1) [OF r])
      have "calm ?w4 (UpdateVictim e u ?w4)"
        using calm_UpdateVictim [OF mem] inv4 unfolding calm_step_def by blast
      moreover have "calm ?w4 (ProcessAIUpdates e u ?w4)" by (rule calm_same) simp_all
      ultimately show ?thesis unfolding eq using calm_trans [OF c4] by (simp del: if_split_asm)
    qed
  qed
qed

lemma calm_redirect_loop:
  assumes mem: "heap_members e"
  shows "calm_step e w (snd (redirect_loop e u s orig rs a w))"
proof (induction rs arbitrary: a w)
  case (Cons x rest)
  have "calm_step e w (AddThreat_redirected e u g b s w)" for g b
    by (simp add: AddThreat_redirected_def calm_apply_threat [OF mem])
  then have "calm_step e w (snd (redirect_loop e u s orig rest c (AddThreat_redirected e u g b s w)))" for c g b
    using Cons calm_step_trans by blast
  with Cons show ?case by (cases x) (simp add: Let_def split: option.split)
qed simp

lemma calm_AddThreat_mgr:
  assumes mem: "heap_members e"
  shows "calm_step e w (AddThreat e u g a s im ir w)"
proof -
  obtain a1 w1 where c: "(if \<not> im then CalculateModifiedThreat e a g s w else (a, w)) = (a1, w1)"
    by fastforce
  have cm: "calm_step e w (snd (CalculateModifiedThreat e a g s w))"
    by (rule calm_stepI [OF ok_Calculate])
      (auto simp: CalculateModifiedThreat_def Let_def split: option.splits intro: calm_same)
  then have 1: "calm_step e w w1" using c by (auto split: if_splits)
  obtain a2 w2 where r: "(if \<not> ir \<and> a1 > 0 then redirect_loop e u s a1 (tm_redirect (tw_mgr w1 g)) a1 w1
      else (a1, w1)) = (a2, w2)" by fastforce
  then have "calm_step e w1 w2"
    using calm_redirect_loop [OF mem, of w1 u s a1 "tm_redirect (tw_mgr w1 g)" a1] by (auto split: if_splits)
  with 1 calm_apply_threat [OF mem] have full: "calm_step e w (apply_threat e u g a2 w2)"
    using calm_step_trans by blast
  have "calm w (AddThreat e u g a s im ir w)" if "\<not> tm_can (tw_mgr w u)"
    using that by (auto simp: AddThreat_def split: prod.split intro: calm_same)
  then show ?thesis
    using full c r by (intro calm_stepI [OF ok_AddThreat [OF mem]])
      (cases "tm_can (tw_mgr w u)"; simp add: AddThreat_def Let_def calm_step_def)
qed

lemma calm_Forward: "heap_members e \<Longrightarrow> calm_step e w (ForwardThreatForAssistingMe e u g a s im w)"
proof -
  assume mem: "heap_members e"
  have f: "calm_step e w (forward_loop e g a s im os w)" for a s im os w
    by (induction os arbitrary: w) (auto intro: calm_step_trans [OF calm_AddThreat_mgr [OF mem]])
  have "calm_step e w (forward_loop e g a' s True os' (forward_loop e g a s im os w))" for a a' s im os os'
    using f calm_step_trans by blast
  then show ?thesis using f by (auto simp: ForwardThreatForAssistingMe_def Let_def split: option.splits)
qed

lemma calm_Match: "heap_members e \<Longrightarrow> calm_step e w (MatchUnitThreatToHighestThreat e u g w)"
  by (auto simp: MatchUnitThreatToHighestThreat_def Let_def split: list.splits intro: calm_AddThreat_mgr)

lemma calm_Evaluate: "calm_step e w (EvaluateSuppressed e u b w)"
  by (rule calm_stepI [OF ok_lists(1)], unfold EvaluateSuppressed_def)
    (rule calm_evaluate_loop, rule entries_by_me)

lemma calm_TauntUpdate: "calm_step e w (TauntUpdate e u w)"
proof -
  let ?v = "taunt_loop e (taunt_states (tu_taunts (te_unit e u)) 0 []) (tm_my (tw_mgr w u)) w"
  have "calm_step e w ?v" unfolding calm_step_def
    by (intro impI conjI ok_step_steady calm_taunt_loop steady_taunt_loop entries_my) simp_all
  then show ?thesis unfolding TauntUpdate_def Let_def by (rule calm_step_trans [OF _ calm_Evaluate])
qed

lemma calm_ResetAll: "calm_step e w (ResetAllThreat u w)"
  by (rule calm_stepI [OF ok_lists(4)], unfold ResetAllThreat_def)
    (rule calm_reset_loop, rule entries_my)

lemma calm_scale:
  "calm_step e w (on_ref u g (\<lambda>i. Ref_AddThreat i a) w)"
  "0 \<le> f \<Longrightarrow> calm_step e w (on_ref u g (\<lambda>i. Ref_ScaleThreat i f) w)"
  "calm_step e w (Threat_ScaleThreat u g x w)"
proof -
  show "calm_step e w (on_ref u g (\<lambda>i. Ref_AddThreat i a) w)"
    by (rule calm_stepI [OF ok_scale_by(1)])
      (auto simp: on_ref_def split: option.split dest!: live_of intro: calm_AddThreat)
  show s: "calm_step e w (on_ref u g (\<lambda>i. Ref_ScaleThreat i f) w)" if "0 \<le> f" for f
    by (rule calm_stepI [OF ok_scale_by(2)])
      (use that in \<open>auto simp: on_ref_def split: option.split dest!: live_of intro: calm_ScaleThreat\<close>)
  show "calm_step e w (Threat_ScaleThreat u g x w)"
    using s [of "max x 0"] by (simp add: Threat_ScaleThreat_def on_ref_def)
qed

lemma calm_GetCurrentVictim: "heap_members e \<Longrightarrow> calm_step e w (snd (GetCurrentVictim e u w))"
proof (rule calm_stepI [OF ok_GetCurrentVictim])
  assume mem: "heap_members e" and inv: "threat_inv w"
  let ?w1 = "case tm_current (tw_mgr w u) of None \<Rightarrow> UpdateVictim e u w
    | Some i \<Rightarrow> if ShouldBeOffline e (tref w i) then UpdateVictim e u w else w"
  have "calm w ?w1" using calm_UpdateVictim [OF mem] inv by (auto simp: calm_step_def split: option.split)
  then show "calm w (snd (GetCurrentVictim e u w))"
    by (auto simp: GetCurrentVictim_def Let_def split: option.split intro: calm_trans [OF _ calm_same])
qed

lemma calm_Update: "heap_members e \<Longrightarrow> calm_step e w (Threat_Update e u d w)"
proof (rule calm_stepI [OF ok_Update])
  assume mem: "heap_members e" and inv: "threat_inv w"
  let ?w1 = "if tm_need_clear (tw_mgr w u)
    then upd_mgr u (\<lambda>m. m\<lparr>tm_need_clear := False\<rparr>) (SendClearAllThreatToClients e u w) else w"
  have "steady v (upd_mgr u (\<lambda>m. m\<lparr>tm_need_clear := False\<rparr>) v)" for v :: "'a threat_world"
    by (rule steady_upd_mgr) (simp add: same_mgr_def)
  then have "steady w ?w1" by (auto intro: steady_trans [OF steady_small(6)])
  then have "threat_inv ?w1" using steady_inv inv by blast
  then have "calm ?w1 (UpdateVictim e u ?w1)" using calm_UpdateVictim [OF mem] unfolding calm_step_def by blast
  moreover have "calm w ?w1" by (auto intro: calm_same)
  ultimately have "calm w (if \<not> IsThreatListEmpty ?w1 u True then UpdateVictim e u ?w1 else ?w1)"
    using calm_trans by auto
  then show "calm w (Threat_Update e u d w)"
    by (auto simp: Threat_Update_def Let_def ResetUpdateTimer_def intro: calm_trans [OF _ calm_same] calm_same)
qed

lemma calm_simple:
  "calm_step e w (Threat_Initialize e' u w)" "calm_step e w (ResetUpdateTimer u w)"
  "calm_step e w (UpdateMySpellSchoolModifiers e' u w)" "calm_step e w (FixateTarget u t w)"
  "calm_step e w (RegisterRedirectThreat u s v p w)" "calm_step e w (UnregisterRedirectThreat u s w)"
  "calm_step e w (UnregisterRedirectThreat_victim u s v w)"
proof -
  have c: "calm w v" if "tw_refs v = tw_refs w" "tw_heap_ok v = tw_heap_ok w" for v
    using that by (rule calm_same)
  have r: "tw_refs (UpdateRedirectInfo u w) = tw_refs w" "tw_heap_ok (UpdateRedirectInfo u w) = tw_heap_ok w" for w
    by (simp_all add: UpdateRedirectInfo_def split: prod.split)
  show "calm_step e w (Threat_Initialize e' u w)" "calm_step e w (ResetUpdateTimer u w)"
    "calm_step e w (UpdateMySpellSchoolModifiers e' u w)"
    by (rule calm_stepI; (rule ok_step_steady)?; simp add: Threat_Initialize_def ResetUpdateTimer_def
        UpdateMySpellSchoolModifiers_def steady_upd_mgr same_mgr_def c)+
  show "calm_step e w (FixateTarget u t w)"
    by (rule calm_stepI [OF ok_Fixate]) (simp add: FixateTarget_def c)
  show "calm_step e w (RegisterRedirectThreat u s v p w)"
    by (rule calm_stepI [OF ok_redirects(1)]) (simp add: RegisterRedirectThreat_def r c)
  show "calm_step e w (UnregisterRedirectThreat u s w)"
    by (rule calm_stepI [OF ok_redirects(2)]) (auto simp: UnregisterRedirectThreat_def r c split: option.split)
  show "calm_step e w (UnregisterRedirectThreat_victim u s v w)"
    by (rule calm_stepI [OF ok_redirects(3)]) (auto simp: UnregisterRedirectThreat_victim_def r c split: option.split)
qed

text \<open>
  The exceptions: the update of the temporary modifiers, and a negative factor handed to a
  reference directly.
\<close>

fun reports_directions :: "threat_op \<Rightarrow> bool" where
  "reports_directions (OpUpdateMyTempModifiers u) = False"
| "reports_directions (OpRefScaleThreat u g f) = (0 \<le> f)"
| "reports_directions _ = True"

lemma threat_step_calm:
  assumes "heap_members e" "reports_directions a"
  shows "calm_step e w (threat_step w (e, a))"
proof (cases a)
  case (OpModifyThreatByPercent u g p)
  then show ?thesis using calm_scale(3) by (auto simp: ModifyThreatByPercent_def)
qed (use assms in \<open>simp_all add: calm_Update calm_GetCurrentVictim calm_Evaluate calm_TauntUpdate
    calm_ResetAll calm_AddThreat_mgr calm_scale calm_Match calm_ClearThreat calm_ClearAll
    calm_Forward calm_RemoveMe calm_simple\<close>)

end
