(* ===== verification/Threat_Rules.thy ===== *)
theory Threat_Rules
  imports Threat_Heap
begin

text \<open>
  What the threat manager promises, over every sequence of its operations: the places a reference
  is stored in, the order of the list, the 110\% and 130\% rule, taunts and redirections.
\<close>

section \<open>Runs\<close>

definition threat_run :: "'c \<Rightarrow> ('c threat_env \<times> threat_op) list \<Rightarrow> 'c threat_world" where
  "threat_run c ops = foldl threat_step (Threat_init c) ops"

lemma Threat_init_inv: "threat_inv (Threat_init c)"
  by (simp add: threat_inv_def links_ok_def fixes_ok_def victim_ok_def Threat_init_def new_mgr_def
      ends_def)

interpretation threat: guarded_machine "Threat_init c" threat_step threat_inv
  "\<lambda>x :: 'c threat_env \<times> threat_op. heap_members (fst x)" for c
proof
  fix a :: "'c threat_env \<times> threat_op" and s :: "'c threat_world"
  assume "heap_members (fst a)" "threat_inv s"
  then show "threat_inv (threat_step s a)"
    using threat_step_ok [of "fst a" s "snd a"] by (simp add: ok_step_def)
qed (rule Threat_init_inv)

definition ordered_inv :: "'c threat_world \<Rightarrow> bool" where
  "ordered_inv w \<longleftrightarrow> threat_inv w \<and> base_ok w \<and> tw_heap_ok w = (\<lambda>_. True)"

interpretation threat_heap: guarded_machine "Threat_init c" threat_step ordered_inv
  "\<lambda>x :: 'c threat_env \<times> threat_op. heap_members (fst x) \<and> reports_directions (snd x)" for c
proof
  show "ordered_inv (Threat_init c)"
    using Threat_init_inv by (simp add: ordered_inv_def) (simp add: base_ok_def Threat_init_def)
  fix a :: "'c threat_env \<times> threat_op" and s :: "'c threat_world"
  assume "heap_members (fst a) \<and> reports_directions (snd a)" "ordered_inv s"
  then show "ordered_inv (threat_step s a)"
    using threat_step_calm [of "fst a" "snd a" s]
    by (simp add: ordered_inv_def calm_step_def calm_def ok_step_def)
qed

lemma threat_run_inv: "\<forall>x \<in> set ops. heap_members (fst x) \<Longrightarrow> threat_inv (threat_run c ops)"
  unfolding threat_run_def by (rule threat.guarded_run)

lemma threat_run_ordered:
  "\<forall>x \<in> set ops. heap_members (fst x) \<and> reports_directions (snd x) \<Longrightarrow> ordered_inv (threat_run c ops)"
  unfolding threat_run_def by (rule threat_heap.guarded_run)

section \<open>A concrete heap\<close>

definition descending :: "(nat \<times> threat_ref) list \<Rightarrow> (nat \<times> threat_ref) list" where
  "descending h = stable_sort (\<lambda>a b. CompareReferencesLT (snd b) (snd a) 1) h"

definition plain_unit :: threat_unit where
  "plain_unit = \<lparr>tu_creature = True, tu_pet = False, tu_totem = False, tu_trigger = False,
     tu_minion_or_guardian = False, tu_summoner_is_player = None, tu_accessory = False,
     tu_player_controlled = False, tu_immune_pc = False, tu_immune_npc = False, tu_confused = False,
     tu_breakable_stun = False, tu_engaged = True, tu_controlled = False,
     tu_feedback_disabled = False, tu_has_ai = False, tu_taunts = [], tu_total_threat = []\<rparr>"

definition plain_env :: "'c threat_env" where
  "plain_env = \<lparr>te_unit = (\<lambda>_. plain_unit), te_can_see = (\<lambda>_ _. True), te_acceptable = (\<lambda>_ _. True),
     te_can_attack = (\<lambda>_ _. True), te_immune_to = (\<lambda>_ _. False), te_detaunted = (\<lambda>_ _. False),
     te_melee = (\<lambda>_ _. False), te_exists = (\<lambda>_ _. True), te_school_mult = (\<lambda>_ _. 1),
     te_spell_mod = (\<lambda>_ _ x. x), te_set_combat = (\<lambda>_ _ c. (c, True)), te_in_combat = (\<lambda>_ _ _. True),
     te_top = (\<lambda>_ h. fst (hd (descending h))), te_ordered = (\<lambda>_ h. map fst (descending h))\<rparr>"

lemma sorted_wrt_hd: "sorted_wrt P xs \<Longrightarrow> x \<in> set xs \<Longrightarrow> x = hd xs \<or> P (hd xs) x"
  by (cases xs) auto

lemma descending_set [simp]: "set (descending h) = set h" "mset (descending h) = mset h"
  "descending h = [] \<longleftrightarrow> h = []"
  by (simp_all add: descending_def) (metis length_0_conv length_stable_sort)

lemma descending_sorted:
  "sorted_wrt (\<lambda>a b. \<not> CompareReferencesLT (snd a) (snd b) 1) (descending h)"
  using threat_descending.in_order_stable_sort [of h] by (simp add: in_order_def descending_def)

lemma sorting_members:
  assumes "te_top e = (\<lambda>_ h. fst (hd (descending h)))" "te_ordered e = (\<lambda>_ h. map fst (descending h))"
  shows "heap_members e"
  unfolding heap_members_def
proof (intro allI impI conjI)
  fix b and h :: "(nat \<times> threat_ref) list"
  show "mset (te_ordered e b h) = mset (map fst h)" by (simp add: assms)
  assume "h \<noteq> []"
  then have "hd (descending h) \<in> set h" by (metis descending_set(1,3) hd_in_set)
  then show "te_top e b h \<in> fst ` set h" by (simp add: assms)
qed

lemma sorting_sorts:
  assumes "te_top e = (\<lambda>_ h. fst (hd (descending h)))" "te_ordered e = (\<lambda>_ h. map fst (descending h))"
  shows "heap_sorts e"
  unfolding heap_sorts_def
proof (intro allI impI conjI ballI)
  fix h :: "(nat \<times> threat_ref) list" and x
  assume d: "distinct (map fst h)"
  have m: "map_of h (fst y) = Some (snd y)" if "y \<in> set h" for y using d that by (cases y) simp
  show "in_order (\<lambda>i j. CompareReferencesLT (the (map_of h j)) (the (map_of h i)) 1) (te_ordered e True h)"
    using descending_sorted [of h] unfolding in_order_def assms sorted_wrt_map
    by (rule sorted_wrt_mono_rel [rotated]) (simp add: m)
  assume x: "x \<in> set h"
  then have "hd (descending h) \<in> set h" by (metis descending_set(1) hd_in_set empty_iff empty_set)
  then have "the (map_of h (te_top e True h)) = snd (hd (descending h))" by (simp add: assms m)
  then show "\<not> CompareReferencesLT (the (map_of h (te_top e True h))) (snd x) 1"
    using sorted_wrt_hd [OF descending_sorted, of x h] x threat_order.lt_irrefl by auto
qed

lemma plain_env_heap: "heap_members plain_env" "heap_sorts plain_env"
  by (rule sorting_members sorting_sorts; simp add: plain_env_def)+

section \<open>Properties\<close>

text \<open>C5: A threat reference is stored in exactly three places.  After any sequence of the
  manager's operations the owner's unsorted list leads from a GUID to a reference exactly when a
  live reference of that owner and victim exists, the victim's list of those it threatens does so
  for the same references, and the owner's heap holds each of them once and nothing else.  The
  current victim and the fixated one are references of their owner, the current victim is not
  offline, and no assertion of the manager has failed: neither those on duplicate references, nor
  the one on redirected percentages, nor those of \<open>GetCurrentVictim\<close> and \<open>ReselectVictim\<close>.\<close>

theorem Threat_three_places:
  assumes "\<forall>x \<in> set ops. heap_members (fst x)" and "w = threat_run c ops"
  shows "(om_get (tm_my (tw_mgr w u)) g = Some i
      \<longleftrightarrow> (\<exists>r. tw_refs w i = Some r \<and> tr_owner r = u \<and> tr_victim r = g))
    \<and> om_get (tm_by_me (tw_mgr w g)) u = om_get (tm_my (tw_mgr w u)) g
    \<and> mset (tm_sorted (tw_mgr w u)) = mset (map snd (tm_my (tw_mgr w u)))
    \<and> (tm_current (tw_mgr w u) = Some i \<longrightarrow> (\<exists>r. tw_refs w i = Some r \<and> tr_owner r = u \<and> IsAvailable r))
    \<and> (tm_fixate (tw_mgr w u) = Some i \<longrightarrow> (\<exists>r. tw_refs w i = Some r \<and> tr_owner r = u))
    \<and> tw_asserts w"
proof -
  have inv: "threat_inv w" using threat_run_inv [OF assms(1)] assms(2) by simp
  then have ok: "links_ok w" by (simp add: threat_inv_def)
  have e: "ends w i = Some (u, g) \<longleftrightarrow> (\<exists>r. tw_refs w i = Some r \<and> tr_owner r = u \<and> tr_victim r = g)"
    for i u g by (auto simp: ends_def)
  have "om_get (tm_by_me (tw_mgr w g)) u = Some j \<longleftrightarrow> om_get (tm_my (tw_mgr w u)) g = Some j" for j
    by (simp add: links_by_me [OF ok] links_my [OF ok])
  then have "om_get (tm_by_me (tw_mgr w g)) u = om_get (tm_my (tw_mgr w u)) g"
    by (metis option.exhaust)
  moreover have "set (tm_sorted (tw_mgr w u)) = set (map snd (tm_my (tw_mgr w u)))"
    using links_sorted [OF ok, of _ u] links_my_snd [OF ok, of _ u] by auto
  then have "mset (tm_sorted (tw_mgr w u)) = mset (map snd (tm_my (tw_mgr w u)))"
    using set_eq_iff_mset_eq_distinct [OF links_distinct [OF ok, of u] links_my_distinct [OF ok, of u]] by simp
  moreover have "\<exists>r. tw_refs w i = Some r \<and> tr_owner r = u \<and> IsAvailable r"
    if "tm_current (tw_mgr w u) = Some i"
  proof -
    have "owned w u i" "available w i" using inv that by (auto simp: threat_inv_def victim_ok_def)
    then show ?thesis by (auto simp: owned_def ends_def available_def)
  qed
  moreover have "\<exists>r. tw_refs w i = Some r \<and> tr_owner r = u" if "tm_fixate (tw_mgr w u) = Some i"
    using inv that by (auto simp: threat_inv_def fixes_ok_def owned_def ends_def)
  ultimately show ?thesis using inv e links_my [OF ok, of u g i] by (simp add: threat_inv_def)
qed

text \<open>The heap is kept well-structured.  As long as the temporary modifiers are not updated
  and no reference is handed a negative factor, every operation reports each change of a
  reference's place in the list in the right direction, for every owner.\<close>

theorem Threat_heap_reported:
  assumes "\<forall>x \<in> set ops. heap_members (fst x) \<and> reports_directions (snd x)"
  shows "tw_heap_ok (threat_run c ops) u"
  using threat_run_ordered [OF assms] by (simp add: ordered_inv_def)

text \<open>C4: The choice of a victim, after any sequence of the manager's operations.
  \<open>ReselectVictim\<close> first takes every reference of the list on or off line as its target now
  demands.  A fixated target that is available is chosen.  Otherwise, if the owner's heap has been
  told each change of a reference's place in the right direction, nothing is chosen exactly when
  all references are offline; without a current victim on line the greatest reference is chosen;
  with one, the greatest among those that have more than 110\% of the current victim's threat in
  melee range, or more than 130\% anywhere, and if there is none the current victim stays.  The
  condition on the heap is needed: every operation meets it (\<open>Threat_heap_reported\<close>) but two, the
  update of the temporary modifiers, which reports all changes in the direction of the first
  (\<open>UpdateMyTempModifiers_direction\<close>), and a negative factor for one reference.  After those the
  heap promises no order.\<close>

theorem ReselectVictim_rule:
  assumes ops: "\<forall>x \<in> set ops. heap_members (fst x)"
    and e: "heap_members e" "heap_sorts e"
    and res: "ReselectVictim e u (threat_run c ops) = (v, w')"
  shows "(\<forall>i \<in> set (tm_sorted (tw_mgr w' u)). IsOffline (tref w' i) = ShouldBeOffline e (tref w' i))
    \<and> (if \<exists>f. tm_fixate (tw_mgr w' u) = Some f \<and> IsAvailable (tref w' f)
       then v = tm_fixate (tw_mgr w' u)
       else tw_heap_ok (threat_run c ops) u \<longrightarrow> chosen e w' u (tm_current (tw_mgr w' u)) v)"
proof -
  let ?w = "threat_run c ops"
  have all: "threat_inv ?w" by (rule threat_run_inv [OF ops])
  then have inv: "links_ok ?w" "fixes_ok ?w" "\<And>i. tm_current (tw_mgr ?w u) = Some i \<Longrightarrow> owned ?w u i"
    by (auto simp: threat_inv_def victim_ok_def)
  have hw: "tw_heap_ok w' u = tw_heap_ok ?w u" using Reselect_told [OF all, of e u] res by simp
  obtain q where q: "same_links ?w w'" and refs: "\<And>i. tw_refs w' i = (if owned ?w u i
      then map_option (evaluated e) (tw_refs ?w i) else tw_refs ?w i)"
    and sel: "tm_sorted (tw_mgr ?w u) \<noteq> [] \<Longrightarrow> v = fst (select_victim e w' u)"
    and nil: "tm_sorted (tw_mgr ?w u) = [] \<Longrightarrow> v = None"
    using Reselect_facts [OF e(1) inv] res by (metis prod.inject)
  have same: "tm_sorted (tw_mgr w' u) = tm_sorted (tw_mgr ?w u)"
    "tm_current (tw_mgr w' u) = tm_current (tw_mgr ?w u)" using q by (auto simp: same_links_def same_mgr_def)
  have ok': "links_ok w'" using same_links_links [OF q] inv(1) by simp
  have off: "IsOffline (tref w' i) = ShouldBeOffline e (tref w' i)" if "i \<in> set (tm_sorted (tw_mgr w' u))" for i
  proof -
    have "owned ?w u i" using that links_sorted [OF inv(1)] by (simp add: same)
    then obtain r where "tw_refs ?w i = Some r" "tref w' i = evaluated e r"
      using refs [of i] by (auto simp: owned_def ends_def tref_def)
    then show ?thesis by (simp add: ShouldBeOffline_def)
  qed
  show ?thesis
  proof (cases "tm_sorted (tw_mgr w' u) = []")
    case True
    then have "\<not> owned w' u i" for i using links_sorted [OF ok', of i u] by simp
    then have "tm_fixate (tw_mgr w' u) = None"
      using same_links_fixes [OF q] inv(2) by (metis fixes_ok_def option.exhaust)
    with True nil same show ?thesis by (simp add: chosen_def)
  next
    case False
    have "chosen e w' u (tm_current (tw_mgr w' u)) (fst (select_victim e w' u))"
      if "\<not> (\<exists>f. tm_fixate (tw_mgr w' u) = Some f \<and> IsAvailable (tref w' f))" "tw_heap_ok ?w u"
      using select_victim_spec [OF e ok' _ False _ that(1)] that(2) hw inv(3) same same_links_owned [OF q]
      by simp
    moreover have "fst (select_victim e w' u) = tm_fixate (tw_mgr w' u)"
      if "\<exists>f. tm_fixate (tw_mgr w' u) = Some f \<and> IsAvailable (tref w' f)"
      using that by (auto simp: select_victim_def Let_def)
    ultimately show ?thesis using off sel False same by auto
  qed
qed


subsection \<open>Witnesses\<close>

text \<open>Unit 1 gets threat from 2 and then more from 3, at a distance.\<close>

definition duel :: "(unit threat_env \<times> threat_op) list" where
  "duel = [(plain_env, OpInitialize 1), (plain_env, OpAddThreat 1 2 100 None True True),
     (plain_env, OpAddThreat 1 3 120 None True True)]"

lemma duel_ok: "\<forall>x \<in> set duel. heap_members (fst x) \<and> reports_directions (snd x)"
  "\<forall>x \<in> set duel. heap_members (fst x)"
  by (simp_all add: duel_def plain_env_heap)

definition duel_ref :: "guid \<Rightarrow> float32 \<Rightarrow> threat_ref" where
  "duel_ref g x = \<lparr>tr_owner = 1, tr_victim = g, tr_online = ONLINE_STATE_ONLINE, tr_base = x,
     tr_temp = 0, tr_taunted = 1\<rparr>"

lemma duel_eval:
  "tw_refs (threat_run () duel) 0 = Some (duel_ref 2 100)"
  "tw_refs (threat_run () duel) 1 = Some (duel_ref 3 120)"
  "tm_current (tw_mgr (threat_run () duel) 1) = Some 0"
  "fst (ReselectVictim plain_env 1 (threat_run () duel)) = Some 0"
  by code_simp+

lemma Threat_three_places_witness:
  "om_get (tm_my (tw_mgr (threat_run () duel) 1)) 2 = Some 0 \<and> tw_asserts (threat_run () duel)"
  using Threat_three_places [OF duel_ok(2) refl, where c = "()" and u = 1 and g = 2 and i = 0]
  by (simp add: duel_eval duel_ref_def)

lemma Threat_heap_reported_witness: "tw_heap_ok (threat_run () duel) 1"
  by (rule Threat_heap_reported [OF duel_ok(1)])

lemma ReselectVictim_rule_witness:
  "chosen plain_env (snd (ReselectVictim plain_env 1 (threat_run () duel))) 1
     (tm_current (tw_mgr (snd (ReselectVictim plain_env 1 (threat_run () duel))) 1)) (Some 0)"
proof -
  have "tm_fixate (tw_mgr (snd (ReselectVictim plain_env 1 (threat_run () duel))) 1) = None" by code_simp
  then show ?thesis
    using Threat_heap_reported [OF duel_ok(1), where c = "()" and u = 1]
      ReselectVictim_rule [OF duel_ok(2) plain_env_heap, where c = "()" and u = 1
        and v = "Some 0" and w' = "snd (ReselectVictim plain_env 1 (threat_run () duel))"] duel_eval(4)
    by (simp add: prod_eq_iff)
qed


section \<open>Taunts\<close>

lemma taunt_states_other: "g \<notin> set xs \<Longrightarrow> om_get (taunt_states xs p m) g = om_get m g"
  by (induction xs p m rule: taunt_states.induct) auto

lemma taunt_states_get:
  "distinct xs \<Longrightarrow> k < length xs \<Longrightarrow>
    om_get (taunt_states xs p m) (xs ! k) = Some (p + of_nat (Suc k))"
proof (induction xs p m arbitrary: k rule: taunt_states.induct)
  case (2 c rest p m)
  show ?case
  proof (cases k)
    case 0
    with 2(2) show ?thesis by (simp add: taunt_states_other)
  next
    case (Suc j)
    with 2(1) [of j] 2(2,3) show ?thesis by (simp add: add.assoc)
  qed
qed simp

lemma taunt_states_length:
  "distinct xs \<Longrightarrow> om_ok m \<Longrightarrow> \<forall>x \<in> set xs. om_get m x = None
    \<Longrightarrow> length (taunt_states xs p m) = length m + length xs"
proof (induction xs p m rule: taunt_states.induct)
  case (2 c rest p m)
  then have "\<forall>x \<in> set rest. om_get (om_put c (p + 1) m) x = None" by auto
  with 2 show ?case by (simp add: length_om_put)
qed simp

lemma taunt_state_value:
  assumes "k < length states" "length states < 2 ^ 31"
  shows "unat (taunt_state_of states (of_nat (Suc k))) = length states + 1 - k"
proof -
  let ?n = "length states"
  have "unat (of_nat (Suc k) :: u32) = Suc k" using assms by (simp add: unat_of_nat del: of_nat_Suc)
  then have p: "ucast (of_nat (Suc k) :: u32) = (of_nat (Suc k) :: u64)"
    using assms by (simp add: word_unat_eq_iff unat_of_nat del: of_nat_Suc)
  have "ucast TAUNT_STATE_TAUNT + of_nat ?n - (of_nat (Suc k) :: u64) = of_nat (?n + 1 - k)"
    using assms(1) by (simp add: TAUNT_STATE_TAUNT_def of_nat_diff)
  then have "taunt_state_of states (of_nat (Suc k)) = ucast (of_nat (?n + 1 - k) :: u64)"
    by (simp only: taunt_state_of_def p)
  moreover have "unat (of_nat m :: u64) = m" if "m < 2 ^ 32" for m using that by (simp add: unat_of_nat)
  moreover have "?n + 1 - k < 2 ^ 32" using assms(2) by simp
  ultimately have "unat (of_nat (?n + 1 - k) :: u64) = ?n + 1 - k"
    "taunt_state_of states (of_nat (Suc k)) = ucast (of_nat (?n + 1 - k) :: u64)" by blast+
  then show ?thesis using unat_ucast_64_32 [of "of_nat (?n + 1 - k)"] assms(2) by simp
qed

lemma UpdateTaunt_refs:
  assumes r: "tw_refs w i = Some r"
  shows "tw_refs (UpdateTauntState e i s w) = (tw_refs w)(i \<mapsto> r\<lparr>tr_taunted :=
    (if s < TAUNT_STATE_TAUNT \<and> te_detaunted e (tr_victim r) (tr_owner r) then TAUNT_STATE_DETAUNT else s)\<rparr>)"
  using r by (auto simp: UpdateTauntState_def Let_def tref_eq [OF r])

definition taunt_target :: "'c threat_env \<Rightarrow> (guid, u32) omap \<Rightarrow> threat_ref \<Rightarrow> u32" where
  "taunt_target e states r =
     (let s = (case om_get states (tr_victim r) of Some p \<Rightarrow> taunt_state_of states p | None \<Rightarrow> TAUNT_STATE_NONE)
      in if s < TAUNT_STATE_TAUNT \<and> te_detaunted e (tr_victim r) (tr_owner r) then TAUNT_STATE_DETAUNT else s)"

lemma taunt_loop_refs:
  assumes "\<forall>(g, i) \<in> set es. \<exists>r. tw_refs w i = Some r \<and> tr_victim r = g" "distinct (map snd es)"
  shows "tw_refs (taunt_loop e st es w) i = (if i \<in> snd ` set es
    then map_option (\<lambda>r. r\<lparr>tr_taunted := taunt_target e st r\<rparr>) (tw_refs w i) else tw_refs w i)"
  using assms
proof (induction es arbitrary: w)
  case (Cons x rest)
  obtain g j where x: "x = (g, j)" by fastforce
  with Cons.prems obtain r where r: "tw_refs w j = Some r" "tr_victim r = g" by auto
  define v' where "v' = taunt_loop e st [(g, j)] w"
  have v: "tw_refs v' = (tw_refs w)(j \<mapsto> r\<lparr>tr_taunted := taunt_target e st r\<rparr>)"
    using r by (cases "om_get st g") (simp_all add: v'_def UpdateTaunt_refs taunt_target_def Let_def)
  have "\<forall>(h, k) \<in> set rest. \<exists>r. tw_refs v' k = Some r \<and> tr_victim r = h"
    unfolding v using Cons.prems r by (auto simp: x)
  note IH = Cons.IH [OF this]
  have j: "j \<notin> snd ` set rest" using Cons.prems(2) x by simp
  have "taunt_loop e st (x # rest) w = taunt_loop e st rest v'" by (simp add: x v'_def)
  then show ?case using IH Cons.prems(2) j r by (simp add: x v)
qed simp

lemma evaluate_loop_taunted:
  "\<forall>(g, i) \<in> set es. ends w i \<noteq> None \<Longrightarrow> tw_refs w i = Some r \<Longrightarrow>
    \<exists>a. tw_refs (evaluate_loop e b es w) i = Some (r\<lparr>tr_online := a\<rparr>)"
proof (induction es arbitrary: w r)
  case Nil
  then show ?case by (auto intro: exI [of _ "tr_online r"])
next
  case (Cons x rest)
  obtain g j where x: "x = (g, j)" by fastforce
  let ?v = "evaluate_loop e b [(g, j)] w"
  obtain q where q: "tw_refs w j = Some q" using Cons.prems(1) live_ends [of w j] by (auto simp: x)
  have "steady w ?v" by (rule steady_evaluate_loop) (use Cons.prems(1) x in simp)
  then have "\<forall>(g, i) \<in> set rest. ends ?v i \<noteq> None" using Cons.prems(1) by (auto simp: steady_def same_links_def)
  moreover have "\<exists>a. tw_refs ?v i = Some (r\<lparr>tr_online := a\<rparr>)"
    using q Cons.prems(2) by (cases "i = j") (auto simp: Let_def tref_eq intro: exI [of _ "tr_online r"])
  then obtain a where "tw_refs ?v i = Some (r\<lparr>tr_online := a\<rparr>)" by blast
  ultimately obtain a' where "tw_refs (evaluate_loop e b rest ?v) i = Some (r\<lparr>tr_online := a, tr_online := a'\<rparr>)"
    using Cons.IH by blast
  moreover have "evaluate_loop e b (x # rest) w = evaluate_loop e b rest ?v" by (simp add: x Let_def)
  ultimately show ?case by auto
qed

text \<open>C29: Taunts.  After \<open>TauntUpdate\<close>, if no caster has two taunt auras on the owner, the reference
  of the caster of the aura at position k of the list of taunt auras (the newest is first) has the
  taunt state n + 1 - k, so it is taunting and ranks above all older taunts; every other reference
  is detaunted or neutral.  So the code keeps every taunt, ranked by age: it does not keep the
  last one only, as the comments of \<^verbatim>\<open>TauntUpdate\<close> and \<^verbatim>\<open>MatchUnitThreatToHighestThreat\<close> say.\<close>

theorem TauntUpdate_order:
  assumes ops: "\<forall>x \<in> set ops. heap_members (fst x)"
    and ts: "ts = tu_taunts (te_unit e u)" "distinct ts" "length ts < 2 ^ 31"
    and i: "om_get (tm_my (tw_mgr (threat_run c ops) u)) g = Some i"
  shows "(\<forall>k < length ts. ts ! k = g \<longrightarrow>
        unat (tr_taunted (tref (TauntUpdate e u (threat_run c ops)) i)) = length ts + 1 - k)
    \<and> (g \<notin> set ts \<longrightarrow> tr_taunted (tref (TauntUpdate e u (threat_run c ops)) i)
         = (if te_detaunted e g u then TAUNT_STATE_DETAUNT else TAUNT_STATE_NONE))"
proof -
  let ?w = "threat_run c ops" and ?st = "taunt_states ts 0 []"
  let ?v = "taunt_loop e ?st (tm_my (tw_mgr ?w u)) ?w"
  have inv: "threat_inv ?w" by (rule threat_run_inv [OF ops])
  then have ok: "links_ok ?w" by (simp add: threat_inv_def)
  obtain r where r: "tw_refs ?w i = Some r" "tr_owner r = u" "tr_victim r = g"
    using i links_my [OF ok] by (auto simp: ends_def)
  have vict: "\<forall>(g, i) \<in> set (tm_my (tw_mgr ?w u)). \<exists>r. tw_refs ?w i = Some r \<and> tr_victim r = g"
    using links_my_in [OF ok] by (auto simp: ends_def)
  have "i \<in> snd ` set (tm_my (tw_mgr ?w u))" using om_get_eq_SomeD [OF i] by force
  then have v: "tw_refs ?v i = Some (r\<lparr>tr_taunted := taunt_target e ?st r\<rparr>)"
    using taunt_loop_refs [OF vict links_my_distinct [OF ok]] r by simp
  have "threat_inv ?v" by (rule steady_inv [OF steady_taunt_loop [OF entries_my [OF inv]] inv])
  from evaluate_loop_taunted [OF entries_by_me [OF this] v, where e = e and b = True and u1 = u]
  obtain a where a: "tw_refs (EvaluateSuppressed e u True ?v) i
      = Some (r\<lparr>tr_taunted := taunt_target e ?st r, tr_online := a\<rparr>)"
    unfolding EvaluateSuppressed_def by blast
  have "TauntUpdate e u ?w = EvaluateSuppressed e u True ?v" by (simp add: TauntUpdate_def ts(1) Let_def)
  then have t: "tr_taunted (tref (TauntUpdate e u ?w) i) = taunt_target e ?st r"
    by (simp add: tref_eq [OF a])
  have len: "length ?st = length ts" by (simp add: taunt_states_length ts(2))
  have "unat (taunt_target e ?st r) = length ts + 1 - k" if k: "k < length ts" "ts ! k = g" for k
  proof -
    have get: "om_get ?st g = Some (of_nat (Suc k))" using taunt_states_get [OF ts(2) k(1), of 0 "[]"] k(2) by simp
    have val: "unat (taunt_state_of ?st (of_nat (Suc k))) = length ts + 1 - k"
      using taunt_state_value [of k ?st] k(1) ts(3) len by simp
    then have "\<not> taunt_state_of ?st (of_nat (Suc k)) < TAUNT_STATE_TAUNT"
      using k(1) by (simp add: word_less_nat_alt TAUNT_STATE_TAUNT_def)
    then show ?thesis using get val r by (simp add: taunt_target_def)
  qed
  moreover have "taunt_target e ?st r = (if te_detaunted e g u then TAUNT_STATE_DETAUNT else TAUNT_STATE_NONE)"
    if "g \<notin> set ts"
    using that r by (simp add: taunt_target_def taunt_states_other TAUNT_STATE_NONE_def TAUNT_STATE_TAUNT_def)
  ultimately show ?thesis using t by simp
qed


definition taunted_by :: "guid list \<Rightarrow> unit threat_env" where
  "taunted_by ts = plain_env\<lparr>te_unit := (\<lambda>u. if u = 1 then plain_unit\<lparr>tu_taunts := ts\<rparr> else plain_unit)\<rparr>"

lemma TauntUpdate_order_witness:
  "unat (tr_taunted (tref (TauntUpdate (taunted_by [3, 2]) 1 (threat_run () duel)) 0)) = 2"
proof -
  have "om_get (tm_my (tw_mgr (threat_run () duel) 1)) 2 = Some 0" by code_simp
  from TauntUpdate_order [OF duel_ok(2) refl _ _ this, where e = "taunted_by [3, 2]"]
  show ?thesis by (auto simp: taunted_by_def dest: spec [of _ "1::nat"])
qed

text \<open>
  Two taunt auras of one caster: the map of states then has one entry for two priorities, and the
  caster's reference is no longer taunting.  With four of them the state wraps around.
\<close>

lemma TauntUpdate_two_auras:
  "tr_taunted (tref (TauntUpdate (taunted_by [2, 2]) 1 (threat_run () duel)) 0) = TAUNT_STATE_NONE
   \<and> tr_taunted (tref (TauntUpdate (taunted_by [2, 2, 2]) 1 (threat_run () duel)) 0) = TAUNT_STATE_DETAUNT
   \<and> tr_taunted (tref (TauntUpdate (taunted_by [2, 2, 2, 2]) 1 (threat_run () duel)) 0) = u32_max"
  by (intro conjI) code_simp+

text \<open>
  A new reference starts without the temporary modifier of its victim, and the next update takes
  the direction for all references from the first one: the heap of unit 3 is told of an increase
  where the threat of its reference went down.
\<close>

definition modified :: "i32 \<Rightarrow> unit threat_env" where
  "modified x = plain_env\<lparr>te_unit := (\<lambda>u. if u = 2 then plain_unit\<lparr>tu_total_threat := [x]\<rparr> else plain_unit)\<rparr>"

definition modifier_ops :: "(unit threat_env \<times> threat_op) list" where
  "modifier_ops = [(plain_env, OpInitialize 1), (plain_env, OpInitialize 3),
     (plain_env, OpAddThreat 3 2 100 None True True), (modified 500, OpUpdateMyTempModifiers 2),
     (modified 500, OpAddThreat 1 2 100 None True True), (modified 100, OpUpdateMyTempModifiers 2)]"

lemma UpdateMyTempModifiers_direction:
  "\<not> tw_heap_ok (threat_run () modifier_ops) 3
   \<and> GetThreat (tref (threat_run () (take 4 modifier_ops)) 0) = 600
   \<and> GetThreat (tref (threat_run () modifier_ops) 0) = 200
   \<and> GetThreat (tref (threat_run () (take 5 modifier_ops)) 1) = 100"
  by (intro conjI) code_simp+

section \<open>Redirections\<close>








lemma UpdateRedirect_registry [simp]:
  "tm_registry (tw_mgr (UpdateRedirectInfo u w) v) = tm_registry (tw_mgr w v)"
  by (simp add: UpdateRedirectInfo_def split: prod.split)





text \<open>
  What is left of an amount for the original target, in exact arithmetic.  The code computes with
  floats: \<^verbatim>\<open>CalculatePct\<close> may round up, and a full redirection then leaves a remainder just below 0.
\<close>

lemma redirect_loop_amount:
  "0 \<le> orig \<Longrightarrow> a - orig * of_nat (shares rs) / 100 \<le> fst (redirect_loop e u s orig rs a w)
    \<and> fst (redirect_loop e u s orig rs a w) \<le> a"
proof (induction rs arbitrary: a w)
  case Nil
  then show ?case by (simp add: shares_def)
next
  case (Cons x rest)
  obtain g p where x: "x = (g, p)" by fastforce
  have p: "0 \<le> CalculatePct orig p" using Cons.prems by (simp add: CalculatePct_def del: of_nat_unat)
  have sh: "orig * of_nat (shares (x # rest)) / 100 = CalculatePct orig p + orig * of_nat (shares rest) / 100"
    by (simp add: x shares_def CalculatePct_def algebra_simps add_divide_distrib)
  show ?case
  proof (cases "redirect_target e u g w")
    case None
    with Cons.IH [OF Cons.prems, of a w] p show ?thesis by (simp add: x sh [unfolded x])
  next
    case (Some t)
    let ?v = "AddThreat_redirected e u t (CalculatePct orig p) s w"
    from Some Cons.IH [OF Cons.prems, of "a - CalculatePct orig p" ?v] p
    show ?thesis by (simp add: x sh [unfolded x] Let_def)
  qed
qed

end
