(* ===== verification/Threat_Combat.thy ===== *)
theory Threat_Combat
  imports Threat_Rules Combat_Manager
begin

text \<open>
  The threat manager and the combat manager together: threat implies combat.  The threat manager
  calls \<^verbatim>\<open>SetInCombatWith\<close> and \<^verbatim>\<open>IsInCombatWith\<close> of the combat manager; the combat manager calls
  \<^verbatim>\<open>ClearThreat\<close>, \<^verbatim>\<open>RemoveMeFromThreatLists\<close> and \<^verbatim>\<open>ClearAllThreat\<close> of the threat manager.  The
  world of the threat manager carries the world of the combat manager as its combat state.

  An operation of the combat manager writes its calls of the threat manager to its log; they are run
  on the threat state, in that order, after the combat part.  The two orders agree: those calls
  neither read nor write the combat state, and no operation of the combat manager reads the threat
  state.
\<close>

section \<open>What threat needs of combat\<close>

locale combat_service =
  fixes set_combat :: "guid \<Rightarrow> guid \<Rightarrow> 'c \<Rightarrow> 'c \<times> bool"
    and joined :: "'c \<Rightarrow> guid \<Rightarrow> guid \<Rightarrow> bool"
    and Inv :: "'c \<Rightarrow> bool"
  assumes set_inv: "Inv c \<Longrightarrow> Inv (fst (set_combat u v c))"
    and set_joins: "Inv c \<Longrightarrow> snd (set_combat u v c) \<Longrightarrow> joined (fst (set_combat u v c)) u v"
    and set_keeps: "Inv c \<Longrightarrow> joined c x y \<Longrightarrow> joined (fst (set_combat u v c)) x y"
begin

definition backed :: "'c threat_world \<Rightarrow> bool" where
  "backed w \<longleftrightarrow> Inv (tw_combat w) \<and> (\<forall>i u g. ends w i = Some (u, g) \<longrightarrow> joined (tw_combat w) u g)"

lemma grows_backed:
  assumes "grows e w w'" "te_set_combat e = set_combat" "backed w"
  shows "backed w'"
  using assms
proof (induction rule: grows.induct)
  case (grows_same w' w)
  then show ?case unfolding backed_def by metis
next
  case (grows_fight u v w w' b)
  have s: "set_combat u v (tw_combat w) = (tw_combat w', b)" using grows_fight by simp
  have "joined (tw_combat w') x y" if "ends w' i = Some (x, y)" for i x y
    using grows_fight.hyps(2) [OF that] grows_fight.prems(2) s set_joins [of "tw_combat w" u v]
      set_keeps [of "tw_combat w" x y u v] by (auto simp: backed_def)
  then show ?case using grows_fight.prems(2) s set_inv [of "tw_combat w" u v] by (simp add: backed_def)
qed simp

lemma step_backed:
  assumes "heap_members e" "te_set_combat e = set_combat" "threat_inv w" "backed w"
  shows "threat_inv (threat_step w (e, a)) \<and> backed (threat_step w (e, a))"
  using threat_step_ok [OF assms(1), of w a] assms grows_backed by (auto simp: ok_step_def)

end

section \<open>What combat calls on threat\<close>

text \<open>
  A pair whose reference ends is announced: between the two worlds the log has grown by calls that
  clear the threat of both units.
\<close>

definition clears :: "combat_world \<Rightarrow> combat_world \<Rightarrow> bool" where
  "clears c c' \<longleftrightarrow> (\<exists>new. cw_log c' = cw_log c @ new \<and> (\<forall>i r. cw_refs c i = Some r \<longrightarrow>
     (\<exists>r'. cw_refs c' i = Some r' \<and> cr_first r' = cr_first r \<and> cr_second r' = cr_second r)
     \<or> {CallClearThreat (cr_first r) (cr_second r), CallClearThreat (cr_second r) (cr_first r)} \<subseteq> set new))"

lemma clears_same:
  "cw_refs c' = cw_refs c \<Longrightarrow> cw_log c' = cw_log c @ new \<Longrightarrow> clears c c'"
  by (auto simp: clears_def)

lemma clears_refl [simp, intro]: "clears c c"
  by (rule clears_same [where new = "[]"]) simp_all

lemma clears_trans [trans]:
  assumes "clears a b" "clears b c"
  shows "clears a c"
proof -
  let ?keeps = "\<lambda>x r i. \<exists>r'. cw_refs x i = Some r' \<and> cr_first r' = cr_first r \<and> cr_second r' = cr_second r"
  let ?calls = "\<lambda>r. {CallClearThreat (cr_first r) (cr_second r), CallClearThreat (cr_second r) (cr_first r)}"
  obtain m where m: "cw_log b = cw_log a @ m" "\<And>i r. cw_refs a i = Some r \<Longrightarrow> ?keeps b r i \<or> ?calls r \<subseteq> set m"
    using assms(1) unfolding clears_def by blast
  obtain n where n: "cw_log c = cw_log b @ n" "\<And>i r. cw_refs b i = Some r \<Longrightarrow> ?keeps c r i \<or> ?calls r \<subseteq> set n"
    using assms(2) unfolding clears_def by blast
  have "?keeps c r i \<or> ?calls r \<subseteq> set (m @ n)" if "cw_refs a i = Some r" for i r
    using m(2) [OF that] n(2) [of i] by fastforce
  then show ?thesis unfolding clears_def by (intro exI [of _ "m @ n"]) (simp add: m(1) n(1))
qed

lemma call_log [simp]: "cw_log (call x c) = cw_log c @ [x]"
  by (simp add: call_def)

lemma other_log [simp]:
  "cw_log (set_combat_flags u b c) = cw_log c" "cw_log (UpdatePetCombatState e m c) = cw_log c"
  "cw_log (PurgeReference u g p c) = cw_log c" "cw_log (PutReference u g i c) = cw_log c"
  by (simp_all add: set_combat_flags_def UpdatePetCombatState_def PurgeReference_def PutReference_def Let_def)

lemma clears_call: "clears c (call x c)"
  by (rule clears_same) simp_all

lemma clears_notify: "clears c (NotifyAICombat e u g c)" "clears c (notify_exit e u c)"
  by (auto simp: NotifyAICombat_def notify_exit_def intro: clears_call)

lemma clears_Purge: "clears c (PurgeReference u g p c)" and clears_Put: "clears c (PutReference u g i c)"
  by (rule clears_same [where new = "[]"]; simp)+

lemma clears_Update: "clears c (fst (UpdateOwnerCombatState e u c))"
proof -
  have p: "clears x (UpdatePetCombatState e m x)" for m x by (rule clears_same [where new = "[]"]) simp_all
  have f: "clears c (set_combat_flags u b c)" for b by (rule clears_same [where new = "[]"]) simp_all
  have "clears c (call y (set_combat_flags u b c))" for y b by (rule clears_trans [OF f clears_call])
  then have "clears c (call z (call y (set_combat_flags u b c)))" for z y b by (rule clears_trans [OF _ clears_call])
  then show ?thesis using \<open>\<And>b y. clears c (call y (set_combat_flags u b c))\<close>
    by (auto simp: UpdateOwnerCombatState_def Let_def split: option.split intro: clears_trans [OF _ p])
qed

lemma clears_write:
  assumes "\<And>r. cw_refs c i = Some r \<Longrightarrow> cr_first r' = cr_first r \<and> cr_second r' = cr_second r"
  shows "clears c (write_ref i r' c)"
  using assms by (auto simp: clears_def)

lemma clears_EndCombat: "clears c (EndCombat e i c)"
proof -
  let ?r = "deref c i"
  let ?w1 = "call (CallClearThreat (cr_second ?r) (cr_first ?r)) (call (CallClearThreat (cr_first ?r) (cr_second ?r)) c)"
  let ?w2 = "PurgeReference (cr_second ?r) (cr_first ?r) (cr_pvp ?r) (PurgeReference (cr_first ?r) (cr_second ?r) (cr_pvp ?r) ?w1)"
  let ?u3 = "UpdateOwnerCombatState e (cr_first ?r) ?w2"
  let ?u4 = "UpdateOwnerCombatState e (cr_second ?r) (fst ?u3)"
  let ?w5 = "if snd ?u3 then notify_exit e (cr_first ?r) (fst ?u4) else fst ?u4"
  let ?w6 = "if snd ?u4 then notify_exit e (cr_second ?r) ?w5 else ?w5"
  have "clears ?w1 ?w2" by (rule clears_trans [OF clears_Purge clears_Purge])
  also have "clears ?w2 (fst ?u4)" by (rule clears_trans [OF clears_Update clears_Update])
  also have "clears (fst ?u4) ?w5" by (simp add: clears_notify)
  also have "clears ?w5 ?w6" by (simp add: clears_notify)
  finally obtain n where n: "cw_log ?w6 = cw_log ?w1 @ n" unfolding clears_def by blast
  have eq: "EndCombat e i c = ?w6\<lparr>cw_refs := (cw_refs ?w6)(i := None)\<rparr>"
    by (simp add: EndCombat_def Let_def split_beta)
  have refs: "cw_refs (EndCombat e i c) = (cw_refs c)(i := None)" by (simp add: eq)
  have "cw_log (EndCombat e i c) = cw_log c @ ([CallClearThreat (cr_first ?r) (cr_second ?r),
      CallClearThreat (cr_second ?r) (cr_first ?r)] @ n)" unfolding eq using n by simp
  then show ?thesis unfolding clears_def
    by (intro exI [of _ "[CallClearThreat (cr_first ?r) (cr_second ?r), CallClearThreat (cr_second ?r) (cr_first ?r)] @ n"])
      (auto simp: refs deref_def)
qed

lemma Suppress_ends [simp]: "cr_first (Suppress u r) = cr_first r" "cr_second (Suppress u r) = cr_second r"
  by (simp_all add: Suppress_def)

lemma clears_then:
  "clears c c' \<Longrightarrow> clears c (fst (UpdateOwnerCombatState e u c'))"
  "clears c c' \<Longrightarrow> clears c (NotifyAICombat e u g c')"
  "clears c c' \<Longrightarrow> clears c (notify_exit e u c')"
  "clears c c' \<Longrightarrow> clears c (call x c')"
  "clears c c' \<Longrightarrow> clears c (EndCombat e i c')"
  "clears c c' \<Longrightarrow> clears c (PurgeReference u g p c')"
  "clears c c' \<Longrightarrow> clears c (PutReference u g i c')"
  by (blast intro: clears_trans clears_Update clears_notify clears_call clears_EndCombat clears_Purge
      clears_Put)+

lemma clears_Refresh: "clears c (Refresh e i c)"
proof -
  have w: "clears x (write_ref i ((deref x i)\<lparr>cr_suppress_first := False\<rparr>) x)"
    "clears x (write_ref i ((deref x i)\<lparr>cr_suppress_second := False\<rparr>) x)" for x
    by (rule clears_write; simp add: deref_def)+
  define q1 where "q1 = (if cr_suppress_first (deref c i)
     then UpdateOwnerCombatState e (cr_first (deref c i)) (write_ref i ((deref c i)\<lparr>cr_suppress_first := False\<rparr>) c)
     else (c, False))"
  define q2 where "q2 = (if cr_suppress_second (deref (fst q1) i)
     then UpdateOwnerCombatState e (cr_second (deref c i)) (write_ref i ((deref (fst q1) i)\<lparr>cr_suppress_second := False\<rparr>) (fst q1))
     else (fst q1, False))"
  have "clears c (fst q1)" unfolding q1_def using w by (auto intro: clears_then)
  also have "clears (fst q1) (fst q2)" unfolding q2_def using w by (auto intro: clears_then)
  finally have q: "clears c (fst q2)" .
  have "Refresh e i c = (let w3 = (if snd q1 then NotifyAICombat e (cr_first (deref c i)) (cr_second (deref c i)) (fst q2) else fst q2)
      in if snd q2 then NotifyAICombat e (cr_second (deref c i)) (cr_first (deref c i)) w3 else w3)"
    by (simp add: Refresh_def Let_def q1_def q2_def split_beta)
  then show ?thesis using q by (auto simp: Let_def intro: clears_then)
qed

lemma clears_SuppressFor: "clears c (SuppressFor e i u c)"
proof -
  have "clears c (write_ref i (Suppress u (deref c i)) c)" by (rule clears_write) (simp add: deref_def)
  then show ?thesis by (auto simp: SuppressFor_def Let_def split_beta intro: clears_then)
qed

lemma clears_update_loop: "clears c (update_loop e u t es c)"
proof (induction e u t es c rule: update_loop.induct)
  case (2 e u t g i rest c)
  have w: "clears c (write_ref i (fst (PvP_Update t (deref c i))) c)"
    by (rule clears_write) (simp add: deref_def PvP_Update_def)
  then have "clears c (EndCombat e i (PurgeReference u g True (write_ref i (fst (PvP_Update t (deref c i))) c)))"
    by (intro clears_then)
  with w 2 show ?case by (auto split: prod.split intro: clears_trans)
qed simp

lemma clears_end_where: "clears c (end_where e P u p es c)"
proof (induction e P u p es c rule: end_where.induct)
  case (2 e P u p g i rest c)
  have "clears c (EndCombat e i (PurgeReference u g p c))" by (intro clears_then clears_refl)
  with 2 show ?case by (auto intro: clears_trans)
qed simp

lemma clears_end_all: "clears c (end_all e is c)"
  unfolding end_all_def by (induction "is" arbitrary: c) (auto intro: clears_trans [OF clears_EndCombat])

lemma clears_suppress_refs: "clears c (suppress_refs f u es c)"
proof (induction f u es c rule: suppress_refs.induct)
  case (2 f u g i rest c)
  have "clears c (write_ref i (Suppress u (deref c i)) c)" by (rule clears_write) (simp add: deref_def)
  with 2 show ?case by (auto intro: clears_trans)
qed simp

lemma clears_Set:
  assumes inv: "combat_inv c"
  shows "clears c (fst (SetInCombatWith e u v b c))"
proof -
  have "cw_refs c (cw_next c) = None"
    using inv refs_ok_ref [of c "cw_next c"] by (cases "cw_refs c (cw_next c)") (auto simp: combat_inv_def)
  then have new: "clears c (write_ref (cw_next c) r (c\<lparr>cw_next := Suc (cw_next c)\<rparr>))" for r
    by (auto simp: clears_def)
  have old: "clears c (Refresh e i (write_ref i (RefreshTimer (deref c i)) c))" for i
    by (rule clears_trans [OF clears_write clears_Refresh]) (simp add: RefreshTimer_def deref_def)
  show ?thesis
  proof (cases "om_get (cw_pvp c u) v")
    case (Some i)
    then show ?thesis by (simp add: SetInCombatWith_def old)
  next
    case pvp: None
    show ?thesis
    proof (cases "om_get (cw_pve c u) v")
      case (Some i)
      with pvp show ?thesis by (simp add: SetInCombatWith_def clears_Refresh)
    next
      case pve: None
      have ai: "clears c (if n then NotifyAICombat e x y c' else c')" if "clears c c'" for n x y c'
        using that by (simp add: clears_then)
      show ?thesis
      proof (cases "CanBeginCombat e u v")
        case True
        then show ?thesis
          unfolding SetInCombatWith_def pvp pve option.case Let_def split_beta
          by (simp only: not_True_eq_False if_False fst_conv) (intro ai clears_then new)
      qed (simp add: SetInCombatWith_def pvp pve)
    qed
  qed
qed

lemma clears_inherit: "combat_inv c \<Longrightarrow> clears c (inherit_loop e u v es c)"
proof (induction e u v es c rule: inherit_loop.induct)
  case (2 e u v g i rest c)
  let ?t = "GetOther (deref c i) v" let ?s = "fst (SetInCombatWith e u ?t False c)"
  have "clears c ?s" "combat_inv ?s" by (rule clears_Set Set_inv; rule 2(4))+
  then have "clears c (inherit_loop e u v rest ?s)"
    if "\<not> IsInCombatWith c u g" "\<not> ((cu_immune_pc (ce_unit e u) \<and> cu_flag_player_controlled (ce_unit e ?t))
           \<or> (cu_immune_npc (ce_unit e u) \<and> \<not> cu_flag_player_controlled (ce_unit e ?t)))"
    using clears_trans 2(2) [OF that(1) refl that(2)] by blast
  then show ?case using 2(1) 2(3) 2(4) by (simp add: Let_def)
qed simp

lemma clears_EndPvE: "clears c (EndAllPvECombat e u f c)"
  unfolding EndAllPvECombat_def Let_def
  by (rule clears_trans [OF _ clears_end_all]) (intro clears_then clears_refl)

lemma clears_EndAll:
  "\<exists>n. cw_log (EndAllCombat e u f c)
     = cw_log c @ [CallRemoveFromThreatLists u f, CallClearAllThreat u] @ n"
proof -
  let ?s = "call (CallClearAllThreat u) (call (CallRemoveFromThreatLists u f) c)"
  have "clears ?s (EndAllCombat e u f c)"
    unfolding EndAllCombat_def EndAllPvPCombat_def EndAllPvECombat_def Let_def
    by (rule clears_trans [OF clears_end_all clears_end_all])
  then show ?thesis by (auto simp: clears_def)
qed

lemma combat_step_clears: "combat_inv c \<Longrightarrow> clears c (combat_step c x)"
proof (induction c x rule: combat_step.induct)
  case (10 w e p u g)
  show ?case by (simp add: clears_SuppressFor split: option.split)
next
  case (11 w e p u g)
  show ?case by (simp add: clears_EndCombat split: option.split)
next
  case (6 w e u f)
  show ?case by (simp add: SuppressPvPCombat_def Let_def split_beta clears_then clears_suppress_refs)
next
  case (3 w e u v)
  show ?case
    using clears_trans [OF clears_inherit [OF 3] clears_inherit [OF inherit_inv [OF 3]]]
    by (simp add: InheritCombatStatesFrom_def Let_def)
next
  case (9 w e u f)
  show ?case
    by (simp add: EndAllCombat_def EndAllPvPCombat_def) (rule clears_trans [OF clears_EndPvE clears_end_all])
qed (auto simp: clears_Set Combat_Update_def clears_update_loop Let_def
    EndCombatBeyondRange_def RevalidateCombat_def EndAllPvPCombat_def clears_EndPvE
    intro: clears_trans [OF clears_end_where clears_end_where] clears_end_where clears_end_all)

section \<open>The two managers together\<close>

definition joint_env :: "combat_env \<Rightarrow> combat_world threat_env \<Rightarrow> combat_world threat_env" where
  "joint_env ce te = te\<lparr>te_set_combat := (\<lambda>u v c. SetInCombatWith ce u v False c),
                        te_in_combat := IsInCombatWith\<rparr>"

fun run_call ::
  "combat_world threat_env \<Rightarrow> combat_call \<Rightarrow> combat_world threat_world \<Rightarrow> combat_world threat_world" where
  "run_call e (CallClearThreat a b) w = ClearThreat e a b w"
| "run_call e (CallRemoveFromThreatLists u f) w = RemoveMeFromThreatLists e u f w"
| "run_call e (CallClearAllThreat u) w = ClearAllThreat u w"
| "run_call e _ w = w"

definition combat_in_world ::
  "combat_env \<Rightarrow> combat_world threat_env \<Rightarrow> combat_op \<Rightarrow> combat_world threat_world
    \<Rightarrow> combat_world threat_world" where
  "combat_in_world ce te x w =
     (let c = tw_combat w; c' = combat_step c (ce, x)
      in fold (run_call (joint_env ce te)) (drop (length (cw_log c)) (cw_log c')) (w\<lparr>tw_combat := c'\<rparr>))"

datatype joint_op = OfThreat threat_op | OfCombat combat_op

type_synonym joint_input = "combat_env \<times> combat_world threat_env \<times> joint_op"

fun joint_step :: "combat_world threat_world \<Rightarrow> joint_input \<Rightarrow> combat_world threat_world" where
  "joint_step w (ce, te, OfThreat x) = threat_step w (joint_env ce te, x)"
| "joint_step w (ce, te, OfCombat x) = combat_in_world ce te x w"

definition joint_run :: "joint_input list \<Rightarrow> combat_world threat_world" where
  "joint_run ops = foldl joint_step (Threat_init Combat_init) ops"

text \<open>Threat is backed by combat, in both directions of the pair.\<close>

interpretation combat_for_threat: combat_service
  "\<lambda>u v c. SetInCombatWith ce u v False c" "\<lambda>c u g. IsInCombatWith c u g \<and> IsInCombatWith c g u"
  combat_inv for ce
proof
  fix c u v
  assume inv: "combat_inv c"
  then show "combat_inv (fst (SetInCombatWith ce u v False c))" by (rule Set_inv)
  show "IsInCombatWith (fst (SetInCombatWith ce u v False c)) u v
      \<and> IsInCombatWith (fst (SetInCombatWith ce u v False c)) v u"
    if s: "snd (SetInCombatWith ce u v False c)"
  proof -
    have sym: "IsInCombatWith c v u = IsInCombatWith c u v"
      using inv refs_ok_sym [of c _ v u] by (simp add: IsInCombatWith_tab combat_inv_def)
    have "IsInCombatWith c u v \<or> CanBeginCombat ce u v"
      using s CanBegin_False_Set [of c u v ce False] by (metis snd_conv)
    then show ?thesis using sym by (auto simp: Set_pairs [OF inv])
  qed
  show "IsInCombatWith (fst (SetInCombatWith ce u v False c)) x y
      \<and> IsInCombatWith (fst (SetInCombatWith ce u v False c)) y x"
    if "IsInCombatWith c x y \<and> IsInCombatWith c y x" for x y
    using that by (simp add: Set_pairs [OF inv])
qed

definition joint_inv :: "combat_world threat_world \<Rightarrow> bool" where
  "joint_inv w \<longleftrightarrow> threat_inv w \<and> combat_for_threat.backed w"

lemma joint_env_fields [simp]:
  "te_set_combat (joint_env ce te) = (\<lambda>u v c. SetInCombatWith ce u v False c)"
  "heap_members (joint_env ce te) = heap_members te"
  by (simp_all add: joint_env_def heap_members_def)

text \<open>Replaying the calls only removes threat, and removes that of every announced pair.\<close>

lemma run_call_ok:
  assumes "heap_members e" "threat_inv w"
  shows "threat_inv (run_call e k w) \<and> tw_combat (run_call e k w) = tw_combat w
    \<and> (\<forall>i p. ends (run_call e k w) i = Some p \<longrightarrow> ends w i = Some p)"
proof (cases k)
  case (CallClearThreat a b)
  with ClearThreat_inv [OF assms, of a b] show ?thesis by (auto split: if_splits)
next
  case (CallRemoveFromThreatLists u f)
  with shrinks_RemoveMe [OF assms, of u f] show ?thesis by simp
next
  case (CallClearAllThreat u)
  with shrinks_ClearAll [OF assms(2), of u] show ?thesis by simp
qed (use assms in simp_all)

lemma run_calls_ok:
  assumes "heap_members e" "threat_inv w"
  shows "threat_inv (fold (run_call e) ks w) \<and> tw_combat (fold (run_call e) ks w) = tw_combat w
    \<and> (\<forall>i p. ends (fold (run_call e) ks w) i = Some p \<longrightarrow> ends w i = Some p
         \<and> CallClearThreat (fst p) (snd p) \<notin> set ks)"
  using assms(2)
proof (induction ks arbitrary: w)
  case (Cons k ks)
  note k = run_call_ok [OF assms(1) Cons.prems, of k]
  have "ends (run_call e k w) i \<noteq> Some p" if "k = CallClearThreat (fst p) (snd p)" for i p
    using that ClearThreat_inv(2) [OF assms(1) Cons.prems, of "fst p" "snd p" i] by auto
  with k Cons.IH [of "run_call e k w"] show ?case by auto metis+
qed simp

lemma joint_step_inv:
  assumes "heap_members te" "joint_inv w"
  shows "joint_inv (joint_step w (ce, te, x))"
proof (cases x)
  case (OfThreat a)
  then show ?thesis
    using combat_for_threat.step_backed [of "joint_env ce te" ce w a] assms by (simp add: joint_inv_def)
next
  case (OfCombat a)
  let ?c = "tw_combat w" let ?c' = "combat_step ?c (ce, a)"
  let ?w = "w\<lparr>tw_combat := ?c'\<rparr>" let ?e = "joint_env ce te"
  have inv: "combat_inv ?c" "threat_inv w"
    and joined: "\<And>i u g. ends w i = Some (u, g) \<Longrightarrow> IsInCombatWith ?c u g"
    using assms(2) by (auto simp: joint_inv_def combat_for_threat.backed_def)
  note inv' = combat_step_inv [OF inv(1), of "(ce, a)"]
  from combat_step_clears [OF inv(1), of "(ce, a)"] obtain new where new: "cw_log ?c' = cw_log ?c @ new"
    and ended: "\<And>i r. cw_refs ?c i = Some r \<Longrightarrow>
     (\<exists>r'. cw_refs ?c' i = Some r' \<and> cr_first r' = cr_first r \<and> cr_second r' = cr_second r)
     \<or> {CallClearThreat (cr_first r) (cr_second r), CallClearThreat (cr_second r) (cr_first r)} \<subseteq> set new"
    unfolding clears_def by blast
  let ?v = "fold (run_call ?e) new ?w"
  have step: "joint_step w (ce, te, x) = ?v"
    using OfCombat new by (simp add: combat_in_world_def Let_def)
  have "heap_members ?e" "threat_inv ?w" using assms(1) inv(2) by simp_all
  note v = run_calls_ok [OF this, of new]
  have "IsInCombatWith ?c' u g" "IsInCombatWith ?c' g u" if e: "ends ?v i = Some (u, g)" for i u g
  proof -
    have "ends w i = Some (u, g)" "CallClearThreat u g \<notin> set new"
      using v e by (auto simp: ends_def)
    with joined [of i u g] obtain j r where r: "cw_refs ?c j = Some r" "joins r u g"
      using inv(1) by (auto simp: IsInCombatWith_iff combat_inv_def)
    with ended [OF r(1)] \<open>CallClearThreat u g \<notin> set new\<close> obtain r' where
      "cw_refs ?c' j = Some r'" "joins r' u g" "joins r' g u" by (auto simp: joins_def)
    then show "IsInCombatWith ?c' u g" "IsInCombatWith ?c' g u"
      using inv' by (auto simp: IsInCombatWith_iff combat_inv_def)
  qed
  then show ?thesis unfolding step joint_inv_def combat_for_threat.backed_def
    using v inv' by simp
qed

interpretation joint: guarded_machine "Threat_init Combat_init" joint_step joint_inv
  "\<lambda>x. heap_members (fst (snd x))"
proof
  show "joint_inv (Threat_init Combat_init)"
    using Threat_init_inv Combat_init_inv
    by (simp add: joint_inv_def combat_for_threat.backed_def) (simp add: Threat_init_def ends_def)
  fix a :: joint_input and s
  assume "heap_members (fst (snd a))" "joint_inv s"
  then show "joint_inv (joint_step s a)" using joint_step_inv by (cases a) simp
qed

text \<open>C3: Threat implies combat.  After any sequence of operations of the two managers, a unit that
  has another on its threat list, on line or not, is in combat with it, and the other with it;
  whatever the combat manager ended has taken the threat of both sides with it.\<close>

theorem Threat_implies_combat:
  assumes "\<forall>x \<in> set ops. heap_members (fst (snd x))"
    and "IsThreatenedBy (joint_run ops) u g True"
  shows "IsInCombatWith (tw_combat (joint_run ops)) u g \<and> IsInCombatWith (tw_combat (joint_run ops)) g u"
proof -
  have inv: "joint_inv (joint_run ops)" unfolding joint_run_def by (rule joint.guarded_run [OF assms(1)])
  then have "links_ok (joint_run ops)" by (simp add: joint_inv_def threat_inv_def)
  with assms(2) obtain i where "ends (joint_run ops) i = Some (u, g)"
    by (auto simp: IsThreatenedBy_def links_my split: option.splits)
  with inv show ?thesis by (auto simp: joint_inv_def combat_for_threat.backed_def)
qed

text \<open>C30: The end of all combat is the end of all threat.  After \<open>EndAllCombat\<close> of a unit, at any
  point of a run of the two managers, its own threat list is empty, whatever the filter, and it is
  on the threat list of no unit that passes the filter.\<close>

theorem EndAllCombat_clears_threat:
  assumes ops: "\<forall>x \<in> set ops. heap_members (fst (snd x))" "heap_members te"
    and w: "w = joint_run (ops @ [(ce, te, OfCombat (OpEndAll u f))])"
  shows "tm_my (tw_mgr w u) = [] \<and> (passes f g \<longrightarrow> \<not> IsThreatenedBy w g u True)"
proof -
  let ?w = "joint_run ops" let ?c = "tw_combat ?w" let ?c' = "EndAllCombat ce u f ?c"
  have run: "w = joint_step ?w (ce, te, OfCombat (OpEndAll u f))" using w by (simp add: joint_run_def)
  have inv0: "joint_inv ?w" unfolding joint_run_def by (rule joint.guarded_run [OF ops(1)])
  then have inv: "joint_inv w" unfolding run by (rule joint_step_inv [OF ops(2)])
  then have ok: "links_ok w" by (simp add: joint_inv_def threat_inv_def)
  note c = clears_EndAll [of ce u f ?c]
  then obtain n where n: "cw_log ?c' = cw_log ?c @ [CallRemoveFromThreatLists u f, CallClearAllThreat u] @ n"
    by blast
  let ?e = "joint_env ce te" let ?v = "RemoveMeFromThreatLists ?e u f (?w\<lparr>tw_combat := ?c'\<rparr>)"
  have e: "heap_members ?e" using ops(2) by simp
  have w': "w = fold (run_call ?e) n (ClearAllThreat u ?v)"
    using n by (simp add: run combat_in_world_def Let_def)
  have v: "threat_inv ?v" using shrinks_RemoveMe [OF e] inv0 by (simp add: joint_inv_def)
  have inv2: "threat_inv (ClearAllThreat u ?v)" using shrinks_ClearAll [OF v] by simp
  have mine: "\<not> owned w u i" for i
    using run_calls_ok [OF e inv2, of n] ClearAll_owned [OF v, of u i] unfolding w' [symmetric]
    by (auto simp: owned_def)
  then have my: "tm_my (tw_mgr w u) = []"
    using links_my_snd [OF ok, of "snd (hd (tm_my (tw_mgr w u)))" u] by (cases "tm_my (tw_mgr w u)") auto
  have "\<not> IsThreatenedBy w g u True" if "passes f g"
  proof
    assume "IsThreatenedBy w g u True"
    then obtain i where "ends w i = Some (g, u)"
      by (auto simp: IsThreatenedBy_def links_my [OF ok] split: option.splits)
    then have "IsInCombatWith (tw_combat w) g u"
      using inv by (auto simp: joint_inv_def combat_for_threat.backed_def)
    moreover have "tw_combat w = ?c'"
    proof -
      have "threat_inv (?w\<lparr>tw_combat := ?c'\<rparr>)" using inv0 by (simp add: joint_inv_def)
      then have "tw_combat ?v = ?c'" using shrinks_RemoveMe [OF e, of "?w\<lparr>tw_combat := ?c'\<rparr>" u f] by simp
      then show ?thesis
        using run_calls_ok [OF e inv2, of n] shrinks_ClearAll [OF v, of u] unfolding w' by simp
    qed
    moreover have "combat_inv ?c" using inv0 by (simp add: joint_inv_def combat_for_threat.backed_def)
    ultimately show False using that EndAll_refs(3) by simp
  qed
  with my show ?thesis by blast
qed

subsection \<open>Witnesses\<close>

definition skirmish_env :: "combat_world threat_env" where
  "skirmish_env = plain_env"

definition skirmish :: "joint_input list" where
  "skirmish = [(sample_units, skirmish_env, OfThreat (OpInitialize 1)),
     (sample_units, skirmish_env, OfThreat (OpAddThreat 1 2 100 None True True))]"

lemma skirmish_ok: "\<forall>x \<in> set skirmish. heap_members (fst (snd x))" "heap_members skirmish_env"
  by (simp_all add: skirmish_def skirmish_env_def plain_env_heap)

lemma Threat_implies_combat_witness: "IsInCombatWith (tw_combat (joint_run skirmish)) 2 1"
proof -
  have "IsThreatenedBy (joint_run skirmish) 1 2 True" by code_simp
  from Threat_implies_combat [OF skirmish_ok(1) this] show ?thesis by blast
qed

lemma EndAllCombat_clears_threat_witness:
  "tm_my (tw_mgr (joint_run (skirmish @ [(sample_units, skirmish_env, OfCombat (OpEndAll 2 None))])) 2) = []
   \<and> \<not> IsThreatenedBy (joint_run (skirmish @ [(sample_units, skirmish_env, OfCombat (OpEndAll 2 None))])) 1 2 True"
  using EndAllCombat_clears_threat [OF skirmish_ok refl, of sample_units 2 None 1] by (simp add: passes_def)

end
