(* ===== verification/Permissions.thy ===== *)
theory Permissions
  imports Prelude
begin

text \<open>
  What an account may do, \<^verbatim>\<open>server/game/Accounts/RBAC.{h,cpp}\<close> with the tables of permissions that
  \<^verbatim>\<open>AccountMgr::LoadRBAC\<close> fills.  A \<^verbatim>\<open>std::set<uint32>\<close> is a list in strictly ascending order.
  The rows of the account in \<^verbatim>\<open>rbac_account_permissions\<close> are part of the state, with the three
  statements of \<^verbatim>\<open>LoginDatabase.cpp\<close> that read and change them; the results of the queries of
  \<^verbatim>\<open>LoadRBAC\<close> are arguments.  The spec is \<open>stands_for\<close>: the permissions that a set of permissions
  stands for, by way of the links.  An asynchronous load ends in the same callback, and statements take effect in the order they are
  issued.
\<close>

section \<open>Permissions and their links\<close>

record rbac_permission =
  pm_id :: u32
  pm_name :: string
  pm_perms :: "u32 list"

type_synonym perm_table = "(u32, rbac_permission) omap"

definition set_insert :: "'a::linorder \<Rightarrow> 'a list \<Rightarrow> 'a list" where
  "set_insert x xs = insort_insert x xs"

definition set_erase :: "'a \<Rightarrow> 'a list \<Rightarrow> 'a list" where
  "set_erase x xs = removeAll x xs"

definition AddLinkedPermission :: "u32 \<Rightarrow> rbac_permission \<Rightarrow> rbac_permission" where
  "AddLinkedPermission i p = p\<lparr>pm_perms := set_insert i (pm_perms p)\<rparr>"

definition RemoveLinkedPermission :: "u32 \<Rightarrow> rbac_permission \<Rightarrow> rbac_permission" where
  "RemoveLinkedPermission i p = p\<lparr>pm_perms := set_erase i (pm_perms p)\<rparr>"

text \<open>
  The three queries of \<^verbatim>\<open>LoadRBAC\<close>: the definitions, the links and the defaults of each security
  level.  A link from an id without a definition would be a write through a null pointer; the
  foreign keys of the table exclude it, and the model leaves such a link out.
\<close>

definition load_permissions :: "(u32 \<times> string) list \<Rightarrow> perm_table" where
  "load_permissions rows = fold (\<lambda>(i, name). om_put i \<lparr>pm_id = i, pm_name = name, pm_perms = []\<rparr>) rows []"

definition load_link :: "u32 \<times> u32 \<Rightarrow> perm_table \<Rightarrow> perm_table" where
  "load_link x t = (case x of (i, linked) \<Rightarrow>
     if linked = i then t
     else case om_get t i of None \<Rightarrow> t | Some p \<Rightarrow> om_put i (AddLinkedPermission linked p) t)"

definition load_default :: "u8 \<times> u32 \<Rightarrow> (u8, u32 list) omap \<Rightarrow> (u8, u32 list) omap" where
  "load_default x m = (case x of (sec, i) \<Rightarrow>
     om_put sec (set_insert i (case om_get m sec of None \<Rightarrow> [] | Some ps \<Rightarrow> ps)) m)"

definition LoadRBAC :: "(u32 \<times> string) list \<Rightarrow> (u32 \<times> u32) list \<Rightarrow> (u8 \<times> u32) list
    \<Rightarrow> perm_table \<times> (u8, u32 list) omap" where
  "LoadRBAC permissions links defaults =
     (if permissions = [] then ([], [])
      else if links = [] then (load_permissions permissions, [])
      else (fold load_link links (load_permissions permissions), fold load_default defaults []))"

definition GetRBACDefaultPermissions :: "(u8, u32 list) omap \<Rightarrow> u8 \<Rightarrow> u32 list" where
  "GetRBACDefaultPermissions m sec = (case om_get m sec of None \<Rightarrow> [] | Some ps \<Rightarrow> ps)"

section \<open>Expanding a set of permissions\<close>

lemma length_filter_set_insert: "\<not> P x \<Longrightarrow> filter P (set_insert x xs) = filter P xs"
  by (simp add: set_insert_def insort_insert_key_def filter_insort_triv)

lemma set_set_insert [simp]: "set (set_insert x xs) = insert x (set xs)"
  by (simp add: set_insert_def set_insort_insert)

lemma set_set_erase [simp]: "set (set_erase x xs) = set xs - {x}"
  by (auto simp: set_erase_def)

definition add_links :: "u32 list \<Rightarrow> u32 list \<Rightarrow> u32 list \<Rightarrow> u32 list" where
  "add_links permissions links toCheck =
     fold (\<lambda>l c. if l \<in> set permissions then c else set_insert l c) links toCheck"

lemma filter_add_links: "filter (\<lambda>x. x \<in> set ps) (add_links ps ls c) = filter (\<lambda>x. x \<in> set ps) c"
  unfolding add_links_def by (induction ls arbitrary: c) (simp_all add: length_filter_set_insert)

lemma set_add_links: "set (add_links ps ls c) = set c \<union> (set ls - set ps)"
  unfolding add_links_def by (induction ls arbitrary: c) auto

text \<open>A permission is added, or one that was in the result already leaves the work list.\<close>

lemma card_new: "x \<notin> set ps \<Longrightarrow> card (- insert x (set ps)) < card (- set (ps :: u32 list))"
  by (intro psubset_card_mono) auto

function expand_loop :: "perm_table \<Rightarrow> u32 list \<Rightarrow> u32 list \<Rightarrow> u32 list" where
  "expand_loop t [] permissions = permissions"
| "expand_loop t (i # toCheck) permissions =
     (case om_get t i of
        None \<Rightarrow> expand_loop t toCheck permissions
      | Some p \<Rightarrow> let permissions' = set_insert i permissions
          in expand_loop t (add_links permissions' (pm_perms p) toCheck) permissions')"
  by pat_completeness auto

termination
proof (relation "measures [\<lambda>(t, c, ps). card (- set ps), \<lambda>(t, c, ps). length (filter (\<lambda>x. x \<in> set ps) c),
    \<lambda>(t, c, ps). length c]", simp, goal_cases)
  case (1 t i c ps)
  then show ?case by simp
next
  case (2 t i c ps p ps')
  show ?case
  proof (cases "i \<in> set ps")
    case True
    then have same: "set ps' = set ps" using 2 by (simp add: insert_absorb)
    have "filter (\<lambda>x. x \<in> set ps) (add_links ps' (pm_perms p) c) = filter (\<lambda>x. x \<in> set ps) c"
      using filter_add_links [of ps' "pm_perms p" c] by (simp add: same)
    then show ?thesis using True by (simp add: same)
  next
    case False
    then show ?thesis using 2 card_new [OF False] by simp
  qed
qed

definition ExpandPermissions :: "perm_table \<Rightarrow> u32 list \<Rightarrow> u32 list" where
  "ExpandPermissions t permissions = expand_loop t permissions []"

section \<open>The data of an account\<close>

record rbac_data =
  rb_id :: u32
  rb_name :: string
  rb_realmId :: int \<comment> \<open>an \<^verbatim>\<open>int32\<close>\<close>
  rb_secLevel :: u8
  grantedPerms :: "u32 list"
  deniedPerms :: "u32 list"
  globalPerms :: "u32 list"
  rb_rows :: "(u32, (int, bool) omap) omap" \<comment> \<open>the account's rows: permission, realm, \<^verbatim>\<open>granted\<close>\<close>

datatype rbac_result = RBAC_OK | RBAC_CANT_ADD_ALREADY_ADDED | RBAC_CANT_REVOKE_NOT_IN_LIST
  | RBAC_IN_GRANTED_LIST | RBAC_IN_DENIED_LIST | RBAC_ID_DOES_NOT_EXISTS

definition RBACData_init :: "u32 \<Rightarrow> string \<Rightarrow> int \<Rightarrow> u8 \<Rightarrow> (u32, (int, bool) omap) omap \<Rightarrow> rbac_data" where
  "RBACData_init i name realmId secLevel rows = \<lparr>rb_id = i, rb_name = name, rb_realmId = realmId,
     rb_secLevel = secLevel, grantedPerms = [], deniedPerms = [], globalPerms = [], rb_rows = rows\<rparr>"

definition HasPermission :: "rbac_data \<Rightarrow> u32 \<Rightarrow> bool" where
  "HasPermission d p \<longleftrightarrow> p \<in> set (globalPerms d)"

definition HasGrantedPermission :: "rbac_data \<Rightarrow> u32 \<Rightarrow> bool" where
  "HasGrantedPermission d p \<longleftrightarrow> p \<in> set (grantedPerms d)"

definition HasDeniedPermission :: "rbac_data \<Rightarrow> u32 \<Rightarrow> bool" where
  "HasDeniedPermission d p \<longleftrightarrow> p \<in> set (deniedPerms d)"

definition AddGrantedPermission :: "u32 \<Rightarrow> rbac_data \<Rightarrow> rbac_data" where
  "AddGrantedPermission p d = d\<lparr>grantedPerms := set_insert p (grantedPerms d)\<rparr>"

definition RemoveGrantedPermission :: "u32 \<Rightarrow> rbac_data \<Rightarrow> rbac_data" where
  "RemoveGrantedPermission p d = d\<lparr>grantedPerms := set_erase p (grantedPerms d)\<rparr>"

definition AddDeniedPermission :: "u32 \<Rightarrow> rbac_data \<Rightarrow> rbac_data" where
  "AddDeniedPermission p d = d\<lparr>deniedPerms := set_insert p (deniedPerms d)\<rparr>"

definition RemoveDeniedPermission :: "u32 \<Rightarrow> rbac_data \<Rightarrow> rbac_data" where
  "RemoveDeniedPermission p d = d\<lparr>deniedPerms := set_erase p (deniedPerms d)\<rparr>"

definition RemovePermissions :: "u32 list \<Rightarrow> u32 list \<Rightarrow> u32 list" where
  "RemovePermissions permsFrom permsToRemove = fold set_erase permsToRemove permsFrom"

definition CalculateNewPermissions :: "perm_table \<Rightarrow> rbac_data \<Rightarrow> rbac_data" where
  "CalculateNewPermissions t d = d\<lparr>globalPerms :=
     RemovePermissions (ExpandPermissions t (grantedPerms d)) (ExpandPermissions t (deniedPerms d))\<rparr>"

text \<open>\<^verbatim>\<open>INSERT ... ON DUPLICATE KEY UPDATE granted\<close>, \<^verbatim>\<open>DELETE\<close> and \<^verbatim>\<open>SELECT\<close> of the account's rows.\<close>

definition SavePermission :: "u32 \<Rightarrow> bool \<Rightarrow> int \<Rightarrow> rbac_data \<Rightarrow> rbac_data" where
  "SavePermission p granted realm d = d\<lparr>rb_rows :=
     om_put p (om_put realm granted (case om_get (rb_rows d) p of None \<Rightarrow> [] | Some rs \<Rightarrow> rs)) (rb_rows d)\<rparr>"

definition delete_rows :: "u32 \<Rightarrow> int \<Rightarrow> rbac_data \<Rightarrow> rbac_data" where
  "delete_rows p realm d = (case om_get (rb_rows d) p of None \<Rightarrow> d
     | Some rs \<Rightarrow> d\<lparr>rb_rows := om_put p (filter (\<lambda>(r, g). r \<noteq> realm \<and> r \<noteq> -1) rs) (rb_rows d)\<rparr>)"

definition select_rows :: "int \<Rightarrow> (u32, (int, bool) omap) omap \<Rightarrow> (u32 \<times> bool) list" where
  "select_rows realm rows =
     concat (map (\<lambda>(p, rs). map (\<lambda>(r, g). (p, g)) (filter (\<lambda>(r, g). r = realm \<or> r = -1) rs)) rows)"

definition GrantPermission :: "perm_table \<Rightarrow> u32 \<Rightarrow> int \<Rightarrow> rbac_data \<Rightarrow> rbac_result \<times> rbac_data" where
  "GrantPermission t p realmId d =
     (if om_get t p = None then (RBAC_ID_DOES_NOT_EXISTS, d)
      else if HasDeniedPermission d p then (RBAC_IN_DENIED_LIST, d)
      else if HasGrantedPermission d p then (RBAC_CANT_ADD_ALREADY_ADDED, d)
      else let d1 = AddGrantedPermission p d
        in (RBAC_OK, if realmId \<noteq> 0 then CalculateNewPermissions t (SavePermission p True realmId d1) else d1))"

definition DenyPermission :: "perm_table \<Rightarrow> u32 \<Rightarrow> int \<Rightarrow> rbac_data \<Rightarrow> rbac_result \<times> rbac_data" where
  "DenyPermission t p realmId d =
     (if om_get t p = None then (RBAC_ID_DOES_NOT_EXISTS, d)
      else if HasGrantedPermission d p then (RBAC_IN_GRANTED_LIST, d)
      else if HasDeniedPermission d p then (RBAC_CANT_ADD_ALREADY_ADDED, d)
      else let d1 = AddDeniedPermission p d
        in (RBAC_OK, if realmId \<noteq> 0 then CalculateNewPermissions t (SavePermission p False realmId d1) else d1))"

definition RevokePermission :: "perm_table \<Rightarrow> u32 \<Rightarrow> int \<Rightarrow> rbac_data \<Rightarrow> rbac_result \<times> rbac_data" where
  "RevokePermission t p realmId d =
     (if \<not> HasGrantedPermission d p \<and> \<not> HasDeniedPermission d p then (RBAC_CANT_REVOKE_NOT_IN_LIST, d)
      else let d1 = RemoveDeniedPermission p (RemoveGrantedPermission p d)
        in (RBAC_OK, if realmId \<noteq> 0 then CalculateNewPermissions t (delete_rows p realmId d1) else d1))"

definition ClearData :: "rbac_data \<Rightarrow> rbac_data" where
  "ClearData d = d\<lparr>grantedPerms := [], deniedPerms := [], globalPerms := []\<rparr>"

definition load_row :: "perm_table \<Rightarrow> u32 \<times> bool \<Rightarrow> rbac_data \<Rightarrow> rbac_data" where
  "load_row t x d = (case x of (p, granted) \<Rightarrow>
     if granted then snd (GrantPermission t p 0 d) else snd (DenyPermission t p 0 d))"

definition LoadFromDBCallback :: "perm_table \<Rightarrow> (u8, u32 list) omap \<Rightarrow> (u32 \<times> bool) list \<Rightarrow> rbac_data \<Rightarrow> rbac_data" where
  "LoadFromDBCallback t defaults rows d =
     (let d1 = fold (load_row t) rows d;
          d2 = fold (\<lambda>p d. snd (GrantPermission t p 0 d)) (GetRBACDefaultPermissions defaults (rb_secLevel d1)) d1
      in CalculateNewPermissions t d2)"

definition LoadFromDB :: "perm_table \<Rightarrow> (u8, u32 list) omap \<Rightarrow> rbac_data \<Rightarrow> rbac_data" where
  "LoadFromDB t defaults d =
     (let d1 = ClearData d in LoadFromDBCallback t defaults (select_rows (rb_realmId d1) (rb_rows d1)) d1)"

definition SetSecurityLevel :: "perm_table \<Rightarrow> (u8, u32 list) omap \<Rightarrow> u8 \<Rightarrow> rbac_data \<Rightarrow> rbac_data" where
  "SetSecurityLevel t defaults sec d = LoadFromDB t defaults (d\<lparr>rb_secLevel := sec\<rparr>)"

section \<open>What a set of permissions stands for\<close>

inductive stands_for :: "perm_table \<Rightarrow> u32 set \<Rightarrow> u32 \<Rightarrow> bool" for t ps where
  own: "i \<in> ps \<Longrightarrow> om_get t i \<noteq> None \<Longrightarrow> stands_for t ps i"
| link: "stands_for t ps i \<Longrightarrow> om_get t i = Some p \<Longrightarrow> l \<in> set (pm_perms p) \<Longrightarrow> om_get t l \<noteq> None \<Longrightarrow> stands_for t ps l"

inductive_cases stands_forE: "stands_for t ps i"

lemma stands_for_exists: "stands_for t ps i \<Longrightarrow> om_get t i \<noteq> None"
  by (auto elim: stands_forE)

lemma stands_for_mono: "stands_for t ps i \<Longrightarrow> ps \<subseteq> qs \<Longrightarrow> stands_for t qs i"
  by (induction rule: stands_for.induct) (auto intro: stands_for.intros)

lemma stands_for_trans: "stands_for t qs i \<Longrightarrow> \<forall>q \<in> qs. om_get t q \<noteq> None \<longrightarrow> stands_for t ps q \<Longrightarrow> stands_for t ps i"
  by (induction rule: stands_for.induct) (auto intro: stands_for.link)

text \<open>Nothing comes into the result but what the work list stands for.\<close>

lemma expand_loop_sound:
  "x \<in> set (expand_loop t c ps) \<Longrightarrow> x \<in> set ps \<or> stands_for t (set c) x"
proof (induction t c ps rule: expand_loop.induct)
  case (2 t i c ps)
  show ?case
  proof (cases "om_get t i")
    case None
    with 2 have "x \<in> set ps \<or> stands_for t (set c) x" by simp
    then show ?thesis by (auto intro: stands_for_mono)
  next
    case (Some p)
    let ?ps = "set_insert i ps"
    have "x \<in> set ?ps \<or> stands_for t (set (add_links ?ps (pm_perms p) c)) x"
      using 2 Some by (simp add: Let_def)
    moreover have i: "stands_for t (set (i # c)) i" using Some by (auto intro: stands_for.own)
    moreover have "stands_for t (set (i # c)) x" if "stands_for t (set (add_links ?ps (pm_perms p) c)) x"
      using that
    proof (rule stands_for_trans, intro ballI impI)
      fix q assume "q \<in> set (add_links ?ps (pm_perms p) c)" "om_get t q \<noteq> None"
      then show "stands_for t (set (i # c)) q"
        using Some i by (auto simp: set_add_links intro: stands_for.intros)
    qed
    ultimately show ?thesis by auto
  qed
qed simp

text \<open>The result keeps what it has, takes in the work list, and ends closed under the links.\<close>

lemma expand_loop_keeps: "set ps \<subseteq> set (expand_loop t c ps)"
  by (induction t c ps rule: expand_loop.induct) (auto simp: Let_def split: option.splits)

lemma expand_loop_takes: "i \<in> set c \<Longrightarrow> om_get t i \<noteq> None \<Longrightarrow> i \<in> set (expand_loop t c ps)"
proof (induction t c ps rule: expand_loop.induct)
  case (2 t j c ps)
  show ?case
  proof (cases "om_get t j")
    case None
    with 2 show ?thesis by auto
  next
    case (Some p)
    let ?ps = "set_insert j ps"
    have "j \<in> set (expand_loop t (add_links ?ps (pm_perms p) c) ?ps)" using expand_loop_keeps [of ?ps] by auto
    then show ?thesis using 2 Some by (auto simp: Let_def set_add_links)
  qed
qed simp

definition links_in :: "perm_table \<Rightarrow> u32 set \<Rightarrow> u32 set \<Rightarrow> bool" where
  "links_in t ps qs \<longleftrightarrow> (\<forall>i \<in> ps. \<forall>p. om_get t i = Some p \<longrightarrow> (\<forall>l \<in> set (pm_perms p). om_get t l \<noteq> None \<longrightarrow> l \<in> qs))"

lemma expand_loop_closed:
  "links_in t (set ps) (set ps \<union> set c) \<Longrightarrow> links_in t (set (expand_loop t c ps)) (set (expand_loop t c ps))"
proof (induction t c ps rule: expand_loop.induct)
  case (2 t i c ps)
  show ?case
  proof (cases "om_get t i")
    case None
    then have "links_in t (set ps) (set ps \<union> set c)" using "2.prems" by (fastforce simp: links_in_def)
    with 2 None show ?thesis by simp
  next
    case (Some p)
    let ?ps = "set_insert i ps"
    have "links_in t (set ?ps) (set ?ps \<union> set (add_links ?ps (pm_perms p) c))"
      using "2.prems" Some by (fastforce simp: links_in_def set_add_links)
    with 2 Some show ?thesis by (simp add: Let_def)
  qed
qed simp

lemma expand_iff: "i \<in> set (ExpandPermissions t ps) \<longleftrightarrow> stands_for t (set ps) i"
proof
  assume "i \<in> set (ExpandPermissions t ps)"
  then show "stands_for t (set ps) i" using expand_loop_sound [of i t ps "[]"] by (simp add: ExpandPermissions_def)
next
  let ?r = "expand_loop t ps []"
  have closed: "links_in t (set ?r) (set ?r)" by (rule expand_loop_closed) (simp add: links_in_def)
  assume "stands_for t (set ps) i"
  then have "i \<in> set ?r"
  proof (induction rule: stands_for.induct)
    case (own i)
    then show ?case by (rule expand_loop_takes)
  next
    case (link i p l)
    then show ?case using closed by (auto simp: links_in_def)
  qed
  then show "i \<in> set (ExpandPermissions t ps)" by (simp add: ExpandPermissions_def)
qed

lemma set_RemovePermissions [simp]: "set (RemovePermissions ps qs) = set ps - set qs"
  unfolding RemovePermissions_def by (induction qs arbitrary: ps) auto

lemma set_globalPerms: "set (globalPerms (CalculateNewPermissions t d)) =
    {p. stands_for t (set (grantedPerms d)) p \<and> \<not> stands_for t (set (deniedPerms d)) p}"
  by (auto simp: CalculateNewPermissions_def expand_iff)

section \<open>The lists of an account\<close>

lemmas rbac_defs = GrantPermission_def DenyPermission_def RevokePermission_def AddGrantedPermission_def
  AddDeniedPermission_def RemoveGrantedPermission_def RemoveDeniedPermission_def HasGrantedPermission_def
  HasDeniedPermission_def SavePermission_def delete_rows_def CalculateNewPermissions_def

definition sorted_set :: "'a::linorder list \<Rightarrow> bool" where
  "sorted_set xs \<longleftrightarrow> sorted xs \<and> distinct xs"

lemma sorted_set_insert [simp]: "sorted_set xs \<Longrightarrow> sorted_set (set_insert x xs)"
  by (simp add: sorted_set_def set_insert_def distinct_insort_insert sorted_insort_insert)

lemma sorted_set_erase [simp]: "sorted_set xs \<Longrightarrow> sorted_set (set_erase x xs)"
  by (simp add: sorted_set_def set_erase_def distinct_removeAll removeAll_filter_not_eq sorted_wrt_filter)

lemma sorted_set_Nil [simp]: "sorted_set []"
  by (simp add: sorted_set_def)

lemma sorted_set_eq: "sorted_set xs \<Longrightarrow> sorted_set ys \<Longrightarrow> set xs = set ys \<Longrightarrow> xs = ys"
  by (simp add: sorted_set_def sorted_distinct_set_unique)

definition lists_ok :: "perm_table \<Rightarrow> rbac_data \<Rightarrow> bool" where
  "lists_ok t d \<longleftrightarrow> sorted_set (grantedPerms d) \<and> sorted_set (deniedPerms d) \<and>
     set (grantedPerms d) \<inter> set (deniedPerms d) = {} \<and>
     (\<forall>p \<in> set (grantedPerms d) \<union> set (deniedPerms d). om_get t p \<noteq> None)"

text \<open>The global list is the one the other two lists ask for.\<close>

definition perms_current :: "perm_table \<Rightarrow> rbac_data \<Rightarrow> bool" where
  "perms_current t d \<longleftrightarrow> (\<forall>p. HasPermission d p \<longleftrightarrow>
     stands_for t (set (grantedPerms d)) p \<and> \<not> stands_for t (set (deniedPerms d)) p)"

lemma lists_unchanged [simp]: "grantedPerms (CalculateNewPermissions t d) = grantedPerms d"
  "deniedPerms (CalculateNewPermissions t d) = deniedPerms d" "grantedPerms (SavePermission p g r d) = grantedPerms d"
  "deniedPerms (SavePermission p g r d) = deniedPerms d" "grantedPerms (delete_rows p r d) = grantedPerms d"
  "deniedPerms (delete_rows p r d) = deniedPerms d"
  by (simp_all add: CalculateNewPermissions_def SavePermission_def delete_rows_def split: option.splits)

lemma op_lists: "grantedPerms (snd (GrantPermission t p r d)) =
    (if om_get t p = None \<or> p \<in> set (deniedPerms d) \<or> p \<in> set (grantedPerms d) then grantedPerms d
     else set_insert p (grantedPerms d))"
  "deniedPerms (snd (GrantPermission t p r d)) = deniedPerms d"
  "grantedPerms (snd (DenyPermission t p r d)) = grantedPerms d"
  "deniedPerms (snd (DenyPermission t p r d)) =
    (if om_get t p = None \<or> p \<in> set (deniedPerms d) \<or> p \<in> set (grantedPerms d) then deniedPerms d
     else set_insert p (deniedPerms d))"
  "grantedPerms (snd (RevokePermission t p r d)) = set_erase p (grantedPerms d)"
  "deniedPerms (snd (RevokePermission t p r d)) = set_erase p (deniedPerms d)"
  by (auto simp: GrantPermission_def DenyPermission_def RevokePermission_def Let_def AddGrantedPermission_def
      AddDeniedPermission_def RemoveGrantedPermission_def RemoveDeniedPermission_def HasGrantedPermission_def
      HasDeniedPermission_def set_erase_def)

lemma lists_ok_ops:
  assumes "lists_ok t d"
  shows "lists_ok t (snd (GrantPermission t p r d))" "lists_ok t (snd (DenyPermission t p r d))"
    "lists_ok t (snd (RevokePermission t p r d))"
  using assms by (auto simp: op_lists lists_ok_def)

lemma current_Calculate [simp]: "perms_current t (CalculateNewPermissions t d)"
  using set_globalPerms [of t d] by (auto simp: perms_current_def HasPermission_def)

lemma current_ops:
  assumes "perms_current t d" "r \<noteq> 0"
  shows "perms_current t (snd (GrantPermission t p r d))" "perms_current t (snd (DenyPermission t p r d))"
    "perms_current t (snd (RevokePermission t p r d))"
  using assms by (simp_all add: GrantPermission_def DenyPermission_def RevokePermission_def Let_def)

lemma lists_ok_load_row: "lists_ok t d \<Longrightarrow> lists_ok t (load_row t x d)"
  by (cases x) (simp add: load_row_def lists_ok_ops)

lemma lists_ok_fold:
  assumes "\<And>x d. lists_ok t d \<Longrightarrow> lists_ok t (f x d)" "lists_ok t d"
  shows "lists_ok t (fold f xs d)"
  using assms(2) by (induction xs arbitrary: d) (auto intro: assms(1))

lemma lists_ok_Calculate: "lists_ok t (CalculateNewPermissions t d) = lists_ok t d"
  by (simp add: lists_ok_def CalculateNewPermissions_def)

lemma lists_ok_Clear: "lists_ok t (ClearData d)"
  by (simp add: lists_ok_def ClearData_def)

lemma lists_ok_Load [simp]: "lists_ok t (LoadFromDB t defaults d)"
  unfolding LoadFromDB_def LoadFromDBCallback_def Let_def lists_ok_Calculate
  by (rule lists_ok_fold, erule lists_ok_ops, rule lists_ok_fold, erule lists_ok_load_row, rule lists_ok_Clear)

lemma current_Load [simp]: "perms_current t (LoadFromDB t defaults d)"
  by (simp add: LoadFromDB_def LoadFromDBCallback_def Let_def)

section \<open>Every operation\<close>

datatype rbac_op = OpGrant u32 int | OpDeny u32 int | OpRevoke u32 int | OpSecurity u8 | OpReload

fun rbac_step :: "perm_table \<Rightarrow> (u8, u32 list) omap \<Rightarrow> rbac_data \<Rightarrow> rbac_op \<Rightarrow> rbac_data" where
  "rbac_step t defaults d (OpGrant p r) = snd (GrantPermission t p r d)"
| "rbac_step t defaults d (OpDeny p r) = snd (DenyPermission t p r d)"
| "rbac_step t defaults d (OpRevoke p r) = snd (RevokePermission t p r d)"
| "rbac_step t defaults d (OpSecurity sec) = SetSecurityLevel t defaults sec d"
| "rbac_step t defaults d OpReload = LoadFromDB t defaults d"

text \<open>Realm 0 stands for a load in progress, which ends in a calculation of its own.\<close>

fun names_realm :: "rbac_op \<Rightarrow> bool" where
  "names_realm (OpGrant p r) = (r \<noteq> 0)"
| "names_realm (OpDeny p r) = (r \<noteq> 0)"
| "names_realm (OpRevoke p r) = (r \<noteq> 0)"
| "names_realm _ = True"

interpretation rbac: guarded_machine "LoadFromDB t defaults d" "rbac_step t defaults"
  "\<lambda>d. lists_ok t d \<and> perms_current t d" names_realm for t defaults d
proof (unfold_locales, goal_cases)
  case 1
  then show ?case by simp
next
  case (2 a s)
  then show ?case by (cases a) (simp_all add: lists_ok_ops current_ops SetSecurityLevel_def)
qed

section \<open>The rows of the account\<close>

definition in_force :: "int \<Rightarrow> (u32, (int, bool) omap) omap \<Rightarrow> u32 \<Rightarrow> bool option" where
  "in_force realm rows p = (case om_get rows p of None \<Rightarrow> None
     | Some rs \<Rightarrow> (case filter (\<lambda>(r, g). r = realm \<or> r = -1) rs of [] \<Rightarrow> None | (r, g) # _ \<Rightarrow> Some g))"

lemma map_of_const: "map_of (map (\<lambda>(r, g). (p, g)) rs) q =
    (if q = p then (case rs of [] \<Rightarrow> None | (r, g) # _ \<Rightarrow> Some g) else None)"
  by (induction rs) auto

lemma map_of_select: "om_ok rows \<Longrightarrow> map_of (select_rows realm rows) q = in_force realm rows q"
proof (induction rows)
  case (Cons x rows)
  obtain p rs where x: "x = (p, rs)" by fastforce
  have "om_get rows q = None" if "q = p" using Cons.prems that by (auto simp: x om_ok_Cons om_get_None_iff)
  then show ?case using Cons
    by (auto simp: x select_rows_def in_force_def om_get_Cons om_ok_Cons map_of_const map_add_def split: list.splits)
qed (simp add: select_rows_def in_force_def)

lemma load_row_lists: "grantedPerms (load_row t (p, g) d) =
    (if \<not> g \<or> om_get t p = None \<or> p \<in> set (deniedPerms d) \<or> p \<in> set (grantedPerms d) then grantedPerms d
     else set_insert p (grantedPerms d))"
  "deniedPerms (load_row t (p, g) d) =
    (if g \<or> om_get t p = None \<or> p \<in> set (deniedPerms d) \<or> p \<in> set (grantedPerms d) then deniedPerms d
     else set_insert p (deniedPerms d))"
  by (simp_all add: load_row_def op_lists)

lemma load_rows: "set (grantedPerms (fold (load_row t) rows d)) = set (grantedPerms d) \<union>
      {p. p \<notin> set (deniedPerms d) \<and> om_get t p \<noteq> None \<and> map_of rows p = Some True}"
  "set (deniedPerms (fold (load_row t) rows d)) = set (deniedPerms d) \<union>
      {p. p \<notin> set (grantedPerms d) \<and> om_get t p \<noteq> None \<and> map_of rows p = Some False}"
proof (induction rows arbitrary: d)
  case (Cons x rows)
  obtain p g where x: "x = (p, g)" by fastforce
  { case 1 show ?case by (cases g) (auto simp: x Cons load_row_lists split: if_splits) }
  { case 2 show ?case by (cases g) (auto simp: x Cons load_row_lists split: if_splits) }
qed auto

lemma load_defaults: "set (grantedPerms (fold (\<lambda>p d. snd (GrantPermission t p 0 d)) ps d)) = set (grantedPerms d) \<union>
      {p \<in> set ps. p \<notin> set (deniedPerms d) \<and> om_get t p \<noteq> None}"
  "deniedPerms (fold (\<lambda>p d. snd (GrantPermission t p 0 d)) ps d) = deniedPerms d"
proof (induction ps arbitrary: d)
  case (Cons x ps)
  { case 1 show ?case by (auto simp: Cons op_lists split: if_splits) }
  { case 2 show ?case by (simp add: Cons op_lists) }
qed auto

lemma load_fields: "rb_secLevel (fold (load_row t) rows d) = rb_secLevel d" "rb_rows (fold (load_row t) rows d) = rb_rows d"
  "rb_realmId (fold (load_row t) rows d) = rb_realmId d" "rb_id (fold (load_row t) rows d) = rb_id d"
  "rb_name (fold (load_row t) rows d) = rb_name d"
  by (induction rows arbitrary: d) (auto simp: load_row_def rbac_defs Let_def)

lemma load_default_fields: fixes t ps defines "f \<equiv> fold (\<lambda>p d. snd (GrantPermission t p 0 d)) ps"
  shows "rb_secLevel (f d) = rb_secLevel d" "rb_rows (f d) = rb_rows d" "rb_realmId (f d) = rb_realmId d"
    "rb_id (f d) = rb_id d" "rb_name (f d) = rb_name d"
  unfolding f_def by (induction ps arbitrary: d) (auto simp: rbac_defs Let_def)

text \<open>The lists say what the rows in force and the defaults say.\<close>

definition follows_rows :: "perm_table \<Rightarrow> u32 list \<Rightarrow> rbac_data \<Rightarrow> bool" where
  "follows_rows t defs d \<longleftrightarrow> om_ok (rb_rows d) \<and>
     set (grantedPerms d) = {p. om_get t p \<noteq> None \<and> (case in_force (rb_realmId d) (rb_rows d) p of
        None \<Rightarrow> p \<in> set defs | Some g \<Rightarrow> g)} \<and>
     set (deniedPerms d) = {p. om_get t p \<noteq> None \<and> in_force (rb_realmId d) (rb_rows d) p = Some False}"

abbreviation defaults_of :: "(u8, u32 list) omap \<Rightarrow> rbac_data \<Rightarrow> u32 list" where
  "defaults_of defaults d \<equiv> GetRBACDefaultPermissions defaults (rb_secLevel d)"

lemma Load_fields [simp]: "rb_secLevel (LoadFromDB t defaults d) = rb_secLevel d" "rb_rows (LoadFromDB t defaults d) = rb_rows d"
  "rb_realmId (LoadFromDB t defaults d) = rb_realmId d" "rb_id (LoadFromDB t defaults d) = rb_id d"
  "rb_name (LoadFromDB t defaults d) = rb_name d"
  by (simp_all add: LoadFromDB_def LoadFromDBCallback_def Let_def CalculateNewPermissions_def load_fields
      load_default_fields ClearData_def)

lemma Load_follows:
  assumes "om_ok (rb_rows d)"
  shows "follows_rows t (defaults_of defaults d) (LoadFromDB t defaults d)"
proof -
  let ?d = "ClearData d" and ?rows = "select_rows (rb_realmId d) (rb_rows d)"
  let ?f = "in_force (rb_realmId d) (rb_rows d)"
  have clear: "grantedPerms ?d = []" "deniedPerms ?d = []" "rb_realmId ?d = rb_realmId d" "rb_rows ?d = rb_rows d"
    "rb_secLevel ?d = rb_secLevel d" by (simp_all add: ClearData_def)
  have lists: "grantedPerms (LoadFromDB t defaults d) = grantedPerms (fold (\<lambda>p d. snd (GrantPermission t p 0 d))
        (defaults_of defaults d) (fold (load_row t) ?rows ?d))"
      "deniedPerms (LoadFromDB t defaults d) = deniedPerms (fold (load_row t) ?rows ?d)"
    by (simp_all add: LoadFromDB_def LoadFromDBCallback_def Let_def CalculateNewPermissions_def load_fields load_defaults clear)
  have "set (grantedPerms (LoadFromDB t defaults d)) = {p. om_get t p \<noteq> None \<and> (case ?f p of
        None \<Rightarrow> p \<in> set (defaults_of defaults d) | Some g \<Rightarrow> g)}"
    unfolding lists load_defaults load_rows clear map_of_select [OF assms] by (auto split: option.splits)
  moreover have "set (deniedPerms (LoadFromDB t defaults d)) = {p. om_get t p \<noteq> None \<and> ?f p = Some False}"
    unfolding lists load_rows clear map_of_select [OF assms] by auto
  ultimately show ?thesis using assms by (simp add: follows_rows_def)
qed

lemma in_force_put: "in_force realm (om_put p rs rows) q = (if q = p then
    (case filter (\<lambda>(r, g). r = realm \<or> r = -1) rs of [] \<Rightarrow> None | (r, g) # _ \<Rightarrow> Some g) else in_force realm rows q)"
  by (simp add: in_force_def)

lemma filter_om_put_new: "filter (\<lambda>(r, g). P r) rs = [] \<Longrightarrow> P k \<Longrightarrow> filter (\<lambda>(r, g). P r) (om_put k v rs) = [(k, v)]"
  by (induction k v rs rule: om_put.induct) (auto split: if_splits)

lemma in_force_save:
  assumes "in_force realm (rb_rows d) p = None" "r = realm \<or> r = -1"
  shows "in_force realm (rb_rows (SavePermission p g r d)) q = (if q = p then Some g else in_force realm (rb_rows d) q)"
proof -
  let ?rs = "case om_get (rb_rows d) p of None \<Rightarrow> [] | Some rs \<Rightarrow> rs"
  have "filter (\<lambda>(r, g). r = realm \<or> r = -1) ?rs = []" using assms(1) by (auto simp: in_force_def split: option.splits list.splits)
  then have "filter (\<lambda>(r, g). r = realm \<or> r = -1) (om_put r g ?rs) = [(r, g)]"
    using assms(2) by (rule filter_om_put_new)
  then show ?thesis by (simp add: SavePermission_def in_force_put)
qed

lemma in_force_delete: "in_force realm (rb_rows (delete_rows p realm d)) q = (if q = p then None else in_force realm (rb_rows d) q)"
proof (cases "om_get (rb_rows d) p")
  case (Some rs)
  have "filter (\<lambda>(r, g). r = realm \<or> r = -1) (filter (\<lambda>(r, g). r \<noteq> realm \<and> r \<noteq> -1) rs) = []" by (auto simp: filter_empty_conv)
  then show ?thesis using Some by (simp add: delete_rows_def in_force_put)
qed (simp add: delete_rows_def in_force_def)

text \<open>Which operations the rows keep up with: those for the account's own realm, or for all realms
  where a row is added.\<close>

fun keeps_rows :: "int \<Rightarrow> u32 list \<Rightarrow> rbac_op \<Rightarrow> bool" where
  "keeps_rows realm defs (OpGrant p r) = (r \<noteq> 0 \<and> (r = realm \<or> r = -1))"
| "keeps_rows realm defs (OpDeny p r) = (r \<noteq> 0 \<and> (r = realm \<or> r = -1))"
| "keeps_rows realm defs (OpRevoke p r) = (r \<noteq> 0 \<and> r = realm \<and> p \<notin> set defs)"
| "keeps_rows realm defs (OpSecurity sec) = False"
| "keeps_rows realm defs OpReload = True"

lemma om_ok_rows: "om_ok (rb_rows d) \<Longrightarrow> om_ok (rb_rows (SavePermission p g r d))"
  "om_ok (rb_rows d) \<Longrightarrow> om_ok (rb_rows (delete_rows p r d))"
  by (auto simp: SavePermission_def delete_rows_def split: option.splits)

lemma Calculate_fields [simp]: "rb_rows (CalculateNewPermissions t d) = rb_rows d"
  "rb_realmId (CalculateNewPermissions t d) = rb_realmId d" "rb_secLevel (CalculateNewPermissions t d) = rb_secLevel d"
  by (simp_all add: CalculateNewPermissions_def)

lemma rows_fields [simp]: "rb_realmId (SavePermission p g r d) = rb_realmId d" "rb_secLevel (SavePermission p g r d) = rb_secLevel d"
  "rb_realmId (delete_rows p r d) = rb_realmId d" "rb_secLevel (delete_rows p r d) = rb_secLevel d"
  by (auto simp: SavePermission_def delete_rows_def split: option.splits)

text \<open>A grant or denial that goes through finds no row in force and no default.\<close>

lemma follows_add:
  assumes "follows_rows t defs d" "om_get t p \<noteq> None" "p \<notin> set (grantedPerms d)" "p \<notin> set (deniedPerms d)"
    and r: "r = rb_realmId d \<or> r = -1"
  shows "follows_rows t defs (CalculateNewPermissions t (SavePermission p True r (AddGrantedPermission p d)))"
    "follows_rows t defs (CalculateNewPermissions t (SavePermission p False r (AddDeniedPermission p d)))"
proof -
  have none: "in_force (rb_realmId d) (rb_rows d) p = None"
    using assms(1-4) by (auto simp: follows_rows_def split: option.splits)
  have rows: "in_force (rb_realmId d) (rb_rows (SavePermission p g r d)) q
      = (if q = p then Some g else in_force (rb_realmId d) (rb_rows d) q)" for g q
    using none r by (rule in_force_save)
  have same: "rb_rows (SavePermission p g r (AddGrantedPermission p d)) = rb_rows (SavePermission p g r d)"
    "rb_rows (SavePermission p g r (AddDeniedPermission p d)) = rb_rows (SavePermission p g r d)"
    "rb_realmId (AddGrantedPermission p d) = rb_realmId d" "rb_realmId (AddDeniedPermission p d) = rb_realmId d"
    "set (grantedPerms (AddGrantedPermission p d)) = insert p (set (grantedPerms d))"
    "set (deniedPerms (AddDeniedPermission p d)) = insert p (set (deniedPerms d))"
    "deniedPerms (AddGrantedPermission p d) = deniedPerms d" "grantedPerms (AddDeniedPermission p d) = grantedPerms d" for g
    by (simp_all add: SavePermission_def AddGrantedPermission_def AddDeniedPermission_def)
  have ok: "om_ok (rb_rows (SavePermission p g r d))" for g using assms(1) by (intro om_ok_rows) (simp add: follows_rows_def)
  show "follows_rows t defs (CalculateNewPermissions t (SavePermission p True r (AddGrantedPermission p d)))"
    using assms none unfolding follows_rows_def by (auto simp: same rows ok split: option.splits)
  show "follows_rows t defs (CalculateNewPermissions t (SavePermission p False r (AddDeniedPermission p d)))"
    using assms none unfolding follows_rows_def by (auto simp: same rows ok split: option.splits)
qed

lemma follows_remove:
  assumes "follows_rows t defs d" "p \<notin> set defs"
  shows "follows_rows t defs (CalculateNewPermissions t (delete_rows p (rb_realmId d) (RemoveDeniedPermission p (RemoveGrantedPermission p d))))"
proof -
  let ?d = "RemoveDeniedPermission p (RemoveGrantedPermission p d)"
  have same: "rb_rows ?d = rb_rows d" "rb_realmId ?d = rb_realmId d" "set (grantedPerms ?d) = set (grantedPerms d) - {p}"
    "set (deniedPerms ?d) = set (deniedPerms d) - {p}"
    by (simp_all add: RemoveDeniedPermission_def RemoveGrantedPermission_def)
  have "om_ok (rb_rows (delete_rows p (rb_realmId d) ?d))" using assms(1) by (intro om_ok_rows) (simp add: follows_rows_def same)
  then show ?thesis using assms in_force_delete [of "rb_realmId d" p ?d]
    unfolding follows_rows_def by (auto simp: same split: option.splits)
qed

lemma follows_step:
  assumes "follows_rows t (defaults_of defaults d) d" "keeps_rows (rb_realmId d) (defaults_of defaults d) a"
  shows "follows_rows t (defaults_of defaults d) (rbac_step t defaults d a)"
proof (cases a)
  case (OpGrant p r)
  then show ?thesis using assms
    by (auto simp: GrantPermission_def HasGrantedPermission_def HasDeniedPermission_def Let_def intro: follows_add)
next
  case (OpDeny p r)
  then show ?thesis using assms
    by (auto simp: DenyPermission_def HasGrantedPermission_def HasDeniedPermission_def Let_def intro: follows_add)
next
  case (OpRevoke p r)
  then show ?thesis using assms by (auto simp: RevokePermission_def Let_def intro: follows_remove)
next
  case OpReload
  then show ?thesis using assms(1) Load_follows [of d] by (simp add: follows_rows_def)
qed (use assms in simp)

lemma op_fields [simp]: "rb_realmId (snd (GrantPermission t p r d)) = rb_realmId d"
  "rb_secLevel (snd (GrantPermission t p r d)) = rb_secLevel d" "rb_realmId (snd (DenyPermission t p r d)) = rb_realmId d"
  "rb_secLevel (snd (DenyPermission t p r d)) = rb_secLevel d" "rb_realmId (snd (RevokePermission t p r d)) = rb_realmId d"
  "rb_secLevel (snd (RevokePermission t p r d)) = rb_secLevel d"
  by (simp_all add: GrantPermission_def DenyPermission_def RevokePermission_def Let_def AddGrantedPermission_def
      AddDeniedPermission_def RemoveGrantedPermission_def RemoveDeniedPermission_def)

lemma step_realm: "rb_realmId (rbac_step t defaults d a) = rb_realmId d"
  by (cases a) (simp_all add: SetSecurityLevel_def)

lemma step_level: "keeps_rows r defs a \<Longrightarrow> rb_secLevel (rbac_step t defaults d a) = rb_secLevel d"
  by (cases a) simp_all

lemma follows_run:
  "follows_rows t (defaults_of defaults d) d \<Longrightarrow> \<forall>a \<in> set ops. keeps_rows (rb_realmId d) (defaults_of defaults d) a \<Longrightarrow>
   follows_rows t (defaults_of defaults d) (foldl (rbac_step t defaults) d ops) \<and>
   rb_secLevel (foldl (rbac_step t defaults) d ops) = rb_secLevel d \<and> rb_realmId (foldl (rbac_step t defaults) d ops) = rb_realmId d"
proof (induction ops arbitrary: d)
  case (Cons a ops)
  let ?d = "rbac_step t defaults d a"
  have a: "keeps_rows (rb_realmId d) (defaults_of defaults d) a" using Cons.prems(2) by simp
  have same: "rb_realmId ?d = rb_realmId d" "rb_secLevel ?d = rb_secLevel d"
    by (rule step_realm) (rule step_level [OF a])
  have "follows_rows t (defaults_of defaults ?d) ?d" using follows_step [OF Cons.prems(1) a] by (simp add: same)
  then show ?case using Cons.IH [of ?d] Cons.prems(2) by (simp add: same)
qed simp

lemma names_realm_keeps: "keeps_rows r defs a \<Longrightarrow> names_realm a"
  by (cases a) auto

lemma same_lists:
  assumes "lists_ok t d" "lists_ok t d'" "follows_rows t defs d" "follows_rows t defs d'" "rb_rows d = rb_rows d'"
    "rb_realmId d = rb_realmId d'"
  shows "grantedPerms d = grantedPerms d'" "deniedPerms d = deniedPerms d'"
proof -
  have "set (grantedPerms d) = set (grantedPerms d')" "set (deniedPerms d) = set (deniedPerms d')"
    using assms(3,4) unfolding follows_rows_def by (simp_all only: assms(5,6))
  then show "grantedPerms d = grantedPerms d'" "deniedPerms d = deniedPerms d'"
    using assms(1,2) by (auto simp only: lists_ok_def intro: sorted_set_eq)
qed

section \<open>Properties\<close>

text \<open>
  C16: Once an account is loaded, after any sequence of grants, denials, revocations, reloads and
  changes of the security level: it holds a permission exactly if a granted one stands for it by way
  of the links and no denied one does; the two lists have nothing in common and name only
  permissions that exist.
\<close>

theorem permissions_follow_links:
  assumes "\<forall>a \<in> set ops. names_realm a"
  shows "let d = foldl (rbac_step t defaults) (LoadFromDB t defaults d0) ops in
    (HasPermission d p \<longleftrightarrow> stands_for t (set (grantedPerms d)) p \<and> \<not> stands_for t (set (deniedPerms d)) p) \<and>
    \<not> (HasGrantedPermission d p \<and> HasDeniedPermission d p) \<and>
    (HasDeniedPermission d p \<longrightarrow> \<not> HasPermission d p) \<and>
    (HasGrantedPermission d p \<or> HasDeniedPermission d p \<longrightarrow> om_get t p \<noteq> None)"
proof -
  let ?d = "foldl (rbac_step t defaults) (LoadFromDB t defaults d0) ops"
  have "lists_ok t ?d" "perms_current t ?d" using rbac.guarded_run [OF assms, of t defaults d0] by auto
  then show ?thesis
    by (auto simp: Let_def lists_ok_def perms_current_def HasGrantedPermission_def HasDeniedPermission_def intro: stands_for.own)
qed

definition demo_perms :: perm_table where
  "demo_perms = fst (LoadRBAC [(1, ''admin''), (2, ''moderator''), (3, ''player''), (4, ''kick'')] [(1, 2), (2, 3), (2, 4)] [(0, 3)])"

definition demo_account :: rbac_data where
  "demo_account = RBACData_init 7 ''bob'' 1 0 []"

theorem permissions_follow_links_witness:
  "(let d = foldl (rbac_step demo_perms [(0, [3])]) (LoadFromDB demo_perms [(0, [3])] demo_account) [OpGrant 1 1, OpDeny 4 1] in
    (HasPermission d 3 \<longleftrightarrow> stands_for demo_perms (set (grantedPerms d)) 3 \<and> \<not> stands_for demo_perms (set (deniedPerms d)) 3) \<and>
    \<not> (HasGrantedPermission d 3 \<and> HasDeniedPermission d 3) \<and> (HasDeniedPermission d 3 \<longrightarrow> \<not> HasPermission d 3) \<and>
    (HasGrantedPermission d 3 \<or> HasDeniedPermission d 3 \<longrightarrow> om_get demo_perms 3 \<noteq> None)) \<and>
   globalPerms (foldl (rbac_step demo_perms [(0, [3])]) (LoadFromDB demo_perms [(0, [3])] demo_account) [OpGrant 1 1, OpDeny 4 1])
     = [1, 2, 3]"
proof (rule conjI)
  show "globalPerms (foldl (rbac_step demo_perms [(0, [3])]) (LoadFromDB demo_perms [(0, [3])] demo_account) [OpGrant 1 1, OpDeny 4 1])
     = [1, 2, 3]" by code_simp
qed (rule permissions_follow_links, simp)

text \<open>
  C17: The rows that the operations write are enough to restore the account: after any sequence of
  grants and denials, for its realm or for all realms, and of revocations for its realm of
  permissions that are not defaults, a reload changes nothing.
\<close>

theorem reload_changes_nothing:
  assumes "om_ok (rb_rows d0)"
    and "\<forall>a \<in> set ops. keeps_rows (rb_realmId d0) (GetRBACDefaultPermissions defaults (rb_secLevel d0)) a"
  shows "let d = foldl (rbac_step t defaults) (LoadFromDB t defaults d0) ops; d' = LoadFromDB t defaults d in
    grantedPerms d' = grantedPerms d \<and> deniedPerms d' = deniedPerms d \<and> HasPermission d' = HasPermission d"
proof -
  let ?d = "foldl (rbac_step t defaults) (LoadFromDB t defaults d0) ops"
  let ?d' = "LoadFromDB t defaults ?d"
  have "\<forall>a \<in> set ops. names_realm a" using assms(2) names_realm_keeps by blast
  then have ok: "lists_ok t ?d" "perms_current t ?d" using rbac.guarded_run [of ops t defaults d0] by auto
  have f: "follows_rows t (defaults_of defaults d0) ?d" and l: "rb_secLevel ?d = rb_secLevel d0"
    using follows_run [of t defaults "LoadFromDB t defaults d0" ops] Load_follows [OF assms(1), of t defaults] assms(2) by auto
  then have "follows_rows t (defaults_of defaults d0) ?d'"
    using Load_follows [of ?d t defaults] by (simp add: follows_rows_def)
  with ok f have same: "grantedPerms ?d' = grantedPerms ?d" "deniedPerms ?d' = deniedPerms ?d"
    using same_lists [of t ?d' ?d "defaults_of defaults d0"] by simp_all
  moreover have "HasPermission ?d' = HasPermission ?d"
    using ok(2) current_Load [of t defaults ?d] by (auto simp: perms_current_def same)
  ultimately show ?thesis by (simp add: Let_def)
qed

theorem reload_changes_nothing_witness:
  "let ops = [OpGrant 2 1, OpDeny 4 (-1), OpRevoke 2 1];
     d = foldl (rbac_step demo_perms [(0, [3])]) (LoadFromDB demo_perms [(0, [3])] demo_account) ops;
     d' = LoadFromDB demo_perms [(0, [3])] d in
   grantedPerms d' = grantedPerms d \<and> deniedPerms d' = deniedPerms d \<and> HasPermission d' = HasPermission d"
  using reload_changes_nothing [of demo_account "[OpGrant 2 1, OpDeny 4 (-1), OpRevoke 2 1]" "[(0, [3])]" demo_perms]
  by (simp add: Let_def demo_account_def RBACData_init_def GetRBACDefaultPermissions_def om_get_Cons)

text \<open>
  The answer of a command names its case, and a command that is refused changes nothing.  A grant
  that is accepted and then revoked leaves the lists as they were.
\<close>

lemma command_results:
  "let g = GrantPermission t p r d; dn = DenyPermission t p r d; rv = RevokePermission t p r d in
    (fst g = RBAC_OK \<longleftrightarrow> om_get t p \<noteq> None \<and> \<not> HasGrantedPermission d p \<and> \<not> HasDeniedPermission d p) \<and>
    (fst dn = RBAC_OK \<longleftrightarrow> om_get t p \<noteq> None \<and> \<not> HasGrantedPermission d p \<and> \<not> HasDeniedPermission d p) \<and>
    (fst rv = RBAC_OK \<longleftrightarrow> HasGrantedPermission d p \<or> HasDeniedPermission d p) \<and>
    (fst g \<noteq> RBAC_OK \<longrightarrow> snd g = d) \<and> (fst dn \<noteq> RBAC_OK \<longrightarrow> snd dn = d) \<and> (fst rv \<noteq> RBAC_OK \<longrightarrow> snd rv = d) \<and>
    (fst g = RBAC_OK \<longrightarrow> HasGrantedPermission (snd g) p \<and>
       (lists_ok t d \<longrightarrow> grantedPerms (snd (RevokePermission t p r (snd g))) = grantedPerms d \<and>
                        deniedPerms (snd (RevokePermission t p r (snd g))) = deniedPerms d))"
proof -
  have "set_erase p (set_insert p xs) = xs" if "sorted_set xs" "p \<notin> set xs" for xs
    using that by (intro sorted_set_eq) simp_all
  moreover have "set_erase p xs = xs" if "p \<notin> set xs" for xs using that by (simp add: set_erase_def)
  ultimately show ?thesis
    by (auto simp: Let_def GrantPermission_def DenyPermission_def RevokePermission_def HasGrantedPermission_def
        HasDeniedPermission_def lists_ok_def AddGrantedPermission_def RemoveGrantedPermission_def RemoveDeniedPermission_def)
qed

end
