(* ===== verification/Channel.thy ===== *)
theory Channel
  imports Prelude
begin

text \<open>
  Chat channels, \<^verbatim>\<open>server/game/Chat/Channels/Channel.{h,cpp}\<close>: who is on a channel, who owns and
  moderates it, who is banned, and what goes out to whom.  Packets, the calls of the player code and
  the statements for the database are written to \<open>ch_log\<close>.  What the code asks of players and of
  the configuration is the argument \<open>e\<close>; names are those of \<^verbatim>\<open>FindConnectedPlayerByName\<close>.  The
  members are a \<^verbatim>\<open>std::map\<close>, a list in key order; the banned are a hash set, a list without
  duplicates whose order has no meaning.
\<close>

unbundle bit_operations_syntax

section \<open>Constants\<close>

definition CHANNEL_FLAG_CUSTOM :: u8 where "CHANNEL_FLAG_CUSTOM = 0x01"
definition CHANNEL_FLAG_TRADE :: u8 where "CHANNEL_FLAG_TRADE = 0x04"
definition CHANNEL_FLAG_NOT_LFG :: u8 where "CHANNEL_FLAG_NOT_LFG = 0x08"
definition CHANNEL_FLAG_GENERAL :: u8 where "CHANNEL_FLAG_GENERAL = 0x10"
definition CHANNEL_FLAG_CITY :: u8 where "CHANNEL_FLAG_CITY = 0x20"
definition CHANNEL_FLAG_LFG :: u8 where "CHANNEL_FLAG_LFG = 0x40"
definition CHANNEL_DBC_FLAG_GLOBAL :: u32 where "CHANNEL_DBC_FLAG_GLOBAL = 0x00004"
definition CHANNEL_DBC_FLAG_TRADE :: u32 where "CHANNEL_DBC_FLAG_TRADE = 0x00008"
definition CHANNEL_DBC_FLAG_CITY_ONLY :: u32 where "CHANNEL_DBC_FLAG_CITY_ONLY = 0x00010"
definition CHANNEL_DBC_FLAG_CITY_ONLY2 :: u32 where "CHANNEL_DBC_FLAG_CITY_ONLY2 = 0x00020"
definition CHANNEL_DBC_FLAG_LFG :: u32 where "CHANNEL_DBC_FLAG_LFG = 0x40000"
definition MEMBER_FLAG_NONE :: u8 where "MEMBER_FLAG_NONE = 0x00"
definition MEMBER_FLAG_OWNER :: u8 where "MEMBER_FLAG_OWNER = 0x01"
definition MEMBER_FLAG_MODERATOR :: u8 where "MEMBER_FLAG_MODERATOR = 0x02"
definition MEMBER_FLAG_MUTED :: u8 where "MEMBER_FLAG_MUTED = 0x08"
definition PERM_TWO_SIDE_INTERACTION_CHANNEL :: u32 where "PERM_TWO_SIDE_INTERACTION_CHANNEL = 26"
definition PERM_WHO_SEE_ALL_SEC_LEVELS :: u32 where "PERM_WHO_SEE_ALL_SEC_LEVELS = 35"
definition PERM_SILENTLY_JOIN_CHANNEL :: u32 where "PERM_SILENTLY_JOIN_CHANNEL = 45"
definition PERM_CHANGE_CHANNEL_NOT_MODERATOR :: u32 where "PERM_CHANGE_CHANNEL_NOT_MODERATOR = 46"
definition LANG_UNIVERSAL :: u32 where "LANG_UNIVERSAL = 0"

section \<open>Members\<close>

record player_info =
  pi_flags :: u8
  pi_invisible :: bool

definition IsOwner :: "player_info \<Rightarrow> bool" where
  "IsOwner i \<longleftrightarrow> pi_flags i AND MEMBER_FLAG_OWNER \<noteq> 0"

definition Info_SetOwner :: "bool \<Rightarrow> player_info \<Rightarrow> player_info" where
  "Info_SetOwner state i = i\<lparr>pi_flags :=
     (if state then pi_flags i OR MEMBER_FLAG_OWNER else pi_flags i AND NOT MEMBER_FLAG_OWNER)\<rparr>"

definition IsModerator :: "player_info \<Rightarrow> bool" where
  "IsModerator i \<longleftrightarrow> pi_flags i AND MEMBER_FLAG_MODERATOR \<noteq> 0"

definition Info_SetModerator :: "bool \<Rightarrow> player_info \<Rightarrow> player_info" where
  "Info_SetModerator state i = i\<lparr>pi_flags :=
     (if state then pi_flags i OR MEMBER_FLAG_MODERATOR else pi_flags i AND NOT MEMBER_FLAG_MODERATOR)\<rparr>"

definition IsMuted :: "player_info \<Rightarrow> bool" where
  "IsMuted i \<longleftrightarrow> pi_flags i AND MEMBER_FLAG_MUTED \<noteq> 0"

definition Info_SetMuted :: "bool \<Rightarrow> player_info \<Rightarrow> player_info" where
  "Info_SetMuted state i = i\<lparr>pi_flags :=
     (if state then pi_flags i OR MEMBER_FLAG_MUTED else pi_flags i AND NOT MEMBER_FLAG_MUTED)\<rparr>"

definition Info_SetInvisible :: "bool \<Rightarrow> player_info \<Rightarrow> player_info" where
  "Info_SetInvisible on i = i\<lparr>pi_invisible := on\<rparr>"

section \<open>The channel\<close>

text \<open>The packets, named by their appenders in \<^verbatim>\<open>ChannelAppenders.h\<close>.\<close>

datatype notice =
    JoinedNotice guid | LeftNotice guid | YouJoinedNotice u8 u32 | YouLeftNotice u32 bool
  | WrongPasswordNotice | NotMemberNotice | NotModeratorNotice | PasswordChangedNotice guid
  | OwnerChangedNotice guid | PlayerNotFoundNotice string | NotOwnerNotice | ChannelOwnerNotice bool guid
  | ModeChangeNotice guid u8 u8 | AnnouncementsOnNotice guid | AnnouncementsOffNotice guid | MutedNotice
  | PlayerKickedNotice guid guid | BannedNotice | PlayerBannedNotice guid guid | PlayerUnbannedNotice guid guid
  | PlayerAlreadyMemberNotice guid | InviteNotice guid | InviteWrongFactionNotice | PlayerInvitedNotice string
  | PlayerInviteBannedNotice string | NotInLFGNotice
  | UserlistAdd guid u8 u8 u32 | UserlistUpdate guid u8 u8 u32 | UserlistRemove guid u8 u32
  | ChatMessage guid string u32
  | ChannelList u8 "(guid \<times> u8) list"

datatype channel_event =
    Sent guid notice
  | CallJoinedChannel guid
  | CallLeftChannel guid
  | DbUpdateChannel bool bool string string string u32 \<comment> \<open>announce, ownership, password, banned, name, team\<close>
  | DbUpdateUsage string u32
  | DbInsertChannel string u32

record channel =
  announceEnabled :: bool
  ownershipEnabled :: bool
  persistentChannel :: bool
  isOwnerInvisible :: bool
  channelFlags :: u8
  channelId :: u32
  channelTeam :: u32
  ownerGuid :: guid
  channelName :: string
  channelPassword :: string
  playersStore :: "(guid, player_info) omap"
  bannedStore :: "guid list"
  zoneEntry :: "u32 option"
  ch_log :: "channel_event list"
  ch_dangling :: bool \<comment> \<open>a write through a reference to an erased member\<close>

record channel_env =
  ce_connected :: "guid \<Rightarrow> bool"
  ce_by_name :: "string \<Rightarrow> guid option"
  ce_name :: "guid \<Rightarrow> string"
  ce_team :: "guid \<Rightarrow> u32"
  ce_perm :: "guid \<Rightarrow> u32 \<Rightarrow> bool"
  ce_gm_visible :: "guid \<Rightarrow> bool"
  ce_ignores :: "guid \<Rightarrow> guid \<Rightarrow> bool" \<comment> \<open>the first has the second on the ignore list\<close>
  ce_player_account :: "guid \<Rightarrow> bool"
  ce_in_group :: "guid \<Rightarrow> bool"
  ce_security :: "guid \<Rightarrow> u8"
  ce_visible_for :: "guid \<Rightarrow> guid \<Rightarrow> bool" \<comment> \<open>\<^verbatim>\<open>member->IsVisibleGloballyFor(player)\<close>\<close>
  ce_restricted_lfg :: bool
  ce_two_side :: bool
  ce_gm_level_in_who :: u8

text \<open>The built-in constructor; \<open>dbc\<close> are the flags of the channel's client table entry.\<close>

definition Channel_builtin :: "u32 \<Rightarrow> u32 \<Rightarrow> u32 \<Rightarrow> u32 option \<Rightarrow> channel" where
  "Channel_builtin dbc i team zone =
     \<lparr>announceEnabled = False, ownershipEnabled = False, persistentChannel = False, isOwnerInvisible = False,
      channelFlags = CHANNEL_FLAG_GENERAL
        OR (if dbc AND CHANNEL_DBC_FLAG_TRADE \<noteq> 0 then CHANNEL_FLAG_TRADE else 0)
        OR (if dbc AND CHANNEL_DBC_FLAG_CITY_ONLY2 \<noteq> 0 then CHANNEL_FLAG_CITY else 0)
        OR (if dbc AND CHANNEL_DBC_FLAG_LFG \<noteq> 0 then CHANNEL_FLAG_LFG else CHANNEL_FLAG_NOT_LFG),
      channelId = i, channelTeam = team, ownerGuid = 0, channelName = [], channelPassword = [],
      playersStore = [], bannedStore = [], zoneEntry = zone, ch_log = [], ch_dangling = False\<rparr>"

text \<open>The text of the ban list: decimal numbers, each followed by a blank.\<close>

definition ban_text :: "guid list \<Rightarrow> string" where
  "ban_text gs = concat (map (\<lambda>g. raw_string (unat g) @ '' '') gs)"

fun token_loop :: "char \<Rightarrow> string \<Rightarrow> string \<Rightarrow> string list" where
  "token_loop sep cur [] = (if cur = [] then [] else [cur])"
| "token_loop sep cur (c # cs) =
     (if c = sep then (if cur = [] then token_loop sep [] cs else cur # token_loop sep [] cs)
      else token_loop sep (cur @ [c]) cs)"

definition Tokenize :: "string \<Rightarrow> char \<Rightarrow> string list" where
  "Tokenize s sep = token_loop sep [] s"

fun from_chars :: "nat \<Rightarrow> string \<Rightarrow> nat option" where
  "from_chars n [] = Some n"
| "from_chars n (c # cs) = (let k = of_char c :: nat in
     if 48 \<le> k \<and> k \<le> 57 then from_chars (n * 10 + (k - 48)) cs else None)"

definition StringTo_u64 :: "string \<Rightarrow> u64 option" where
  "StringTo_u64 s = (if s = [] then None
     else case from_chars 0 s of None \<Rightarrow> None | Some n \<Rightarrow> if n < 2 ^ 64 then Some (of_nat n) else None)"

definition parse_bans :: "string \<Rightarrow> guid list" where
  "parse_bans s = fold (\<lambda>t bans. let g = (case StringTo_u64 t of Some g \<Rightarrow> g | None \<Rightarrow> 0)
     in if g \<noteq> 0 then List.insert g bans else bans) (Tokenize s CHR '' '') []"

record channel_row =
  cr_name :: string
  cr_announce :: bool
  cr_ownership :: bool
  cr_password :: string
  cr_banned :: string

text \<open>The constructor of a custom channel: \<open>preserve\<close> is the setting, \<open>row\<close> the answer of the query.\<close>

definition Channel_custom :: "bool \<Rightarrow> channel_row option \<Rightarrow> string \<Rightarrow> u32 \<Rightarrow> channel" where
  "Channel_custom preserve row name team =
     (let c = \<lparr>announceEnabled = True, ownershipEnabled = True, persistentChannel = False, isOwnerInvisible = False,
        channelFlags = CHANNEL_FLAG_CUSTOM, channelId = 0, channelTeam = team, ownerGuid = 0, channelName = name,
        channelPassword = [], playersStore = [], bannedStore = [], zoneEntry = None, ch_log = [], ch_dangling = False\<rparr>
      in if \<not> preserve then c
         else (case row of
             None \<Rightarrow> c\<lparr>ch_log := [DbInsertChannel name team]\<rparr>
           | Some r \<Rightarrow> c\<lparr>channelName := cr_name r, announceEnabled := cr_announce r, ownershipEnabled := cr_ownership r,
               channelPassword := cr_password r, bannedStore := parse_bans (cr_banned r)\<rparr>)\<lparr>persistentChannel := True\<rparr>)"

definition IsConstant :: "channel \<Rightarrow> bool" where "IsConstant c \<longleftrightarrow> channelId c \<noteq> 0"
definition ChannelHasFlag :: "channel \<Rightarrow> u8 \<Rightarrow> bool" where "ChannelHasFlag c f \<longleftrightarrow> channelFlags c AND f \<noteq> 0"
definition IsOn :: "channel \<Rightarrow> guid \<Rightarrow> bool" where "IsOn c g \<longleftrightarrow> om_get (playersStore c) g \<noteq> None"
definition IsBanned :: "channel \<Rightarrow> guid \<Rightarrow> bool" where "IsBanned c g \<longleftrightarrow> g \<in> set (bannedStore c)"
definition GetNumPlayers :: "channel \<Rightarrow> u32" where "GetNumPlayers c = of_nat (length (playersStore c))"

definition info_of :: "channel \<Rightarrow> guid \<Rightarrow> player_info" where
  "info_of c g = (case om_get (playersStore c) g of Some i \<Rightarrow> i | None \<Rightarrow> \<lparr>pi_flags = 0, pi_invisible = False\<rparr>)"

definition GetPlayerFlags :: "channel \<Rightarrow> guid \<Rightarrow> u8" where
  "GetPlayerFlags c g = (case om_get (playersStore c) g of Some i \<Rightarrow> pi_flags i | None \<Rightarrow> 0)"

definition upd_info :: "guid \<Rightarrow> (player_info \<Rightarrow> player_info) \<Rightarrow> channel \<Rightarrow> channel" where
  "upd_info g f c = (case om_get (playersStore c) g of None \<Rightarrow> c
     | Some i \<Rightarrow> c\<lparr>playersStore := om_put g (f i) (playersStore c)\<rparr>)"

definition event :: "channel_event \<Rightarrow> channel \<Rightarrow> channel" where
  "event x c = c\<lparr>ch_log := ch_log c @ [x]\<rparr>"

definition SendToOne :: "channel_env \<Rightarrow> notice \<Rightarrow> guid \<Rightarrow> channel \<Rightarrow> channel" where
  "SendToOne e n who c = (if ce_connected e who then event (Sent who n) c else c)"

definition SendToAll :: "channel_env \<Rightarrow> notice \<Rightarrow> guid \<Rightarrow> channel \<Rightarrow> channel" where
  "SendToAll e n guid c = fold (\<lambda>p c. if ce_connected e p \<and> (guid = 0 \<or> \<not> ce_ignores e p guid) then event (Sent p n) c else c)
     (map fst (playersStore c)) c"

definition SendToAllButOne :: "channel_env \<Rightarrow> notice \<Rightarrow> guid \<Rightarrow> channel \<Rightarrow> channel" where
  "SendToAllButOne e n who c = fold (\<lambda>p c. if p \<noteq> who \<and> ce_connected e p then event (Sent p n) c else c)
     (map fst (playersStore c)) c"

definition UpdateChannelInDB :: "channel \<Rightarrow> channel" where
  "UpdateChannelInDB c = (if persistentChannel c
     then event (DbUpdateChannel (announceEnabled c) (ownershipEnabled c) (channelPassword c) (ban_text (bannedStore c))
            (channelName c) (channelTeam c)) c
     else c)"

definition UpdateChannelUseageInDB :: "channel \<Rightarrow> channel" where
  "UpdateChannelUseageInDB c = event (DbUpdateUsage (channelName c) (channelTeam c)) c"

definition JoinNotify :: "channel_env \<Rightarrow> guid \<Rightarrow> channel \<Rightarrow> channel" where
  "JoinNotify e g c =
     (if IsConstant c
      then SendToAllButOne e (UserlistAdd g (GetPlayerFlags c g) (channelFlags c) (GetNumPlayers c)) g c
      else SendToAll e (UserlistUpdate g (GetPlayerFlags c g) (channelFlags c) (GetNumPlayers c)) 0 c)"

definition LeaveNotify :: "channel_env \<Rightarrow> guid \<Rightarrow> channel \<Rightarrow> channel" where
  "LeaveNotify e g c =
     (if IsConstant c then SendToAllButOne e (UserlistRemove g (channelFlags c) (GetNumPlayers c)) g c
      else SendToAll e (UserlistRemove g (channelFlags c) (GetNumPlayers c)) 0 c)"

section \<open>Owner, moderators and mutes\<close>

definition SetOwnerGuid :: "channel_env \<Rightarrow> guid \<Rightarrow> bool \<Rightarrow> channel \<Rightarrow> channel" where
  "SetOwnerGuid e g exclaim c =
     (let c1 = (if ownerGuid c \<noteq> 0 then upd_info (ownerGuid c) (Info_SetOwner False) c else c);
          c2 = c1\<lparr>ownerGuid := g\<rparr>
      in if g = 0 then c2
         else
           let oldFlag = GetPlayerFlags c2 g in
           if \<not> IsOn c2 g then c2
           else
             let c3 = upd_info g (\<lambda>i. Info_SetOwner True (Info_SetModerator True i)) c2;
                 c4 = SendToAll e (ModeChangeNotice g oldFlag (GetPlayerFlags c3 g)) 0 c3;
                 c5 = (if exclaim then SendToAll e (OwnerChangedNotice g) 0 c4 else c4)
             in UpdateChannelInDB c5)"

definition SetModeratorGuid :: "channel_env \<Rightarrow> guid \<Rightarrow> bool \<Rightarrow> channel \<Rightarrow> channel" where
  "SetModeratorGuid e g st c =
     (if \<not> IsOn c g then c
      else if IsModerator (info_of c g) \<noteq> st then
        (let oldFlag = GetPlayerFlags c g; c1 = upd_info g (Info_SetModerator st) c
         in SendToAll e (ModeChangeNotice g oldFlag (GetPlayerFlags c1 g)) 0 c1)
      else c)"

definition SetMuteGuid :: "channel_env \<Rightarrow> guid \<Rightarrow> bool \<Rightarrow> channel \<Rightarrow> channel" where
  "SetMuteGuid e g st c =
     (if \<not> IsOn c g then c
      else if IsMuted (info_of c g) \<noteq> st then
        (let oldFlag = GetPlayerFlags c g; c1 = upd_info g (Info_SetMuted st) c
         in SendToAll e (ModeChangeNotice g oldFlag (GetPlayerFlags c1 g)) 0 c1)
      else c)"

section \<open>Joining and leaving\<close>

definition lfg_restricted :: "channel_env \<Rightarrow> channel \<Rightarrow> guid \<Rightarrow> bool" where
  "lfg_restricted e c g \<longleftrightarrow> ChannelHasFlag c CHANNEL_FLAG_LFG \<and> ce_restricted_lfg e \<and> ce_player_account e g \<and> ce_in_group e g"

text \<open>The player becomes a member, and those concerned are told.\<close>

definition enter_channel :: "channel_env \<Rightarrow> guid \<Rightarrow> channel \<Rightarrow> channel" where
  "enter_channel e g c =
     (let c1 = event (CallJoinedChannel g) c;
          c2 = (if announceEnabled c1 \<and> \<not> ce_perm e g PERM_SILENTLY_JOIN_CHANNEL
                then SendToAll e (JoinedNotice g) 0 c1 else c1);
          c3 = c2\<lparr>playersStore := om_put g \<lparr>pi_flags = MEMBER_FLAG_NONE, pi_invisible = \<not> ce_gm_visible e g\<rparr> (playersStore c2)\<rparr>
      in JoinNotify e g (SendToOne e (YouJoinedNotice (channelFlags c3) (channelId c3)) g c3))"

definition JoinChannel :: "channel_env \<Rightarrow> guid \<Rightarrow> string \<Rightarrow> channel \<Rightarrow> channel" where
  "JoinChannel e g pass c =
     (if IsOn c g then (if \<not> IsConstant c then SendToOne e (PlayerAlreadyMemberNotice g) g c else c)
      else if IsBanned c g then SendToOne e BannedNotice g c
      else if channelPassword c \<noteq> [] \<and> pass \<noteq> channelPassword c then SendToOne e WrongPasswordNotice g c
      else if lfg_restricted e c g then SendToOne e NotInLFGNotice g c
      else
        let newChannel = (playersStore c = []);
            invisible = (\<not> ce_gm_visible e g);
            c4 = enter_channel e g c
        in if IsConstant c4 then c4
           else
             let c5 = UpdateChannelUseageInDB c4 in
             if ownershipEnabled c5 \<and> (newChannel \<or> \<not> invisible) \<and> (ownerGuid c5 = 0 \<or> isOwnerInvisible c5)
             then upd_info g (Info_SetModerator True)
                    (SetOwnerGuid e g (\<not> newChannel \<and> \<not> invisible) (c5\<lparr>isOwnerInvisible := invisible\<rparr>))
             else c5)"

text \<open>The first member that is no invisible game master, or the first one.\<close>

definition next_owner :: "(guid, player_info) omap \<Rightarrow> guid" where
  "next_owner ps = fst (case find (\<lambda>(g, i). \<not> pi_invisible i) ps of Some x \<Rightarrow> x | None \<Rightarrow> hd ps)"

text \<open>The player is taken off the list, and those concerned are told.\<close>

definition exit_channel :: "channel_env \<Rightarrow> guid \<Rightarrow> bool \<Rightarrow> channel \<Rightarrow> channel" where
  "exit_channel e g send c =
     (let c1 = (if send then event (CallLeftChannel g) (SendToOne e (YouLeftNotice (channelId c) (IsConstant c)) g c) else c);
          c2 = c1\<lparr>playersStore := om_erase g (playersStore c1)\<rparr>;
          c3 = (if announceEnabled c2 \<and> \<not> ce_perm e g PERM_SILENTLY_JOIN_CHANNEL
                then SendToAll e (LeftNotice g) 0 c2 else c2)
      in LeaveNotify e g c3)"

definition LeaveChannel :: "channel_env \<Rightarrow> guid \<Rightarrow> bool \<Rightarrow> channel \<Rightarrow> channel" where
  "LeaveChannel e g send c =
     (if \<not> IsOn c g then (if send then SendToOne e NotMemberNotice g c else c)
      else
        let changeowner = IsOwner (info_of c g);
            c4 = exit_channel e g send c
        in if IsConstant c4 then c4
           else
             let c5 = UpdateChannelUseageInDB c4 in
             if changeowner \<and> ownershipEnabled c5 \<and> playersStore c5 \<noteq> [] then
               (let newOwner = next_owner (playersStore c5);
                    c6 = SetOwnerGuid e newOwner True (upd_info newOwner (Info_SetModerator True) c5)
                in if pi_invisible (info_of c6 newOwner) then c6\<lparr>isOwnerInvisible := True\<rparr> else c6)
             else c5)"

section \<open>Moderation\<close>

text \<open>Who may moderate: \<open>None\<close>, or the notice that refuses it.\<close>

definition refuse_moderation :: "channel_env \<Rightarrow> channel \<Rightarrow> guid \<Rightarrow> notice option" where
  "refuse_moderation e c g =
     (if \<not> IsOn c g then Some NotMemberNotice
      else if \<not> IsModerator (info_of c g) \<and> \<not> ce_perm e g PERM_CHANGE_CHANNEL_NOT_MODERATOR then Some NotModeratorNotice
      else None)"

definition kick_from_channel :: "channel_env \<Rightarrow> guid \<Rightarrow> guid \<Rightarrow> bool \<Rightarrow> channel \<Rightarrow> channel" where
  "kick_from_channel e good victim ban c =
     (let silent = ce_perm e good PERM_SILENTLY_JOIN_CHANNEL;
          c1 = (if ban \<and> \<not> IsBanned c victim then
                  (let c' = UpdateChannelInDB (c\<lparr>bannedStore := victim # bannedStore c\<rparr>)
                   in if silent then c' else SendToAll e (PlayerBannedNotice good victim) 0 c')
                else if silent then c else SendToAll e (PlayerKickedNotice good victim) 0 c)
      in event (CallLeftChannel victim) (c1\<lparr>playersStore := om_erase victim (playersStore c1)\<rparr>))"

definition KickOrBan :: "channel_env \<Rightarrow> guid \<Rightarrow> string \<Rightarrow> bool \<Rightarrow> channel \<Rightarrow> channel" where
  "KickOrBan e good badname ban c =
     (case refuse_moderation e c good of
        Some n \<Rightarrow> SendToOne e n good c
      | None \<Rightarrow>
        (case ce_by_name e badname of
           None \<Rightarrow> SendToOne e (PlayerNotFoundNotice badname) good c
         | Some victim \<Rightarrow>
           if victim = 0 \<or> \<not> IsOn c victim then SendToOne e (PlayerNotFoundNotice badname) good c
           else
             let changeowner = (ownerGuid c = victim) in
             if \<not> ce_perm e good PERM_CHANGE_CHANNEL_NOT_MODERATOR \<and> changeowner \<and> good \<noteq> ownerGuid c
             then SendToOne e NotOwnerNotice good c
             else
               let c2 = kick_from_channel e good victim ban c
               in if changeowner \<and> ownershipEnabled c2 \<and> playersStore c2 \<noteq> []
                  then SetOwnerGuid e good True
                         (if IsOn c2 good then upd_info good (Info_SetModerator True) c2 else c2\<lparr>ch_dangling := True\<rparr>)
                  else c2))"

definition UnBan :: "channel_env \<Rightarrow> guid \<Rightarrow> string \<Rightarrow> channel \<Rightarrow> channel" where
  "UnBan e good badname c =
     (case refuse_moderation e c good of
        Some n \<Rightarrow> SendToOne e n good c
      | None \<Rightarrow>
        let victim = (case ce_by_name e badname of None \<Rightarrow> 0 | Some v \<Rightarrow> v) in
        if victim = 0 \<or> \<not> IsBanned c victim then SendToOne e (PlayerNotFoundNotice badname) good c
        else UpdateChannelInDB (SendToAll e (PlayerUnbannedNotice good victim) 0
               (c\<lparr>bannedStore := removeAll victim (bannedStore c)\<rparr>)))"

definition Password :: "channel_env \<Rightarrow> guid \<Rightarrow> string \<Rightarrow> channel \<Rightarrow> channel" where
  "Password e g pass c =
     (case refuse_moderation e c g of
        Some n \<Rightarrow> SendToOne e n g c
      | None \<Rightarrow> UpdateChannelInDB (SendToAll e (PasswordChangedNotice g) 0 (c\<lparr>channelPassword := pass\<rparr>)))"

text \<open>Two players of different teams, one of whom may not interact across them.\<close>

definition other_side :: "channel_env \<Rightarrow> guid \<Rightarrow> guid \<Rightarrow> bool" where
  "other_side e g h \<longleftrightarrow> ce_team e g \<noteq> ce_team e h \<and>
     (\<not> ce_perm e g PERM_TWO_SIDE_INTERACTION_CHANNEL \<or> \<not> ce_perm e h PERM_TWO_SIDE_INTERACTION_CHANNEL)"

definition SetMode :: "channel_env \<Rightarrow> guid \<Rightarrow> string \<Rightarrow> bool \<Rightarrow> bool \<Rightarrow> channel \<Rightarrow> channel" where
  "SetMode e g p2n md st c =
     (case refuse_moderation e c g of
        Some n \<Rightarrow> SendToOne e n g c
      | None \<Rightarrow>
        if g = ownerGuid c \<and> p2n = ce_name e g \<and> md then c
        else
          (case ce_by_name e p2n of
             None \<Rightarrow> SendToOne e (PlayerNotFoundNotice p2n) g c
           | Some victim \<Rightarrow>
             if victim = 0 \<or> \<not> IsOn c victim \<or> other_side e g victim then SendToOne e (PlayerNotFoundNotice p2n) g c
             else if ownerGuid c = victim \<and> ownerGuid c \<noteq> g then SendToOne e NotOwnerNotice g c
             else if md then SetModeratorGuid e victim st c else SetMuteGuid e victim st c))"

definition SetInvisible :: "guid \<Rightarrow> bool \<Rightarrow> channel \<Rightarrow> channel" where
  "SetInvisible g on c =
     (if \<not> IsOn c g then c
      else let c1 = upd_info g (Info_SetInvisible on) c
        in if ownerGuid c1 = g then c1\<lparr>isOwnerInvisible := on\<rparr> else c1)"

definition SetOwner :: "channel_env \<Rightarrow> guid \<Rightarrow> string \<Rightarrow> channel \<Rightarrow> channel" where
  "SetOwner e g newname c =
     (if \<not> IsOn c g then SendToOne e NotMemberNotice g c
      else if \<not> ce_perm e g PERM_CHANGE_CHANNEL_NOT_MODERATOR \<and> g \<noteq> ownerGuid c then SendToOne e NotOwnerNotice g c
      else
        (case ce_by_name e newname of
           None \<Rightarrow> SendToOne e (PlayerNotFoundNotice newname) g c
         | Some victim \<Rightarrow>
           if victim = 0 \<or> \<not> IsOn c victim \<or> other_side e g victim then SendToOne e (PlayerNotFoundNotice newname) g c
           else SetOwnerGuid e victim True (upd_info victim (Info_SetModerator True) c)))"

definition Announce :: "channel_env \<Rightarrow> guid \<Rightarrow> channel \<Rightarrow> channel" where
  "Announce e g c =
     (case refuse_moderation e c g of
        Some n \<Rightarrow> SendToOne e n g c
      | None \<Rightarrow>
        let c1 = c\<lparr>announceEnabled := \<not> announceEnabled c\<rparr>
        in UpdateChannelInDB (SendToAll e (if announceEnabled c1 then AnnouncementsOnNotice g else AnnouncementsOffNotice g) 0 c1))"

definition SetOwnership :: "bool \<Rightarrow> channel \<Rightarrow> channel" where
  "SetOwnership b c = c\<lparr>ownershipEnabled := b\<rparr>"

section \<open>Messages and queries\<close>

definition SendWhoOwner :: "channel_env \<Rightarrow> guid \<Rightarrow> channel \<Rightarrow> channel" where
  "SendWhoOwner e g c = SendToOne e (if IsOn c g then ChannelOwnerNotice (IsConstant c) (ownerGuid c) else NotMemberNotice) g c"

definition ListMembers :: "channel_env \<Rightarrow> guid \<Rightarrow> channel \<Rightarrow> channel" where
  "ListMembers e g c =
     (if \<not> IsOn c g then SendToOne e NotMemberNotice g c
      else event (Sent g (ChannelList (channelFlags c) (map (\<lambda>(p, i). (p, pi_flags i)) (filter (\<lambda>(p, i).
        ce_connected e p \<and> (ce_perm e g PERM_WHO_SEE_ALL_SEC_LEVELS \<or> ce_security e p \<le> ce_gm_level_in_who e)
        \<and> ce_visible_for e p g) (playersStore c))))) c)"

definition Say :: "channel_env \<Rightarrow> guid \<Rightarrow> string \<Rightarrow> u32 \<Rightarrow> channel \<Rightarrow> channel" where
  "Say e g what lang c =
     (if what = [] then c
      else
        let lang' = (if ce_two_side e then LANG_UNIVERSAL else lang) in
        if \<not> IsOn c g then SendToOne e NotMemberNotice g c
        else if IsMuted (info_of c g) then SendToOne e MutedNotice g c
        else SendToAll e (ChatMessage g what lang') (if \<not> IsModerator (info_of c g) then g else 0) c)"

definition InvitePlayer :: "channel_env \<Rightarrow> guid \<Rightarrow> string \<Rightarrow> channel \<Rightarrow> channel" where
  "InvitePlayer e g newname c =
     (if \<not> IsOn c g then SendToOne e NotMemberNotice g c
      else
        (case ce_by_name e newname of
           None \<Rightarrow> SendToOne e (PlayerNotFoundNotice newname) g c
         | Some p \<Rightarrow>
           if \<not> ce_gm_visible e p then SendToOne e (PlayerNotFoundNotice newname) g c
           else if IsBanned c p then SendToOne e (PlayerInviteBannedNotice newname) g c
           else if other_side e g p then SendToOne e InviteWrongFactionNotice g c
           else if IsOn c p then SendToOne e (PlayerAlreadyMemberNotice p) g c
           else SendToOne e (PlayerInvitedNotice (ce_name e p)) g
                  (if \<not> ce_ignores e p g then SendToOne e (InviteNotice g) p c else c)))"

section \<open>Every operation\<close>

datatype channel_op =
    OpJoin guid string | OpLeave guid bool | OpKickOrBan guid string bool | OpUnBan guid string | OpPassword guid string
  | OpSetMode guid string bool bool | OpInvisible guid bool | OpSetOwner guid string | OpAnnounce guid | OpOwnership bool
  | OpWhoOwner guid | OpList guid | OpSay guid string u32 | OpInvite guid string | OpUnwatch guid

fun channel_step :: "channel \<Rightarrow> channel_env \<times> channel_op \<Rightarrow> channel" where
  "channel_step c (e, OpJoin g pass) = JoinChannel e g pass c"
| "channel_step c (e, OpLeave g send) = LeaveChannel e g send c"
| "channel_step c (e, OpKickOrBan g n ban) = KickOrBan e g n ban c"
| "channel_step c (e, OpUnBan g n) = UnBan e g n c"
| "channel_step c (e, OpPassword g pass) = Password e g pass c"
| "channel_step c (e, OpSetMode g n md st) = SetMode e g n md st c"
| "channel_step c (e, OpInvisible g on) = SetInvisible g on c"
| "channel_step c (e, OpSetOwner g n) = SetOwner e g n c"
| "channel_step c (e, OpAnnounce g) = Announce e g c"
| "channel_step c (e, OpOwnership b) = SetOwnership b c"
| "channel_step c (e, OpWhoOwner g) = SendWhoOwner e g c"
| "channel_step c (e, OpList g) = ListMembers e g c"
| "channel_step c (e, OpSay g what lang) = Say e g what lang c"
| "channel_step c (e, OpInvite g n) = InvitePlayer e g n c"
| "channel_step c (e, OpUnwatch g) = LeaveNotify e g c"

end
