(* ===== verification/Channel_Rules.thy ===== *)
theory Channel_Rules
  imports Channel
begin

text \<open>
  What \<^theory_text>\<open>Channel\<close> promises.  Each operation is refused with a notice or does one thing (the
  \<open>_cases\<close> lemmas; \<open>ch_quiet\<close> says that only packets went out); on these rest the invariant
  \<open>channel_ok\<close>, the ownership of a channel in use, who may change what, and what the database keeps.
\<close>

section \<open>Flags\<close>

lemma flag_bits: "x AND 1 \<noteq> 0 \<longleftrightarrow> bit x 0" "x AND 2 \<noteq> 0 \<longleftrightarrow> bit x 1" "x AND 8 \<noteq> 0 \<longleftrightarrow> bit x 3" for x :: u8
  using bit_iff_and_push_bit_not_eq_0 [of x 0] bit_iff_and_push_bit_not_eq_0 [of x 1] bit_iff_and_push_bit_not_eq_0 [of x 3]
  by simp_all

lemma bit_flags: "bit (1 :: u8) n \<longleftrightarrow> n = 0" "bit (2 :: u8) n \<longleftrightarrow> n = 1" "bit (8 :: u8) n \<longleftrightarrow> n = 3"
  using bit_push_bit_iff [of 1 "1 :: u8" n] bit_push_bit_iff [of 3 "1 :: u8" n]
  by (auto simp: bit_1_iff)

lemmas flag_defs = IsOwner_def IsModerator_def IsMuted_def Info_SetOwner_def Info_SetModerator_def Info_SetMuted_def
  Info_SetInvisible_def MEMBER_FLAG_OWNER_def MEMBER_FLAG_MODERATOR_def MEMBER_FLAG_MUTED_def MEMBER_FLAG_NONE_def

lemma flags [simp]: "IsOwner (Info_SetOwner b i) = b" "IsOwner (Info_SetModerator b i) = IsOwner i"
  "IsOwner (Info_SetMuted b i) = IsOwner i" "IsOwner (Info_SetInvisible b i) = IsOwner i"
  "IsModerator (Info_SetModerator b i) = b" "IsModerator (Info_SetOwner b i) = IsModerator i"
  "IsModerator (Info_SetMuted b i) = IsModerator i" "IsModerator (Info_SetInvisible b i) = IsModerator i"
  "IsMuted (Info_SetMuted b i) = b" "IsMuted (Info_SetOwner b i) = IsMuted i"
  "IsMuted (Info_SetModerator b i) = IsMuted i" "IsMuted (Info_SetInvisible b i) = IsMuted i"
  "\<not> IsOwner \<lparr>pi_flags = MEMBER_FLAG_NONE, pi_invisible = b\<rparr>" "\<not> IsMuted \<lparr>pi_flags = MEMBER_FLAG_NONE, pi_invisible = b\<rparr>"
  by (simp_all add: flag_defs flag_bits bit_simps bit_flags)

section \<open>What a notification leaves alone\<close>

lemma log_only: "\<exists>l. SendToOne e n g c = c\<lparr>ch_log := l\<rparr>" "\<exists>l. SendToAll e n g c = c\<lparr>ch_log := l\<rparr>"
  "\<exists>l. SendToAllButOne e n g c = c\<lparr>ch_log := l\<rparr>" "\<exists>l. event x c = c\<lparr>ch_log := l\<rparr>"
proof -
  show "\<exists>l. event x c = c\<lparr>ch_log := l\<rparr>" by (auto simp: event_def)
  show "\<exists>l. SendToOne e n g c = c\<lparr>ch_log := l\<rparr>" unfolding SendToOne_def event_def
    by (cases "ce_connected e g") (auto intro: exI [of _ "ch_log c"])
  have "\<exists>l. fold (\<lambda>p c. if P p then event (E p) c else c) ps c = c\<lparr>ch_log := l\<rparr>" for P E ps
  proof (induction ps arbitrary: c)
    case Nil
    then show ?case by (auto intro: exI [of _ "ch_log c"])
  next
    case (Cons p ps)
    show ?case using Cons [of "if P p then event (E p) c else c"] by (auto simp: event_def)
  qed
  note fold = this
  show "\<exists>l. SendToAll e n g c = c\<lparr>ch_log := l\<rparr>" unfolding SendToAll_def by (rule fold)
  show "\<exists>l. SendToAllButOne e n g c = c\<lparr>ch_log := l\<rparr>" unfolding SendToAllButOne_def by (rule fold)
qed

text \<open>The same for all that a notification does.\<close>

definition ch_quiet :: "channel \<Rightarrow> channel \<Rightarrow> bool" where
  "ch_quiet c d \<longleftrightarrow> d = c\<lparr>ch_log := ch_log d\<rparr>"

lemma quiet_log: "\<exists>l. d = c\<lparr>ch_log := l\<rparr> \<Longrightarrow> ch_quiet c d"
  by (auto simp: ch_quiet_def)

lemma quiet_ops: "ch_quiet c (SendToOne e n g c)" "ch_quiet c (SendToAll e n g c)" "ch_quiet c (SendToAllButOne e n g c)"
  "ch_quiet c (event x c)" "ch_quiet c (UpdateChannelInDB c)" "ch_quiet c (UpdateChannelUseageInDB c)" "ch_quiet c (JoinNotify e g c)"
  "ch_quiet c (LeaveNotify e g c)"
  by (simp_all add: UpdateChannelInDB_def UpdateChannelUseageInDB_def JoinNotify_def LeaveNotify_def quiet_log [OF log_only(1)]
      quiet_log [OF log_only(2)] quiet_log [OF log_only(3)] quiet_log [OF log_only(4)])
    (simp add: ch_quiet_def)

lemma quiet_fields: assumes "ch_quiet c d"
  shows "playersStore d = playersStore c" "ownerGuid d = ownerGuid c" "bannedStore d = bannedStore c"
    "channelPassword d = channelPassword c" "announceEnabled d = announceEnabled c" "ownershipEnabled d = ownershipEnabled c"
    "persistentChannel d = persistentChannel c" "isOwnerInvisible d = isOwnerInvisible c" "channelFlags d = channelFlags c"
    "channelId d = channelId c" "channelTeam d = channelTeam c" "channelName d = channelName c" "ch_dangling d = ch_dangling c"
  by (subst assms [unfolded ch_quiet_def], simp)+

lemmas ch_notify_fields [simp] = quiet_ops [THEN quiet_fields(1)] quiet_ops [THEN quiet_fields(2)] quiet_ops [THEN quiet_fields(3)]
  quiet_ops [THEN quiet_fields(4)] quiet_ops [THEN quiet_fields(5)] quiet_ops [THEN quiet_fields(6)] quiet_ops [THEN quiet_fields(7)]
  quiet_ops [THEN quiet_fields(8)] quiet_ops [THEN quiet_fields(9)] quiet_ops [THEN quiet_fields(10)] quiet_ops [THEN quiet_fields(11)]
  quiet_ops [THEN quiet_fields(12)] quiet_ops [THEN quiet_fields(13)]

section \<open>What the operations do to members\<close>

text \<open>A record update as a map of the members, with everything else as it was.\<close>

lemma upd_info_fields [simp]: "ownerGuid (upd_info g f c) = ownerGuid c" "bannedStore (upd_info g f c) = bannedStore c"
  "channelPassword (upd_info g f c) = channelPassword c" "announceEnabled (upd_info g f c) = announceEnabled c"
  "ownershipEnabled (upd_info g f c) = ownershipEnabled c" "persistentChannel (upd_info g f c) = persistentChannel c"
  "isOwnerInvisible (upd_info g f c) = isOwnerInvisible c" "channelId (upd_info g f c) = channelId c"
  "channelTeam (upd_info g f c) = channelTeam c" "channelName (upd_info g f c) = channelName c" "ch_log (upd_info g f c) = ch_log c"
  "ch_dangling (upd_info g f c) = ch_dangling c"
  by (simp_all add: upd_info_def split: option.splits)

lemma get_upd_info [simp]: "om_get (playersStore (upd_info g f c)) h =
    (if h = g then map_option f (om_get (playersStore c) g) else om_get (playersStore c) h)"
  by (simp add: upd_info_def split: option.splits)

lemma om_ok_upd_info [simp]: "om_ok (playersStore c) \<Longrightarrow> om_ok (playersStore (upd_info g f c))"
  by (simp add: upd_info_def split: option.splits)

lemma IsOn_upd_info [simp]: "IsOn (upd_info g f c) h = IsOn c h"
  by (simp add: IsOn_def)

lemma IsConstant_cong [simp]: "IsConstant (upd_info g f c) = IsConstant c"
  by (simp add: IsConstant_def)

lemma SetOwnerGuid_fields [simp]: "ownerGuid (SetOwnerGuid e g x c) = g" "bannedStore (SetOwnerGuid e g x c) = bannedStore c"
  "channelPassword (SetOwnerGuid e g x c) = channelPassword c" "announceEnabled (SetOwnerGuid e g x c) = announceEnabled c"
  "ownershipEnabled (SetOwnerGuid e g x c) = ownershipEnabled c" "persistentChannel (SetOwnerGuid e g x c) = persistentChannel c"
  "isOwnerInvisible (SetOwnerGuid e g x c) = isOwnerInvisible c" "channelId (SetOwnerGuid e g x c) = channelId c"
  "channelTeam (SetOwnerGuid e g x c) = channelTeam c" "channelName (SetOwnerGuid e g x c) = channelName c"
  "ch_dangling (SetOwnerGuid e g x c) = ch_dangling c"
  by (simp_all add: SetOwnerGuid_def Let_def)

lemma get_SetOwnerGuid [simp]: "g \<noteq> 0 \<Longrightarrow> om_get (playersStore (SetOwnerGuid e g x c)) h =
    (if h = g then map_option (\<lambda>i. Info_SetOwner True (Info_SetModerator True
        (if ownerGuid c = g then Info_SetOwner False i else i))) (om_get (playersStore c) g)
     else if ownerGuid c \<noteq> 0 \<and> h = ownerGuid c then map_option (Info_SetOwner False) (om_get (playersStore c) h)
     else om_get (playersStore c) h)"
  by (cases "om_get (playersStore c) g") (auto simp: SetOwnerGuid_def Let_def IsOn_def)

lemma om_ok_SetOwnerGuid [simp]: "om_ok (playersStore c) \<Longrightarrow> om_ok (playersStore (SetOwnerGuid e g x c))"
  by (simp add: SetOwnerGuid_def Let_def)

lemma mode_fields [simp]: "ownerGuid (SetModeratorGuid e g b c) = ownerGuid c" "ownerGuid (SetMuteGuid e g b c) = ownerGuid c"
  "bannedStore (SetModeratorGuid e g b c) = bannedStore c" "bannedStore (SetMuteGuid e g b c) = bannedStore c"
  "channelPassword (SetModeratorGuid e g b c) = channelPassword c" "channelPassword (SetMuteGuid e g b c) = channelPassword c"
  "announceEnabled (SetModeratorGuid e g b c) = announceEnabled c" "announceEnabled (SetMuteGuid e g b c) = announceEnabled c"
  "ownershipEnabled (SetModeratorGuid e g b c) = ownershipEnabled c" "ownershipEnabled (SetMuteGuid e g b c) = ownershipEnabled c"
  "isOwnerInvisible (SetModeratorGuid e g b c) = isOwnerInvisible c" "isOwnerInvisible (SetMuteGuid e g b c) = isOwnerInvisible c"
  "channelId (SetModeratorGuid e g b c) = channelId c" "channelId (SetMuteGuid e g b c) = channelId c"
  "ch_dangling (SetModeratorGuid e g b c) = ch_dangling c" "ch_dangling (SetMuteGuid e g b c) = ch_dangling c"
  by (simp_all add: SetModeratorGuid_def SetMuteGuid_def Let_def)

lemma mode_players: "playersStore (SetModeratorGuid e g b c) =
    (if IsOn c g \<and> IsModerator (info_of c g) \<noteq> b then playersStore (upd_info g (Info_SetModerator b) c) else playersStore c)"
  "playersStore (SetMuteGuid e g b c) =
    (if IsOn c g \<and> IsMuted (info_of c g) \<noteq> b then playersStore (upd_info g (Info_SetMuted b) c) else playersStore c)"
  by (simp_all add: SetModeratorGuid_def SetMuteGuid_def Let_def)

section \<open>The states of a channel\<close>

definition channel_ok :: "channel \<Rightarrow> bool" where
  "channel_ok c \<longleftrightarrow> om_ok (playersStore c) \<and> distinct (bannedStore c) \<and> 0 \<notin> set (bannedStore c) \<and>
     om_get (playersStore c) 0 = None \<and> (\<forall>g \<in> set (bannedStore c). om_get (playersStore c) g = None) \<and>
     (\<forall>g i. om_get (playersStore c) g = Some i \<longrightarrow> IsOwner i \<longrightarrow> g = ownerGuid c \<and> IsModerator i)"

lemma channel_ok_cong: "playersStore c = playersStore d \<Longrightarrow> bannedStore c = bannedStore d \<Longrightarrow> ownerGuid c = ownerGuid d
    \<Longrightarrow> channel_ok c = channel_ok d"
  by (simp add: channel_ok_def)

lemma channel_ok_quiet: "ch_quiet c d \<Longrightarrow> channel_ok d = channel_ok c"
  by (rule channel_ok_cong) (simp_all add: quiet_fields)

lemmas channel_ok_notify [simp] = quiet_ops [THEN channel_ok_quiet]

lemma channel_ok_upd:
  "channel_ok c \<Longrightarrow> (\<And>i. om_get (playersStore c) g = Some i \<Longrightarrow> IsOwner (f i) = IsOwner i) \<Longrightarrow>
   (\<And>i. om_get (playersStore c) g = Some i \<Longrightarrow> IsOwner i \<Longrightarrow> IsModerator i \<Longrightarrow> IsModerator (f i)) \<Longrightarrow> channel_ok (upd_info g f c)"
  by (auto simp: channel_ok_def split: if_splits)

lemma owner_iff: "channel_ok c \<Longrightarrow> om_get (playersStore c) g = Some i \<Longrightarrow> IsOwner i \<Longrightarrow> ownerGuid c = g \<and> g \<noteq> 0 \<and> IsModerator i"
  by (auto simp: channel_ok_def)

lemma not_banned: "channel_ok c \<Longrightarrow> om_get (playersStore c) g = Some i \<Longrightarrow> \<not> IsBanned c g"
  by (metis channel_ok_def IsBanned_def option.distinct(1))

lemma channel_ok_SetOwner: assumes "channel_ok c" "g \<noteq> 0" shows "channel_ok (SetOwnerGuid e g x c)"
proof -
  have "h = g \<and> IsModerator i" if h: "om_get (playersStore (SetOwnerGuid e g x c)) h = Some i" and i: "IsOwner i" for h i
  proof (cases "h = g")
    case True
    with h assms(2) show ?thesis by auto
  next
    case False
    with h assms(2) i have "om_get (playersStore c) h = Some i" "h \<noteq> ownerGuid c \<or> ownerGuid c = 0"
      by (auto split: if_splits)
    with owner_iff [OF assms(1) _ i] show ?thesis by blast
  qed
  note owner = this
  have keys: "om_get (playersStore (SetOwnerGuid e g x c)) h = None" if "om_get (playersStore c) h = None" for h
    using assms(2) that by (cases "h = g") auto
  from assms(1) have base: "om_ok (playersStore (SetOwnerGuid e g x c))" "distinct (bannedStore c)" "0 \<notin> set (bannedStore c)"
    "om_get (playersStore c) 0 = None" "\<And>h. h \<in> set (bannedStore c) \<Longrightarrow> om_get (playersStore c) h = None"
    by (simp_all add: channel_ok_def)
  show ?thesis unfolding channel_ok_def SetOwnerGuid_fields by (intro conjI ballI allI impI base keys) (use owner in blast)+
qed

lemma ok_SetOwnerGuid: "channel_ok c \<Longrightarrow> g \<noteq> 0 \<Longrightarrow> channel_ok (SetOwnerGuid e g x (upd_info h (Info_SetModerator True) c))"
  by (intro channel_ok_SetOwner channel_ok_upd) simp_all

text \<open>What the names promise, and what joining, leaving and kicking do to the state.\<close>

definition names_ok :: "channel_env \<Rightarrow> bool" where
  "names_ok e \<longleftrightarrow> (\<forall>n g. ce_by_name e n = Some g \<longrightarrow> g \<noteq> 0 \<and> ce_name e g = n)"

lemma join_fields [simp]: "playersStore (enter_channel e g c)
    = om_put g \<lparr>pi_flags = MEMBER_FLAG_NONE, pi_invisible = \<not> ce_gm_visible e g\<rparr> (playersStore c)"
  "ownerGuid (enter_channel e g c) = ownerGuid c" "bannedStore (enter_channel e g c) = bannedStore c"
  "channelPassword (enter_channel e g c) = channelPassword c" "announceEnabled (enter_channel e g c) = announceEnabled c"
  "ownershipEnabled (enter_channel e g c) = ownershipEnabled c" "isOwnerInvisible (enter_channel e g c) = isOwnerInvisible c"
  "channelId (enter_channel e g c) = channelId c" "ch_dangling (enter_channel e g c) = ch_dangling c"
  by (simp_all add: enter_channel_def Let_def)

lemma leave_fields [simp]: "playersStore (exit_channel e g s c) = om_erase g (playersStore c)"
  "ownerGuid (exit_channel e g s c) = ownerGuid c" "bannedStore (exit_channel e g s c) = bannedStore c"
  "channelPassword (exit_channel e g s c) = channelPassword c" "announceEnabled (exit_channel e g s c) = announceEnabled c"
  "ownershipEnabled (exit_channel e g s c) = ownershipEnabled c" "isOwnerInvisible (exit_channel e g s c) = isOwnerInvisible c"
  "channelId (exit_channel e g s c) = channelId c" "ch_dangling (exit_channel e g s c) = ch_dangling c"
  by (simp_all add: exit_channel_def Let_def)

lemma kick_fields [simp]: "playersStore (kick_from_channel e g v b c) = om_erase v (playersStore c)"
  "ownerGuid (kick_from_channel e g v b c) = ownerGuid c"
  "bannedStore (kick_from_channel e g v b c) = (if b \<and> \<not> IsBanned c v then v # bannedStore c else bannedStore c)"
  "channelPassword (kick_from_channel e g v b c) = channelPassword c" "announceEnabled (kick_from_channel e g v b c) = announceEnabled c"
  "ownershipEnabled (kick_from_channel e g v b c) = ownershipEnabled c" "isOwnerInvisible (kick_from_channel e g v b c) = isOwnerInvisible c"
  "channelId (kick_from_channel e g v b c) = channelId c" "ch_dangling (kick_from_channel e g v b c) = ch_dangling c"
  by (simp_all add: kick_from_channel_def Let_def)

lemma channel_ok_flags [simp]: "channel_ok (d\<lparr>isOwnerInvisible := b\<rparr>) = channel_ok d" "channel_ok (d\<lparr>ch_dangling := b\<rparr>) = channel_ok d"
  "channel_ok (d\<lparr>channelPassword := p\<rparr>) = channel_ok d" "channel_ok (d\<lparr>announceEnabled := b\<rparr>) = channel_ok d"
  "channel_ok (d\<lparr>ownershipEnabled := b\<rparr>) = channel_ok d"
  by (rule channel_ok_cong; simp)+

lemma ok_enter_channel: "channel_ok c \<Longrightarrow> g \<noteq> 0 \<Longrightarrow> \<not> IsBanned c g \<Longrightarrow> channel_ok (enter_channel e g c)"
  by (auto simp: channel_ok_def IsBanned_def)

lemma ok_exit_channel: "channel_ok c \<Longrightarrow> channel_ok (exit_channel e g s c)"
  by (simp add: channel_ok_def)

lemma ok_kick_from_channel: "channel_ok c \<Longrightarrow> v \<noteq> 0 \<Longrightarrow> channel_ok (kick_from_channel e g v b c)"
  by (simp add: channel_ok_def IsBanned_def)

lemma next_owner_on: assumes "ps \<noteq> []" shows "next_owner ps \<in> fst ` set ps"
proof (cases "find (\<lambda>(g, i). \<not> pi_invisible i) ps")
  case None
  then show ?thesis using assms by (simp add: next_owner_def)
next
  case (Some x)
  then have "x \<in> set ps" by (metis find_Some_iff nth_mem)
  with Some show ?thesis by (simp add: next_owner_def)
qed

lemma ok_next_owner: "channel_ok d \<Longrightarrow> playersStore d = ps \<Longrightarrow> ps \<noteq> [] \<Longrightarrow>
    channel_ok (SetOwnerGuid e (next_owner ps) x (upd_info (next_owner ps) (Info_SetModerator True) d))"
  using next_owner_on [of ps] by (intro ok_SetOwnerGuid) (metis channel_ok_def om_get_None_iff)+

lemma ok_JoinChannel: "channel_ok c \<Longrightarrow> g \<noteq> 0 \<Longrightarrow> channel_ok (JoinChannel e g pass c)"
  by (simp add: JoinChannel_def Let_def ok_enter_channel channel_ok_upd channel_ok_SetOwner)

lemma ok_LeaveChannel: "channel_ok c \<Longrightarrow> channel_ok (LeaveChannel e g send c)"
  by (simp add: LeaveChannel_def Let_def ok_exit_channel ok_next_owner)

lemma refuse_None: "refuse_moderation e c g = None \<longleftrightarrow>
    IsOn c g \<and> (IsModerator (info_of c g) \<or> ce_perm e g PERM_CHANGE_CHANNEL_NOT_MODERATOR)"
  by (simp add: refuse_moderation_def)

lemma on_nonzero: "channel_ok c \<Longrightarrow> IsOn c g \<Longrightarrow> g \<noteq> 0"
  by (auto simp: channel_ok_def IsOn_def)

text \<open>Each operation is refused with a notice, or does one thing.\<close>

lemma ch_quiet_refl [simp]: "ch_quiet c c"
  by (simp add: ch_quiet_def)

lemma ch_quiet_trans: "ch_quiet a b \<Longrightarrow> ch_quiet b c \<Longrightarrow> ch_quiet a c"
  by (simp add: ch_quiet_def) (metis channel.surjective channel.update_convs(14))

definition set_new_owner :: "channel_env \<Rightarrow> guid \<Rightarrow> channel \<Rightarrow> channel" where
  "set_new_owner e g c = SetOwnerGuid e g True (if IsOn c g then upd_info g (Info_SetModerator True) c else c\<lparr>ch_dangling := True\<rparr>)"

lemma KickOrBan_cases:
  obtains (refused) "ch_quiet c (KickOrBan e g n ban c)"
  | (kicked) v where "ce_by_name e n = Some v" "IsOn c v" "refuse_moderation e c g = None"
      "ownerGuid c = v \<Longrightarrow> g = v \<or> ce_perm e g PERM_CHANGE_CHANNEL_NOT_MODERATOR"
      "KickOrBan e g n ban c = (let d = kick_from_channel e g v ban c in
         if ownerGuid c = v \<and> ownershipEnabled c \<and> playersStore d \<noteq> [] then set_new_owner e g d else d)"
proof (cases "refuse_moderation e c g")
  case (Some x)
  then show thesis using refused by (simp add: KickOrBan_def quiet_ops)
next
  case None
  show thesis
  proof (cases "ce_by_name e n")
    case None': None
    then show thesis using refused None by (simp add: KickOrBan_def quiet_ops)
  next
    case (Some v)
    consider "v = 0 \<or> \<not> IsOn c v" | "IsOn c v" "v \<noteq> 0" "\<not> ce_perm e g PERM_CHANGE_CHANNEL_NOT_MODERATOR \<and> ownerGuid c = v \<and> g \<noteq> v"
      | "IsOn c v" "v \<noteq> 0" "\<not> (\<not> ce_perm e g PERM_CHANGE_CHANNEL_NOT_MODERATOR \<and> ownerGuid c = v \<and> g \<noteq> v)" by blast
    then show thesis
    proof cases
      case 1
      then show thesis using refused None Some by (simp add: KickOrBan_def quiet_ops)
    next
      case 2
      then show thesis using refused None Some by (simp add: KickOrBan_def quiet_ops)
    next
      case 3
      show thesis
      proof (rule kicked [OF Some 3(1) None])
        show "KickOrBan e g n ban c = (let d = kick_from_channel e g v ban c in
           if ownerGuid c = v \<and> ownershipEnabled c \<and> playersStore d \<noteq> [] then set_new_owner e g d else d)"
          using 3 None Some by (auto simp: KickOrBan_def set_new_owner_def Let_def)
      qed (use 3 in blast)
    qed
  qed
qed

lemma UnBan_cases:
  obtains (refused) "ch_quiet c (UnBan e g n c)"
  | (lifted) v where "refuse_moderation e c g = None" "ce_by_name e n = Some v" "IsBanned c v"
      "UnBan e g n c = UpdateChannelInDB (SendToAll e (PlayerUnbannedNotice g v) 0 (c\<lparr>bannedStore := removeAll v (bannedStore c)\<rparr>))"
proof (cases "refuse_moderation e c g = None \<and> (\<exists>v. ce_by_name e n = Some v \<and> v \<noteq> 0 \<and> IsBanned c v)")
  case False
  then show thesis by (intro refused) (auto simp: UnBan_def Let_def quiet_ops split: option.splits)
next
  case True
  then obtain v where v: "refuse_moderation e c g = None" "ce_by_name e n = Some v" "v \<noteq> 0" "IsBanned c v" by blast
  show thesis by (rule lifted [of v]) (use v in \<open>simp_all add: UnBan_def Let_def\<close>)
qed

lemma SetMode_cases:
  obtains (refused) "ch_quiet c (SetMode e g n md st c)"
  | (mode) v where "refuse_moderation e c g = None" "ce_by_name e n = Some v" "IsOn c v" "ownerGuid c = v \<Longrightarrow> g = v"
      "md \<Longrightarrow> \<not> (g = ownerGuid c \<and> n = ce_name e g)"
      "SetMode e g n md st c = (if md then SetModeratorGuid e v st c else SetMuteGuid e v st c)"
proof (cases "refuse_moderation e c g = None \<and> \<not> (g = ownerGuid c \<and> n = ce_name e g \<and> md)")
  case False
  then show thesis by (intro refused) (auto simp: SetMode_def quiet_ops split: option.splits)
next
  case True
  show thesis
  proof (cases "\<exists>v. ce_by_name e n = Some v \<and> v \<noteq> 0 \<and> IsOn c v \<and> \<not> other_side e g v \<and> (ownerGuid c = v \<longrightarrow> g = v)")
    case False
    with True show thesis by (intro refused) (auto simp: SetMode_def quiet_ops split: option.splits)
  next
    case found: True
    then obtain v where v: "ce_by_name e n = Some v" "v \<noteq> 0" "IsOn c v" "\<not> other_side e g v" "ownerGuid c = v \<Longrightarrow> g = v" by blast
    show thesis by (rule mode [of v]) (use v True in \<open>auto simp: SetMode_def\<close>)
  qed
qed

lemma SetOwner_cases:
  obtains (refused) "ch_quiet c (SetOwner e g n c)"
  | (given) v where "IsOn c g" "g = ownerGuid c \<or> ce_perm e g PERM_CHANGE_CHANNEL_NOT_MODERATOR" "ce_by_name e n = Some v" "IsOn c v"
      "SetOwner e g n c = SetOwnerGuid e v True (upd_info v (Info_SetModerator True) c)"
proof (cases "\<exists>v. IsOn c g \<and> (g = ownerGuid c \<or> ce_perm e g PERM_CHANGE_CHANNEL_NOT_MODERATOR) \<and> ce_by_name e n = Some v \<and> v \<noteq> 0 \<and>
    IsOn c v \<and> \<not> other_side e g v")
  case False
  then show thesis by (intro refused) (auto simp: SetOwner_def quiet_ops split: option.splits)
next
  case True
  then obtain v where v: "IsOn c g" "g = ownerGuid c \<or> ce_perm e g PERM_CHANGE_CHANNEL_NOT_MODERATOR" "ce_by_name e n = Some v" "v \<noteq> 0"
    "IsOn c v" "\<not> other_side e g v" by blast
  show thesis by (rule given [of v]) (use v in \<open>auto simp: SetOwner_def\<close>)
qed

lemma Join_cases:
  obtains (refused) "ch_quiet c (JoinChannel e g pass c)"
  | (joined) "\<not> IsOn c g" "\<not> IsBanned c g" "channelPassword c = [] \<or> pass = channelPassword c" "\<not> lfg_restricted e c g"
      "JoinChannel e g pass c = (let d = enter_channel e g c in if IsConstant c then d else let d = UpdateChannelUseageInDB d in
         if ownershipEnabled c \<and> (playersStore c = [] \<or> ce_gm_visible e g) \<and> (ownerGuid c = 0 \<or> isOwnerInvisible c)
         then upd_info g (Info_SetModerator True) (SetOwnerGuid e g (playersStore c \<noteq> [] \<and> ce_gm_visible e g)
                (d\<lparr>isOwnerInvisible := \<not> ce_gm_visible e g\<rparr>)) else d)"
proof (cases "IsOn c g \<or> IsBanned c g \<or> (channelPassword c \<noteq> [] \<and> pass \<noteq> channelPassword c) \<or> lfg_restricted e c g")
  case True
  then show thesis by (intro refused) (auto simp: JoinChannel_def quiet_ops)
next
  case False
  then show thesis by (intro joined) (auto simp: JoinChannel_def Let_def IsConstant_def)
qed

lemma Leave_cases:
  obtains (refused) "ch_quiet c (LeaveChannel e g s c)"
  | (left) "IsOn c g"
      "LeaveChannel e g s c = (let d = exit_channel e g s c in if IsConstant c then d else let d = UpdateChannelUseageInDB d in
         if IsOwner (info_of c g) \<and> ownershipEnabled c \<and> playersStore d \<noteq> []
         then let new = next_owner (playersStore d); d' = SetOwnerGuid e new True (upd_info new (Info_SetModerator True) d)
           in if pi_invisible (info_of d' new) then d'\<lparr>isOwnerInvisible := True\<rparr> else d'
         else d)"
proof (cases "IsOn c g")
  case False
  then show thesis by (intro refused) (auto simp: LeaveChannel_def quiet_ops)
next
  case True
  then show thesis by (intro left) (auto simp: LeaveChannel_def Let_def IsConstant_def)
qed

lemma ok_set_new_owner: "channel_ok c \<Longrightarrow> g \<noteq> 0 \<Longrightarrow> channel_ok (set_new_owner e g c)"
  unfolding set_new_owner_def by (intro channel_ok_SetOwner) (simp_all add: channel_ok_upd)

lemma ok_KickOrBan: assumes "channel_ok c" shows "channel_ok (KickOrBan e g n ban c)"
proof (cases rule: KickOrBan_cases [of c e g n ban])
  case (kicked v)
  have "g \<noteq> 0" "v \<noteq> 0" using on_nonzero [OF assms] kicked(2,3) by (auto simp: refuse_None)
  then show ?thesis using ok_kick_from_channel [OF assms, of v e g ban] by (simp add: kicked(5) Let_def ok_set_new_owner)
qed (use assms in \<open>simp add: channel_ok_quiet\<close>)

lemma ok_UnBan: assumes "channel_ok c" shows "channel_ok (UnBan e g n c)"
proof (cases rule: UnBan_cases [of c e g n])
  case (lifted v)
  have "channel_ok (c\<lparr>bannedStore := removeAll v (bannedStore c)\<rparr>)" using assms
    by (simp add: channel_ok_def distinct_removeAll)
  then show ?thesis by (simp add: lifted(4))
qed (use assms in \<open>simp add: channel_ok_quiet\<close>)

lemma mode_quiet: "ch_quiet (if IsOn c v \<and> IsModerator (info_of c v) \<noteq> b then upd_info v (Info_SetModerator b) c else c) (SetModeratorGuid e v b c)"
  "ch_quiet (if IsOn c v \<and> IsMuted (info_of c v) \<noteq> b then upd_info v (Info_SetMuted b) c else c) (SetMuteGuid e v b c)"
  by (simp_all add: SetModeratorGuid_def SetMuteGuid_def Let_def quiet_ops)

lemma channel_ok_mode: assumes "channel_ok c"
  shows "(IsOwner (info_of c v) \<Longrightarrow> b) \<Longrightarrow> channel_ok (SetModeratorGuid e v b c)" "channel_ok (SetMuteGuid e v b c)"
proof -
  have "channel_ok (upd_info v (Info_SetMuted b) c)" using assms by (rule channel_ok_upd) simp_all
  then show "channel_ok (SetMuteGuid e v b c)" using assms by (simp add: channel_ok_quiet [OF mode_quiet(2)])
  assume b: "IsOwner (info_of c v) \<Longrightarrow> b"
  have "channel_ok (upd_info v (Info_SetModerator b) c)" using assms by (rule channel_ok_upd) (use b in \<open>simp_all add: info_of_def\<close>)
  then show "channel_ok (SetModeratorGuid e v b c)" using assms by (simp add: channel_ok_quiet [OF mode_quiet(1)])
qed

lemma ok_SetMode: assumes "channel_ok c" "names_ok e" shows "channel_ok (SetMode e g n md st c)"
proof (cases rule: SetMode_cases [of c e g n md st])
  case (mode v)
  have "\<not> IsOwner (info_of c v)" if "md"
  proof
    assume "IsOwner (info_of c v)"
    then have "ownerGuid c = v" using mode(3) owner_iff [OF assms(1)] by (auto simp: IsOn_def info_of_def)
    then show False using mode(2,4,5) that assms(2) by (auto simp: names_ok_def)
  qed
  then show ?thesis using channel_ok_mode(1) [OF assms(1), of v st e] channel_ok_mode(2) [OF assms(1), of e v st] mode(6) by (simp split: if_splits)
qed (use assms in \<open>simp add: channel_ok_quiet\<close>)

lemma ok_SetOwner: assumes "channel_ok c" shows "channel_ok (SetOwner e g n c)"
proof (cases rule: SetOwner_cases [of c e g n])
  case (given v)
  then show ?thesis using assms on_nonzero by (auto intro: ok_SetOwnerGuid)
qed (use assms in \<open>simp add: channel_ok_quiet\<close>)

lemma ok_SetInvisible: "channel_ok c \<Longrightarrow> channel_ok (SetInvisible g on c)"
  by (simp add: SetInvisible_def Let_def channel_ok_upd)

lemma quiet_queries: "ch_quiet c (SendWhoOwner e g c)" "ch_quiet c (ListMembers e g c)" "ch_quiet c (Say e g what lang c)"
  "ch_quiet c (InvitePlayer e g n c)"
  by (auto simp: SendWhoOwner_def ListMembers_def Say_def InvitePlayer_def Let_def quiet_ops
      intro: ch_quiet_trans [OF quiet_ops(1) quiet_ops(1)] split: option.splits)

fun channel_op_ok :: "channel_env \<times> channel_op \<Rightarrow> bool" where
  "channel_op_ok (e, OpJoin g pass) \<longleftrightarrow> names_ok e \<and> g \<noteq> 0"
| "channel_op_ok (e, _) \<longleftrightarrow> names_ok e"

lemma op_names: "channel_op_ok (e, a) \<Longrightarrow> names_ok e"
  by (cases a) auto

lemma channel_ok_step: assumes "channel_op_ok x" "channel_ok c" shows "channel_ok (channel_step c x)"
proof -
  obtain e a where x: "x = (e, a)" by fastforce
  show ?thesis using assms op_names [of e a] quiet_queries [THEN channel_ok_quiet]
    by (cases a) (simp_all add: x ok_JoinChannel ok_LeaveChannel ok_KickOrBan ok_UnBan ok_SetMode ok_SetOwner ok_SetInvisible
        SetOwnership_def Password_def Announce_def Let_def split: option.splits)
qed

section \<open>The text of the ban list\<close>

lemma token_loop_word: "c \<notin> set w \<Longrightarrow> token_loop c cur (w @ c # s) = (if cur @ w = [] then token_loop c [] s else (cur @ w) # token_loop c [] s)"
  by (induction w arbitrary: cur) auto

lemma digit_code: "k < 10 \<Longrightarrow> (of_char (digit k) :: nat) = 48 + k"
  by (simp add: digit_def)

lemma raw_string_blank: "CHR '' '' \<notin> set (raw_string n)"
proof
  assume "CHR '' '' \<in> set (raw_string n)"
  then obtain k where "k < 10" "CHR '' '' = digit k" using raw_string_digits by blast
  then have "(of_char (CHR '' '') :: nat) = 48 + k" using digit_code by metis
  then show False by simp
qed

lemma Tokenize_ban_text: "Tokenize (ban_text gs) CHR '' '' = map (\<lambda>g. raw_string (unat g)) gs"
  unfolding Tokenize_def ban_text_def by (induction gs) (simp_all add: token_loop_word raw_string_blank)

lemma from_chars_append: "from_chars n (xs @ ys) = (case from_chars n xs of None \<Rightarrow> None | Some m \<Rightarrow> from_chars m ys)"
  by (induction n xs rule: from_chars.induct) (simp_all add: Let_def)

lemma from_chars_digit: "k < 10 \<Longrightarrow> from_chars n [digit k] = Some (n * 10 + k)"
  by (simp add: digit_code Let_def)

lemma from_chars_raw: "from_chars 0 (raw_string n) = Some n"
proof (induction n rule: raw_string.induct)
  case (1 n)
  show ?case
  proof (cases "n < 10")
    case True
    then show ?thesis using from_chars_digit [of n 0] by (simp add: raw_string.simps [of n])
  next
    case False
    then show ?thesis using 1 from_chars_digit [of "n mod 10" "n div 10"]
      by (simp add: raw_string.simps [of n] from_chars_append del: from_chars.simps)
  qed
qed

lemma StringTo_raw: "StringTo_u64 (raw_string (unat g)) = Some g"
proof -
  have "unat g < 2 ^ 64" using unsigned_less [of g] by simp
  then show ?thesis by (simp add: StringTo_u64_def from_chars_raw)
qed

definition add_ban :: "string \<Rightarrow> guid list \<Rightarrow> guid list" where
  "add_ban t bans = (let g = (case StringTo_u64 t of Some g \<Rightarrow> g | None \<Rightarrow> 0) in if g \<noteq> 0 then List.insert g bans else bans)"

lemma parse_bans_fold: "parse_bans s = fold add_ban (Tokenize s CHR '' '') []"
  by (simp add: parse_bans_def add_ban_def [abs_def])

lemma parse_bans_ok: "distinct (parse_bans s) \<and> 0 \<notin> set (parse_bans s)"
proof -
  have "distinct bs \<and> 0 \<notin> set bs \<Longrightarrow> distinct (fold add_ban ts bs) \<and> 0 \<notin> set (fold add_ban ts bs)" for ts bs
    by (induction ts arbitrary: bs) (auto simp: add_ban_def Let_def)
  then show ?thesis by (simp add: parse_bans_fold)
qed

lemma parse_ban_text: "0 \<notin> set gs \<Longrightarrow> set (parse_bans (ban_text gs)) = set gs"
proof -
  have "0 \<notin> set gs \<Longrightarrow> set (fold add_ban (map (\<lambda>g. raw_string (unat g)) gs) bs) = set gs \<union> set bs" for bs
    by (induction gs arbitrary: bs) (auto simp: add_ban_def StringTo_raw)
  then show "0 \<notin> set gs \<Longrightarrow> ?thesis" by (simp add: parse_bans_fold Tokenize_ban_text)
qed

lemma custom_start: "c = Channel_custom preserve row name team \<Longrightarrow> channel_ok c \<and> channelId c = 0 \<and> playersStore c = [] \<and> ownerGuid c = 0"
  using parse_bans_ok by (auto simp: Channel_custom_def channel_ok_def Let_def split: option.splits)

section \<open>A channel in use has an owner\<close>

text \<open>
  The owner is a member.  Kicking oneself and the switch \<^verbatim>\<open>.channel set ownership\<close> are left out: the
  first leaves the channel to somebody who is not on it, the second allows channels without owner.
  A channel that becomes empty is deleted by the handlers.
\<close>

definition has_owner :: "channel \<Rightarrow> bool" where
  "has_owner c \<longleftrightarrow> (\<exists>i. om_get (playersStore c) (ownerGuid c) = Some i \<and> IsOwner i)"

lemma has_owner_quiet: "ch_quiet c d \<Longrightarrow> has_owner d = has_owner c"
  by (simp add: has_owner_def quiet_fields)

fun keeps_owner :: "channel_env \<times> channel_op \<Rightarrow> bool" where
  "keeps_owner (e, OpJoin g pass) \<longleftrightarrow> names_ok e \<and> g \<noteq> 0"
| "keeps_owner (e, OpKickOrBan g n ban) \<longleftrightarrow> names_ok e \<and> ce_by_name e n \<noteq> Some g"
| "keeps_owner (e, OpOwnership b) \<longleftrightarrow> False"
| "keeps_owner (e, _) \<longleftrightarrow> names_ok e"

lemma keeps_owner_ok: "keeps_owner x \<Longrightarrow> channel_op_ok x"
  by (cases x rule: keeps_owner.cases) auto

inductive channel_in_use :: "channel \<Rightarrow> bool" where
  first: "ownershipEnabled c \<Longrightarrow> c = Channel_custom preserve row name team \<Longrightarrow> names_ok e \<Longrightarrow> g \<noteq> 0 \<Longrightarrow>
      IsOn (JoinChannel e g pass c) g \<Longrightarrow> channel_in_use (JoinChannel e g pass c)"
| next_step: "channel_in_use c \<Longrightarrow> keeps_owner x \<Longrightarrow> playersStore (channel_step c x) \<noteq> [] \<Longrightarrow> channel_in_use (channel_step c x)"

lemma has_owner_upd: "has_owner c \<Longrightarrow> (\<And>i. IsOwner i \<Longrightarrow> IsOwner (f i)) \<Longrightarrow> has_owner (upd_info g f c)"
  by (auto simp: has_owner_def)

lemma has_owner_SetOwner: "IsOn c g \<Longrightarrow> g \<noteq> 0 \<Longrightarrow> has_owner (SetOwnerGuid e g x c)"
  by (cases "ownerGuid c = g") (auto simp: has_owner_def IsOn_def)

lemma has_owner_flags [simp]: "has_owner (d\<lparr>isOwnerInvisible := b\<rparr>) = has_owner d" "has_owner (d\<lparr>channelPassword := p\<rparr>) = has_owner d"
  "has_owner (d\<lparr>announceEnabled := b\<rparr>) = has_owner d" "has_owner (d\<lparr>bannedStore := bs\<rparr>) = has_owner d"
  by (simp_all add: has_owner_def)

lemmas has_owner_notify [simp] = quiet_ops [THEN has_owner_quiet]

definition plays_on :: "channel \<Rightarrow> bool" where
  "plays_on c \<longleftrightarrow> channel_ok c \<and> ownershipEnabled c \<and> channelId c = 0 \<and> has_owner c"

lemma owner_Join: assumes "plays_on c" "g \<noteq> 0" shows "has_owner (JoinChannel e g pass c)"
proof (cases rule: Join_cases [of c e g pass])
  case joined
  have "has_owner (enter_channel e g c)" using assms(1) joined(1) by (auto simp: plays_on_def has_owner_def IsOn_def)
  moreover have "has_owner (SetOwnerGuid e g x ((UpdateChannelUseageInDB (enter_channel e g c))\<lparr>isOwnerInvisible := b\<rparr>))" for x b
    using assms(2) by (intro has_owner_SetOwner) (simp_all add: IsOn_def)
  ultimately show ?thesis by (auto simp: joined(5) Let_def intro!: has_owner_upd)
qed (use assms in \<open>simp add: plays_on_def has_owner_quiet\<close>)

lemma owner_Leave: assumes "plays_on c" "playersStore (LeaveChannel e g s c) \<noteq> []" shows "has_owner (LeaveChannel e g s c)"
proof (cases rule: Leave_cases [of c e g s])
  case left
  let ?ps = "om_erase g (playersStore c)"
  have c: "ownershipEnabled c" "\<not> IsConstant c" "channel_ok c" "has_owner c" using assms(1) by (simp_all add: plays_on_def IsConstant_def)
  show ?thesis
  proof (cases "IsOwner (info_of c g)")
    case False
    then have "g \<noteq> ownerGuid c" using c(4) by (auto simp: has_owner_def info_of_def)
    then have "has_owner (exit_channel e g s c)" using c(4) by (simp add: has_owner_def)
    then show ?thesis using False c by (simp add: left(2) Let_def)
  next
    case True
    show ?thesis
    proof (cases "?ps = []")
      case True': True
      then have "playersStore (LeaveChannel e g s c) = []" using c by (simp add: left(2) Let_def)
      with assms(2) show ?thesis by simp
    next
      case False
      then have "om_get ?ps (next_owner ?ps) \<noteq> None" using next_owner_on [of ?ps] by (simp only: om_get_None_iff) simp
      moreover from this have "next_owner ?ps \<noteq> 0" using c(3) by (metis channel_ok_def om_get_erase)
      ultimately have "has_owner (SetOwnerGuid e (next_owner ?ps) True (upd_info (next_owner ?ps) (Info_SetModerator True) d))"
        if "playersStore d = ?ps" for d
        using that by (intro has_owner_SetOwner) (simp_all only: IsOn_upd_info, simp_all only: IsOn_def simp_thms)
      then show ?thesis using True False c by (simp add: left(2) Let_def)
    qed
  qed
qed (use assms in \<open>simp add: plays_on_def has_owner_quiet\<close>)

lemma set_new_owner_fields [simp]: "ownerGuid (set_new_owner e g c) = g" "bannedStore (set_new_owner e g c) = bannedStore c"
  "channelPassword (set_new_owner e g c) = channelPassword c" "announceEnabled (set_new_owner e g c) = announceEnabled c"
  "ownershipEnabled (set_new_owner e g c) = ownershipEnabled c" "channelId (set_new_owner e g c) = channelId c"
  "persistentChannel (set_new_owner e g c) = persistentChannel c" "channelName (set_new_owner e g c) = channelName c"
  "channelTeam (set_new_owner e g c) = channelTeam c"
  by (simp_all add: set_new_owner_def)

lemma more_fields [simp]: "persistentChannel (enter_channel e g c) = persistentChannel c" "channelName (enter_channel e g c) = channelName c"
  "channelTeam (enter_channel e g c) = channelTeam c" "persistentChannel (exit_channel e g s c) = persistentChannel c"
  "channelName (exit_channel e g s c) = channelName c" "channelTeam (exit_channel e g s c) = channelTeam c"
  "persistentChannel (kick_from_channel e g v b c) = persistentChannel c" "channelName (kick_from_channel e g v b c) = channelName c"
  "channelTeam (kick_from_channel e g v b c) = channelTeam c" "persistentChannel (SetModeratorGuid e g on c) = persistentChannel c"
  "channelName (SetModeratorGuid e g on c) = channelName c" "channelTeam (SetModeratorGuid e g on c) = channelTeam c"
  "persistentChannel (SetMuteGuid e g on c) = persistentChannel c" "channelName (SetMuteGuid e g on c) = channelName c"
  "channelTeam (SetMuteGuid e g on c) = channelTeam c"
  by (simp_all add: enter_channel_def exit_channel_def kick_from_channel_def SetModeratorGuid_def SetMuteGuid_def Let_def)

lemma step_fields: assumes "\<And>b. snd x \<noteq> OpOwnership b"
  shows "channelId (channel_step c x) = channelId c \<and> channelTeam (channel_step c x) = channelTeam c \<and>
    ownershipEnabled (channel_step c x) = ownershipEnabled c \<and> persistentChannel (channel_step c x) = persistentChannel c \<and>
    channelName (channel_step c x) = channelName c"
  using assms quiet_queries [THEN quiet_fields(10)] quiet_queries [THEN quiet_fields(11)] quiet_queries [THEN quiet_fields(6)]
    quiet_queries [THEN quiet_fields(7)] quiet_queries [THEN quiet_fields(12)]
  by (cases x; cases "snd x") (auto simp: JoinChannel_def LeaveChannel_def KickOrBan_def UnBan_def Password_def SetMode_def SetInvisible_def SetOwner_def
      Announce_def Let_def split: option.splits)

lemma owner_Kick: assumes "plays_on c" "names_ok e" "ce_by_name e n \<noteq> Some g" shows "has_owner (KickOrBan e g n ban c)"
proof (cases rule: KickOrBan_cases [of c e g n ban])
  case (kicked v)
  let ?d = "kick_from_channel e g v ban c"
  have g: "g \<noteq> v" "IsOn c g" "g \<noteq> 0" using assms kicked(1,3) on_nonzero [of c g] by (auto simp: refuse_None plays_on_def)
  show ?thesis
  proof (cases "ownerGuid c = v")
    case False
    then have "has_owner ?d" using assms(1) by (simp add: has_owner_def plays_on_def)
    then show ?thesis using False by (simp add: kicked(5) Let_def)
  next
    case True
    have on: "IsOn ?d g" using g by (simp add: IsOn_def)
    moreover have "playersStore ?d \<noteq> []" using on by (auto simp: IsOn_def simp del: kick_fields(1))
    ultimately show ?thesis using True assms(1) g(3)
      by (simp add: kicked(5) Let_def plays_on_def set_new_owner_def has_owner_SetOwner)
  qed
qed (use assms in \<open>simp add: plays_on_def has_owner_quiet\<close>)

lemma owner_step: assumes "plays_on c" "keeps_owner x" "playersStore (channel_step c x) \<noteq> []"
  shows "plays_on (channel_step c x)"
proof -
  obtain e a where x: "x = (e, a)" by fastforce
  have ok: "names_ok e" using keeps_owner_ok [OF assms(2)] op_names by (simp add: x)
  have c: "has_owner c" "channel_ok c" using assms(1) by (simp_all add: plays_on_def)
  have "has_owner (channel_step c (e, a))"
  proof (cases a)
    case (OpJoin g pass)
    then show ?thesis using assms owner_Join by (simp add: x)
  next
    case (OpLeave g s)
    then show ?thesis using assms owner_Leave by (simp add: x)
  next
    case (OpKickOrBan g n ban)
    then show ?thesis using assms ok owner_Kick by (simp add: x)
  next
    case (OpUnBan g n)
    then show ?thesis using c by (cases rule: UnBan_cases [of c e g n]) (simp_all add: has_owner_quiet)
  next
    case (OpSetMode g n md st)
    then show ?thesis using c
      by (cases rule: SetMode_cases [of c e g n md st])
        (auto simp: has_owner_quiet has_owner_quiet [OF mode_quiet(1)] has_owner_quiet [OF mode_quiet(2)] intro: has_owner_upd)
  next
    case (OpInvisible g b)
    then show ?thesis using c by (auto simp: SetInvisible_def Let_def intro: has_owner_upd)
  next
    case (OpSetOwner g n)
    then show ?thesis using c on_nonzero
      by (cases rule: SetOwner_cases [of c e g n]) (auto simp: has_owner_quiet intro!: has_owner_SetOwner)
  qed (use c assms(2) quiet_queries [THEN has_owner_quiet] in
      \<open>auto simp: x Password_def Announce_def Let_def split: option.splits\<close>)
  moreover have "\<And>b. a \<noteq> OpOwnership b" using assms(2) by (auto simp: x)
  ultimately show ?thesis using assms(1) channel_ok_step [OF keeps_owner_ok [OF assms(2)]] step_fields [of x c] by (simp add: plays_on_def x)
qed

lemma live_plays_on: "channel_in_use c \<Longrightarrow> plays_on c"
proof (induction rule: channel_in_use.induct)
  case (first c preserve row name team e g pass)
  note c = custom_start [OF first(2)]
  show ?case
  proof (cases rule: Join_cases [of c e g pass])
    case joined
    have "has_owner (JoinChannel e g pass c)" using c first(1,4)
      by (auto simp: joined(5) Let_def IsConstant_def IsOn_def om_get_Cons intro!: has_owner_upd has_owner_SetOwner)
    then show ?thesis using c first step_fields [of "(e, OpJoin g pass)" c] by (simp add: plays_on_def ok_JoinChannel)
  next
    case refused
    then show ?thesis using first(5) c by (simp add: IsOn_def quiet_fields)
  qed
next
  case (next_step c x)
  then show ?case by (intro owner_step)
qed

section \<open>Who may do what\<close>

fun actor :: "channel_op \<Rightarrow> guid" where
  "actor (OpJoin g _) = g" | "actor (OpLeave g _) = g" | "actor (OpKickOrBan g _ _) = g" | "actor (OpUnBan g _) = g"
| "actor (OpPassword g _) = g" | "actor (OpSetMode g _ _ _) = g" | "actor (OpInvisible g _) = g" | "actor (OpSetOwner g _) = g"
| "actor (OpAnnounce g) = g" | "actor (OpOwnership _) = 0" | "actor (OpWhoOwner g) = g" | "actor (OpList g) = g"
| "actor (OpSay g _ _) = g" | "actor (OpInvite g _) = g" | "actor (OpUnwatch g) = g"

definition channel_authority :: "channel_env \<Rightarrow> channel \<Rightarrow> guid \<Rightarrow> bool" where
  "channel_authority e c g \<longleftrightarrow> IsOn c g \<and> (IsModerator (info_of c g) \<or> ce_perm e g PERM_CHANGE_CHANNEL_NOT_MODERATOR)"

definition settings :: "channel \<Rightarrow> string \<times> bool \<times> guid list" where
  "settings c = (channelPassword c, announceEnabled c, bannedStore c)"

lemma settings_quiet: "ch_quiet c d \<Longrightarrow> settings d = settings c"
  by (simp add: settings_def quiet_fields)

lemma settings_change: "\<not> channel_authority e c (actor a) \<Longrightarrow> settings (channel_step c (e, a)) = settings c"
proof (cases a)
  case (OpJoin g pass)
  then show ?thesis by (cases rule: Join_cases [of c e g pass]) (simp_all add: settings_quiet, simp add: settings_def Let_def)
next
  case (OpLeave g s)
  then show ?thesis by (cases rule: Leave_cases [of c e g s]) (simp_all add: settings_quiet, simp add: settings_def Let_def)
next
  case (OpKickOrBan g n ban)
  assume "\<not> channel_authority e c (actor a)"
  with OpKickOrBan show ?thesis
    by (cases rule: KickOrBan_cases [of c e g n ban]) (simp_all add: settings_quiet channel_authority_def refuse_None)
next
  case (OpUnBan g n)
  assume "\<not> channel_authority e c (actor a)"
  with OpUnBan show ?thesis by (cases rule: UnBan_cases [of c e g n]) (simp_all add: settings_quiet channel_authority_def refuse_None)
next
  case (OpSetMode g n md st)
  then show ?thesis by (cases rule: SetMode_cases [of c e g n md st]) (simp_all add: settings_quiet, simp add: settings_def)
next
  case (OpSetOwner g n)
  then show ?thesis by (cases rule: SetOwner_cases [of c e g n]) (simp_all add: settings_quiet, simp add: settings_def)
next
  case (OpPassword g pass)
  assume "\<not> channel_authority e c (actor a)"
  with OpPassword have "refuse_moderation e c g \<noteq> None" by (simp add: channel_authority_def refuse_None)
  with OpPassword show ?thesis by (auto simp: Password_def settings_def)
next
  case (OpAnnounce g)
  assume "\<not> channel_authority e c (actor a)"
  with OpAnnounce have "refuse_moderation e c g \<noteq> None" by (simp add: channel_authority_def refuse_None)
  with OpAnnounce show ?thesis by (auto simp: Announce_def settings_def)
qed (use quiet_queries [THEN settings_quiet] in \<open>simp_all add: settings_def SetInvisible_def SetOwnership_def Let_def\<close>)

text \<open>The place of a member: on the channel, no less a moderator, and muted as before.\<close>

definition keeps_place :: "channel \<Rightarrow> channel \<Rightarrow> guid \<Rightarrow> bool" where
  "keeps_place c d h \<longleftrightarrow> (\<forall>i. om_get (playersStore c) h = Some i \<longrightarrow> (\<exists>j. om_get (playersStore d) h = Some j \<and>
     IsMuted j = IsMuted i \<and> (IsModerator i \<longrightarrow> IsModerator j)))"

lemma keeps_place_quiet: "ch_quiet c d \<Longrightarrow> keeps_place b d h = keeps_place b c h"
  by (simp add: keeps_place_def quiet_fields)

lemma keeps_place_refl [simp]: "keeps_place c c h"
  by (simp add: keeps_place_def)

lemma keeps_place_owner: "keeps_place b c h \<Longrightarrow> g \<noteq> 0 \<Longrightarrow> keeps_place b (SetOwnerGuid e g x c) h"
  unfolding keeps_place_def by (cases "h = g"; cases "h = ownerGuid c"; fastforce)

lemma keeps_place_upd: "keeps_place b c h \<Longrightarrow> (\<And>i. IsMuted (f i) = IsMuted i) \<Longrightarrow> (\<And>i. IsModerator i \<Longrightarrow> IsModerator (f i)) \<Longrightarrow>
    keeps_place b (upd_info g f c) h"
  unfolding keeps_place_def by fastforce

lemma keeps_place_flag [simp]: "keeps_place b (c\<lparr>isOwnerInvisible := x\<rparr>) h = keeps_place b c h"
  by (simp add: keeps_place_def)

lemma keeps_place_other: "om_get (playersStore d) h = om_get (playersStore c) h \<Longrightarrow> keeps_place c d h"
  by (simp add: keeps_place_def)

lemma place_Join: assumes "g \<noteq> 0" "h \<noteq> g" shows "keeps_place c (JoinChannel e g p c) h"
proof (cases rule: Join_cases [of c e g p])
  case joined
  have "keeps_place c (enter_channel e g c) h" using assms(2) by (intro keeps_place_other) simp
  then show ?thesis using assms(1)
    by (auto simp: joined(5) Let_def keeps_place_quiet [OF quiet_ops(6)] intro!: keeps_place_upd keeps_place_owner)
qed (simp add: keeps_place_quiet)

lemma place_Leave: assumes "channel_ok c" "h \<noteq> g" shows "keeps_place c (LeaveChannel e g s c) h"
proof (cases rule: Leave_cases [of c e g s])
  case left
  let ?ps = "om_erase g (playersStore c)"
  have l: "keeps_place c (exit_channel e g s c) h" using assms(2) by (intro keeps_place_other) simp
  have "next_owner ?ps \<noteq> 0" if "?ps \<noteq> []" using next_owner_on [OF that] assms(1) by (metis channel_ok_def om_get_None_iff om_get_erase)
  then show ?thesis using l
    by (auto simp: left(2) Let_def keeps_place_quiet [OF quiet_ops(6)] intro!: keeps_place_upd keeps_place_owner)
qed (simp add: keeps_place_quiet)

lemma places_change:
  assumes "channel_ok c" "channel_op_ok (e, a)" "\<not> channel_authority e c (actor a)" "h \<noteq> actor a"
  shows "keeps_place c (channel_step c (e, a)) h"
proof (cases a)
  case (OpJoin g p)
  then show ?thesis using assms place_Join by simp
next
  case (OpLeave g s)
  then show ?thesis using assms place_Leave by simp
next
  case (OpKickOrBan g n ban)
  then show ?thesis using assms(3)
    by (cases rule: KickOrBan_cases [of c e g n ban]) (simp_all add: keeps_place_quiet channel_authority_def refuse_None)
next
  case (OpUnBan g n)
  then show ?thesis using assms(3)
    by (cases rule: UnBan_cases [of c e g n]) (simp_all add: keeps_place_quiet channel_authority_def refuse_None)
next
  case (OpSetMode g n md st)
  then show ?thesis using assms(3)
    by (cases rule: SetMode_cases [of c e g n md st]) (simp_all add: keeps_place_quiet channel_authority_def refuse_None)
next
  case (OpSetOwner g n)
  then show ?thesis using assms(1) on_nonzero
    by (cases rule: SetOwner_cases [of c e g n]) (auto simp: keeps_place_quiet intro!: keeps_place_owner keeps_place_upd)
next
  case (OpInvisible g b)
  then show ?thesis using assms(4) by (intro keeps_place_other) (simp add: SetInvisible_def Let_def)
qed (use quiet_queries [THEN keeps_place_quiet] in
    \<open>auto simp: Password_def Announce_def SetOwnership_def Let_def keeps_place_other split: option.splits\<close>)

lemma owner_protected:
  assumes "channel_ok c" "channel_op_ok (e, a)" "om_get (playersStore c) h = Some i" "IsOwner i" "h \<noteq> actor a"
    "\<not> ce_perm e (actor a) PERM_CHANGE_CHANNEL_NOT_MODERATOR" "isOwnerInvisible c \<Longrightarrow> \<forall>g p. a \<noteq> OpJoin g p"
  shows "om_get (playersStore (channel_step c (e, a))) h = Some i \<and> ownerGuid (channel_step c (e, a)) = h"
proof -
  have own: "ownerGuid c = h" "h \<noteq> 0" using owner_iff [OF assms(1,3,4)] by blast+
  show ?thesis
  proof (cases a)
    case (OpJoin g p)
    then show ?thesis using assms own
      by (cases rule: Join_cases [of c e g p]) (auto simp: quiet_fields Let_def)
  next
    case (OpLeave g s)
    then have "\<not> IsOwner (info_of c g)" if "IsOn c g" using that assms(5) owner_iff [OF assms(1), of g] own(1)
      by (auto simp: IsOn_def info_of_def)
    then show ?thesis using OpLeave assms own
      by (cases rule: Leave_cases [of c e g s]) (auto simp: quiet_fields Let_def)
  next
    case (OpKickOrBan g n ban)
    then show ?thesis using assms own
      by (cases rule: KickOrBan_cases [of c e g n ban]) (auto simp: quiet_fields Let_def)
  next
    case (OpUnBan g n)
    then show ?thesis using assms own by (cases rule: UnBan_cases [of c e g n]) (auto simp: quiet_fields)
  next
    case (OpSetMode g n md st)
    then show ?thesis using assms own
      by (cases rule: SetMode_cases [of c e g n md st]) (auto simp: quiet_fields mode_players)
  next
    case (OpSetOwner g n)
    then show ?thesis using assms own by (cases rule: SetOwner_cases [of c e g n]) (auto simp: quiet_fields)
  qed (use assms own quiet_queries [THEN quiet_fields(1)] quiet_queries [THEN quiet_fields(2)] in
      \<open>auto simp: Password_def Announce_def SetInvisible_def SetOwnership_def Let_def split: option.splits\<close>)
qed

section \<open>What the database keeps\<close>

text \<open>The row of the channel after the statements of a log, \<^verbatim>\<open>CHAR_UPD_CHANNEL\<close>.\<close>

definition update_row :: "channel_event \<Rightarrow> channel_row \<Rightarrow> channel_row" where
  "update_row x r = (case x of
     DbUpdateChannel announce ownership pass banned name team \<Rightarrow>
       if name = cr_name r then \<lparr>cr_name = name, cr_announce = announce, cr_ownership = ownership, cr_password = pass, cr_banned = banned\<rparr>
       else r
   | _ \<Rightarrow> r)"

definition saved_row :: "channel_row \<Rightarrow> channel_event list \<Rightarrow> channel_row" where
  "saved_row r xs = fold update_row xs r"

definition synced :: "channel_row \<Rightarrow> channel \<Rightarrow> bool" where
  "synced r c \<longleftrightarrow> persistentChannel c \<and> 0 \<notin> set (bannedStore c) \<and> (let q = saved_row r (ch_log c) in cr_name q = channelName c \<and>
     cr_announce q = announceEnabled c \<and> cr_ownership q = ownershipEnabled c \<and> cr_password q = channelPassword c \<and>
     set (parse_bans (cr_banned q)) = set (bannedStore c))"

lemma saved_row_event: "saved_row r (xs @ [x]) = update_row x (saved_row r xs)"
  by (simp add: saved_row_def)

lemma saved_row_name: "cr_name (saved_row r xs) = cr_name r"
proof -
  have "cr_name (update_row x q) = cr_name q" for x q by (simp add: update_row_def split: channel_event.split)
  then show ?thesis unfolding saved_row_def by (induction xs arbitrary: r) simp_all
qed

fun db_event :: "channel_event \<Rightarrow> bool" where
  "db_event (DbUpdateChannel _ _ _ _ _ _) = True"
| "db_event _ = False"

lemma synced_event: "\<not> db_event x \<Longrightarrow> synced r (event x c) = synced r c"
  by (cases x) (simp_all add: synced_def event_def saved_row_event update_row_def)

lemma synced_fold: "synced r (fold (\<lambda>p c. if P p then event (Sent p n) c else c) ps c) = synced r c"
  by (induction ps arbitrary: c) (simp_all add: synced_event)

lemma synced_notify [simp]: "synced r (SendToOne e n g c) = synced r c" "synced r (SendToAll e n g c) = synced r c"
  "synced r (SendToAllButOne e n g c) = synced r c" "synced r (JoinNotify e g c) = synced r c" "synced r (LeaveNotify e g c) = synced r c"
  "synced r (UpdateChannelUseageInDB c) = synced r c"
  by (simp_all add: SendToOne_def SendToAll_def SendToAllButOne_def JoinNotify_def LeaveNotify_def UpdateChannelUseageInDB_def
      synced_fold synced_event)

lemma synced_members [simp]: "synced r (c\<lparr>playersStore := ps\<rparr>) = synced r c" "synced r (c\<lparr>ownerGuid := g\<rparr>) = synced r c"
  "synced r (c\<lparr>isOwnerInvisible := b\<rparr>) = synced r c" "synced r (c\<lparr>ch_dangling := b\<rparr>) = synced r c"
  by (simp_all add: synced_def)

lemma synced_upd [simp]: "synced r (upd_info g f c) = synced r c"
  by (simp add: upd_info_def split: option.split)

lemma synced_Update: "persistentChannel c \<Longrightarrow> 0 \<notin> set (bannedStore c) \<Longrightarrow> channelName c = cr_name r \<Longrightarrow> synced r (UpdateChannelInDB c)"
  by (simp add: UpdateChannelInDB_def synced_def event_def saved_row_event update_row_def saved_row_name parse_ban_text Let_def)

lemma syncedD: "synced r c \<Longrightarrow> persistentChannel c \<and> 0 \<notin> set (bannedStore c) \<and> channelName c = cr_name r"
  by (simp add: synced_def Let_def saved_row_name)

lemma synced_again: "synced r c \<Longrightarrow> synced r (UpdateChannelInDB c)"
  using syncedD synced_Update by blast

lemma synced_SetOwner: "synced r c \<Longrightarrow> synced r (SetOwnerGuid e g x c)"
  by (simp add: SetOwnerGuid_def Let_def synced_again)

lemma synced_mode: "synced r c \<Longrightarrow> synced r (SetModeratorGuid e g b c)" "synced r c \<Longrightarrow> synced r (SetMuteGuid e g b c)"
  by (simp_all add: SetModeratorGuid_def SetMuteGuid_def Let_def)

lemma synced_moves: "synced r c \<Longrightarrow> synced r (enter_channel e g c)" "synced r c \<Longrightarrow> synced r (exit_channel e g s c)"
  by (simp_all add: enter_channel_def exit_channel_def Let_def synced_event)

lemma synced_kick: assumes "synced r c" "v \<noteq> 0" shows "synced r (kick_from_channel e g v ban c)"
proof -
  have "synced r (UpdateChannelInDB (c\<lparr>bannedStore := v # bannedStore c\<rparr>))"
    using syncedD [OF assms(1)] assms(2) by (intro synced_Update) auto
  then show ?thesis using assms(1) by (simp add: kick_from_channel_def Let_def synced_event)
qed

lemma synced_step: assumes "synced r c" "channel_ok c" "\<And>b. a \<noteq> OpOwnership b" shows "synced r (channel_step c (e, a))"
proof (cases a)
  case (OpKickOrBan g n ban)
  then show ?thesis using assms(1) by (simp add: KickOrBan_def Let_def synced_SetOwner synced_kick split: option.split)
next
  case (OpUnBan g n)
  have "synced r (UpdateChannelInDB (SendToAll e m 0 (c\<lparr>bannedStore := removeAll v (bannedStore c)\<rparr>)))" for m v
    using syncedD [OF assms(1)] by (intro synced_Update) auto
  then show ?thesis using OpUnBan assms(1) by (simp add: UnBan_def Let_def split: option.split)
next
  case (OpPassword g pass)
  have "synced r (UpdateChannelInDB (SendToAll e m 0 (c\<lparr>channelPassword := pass\<rparr>)))" for m
    using syncedD [OF assms(1)] by (intro synced_Update) auto
  then show ?thesis using OpPassword assms(1) by (simp add: Password_def split: option.split)
next
  case (OpAnnounce g)
  have "synced r (UpdateChannelInDB (SendToAll e m 0 (c\<lparr>announceEnabled := b\<rparr>)))" for m b
    using syncedD [OF assms(1)] by (intro synced_Update) auto
  then show ?thesis using OpAnnounce assms(1) by (simp add: Announce_def Let_def split: option.split)
qed (use assms(1,3) in \<open>simp_all add: JoinChannel_def LeaveChannel_def SetMode_def SetInvisible_def SetOwner_def SendWhoOwner_def
      ListMembers_def Say_def InvitePlayer_def Let_def synced_moves synced_SetOwner synced_mode synced_event split: option.split\<close>)

interpretation channel: guarded_machine "Channel_custom preserve row name team" channel_step channel_ok channel_op_ok
proof unfold_locales
  show "channel_ok (Channel_custom preserve row name team)" using custom_start by blast
next
  show "channel_op_ok x \<Longrightarrow> channel_ok c \<Longrightarrow> channel_ok (channel_step c x)" for x c by (rule channel_ok_step)
qed

text \<open>A built-in channel, and the runs in which the settings stay in the database.\<close>

interpretation builtin: guarded_machine "Channel_builtin dbc i team zone" channel_step channel_ok channel_op_ok
  by unfold_locales (simp add: Channel_builtin_def channel_ok_def, rule channel_ok_step)

definition first_row :: "channel_row option \<Rightarrow> string \<Rightarrow> channel_row" where
  "first_row row name = (case row of Some r \<Rightarrow> r
     | None \<Rightarrow> \<lparr>cr_name = name, cr_announce = True, cr_ownership = True, cr_password = [], cr_banned = []\<rparr>)"

lemma synced_first: "synced (first_row row name) (Channel_custom True row name team)"
  using parse_bans_ok by (cases row) (simp_all add: synced_def first_row_def Channel_custom_def Let_def saved_row_def update_row_def
    parse_bans_def Tokenize_def)

interpretation stored: guarded_machine "Channel_custom True row name team" channel_step
  "\<lambda>c. channel_ok c \<and> synced (first_row row name) c" "\<lambda>x. channel_op_ok x \<and> (\<forall>b. snd x \<noteq> OpOwnership b)"
proof unfold_locales
  show "channel_ok (Channel_custom True row name team) \<and> synced (first_row row name) (Channel_custom True row name team)"
    using custom_start synced_first by blast
next
  fix x c
  assume "channel_op_ok x \<and> (\<forall>b. snd x \<noteq> OpOwnership b)" "channel_ok c \<and> synced (first_row row name) c"
  then show "channel_ok (channel_step c x) \<and> synced (first_row row name) (channel_step c x)"
    using channel_ok_step synced_step by (cases x) auto
qed

section \<open>Properties\<close>

text \<open>
  C19: A custom channel in use - opened by a player who got on it, and never empty since - has exactly
  one owner, the member of \<^verbatim>\<open>_ownerGuid\<close>, who is a moderator; nobody on it is banned.
  Kicking oneself and the switching off of ownership are excluded.
\<close>

theorem live_channel_has_owner:
  assumes "channel_in_use c"
  shows "\<exists>i. om_get (playersStore c) (ownerGuid c) = Some i \<and> IsModerator i \<and>
    (\<forall>g j. om_get (playersStore c) g = Some j \<longrightarrow> (IsOwner j \<longleftrightarrow> g = ownerGuid c) \<and> \<not> IsBanned c g)"
proof -
  have ok: "channel_ok c" and "has_owner c" using live_plays_on [OF assms] by (simp_all add: plays_on_def)
  then obtain i where i: "om_get (playersStore c) (ownerGuid c) = Some i" "IsOwner i" unfolding has_owner_def by blast
  have "IsOwner j \<longleftrightarrow> g = ownerGuid c" "\<not> IsBanned c g" if j: "om_get (playersStore c) g = Some j" for g j
    using owner_iff [OF ok j] not_banned [OF ok j] i j by auto
  with i(1) owner_iff [OF ok i] show ?thesis by blast
qed

text \<open>
  C18: Moderation needs authority. Whoever is no moderator of the channel (nor has the permission to
  act as one) can neither change the password, the announcements or the bans, nor remove, mute or
  demote another member. And nobody without that permission can move or change the owner but the
  owner, with one exception: while the channel is marked as having an invisible owner, a player who
  joins takes it over. The mark can outlive the invisible owner, and then a visible owner loses the
  channel this way too (\<open>invisible_owner_leaves\<close>).
\<close>

theorem moderation_needs_authority:
  assumes "\<forall>x \<in> set ops. channel_op_ok x" "channel_op_ok (e, a)" "c = foldl channel_step (Channel_custom preserve row name team) ops"
    and "d = channel_step c (e, a)" "h \<noteq> actor a"
  shows "(\<not> channel_authority e c (actor a) \<longrightarrow> channelPassword d = channelPassword c \<and> announceEnabled d = announceEnabled c \<and>
      bannedStore d = bannedStore c \<and> (\<forall>i. om_get (playersStore c) h = Some i \<longrightarrow> (\<exists>j. om_get (playersStore d) h = Some j \<and>
        IsMuted j = IsMuted i \<and> (IsModerator i \<longrightarrow> IsModerator j)))) \<and>
    (\<not> ce_perm e (actor a) PERM_CHANGE_CHANNEL_NOT_MODERATOR \<and> (isOwnerInvisible c \<longrightarrow> (\<forall>g p. a \<noteq> OpJoin g p)) \<longrightarrow>
      (\<forall>i. om_get (playersStore c) h = Some i \<and> IsOwner i \<longrightarrow> om_get (playersStore d) h = Some i \<and> ownerGuid d = h))"
proof -
  have ok: "channel_ok c" unfolding assms(3) by (rule channel.guarded_run [OF assms(1)])
  have "channelPassword d = channelPassword c \<and> announceEnabled d = announceEnabled c \<and> bannedStore d = bannedStore c"
    if "\<not> channel_authority e c (actor a)" using settings_change [OF that] by (simp add: assms(4) settings_def)
  moreover have "\<exists>j. om_get (playersStore d) h = Some j \<and> IsMuted j = IsMuted i \<and> (IsModerator i \<longrightarrow> IsModerator j)"
    if "\<not> channel_authority e c (actor a)" "om_get (playersStore c) h = Some i" for i
    using places_change [OF ok assms(2) that(1) assms(5)] that(2) by (simp add: assms(4) keeps_place_def)
  moreover have "om_get (playersStore d) h = Some i \<and> ownerGuid d = h"
    if "\<not> ce_perm e (actor a) PERM_CHANGE_CHANNEL_NOT_MODERATOR" "isOwnerInvisible c \<longrightarrow> (\<forall>g p. a \<noteq> OpJoin g p)" "om_get (playersStore c) h = Some i" "IsOwner i" for i
    using owner_protected [OF ok assms(2) that(3,4) assms(5) that(1)] that(2) unfolding assms(4) by blast
  ultimately show ?thesis by blast
qed

text \<open>
  C20: A restart restores the settings. After any sequence of operations on a channel that is kept in
  the database (but the console switch for ownership), the row that its statements leave, loaded by
  the constructor, gives the same announcements, ownership and password, and the same bans.
\<close>

theorem restart_restores_channel:
  assumes "\<forall>x \<in> set ops. channel_op_ok x \<and> (\<forall>b. snd x \<noteq> OpOwnership b)"
  shows "let c = foldl channel_step (Channel_custom True row name team) ops;
       d = Channel_custom True (Some (saved_row (first_row row name) (ch_log c))) name team
     in announceEnabled d = announceEnabled c \<and> ownershipEnabled d = ownershipEnabled c \<and> channelPassword d = channelPassword c \<and>
       channelName d = channelName c \<and> (\<forall>g. IsBanned d g \<longleftrightarrow> IsBanned c g)"
  using stored.guarded_run [OF assms, of row name team]
  by (simp add: Let_def Channel_custom_def synced_def IsBanned_def)

text \<open>Two players: 1 opens a channel, 2 joins, and 1 bans 3, who tries to join.\<close>

definition chat_env :: channel_env where
  "chat_env = \<lparr>ce_connected = (\<lambda>g. True), ce_by_name = (\<lambda>n. if n = ''A'' then Some 1 else if n = ''B'' then Some 2 else None),
     ce_name = (\<lambda>g. if g = 1 then ''A'' else ''B''), ce_team = (\<lambda>g. 1), ce_perm = (\<lambda>g p. False), ce_gm_visible = (\<lambda>g. True),
     ce_ignores = (\<lambda>g h. False), ce_player_account = (\<lambda>g. True), ce_in_group = (\<lambda>g. False), ce_security = (\<lambda>g. 0),
     ce_visible_for = (\<lambda>g h. True), ce_restricted_lfg = False, ce_two_side = False, ce_gm_level_in_who = 0\<rparr>"

lemma demo_names: "names_ok chat_env"
  by (simp add: names_ok_def chat_env_def)

theorem live_channel_has_owner_witness:
  "let c = channel_step (JoinChannel chat_env 1 [] (Channel_custom False None ''c'' 1)) (chat_env, OpJoin 2 []) in
   ownerGuid c = 1 \<and> (\<exists>i. om_get (playersStore c) (ownerGuid c) = Some i \<and> IsModerator i \<and>
    (\<forall>g j. om_get (playersStore c) g = Some j \<longrightarrow> (IsOwner j \<longleftrightarrow> g = ownerGuid c) \<and> \<not> IsBanned c g))"
proof -
  let ?c = "JoinChannel chat_env 1 [] (Channel_custom False None ''c'' 1)"
  have "channel_in_use ?c" by (rule channel_in_use.first [OF _ refl demo_names]) (code_simp, simp, code_simp)
  moreover have "playersStore (channel_step ?c (chat_env, OpJoin 2 [])) \<noteq> []" by code_simp
  ultimately have channel_in_use: "channel_in_use (channel_step ?c (chat_env, OpJoin 2 []))"
    by (intro channel_in_use.next_step) (simp_all add: demo_names)
  have "ownerGuid (channel_step ?c (chat_env, OpJoin 2 [])) = 1" by code_simp
  then show ?thesis unfolding Let_def using live_channel_has_owner [OF channel_in_use] by (rule conjI)
qed

definition chat_ops :: "(channel_env \<times> channel_op) list" where
  "chat_ops = [(chat_env, OpJoin 1 []), (chat_env, OpJoin 2 [])]"

lemma chat_ops_ok: "\<forall>x \<in> set chat_ops. channel_op_ok x"
  by (simp add: chat_ops_def demo_names)

text \<open>
  Two runs that the properties exclude.  An owner who kicks himself stays the owner without being on
  the channel.  An owner who is made invisible and leaves hands over to the next player, but the
  channel goes on as one with an invisible owner: whoever joins next takes it over.
\<close>

lemma kicking_oneself:
  "let c = foldl channel_step (Channel_custom False None ''c'' 1) (chat_ops @ [(chat_env, OpKickOrBan 1 ''A'' False)]) in
   ownerGuid c = 1 \<and> \<not> IsOn c 1 \<and> IsOn c 2 \<and> ch_dangling c"
  by code_simp

lemma invisible_owner_leaves:
  "let c = foldl channel_step (Channel_custom False None ''c'' 1) (chat_ops @ [(chat_env, OpInvisible 1 True), (chat_env, OpLeave 1 True)]) in
   ownerGuid c = 2 \<and> \<not> pi_invisible (info_of c 2) \<and> isOwnerInvisible c \<and> ownerGuid (channel_step c (chat_env, OpJoin 3 [])) = 3"
  by code_simp

text \<open>The second player tries to kick the owner.\<close>

theorem moderation_needs_authority_witness:
  "let c = foldl channel_step (Channel_custom False None ''c'' 1) chat_ops; d = channel_step c (chat_env, OpKickOrBan 2 ''A'' False) in
   (\<not> channel_authority chat_env c 2 \<and> om_get (playersStore c) 1 = Some \<lparr>pi_flags = 3, pi_invisible = False\<rparr>) \<and>
   (om_get (playersStore d) 1 = Some \<lparr>pi_flags = 3, pi_invisible = False\<rparr> \<and> ownerGuid d = 1)"
proof -
  define c where "c = foldl channel_step (Channel_custom False None ''c'' 1) chat_ops"
  have a: "\<not> channel_authority chat_env c 2" "om_get (playersStore c) 1 = Some \<lparr>pi_flags = 3, pi_invisible = False\<rparr>"
    "\<not> isOwnerInvisible c" "\<not> ce_perm chat_env 2 PERM_CHANGE_CHANNEL_NOT_MODERATOR" unfolding c_def by code_simp+
  moreover have "IsOwner \<lparr>pi_flags = 3, pi_invisible = False\<rparr>" by code_simp
  moreover have op: "channel_op_ok (chat_env, OpKickOrBan 2 ''A'' False)" "(1 :: guid) \<noteq> actor (OpKickOrBan 2 ''A'' False)"
    by (simp_all add: demo_names)
  moreover note moderation_needs_authority [OF chat_ops_ok op(1) c_def refl op(2)]
  ultimately have "om_get (playersStore (channel_step c (chat_env, OpKickOrBan 2 ''A'' False))) 1 = Some \<lparr>pi_flags = 3, pi_invisible = False\<rparr>
      \<and> ownerGuid (channel_step c (chat_env, OpKickOrBan 2 ''A'' False)) = 1"
    by (simp only: actor.simps) blast
  with a show ?thesis unfolding Let_def c_def [symmetric] by blast
qed

definition demo_settings :: "(channel_env \<times> channel_op) list" where
  "demo_settings = [(chat_env, OpJoin 1 []), (chat_env, OpJoin 2 []), (chat_env, OpKickOrBan 1 ''B'' True), (chat_env, OpPassword 1 ''x'')]"

theorem restart_restores_channel_witness:
  "let c = foldl channel_step (Channel_custom True None ''c'' 1) demo_settings;
       d = Channel_custom True (Some (saved_row (first_row None ''c'') (ch_log c))) ''c'' 1
     in channelPassword c = ''x'' \<and> bannedStore c = [2] \<and> announceEnabled d = announceEnabled c \<and> ownershipEnabled d = ownershipEnabled c \<and>
       channelPassword d = channelPassword c \<and> channelName d = channelName c \<and> (\<forall>g. IsBanned d g \<longleftrightarrow> IsBanned c g)"
proof -
  have "\<forall>x \<in> set demo_settings. channel_op_ok x \<and> (\<forall>b. snd x \<noteq> OpOwnership b)" by (simp add: demo_settings_def demo_names)
  from restart_restores_channel [OF this, of None "''c''" 1]
  have r: "let c = foldl channel_step (Channel_custom True None ''c'' 1) demo_settings;
       d = Channel_custom True (Some (saved_row (first_row None ''c'') (ch_log c))) ''c'' 1
     in announceEnabled d = announceEnabled c \<and> ownershipEnabled d = ownershipEnabled c \<and>
       channelPassword d = channelPassword c \<and> channelName d = channelName c \<and> (\<forall>g. IsBanned d g \<longleftrightarrow> IsBanned c g)" .
  have "channelPassword (foldl channel_step (Channel_custom True None ''c'' 1) demo_settings) = ''x''"
    "bannedStore (foldl channel_step (Channel_custom True None ''c'' 1) demo_settings) = [2]" by code_simp+
  with r show ?thesis unfolding Let_def by blast
qed

end
