(* ===== verification/Spec2Isabelle.thy ===== *)
theory Spec2Isabelle
  imports Prelude Event_Map Spell_Queue Action_Arbiter Movement_Arbiter Area_Authority
    Lockout_Registry Duty_Claims Play_Session Phase_Shift Combat_Manager Lfg_Roles Lfg_Queue Lfg_Matching
    Lfg_Manager Lfg_Manager_Ops Lfg_Manager_Inv Lfg_Manager_Rules Lfg_Manager_Join
    Threat_Manager Threat_Ops Threat_Select Threat_Inv Threat_Heap Threat_Rules Threat_Combat Permissions
    Channel Channel_Rules
begin

text \<open>
  A verification library for the game server (TrinityCore with a bot runtime). The server is an
  event loop over maps full of units; most of its code acts directly on live objects, client data
  tables, packets and the database. This library models the kernels that carry the decisions of
  that loop and whose state and operations can be stated on their own.

  \<^bold>\<open>Parts and theories\<close> (paths are under \<^verbatim>\<open>src/src/\<close>)
  \<^item> \<^theory_text>\<open>Prelude\<close>: machine integers, stable sorting by a C++ comparator, ordered maps and
    multimaps, and the contracts that several parts share as locales: \<open>strict_weak_order\<close>,
    \<open>key_map\<close>, \<open>op_machine\<close> (an invariant that every operation keeps holds after every run) and
    \<open>guarded_machine\<close> (the same under a condition on the operations).
  \<^item> \<^theory_text>\<open>Event_Map\<close>: \<^verbatim>\<open>common/Utilities/EventMap\<close>, the timers of creature scripts. A call of
    \<^verbatim>\<open>Update\<close> advances the 32 bit clock, \<^verbatim>\<open>ExecuteEvent\<close> returns the next due event.
  \<^item> \<^theory_text>\<open>Spell_Queue\<close>: \<^verbatim>\<open>server/game/Bots/BotSpellQueue\<close>, what a bot wants to cast once its
    global cooldown or cast ends.
  \<^item> \<^theory_text>\<open>Action_Arbiter\<close>: \<^verbatim>\<open>server/game/Bots/BotActionArbiter.h\<close>. Once per tick the bot's code
    submits candidates; \<^verbatim>\<open>Resolve\<close> runs those that no gate holds back, on disjoint resource lanes,
    and keeps the failure record of each key.
  \<^item> \<^theory_text>\<open>Movement_Arbiter\<close>: \<^verbatim>\<open>server/game/Bots/BotMovementArbiter.h\<close> and the parts of the world
    population manager that build its requests and recognise a running path. The callbacks of the
    arbiter that move a bot ask this lease.
  \<^item> \<^theory_text>\<open>Area_Authority\<close>: \<^verbatim>\<open>server/game/Bots/BotRaidAreaAuthority.h\<close>, what a raid member must not
    attack.
  \<^item> \<^theory_text>\<open>Lockout_Registry\<close>: \<^verbatim>\<open>server/game/Bots/BotRaidLockoutRegistry.cpp\<close>, with the admission gates
    of \<^verbatim>\<open>BotRaidLockoutCohortContext.cpp\<close> and the operations of \<^verbatim>\<open>Groups/Group.cpp\<close> and
    \<^verbatim>\<open>Instances/InstanceSaveMgr\<close> they drive.
  \<^item> \<^theory_text>\<open>Duty_Claims\<close> and \<^theory_text>\<open>Play_Session\<close>: the parsers of raid chat
    (\<^verbatim>\<open>server/game/Bots/BotRaidDutyClaims.h\<close>, \<^verbatim>\<open>BotPlayPullTimer.h\<close>), the table of claims, the
    encounter edges and the choice of roster slots (\<^verbatim>\<open>BotPlaySession.h\<close>).
  \<^item> \<^theory_text>\<open>Phase_Shift\<close>: \<^verbatim>\<open>server/game/Phasing\<close>, which objects can see each other.
  \<^item> \<^theory_text>\<open>Combat_Manager\<close>: \<^verbatim>\<open>server/game/Combat/CombatManager\<close>, which units are in combat.
  \<^item> \<^theory_text>\<open>Threat_Manager\<close> and \<^theory_text>\<open>Threat_Ops\<close>: \<^verbatim>\<open>server/game/Combat/ThreatManager\<close>, whom a creature
    attacks: the references and their three places, the choice of a victim, and the operations that
    add, scale, redirect and remove threat. \<^theory_text>\<open>Threat_Select\<close> holds the order of the list and the rule
    of choice, \<^theory_text>\<open>Threat_Inv\<close> that every operation keeps the links, \<^theory_text>\<open>Threat_Heap\<close> which changes are
    reported to the heap, \<^theory_text>\<open>Threat_Rules\<close> the properties. \<^theory_text>\<open>Threat_Combat\<close> runs the two managers
    together, each calling the other, under the contract \<open>combat_service\<close>.
  \<^item> \<^theory_text>\<open>Lfg_Roles\<close>: \<^verbatim>\<open>server/game/DungeonFinding/LFGMgr.cpp\<close>, whether a party fills the roles of a
    dungeon. \<^theory_text>\<open>Lfg_Queue\<close>: \<^verbatim>\<open>server/game/DungeonFinding/LFGQueue\<close>, who waits and which combinations
    fit; \<^theory_text>\<open>Lfg_Matching\<close> holds what the search for groups promises.
  \<^item> \<^theory_text>\<open>Lfg_Manager\<close> and \<^theory_text>\<open>Lfg_Manager_Ops\<close>: \<^verbatim>\<open>LFGMgr\<close>, which owns a queue for each team. The
    first has the data of players and groups, role checks, proposals and leaving; the second kick
    votes, the hooks that the group and player code runs (\<^verbatim>\<open>LFGScripts.cpp\<close>), making a group out of
    a proposal, the periodic update, rewards, joining, the client's requests
    (\<^verbatim>\<open>Handlers/LFGHandler.cpp\<close>) and \<open>lfg_step\<close>, one step of the manager. \<^theory_text>\<open>Lfg_Manager_Inv\<close> holds
    its invariant, \<^theory_text>\<open>Lfg_Manager_Rules\<close> and \<^theory_text>\<open>Lfg_Manager_Join\<close> the properties. A call of the group
    code can run hooks of the manager before it returns; which ones is an argument (\<open>me_hooks\<close>), and
    the invariant assumes what \<open>quiet_hooks\<close> says of it.
  \<^item> \<^theory_text>\<open>Permissions\<close>: \<^verbatim>\<open>server/game/Accounts/RBAC\<close> with the tables of \<^verbatim>\<open>AccountMgr\<close>, what an
    account may do: the granted and denied permissions, the links that expand them, and the rows
    that restore them.
  \<^item> \<^theory_text>\<open>Channel\<close>: \<^verbatim>\<open>server/game/Chat/Channels/Channel\<close>, the chat channels: members, owner, moderators,
    bans and messages. \<^theory_text>\<open>Channel_Rules\<close> holds what they promise: that a channel in use has an owner,
    who may change what, and that a restart restores the settings.

  \<^bold>\<open>How the model reads.\<close> A class is a \<^theory_text>\<open>record\<close> of its fields, a method a function that returns
  the new record, named as in the code, loops are recursive functions (suffix \<open>_loop\<close> or
  \<open>_scan\<close>), and integers have the width of the source and wrap. Ordered containers are lists in
  key order, hash containers whose order cannot matter are maps or sets. What a part reads from
  code outside it (units, conditions, client tables, random numbers) is an argument. Floating point
  values are rational numbers and nothing is rounded, so amounts are exact here where the code's are
  near; no property rests on a sum of amounts that rounding could move across a bound.

  \<^bold>\<open>What the lemmas show.\<close> For each part: its invariant and that every operation keeps it (an
  interpretation of \<open>op_machine\<close>, so that the properties speak of every reachable state); the
  result of each operation on every branch; and the properties, numbered by the claim ids in the
  texts above them.

  \<^bold>\<open>Bounds.\<close> Loops end by structure or by a measure, with two exceptions. The search for groups
  of \<^theory_text>\<open>Lfg_Queue\<close> takes at most as many rounds as there are newcomers, and \<open>clear_all_loop\<close> of
  \<^theory_text>\<open>Threat_Ops\<close> as many turns as there are entries; both are proved to be enough. The width of a
  counter appears as a hypothesis where it matters (serials of the spell queue, calls of one
  \<^verbatim>\<open>Tick\<close>).

  \<^bold>\<open>Not modelled.\<close> Players, units, spells and auras, maps and grids, path finding, scripts and
  encounter content, packets, the database, the servers' start-up, the extraction tools and the
  vendored code. Within the modelled parts: JSON telemetry and logging, and what the texts of the
  theories name; of the dungeon finder also the teleports, the loading of dungeons and rewards from
  the database, the locks of a player (\<^verbatim>\<open>GetLockedDungeons\<close>, an argument) and the layout of its
  packets. The rest of the bot runtime and of the game code reads and writes live objects at every
  step, so that a model of it would be one of assumptions. Concurrency appears where the code has it
  as a lock around a whole call: calls are atomic steps.

  \<^bold>\<open>Plan.\<close> What could be added in the same style: the group operations around leaders and loot, and
  the aura and area handlers of the phasing code.
\<close>

end
